(* ===== verification/Prelude.thy ===== *)
theory Prelude
  imports Main "HOL-Library.AList"
begin

section \<open>Shared types, effects and lemmas\<close>

text \<open>
  The vocabulary every other theory uses: the effect type of the service's methods (a state,
  and a result that is an exception or a value), the combinators that stand for sequencing,
  \<open>try/catch\<close> and \<open>for ... of\<close>, and the two proof notions the component theories state
  their lemmas with. \<open>keeps I m\<close> says that \<open>m\<close> preserves \<open>I\<close> on every exit, thrown or
  returned; \<open>moves R m\<close> says that every exit state is related to the entry state, which is how
  "the archive only grows" and "the lifecycle only moves forward" are stated.

  A JavaScript exception leaves the writes made before it in place, so the state is returned on
  the error exit too.
\<close>

named_theorems keeps_intro "preservation of an invariant by an effect"
named_theorems gives_intro "what an effect returns under an invariant"
named_theorems post_intro "what holds after an effect returned"
named_theorems moves_intro "relation between the entry and the exit state of an effect"
named_theorems eff_simps "unfolding of the effect combinators"

subsection \<open>Effects\<close>

type_synonym ('s, 'e, 'a) eff = "'s \<Rightarrow> ('e + 'a) \<times> 's"

definition ret :: "'a \<Rightarrow> ('s, 'e, 'a) eff" where
  [eff_simps]: "ret x s = (Inr x, s)"

definition raise :: "'e \<Rightarrow> ('s, 'e, 'a) eff" where
  [eff_simps]: "raise e s = (Inl e, s)"

definition bnd :: "('s, 'e, 'a) eff \<Rightarrow> ('a \<Rightarrow> ('s, 'e, 'b) eff) \<Rightarrow> ('s, 'e, 'b) eff" where
  [eff_simps]: "bnd m f s = (case m s of (Inl e, t) \<Rightarrow> (Inl e, t) | (Inr x, t) \<Rightarrow> f x t)"

definition andthen :: "('s, 'e, 'a) eff \<Rightarrow> ('s, 'e, 'b) eff \<Rightarrow> ('s, 'e, 'b) eff" where
  [eff_simps]: "andthen m k s = (case m s of (Inl e, t) \<Rightarrow> (Inl e, t) | (Inr x, t) \<Rightarrow> k t)"

text \<open>\<open>if (!c) throw e\<close>.\<close>

definition require :: "bool \<Rightarrow> 'e \<Rightarrow> ('s, 'e, unit) eff" where
  [eff_simps]: "require c e s = (if c then Inr () else Inl e, s)"

text \<open>\<open>try { m } catch (e) { h e }\<close>: the handler runs in the state the exception left.\<close>

definition catch :: "('s, 'e, 'a) eff \<Rightarrow> ('e \<Rightarrow> ('s, 'e, 'a) eff) \<Rightarrow> ('s, 'e, 'a) eff" where
  [eff_simps]: "catch m h s = (case m s of (Inl e, t) \<Rightarrow> h e t | (Inr x, t) \<Rightarrow> (Inr x, t))"

text \<open>A result already computed: a parse that may have thrown.\<close>

definition lift_sum :: "'e + 'a \<Rightarrow> ('s, 'e, 'a) eff" where
  [eff_simps]: "lift_sum r s = (r, s)"

definition gets :: "('s \<Rightarrow> 'a) \<Rightarrow> ('s, 'e, 'a) eff" where
  [eff_simps]: "gets f s = (Inr (f s), s)"

definition modify :: "('s \<Rightarrow> 's) \<Rightarrow> ('s, 'e, unit) eff" where
  [eff_simps]: "modify f s = (Inr (), f s)"

fun for_each :: "'x list \<Rightarrow> ('x \<Rightarrow> ('s, 'e, unit) eff) \<Rightarrow> ('s, 'e, unit) eff" where
  "for_each [] f s = (Inr (), s)"
| "for_each (x # xs) f s = (case f x s of (Inl e, t) \<Rightarrow> (Inl e, t) | (Inr u, t) \<Rightarrow> for_each xs f t)"

text \<open>A loop that threads a local variable and returns it.\<close>

fun fold_eff :: "('x \<Rightarrow> 'a \<Rightarrow> ('s, 'e, 'a) eff) \<Rightarrow> 'x list \<Rightarrow> 'a \<Rightarrow> ('s, 'e, 'a) eff" where
  "fold_eff f [] a s = (Inr a, s)"
| "fold_eff f (x # xs) a s = (case f x a s of (Inl e, t) \<Rightarrow> (Inl e, t) | (Inr b, t) \<Rightarrow> fold_eff f xs b t)"

subsection \<open>Preservation on every exit\<close>

definition keeps :: "('s \<Rightarrow> bool) \<Rightarrow> ('s, 'e, 'a) eff \<Rightarrow> bool" where
  "keeps I m \<longleftrightarrow> (\<forall>s. I s \<longrightarrow> I (snd (m s)))"

lemma keepsI: "(\<And>s r t. I s \<Longrightarrow> m s = (r, t) \<Longrightarrow> I t) \<Longrightarrow> keeps I m"
  unfolding keeps_def by (metis prod.collapse)

lemma keepsD: "keeps I m \<Longrightarrow> I s \<Longrightarrow> m s = (r, t) \<Longrightarrow> I t"
  unfolding keeps_def by (metis snd_conv)

lemma keeps_ret [keeps_intro]: "keeps I (ret x)"
  and keeps_raise [keeps_intro]: "keeps I (raise e)"
  and keeps_require [keeps_intro]: "keeps I (require c e)"
  and keeps_lift_sum [keeps_intro]: "keeps I (lift_sum r)"
  and keeps_gets [keeps_intro]: "keeps I (gets f)"
  by (simp_all add: keeps_def eff_simps)

lemma keeps_bnd [keeps_intro]: "keeps I m \<Longrightarrow> (\<And>x. keeps I (f x)) \<Longrightarrow> keeps I (bnd m f)"
  by (rule keepsI) (auto simp: bnd_def split: prod.splits sum.splits dest: keepsD)

lemma keeps_andthen [keeps_intro]: "keeps I m \<Longrightarrow> keeps I k \<Longrightarrow> keeps I (andthen m k)"
  by (rule keepsI) (auto simp: andthen_def split: prod.splits sum.splits dest: keepsD)

lemma keeps_catch [keeps_intro]: "keeps I m \<Longrightarrow> (\<And>e. keeps I (h e)) \<Longrightarrow> keeps I (catch m h)"
  by (rule keepsI) (auto simp: catch_def split: prod.splits sum.splits dest: keepsD)

lemma keeps_if [keeps_intro]: "(c \<Longrightarrow> keeps I m) \<Longrightarrow> (\<not> c \<Longrightarrow> keeps I k) \<Longrightarrow> keeps I (if c then m else k)"
  by simp

lemma keeps_let [keeps_intro]: "(\<And>x. x = a \<Longrightarrow> keeps I (f x)) \<Longrightarrow> keeps I (let x = a in f x)"
  by simp

lemma keeps_case_option [keeps_intro]:
  "keeps I m \<Longrightarrow> (\<And>x. v = Some x \<Longrightarrow> keeps I (f x)) \<Longrightarrow> keeps I (case v of None \<Rightarrow> m | Some x \<Rightarrow> f x)"
  by (cases v) auto

lemma keeps_case_sum [keeps_intro]:
  "(\<And>e. v = Inl e \<Longrightarrow> keeps I (g e)) \<Longrightarrow> (\<And>x. v = Inr x \<Longrightarrow> keeps I (f x)) \<Longrightarrow>
    keeps I (case v of Inl e \<Rightarrow> g e | Inr x \<Rightarrow> f x)"
  by (cases v) auto

lemma keeps_case_prod [keeps_intro]:
  "(\<And>a b. v = (a, b) \<Longrightarrow> keeps I (f a b)) \<Longrightarrow> keeps I (case v of (a, b) \<Rightarrow> f a b)"
  by (cases v) auto

lemma keeps_for_each [keeps_intro]:
  "(\<And>x. x \<in> set xs \<Longrightarrow> keeps I (f x)) \<Longrightarrow> keeps I (for_each xs f)"
proof (induction xs)
  case Nil
  then show ?case by (simp add: keeps_def)
next
  case (Cons x xs)
  then show ?case
    by (intro keepsI) (auto split: prod.splits sum.splits dest: keepsD)
qed

lemma keeps_fold_eff [keeps_intro]:
  "(\<And>x a. x \<in> set xs \<Longrightarrow> keeps I (f x a)) \<Longrightarrow> keeps I (fold_eff f xs a)"
proof (induction xs arbitrary: a)
  case Nil
  then show ?case by (simp add: keeps_def)
next
  case (Cons x xs)
  have step: "keeps I (f x a)" and rest: "\<And>b. keeps I (fold_eff f xs b)"
    using Cons by auto
  show ?case
    by (intro keepsI) (auto split: prod.splits sum.splits dest: keepsD [OF step] keepsD [OF rest])
qed

lemma keeps_conj: "keeps I m \<Longrightarrow> keeps J m \<Longrightarrow> keeps (\<lambda>s. I s \<and> J s) m"
  by (simp add: keeps_def)

text \<open>What an effect returns when it starts in the invariant: \<open>gives I Q m\<close>. It carries facts about
  a loaded value into the rest of the method.\<close>

definition gives :: "('s \<Rightarrow> bool) \<Rightarrow> ('a \<Rightarrow> bool) \<Rightarrow> ('s, 'e, 'a) eff \<Rightarrow> bool" where
  "gives I Q m \<longleftrightarrow> (\<forall>s x t. I s \<longrightarrow> m s = (Inr x, t) \<longrightarrow> Q x)"

lemma givesI: "(\<And>s x t. I s \<Longrightarrow> m s = (Inr x, t) \<Longrightarrow> Q x) \<Longrightarrow> gives I Q m"
  unfolding gives_def by blast

lemma givesD: "gives I Q m \<Longrightarrow> I s \<Longrightarrow> m s = (Inr x, t) \<Longrightarrow> Q x"
  unfolding gives_def by blast

lemma gives_True [gives_intro]: "gives I (\<lambda>x. True) m"
  and gives_ret [gives_intro]: "Q x \<Longrightarrow> gives I Q (ret x)"
  and gives_raise [gives_intro]: "gives I Q (raise e)"
  by (auto simp: gives_def eff_simps)

lemma gives_bnd:
  "keeps I m \<Longrightarrow> gives I P m \<Longrightarrow> (\<And>x. P x \<Longrightarrow> gives I Q (f x)) \<Longrightarrow> gives I Q (bnd m f)"
  by (rule givesI) (auto simp: bnd_def split: prod.splits sum.splits dest: keepsD givesD)

lemma gives_bnd_any [gives_intro]: "keeps I m \<Longrightarrow> (\<And>x. gives I Q (f x)) \<Longrightarrow> gives I Q (bnd m f)"
  by (rule gives_bnd [of _ _ "\<lambda>x. True"]) (auto intro: gives_intro)

lemma gives_andthen [gives_intro]: "keeps I m \<Longrightarrow> gives I Q k \<Longrightarrow> gives I Q (andthen m k)"
  by (rule givesI) (auto simp: andthen_def split: prod.splits sum.splits dest: keepsD givesD)

lemma gives_if [gives_intro]: "(c \<Longrightarrow> gives I Q m) \<Longrightarrow> (\<not> c \<Longrightarrow> gives I Q k) \<Longrightarrow> gives I Q (if c then m else k)"
  by simp

lemma gives_let [gives_intro]: "(\<And>x. x = a \<Longrightarrow> gives I Q (f x)) \<Longrightarrow> gives I Q (let x = a in f x)"
  by simp

lemma gives_case_option [gives_intro]:
  "gives I Q m \<Longrightarrow> (\<And>x. v = Some x \<Longrightarrow> gives I Q (f x)) \<Longrightarrow> gives I Q (case v of None \<Rightarrow> m | Some x \<Rightarrow> f x)"
  by (cases v) auto

lemma gives_case_prod [gives_intro]:
  "(\<And>a b. v = (a, b) \<Longrightarrow> gives I Q (f a b)) \<Longrightarrow> gives I Q (case v of (a, b) \<Rightarrow> f a b)"
  by (cases v) auto

lemma gives_catch [gives_intro]: "keeps I m \<Longrightarrow> gives I Q m \<Longrightarrow> (\<And>e. gives I Q (h e)) \<Longrightarrow> gives I Q (catch m h)"
  by (rule givesI) (auto simp: catch_def split: prod.splits sum.splits dest: keepsD givesD)

lemma keeps_bnd_gives:
  "keeps I m \<Longrightarrow> gives I P m \<Longrightarrow> (\<And>x. P x \<Longrightarrow> keeps I (f x)) \<Longrightarrow> keeps I (bnd m f)"
  by (rule keepsI) (auto simp: bnd_def split: prod.splits sum.splits dest: keepsD givesD)

lemma keeps_fold_gives:
  "(\<And>x a. x \<in> set xs \<Longrightarrow> P a \<Longrightarrow> keeps I (f x a) \<and> gives I P (f x a)) \<Longrightarrow> P a \<Longrightarrow>
    keeps I (fold_eff f xs a) \<and> gives I P (fold_eff f xs a)"
proof (induction xs arbitrary: a)
  case Nil
  then show ?case by (auto simp: keeps_def gives_def)
next
  case (Cons x xs)
  have m: "keeps I (f x a)" "gives I P (f x a)" using Cons.prems by auto
  have rest: "P b \<Longrightarrow> keeps I (fold_eff f xs b) \<and> gives I P (fold_eff f xs b)" for b
    using Cons by auto
  show ?case
  proof
    show "keeps I (fold_eff f (x # xs) a)"
      by (rule keepsI) (use m rest in \<open>auto split: prod.splits sum.splits dest: keepsD givesD\<close>)
    show "gives I P (fold_eff f (x # xs) a)"
    proof (rule givesI)
      fix s y t
      assume s: "I s" and "fold_eff f (x # xs) a s = (Inr y, t)"
      then obtain b u where b: "f x a s = (Inr b, u)" "fold_eff f xs b u = (Inr y, t)"
        by (auto split: prod.splits sum.splits)
      then have "P b" "I u" using m s keepsD givesD by metis+
      then show "P y" using rest b(2) givesD by metis
    qed
  qed
qed

text \<open>What a returned value and the state at that point satisfy: \<open>post P m Q\<close>.\<close>

definition post :: "('s \<Rightarrow> bool) \<Rightarrow> ('s, 'e, 'a) eff \<Rightarrow> ('a \<Rightarrow> 's \<Rightarrow> bool) \<Rightarrow> bool" where
  "post P m Q \<longleftrightarrow> (\<forall>s x t. P s \<longrightarrow> m s = (Inr x, t) \<longrightarrow> Q x t)"

lemma postI: "(\<And>s x t. P s \<Longrightarrow> m s = (Inr x, t) \<Longrightarrow> Q x t) \<Longrightarrow> post P m Q"
  unfolding post_def by blast

lemma postD: "post P m Q \<Longrightarrow> P s \<Longrightarrow> m s = (Inr x, t) \<Longrightarrow> Q x t"
  unfolding post_def by blast

lemma post_weaken: "post P' m Q' \<Longrightarrow> (\<And>s. P s \<Longrightarrow> P' s) \<Longrightarrow> (\<And>x t. Q' x t \<Longrightarrow> Q x t) \<Longrightarrow> post P m Q"
  unfolding post_def by blast

lemma post_ret [post_intro]: "(\<And>s. P s \<Longrightarrow> Q x s) \<Longrightarrow> post P (ret x) Q"
  and post_raise [post_intro]: "post P (raise e) Q"
  by (auto simp: post_def eff_simps)

lemma post_gets [post_intro]: "(\<And>s. P s \<Longrightarrow> Q (f s) s) \<Longrightarrow> post P (gets f) Q"
  by (auto simp: post_def eff_simps)

lemma post_modify [post_intro]: "(\<And>s. P s \<Longrightarrow> Q () (f s)) \<Longrightarrow> post P (modify f) Q"
  by (auto simp: post_def eff_simps)

lemma post_require [post_intro]: "(\<And>s. P s \<Longrightarrow> c \<Longrightarrow> Q () s) \<Longrightarrow> post P (require c e) Q"
  by (auto simp: post_def eff_simps split: if_splits)

lemma post_lift_sum [post_intro]: "(\<And>x s. P s \<Longrightarrow> r = Inr x \<Longrightarrow> Q x s) \<Longrightarrow> post P (lift_sum r) Q"
  by (auto simp: post_def eff_simps)

lemma post_bnd [post_intro]: "post P m R \<Longrightarrow> (\<And>x. post (R x) (f x) Q) \<Longrightarrow> post P (bnd m f) Q"
  by (rule postI) (auto simp: bnd_def split: prod.splits sum.splits dest: postD)

lemma post_andthen [post_intro]: "post P m R \<Longrightarrow> (\<And>x. post (R x) k Q) \<Longrightarrow> post P (andthen m k) Q"
  by (rule postI) (auto simp: andthen_def split: prod.splits sum.splits dest: postD)

lemma post_if [post_intro]: "(c \<Longrightarrow> post P m Q) \<Longrightarrow> (\<not> c \<Longrightarrow> post P k Q) \<Longrightarrow> post P (if c then m else k) Q"
  by simp

lemma post_case_option [post_intro]:
  "(v = None \<Longrightarrow> post P m Q) \<Longrightarrow> (\<And>x. v = Some x \<Longrightarrow> post P (f x) Q) \<Longrightarrow>
    post P (case v of None \<Rightarrow> m | Some x \<Rightarrow> f x) Q"
  by (cases v) auto

lemma post_case_prod [post_intro]:
  "(\<And>a b. v = (a, b) \<Longrightarrow> post P (f a b) Q) \<Longrightarrow> post P (case v of (a, b) \<Rightarrow> f a b) Q"
  by (cases v) auto

lemma post_keeps: "keeps I m \<Longrightarrow> post I m (\<lambda>x. I)"
  by (rule postI) (rule keepsD)

lemma post_conj: "post P m Q \<Longrightarrow> post P m R \<Longrightarrow> post P m (\<lambda>x t. Q x t \<and> R x t)"
  unfolding post_def by blast

lemma post_conj3:
  "post P m Q \<Longrightarrow> post P m R \<Longrightarrow> post P m S \<Longrightarrow> post P m (\<lambda>x t. Q x t \<and> R x t \<and> S x t)"
  unfolding post_def by blast

subsection \<open>Relation of the entry state to every exit state\<close>

definition moves :: "('s \<Rightarrow> 's \<Rightarrow> bool) \<Rightarrow> ('s, 'e, 'a) eff \<Rightarrow> bool" where
  "moves R m \<longleftrightarrow> (\<forall>s. R s (snd (m s)))"

lemma movesI: "(\<And>s r t. m s = (r, t) \<Longrightarrow> R s t) \<Longrightarrow> moves R m"
  unfolding moves_def by (metis prod.collapse)

lemma movesD: "moves R m \<Longrightarrow> m s = (r, t) \<Longrightarrow> R s t"
  unfolding moves_def by (metis snd_conv)

text \<open>A preorder on states: what sequencing needs.\<close>

definition preorder_on_states :: "('s \<Rightarrow> 's \<Rightarrow> bool) \<Rightarrow> bool" where
  "preorder_on_states R \<longleftrightarrow> reflp R \<and> transp R"

lemma preorderI: "(\<And>s. R s s) \<Longrightarrow> (\<And>s t u. R s t \<Longrightarrow> R t u \<Longrightarrow> R s u) \<Longrightarrow> preorder_on_states R"
  by (auto simp: preorder_on_states_def intro: reflpI transpI)

lemma moves_ret [moves_intro]: "preorder_on_states R \<Longrightarrow> moves R (ret x)"
  and moves_raise [moves_intro]: "preorder_on_states R \<Longrightarrow> moves R (raise e)"
  and moves_require [moves_intro]: "preorder_on_states R \<Longrightarrow> moves R (require c e)"
  and moves_lift_sum [moves_intro]: "preorder_on_states R \<Longrightarrow> moves R (lift_sum r)"
  and moves_gets [moves_intro]: "preorder_on_states R \<Longrightarrow> moves R (gets f)"
  by (auto simp: moves_def eff_simps preorder_on_states_def reflp_def)

lemma preorder_trans: "preorder_on_states R \<Longrightarrow> R s t \<Longrightarrow> R t u \<Longrightarrow> R s u"
  unfolding preorder_on_states_def by (meson transpD)

lemma moves_bnd [moves_intro]:
  "preorder_on_states R \<Longrightarrow> moves R m \<Longrightarrow> (\<And>x. moves R (f x)) \<Longrightarrow> moves R (bnd m f)"
  by (rule movesI) (auto simp: bnd_def split: prod.splits sum.splits
      dest: movesD intro: preorder_trans)

lemma moves_andthen [moves_intro]:
  "preorder_on_states R \<Longrightarrow> moves R m \<Longrightarrow> moves R k \<Longrightarrow> moves R (andthen m k)"
  by (rule movesI) (auto simp: andthen_def split: prod.splits sum.splits
      dest: movesD intro: preorder_trans)

lemma moves_catch [moves_intro]:
  "preorder_on_states R \<Longrightarrow> moves R m \<Longrightarrow> (\<And>e. moves R (h e)) \<Longrightarrow> moves R (catch m h)"
  by (rule movesI) (auto simp: catch_def split: prod.splits sum.splits
      dest: movesD intro: preorder_trans)

lemma moves_if [moves_intro]:
  "(c \<Longrightarrow> moves R m) \<Longrightarrow> (\<not> c \<Longrightarrow> moves R k) \<Longrightarrow> moves R (if c then m else k)"
  by simp

lemma moves_let [moves_intro]: "(\<And>x. x = a \<Longrightarrow> moves R (f x)) \<Longrightarrow> moves R (let x = a in f x)"
  by simp

lemma moves_case_option [moves_intro]:
  "moves R m \<Longrightarrow> (\<And>x. v = Some x \<Longrightarrow> moves R (f x)) \<Longrightarrow> moves R (case v of None \<Rightarrow> m | Some x \<Rightarrow> f x)"
  by (cases v) auto

lemma moves_case_sum [moves_intro]:
  "(\<And>e. v = Inl e \<Longrightarrow> moves R (g e)) \<Longrightarrow> (\<And>x. v = Inr x \<Longrightarrow> moves R (f x)) \<Longrightarrow>
    moves R (case v of Inl e \<Rightarrow> g e | Inr x \<Rightarrow> f x)"
  by (cases v) auto

lemma moves_case_prod [moves_intro]:
  "(\<And>a b. v = (a, b) \<Longrightarrow> moves R (f a b)) \<Longrightarrow> moves R (case v of (a, b) \<Rightarrow> f a b)"
  by (cases v) auto

lemma moves_for_each [moves_intro]:
  "preorder_on_states R \<Longrightarrow> (\<And>x. x \<in> set xs \<Longrightarrow> moves R (f x)) \<Longrightarrow> moves R (for_each xs f)"
proof (induction xs)
  case Nil
  then show ?case by (auto simp: moves_def preorder_on_states_def reflp_def)
next
  case (Cons x xs)
  then have "moves R (f x)" and "moves R (for_each xs f)" by auto
  then show ?case
    by (intro movesI) (auto split: prod.splits sum.splits dest: movesD intro: preorder_trans [OF Cons.prems(1)])
qed

lemma moves_fold_eff [moves_intro]:
  "preorder_on_states R \<Longrightarrow> (\<And>x a. x \<in> set xs \<Longrightarrow> moves R (f x a)) \<Longrightarrow> moves R (fold_eff f xs a)"
proof (induction xs arbitrary: a)
  case Nil
  then show ?case by (auto simp: moves_def preorder_on_states_def reflp_def)
next
  case (Cons x xs)
  then have "moves R (f x a)" and "\<And>b. moves R (fold_eff f xs b)" by auto
  then show ?case
    by (intro movesI) (auto split: prod.splits sum.splits dest: movesD intro: preorder_trans [OF Cons.prems(1)])
qed

text \<open>
  The interface between a relation of states and the effects that respect it: a relation that is
  reflexive and transitive is respected by everything the effects are composed with, so for each
  relation only the primitives are left to prove.
\<close>

locale state_order =
  fixes R :: "'s \<Rightarrow> 's \<Rightarrow> bool"
  assumes stays: "R s s"
    and goes_on: "R s t \<Longrightarrow> R t u \<Longrightarrow> R s u"
begin

lemma order: "preorder_on_states R"
  by (rule preorderI) (rule stays, rule goes_on)

lemmas rules =
  moves_ret [OF order] moves_raise [OF order] moves_require [OF order] moves_lift_sum [OF order] moves_gets [OF order]
  moves_bnd [OF order] moves_andthen [OF order] moves_catch [OF order] moves_for_each [OF order] moves_fold_eff [OF order]
  moves_if moves_let moves_case_option moves_case_sum moves_case_prod

lemmas ret_moves = moves_ret [OF order]
lemmas raise_moves = moves_raise [OF order]
lemmas bnd_moves = moves_bnd [OF order]

end

subsection \<open>Lists\<close>

text \<open>\<open>Array.prototype.find\<close>, \<open>some\<close> and \<open>includes\<close> are \<open>List.find\<close>, \<open>list_ex\<close>
  and \<open>List.member\<close>; a \<open>Set\<close> built from an array keeps the first occurrence of each element.\<close>

fun uniq :: "'a list \<Rightarrow> 'a list" where
  "uniq [] = []"
| "uniq (x # xs) = x # filter (\<lambda>y. y \<noteq> x) (uniq xs)"

lemma set_uniq [simp]: "set (uniq xs) = set xs"
  by (induction xs) auto

lemma distinct_uniq [simp]: "distinct (uniq xs)"
  by (induction xs) auto

lemma uniq_distinct [simp]: "distinct xs \<Longrightarrow> uniq xs = xs"
proof (induction xs)
  case Nil
  then show ?case by simp
next
  case (Cons x xs)
  then have "filter (\<lambda>y. y \<noteq> x) xs = xs" by (auto simp: filter_id_conv)
  with Cons show ?case by simp
qed

lemma find_SomeD: "List.find P xs = Some x \<Longrightarrow> x \<in> set xs \<and> P x"
  by (induction xs) (auto split: if_splits)

lemma find_None_iff': "List.find P xs = None \<longleftrightarrow> (\<forall>x\<in>set xs. \<not> P x)"
  by (induction xs) auto

lemma find_Some_ex: "x \<in> set xs \<Longrightarrow> P x \<Longrightarrow> \<exists>y. List.find P xs = Some y"
  by (induction xs) auto

lemma distinct_map_filter: "distinct (map f xs) \<Longrightarrow> distinct (map f (filter P xs))"
  by (induction xs) auto

lemma length_filter_eq_1D:
  assumes "filter P xs = [x]" shows "x \<in> set xs" and "P x"
proof -
  have "x \<in> set (filter P xs)" using assms by simp
  then show "x \<in> set xs" and "P x" by auto
qed

lemma filter_eq_single_unique:
  "filter P xs = [x] \<Longrightarrow> y \<in> set xs \<Longrightarrow> P y \<Longrightarrow> y = x"
  by (metis (mono_tags, lifting) empty_iff empty_set filter_set mem_Collect_eq set_ConsD set_filter)

lemma case_singleD:
  "(case xs of [x] \<Rightarrow> f x | _ \<Rightarrow> z) = y \<Longrightarrow> y \<noteq> z \<Longrightarrow> \<exists>x. xs = [x] \<and> f x = y"
  by (auto split: list.splits)

end
