(* ===== verification/JString.thy ===== *)
theory JString
  imports Prelude "HOL-Library.Char_ord" "HOL-Library.Code_Target_Numeral"
begin

section \<open>JavaScript strings\<close>

text \<open>
  A JavaScript string (a sequence of UTF-16 code units) is held as its generalised UTF-8
  encoding, one Isabelle \<open>char\<close> per byte. The encoding is one-to-one, also on lone
  surrogates, which take three bytes just as the replacement character that
  \<open>Buffer.byteLength\<close> counts for them, so \<open>length\<close> is \<open>Buffer.byteLength(s, 'utf8')\<close>. \<open>cps\<close>
  is \<open>Array.from(s)\<close>, the code points; \<open>of_cps\<close> puts code points back together. Everything
  the code matches with an ASCII regular expression is a test on the bytes.
\<close>

subsection \<open>Code points\<close>

definition byte :: "char \<Rightarrow> nat" where
  "byte c = of_char c"

lemma byte_less [simp]: "byte c < 256"
  by (simp add: byte_def)

definition cont :: "char \<Rightarrow> nat" where
  "cont c = byte c mod 64"

lemma cont_less [simp]: "cont c < 64"
  by (simp add: cont_def)

fun cps :: "string \<Rightarrow> nat list" where
  "cps [] = []"
| "cps (a # s) =
     (if byte a < 128 then byte a # cps s
      else if byte a < 224 then
        (case s of b # t \<Rightarrow> (byte a mod 32 * 64 + cont b) # cps t | _ \<Rightarrow> [])
      else if byte a < 240 then
        (case s of b # c # t \<Rightarrow> (byte a mod 16 * 4096 + cont b * 64 + cont c) # cps t | _ \<Rightarrow> [])
      else
        (case s of b # c # d # t \<Rightarrow>
           (byte a mod 8 * 262144 + cont b * 4096 + cont c * 64 + cont d) # cps t | _ \<Rightarrow> []))"

definition enc_cp :: "nat \<Rightarrow> string" where
  "enc_cp c =
     (if c < 128 then [char_of c]
      else if c < 2048 then [char_of (192 + c div 64), char_of (128 + c mod 64)]
      else if c < 65536 then
        [char_of (224 + c div 4096), char_of (128 + c div 64 mod 64), char_of (128 + c mod 64)]
      else
        [char_of (240 + c div 262144), char_of (128 + c div 4096 mod 64),
         char_of (128 + c div 64 mod 64), char_of (128 + c mod 64)])"

fun of_cps :: "nat list \<Rightarrow> string" where
  "of_cps [] = []"
| "of_cps (c # cs) = enc_cp c @ of_cps cs"

lemma byte_char_of [simp]: "byte (char_of n) = n mod 256"
  by (simp add: byte_def)

lemma mod_shift: "n < m \<Longrightarrow> (k * m + n) mod m = (n::nat)"
  by simp

lemma cont_char_of:
  assumes "n < 64" shows "cont (char_of (128 + n)) = n"
  using assms mod_shift [of n 64 2] by (simp add: cont_def)

lemma lead_byte:
  "q < 32 \<Longrightarrow> (192 + q) mod 32 = q" "q < 16 \<Longrightarrow> (224 + q) mod 16 = q"
  "q < 8 \<Longrightarrow> (240 + q) mod 8 = (q::nat)"
  using mod_shift [of q 32 6] mod_shift [of q 16 14] mod_shift [of q 8 30] by simp_all

lemma split_cp:
  "(c::nat) div 64 * 64 + c mod 64 = c"
  "c div 4096 * 4096 + c div 64 mod 64 * 64 + c mod 64 = c"
  "c div 262144 * 262144 + c div 4096 mod 64 * 4096 + c div 64 mod 64 * 64 + c mod 64 = c"
proof -
  have d: "c div 4096 = c div 64 div 64" "c div 262144 = c div 64 div 64 div 64"
    by (simp_all add: div_mult2_eq [symmetric])
  have a: "c = c div 64 * 64 + c mod 64" for c :: nat by simp
  show "c div 64 * 64 + c mod 64 = c" by simp
  show "c div 4096 * 4096 + c div 64 mod 64 * 64 + c mod 64 = c"
    unfolding d using a [of c] a [of "c div 64"] by linarith
  show "c div 262144 * 262144 + c div 4096 mod 64 * 4096 + c div 64 mod 64 * 64 + c mod 64 = c"
    unfolding d using a [of c] a [of "c div 64"] a [of "c div 64 div 64"] by linarith
qed

lemma cps_enc_cp:
  assumes "c < 2097152"
  shows "cps (enc_cp c @ s) = c # cps s"
proof -
  have q4: "c div 262144 < 8" using assms by (simp add: less_mult_imp_div_less)
  consider "c < 128" | "128 \<le> c" "c < 2048" | "2048 \<le> c" "c < 65536" | "65536 \<le> c" by linarith
  then show ?thesis
  proof cases
    case 1
    then show ?thesis by (simp add: enc_cp_def)
  next
    case 2
    then have "c div 64 < 32" by (simp add: less_mult_imp_div_less)
    with 2 show ?thesis by (simp add: enc_cp_def cont_char_of lead_byte split_cp(1))
  next
    case 3
    then have "c div 4096 < 16" by (simp add: less_mult_imp_div_less)
    with 3 show ?thesis by (simp add: enc_cp_def cont_char_of lead_byte split_cp(2))
  next
    case 4
    with q4 show ?thesis by (simp add: enc_cp_def cont_char_of lead_byte split_cp(3))
  qed
qed

lemma cps_of_cps: "list_all (\<lambda>c. c < 2097152) cs \<Longrightarrow> cps (of_cps cs) = cs"
  by (induction cs) (auto simp: cps_enc_cp)

lemma cp_bounds:
  "byte a mod 32 * 64 + cont b < 2097152"
  "byte a mod 16 * 4096 + cont b * 64 + cont c < 2097152"
  "byte a mod 8 * 262144 + cont b * 4096 + cont c * 64 + cont d < 2097152"
proof -
  have "byte a mod 32 < 32" "byte a mod 16 < 16" "byte a mod 8 < 8" by simp_all
  moreover have "cont b < 64" "cont c < 64" "cont d < 64" by simp_all
  ultimately show "byte a mod 32 * 64 + cont b < 2097152"
    "byte a mod 16 * 4096 + cont b * 64 + cont c < 2097152"
    "byte a mod 8 * 262144 + cont b * 4096 + cont c * 64 + cont d < 2097152"
    by linarith+
qed

lemma cps_bounded: "list_all (\<lambda>c. c < 2097152) (cps s)"
proof (induction s rule: cps.induct)
  case 1
  then show ?case by simp
next
  case (2 a s)
  have "byte a < 2097152" using byte_less [of a] by linarith
  with 2 show ?case
    by (subst cps.simps(2)) (simp add: cp_bounds del: cps.simps split: list.split)
qed

lemma of_cps_append: "of_cps (xs @ ys) = of_cps xs @ of_cps ys"
  by (induction xs) auto

lemma enc_cp_ne [simp]: "enc_cp c \<noteq> []"
  by (simp add: enc_cp_def)

lemma length_of_cps: "length cs \<le> length (of_cps cs)"
  by (induction cs) (auto simp: enc_cp_def)

lemma cps_append_ascii: "list_all (\<lambda>c. byte c < 128) p \<Longrightarrow> cps (p @ s) = map byte p @ cps s"
  by (induction p) auto

lemma cps_ascii: "list_all (\<lambda>c. byte c < 128) p \<Longrightarrow> cps p = map byte p"
  using cps_append_ascii [of p "[]"] by simp

subsection \<open>Character classes and \<open>trim\<close>\<close>

text \<open>The Unicode general categories the code tests with \<open>\p{Cc}\<close>, \<open>\p{Cf}\<close>, \<open>\p{Cs}\<close>,
  \<open>\p{Zl}\<close> and \<open>\p{Zp}\<close>, and the white space that \<open>String.prototype.trim\<close> strips.\<close>

definition is_cc :: "nat \<Rightarrow> bool" where
  "is_cc c \<longleftrightarrow> c \<le> 31 \<or> 127 \<le> c \<and> c \<le> 159"

definition cf_ranges :: "(nat \<times> nat) list" where
  "cf_ranges =
     [(173, 173), (1536, 1541), (1564, 1564), (1757, 1757), (1807, 1807), (2192, 2193),
      (2274, 2274), (6158, 6158), (8203, 8207), (8234, 8238), (8288, 8292), (8294, 8303),
      (65279, 65279), (65529, 65531), (69821, 69821), (69837, 69837), (78896, 78911),
      (113824, 113827), (119155, 119162), (917505, 917505), (917536, 917631)]"

definition is_cf :: "nat \<Rightarrow> bool" where
  "is_cf c \<longleftrightarrow> list_ex (\<lambda>(lo, hi). lo \<le> c \<and> c \<le> hi) cf_ranges"

definition is_cs :: "nat \<Rightarrow> bool" where
  "is_cs c \<longleftrightarrow> 55296 \<le> c \<and> c \<le> 57343"

definition is_space :: "nat \<Rightarrow> bool" where
  "is_space c \<longleftrightarrow> 9 \<le> c \<and> c \<le> 13 \<or> c = 32 \<or> c = 160 \<or> c = 5760 \<or> 8192 \<le> c \<and> c \<le> 8202
     \<or> c = 8232 \<or> c = 8233 \<or> c = 8239 \<or> c = 8287 \<or> c = 12288 \<or> c = 65279"

definition has_control :: "string \<Rightarrow> bool" where
  "has_control s \<longleftrightarrow> list_ex (\<lambda>c. is_cc c \<or> is_cf c) (cps s)"

definition trim_cps :: "nat list \<Rightarrow> nat list" where
  "trim_cps cs = rev (dropWhile is_space (rev (dropWhile is_space cs)))"

definition trim :: "string \<Rightarrow> string" where
  "trim s = of_cps (trim_cps (cps s))"

lemma dropWhile_rev_dropWhile:
  assumes "xs = [] \<or> \<not> P (hd xs)"
  shows "rev (dropWhile P (rev xs)) = [] \<or> \<not> P (hd (rev (dropWhile P (rev xs))))"
proof (cases xs)
  case Nil
  then show ?thesis by simp
next
  case (Cons y ys)
  with assms have "\<not> P y" by simp
  with Cons show ?thesis
    by (auto simp: dropWhile_append dropWhile_eq_Nil_conv)
qed

lemma dropWhile_fixed: "xs = [] \<or> \<not> P (hd xs) \<Longrightarrow> dropWhile P xs = xs"
  by (cases xs) auto

lemma trim_cps_idem [simp]: "trim_cps (trim_cps cs) = trim_cps cs"
proof -
  let ?d = "dropWhile is_space cs"
  have "?d = [] \<or> \<not> is_space (hd ?d)" using hd_dropWhile by blast
  then have "dropWhile is_space (rev (dropWhile is_space (rev ?d))) = rev (dropWhile is_space (rev ?d))"
    by (intro dropWhile_fixed dropWhile_rev_dropWhile)
  then show ?thesis by (simp only: trim_cps_def rev_rev_ident dropWhile_idem)
qed

lemma set_trim_cps: "set (trim_cps cs) \<subseteq> set cs"
  by (auto simp: trim_cps_def dest!: set_dropWhileD)

lemma length_trim_cps: "length (trim_cps cs) \<le> length cs"
  unfolding trim_cps_def by (metis length_dropWhile_le length_rev order_trans)

lemma bounded_trim_cps: "list_all (\<lambda>c. c < 2097152) (trim_cps (cps s))"
  using cps_bounded [of s] set_trim_cps [of "cps s"] by (auto simp: list_all_iff)

lemma cps_trim [simp]: "cps (trim s) = trim_cps (cps s)"
  by (simp add: trim_def cps_of_cps bounded_trim_cps)

lemma trim_idem [simp]: "trim (trim s) = trim s"
  by (simp add: trim_def [of "trim s"]) (simp add: trim_def)

lemma has_control_trim: "\<not> has_control s \<Longrightarrow> \<not> has_control (trim s)"
  using set_trim_cps [of "cps s"] by (auto simp: has_control_def list_ex_iff)

text \<open>\<open>s.length\<close>: the number of UTF-16 code units.\<close>

definition js_length :: "string \<Rightarrow> nat" where
  "js_length s = sum_list (map (\<lambda>c. if c < 65536 then 1 else 2) (cps s))"

subsection \<open>ASCII classes\<close>

definition in_range :: "char \<Rightarrow> char \<Rightarrow> char \<Rightarrow> bool" where
  "in_range lo hi c \<longleftrightarrow> byte lo \<le> byte c \<and> byte c \<le> byte hi"

definition is_digit :: "char \<Rightarrow> bool" where
  "is_digit c \<longleftrightarrow> in_range CHR ''0'' CHR ''9'' c"

definition is_lower :: "char \<Rightarrow> bool" where
  "is_lower c \<longleftrightarrow> in_range CHR ''a'' CHR ''z'' c"

definition is_upper :: "char \<Rightarrow> bool" where
  "is_upper c \<longleftrightarrow> in_range CHR ''A'' CHR ''Z'' c"

definition is_hex_lower :: "char \<Rightarrow> bool" where
  "is_hex_lower c \<longleftrightarrow> is_digit c \<or> in_range CHR ''a'' CHR ''f'' c"

definition is_hex :: "char \<Rightarrow> bool" where
  "is_hex c \<longleftrightarrow> is_hex_lower c \<or> in_range CHR ''A'' CHR ''F'' c"

definition to_upper :: "string \<Rightarrow> string" where
  "to_upper s = map (\<lambda>c. if is_lower c then char_of (byte c - 32) else c) s"

definition starts_with :: "string \<Rightarrow> string \<Rightarrow> bool" where
  "starts_with p s \<longleftrightarrow> take (length p) s = p"

definition ends_with :: "string \<Rightarrow> string \<Rightarrow> bool" where
  "ends_with p s \<longleftrightarrow> length p \<le> length s \<and> drop (length s - length p) s = p"

lemma starts_with_append [simp]: "starts_with p (p @ s)"
  by (simp add: starts_with_def)

lemma starts_withD: "starts_with p s \<Longrightarrow> s = p @ drop (length p) s"
  by (metis append_take_drop_id starts_with_def)

subsection \<open>Decimal numerals: \<open>String(n)\<close>\<close>

fun show_nat :: "nat \<Rightarrow> string" where
  "show_nat n = (if n < 10 then [char_of (48 + n)] else show_nat (n div 10) @ [char_of (48 + n mod 10)])"

declare show_nat.simps [simp del]

definition read_nat :: "string \<Rightarrow> nat" where
  "read_nat s = foldl (\<lambda>n c. 10 * n + (byte c - 48)) 0 s"

lemma read_nat_show_nat [simp]: "read_nat (show_nat n) = n"
proof (induction n rule: show_nat.induct)
  case (1 n)
  show ?case
  proof (cases "n < 10")
    case True
    then show ?thesis by (subst show_nat.simps) (simp add: read_nat_def)
  next
    case False
    with 1 have "read_nat (show_nat (n div 10)) = n div 10" by simp
    moreover have "n mod 10 < 10" by simp
    ultimately show ?thesis
      using False by (subst show_nat.simps) (simp add: read_nat_def)
  qed
qed

lemma show_nat_inject [simp]: "show_nat m = show_nat n \<longleftrightarrow> m = n"
  by (metis read_nat_show_nat)

lemma show_nat_digits: "list_all is_digit (show_nat n)"
proof (induction n rule: show_nat.induct)
  case (1 n)
  have d: "m < 10 \<Longrightarrow> is_digit (char_of (48 + m))" for m :: nat
    by (simp add: is_digit_def in_range_def byte_def)
  show ?case
    using 1 d [of "n mod 10"] d [of n] by (subst show_nat.simps) auto
qed

lemma show_nat_ne [simp]: "show_nat n \<noteq> []"
  by (subst show_nat.simps) simp

end
