(* ===== verification/Scalars.thy ===== *)
theory Scalars
  imports JString
begin

section \<open>Scalar schemas and errors\<close>

text \<open>
  The scalar schemas of \<open>src/contracts.ts\<close> and \<open>src/thread-contracts.ts\<close>: identifiers,
  timestamps, bounded texts, file names, topics and safe integers. A schema that only tests is a
  predicate; a schema with a \<open>transform\<close> is a parser returning the transformed value, \<open>None\<close> for
  a \<open>ZodError\<close>. Also the exceptions the code throws, as one datatype.
\<close>

subsection \<open>Exceptions\<close>

datatype thread_error =
    Invalid_request
  | Invalid_members
  | Unauthorized
  | Idempotency_conflict
  | Reply_target_unavailable
  | Thread_files_unsupported

datatype err =
    Zod_error
  | Service_error string
  | Storage_error string
  | Thread_failure thread_error
  | Sdk_error string
  | Name_error string
  | Legacy_state
  | Absent_contact string
  | Cid_mismatch
  | Range_error
  | Plain_error string

subsection \<open>Integers\<close>

definition max_safe :: int where
  "max_safe = 9007199254740991"

definition positive_safe :: "int \<Rightarrow> bool" where
  "positive_safe n \<longleftrightarrow> 0 < n \<and> n \<le> max_safe"

definition nonneg_safe :: "int \<Rightarrow> bool" where
  "nonneg_safe n \<longleftrightarrow> 0 \<le> n \<and> n \<le> max_safe"

subsection \<open>Identifiers\<close>

definition crockford_char :: "char \<Rightarrow> bool" where
  "crockford_char c \<longleftrightarrow> is_digit c \<or> in_range CHR ''a'' CHR ''h'' c \<or> c = CHR ''j'' \<or> c = CHR ''k''
     \<or> c = CHR ''m'' \<or> c = CHR ''n'' \<or> in_range CHR ''p'' CHR ''t'' c \<or> in_range CHR ''v'' CHR ''z'' c"

definition ulid_ok :: "string \<Rightarrow> bool" where
  "ulid_ok s \<longleftrightarrow> (case s of [] \<Rightarrow> False
     | c # cs \<Rightarrow> in_range CHR ''0'' CHR ''7'' c \<and> length cs = 25 \<and> list_all crockford_char cs)"

definition sha256_ok :: "string \<Rightarrow> bool" where
  "sha256_ok s \<longleftrightarrow> length s = 64 \<and> list_all is_hex_lower s"

text \<open>\<open>ContainerIdSchema\<close>: 64 hexadecimal digits, upper-cased.\<close>

definition cid_parse :: "string \<Rightarrow> string option" where
  "cid_parse s = (if length s = 64 \<and> list_all is_hex s then Some (to_upper s) else None)"

definition idem_char :: "char \<Rightarrow> bool" where
  "idem_char c \<longleftrightarrow> is_lower c \<or> is_upper c \<or> is_digit c \<or> c \<in> set ''._:-''"

definition idempotency_key_ok :: "string \<Rightarrow> bool" where
  "idempotency_key_ok s \<longleftrightarrow> 1 \<le> length s \<and> length s \<le> 128 \<and> list_all idem_char s"

definition nonempty :: "string \<Rightarrow> bool" where
  "nonempty s \<longleftrightarrow> s \<noteq> []"

definition opt_ok :: "('a \<Rightarrow> bool) \<Rightarrow> 'a option \<Rightarrow> bool" where
  "opt_ok p v \<longleftrightarrow> (case v of None \<Rightarrow> True | Some x \<Rightarrow> p x)"

lemma opt_ok_simps [simp]: "opt_ok p None" "opt_ok p (Some x) = p x"
  by (simp_all add: opt_ok_def)

definition parent_key_ok :: "string \<Rightarrow> bool" where
  "parent_key_ok s \<longleftrightarrow> starts_with ''message:'' s \<and> ulid_ok (drop 8 s)
     \<or> starts_with ''file:'' s \<and> ulid_ok (drop 5 s)"

subsection \<open>Timestamps\<close>

definition two :: "char \<Rightarrow> char \<Rightarrow> nat" where
  "two a b = read_nat [a, b]"

definition days_in_month :: "nat \<Rightarrow> nat \<Rightarrow> nat" where
  "days_in_month year month =
     (let leapYear = year mod 4 = 0 \<and> (year mod 100 \<noteq> 0 \<or> year mod 400 = 0)
      in [31, if leapYear then 29 else 28, 31, 30, 31, 30, 31, 31, 30, 31, 30, 31] ! (month - 1))"

fun strip_fraction :: "string \<Rightarrow> string option" where
  "strip_fraction (CHR ''.'' # d # s) = (if is_digit d then Some (dropWhile is_digit s) else None)"
| "strip_fraction s = Some s"

fun zone_ok :: "string \<Rightarrow> bool" where
  "zone_ok [z] = (z = CHR ''Z'')"
| "zone_ok [s, h1, h2, c, m1, m2] =
     ((s = CHR ''+'' \<or> s = CHR ''-'') \<and> c = CHR '':'' \<and> list_all is_digit [h1, h2, m1, m2]
      \<and> two h1 h2 \<le> 23 \<and> two m1 m2 \<le> 59)"
| "zone_ok _ = False"

fun isStrictRfc3339 :: "string \<Rightarrow> bool" where
  "isStrictRfc3339 (y1 # y2 # y3 # y4 # d1 # m1 # m2 # d2 # a1 # a2 # t # h1 # h2 # c1 # n1 # n2 # c2
       # s1 # s2 # rest) =
     (list_all is_digit [y1, y2, y3, y4, m1, m2, a1, a2, h1, h2, n1, n2, s1, s2]
      \<and> d1 = CHR ''-'' \<and> d2 = CHR ''-'' \<and> t = CHR ''T'' \<and> c1 = CHR '':'' \<and> c2 = CHR '':''
      \<and> (case strip_fraction rest of None \<Rightarrow> False | Some z \<Rightarrow> zone_ok z)
      \<and> (let year = read_nat [y1, y2, y3, y4]; month = two m1 m2; day = two a1 a2 in
           1 \<le> month \<and> month \<le> 12 \<and> two h1 h2 \<le> 23 \<and> two n1 n2 \<le> 59 \<and> two s1 s2 \<le> 59
           \<and> 1 \<le> day \<and> day \<le> days_in_month year month))"
| "isStrictRfc3339 _ = False"

subsection \<open>Bounded texts and file metadata\<close>

definition utf8Bounded :: "nat \<Rightarrow> string \<Rightarrow> bool" where
  "utf8Bounded maximumBytes s \<longleftrightarrow> 1 \<le> length s \<and> length s \<le> maximumBytes"

definition role_ok :: "string \<Rightarrow> bool" where
  "role_ok s \<longleftrightarrow> utf8Bounded 256 s"

definition text_ok :: "string \<Rightarrow> bool" where
  "text_ok s \<longleftrightarrow> utf8Bounded 262144 s"

definition file_name_ok :: "string \<Rightarrow> bool" where
  "file_name_ok s \<longleftrightarrow> utf8Bounded 255 s \<and> s \<noteq> ''.'' \<and> s \<noteq> ''..''
     \<and> \<not> list_ex (\<lambda>c. byte c = 0 \<or> c = CHR ''/'' \<or> byte c = 92) s"

definition file_mime_ok :: "string \<Rightarrow> bool" where
  "file_mime_ok s \<longleftrightarrow> length s \<le> 255"

definition max_file_bytes :: int where
  "max_file_bytes = 2 * 1024 * 1024"

subsection \<open>Thread topics\<close>

definition topic_text_ok :: "string \<Rightarrow> bool" where
  "topic_text_ok s \<longleftrightarrow> 1 \<le> length (cps s) \<and> length (cps s) \<le> 120 \<and> trim_cps (cps s) \<noteq> [] \<and> \<not> has_control s"

definition input_topic :: "string \<Rightarrow> string option" where
  "input_topic s = (if topic_text_ok s then Some (trim s) else None)"

definition stored_topic_ok :: "string \<Rightarrow> bool" where
  "stored_topic_ok s \<longleftrightarrow> topic_text_ok s \<and> s = trim s"

lemma input_topic_stored: "input_topic s = Some t \<Longrightarrow> stored_topic_ok t"
  using length_trim_cps [of "cps s"]
  by (auto simp: input_topic_def stored_topic_ok_def topic_text_ok_def has_control_trim Suc_le_eq
      split: if_splits)

lemma ulid_ok_length: "ulid_ok s \<Longrightarrow> length s = 26"
  by (auto simp: ulid_ok_def split: list.splits)

lemma ulid_ok_ne: "ulid_ok s \<Longrightarrow> s \<noteq> []"
  by (auto simp: ulid_ok_def)

lemma length_to_upper [simp]: "length (to_upper s) = length s"
  by (simp add: to_upper_def)

text \<open>Upper-casing a CID is stable, so a stored CID parses to itself.\<close>

lemma hex_upper: "is_hex c \<Longrightarrow> is_lower c \<Longrightarrow>
    is_hex (char_of (byte c - 32)) \<and> \<not> is_lower (char_of (byte c - 32))"
  by (auto simp: is_hex_def is_hex_lower_def is_digit_def is_lower_def in_range_def byte_def)

lemma cid_parse_stable: "cid_parse s = Some u \<Longrightarrow> cid_parse u = Some u"
proof -
  assume a: "cid_parse s = Some u"
  then have u: "u = to_upper s" and h: "list_all is_hex s" and l: "length s = 64"
    by (auto simp: cid_parse_def split: if_splits)
  have "list_all (\<lambda>c. is_hex c \<and> \<not> is_lower c) u"
    using h hex_upper unfolding u by (auto simp: to_upper_def list_all_iff)
  then have "to_upper u = u" and "list_all is_hex u"
    by (auto simp: to_upper_def list_all_iff map_idI)
  with l u show ?thesis by (simp add: cid_parse_def)
qed

end
