(* ===== verification/Commands.thy ===== *)
theory Commands
  imports Scalars
begin

section \<open>Command names and grant selectors\<close>

text \<open>
  \<open>src/command-names.ts\<close>, the name schemas of \<open>src/consumer-commands.ts\<close> and the grant
  selectors of \<open>src/contracts.ts\<close>. A grant selector is a concrete command name, the wildcard
  \<open>*\<close>, or a namespace pattern such as \<open>room.*\<close>; \<open>commandGrantMatches\<close> decides whether a
  selector covers a concrete command.
\<close>

definition SHARED_ROOM_COMMANDS :: "string list" where
  "SHARED_ROOM_COMMANDS =
     [''room.settings'', ''room.briefing.role.set'', ''room.briefing.role.delete'', ''room.invite'',
      ''room.accept'', ''room.rebind'', ''room.close'', ''room.delete'', ''room.participant.remove'',
      ''room.revoke'', ''room.recover'', ''room.recover.confirm'', ''room.show'', ''room.participants'',
      ''room.command.grants'', ''room.command.role.grants'', ''room.command.role.set'',
      ''room.command.grant'', ''room.command.revoke'', ''room.history'', ''room.message'', ''room.say'',
      ''room.role.rest.add'', ''room.role.rest.remove'']"

definition RUNTIME_COMMAND_NAMES :: "string list" where
  "RUNTIME_COMMAND_NAMES = [''start_thread'', ''list-members'', ''remove-member''] @ SHARED_ROOM_COMMANDS"

definition commandGrantMatches :: "string \<Rightarrow> string \<Rightarrow> bool" where
  "commandGrantMatches pattern command \<longleftrightarrow>
     pattern = command \<or> pattern = ''*''
     \<or> (ends_with ''.*'' pattern \<and> starts_with (butlast pattern) command
        \<and> length command > length pattern - 1)"

definition name_char :: "char \<Rightarrow> bool" where
  "name_char c \<longleftrightarrow> is_lower c \<or> is_digit c"

definition consumer_name_ok :: "string \<Rightarrow> bool" where
  "consumer_name_ok s \<longleftrightarrow> length s \<le> 128 \<and> starts_with ''consumer.'' s
     \<and> (let rest = drop 9 s in 2 \<le> length rest \<and> name_char (hd rest) \<and> name_char (last rest)
        \<and> list_all (\<lambda>c. name_char c \<or> c = CHR ''.'' \<or> c = CHR ''-'') rest)"

definition runtime_command_name_ok :: "string \<Rightarrow> bool" where
  "runtime_command_name_ok s \<longleftrightarrow> List.member RUNTIME_COMMAND_NAMES s \<or> consumer_name_ok s"

text \<open>\<open>/^(?:[a-z0-9][a-z0-9-]*\.)+\*$/\<close>, read from the left; the flag says that a segment starts here.\<close>

fun namespace_segments :: "bool \<Rightarrow> string \<Rightarrow> bool" where
  "namespace_segments start [] = False"
| "namespace_segments True (c # cs) = (name_char c \<and> namespace_segments False cs)"
| "namespace_segments False (c # cs) =
     (if c = CHR ''.'' then cs = ''*'' \<or> namespace_segments True cs
      else (name_char c \<or> c = CHR ''-'') \<and> namespace_segments False cs)"

definition namespace_pattern_ok :: "string \<Rightarrow> bool" where
  "namespace_pattern_ok s \<longleftrightarrow> length s \<le> 128 \<and> namespace_segments True s"

definition grant_pattern_ok :: "string \<Rightarrow> bool" where
  "grant_pattern_ok s \<longleftrightarrow> runtime_command_name_ok s \<or> s = ''*'' \<or> namespace_pattern_ok s"

subsection \<open>What a selector covers\<close>

lemma namespace_segments_shape:
  "namespace_segments b s \<Longrightarrow> \<exists>p. s = p @ ''.*'' \<and> (b \<longrightarrow> p \<noteq> [])"
proof (induction b s rule: namespace_segments.induct)
  case (2 c cs)
  then obtain p where "cs = p @ ''.*''" by auto
  then have "c # cs = (c # p) @ ''.*''" by simp
  then show ?case by blast
next
  case (3 c cs)
  show ?case
  proof (cases "c = CHR ''.'' \<and> cs = ''*''")
    case True
    then show ?thesis by (intro exI [of _ "[]"]) simp
  next
    case False
    with 3 obtain p where "cs = p @ ''.*''" by (auto split: if_splits)
    then have "c # cs = (c # p) @ ''.*''" by simp
    then show ?thesis by blast
  qed
qed simp

lemma namespace_pattern_shape:
  "namespace_pattern_ok s \<Longrightarrow> \<exists>p. s = p @ ''.*'' \<and> p \<noteq> []"
  using namespace_segments_shape [of True s] by (auto simp: namespace_pattern_ok_def)

lemma name_no_star:
  "runtime_command_name_ok s \<Longrightarrow> CHR ''*'' \<notin> set s"
proof -
  assume a: "runtime_command_name_ok s"
  have "CHR ''*'' \<notin> set s" if "List.member RUNTIME_COMMAND_NAMES s"
    using that by (auto simp: RUNTIME_COMMAND_NAMES_def SHARED_ROOM_COMMANDS_def)
  moreover have "CHR ''*'' \<notin> set s" if c: "consumer_name_ok s"
  proof -
    have s: "s = ''consumer.'' @ drop 9 s"
    proof -
      have "starts_with ''consumer.'' s" using c unfolding consumer_name_ok_def by blast
      moreover have "length ''consumer.'' = 9" by simp
      ultimately show ?thesis using starts_withD by metis
    qed
    have "list_all (\<lambda>c. name_char c \<or> c = CHR ''.'' \<or> c = CHR ''-'') (drop 9 s)"
      using c by (simp add: consumer_name_ok_def Let_def)
    then have "CHR ''*'' \<notin> set (drop 9 s)"
      by (auto simp: list_all_iff name_char_def is_lower_def is_digit_def in_range_def byte_def)
    then show ?thesis by (subst s) simp
  qed
  ultimately show ?thesis using a by (auto simp: runtime_command_name_ok_def)
qed

lemma matches_namespace:
  "commandGrantMatches (p @ ''.*'') c \<longleftrightarrow> c = p @ ''.*'' \<or> p @ ''.*'' = ''*'' \<or> (\<exists>t. t \<noteq> [] \<and> c = p @ ''.'' @ t)"
proof -
  have "butlast (p @ ''.*'') = p @ ''.''" by (simp add: butlast_append)
  moreover have "ends_with ''.*'' (p @ ''.*'')" by (simp add: ends_with_def)
  moreover have "starts_with (p @ ''.'') c \<and> length c > Suc (length p) \<longleftrightarrow> (\<exists>t. t \<noteq> [] \<and> c = p @ ''.'' @ t)"
  proof
    assume a: "starts_with (p @ ''.'') c \<and> length c > Suc (length p)"
    then have "c = (p @ ''.'') @ drop (length (p @ ''.'')) c" using starts_withD by blast
    moreover have "drop (length (p @ ''.'')) c \<noteq> []" using a by simp
    ultimately show "\<exists>t. t \<noteq> [] \<and> c = p @ ''.'' @ t" by (metis append_assoc)
  next
    assume "\<exists>t. t \<noteq> [] \<and> c = p @ ''.'' @ t"
    then obtain t where t: "t \<noteq> []" "c = (p @ ''.'') @ t" by auto
    then show "starts_with (p @ ''.'') c \<and> length c > Suc (length p)"
      unfolding t(2) by (simp add: starts_with_def)
  qed
  ultimately show ?thesis by (auto simp: commandGrantMatches_def)
qed

end
