(* ===== verification/Names.thy ===== *)
theory Names
  imports Scalars
begin

section \<open>Room names and room identity names\<close>

text \<open>
  \<open>src/contracts.ts\<close>: the room name schema, the identity name generated from a room name and the
  tests applied to a persisted identity name; and \<open>web/src/roomName.ts\<close>, the console's copy of the
  room name rules. Unicode normalisation form C is table driven and stands outside the
  repository: it is the parameter \<open>nfc\<close>.
\<close>

definition normalizeRoomName :: "(string \<Rightarrow> string) \<Rightarrow> string \<Rightarrow> string" where
  "normalizeRoomName nfc v = nfc (trim v)"

definition room_name_parse :: "(string \<Rightarrow> string) \<Rightarrow> string \<Rightarrow> string option" where
  "room_name_parse nfc v =
     (if has_control v then None
      else let value = normalizeRoomName nfc v; n = length (cps value) in
        if n < 1 \<or> n > 64 then None else Some value)"

definition ROOM_IDENTITY_PREFIX :: string where
  "ROOM_IDENTITY_PREFIX = ''ours-cowork:''"

definition max_identity_title :: nat where
  "max_identity_title = 64 - length (cps ROOM_IDENTITY_PREFIX)"

definition identity_name_forbidden :: "nat \<Rightarrow> bool" where
  "identity_name_forbidden c \<longleftrightarrow> c = 92 \<or> c = 47 \<or> is_cc c \<or> is_cf c \<or> is_cs c \<or> c = 8232 \<or> c = 8233"

definition identity_name_reserved :: "string list" where
  "identity_name_reserved = [''.'', ''..'', ''contact-book'', ''root.json'', ''bindings.json'']"

definition sdkIdentityNameError :: "(string \<Rightarrow> string) \<Rightarrow> string \<Rightarrow> string option" where
  "sdkIdentityNameError nfc identityName =
     (let n = length (cps identityName) in
      if n < 1 \<or> n > 64 then Some ''length''
      else if identityName \<noteq> nfc identityName then Some ''normalization''
      else if list_ex identity_name_forbidden (cps identityName) then Some ''character''
      else if List.member identity_name_reserved identityName then Some ''reserved''
      else None)"

definition bounded_title :: "string \<Rightarrow> string" where
  "bounded_title normalized = of_cps (take max_identity_title (cps normalized))"

definition roomIdentityName :: "(string \<Rightarrow> string) \<Rightarrow> string \<Rightarrow> err + string" where
  "roomIdentityName nfc roomName =
     (case room_name_parse nfc roomName of
        None \<Rightarrow> Inl Zod_error
      | Some normalized \<Rightarrow>
          (let identityName = ROOM_IDENTITY_PREFIX @ bounded_title normalized in
           case sdkIdentityNameError nfc identityName of
             Some detail \<Rightarrow> Inl (Name_error detail)
           | None \<Rightarrow> Inr identityName))"

definition isPersistedRoomIdentityName :: "(string \<Rightarrow> string) \<Rightarrow> string \<Rightarrow> string \<Rightarrow> bool" where
  "isPersistedRoomIdentityName nfc roomId identityName \<longleftrightarrow>
     ulid_ok roomId \<and> starts_with ROOM_IDENTITY_PREFIX identityName
     \<and> (case room_name_parse nfc (drop (length ROOM_IDENTITY_PREFIX) identityName) of
          None \<Rightarrow> False
        | Some name \<Rightarrow> identityName = ROOM_IDENTITY_PREFIX @ name)"

definition isStandardRoomIdentityName :: "(string \<Rightarrow> string) \<Rightarrow> string \<Rightarrow> string \<Rightarrow> bool" where
  "isStandardRoomIdentityName nfc roomId identityName \<longleftrightarrow>
     isPersistedRoomIdentityName nfc roomId identityName \<and> sdkIdentityNameError nfc identityName = None"

definition defaultRoomName :: "string \<Rightarrow> string option" where
  "defaultRoomName roomId = (if ulid_ok roomId then Some (''Room '' @ take 8 roomId) else None)"

text \<open>\<open>web/src/roomName.ts\<close>.\<close>

definition roomNameError :: "(string \<Rightarrow> string) \<Rightarrow> string \<Rightarrow> string option" where
  "roomNameError nfc v =
     (if has_control v then Some ''Name cannot contain control or format characters.''
      else let n = length (cps (normalizeRoomName nfc v)) in
        if n < 1 then Some ''Name is required.''
        else if n > 64 then Some ''Name must be at most 64 characters.''
        else None)"

definition isNormalizedRoomName :: "(string \<Rightarrow> string) \<Rightarrow> string \<Rightarrow> bool" where
  "isNormalizedRoomName nfc v \<longleftrightarrow> v = normalizeRoomName nfc v \<and> roomNameError nfc v = None"

subsection \<open>Lemmas\<close>

lemma prefix_ascii: "list_all (\<lambda>c. byte c < 128) ROOM_IDENTITY_PREFIX"
  by (simp add: ROOM_IDENTITY_PREFIX_def byte_def)

lemma cps_prefix: "cps (ROOM_IDENTITY_PREFIX @ s) = map byte ROOM_IDENTITY_PREFIX @ cps s"
  by (rule cps_append_ascii [OF prefix_ascii])

lemma length_prefix [simp]: "length ROOM_IDENTITY_PREFIX = 12"
  by (simp add: ROOM_IDENTITY_PREFIX_def)

lemma max_identity_title_eq [simp]: "max_identity_title = 52"
  using cps_prefix [of "[]"] by (simp add: max_identity_title_def)

lemma cps_bounded_title [simp]: "cps (bounded_title s) = take 52 (cps s)"
proof -
  have "list_all (\<lambda>c. c < 2097152) (take max_identity_title (cps s))"
    using cps_bounded [of s] by (meson in_set_takeD list_all_iff)
  then show ?thesis by (simp add: bounded_title_def cps_of_cps)
qed

lemma drop_prefix [simp]: "drop (length ROOM_IDENTITY_PREFIX) (ROOM_IDENTITY_PREFIX @ s) = s"
  by simp

lemma room_name_parseD:
  "room_name_parse nfc v = Some n \<Longrightarrow> n = normalizeRoomName nfc v \<and> \<not> has_control v
     \<and> 1 \<le> length (cps n) \<and> length (cps n) \<le> 64"
  by (auto simp: room_name_parse_def Let_def Suc_le_eq split: if_splits)

lemma roomIdentityNameD:
  assumes "roomIdentityName nfc v = Inr i"
  obtains n where "room_name_parse nfc v = Some n" "i = ROOM_IDENTITY_PREFIX @ bounded_title n"
    "sdkIdentityNameError nfc i = None"
  using assms by (auto simp: roomIdentityName_def Let_def split: option.splits)

subsection \<open>Generated identity names\<close>

text \<open>What the code relies on of \<open>String.prototype.normalize('NFC')\<close>: it is idempotent, it leaves a
  trimmed string trimmed, it returns a string, and it introduces no control or format character.\<close>

definition nfc_laws :: "(string \<Rightarrow> string) \<Rightarrow> bool" where
  "nfc_laws nfc \<longleftrightarrow> (\<forall>s. nfc (nfc s) = nfc s \<and> trim (nfc (trim s)) = nfc (trim s) \<and> of_cps (cps (nfc s)) = nfc s
     \<and> (\<not> has_control s \<longrightarrow> \<not> has_control (nfc s)))"

lemma of_cps_cps_idem [simp]: "cps (of_cps (cps s)) = cps s"
  by (rule cps_of_cps [OF cps_bounded])

lemma recode_nfc_laws: "nfc_laws (\<lambda>s. of_cps (cps s))"
  by (simp add: nfc_laws_def trim_def cps_of_cps bounded_trim_cps has_control_def)

lemma room_name_parse_fixed:
  assumes nfc: "nfc_laws nfc" and p: "room_name_parse nfc v = Some n"
  shows "room_name_parse nfc n = Some n"
proof -
  have n: "n = nfc (trim v)" and c: "\<not> has_control v" and l: "1 \<le> length (cps n)" "length (cps n) \<le> 64"
    using room_name_parseD [OF p] by (auto simp: normalizeRoomName_def)
  have "trim n = n" "nfc n = n" using nfc unfolding n nfc_laws_def by metis+
  moreover have "\<not> has_control n" using nfc has_control_trim [OF c] unfolding n nfc_laws_def by blast
  ultimately show ?thesis using l by (auto simp: room_name_parse_def normalizeRoomName_def Let_def)
qed

lemma sdk_no_control:
  "sdkIdentityNameError nfc (ROOM_IDENTITY_PREFIX @ t) = None \<Longrightarrow> \<not> has_control t"
  by (auto simp: sdkIdentityNameError_def Let_def cps_prefix list_ex_iff identity_name_forbidden_def
      has_control_def split: if_splits)

text \<open>The identity name generated from a room name of at most 52 characters is a standard
  identity name of the room: the test \<open>createRoom\<close> and every later load apply to it passes.\<close>

theorem identity_name_standard:
  assumes nfc: "nfc_laws nfc" and rid: "ulid_ok rid" and gen: "roomIdentityName nfc v = Inr i"
    and short: "length (cps (normalizeRoomName nfc v)) \<le> 52"
  shows "isStandardRoomIdentityName nfc rid i"
proof -
  obtain n where n: "room_name_parse nfc v = Some n" and i: "i = ROOM_IDENTITY_PREFIX @ bounded_title n"
    and sdk: "sdkIdentityNameError nfc i = None"
    using gen by (rule roomIdentityNameD)
  have nv: "n = nfc (trim v)" and len: "cps n \<noteq> []" "length (cps n) \<le> 64"
    using room_name_parseD [OF n] by (auto simp: normalizeRoomName_def)
  have t: "bounded_title n = n"
    using short nfc nv by (simp add: bounded_title_def normalizeRoomName_def nfc_laws_def)
  have "normalizeRoomName nfc n = n" using nfc nv by (simp add: normalizeRoomName_def nfc_laws_def)
  moreover have "\<not> has_control n" using sdk sdk_no_control i t by simp
  ultimately have "room_name_parse nfc n = Some n" using len by (simp add: room_name_parse_def Let_def Suc_le_eq)
  then show ?thesis
    using rid sdk unfolding i t isStandardRoomIdentityName_def isPersistedRoomIdentityName_def by simp
qed

lemma identity_name_standard_witness:
  "isStandardRoomIdentityName (\<lambda>s. of_cps (cps s)) ''01arz3ndektsv4rrffq69g5fav'' ''ours-cowork:Ship it''"
  by (rule identity_name_standard [OF recode_nfc_laws, where v = "'' Ship it''"]) code_simp+

definition long_name :: string where
  "long_name = replicate 51 CHR ''x'' @ '' y''"

text \<open>A longer name loses everything past its 52nd character. When the 52nd character is white
  space the generated identity name passes the SDK's own rules and is refused by the test applied
  to the persisted name, so no room with such a name can be created.\<close>

theorem identity_name_cut_at_space:
  "roomIdentityName (\<lambda>s. s) long_name = Inr (ROOM_IDENTITY_PREFIX @ replicate 51 CHR ''x'' @ '' '')
   \<and> sdkIdentityNameError (\<lambda>s. s) (ROOM_IDENTITY_PREFIX @ replicate 51 CHR ''x'' @ '' '') = None
   \<and> \<not> isPersistedRoomIdentityName (\<lambda>s. s) ''01arz3ndektsv4rrffq69g5fav''
        (ROOM_IDENTITY_PREFIX @ replicate 51 CHR ''x'' @ '' '')"
  by code_simp

text \<open>The console accepts exactly the names the server accepts, and a name it holds as
  normalised is one the server returns unchanged.\<close>

theorem console_name_rules:
  "(roomNameError nfc v = None \<longleftrightarrow> room_name_parse nfc v \<noteq> None)
   \<and> (isNormalizedRoomName nfc v \<longleftrightarrow> room_name_parse nfc v = Some v)"
  by (auto simp: roomNameError_def room_name_parse_def isNormalizedRoomName_def Let_def not_less
      split: if_splits)

end
