(* ===== verification/Contracts.thy ===== *)
theory Contracts
  imports Commands Names
begin

section \<open>Rooms\<close>

text \<open>
  The room metadata of \<open>src/contracts.ts\<close>: seats, invites, grants and the room record, and the
  schema every write goes through. \<open>RoomSchema_parse\<close> is \<open>RoomSchema.parse\<close> on the record a
  caller holds: it applies the schema's transforms (the room name is normalised, grant CIDs are
  upper-cased) and rejects a record that fails any of its refinements. The prerelease field
  \<open>replaces_seat\<close>, which the schema reads and drops, has no place in the records.
\<close>

subsection \<open>Data\<close>

datatype room_state = Provisioning | Room_active | Closing | Closed
datatype seat_state = Seat_pending | Seat_active | Seat_removed
datatype invite_mode = One_time | Public
datatype invite_state = Live | Consumed | Revoked | Replacement_required | Receipt_pending
datatype removal_reason = Contact_absent
datatype lifecycle_command = Room_close | Room_delete
datatype lifecycle_state = L_pending | L_failed | L_completed
datatype definition_source = Rest_source | Local_source

record seat =
  s_identity :: string
  s_display_name :: string
  s_role :: string
  s_invite_id :: string
  s_accepted_at :: "string option"
  s_requested_at :: "string option"
  s_invite_sha256 :: "string option"
  s_participant_id :: string
  s_state :: seat_state
  s_alias :: "string option"
  s_removal_reason :: "removal_reason option"
  s_removed_at :: "string option"
  s_removed_epoch :: "int option"
  s_bounced_at :: "string option"

record invite =
  i_invite_id :: string
  i_mode :: invite_mode
  i_role :: string
  i_min_accepts :: int
  i_accepted_cids :: "string list"
  i_state :: invite_state
  i_recovery_of :: "string option"
  i_recovery_confirmed :: "bool option"
  i_created_at :: string

record mission =
  mi_goal :: string
  mi_briefing :: string
  mi_briefing_version :: int

record role_briefing =
  b_text :: string
  b_version :: int
  b_updated_at :: string

record grant =
  g_caller_cid :: string
  g_command :: string

record role_grant =
  rg_role :: string
  rg_commands :: "string list"

record activation_requirement =
  ar_role :: string
  ar_count :: int

text \<open>The consumer's JSON input schema is kept as its encoded text.\<close>

record consumer_definition =
  cd_name :: string
  cd_description :: string
  cd_input_schema :: string
  cd_handler :: string
  cd_source :: definition_source
  cd_revision :: int

record lifecycle_request =
  l_request_id :: string
  l_command :: lifecycle_command
  l_caller_cid :: string
  l_accepted_at :: string
  l_state :: lifecycle_state
  l_error :: bool

record room =
  r_room_id :: string
  r_room_name :: string
  r_identity_name :: string
  r_identity_cid :: string
  r_state :: room_state
  r_activation_requirements :: "activation_requirement list option"
  r_status :: "string option"
  r_invites :: "invite list"
  r_created_at :: string
  r_activated_at :: "string option"
  r_closed_at :: "string option"
  r_mission :: mission
  r_role_briefings :: "(string \<times> role_briefing) list"
  r_rest_roles :: "string list"
  r_command_grants :: "grant list"
  r_consumer_commands :: "consumer_definition list option"
  r_consumer_commands_revision :: "int option"
  r_lifecycle_request :: "lifecycle_request option"
  r_role_command_grants :: "role_grant list"
  r_anonymous :: bool
  r_quiet_membership :: bool
  r_membership_epoch :: int
  r_seats :: "seat list"

subsection \<open>The seat and invite schemas\<close>

definition seat_fields_ok :: "seat \<Rightarrow> bool" where
  "seat_fields_ok seat \<longleftrightarrow>
     nonempty (s_identity seat) \<and> nonempty (s_display_name seat) \<and> role_ok (s_role seat)
     \<and> nonempty (s_invite_id seat) \<and> opt_ok isStrictRfc3339 (s_accepted_at seat)
     \<and> opt_ok isStrictRfc3339 (s_requested_at seat) \<and> opt_ok sha256_ok (s_invite_sha256 seat)
     \<and> ulid_ok (s_participant_id seat) \<and> opt_ok nonempty (s_alias seat)
     \<and> opt_ok isStrictRfc3339 (s_removed_at seat) \<and> opt_ok nonneg_safe (s_removed_epoch seat)
     \<and> opt_ok isStrictRfc3339 (s_bounced_at seat)"

definition no_removal_fields :: "seat \<Rightarrow> bool" where
  "no_removal_fields seat \<longleftrightarrow> s_removed_at seat = None \<and> s_removed_epoch seat = None
     \<and> s_bounced_at seat = None \<and> s_removal_reason seat = None"

definition seat_ok :: "seat \<Rightarrow> bool" where
  "seat_ok seat \<longleftrightarrow> seat_fields_ok seat
     \<and> (case s_state seat of
          Seat_pending \<Rightarrow> s_requested_at seat \<noteq> None \<and> s_invite_sha256 seat \<noteq> None
            \<and> s_accepted_at seat = None \<and> no_removal_fields seat
        | Seat_removed \<Rightarrow> \<not> (s_accepted_at seat = None \<and> s_requested_at seat = None)
            \<and> s_removed_at seat \<noteq> None \<and> s_removed_epoch seat \<noteq> None
        | Seat_active \<Rightarrow> s_accepted_at seat \<noteq> None \<and> no_removal_fields seat)
     \<and> (s_requested_at seat = None \<longleftrightarrow> s_invite_sha256 seat = None)"

definition invite_ok :: "invite \<Rightarrow> bool" where
  "invite_ok iv \<longleftrightarrow>
     nonempty (i_invite_id iv) \<and> role_ok (i_role iv) \<and> positive_safe (i_min_accepts iv)
     \<and> list_all nonempty (i_accepted_cids iv) \<and> opt_ok nonempty (i_recovery_of iv)
     \<and> isStrictRfc3339 (i_created_at iv)
     \<and> (i_mode iv = One_time \<longrightarrow> i_min_accepts iv = 1)
     \<and> (i_state iv = Receipt_pending \<longrightarrow> i_recovery_of iv \<noteq> None)
     \<and> (i_recovery_of iv = None \<longleftrightarrow> i_recovery_confirmed iv = None)
     \<and> (i_state iv = Receipt_pending \<longrightarrow> i_recovery_confirmed iv = Some False)
     \<and> (i_recovery_of iv \<noteq> None \<and> i_state iv \<in> {Live, Consumed, Replacement_required}
          \<longrightarrow> i_recovery_confirmed iv = Some True)
     \<and> (i_state iv = Receipt_pending \<longrightarrow> i_accepted_cids iv = [])"

subsection \<open>The other parts\<close>

definition mission_ok :: "mission \<Rightarrow> bool" where
  "mission_ok mi \<longleftrightarrow> text_ok (mi_goal mi) \<and> text_ok (mi_briefing mi) \<and> positive_safe (mi_briefing_version mi)"

definition role_briefing_ok :: "role_briefing \<Rightarrow> bool" where
  "role_briefing_ok b \<longleftrightarrow> text_ok (b_text b) \<and> positive_safe (b_version b) \<and> isStrictRfc3339 (b_updated_at b)"

definition grant_parse :: "grant \<Rightarrow> grant option" where
  "grant_parse g = (case cid_parse (g_caller_cid g) of None \<Rightarrow> None
     | Some c \<Rightarrow> if grant_pattern_ok (g_command g) then Some (g\<lparr>g_caller_cid := c\<rparr>) else None)"

definition role_grant_ok :: "role_grant \<Rightarrow> bool" where
  "role_grant_ok g \<longleftrightarrow> role_ok (rg_role g) \<and> list_all grant_pattern_ok (rg_commands g) \<and> distinct (rg_commands g)"

definition activation_requirements_ok :: "activation_requirement list \<Rightarrow> bool" where
  "activation_requirements_ok reqs \<longleftrightarrow>
     list_all (\<lambda>q. role_ok (ar_role q) \<and> 1 \<le> ar_count q \<and> ar_count q \<le> 1000) reqs
     \<and> length reqs \<le> 1000 \<and> distinct (map ar_role reqs)"

definition consumer_definition_ok :: "consumer_definition \<Rightarrow> bool" where
  "consumer_definition_ok d \<longleftrightarrow>
     consumer_name_ok (cd_name d) \<and> 1 \<le> js_length (cd_description d) \<and> js_length (cd_description d) \<le> 1024
     \<and> 1 \<le> js_length (cd_handler d) \<and> js_length (cd_handler d) \<le> 128 \<and> positive_safe (cd_revision d)"

definition lifecycle_request_parse :: "lifecycle_request \<Rightarrow> lifecycle_request option" where
  "lifecycle_request_parse q = (case cid_parse (l_caller_cid q) of None \<Rightarrow> None
     | Some c \<Rightarrow> if 1 \<le> js_length (l_request_id q) \<and> js_length (l_request_id q) \<le> 256
           \<and> isStrictRfc3339 (l_accepted_at q) then Some (q\<lparr>l_caller_cid := c\<rparr>) else None)"

definition ROOM_ROLE :: string where
  "ROOM_ROLE = ''room''"

definition DEFAULT_ROLE :: string where
  "DEFAULT_ROLE = ''Participant''"

definition rest_roles_ok :: "string list \<Rightarrow> bool" where
  "rest_roles_ok roles \<longleftrightarrow> list_all role_ok roles \<and> \<not> List.member roles ROOM_ROLE \<and> distinct roles"

subsection \<open>Lineage of invites and identity\<close>

definition exact_packet_pending :: "(string \<Rightarrow> string) \<Rightarrow> room \<Rightarrow> bool" where
  "exact_packet_pending nfc room \<longleftrightarrow>
     r_state room = Provisioning \<and> r_status room = Some ''packet_pending''
     \<and> isPersistedRoomIdentityName nfc (r_room_id room) (r_identity_name room)
     \<and> r_invites room = [] \<and> r_seats room = []
     \<and> r_activated_at room = None \<and> r_closed_at room = None"

fun valid_source_state :: "invite_state \<Rightarrow> bool option \<Rightarrow> invite_state \<Rightarrow> bool" where
  "valid_source_state Receipt_pending confirmed source = (source = Replacement_required)"
| "valid_source_state Revoked confirmed source =
     (if confirmed = Some True then source = Revoked else source = Replacement_required \<or> source = Revoked)"
| "valid_source_state _ confirmed source = (source = Revoked)"

definition find_invite :: "invite list \<Rightarrow> string \<Rightarrow> invite option" where
  "find_invite invs ident = List.find (\<lambda>i. i_invite_id i = ident) invs"

definition recovery_ok :: "invite list \<Rightarrow> invite \<Rightarrow> bool" where
  "recovery_ok invs iv \<longleftrightarrow>
     (case i_recovery_of iv of None \<Rightarrow> True
      | Some ro \<Rightarrow>
          (case find_invite invs ro of None \<Rightarrow> False
           | Some source \<Rightarrow> i_invite_id source \<noteq> i_invite_id iv
               \<and> valid_source_state (i_state iv) (i_recovery_confirmed iv) (i_state source)
               \<and> i_mode iv = i_mode source \<and> i_role iv = i_role source
               \<and> i_min_accepts iv = i_min_accepts source))"

definition pending_recoveries :: "invite list \<Rightarrow> string list" where
  "pending_recoveries invs =
     List.map_filter (\<lambda>i. if i_state i = Receipt_pending then i_recovery_of i else None) invs"

definition refineRoomLineage :: "(string \<Rightarrow> string) \<Rightarrow> room \<Rightarrow> bool" where
  "refineRoomLineage nfc room \<longleftrightarrow>
     (r_identity_cid room = [] \<longrightarrow> exact_packet_pending nfc room)
     \<and> (r_identity_cid room \<noteq> [] \<longrightarrow> r_status room \<noteq> Some ''packet_pending'')
     \<and> list_all (recovery_ok (r_invites room)) (r_invites room)
     \<and> distinct (pending_recoveries (r_invites room))"

subsection \<open>The room schema\<close>

definition live_seat :: "seat \<Rightarrow> bool" where
  "live_seat seat \<longleftrightarrow> s_state seat = Seat_pending \<or> s_state seat = Seat_active"

definition active_seat :: "seat \<Rightarrow> bool" where
  "active_seat seat \<longleftrightarrow> s_state seat = Seat_active"

definition active_seats :: "room \<Rightarrow> seat list" where
  "active_seats room = filter active_seat (r_seats room)"

definition room_seats_ok :: "room \<Rightarrow> bool" where
  "room_seats_ok room \<longleftrightarrow>
     distinct (map s_participant_id (r_seats room))
     \<and> distinct (map s_identity (filter live_seat (r_seats room)))
     \<and> list_all (\<lambda>s. r_anonymous room \<longleftrightarrow> s_alias s \<noteq> None) (r_seats room)
     \<and> distinct (List.map_filter s_alias (active_seats room))
     \<and> list_all (\<lambda>s. opt_ok (\<lambda>e. e \<le> r_membership_epoch room) (s_removed_epoch s)) (r_seats room)"

definition is_active_cid :: "room \<Rightarrow> string \<Rightarrow> bool" where
  "is_active_cid room cid \<longleftrightarrow> list_ex (\<lambda>s. s_state s = Seat_active \<and> s_identity s = cid) (r_seats room)"

definition room_grants_ok :: "room \<Rightarrow> bool" where
  "room_grants_ok room \<longleftrightarrow>
     distinct (map (\<lambda>g. (g_caller_cid g, g_command g)) (r_command_grants room))
     \<and> list_all (\<lambda>g. is_active_cid room (g_caller_cid g)) (r_command_grants room)"

definition room_fields_ok :: "room \<Rightarrow> bool" where
  "room_fields_ok room \<longleftrightarrow>
     ulid_ok (r_room_id room) \<and> nonempty (r_identity_name room)
     \<and> opt_ok activation_requirements_ok (r_activation_requirements room)
     \<and> opt_ok nonempty (r_status room) \<and> list_all invite_ok (r_invites room)
     \<and> isStrictRfc3339 (r_created_at room) \<and> opt_ok isStrictRfc3339 (r_activated_at room)
     \<and> opt_ok isStrictRfc3339 (r_closed_at room) \<and> mission_ok (r_mission room)
     \<and> list_all (\<lambda>(role, b). role_ok role \<and> role_briefing_ok b) (r_role_briefings room)
     \<and> rest_roles_ok (r_rest_roles room)
     \<and> opt_ok (\<lambda>ds. list_all consumer_definition_ok ds \<and> length ds \<le> 64) (r_consumer_commands room)
     \<and> opt_ok nonneg_safe (r_consumer_commands_revision room)
     \<and> list_all role_grant_ok (r_role_command_grants room)
     \<and> distinct (map rg_role (r_role_command_grants room))
     \<and> nonneg_safe (r_membership_epoch room) \<and> list_all seat_ok (r_seats room)"

definition room_checks :: "(string \<Rightarrow> string) \<Rightarrow> room \<Rightarrow> bool" where
  "room_checks nfc room \<longleftrightarrow>
     room_fields_ok room \<and> refineRoomLineage nfc room \<and> room_seats_ok room \<and> room_grants_ok room"

fun opt_parse :: "('a \<Rightarrow> 'a option) \<Rightarrow> 'a option \<Rightarrow> 'a option option" where
  "opt_parse p None = Some None"
| "opt_parse p (Some x) = (case p x of None \<Rightarrow> None | Some y \<Rightarrow> Some (Some y))"

fun list_parse :: "('a \<Rightarrow> 'a option) \<Rightarrow> 'a list \<Rightarrow> 'a list option" where
  "list_parse p [] = Some []"
| "list_parse p (x # xs) =
     (case p x of None \<Rightarrow> None
      | Some y \<Rightarrow> (case list_parse p xs of None \<Rightarrow> None | Some ys \<Rightarrow> Some (y # ys)))"

definition room_transform :: "(string \<Rightarrow> string) \<Rightarrow> room \<Rightarrow> room option" where
  "room_transform nfc room =
     (case room_name_parse nfc (r_room_name room) of None \<Rightarrow> None
      | Some name \<Rightarrow>
     (case list_parse grant_parse (r_command_grants room) of None \<Rightarrow> None
      | Some grants \<Rightarrow>
     (case opt_parse lifecycle_request_parse (r_lifecycle_request room) of None \<Rightarrow> None
      | Some request \<Rightarrow>
          Some (room\<lparr>r_room_name := name, r_command_grants := grants, r_lifecycle_request := request\<rparr>))))"

definition RoomSchema_parse :: "(string \<Rightarrow> string) \<Rightarrow> room \<Rightarrow> err + room" where
  "RoomSchema_parse nfc room =
     (case room_transform nfc room of None \<Rightarrow> Inl Zod_error
      | Some r \<Rightarrow> if room_checks nfc r then Inr r else Inl Zod_error)"

subsection \<open>Older metadata\<close>

text \<open>
  The four fields added to metadata v2 may be missing from a stored room; each is defaulted on
  its own. A version 1 room is mapped to version 2, minting a participant id per seat.
\<close>

record additive_fields =
  o_room_name :: "string option"
  o_rest_roles :: "string list option"
  o_command_grants :: "grant list option"
  o_role_command_grants :: "role_grant list option"

definition preprocess_room :: "additive_fields \<Rightarrow> room \<Rightarrow> room option" where
  "preprocess_room o_f room =
     (case (case o_room_name o_f of Some n \<Rightarrow> Some n | None \<Rightarrow> defaultRoomName (r_room_id room)) of
        None \<Rightarrow> None
      | Some name \<Rightarrow> Some (room\<lparr>r_room_name := name,
          r_rest_roles := (case o_rest_roles o_f of Some v \<Rightarrow> v | None \<Rightarrow> []),
          r_command_grants := (case o_command_grants o_f of Some v \<Rightarrow> v | None \<Rightarrow> []),
          r_role_command_grants := (case o_role_command_grants o_f of Some v \<Rightarrow> v | None \<Rightarrow> [])\<rparr>))"

definition RoomSchema_parse_stored :: "(string \<Rightarrow> string) \<Rightarrow> additive_fields \<Rightarrow> room \<Rightarrow> err + room" where
  "RoomSchema_parse_stored nfc o_f room =
     (case preprocess_room o_f room of None \<Rightarrow> Inl Zod_error | Some r \<Rightarrow> RoomSchema_parse nfc r)"

record seat_v1 =
  s1_identity :: string
  s1_display_name :: string
  s1_role :: string
  s1_invite_id :: string
  s1_accepted_at :: string

record room_v1 =
  r1_room_id :: string
  r1_identity_name :: string
  r1_identity_cid :: string
  r1_state :: room_state
  r1_activation_requirements :: "activation_requirement list option"
  r1_status :: "string option"
  r1_invites :: "invite list"
  r1_created_at :: string
  r1_activated_at :: "string option"
  r1_closed_at :: "string option"
  r1_goal :: string
  r1_briefing :: string
  r1_seats :: "seat_v1 list"

definition migrate_seat :: "seat_v1 \<Rightarrow> string \<Rightarrow> seat" where
  "migrate_seat s pid = \<lparr>s_identity = s1_identity s, s_display_name = s1_display_name s,
     s_role = s1_role s, s_invite_id = s1_invite_id s, s_accepted_at = Some (s1_accepted_at s),
     s_requested_at = None, s_invite_sha256 = None, s_participant_id = pid, s_state = Seat_active,
     s_alias = None, s_removal_reason = None, s_removed_at = None, s_removed_epoch = None,
     s_bounced_at = None\<rparr>"

text \<open>\<open>mint n\<close> is the participant id minted for the \<open>n\<close>-th seat. The room name is absent from a
  version 1 room, so the preprocessing of \<open>RoomSchema\<close> supplies it.\<close>

definition migrateRoomV1 :: "(string \<Rightarrow> string) \<Rightarrow> (nat \<Rightarrow> string) \<Rightarrow> room_v1 \<Rightarrow> err + room" where
  "migrateRoomV1 nfc mint room =
     (if \<not> list_all (\<lambda>n. ulid_ok (mint n)) [0..<length (r1_seats room)] then Inl Zod_error
      else RoomSchema_parse_stored nfc
        \<lparr>o_room_name = None, o_rest_roles = Some [], o_command_grants = Some [], o_role_command_grants = Some []\<rparr>
        \<lparr>r_room_id = r1_room_id room, r_room_name = [], r_identity_name = r1_identity_name room,
         r_identity_cid = r1_identity_cid room, r_state = r1_state room,
         r_activation_requirements = r1_activation_requirements room, r_status = r1_status room,
         r_invites = r1_invites room, r_created_at = r1_created_at room,
         r_activated_at = r1_activated_at room, r_closed_at = r1_closed_at room,
         r_mission = \<lparr>mi_goal = r1_goal room, mi_briefing = r1_briefing room, mi_briefing_version = 1\<rparr>,
         r_role_briefings = [], r_rest_roles = [], r_command_grants = [], r_consumer_commands = None,
         r_consumer_commands_revision = None, r_lifecycle_request = None, r_role_command_grants = [],
         r_anonymous = False, r_quiet_membership = False, r_membership_epoch = 0,
         r_seats = map2 migrate_seat (r1_seats room) (map mint [0..<length (r1_seats room)])\<rparr>)"

subsection \<open>Facts\<close>

lemma RoomSchema_parseD:
  "RoomSchema_parse nfc room = Inr r \<Longrightarrow> room_checks nfc r \<and> room_transform nfc room = Some r"
  by (auto simp: RoomSchema_parse_def split: option.splits if_splits)

lemma RoomSchema_parse_seats:
  "RoomSchema_parse nfc room = Inr r \<Longrightarrow> r_seats r = r_seats room"
  and RoomSchema_parse_invites:
  "RoomSchema_parse nfc room = Inr r \<Longrightarrow> r_invites r = r_invites room"
  and RoomSchema_parse_state:
  "RoomSchema_parse nfc room = Inr r \<Longrightarrow> r_state r = r_state room"
  and RoomSchema_parse_epoch:
  "RoomSchema_parse nfc room = Inr r \<Longrightarrow> r_membership_epoch r = r_membership_epoch room"
  and RoomSchema_parse_id:
  "RoomSchema_parse nfc room = Inr r \<Longrightarrow> r_room_id r = r_room_id room"
  by (auto simp: RoomSchema_parse_def room_transform_def split: option.splits if_splits)

lemma list_parse_fixed:
  assumes "\<And>x y. p x = Some y \<Longrightarrow> p y = Some y"
  shows "list_parse p xs = Some ys \<Longrightarrow> list_parse p ys = Some ys"
  using assms by (induction xs arbitrary: ys) (auto split: option.splits)

lemma grant_parse_fixed: "grant_parse g = Some h \<Longrightarrow> grant_parse h = Some h"
  by (auto simp: grant_parse_def split: option.splits if_splits dest: cid_parse_stable)

lemma lifecycle_request_parse_fixed:
  "lifecycle_request_parse q = Some h \<Longrightarrow> lifecycle_request_parse h = Some h"
  by (auto simp: lifecycle_request_parse_def split: option.splits if_splits dest: cid_parse_stable)

lemma opt_parse_fixed:
  assumes "\<And>x y. p x = Some y \<Longrightarrow> p y = Some y"
  shows "opt_parse p v = Some w \<Longrightarrow> opt_parse p w = Some w"
proof (cases v)
  case (Some x)
  then show "opt_parse p v = Some w \<Longrightarrow> opt_parse p w = Some w"
    using assms by (cases "p x") auto
qed simp

lemma RoomSchema_parse_fixed:
  assumes nfc: "nfc_laws nfc" and p: "RoomSchema_parse nfc room = Inr r"
  shows "RoomSchema_parse nfc r = Inr r"
proof -
  have t: "room_transform nfc room = Some r" and c: "room_checks nfc r" using RoomSchema_parseD [OF p] by auto
  obtain n gs q where ps: "room_name_parse nfc (r_room_name room) = Some n"
      "list_parse grant_parse (r_command_grants room) = Some gs"
      "opt_parse lifecycle_request_parse (r_lifecycle_request room) = Some q"
    and r: "r = room\<lparr>r_room_name := n, r_command_grants := gs, r_lifecycle_request := q\<rparr>"
    using t by (auto simp: room_transform_def split: option.splits)
  have "room_name_parse nfc n = Some n" "list_parse grant_parse gs = Some gs"
    "opt_parse lifecycle_request_parse q = Some q"
    using room_name_parse_fixed [OF nfc ps(1)] list_parse_fixed [OF grant_parse_fixed ps(2)]
      opt_parse_fixed [OF lifecycle_request_parse_fixed ps(3)] by auto
  then have "room_transform nfc r = Some r" by (simp add: room_transform_def r)
  with c show ?thesis by (simp add: RoomSchema_parse_def)
qed

end
