(* ===== verification/Records.thy ===== *)
theory Records
  imports Contracts Base64
begin

section \<open>Archive records\<close>

text \<open>
  The communication records of \<open>src/contracts.ts\<close> and the thread schemas of
  \<open>src/thread-contracts.ts\<close>. A record is its common fields and a body, one constructor per
  \<open>kind\<close>. \<open>AppendRecordSchema_parse\<close> is the schema every append goes through,
  \<open>CommunicationRecordSchema_parse\<close> the one every read goes through. The digest function is
  the parameter \<open>sha\<close> (lower-case hexadecimal).
\<close>

subsection \<open>Data\<close>

datatype category = Briefing | Role_briefing | Chat | Membership
datatype source_kind = Source_message | Source_file
datatype rejection_error = Rejected_reply_target | Rejected_thread_file
datatype relay_status = Queued | Send_failed | Skipped_removed | Skipped_reply_unavailable

record author =
  a_identity :: string
  a_display_name :: string
  a_role :: string

record author_alias =
  al_participant_id :: string
  al_alias :: string

record reply_ref =
  rr_wire_id :: string
  rr_sentence :: "int option"

record thread_member =
  tm_participant_id :: string
  tm_identity :: string

record thread_root =
  tr_thread_id :: string
  tr_topic :: string
  tr_creator_participant_id :: string
  tr_members :: "thread_member list"
  tr_idempotency_key :: string
  tr_fingerprint :: string

record thread_scope =
  sc_thread_id :: string
  sc_parent_key :: "string option"

record notice =
  n_alias :: "string option"
  n_role :: "string option"
  n_epoch :: int

record message =
  m_message_id :: string
  m_author :: author
  m_author_alias :: "author_alias option"
  m_category :: category
  m_briefing_role :: "string option"
  m_briefing_version :: "int option"
  m_membership :: "notice option"
  m_text :: string
  m_recipients :: "string list"
  m_source_msg_id :: "int option"
  m_source_wire_id :: "string option"
  m_source_reply_to :: "reply_ref option"
  m_scope :: "thread_scope option"
  m_thread_root :: "thread_root option"

record file_item =
  f_file_id :: string
  f_author :: author
  f_author_alias :: "author_alias option"
  f_filename :: string
  f_mime :: string
  f_size :: int
  f_sha256 :: string
  f_data_base64 :: string
  f_recipients :: "string list"
  f_source_file_id :: int
  f_source_wire_id :: "string option"
  f_source_reply_to :: "reply_ref option"

record relay_intent =
  ri_message_id :: "string option"
  ri_file_id :: "string option"
  ri_recipient :: string

record relay_result =
  rs_intent_record_id :: string
  rs_message_id :: "string option"
  rs_file_id :: "string option"
  rs_recipient :: string
  rs_status :: relay_status
  rs_wire_id :: "string option"
  rs_metadata_wire_id :: "string option"

record rejection =
  rj_source_kind :: source_kind
  rj_source_msg_id :: "int option"
  rj_source_file_id :: "int option"
  rj_source_wire_id :: string
  rj_sender_identity :: string
  rj_sender_participant_id :: string
  rj_fingerprint :: string
  rj_error :: rejection_error

record close_result =
  cr_intent_record_id :: string
  cr_recipient :: string
  cr_status :: relay_status
  cr_notified :: bool
  cr_uncertain_after_restart :: bool

text \<open>The prerelease removal journal stays readable and cannot be appended.\<close>

record command_audit =
  ca_sender_cid :: string
  ca_sender_participant_id :: string
  ca_request_wire_id :: string
  ca_idempotency_key :: string
  ca_expected_membership_epoch :: int

record membership_intent =
  mj_participant_id :: string
  mj_recipient :: string
  mj_role :: string
  mj_alias :: "string option"
  mj_epoch :: int
  mj_notify :: bool
  mj_command :: "command_audit option"

record membership_result =
  mr_intent_record_id :: string
  mr_participant_id :: string
  mr_status :: relay_status
  mr_notified :: bool
  mr_uncertain_after_restart :: bool

datatype body =
    Message message
  | File file_item
  | Relay_intent relay_intent
  | Relay_result relay_result
  | Intake_rejection rejection
  | Membership_intent membership_intent
  | Membership_result membership_result
  | Close_notice_intent string
  | Close_notice_result close_result

record draft =
  d_room_id :: string
  d_at :: string
  d_body :: body

record row =
  w_room_id :: string
  w_seq :: nat
  w_record_id :: string
  w_at :: string
  w_body :: body

subsection \<open>Thread schemas\<close>

definition member_parse :: "thread_member \<Rightarrow> thread_member option" where
  "member_parse m = (case cid_parse (tm_identity m) of None \<Rightarrow> None
     | Some c \<Rightarrow> if ulid_ok (tm_participant_id m) then Some (m\<lparr>tm_identity := c\<rparr>) else None)"

definition ThreadRootSchema_parse :: "thread_root \<Rightarrow> thread_root option" where
  "ThreadRootSchema_parse root =
     (case list_parse member_parse (tr_members root) of None \<Rightarrow> None
      | Some members \<Rightarrow>
          if ulid_ok (tr_thread_id root) \<and> stored_topic_ok (tr_topic root)
            \<and> ulid_ok (tr_creator_participant_id root) \<and> 1 \<le> length members
            \<and> idempotency_key_ok (tr_idempotency_key root) \<and> sha256_ok (tr_fingerprint root)
            \<and> distinct (map tm_participant_id members) \<and> distinct (map tm_identity members)
            \<and> tr_creator_participant_id root \<in> set (map tm_participant_id members)
          then Some (root\<lparr>tr_members := members\<rparr>) else None)"

definition scope_ok :: "thread_scope \<Rightarrow> bool" where
  "scope_ok sc \<longleftrightarrow> ulid_ok (sc_thread_id sc) \<and> opt_ok parent_key_ok (sc_parent_key sc)"

definition alias_ok :: "author_alias \<Rightarrow> bool" where
  "alias_ok al \<longleftrightarrow> ulid_ok (al_participant_id al) \<and> nonempty (al_alias al)"

definition author_ok :: "author \<Rightarrow> bool" where
  "author_ok a \<longleftrightarrow> nonempty (a_identity a) \<and> nonempty (a_display_name a) \<and> role_ok (a_role a)"

definition reply_ref_ok :: "reply_ref \<Rightarrow> bool" where
  "reply_ref_ok r \<longleftrightarrow> nonempty (rr_wire_id r) \<and> opt_ok positive_safe (rr_sentence r)"

definition notice_ok :: "notice \<Rightarrow> bool" where
  "notice_ok n \<longleftrightarrow> opt_ok nonempty (n_alias n) \<and> opt_ok role_ok (n_role n) \<and> nonneg_safe (n_epoch n)"

subsection \<open>Bodies\<close>

definition message_shape :: "message \<Rightarrow> message option" where
  "message_shape m =
     (case opt_parse ThreadRootSchema_parse (m_thread_root m) of None \<Rightarrow> None
      | Some root \<Rightarrow>
          if ulid_ok (m_message_id m) \<and> author_ok (m_author m) \<and> opt_ok alias_ok (m_author_alias m)
            \<and> opt_ok role_ok (m_briefing_role m) \<and> opt_ok positive_safe (m_briefing_version m)
            \<and> opt_ok notice_ok (m_membership m) \<and> text_ok (m_text m)
            \<and> list_all nonempty (m_recipients m) \<and> distinct (m_recipients m)
            \<and> opt_ok nonneg_safe (m_source_msg_id m) \<and> opt_ok nonempty (m_source_wire_id m)
            \<and> opt_ok reply_ref_ok (m_source_reply_to m) \<and> opt_ok scope_ok (m_scope m)
          then Some (m\<lparr>m_thread_root := root\<rparr>) else None)"

definition refineMessageCategory :: "message \<Rightarrow> bool" where
  "refineMessageCategory m \<longleftrightarrow>
     (m_briefing_role m \<noteq> None \<longleftrightarrow> m_category m = Role_briefing)
     \<and> (m_membership m \<noteq> None \<longleftrightarrow> m_category m = Membership)
     \<and> (m_category m = Role_briefing \<longrightarrow> m_briefing_version m \<noteq> None)
     \<and> (m_category m = Chat \<or> m_category m = Membership \<longrightarrow> m_briefing_version m = None)"

definition find_member :: "thread_member list \<Rightarrow> string \<Rightarrow> thread_member option" where
  "find_member members pid = List.find (\<lambda>m. tm_participant_id m = pid) members"

definition refine_thread_root :: "message \<Rightarrow> thread_root \<Rightarrow> bool" where
  "refine_thread_root m root \<longleftrightarrow>
     (case m_scope m of None \<Rightarrow> False
      | Some sc \<Rightarrow>
          sc_thread_id sc = m_message_id m \<and> tr_thread_id root = m_message_id m
          \<and> sc_parent_key sc = None \<and> m_category m = Chat
          \<and> m_text m = ''Thread: '' @ tr_topic root
          \<and> map_option tm_identity (find_member (tr_members root) (tr_creator_participant_id root))
              = Some (a_identity (m_author m))
          \<and> opt_ok (\<lambda>al. al_participant_id al = tr_creator_participant_id root) (m_author_alias m)
          \<and> m_source_msg_id m = None \<and> m_source_wire_id m = None \<and> m_source_reply_to m = None)"

definition refineMessageThread :: "message \<Rightarrow> bool" where
  "refineMessageThread m \<longleftrightarrow>
     (case m_thread_root m of
        Some root \<Rightarrow> refine_thread_root m root
      | None \<Rightarrow>
          (case m_scope m of None \<Rightarrow> True
           | Some sc \<Rightarrow> sc_parent_key sc \<noteq> None \<and> sc_thread_id sc \<noteq> m_message_id m
               \<and> m_source_reply_to m \<noteq> None \<and> m_category m = Chat))"

definition message_parse :: "message \<Rightarrow> message option" where
  "message_parse m =
     (case message_shape m of None \<Rightarrow> None
      | Some m' \<Rightarrow> if refineMessageCategory m' \<and> refineMessageThread m' then Some m' else None)"

definition refineFileRecord :: "(string \<Rightarrow> string) \<Rightarrow> file_item \<Rightarrow> bool" where
  "refineFileRecord sha f \<longleftrightarrow>
     (let bytes = b64_decode (f_data_base64 f) in
      b64_encode bytes = f_data_base64 f \<and> int (length bytes) = f_size f \<and> sha bytes = f_sha256 f)"

definition file_shape :: "file_item \<Rightarrow> bool" where
  "file_shape f \<longleftrightarrow>
     ulid_ok (f_file_id f) \<and> author_ok (f_author f) \<and> opt_ok alias_ok (f_author_alias f)
     \<and> file_name_ok (f_filename f) \<and> file_mime_ok (f_mime f)
     \<and> 0 \<le> f_size f \<and> f_size f \<le> max_file_bytes \<and> sha256_ok (f_sha256 f)
     \<and> list_all nonempty (f_recipients f) \<and> distinct (f_recipients f)
     \<and> nonneg_safe (f_source_file_id f) \<and> opt_ok nonempty (f_source_wire_id f)
     \<and> opt_ok reply_ref_ok (f_source_reply_to f)"

definition refineRelaySubject :: "string option \<Rightarrow> string option \<Rightarrow> bool" where
  "refineRelaySubject message_id file_id \<longleftrightarrow> \<not> (message_id = None \<longleftrightarrow> file_id = None)"

definition relay_intent_ok :: "relay_intent \<Rightarrow> bool" where
  "relay_intent_ok i \<longleftrightarrow> opt_ok ulid_ok (ri_message_id i) \<and> opt_ok ulid_ok (ri_file_id i)
     \<and> nonempty (ri_recipient i) \<and> refineRelaySubject (ri_message_id i) (ri_file_id i)"

definition relay_result_ok :: "relay_result \<Rightarrow> bool" where
  "relay_result_ok r \<longleftrightarrow> nonempty (rs_intent_record_id r) \<and> opt_ok ulid_ok (rs_message_id r)
     \<and> opt_ok ulid_ok (rs_file_id r) \<and> nonempty (rs_recipient r) \<and> opt_ok nonempty (rs_wire_id r)
     \<and> opt_ok nonempty (rs_metadata_wire_id r) \<and> refineRelaySubject (rs_message_id r) (rs_file_id r)"

definition refineIntakeRejection :: "rejection \<Rightarrow> bool" where
  "refineIntakeRejection r \<longleftrightarrow>
     \<not> ((rj_source_msg_id r \<noteq> None) = (rj_source_file_id r \<noteq> None)
        \<or> (if rj_source_kind r = Source_message then rj_source_msg_id r = None
           else rj_source_file_id r = None))"

definition rejection_ok :: "rejection \<Rightarrow> bool" where
  "rejection_ok r \<longleftrightarrow> opt_ok nonneg_safe (rj_source_msg_id r) \<and> opt_ok nonneg_safe (rj_source_file_id r)
     \<and> nonempty (rj_source_wire_id r) \<and> nonempty (rj_sender_identity r)
     \<and> ulid_ok (rj_sender_participant_id r) \<and> sha256_ok (rj_fingerprint r) \<and> refineIntakeRejection r"

definition relay_status_basic :: "relay_status \<Rightarrow> bool" where
  "relay_status_basic s \<longleftrightarrow> s = Queued \<or> s = Send_failed"

definition close_result_ok :: "close_result \<Rightarrow> bool" where
  "close_result_ok r \<longleftrightarrow> nonempty (cr_intent_record_id r) \<and> nonempty (cr_recipient r)
     \<and> relay_status_basic (cr_status r)"

definition command_audit_ok :: "command_audit \<Rightarrow> bool" where
  "command_audit_ok a \<longleftrightarrow> nonempty (ca_sender_cid a) \<and> ulid_ok (ca_sender_participant_id a)
     \<and> nonempty (ca_request_wire_id a) \<and> idempotency_key_ok (ca_idempotency_key a)
     \<and> nonneg_safe (ca_expected_membership_epoch a)"

definition membership_intent_ok :: "membership_intent \<Rightarrow> bool" where
  "membership_intent_ok j \<longleftrightarrow> ulid_ok (mj_participant_id j) \<and> nonempty (mj_recipient j)
     \<and> role_ok (mj_role j) \<and> opt_ok nonempty (mj_alias j) \<and> positive_safe (mj_epoch j)
     \<and> opt_ok command_audit_ok (mj_command j)"

definition membership_result_ok :: "membership_result \<Rightarrow> bool" where
  "membership_result_ok r \<longleftrightarrow> nonempty (mr_intent_record_id r) \<and> ulid_ok (mr_participant_id r)
     \<and> relay_status_basic (mr_status r)"

subsection \<open>Records\<close>

fun body_parse :: "(string \<Rightarrow> string) \<Rightarrow> body \<Rightarrow> body option" where
  "body_parse sha (Message m) = map_option Message (message_parse m)"
| "body_parse sha (File f) = (if file_shape f \<and> refineFileRecord sha f then Some (File f) else None)"
| "body_parse sha (Relay_intent i) = (if relay_intent_ok i then Some (Relay_intent i) else None)"
| "body_parse sha (Relay_result r) = (if relay_result_ok r then Some (Relay_result r) else None)"
| "body_parse sha (Intake_rejection r) = (if rejection_ok r then Some (Intake_rejection r) else None)"
| "body_parse sha (Membership_intent j) = (if membership_intent_ok j then Some (Membership_intent j) else None)"
| "body_parse sha (Membership_result r) = (if membership_result_ok r then Some (Membership_result r) else None)"
| "body_parse sha (Close_notice_intent c) = (if nonempty c then Some (Close_notice_intent c) else None)"
| "body_parse sha (Close_notice_result r) = (if close_result_ok r then Some (Close_notice_result r) else None)"

fun appendable :: "body \<Rightarrow> bool" where
  "appendable (Membership_intent j) = False"
| "appendable (Membership_result r) = False"
| "appendable _ = True"

definition AppendRecordSchema_parse :: "(string \<Rightarrow> string) \<Rightarrow> draft \<Rightarrow> err + draft" where
  "AppendRecordSchema_parse sha d =
     (if ulid_ok (d_room_id d) \<and> isStrictRfc3339 (d_at d) \<and> appendable (d_body d) then
        (case body_parse sha (d_body d) of None \<Rightarrow> Inl Zod_error | Some b \<Rightarrow> Inr (d\<lparr>d_body := b\<rparr>))
      else Inl Zod_error)"

definition record_id_of :: "string \<Rightarrow> nat \<Rightarrow> string" where
  "record_id_of room_id n = room_id @ '':'' @ show_nat n"

definition CommunicationRecordSchema_parse :: "(string \<Rightarrow> string) \<Rightarrow> row \<Rightarrow> err + row" where
  "CommunicationRecordSchema_parse sha w =
     (if ulid_ok (w_room_id w) \<and> positive_safe (int (w_seq w)) \<and> isStrictRfc3339 (w_at w)
        \<and> w_record_id w = record_id_of (w_room_id w) (w_seq w) then
        (case body_parse sha (w_body w) of None \<Rightarrow> Inl Zod_error | Some b \<Rightarrow> Inr (w\<lparr>w_body := b\<rparr>))
      else Inl Zod_error)"

subsection \<open>Facts\<close>

lemma record_id_inject [simp]: "record_id_of r m = record_id_of r n \<longleftrightarrow> m = n"
  by (simp add: record_id_of_def)

lemma member_parse_fixed: "member_parse m = Some n \<Longrightarrow> member_parse n = Some n"
  by (auto simp: member_parse_def split: option.splits if_splits dest: cid_parse_stable)

lemma ThreadRootSchema_parse_fixed:
  assumes "ThreadRootSchema_parse r = Some s" shows "ThreadRootSchema_parse s = Some s"
proof -
  obtain ms where p: "list_parse member_parse (tr_members r) = Some ms" and s: "s = r\<lparr>tr_members := ms\<rparr>"
    using assms by (auto simp: ThreadRootSchema_parse_def split: option.splits if_splits)
  have "list_parse member_parse ms = Some ms" by (rule list_parse_fixed [OF member_parse_fixed p])
  with assms p s show ?thesis by (auto simp: ThreadRootSchema_parse_def split: if_splits)
qed

lemma message_shape_fixed:
  assumes "message_shape m = Some n" shows "message_shape n = Some n"
proof -
  obtain root where p: "opt_parse ThreadRootSchema_parse (m_thread_root m) = Some root"
      and n: "n = m\<lparr>m_thread_root := root\<rparr>"
    using assms by (auto simp: message_shape_def split: option.splits if_splits)
  have "opt_parse ThreadRootSchema_parse root = Some root"
    by (rule opt_parse_fixed [OF ThreadRootSchema_parse_fixed p])
  with assms p n show ?thesis by (auto simp: message_shape_def split: if_splits)
qed

lemma message_parse_fixed: "message_parse m = Some n \<Longrightarrow> message_parse n = Some n"
  by (auto simp: message_parse_def split: option.splits if_splits dest: message_shape_fixed)

lemma body_parse_fixed: "body_parse sha b = Some c \<Longrightarrow> body_parse sha c = Some c"
  by (cases b) (auto split: if_splits dest: message_parse_fixed)

lemma appendable_parse: "body_parse sha b = Some c \<Longrightarrow> appendable c = appendable b"
  by (cases b) (auto split: if_splits)

end
