(* ===== verification/Archive.thy ===== *)
theory Archive
  imports Records "HOL-Library.List_Lexorder"
begin

section \<open>The room archive\<close>

text \<open>
  The record operations of \<open>CoworkStore\<close> (\<open>src/storage.ts\<close>) on one room's archive: append,
  the paged read, the indexed query, the relay work table and the briefing delivery lookup. An
  archive is its rows in insertion order and the rows of \<open>relay_intent_work\<close>. The SQL of the
  source is written as list functions: a \<open>WHERE\<close> clause is a filter, \<open>ORDER BY seq\<close> the order of
  the rows, \<open>LIMIT\<close> a \<open>take\<close>; a unique index is a test before the insert. \<open>Blobs\<close> refines this
  archive to rows without file bytes and a directory of blobs.
\<close>

subsection \<open>State and index columns\<close>

record archive =
  a_rows :: "row list"
  a_work :: "(nat \<times> string) list"

definition empty_archive :: archive where
  "empty_archive = \<lparr>a_rows = [], a_work = []\<rparr>"

datatype kind = K_message | K_file | K_relay_intent | K_relay_result | K_intake_rejection
  | K_membership_intent | K_membership_result | K_close_notice_intent | K_close_notice_result

fun kind_of :: "body \<Rightarrow> kind" where
  "kind_of (Message m) = K_message"
| "kind_of (File f) = K_file"
| "kind_of (Relay_intent i) = K_relay_intent"
| "kind_of (Relay_result r) = K_relay_result"
| "kind_of (Intake_rejection r) = K_intake_rejection"
| "kind_of (Membership_intent j) = K_membership_intent"
| "kind_of (Membership_result r) = K_membership_result"
| "kind_of (Close_notice_intent c) = K_close_notice_intent"
| "kind_of (Close_notice_result r) = K_close_notice_result"

fun message_id_of :: "body \<Rightarrow> string option" where
  "message_id_of (Message m) = Some (m_message_id m)"
| "message_id_of (Relay_intent i) = ri_message_id i"
| "message_id_of (Relay_result r) = rs_message_id r"
| "message_id_of _ = None"

fun file_id_of :: "body \<Rightarrow> string option" where
  "file_id_of (File f) = Some (f_file_id f)"
| "file_id_of (Relay_intent i) = ri_file_id i"
| "file_id_of (Relay_result r) = rs_file_id r"
| "file_id_of _ = None"

fun intent_record_id_of :: "body \<Rightarrow> string option" where
  "intent_record_id_of (Relay_result r) = Some (rs_intent_record_id r)"
| "intent_record_id_of (Membership_result r) = Some (mr_intent_record_id r)"
| "intent_record_id_of (Close_notice_result r) = Some (cr_intent_record_id r)"
| "intent_record_id_of _ = None"

fun recipient_of :: "body \<Rightarrow> string option" where
  "recipient_of (Relay_intent i) = Some (ri_recipient i)"
| "recipient_of (Relay_result r) = Some (rs_recipient r)"
| "recipient_of (Membership_intent j) = Some (mj_recipient j)"
| "recipient_of (Close_notice_intent c) = Some c"
| "recipient_of (Close_notice_result r) = Some (cr_recipient r)"
| "recipient_of _ = None"

fun source_msg_id_of :: "body \<Rightarrow> int option" where
  "source_msg_id_of (Message m) = m_source_msg_id m"
| "source_msg_id_of (Intake_rejection r) = rj_source_msg_id r"
| "source_msg_id_of _ = None"

fun source_file_id_of :: "body \<Rightarrow> int option" where
  "source_file_id_of (File f) = Some (f_source_file_id f)"
| "source_file_id_of (Intake_rejection r) = rj_source_file_id r"
| "source_file_id_of _ = None"

fun category_of :: "body \<Rightarrow> category option" where
  "category_of (Message m) = Some (m_category m)"
| "category_of _ = None"

fun membership_epoch_of :: "body \<Rightarrow> int option" where
  "membership_epoch_of (Message m) = map_option n_epoch (m_membership m)"
| "membership_epoch_of _ = None"

fun recipients_of :: "body \<Rightarrow> string list" where
  "recipients_of (Message m) = m_recipients m"
| "recipients_of (File f) = f_recipients f"
| "recipients_of _ = []"

fun thread_creation_key :: "body \<Rightarrow> (string \<times> string) option" where
  "thread_creation_key (Message m) =
     map_option (\<lambda>root. (a_identity (m_author m), tr_idempotency_key root)) (m_thread_root m)"
| "thread_creation_key _ = None"

subsection \<open>Append\<close>

definition next_seq :: "row list \<Rightarrow> nat" where
  "next_seq rows = foldr max (map w_seq rows) 0 + 1"

definition taken :: "(body \<Rightarrow> 'a option) \<Rightarrow> row list \<Rightarrow> body \<Rightarrow> bool" where
  "taken key rows b \<longleftrightarrow> key b \<noteq> None \<and> list_ex (\<lambda>w. key (w_body w) = key b) rows"

definition unique_violation :: "row list \<Rightarrow> body \<Rightarrow> bool" where
  "unique_violation rows b \<longleftrightarrow>
     taken source_msg_id_of rows b \<or> taken source_file_id_of rows b \<or> taken thread_creation_key rows b"

text \<open>The item an intent or a result belongs to: the kind and id \<open>relay_intent_work\<close> is keyed by.\<close>

definition intent_subject :: "row \<Rightarrow> body \<Rightarrow> bool" where
  "intent_subject w b \<longleftrightarrow>
     (case message_id_of b of
        Some ident \<Rightarrow> kind_of (w_body w) = K_message \<and> message_id_of (w_body w) = Some ident
      | None \<Rightarrow> kind_of (w_body w) = K_file \<and> file_id_of b \<noteq> None \<and> file_id_of (w_body w) = file_id_of b)"

definition work_after :: "row list \<Rightarrow> (nat \<times> string) list \<Rightarrow> row \<Rightarrow> (nat \<times> string) list" where
  "work_after rows work w =
     (case w_body w of
        Relay_intent i \<Rightarrow>
          filter (\<lambda>(n, cid). \<not> (cid = ri_recipient i
              \<and> list_ex (\<lambda>v. w_seq v = n \<and> intent_subject v (w_body w)) rows)) work
      | b \<Rightarrow> work @ map (\<lambda>cid. (w_seq w, cid)) (recipients_of b))"

definition archive_append :: "(string \<Rightarrow> string) \<Rightarrow> string \<Rightarrow> draft \<Rightarrow> (archive, err, row) eff" where
  "archive_append sha rid input ar =
     (if \<not> ulid_ok rid then (Inl (Storage_error ''invalid room_id''), ar) else
      case AppendRecordSchema_parse sha input of
        Inl e \<Rightarrow> (Inl e, ar)
      | Inr d \<Rightarrow>
          if d_room_id d \<noteq> rid then (Inl (Storage_error ''record room_id does not match''), ar)
          else if unique_violation (a_rows ar) (d_body d)
          then (Inl (Storage_error ''failed to append room archive''), ar)
          else
            (let n = next_seq (a_rows ar);
                 w = \<lparr>w_room_id = rid, w_seq = n, w_record_id = record_id_of rid n, w_at = d_at d,
                      w_body = d_body d\<rparr>
             in (Inr w, ar\<lparr>a_rows := a_rows ar @ [w], a_work := work_after (a_rows ar) (a_work ar) w\<rparr>)))"

subsection \<open>Reads\<close>

definition read_rows :: "archive \<Rightarrow> nat \<Rightarrow> nat \<Rightarrow> row list" where
  "read_rows ar after limit = take limit (filter (\<lambda>w. after < w_seq w) (a_rows ar))"

record query_options =
  q_after :: "nat option"
  q_kind :: "kind option"
  q_message_id :: "string option"
  q_file_id :: "string option"
  q_source_msg_id :: "int option"
  q_source_file_id :: "int option"
  q_intent_record_id :: "string option"
  q_recipient :: "string option"
  q_category :: "category option"
  q_membership_epoch :: "int option"
  q_unresolved_by :: "kind option"
  q_descending :: bool
  q_limit :: "nat option"

definition any_row :: query_options where
  "any_row = \<lparr>q_after = None, q_kind = None, q_message_id = None, q_file_id = None, q_source_msg_id = None,
     q_source_file_id = None, q_intent_record_id = None, q_recipient = None, q_category = None,
     q_membership_epoch = None, q_unresolved_by = None, q_descending = False, q_limit = None\<rparr>"

definition clause :: "'a option \<Rightarrow> 'a option \<Rightarrow> bool" where
  "clause wanted column \<longleftrightarrow> (case wanted of None \<Rightarrow> True | Some v \<Rightarrow> column = Some v)"

definition unresolved :: "row list \<Rightarrow> kind \<Rightarrow> row \<Rightarrow> bool" where
  "unresolved rows k w \<longleftrightarrow>
     \<not> list_ex (\<lambda>v. kind_of (w_body v) = k \<and> intent_record_id_of (w_body v) = Some (w_record_id w)) rows"

definition query_where :: "row list \<Rightarrow> query_options \<Rightarrow> row \<Rightarrow> bool" where
  "query_where rows q w \<longleftrightarrow>
     (let b = w_body w in
      clause (q_kind q) (Some (kind_of b)) \<and> clause (q_message_id q) (message_id_of b)
      \<and> clause (q_file_id q) (file_id_of b) \<and> clause (q_source_msg_id q) (source_msg_id_of b)
      \<and> clause (q_source_file_id q) (source_file_id_of b)
      \<and> clause (q_intent_record_id q) (intent_record_id_of b) \<and> clause (q_recipient q) (recipient_of b)
      \<and> clause (q_category q) (category_of b) \<and> clause (q_membership_epoch q) (membership_epoch_of b)
      \<and> opt_ok (\<lambda>n. n < w_seq w) (q_after q) \<and> opt_ok (\<lambda>k. unresolved rows k w) (q_unresolved_by q))"

definition query_rows :: "archive \<Rightarrow> query_options \<Rightarrow> row list" where
  "query_rows ar q =
     (let found = filter (query_where (a_rows ar) q) (a_rows ar);
          ordered = (if q_descending q then rev found else found)
      in case q_limit q of None \<Rightarrow> ordered | Some n \<Rightarrow> take n ordered)"

definition DEFAULT_WORK_BATCH_SIZE :: nat where
  "DEFAULT_WORK_BATCH_SIZE = 64"

definition recordsNeedingRelayIntents :: "archive \<Rightarrow> nat \<Rightarrow> nat \<Rightarrow> row list" where
  "recordsNeedingRelayIntents ar after limit =
     take limit (filter (\<lambda>w. after < w_seq w \<and> w_seq w \<in> set (map fst (a_work ar))) (a_rows ar))"

definition relayRecipientsNeedingIntent :: "archive \<Rightarrow> nat \<Rightarrow> nat \<Rightarrow> string list" where
  "relayRecipientsNeedingIntent ar n limit =
     take limit (sort (map snd (filter (\<lambda>(m, cid). m = n) (a_work ar))))"

text \<open>\<open>record_recipients\<close>: a message without a version is delivered as version 1.\<close>

definition delivers_briefing :: "category \<Rightarrow> string option \<Rightarrow> int \<Rightarrow> string \<Rightarrow> row \<Rightarrow> bool" where
  "delivers_briefing cat briefing_role v cid w \<longleftrightarrow>
     (case w_body w of
        Message m \<Rightarrow> cid \<in> set (m_recipients m) \<and> m_category m = cat \<and> m_briefing_role m = briefing_role
          \<and> (case m_briefing_version m of None \<Rightarrow> 1 | Some n \<Rightarrow> n) = v
      | _ \<Rightarrow> False)"

definition briefingDeliveryTimes ::
  "archive \<Rightarrow> category \<Rightarrow> string option \<Rightarrow> int \<Rightarrow> string list \<Rightarrow> (string \<times> string) list" where
  "briefingDeliveryTimes ar cat briefing_role v cids =
     List.map_filter (\<lambda>cid. map_option (\<lambda>w. (cid, w_at w))
        (List.find (delivers_briefing cat briefing_role v cid) (a_rows ar))) cids"

subsection \<open>Invariant\<close>

text \<open>A work entry is exactly a recipient of an item for whom no later intent exists.\<close>

definition awaits_intent :: "row list \<Rightarrow> nat \<Rightarrow> string \<Rightarrow> bool" where
  "awaits_intent rows n cid \<longleftrightarrow>
     list_ex (\<lambda>w. w_seq w = n \<and> cid \<in> set (recipients_of (w_body w))
        \<and> \<not> list_ex (\<lambda>v. n < w_seq v \<and> kind_of (w_body v) = K_relay_intent
              \<and> recipient_of (w_body v) = Some cid \<and> intent_subject w (w_body v)) rows) rows"

definition unique_column :: "(body \<Rightarrow> 'a option) \<Rightarrow> row list \<Rightarrow> bool" where
  "unique_column key rows \<longleftrightarrow> distinct (List.map_filter (\<lambda>w. key (w_body w)) rows)"

definition row_ok :: "(string \<Rightarrow> string) \<Rightarrow> string \<Rightarrow> row \<Rightarrow> bool" where
  "row_ok sha rid w \<longleftrightarrow> w_room_id w = rid \<and> w_record_id w = record_id_of rid (w_seq w)
     \<and> isStrictRfc3339 (w_at w) \<and> body_parse sha (w_body w) = Some (w_body w)"

definition archive_ok :: "(string \<Rightarrow> string) \<Rightarrow> string \<Rightarrow> archive \<Rightarrow> bool" where
  "archive_ok sha rid ar \<longleftrightarrow>
     map w_seq (a_rows ar) = [1..<Suc (length (a_rows ar))]
     \<and> list_all (row_ok sha rid) (a_rows ar)
     \<and> unique_column source_msg_id_of (a_rows ar) \<and> unique_column source_file_id_of (a_rows ar)
     \<and> unique_column thread_creation_key (a_rows ar)
     \<and> (\<forall>n cid. (n, cid) \<in> set (a_work ar) \<longleftrightarrow> awaits_intent (a_rows ar) n cid)"

lemma foldr_max_upper: "\<forall>x\<in>set xs. x \<le> n \<Longrightarrow> foldr max (xs @ [n]) 0 = (n::nat)"
  by (induction xs) auto

lemma foldr_max_upt: "foldr max [1..<Suc n] (0::nat) = n"
proof (cases n)
  case (Suc m)
  then have "[1..<Suc n] = [1..<n] @ [n]" by simp
  moreover have "foldr max ([1..<n] @ [n]) 0 = n" by (rule foldr_max_upper) auto
  ultimately show ?thesis by (simp only:)
qed simp

lemma next_seq_eq: "map w_seq rows = [1..<Suc (length rows)] \<Longrightarrow> next_seq rows = Suc (length rows)"
  by (simp only: next_seq_def foldr_max_upt)

lemma map_filter_append: "List.map_filter f (xs @ ys) = List.map_filter f xs @ List.map_filter f ys"
  by (induction xs) (auto simp: List.map_filter_simps split: option.splits)

lemma set_map_filter: "set (List.map_filter f xs) = {y. \<exists>x\<in>set xs. f x = Some y}"
  by (induction xs) (auto simp: List.map_filter_simps split: option.splits)

lemma unique_column_append:
  "unique_column key rows \<Longrightarrow> \<not> taken key rows (w_body w) \<Longrightarrow> unique_column key (rows @ [w])"
  by (cases "key (w_body w)")
    (auto simp: unique_column_def taken_def map_filter_append List.map_filter_simps set_map_filter list_ex_iff)

lemma seqs_bounded: "map w_seq rows = [1..<Suc (length rows)] \<Longrightarrow> w \<in> set rows \<Longrightarrow> 0 < w_seq w \<and> w_seq w \<le> length rows"
  by (metis One_nat_def atLeastLessThan_iff image_eqI less_Suc_eq_le list.set_map set_upt Suc_le_lessD)

lemma seq_inject: "map w_seq rows = [1..<Suc (length rows)] \<Longrightarrow> v \<in> set rows \<Longrightarrow> w \<in> set rows \<Longrightarrow>
    w_seq v = w_seq w \<Longrightarrow> v = w"
  by (metis distinct_map distinct_upt inj_on_def)

lemma awaits_append:
  assumes s: "map w_seq rows = [1..<Suc (length rows)]" and n: "w_seq w = Suc (length rows)"
  shows "awaits_intent (rows @ [w]) n cid \<longleftrightarrow>
     (n = w_seq w \<and> cid \<in> set (recipients_of (w_body w)))
     \<or> (awaits_intent rows n cid
        \<and> \<not> (kind_of (w_body w) = K_relay_intent \<and> recipient_of (w_body w) = Some cid
             \<and> list_ex (\<lambda>v. w_seq v = n \<and> intent_subject v (w_body w)) rows))"
proof (cases "n = w_seq w")
  case True
  then show ?thesis using seqs_bounded [OF s] n
    by (fastforce simp: awaits_intent_def list_ex_iff)
next
  case False
  show ?thesis
  proof
    assume "awaits_intent (rows @ [w]) n cid"
    then show "(n = w_seq w \<and> cid \<in> set (recipients_of (w_body w)))
     \<or> (awaits_intent rows n cid
        \<and> \<not> (kind_of (w_body w) = K_relay_intent \<and> recipient_of (w_body w) = Some cid
             \<and> list_ex (\<lambda>v. w_seq v = n \<and> intent_subject v (w_body w)) rows))"
      using False seq_inject [OF s] seqs_bounded [OF s] n
      by (fastforce simp: awaits_intent_def list_ex_iff)
  next
    assume "(n = w_seq w \<and> cid \<in> set (recipients_of (w_body w)))
     \<or> (awaits_intent rows n cid
        \<and> \<not> (kind_of (w_body w) = K_relay_intent \<and> recipient_of (w_body w) = Some cid
             \<and> list_ex (\<lambda>v. w_seq v = n \<and> intent_subject v (w_body w)) rows))"
    then show "awaits_intent (rows @ [w]) n cid"
      using False by (auto simp: awaits_intent_def list_ex_iff)
  qed
qed

text \<open>The one step every append takes.\<close>

lemma archive_appendD:
  assumes "archive_append sha rid input ar = (Inr w, ar')"
  obtains d where "AppendRecordSchema_parse sha input = Inr d" "d_room_id d = rid"
    "\<not> unique_violation (a_rows ar) (d_body d)" "w_room_id w = rid" "w_seq w = next_seq (a_rows ar)"
    "w_record_id w = record_id_of rid (w_seq w)" "w_at w = d_at d" "w_body w = d_body d"
    "a_rows ar' = a_rows ar @ [w]" "a_work ar' = work_after (a_rows ar) (a_work ar) w"
  using assms by (auto simp: archive_append_def Let_def split: if_splits sum.splits)

lemma archive_append_error: "archive_append sha rid input ar = (Inl e, ar') \<Longrightarrow> ar' = ar"
  by (auto simp: archive_append_def Let_def split: if_splits sum.splits)

lemma AppendRecordSchema_parseD:
  "AppendRecordSchema_parse sha input = Inr d \<Longrightarrow> ulid_ok (d_room_id d) \<and> isStrictRfc3339 (d_at d)
     \<and> appendable (d_body d) \<and> body_parse sha (d_body d) = Some (d_body d)"
  by (auto simp: AppendRecordSchema_parse_def appendable_parse split: if_splits option.splits
      dest: body_parse_fixed)

lemma work_after_set:
  "(n, cid) \<in> set (work_after rows work w) \<longleftrightarrow>
     (n = w_seq w \<and> cid \<in> set (recipients_of (w_body w)))
     \<or> ((n, cid) \<in> set work
        \<and> \<not> (kind_of (w_body w) = K_relay_intent \<and> recipient_of (w_body w) = Some cid
             \<and> list_ex (\<lambda>v. w_seq v = n \<and> intent_subject v (w_body w)) rows))"
  by (cases "w_body w") (auto simp: work_after_def)

lemma archive_append_ok:
  assumes ok: "archive_ok sha rid ar" and step: "archive_append sha rid input ar = (r, ar')"
  shows "archive_ok sha rid ar'"
proof (cases r)
  case (Inl e)
  with step ok show ?thesis by (auto dest: archive_append_error)
next
  case (Inr w)
  have s: "map w_seq (a_rows ar) = [1..<Suc (length (a_rows ar))]" using ok by (simp add: archive_ok_def)
  obtain d where d: "AppendRecordSchema_parse sha input = Inr d" "d_room_id d = rid"
    "\<not> unique_violation (a_rows ar) (d_body d)" "w_room_id w = rid" "w_seq w = next_seq (a_rows ar)"
    "w_record_id w = record_id_of rid (w_seq w)" "w_at w = d_at d" "w_body w = d_body d"
    and rows: "a_rows ar' = a_rows ar @ [w]" and work: "a_work ar' = work_after (a_rows ar) (a_work ar) w"
    using step unfolding Inr by (rule archive_appendD)
  have n: "w_seq w = Suc (length (a_rows ar))" using d(5) next_seq_eq [OF s] by simp
  have "map w_seq (a_rows ar') = [1..<Suc (length (a_rows ar'))]" by (simp add: rows s n del: upt_Suc) simp
  moreover have "list_all (row_ok sha rid) (a_rows ar')"
    using ok d AppendRecordSchema_parseD [OF d(1)] by (auto simp: rows archive_ok_def row_ok_def)
  moreover have "unique_column source_msg_id_of (a_rows ar')" "unique_column source_file_id_of (a_rows ar')"
      "unique_column thread_creation_key (a_rows ar')"
    using ok d(3,8) unfolding rows archive_ok_def unique_violation_def by (auto intro!: unique_column_append)
  moreover have "\<forall>n cid. (n, cid) \<in> set (a_work ar') \<longleftrightarrow> awaits_intent (a_rows ar') n cid"
    using ok unfolding rows work work_after_set awaits_append [OF s n] archive_ok_def by blast
  ultimately show ?thesis by (simp add: archive_ok_def)
qed

lemma empty_archive_ok: "archive_ok sha rid empty_archive"
  by (simp add: archive_ok_def empty_archive_def unique_column_def List.map_filter_simps awaits_intent_def)

subsection \<open>The log interface\<close>

text \<open>
  What the readers of an archive rely on: the entries are in ascending position and a page is the
  first \<open>limit\<close> entries past the cursor. A reader that continues from the last entry of each
  page until an empty page has then seen every entry once.
\<close>

locale record_log =
  fixes ok :: "'s \<Rightarrow> bool"
    and entries :: "'s \<Rightarrow> 'a list"
    and pos :: "'a \<Rightarrow> nat"
    and page :: "'s \<Rightarrow> nat \<Rightarrow> nat \<Rightarrow> 'a list"
  assumes ascending: "ok s \<Longrightarrow> sorted_wrt (<) (map pos (entries s))"
    and page_prefix: "ok s \<Longrightarrow> 0 < limit \<Longrightarrow>
      \<exists>k. 0 < k \<and> k \<le> limit \<and> page s after limit = take k (filter (\<lambda>x. after < pos x) (entries s))"
begin

lemma page_empty:
  assumes "ok s" "0 < limit" "page s after limit = []"
  shows "filter (\<lambda>x. after < pos x) (entries s) = []"
proof -
  obtain k where "0 < k" "page s after limit = take k (filter (\<lambda>x. after < pos x) (entries s))"
    using page_prefix [OF assms(1,2)] by blast
  then show ?thesis using assms(3) by simp
qed

lemma page_progress:
  assumes a: "ok s" "0 < limit" "page s after limit \<noteq> []"
  shows "after < pos (last (page s after limit))"
proof -
  have "last (page s after limit) \<in> set (filter (\<lambda>x. after < pos x) (entries s))"
    using page_prefix [OF a(1,2)] a(3) by (metis in_set_takeD last_in_set)
  then show ?thesis by simp
qed

lemma sorted_split:
  assumes "sorted_wrt (<) (map pos (xs @ y # ys))"
  shows "filter (\<lambda>x. pos y < pos x) (xs @ y # ys) = ys"
proof -
  have "filter (\<lambda>x. pos y < pos x) xs = []"
    using assms by (auto simp: sorted_wrt_append filter_empty_conv dest: less_imp_le)
  moreover have "filter (\<lambda>x. pos y < pos x) ys = ys"
    using assms by (auto simp: sorted_wrt_append filter_id_conv)
  ultimately show ?thesis by simp
qed

lemma page_split:
  assumes a: "ok s" and lim: "0 < limit" and ne: "page s after limit \<noteq> []"
  shows "filter (\<lambda>x. after < pos x) (entries s)
    = page s after limit @ filter (\<lambda>x. pos (last (page s after limit)) < pos x) (entries s)"
proof -
  let ?rest = "filter (\<lambda>x. after < pos x) (entries s)"
  let ?p = "page s after limit"
  obtain k where k: "?p = take k ?rest" using page_prefix [OF a lim] by blast
  have split: "?rest = ?p @ drop k ?rest" by (simp add: k)
  obtain xs where p: "?p = xs @ [last ?p]" using ne by (metis append_butlast_last_id)
  have "sorted_wrt (<) (map pos ?rest)"
    using ascending [OF a] by (simp add: sorted_wrt_map sorted_wrt_filter)
  then have "sorted_wrt (<) (map pos (xs @ last ?p # drop k ?rest))"
    using split p by (metis append.assoc append_Cons append_Nil)
  from sorted_split [OF this]
  have "filter (\<lambda>x. pos (last ?p) < pos x) ?rest = drop k ?rest"
    using split p by (metis append.assoc append_Cons append_Nil)
  moreover have "filter (\<lambda>x. pos (last ?p) < pos x) ?rest = filter (\<lambda>x. pos (last ?p) < pos x) (entries s)"
    using page_progress [OF a lim ne] by (auto intro!: filter_cong)
  ultimately show ?thesis using split by simp
qed

end

text \<open>A log that grows by appends: what a writer relies on.\<close>

locale append_log = record_log ok entries pos page
  for ok :: "'s \<Rightarrow> bool" and entries :: "'s \<Rightarrow> 'a list" and pos :: "'a \<Rightarrow> nat"
    and page :: "'s \<Rightarrow> nat \<Rightarrow> nat \<Rightarrow> 'a list" +
  fixes put :: "'d \<Rightarrow> ('s, 'e, 'a) eff"
  assumes put_ok: "ok s \<Longrightarrow> put d s = (r, t) \<Longrightarrow> ok t"
    and put_error: "ok s \<Longrightarrow> put d s = (Inl e, t) \<Longrightarrow> entries t = entries s"
    and put_entry: "ok s \<Longrightarrow> put d s = (Inr x, t) \<Longrightarrow> entries t = entries s @ [x]"
begin

lemma put_keeps: "keeps ok (put d)"
  using put_ok by (blast intro: keepsI)

lemma put_last: "ok s \<Longrightarrow> put d s = (Inr x, t) \<Longrightarrow> y \<in> set (entries s) \<Longrightarrow> pos y < pos x"
  using ascending [OF put_ok] put_entry by (fastforce simp: sorted_wrt_append)

text \<open>A reader that has consumed the log before an append finds exactly the new entry after it.\<close>

lemma read_after_put:
  assumes "ok s" "put d s = (Inr x, t)" "0 < limit" "entries s \<noteq> [] \<longrightarrow> after = pos (last (entries s))"
    and "entries s = [] \<longrightarrow> after < pos x"
  shows "page t after limit = [x]"
proof -
  have t: "ok t" "entries t = entries s @ [x]" using put_ok put_entry assms(1,2) by blast+
  have "filter (\<lambda>y. after < pos y) (entries s) = []"
  proof (cases "entries s = []")
    case False
    then obtain xs where xs: "entries s = xs @ [last (entries s)]" by (metis append_butlast_last_id)
    with ascending [OF assms(1)] have "sorted_wrt (<) (map pos (xs @ last (entries s) # []))" by simp
    from sorted_split [OF this] show ?thesis using xs False assms(4) by simp
  qed simp
  moreover have "after < pos x" using assms(4,5) put_last [OF assms(1,2)] by (cases "entries s = []") auto
  ultimately have "filter (\<lambda>y. after < pos y) (entries t) = [x]" by (simp add: t(2))
  then obtain k where "0 < k" "page t after limit = take k [x]"
    using page_prefix [OF t(1) assms(3)] by metis
  then show ?thesis by (cases k) simp_all
qed

end

lemma archive_ascending: "archive_ok sha rid ar \<Longrightarrow> sorted_wrt (<) (map w_seq (a_rows ar))"
  by (simp only: archive_ok_def sorted_wrt_upt)

interpretation archive_log: append_log "archive_ok sha rid" a_rows w_seq read_rows "archive_append sha rid"
  for sha rid
proof unfold_locales
  show "archive_ok sha rid s \<Longrightarrow> sorted_wrt (<) (map w_seq (a_rows s))" for s by (rule archive_ascending)
  show "0 < limit \<Longrightarrow> \<exists>k. 0 < k \<and> k \<le> limit
      \<and> read_rows s after limit = take k (filter (\<lambda>x. after < w_seq x) (a_rows s))" for s after limit
    unfolding read_rows_def by blast
  show "archive_ok sha rid s \<Longrightarrow> archive_append sha rid d s = (r, t) \<Longrightarrow> archive_ok sha rid t" for s d r t
    by (rule archive_append_ok)
  show "archive_append sha rid d s = (Inl e, t) \<Longrightarrow> a_rows t = a_rows s" for s d e t
    by (auto dest: archive_append_error)
  show "archive_append sha rid d s = (Inr x, t) \<Longrightarrow> a_rows t = a_rows s @ [x]" for s d x t
    by (erule archive_appendD)
qed

end
