(* ===== verification/Replies.thy ===== *)
theory Replies
  imports Archive
begin

section \<open>Reply threading\<close>

text \<open>
  \<open>src/reply-threading.ts\<close>. A participant names a parent by the wire id under which it knows
  it: the id of its own source item, or the id of a copy the room relayed to it. The archive's
  intents and queued results say who holds which copy. \<open>resolveReplyParent\<close> goes from a
  participant's wire id to the archived item; \<open>mapReplyParent\<close> goes from an archived item to
  the wire id a given recipient knows it by.
\<close>

subsection \<open>The alias index\<close>

definition record_key :: "body \<Rightarrow> string option" where
  "record_key b =
     (case (message_id_of b, file_id_of b) of
        (Some m, None) \<Rightarrow> Some (''message:'' @ m)
      | (None, Some f) \<Rightarrow> Some (''file:'' @ f)
      | _ \<Rightarrow> None)"

fun is_item :: "body \<Rightarrow> bool" where
  "is_item (Message m) = True"
| "is_item (File f) = True"
| "is_item _ = False"

fun author_of :: "body \<Rightarrow> author option" where
  "author_of (Message m) = Some (m_author m)"
| "author_of (File f) = Some (f_author f)"
| "author_of _ = None"

fun source_wire_of :: "body \<Rightarrow> string option" where
  "source_wire_of (Message m) = m_source_wire_id m"
| "source_wire_of (File f) = f_source_wire_id f"
| "source_wire_of _ = None"

fun source_reply_of :: "body \<Rightarrow> reply_ref option" where
  "source_reply_of (Message m) = m_source_reply_to m"
| "source_reply_of (File f) = f_source_reply_to f"
| "source_reply_of _ = None"

definition local_rows :: "row list \<Rightarrow> string \<Rightarrow> row list" where
  "local_rows rows rid = filter (\<lambda>w. w_room_id w = rid) rows"

definition items :: "row list \<Rightarrow> row list" where
  "items rows = filter (\<lambda>w. is_item (w_body w)) rows"

definition is_copy :: "row list \<Rightarrow> row \<Rightarrow> string \<Rightarrow> row \<Rightarrow> bool" where
  "is_copy rows parent cid result \<longleftrightarrow>
     (case w_body result of
        Relay_result r \<Rightarrow>
          rs_status r = Queued \<and> rs_recipient r = cid
          \<and> record_key (w_body result) = record_key (w_body parent)
          \<and> cid \<in> set (recipients_of (w_body parent))
          \<and> (case filter (\<lambda>i. kind_of (w_body i) = K_relay_intent \<and> w_record_id i = rs_intent_record_id r) rows of
               [intent] \<Rightarrow> record_key (w_body intent) = record_key (w_body parent)
                 \<and> recipient_of (w_body intent) = Some cid
                 \<and> w_seq parent < w_seq intent \<and> w_seq intent < w_seq result
             | _ \<Rightarrow> False)
      | _ \<Rightarrow> False)"

definition copies :: "row list \<Rightarrow> row \<Rightarrow> string \<Rightarrow> row list" where
  "copies rows parent cid = sort_key w_seq (filter (is_copy rows parent cid) rows)"

definition wires :: "row \<Rightarrow> row \<Rightarrow> string list" where
  "wires result parent =
     (case w_body result of
        Relay_result r \<Rightarrow>
          filter nonempty (List.map_filter id
            (rs_wire_id r # (if kind_of (w_body parent) = K_file then [rs_metadata_wire_id r] else [])))
      | _ \<Rightarrow> [])"

definition owns :: "row list \<Rightarrow> string \<Rightarrow> string \<Rightarrow> row \<Rightarrow> bool" where
  "owns rows wireId cid w \<longleftrightarrow>
     (map_option a_identity (author_of (w_body w)) = Some cid \<and> source_wire_of (w_body w) = Some wireId)
     \<or> list_ex (\<lambda>result. List.member (wires result w) wireId) (copies rows w cid)"

definition ownersFor :: "row list \<Rightarrow> string \<Rightarrow> string \<Rightarrow> row list" where
  "ownersFor rows wireId cid = filter (owns rows wireId cid) (items rows)"

subsection \<open>Reading the rows\<close>

definition reply_row :: "row \<Rightarrow> row option" where
  "reply_row w =
     (case w_body w of
        Message m \<Rightarrow> Some (w\<lparr>w_body := Message (m\<lparr>m_text := []\<rparr>)\<rparr>)
      | File f \<Rightarrow> Some (w\<lparr>w_body := File (f\<lparr>f_data_base64 := []\<rparr>)\<rparr>)
      | Relay_intent i \<Rightarrow> Some w
      | Relay_result r \<Rightarrow> Some w
      | _ \<Rightarrow> None)"

function readReplyRows_from :: "archive \<Rightarrow> string \<Rightarrow> nat \<Rightarrow> row list \<Rightarrow> err + row list" where
  "readReplyRows_from ar rid after rows =
     (let page = read_rows ar after 64 in
      if page = [] then Inr rows
      else if w_seq (last page) \<le> after then Inl (Plain_error ''reply archive cursor did not advance'')
      else if \<not> list_all (\<lambda>w. w_room_id w = rid) page then Inl (Plain_error ''reply archive room mismatch'')
      else readReplyRows_from ar rid (w_seq (last page)) (rows @ List.map_filter reply_row page))"
  by pat_completeness auto

lemma filter_shrinks:
  assumes "x \<in> set xs" "P x" "\<not> Q x" "\<And>y. Q y \<Longrightarrow> P y"
  shows "length (filter Q xs) < length (filter P xs)"
proof -
  obtain ys zs where xs: "xs = ys @ x # zs" using split_list [OF assms(1)] by blast
  have le: "length (filter Q us) \<le> length (filter P us)" for us
    using assms(4) by (induction us) auto
  show ?thesis using le [of ys] le [of zs] assms(2,3) by (simp add: xs)
qed

termination readReplyRows_from
proof (relation "measure (\<lambda>(ar, rid, after, rows). length (filter (\<lambda>w. after < w_seq w) (a_rows ar)))", goal_cases)
  case (2 ar rid after rows page)
  then have "last page \<in> set page" by simp
  with 2 have "last page \<in> set (a_rows ar)"
    unfolding read_rows_def by (metis filter_is_subset in_set_takeD subsetD)
  with 2 show ?case by (auto intro!: filter_shrinks)
qed simp

declare readReplyRows_from.simps [simp del]

definition readReplyRows :: "archive \<Rightarrow> string \<Rightarrow> err + row list" where
  "readReplyRows ar rid = readReplyRows_from ar rid 0 []"

subsection \<open>Resolution\<close>

datatype parent_resolution = No_parent | Unknown_parent | Ambiguous_parent | Resolved string row

definition resolveReplyParent ::
  "row list \<Rightarrow> string \<Rightarrow> string \<Rightarrow> string option \<Rightarrow> nat \<Rightarrow> parent_resolution" where
  "resolveReplyParent all_rows rid senderCid wire beforeSeq =
     (case wire of None \<Rightarrow> No_parent
      | Some wireId \<Rightarrow>
          if wireId = [] then Unknown_parent
          else
            (let rows = local_rows all_rows rid in
             case ownersFor rows wireId senderCid of
               [] \<Rightarrow> Unknown_parent
             | [parent] \<Rightarrow>
                 if w_seq parent \<ge> beforeSeq then Unknown_parent
                 else
                   (case record_key (w_body parent) of None \<Rightarrow> Ambiguous_parent
                    | Some parentKey \<Rightarrow>
                        if length (filter (\<lambda>i. record_key (w_body i) = Some parentKey) (items rows)) \<noteq> 1
                        then Ambiguous_parent else Resolved parentKey parent)
             | _ \<Rightarrow> Ambiguous_parent))"

datatype reply_decision =
    Reply_none
  | Reply_unknown_parent
  | Reply_ambiguous "string option"
  | Missing_copy string
  | Linked string string

definition copy_wire :: "row list \<Rightarrow> row \<Rightarrow> string \<Rightarrow> string option" where
  "copy_wire rows parent cid =
     map_option hd (List.find (\<lambda>ws. ws \<noteq> []) (map (\<lambda>c. wires c parent) (copies rows parent cid)))"

definition own_wire :: "row \<Rightarrow> string \<Rightarrow> string option" where
  "own_wire parent cid =
     (if map_option a_identity (author_of (w_body parent)) = Some cid
      then (case source_wire_of (w_body parent) of None \<Rightarrow> None | Some s \<Rightarrow> if s = [] then None else Some s)
      else None)"

definition known_wire :: "row list \<Rightarrow> string \<Rightarrow> row \<Rightarrow> string \<Rightarrow> string option" where
  "known_wire rows parentKey parent cid =
     (let sourceWire = own_wire parent cid;
          sourceOwners = (case sourceWire of None \<Rightarrow> [] | Some s \<Rightarrow> ownersFor rows s cid)
      in if length sourceOwners = 1 \<and> record_key (w_body (hd sourceOwners)) = Some parentKey
         then sourceWire else copy_wire rows parent cid)"

definition mapReplyParent :: "row list \<Rightarrow> string \<Rightarrow> string \<Rightarrow> row \<Rightarrow> string \<Rightarrow> reply_decision" where
  "mapReplyParent all_rows rid parentKey item recipientCid =
     (let rows = local_rows all_rows rid in
      if w_room_id item \<noteq> rid \<or> record_key (w_body item) \<noteq> Some parentKey then Reply_ambiguous (Some parentKey)
      else
        (case filter (\<lambda>i. record_key (w_body i) = Some parentKey) (items rows) of
           [parent] \<Rightarrow>
             (case known_wire rows parentKey parent recipientCid of
                None \<Rightarrow> Missing_copy parentKey
              | Some s \<Rightarrow>
                  (case ownersFor rows s recipientCid of
                     [owner] \<Rightarrow> if record_key (w_body owner) = Some parentKey then Linked parentKey s
                                else Reply_ambiguous (Some parentKey)
                   | _ \<Rightarrow> Reply_ambiguous (Some parentKey)))
         | _ \<Rightarrow> Reply_ambiguous (Some parentKey)))"

definition selectReply :: "row list \<Rightarrow> string \<Rightarrow> row \<Rightarrow> string \<Rightarrow> err + reply_decision" where
  "selectReply rows rid child recipientCid =
     (if w_room_id child \<noteq> rid then Inl (Plain_error ''reply child room mismatch'')
      else
        (case author_of (w_body child) of
           None \<Rightarrow> Inl (Plain_error ''reply child is not an item'')
         | Some author \<Rightarrow>
             Inr (case resolveReplyParent rows rid (a_identity author)
                    (map_option rr_wire_id (source_reply_of (w_body child))) (w_seq child) of
                    Resolved parentKey parent \<Rightarrow> mapReplyParent rows rid parentKey parent recipientCid
                  | No_parent \<Rightarrow> Reply_none
                  | Unknown_parent \<Rightarrow> Reply_unknown_parent
                  | Ambiguous_parent \<Rightarrow> Reply_ambiguous None)))"

subsection \<open>Reading is complete\<close>

lemma archive_rooms: "archive_ok sha rid ar \<Longrightarrow> w \<in> set (a_rows ar) \<Longrightarrow> w_room_id w = rid"
  by (auto simp: archive_ok_def list_all_iff row_ok_def)

lemma read_rows_subset: "set (read_rows ar after limit) \<subseteq> set (a_rows ar)"
  unfolding read_rows_def by (meson filter_is_subset set_take_subset subset_trans)

lemma readReplyRows_from_complete:
  "archive_ok sha rid ar \<Longrightarrow>
    readReplyRows_from ar rid after rows
    = Inr (rows @ List.map_filter reply_row (filter (\<lambda>w. after < w_seq w) (a_rows ar)))"
proof (induction ar rid after rows rule: readReplyRows_from.induct)
  case (1 ar rid after rows)
  let ?page = "read_rows ar after 64"
  have ok: "archive_ok sha rid ar" by fact
  show ?case
  proof (cases "?page = []")
    case True
    then show ?thesis using archive_log.page_empty [OF ok, of 64 after]
      by (subst readReplyRows_from.simps) (simp add: List.map_filter_simps)
  next
    case False
    have adv: "\<not> w_seq (last ?page) \<le> after" using archive_log.page_progress [OF ok _ False] by simp
    moreover have loc: "list_all (\<lambda>w. w_room_id w = rid) ?page"
      unfolding list_all_iff using archive_rooms [OF ok] read_rows_subset by blast
    ultimately have "readReplyRows_from ar rid after rows =
        readReplyRows_from ar rid (w_seq (last ?page)) (rows @ List.map_filter reply_row ?page)"
      using False by (subst readReplyRows_from.simps) (simp add: Let_def)
    also have "\<dots> = Inr ((rows @ List.map_filter reply_row ?page)
        @ List.map_filter reply_row (filter (\<lambda>w. w_seq (last ?page) < w_seq w) (a_rows ar)))"
      using 1 False adv loc by simp
    also have "\<dots> = Inr (rows @ List.map_filter reply_row (filter (\<lambda>w. after < w_seq w) (a_rows ar)))"
      unfolding archive_log.page_split [OF ok zero_less_numeral False] map_filter_append by simp
    finally show ?thesis .
  qed
qed

lemma readReplyRows_eq:
  assumes ok: "archive_ok sha rid ar"
  shows "readReplyRows ar rid = Inr (List.map_filter reply_row (a_rows ar))"
proof -
  have "\<forall>w\<in>set (a_rows ar). 0 < w_seq w"
    using ok seqs_bounded by (auto simp: archive_ok_def)
  then have "filter (\<lambda>w. 0 < w_seq w) (a_rows ar) = a_rows ar" by (simp add: filter_id_conv)
  then show ?thesis by (simp add: readReplyRows_def readReplyRows_from_complete [OF ok])
qed

subsection \<open>Resolution is sound\<close>

lemma resolveReplyParentD:
  assumes "resolveReplyParent all_rows rid cid wire before = Resolved k p"
  obtains wireId where "wire = Some wireId" "wireId \<noteq> []" "ownersFor (local_rows all_rows rid) wireId cid = [p]"
    "w_seq p < before" "record_key (w_body p) = Some k"
    "length (filter (\<lambda>i. record_key (w_body i) = Some k) (items (local_rows all_rows rid))) = 1"
  using assms by (auto simp: resolveReplyParent_def Let_def split: option.splits if_splits list.splits)

lemma owner_facts:
  assumes "ownersFor (local_rows all_rows rid) wireId cid = [p]"
  shows "p \<in> set all_rows" "w_room_id p = rid" "is_item (w_body p)" "owns (local_rows all_rows rid) wireId cid p"
  using length_filter_eq_1D [OF assms [unfolded ownersFor_def]]
  by (auto simp: items_def local_rows_def)

text \<open>A copy of an item held by a participant: the item was addressed to it, exactly one intent to
  it exists, and a later result says the send was queued.\<close>

lemma is_copyD:
  assumes "is_copy rows p cid c"
  obtains r i where "w_body c = Relay_result r" "rs_status r = Queued" "rs_recipient r = cid"
    "cid \<in> set (recipients_of (w_body p))" "i \<in> set rows" "recipient_of (w_body i) = Some cid"
    "record_key (w_body i) = record_key (w_body p)" "w_seq p < w_seq i" "w_seq i < w_seq c"
proof -
  obtain r where r: "w_body c = Relay_result r" using assms by (auto simp: is_copy_def split: body.splits)
  obtain i where f: "filter (\<lambda>i. kind_of (w_body i) = K_relay_intent \<and> w_record_id i = rs_intent_record_id r) rows = [i]"
    using assms r by (auto simp: is_copy_def split: list.splits)
  have "i \<in> set rows" using length_filter_eq_1D(1) [OF f] .
  with that [of r i] assms r f show thesis by (simp add: is_copy_def)
qed

text \<open>C14: an accepted parent is one item of this room, archived before the reply, that the sender
  knows under the wire id it named: it authored the item under that id, or the item was addressed
  to it and relayed to it as a queued copy with that id.\<close>

theorem resolved_parent_known_to_sender:
  assumes "resolveReplyParent rows rid cid (Some wireId) before = Resolved k p"
  shows "p \<in> set rows \<and> w_room_id p = rid \<and> is_item (w_body p) \<and> record_key (w_body p) = Some k
    \<and> w_seq p < before
    \<and> ((map_option a_identity (author_of (w_body p)) = Some cid \<and> source_wire_of (w_body p) = Some wireId)
       \<or> (cid \<in> set (recipients_of (w_body p))
          \<and> (\<exists>c\<in>set rows. \<exists>r. w_body c = Relay_result r \<and> rs_status r = Queued \<and> rs_recipient r = cid
               \<and> w_seq p < w_seq c \<and> wireId \<in> set (wires c p))))"
proof -
  from assms obtain o1: "ownersFor (local_rows rows rid) wireId cid = [p]" and "w_seq p < before"
    and "record_key (w_body p) = Some k"
    by (rule resolveReplyParentD) auto
  note facts = owner_facts [OF o1]
  have "(map_option a_identity (author_of (w_body p)) = Some cid \<and> source_wire_of (w_body p) = Some wireId)
       \<or> (cid \<in> set (recipients_of (w_body p))
          \<and> (\<exists>c\<in>set rows. \<exists>r. w_body c = Relay_result r \<and> rs_status r = Queued \<and> rs_recipient r = cid
               \<and> w_seq p < w_seq c \<and> wireId \<in> set (wires c p)))"
    using facts(4) unfolding owns_def
  proof (elim disjE)
    assume "list_ex (\<lambda>result. List.member (wires result p) wireId) (copies (local_rows rows rid) p cid)"
    then obtain c where c: "c \<in> set rows" "is_copy (local_rows rows rid) p cid c" "wireId \<in> set (wires c p)"
      by (auto simp: list_ex_iff copies_def local_rows_def)
    from c(2) show ?thesis
      by (rule is_copyD) (use c in auto)
  qed blast
  then show ?thesis using facts \<open>w_seq p < before\<close> \<open>record_key (w_body p) = Some k\<close> by blast
qed

lemma copy_wire_ne: "copy_wire rows p cid = Some w \<Longrightarrow> w \<noteq> []"
proof -
  assume "copy_wire rows p cid = Some w"
  then obtain ws where "List.find (\<lambda>ws. ws \<noteq> []) (map (\<lambda>c. wires c p) (copies rows p cid)) = Some ws"
    and w: "w = hd ws"
    by (auto simp: copy_wire_def)
  then obtain c where "ws \<noteq> []" "ws = wires c p" by (auto dest!: find_SomeD)
  then have "w \<in> set (wires c p)" using w by simp
  then show "w \<noteq> []" by (auto simp: wires_def nonempty_def split: body.splits if_splits)
qed

lemma known_wire_ne: "known_wire rows k p cid = Some w \<Longrightarrow> w \<noteq> []"
  by (auto simp: known_wire_def own_wire_def Let_def dest: copy_wire_ne split: if_splits option.splits)

lemma mapReplyParentD:
  assumes "mapReplyParent rows rid k item cid = Linked k' w"
  obtains p owner where "filter (\<lambda>i. record_key (w_body i) = Some k) (items (local_rows rows rid)) = [p]"
    "ownersFor (local_rows rows rid) w cid = [owner]" "record_key (w_body owner) = Some k" "w \<noteq> []" "k' = k"
proof -
  let ?rows = "local_rows rows rid"
  have "(case filter (\<lambda>i. record_key (w_body i) = Some k) (items ?rows) of
      [parent] \<Rightarrow> (case known_wire ?rows k parent cid of None \<Rightarrow> Missing_copy k
        | Some s \<Rightarrow> (case ownersFor ?rows s cid of
            [owner] \<Rightarrow> if record_key (w_body owner) = Some k then Linked k s else Reply_ambiguous (Some k)
          | _ \<Rightarrow> Reply_ambiguous (Some k)))
    | _ \<Rightarrow> Reply_ambiguous (Some k)) = Linked k' w"
    using assms by (simp add: mapReplyParent_def Let_def split: if_splits)
  then obtain p where p: "filter (\<lambda>i. record_key (w_body i) = Some k) (items ?rows) = [p]"
    and rest: "(case known_wire ?rows k p cid of None \<Rightarrow> Missing_copy k
        | Some s \<Rightarrow> (case ownersFor ?rows s cid of
            [owner] \<Rightarrow> if record_key (w_body owner) = Some k then Linked k s else Reply_ambiguous (Some k)
          | _ \<Rightarrow> Reply_ambiguous (Some k))) = Linked k' w"
    by (auto dest!: case_singleD)
  then obtain s where s: "known_wire ?rows k p cid = Some s"
    and rest: "(case ownersFor ?rows s cid of
            [owner] \<Rightarrow> if record_key (w_body owner) = Some k then Linked k s else Reply_ambiguous (Some k)
          | _ \<Rightarrow> Reply_ambiguous (Some k)) = Linked k' w"
    by (cases "known_wire ?rows k p cid") auto
  then obtain owner where "ownersFor ?rows s cid = [owner]" "record_key (w_body owner) = Some k" "k' = k" "w = s"
    by (auto dest!: case_singleD split: if_splits)
  with that p s known_wire_ne show thesis by blast
qed

text \<open>C15: the wire id the room hands to a recipient resolves back, for that recipient, to the one
  item it stands for, in every reply archived after that item.\<close>

theorem linked_reply_resolves_back:
  assumes "mapReplyParent rows rid k item cid = Linked k' w"
  shows "k' = k \<and> (\<exists>p. filter (\<lambda>i. record_key (w_body i) = Some k) (items (local_rows rows rid)) = [p]
    \<and> (\<forall>before. w_seq p < before \<longrightarrow> resolveReplyParent rows rid cid (Some w) before = Resolved k p))"
proof -
  obtain p owner where p: "filter (\<lambda>i. record_key (w_body i) = Some k) (items (local_rows rows rid)) = [p]"
    and o: "ownersFor (local_rows rows rid) w cid = [owner]" "record_key (w_body owner) = Some k"
    and "w \<noteq> []" "k' = k"
    using assms by (rule mapReplyParentD)
  have "owner \<in> set (items (local_rows rows rid))"
    using length_filter_eq_1D(1) [OF o(1) [unfolded ownersFor_def]] .
  then have "owner = p" using filter_eq_single_unique [OF p] o(2) by blast
  with p o \<open>w \<noteq> []\<close> \<open>k' = k\<close> show ?thesis
    by (auto simp: resolveReplyParent_def Let_def not_le)
qed

text \<open>The archive reader behind every reply decision, which fetches pages of 64 records until an
  empty one, returns every item, intent and result of the archive, in order, once.\<close>

theorem reply_rows_complete:
  assumes "archive_ok sha rid ar"
  shows "readReplyRows ar rid = Inr (List.map_filter reply_row (a_rows ar))"
  by (rule readReplyRows_eq [OF assms])

end
