(* ===== verification/Json.thy ===== *)
theory Json
  imports JString
begin

section \<open>JSON text\<close>

text \<open>
  \<open>JSON.stringify\<close> on the values the model serialises: strings with the escapes of ECMA-262
  (lone surrogates included), integers, arrays, and objects in key insertion order. A property
  whose value is \<open>undefined\<close> is left out by the caller.
\<close>

datatype json =
    J_null
  | J_bool bool
  | J_num int
  | J_str string
  | J_arr "json list"
  | J_obj "(string \<times> json) list"

definition hex_digit :: "nat \<Rightarrow> char" where
  "hex_digit n = (if n < 10 then char_of (48 + n) else char_of (87 + n))"

definition unicode_escape :: "nat \<Rightarrow> string" where
  "unicode_escape c =
     char_of (92::nat) # CHR ''u'' # [hex_digit (c div 4096), hex_digit (c div 256 mod 16),
       hex_digit (c div 16 mod 16), hex_digit (c mod 16)]"

definition json_escape :: "nat \<Rightarrow> string" where
  "json_escape c =
     (if c = 34 then [char_of (92::nat), char_of (34::nat)]
      else if c = 92 then [char_of (92::nat), char_of (92::nat)]
      else if c = 8 then [char_of (92::nat), CHR ''b'']
      else if c = 9 then [char_of (92::nat), CHR ''t'']
      else if c = 10 then [char_of (92::nat), CHR ''n'']
      else if c = 12 then [char_of (92::nat), CHR ''f'']
      else if c = 13 then [char_of (92::nat), CHR ''r'']
      else if c < 32 \<or> is_cs c then unicode_escape c
      else enc_cp c)"

definition json_string :: "string \<Rightarrow> string" where
  "json_string s = [char_of (34::nat)] @ concat (map json_escape (cps s)) @ [char_of (34::nat)]"

definition show_int :: "int \<Rightarrow> string" where
  "show_int n = (if n < 0 then CHR ''-'' # show_nat (nat (- n)) else show_nat (nat n))"

fun join :: "string \<Rightarrow> string list \<Rightarrow> string" where
  "join sep [] = []"
| "join sep [x] = x"
| "join sep (x # xs) = x @ sep @ join sep xs"

fun stringify :: "json \<Rightarrow> string" where
  "stringify J_null = ''null''"
| "stringify (J_bool b) = (if b then ''true'' else ''false'')"
| "stringify (J_num n) = show_int n"
| "stringify (J_str s) = json_string s"
| "stringify (J_arr xs) = ''['' @ join '','' (map stringify xs) @ '']''"
| "stringify (J_obj fs) =
     ''{'' @ join '','' (map (\<lambda>(k, v). json_string k @ '':'' @ stringify v) fs) @ ''}''"

text \<open>An optional property.\<close>

definition opt_field :: "string \<Rightarrow> ('a \<Rightarrow> json) \<Rightarrow> 'a option \<Rightarrow> (string \<times> json) list" where
  "opt_field k f v = (case v of None \<Rightarrow> [] | Some x \<Rightarrow> [(k, f x)])"

lemma stringify_ne [simp]: "stringify v \<noteq> []"
proof (cases v)
  case (J_num n)
  then show ?thesis by (simp add: show_int_def)
qed (auto simp: json_string_def)

end
