(* ===== verification/Threads.thy ===== *)
theory Threads
  imports Replies Json "HOL-Library.Multiset"
begin

section \<open>Threads\<close>

text \<open>
  \<open>src/threads.ts\<close>: choosing the members of a new thread, finding a thread's root in the
  archive, classifying an archived item as ordinary or as part of a thread from saved routing
  evidence, and authorising an incoming reply. The fingerprint's digest is the parameter \<open>sha\<close>.
  Participant ids are lower-case Crockford strings, on which \<open>localeCompare\<close> is byte order.
\<close>

subsection \<open>Members and authors\<close>

record start_thread_input =
  st_topic :: string
  st_participant_ids :: "string list"
  st_idempotency_key :: string

definition StartThreadInputSchema_parse :: "start_thread_input \<Rightarrow> start_thread_input option" where
  "StartThreadInputSchema_parse i =
     (case input_topic (st_topic i) of None \<Rightarrow> None
      | Some t \<Rightarrow>
          if list_all ulid_ok (st_participant_ids i) \<and> st_participant_ids i \<noteq> []
            \<and> idempotency_key_ok (st_idempotency_key i) then Some (i\<lparr>st_topic := t\<rparr>) else None)"

record thread_metadata =
  pm_thread_id :: string
  pm_topic :: string
  pm_creator :: author
  pm_participant_ids :: "string list"
  pm_created_at :: string

definition publicThreadMetadata :: "bool \<Rightarrow> string \<Rightarrow> message \<Rightarrow> thread_root \<Rightarrow> err + thread_metadata" where
  "publicThreadMetadata anonymous at root tr =
     (case (if anonymous then
              (case m_author_alias root of
                 Some al \<Rightarrow>
                   if alias_ok al \<and> al_participant_id al = tr_creator_participant_id tr
                   then Inr \<lparr>a_identity = al_participant_id al, a_display_name = al_alias al,
                             a_role = a_role (m_author root)\<rparr>
                   else Inl (Thread_failure Reply_target_unavailable)
               | None \<Rightarrow> Inl (Thread_failure Reply_target_unavailable))
            else Inr (m_author root)) of
        Inl e \<Rightarrow> Inl e
      | Inr creator \<Rightarrow>
          Inr \<lparr>pm_thread_id = tr_thread_id tr, pm_topic = tr_topic tr, pm_creator = creator,
               pm_participant_ids = map tm_participant_id (tr_members tr), pm_created_at = at\<rparr>)"

definition selectThreadMembers :: "room \<Rightarrow> string \<Rightarrow> start_thread_input \<Rightarrow> err + thread_member list" where
  "selectThreadMembers room cid input =
     (let selected = set (st_participant_ids input);
          active = active_seats room
      in case List.find (\<lambda>s. s_identity s = cid) active of
           None \<Rightarrow> Inl (Thread_failure Invalid_members)
         | Some creator \<Rightarrow>
             if st_participant_ids input = [] \<or> \<not> distinct (st_participant_ids input)
               \<or> length (st_participant_ids input) > length active
               \<or> s_participant_id creator \<notin> selected
             then Inl (Thread_failure Invalid_members)
             else
               (let members = filter (\<lambda>s. s_participant_id s \<in> selected) active in
                if length members \<noteq> length (st_participant_ids input) then Inl (Thread_failure Invalid_members)
                else Inr (sort_key tm_participant_id
                       (map (\<lambda>s. \<lparr>tm_participant_id = s_participant_id s, tm_identity = s_identity s\<rparr>) members))))"

definition activeThreadSeat :: "room \<Rightarrow> thread_root \<Rightarrow> string \<Rightarrow> seat option" where
  "activeThreadSeat room root cid =
     List.find (\<lambda>s. active_seat s \<and> s_identity s = cid
       \<and> list_ex (\<lambda>m. tm_identity m = cid \<and> tm_participant_id m = s_participant_id s) (tr_members root))
       (r_seats room)"

definition threadRelayEligible :: "room \<Rightarrow> thread_root \<Rightarrow> string \<Rightarrow> bool" where
  "threadRelayEligible room root cid \<longleftrightarrow> activeThreadSeat room root cid \<noteq> None"

definition publicThreadAuthor :: "bool \<Rightarrow> message \<Rightarrow> thread_root \<Rightarrow> err + author" where
  "publicThreadAuthor anonymous m root =
     (case List.find (\<lambda>t. tm_identity t = a_identity (m_author m)) (tr_members root) of
        None \<Rightarrow> Inl (Thread_failure Reply_target_unavailable)
      | Some member \<Rightarrow>
          if \<not> anonymous then Inr (m_author m)
          else
            (case m_author_alias m of
               Some al \<Rightarrow>
                 if alias_ok al \<and> al_participant_id al = tm_participant_id member
                 then Inr \<lparr>a_identity = al_participant_id al, a_display_name = al_alias al,
                           a_role = a_role (m_author m)\<rparr>
                 else Inl (Thread_failure Reply_target_unavailable)
             | None \<Rightarrow> Inl (Thread_failure Reply_target_unavailable)))"

definition threadFingerprint :: "(string \<Rightarrow> string) \<Rightarrow> start_thread_input \<Rightarrow> string" where
  "threadFingerprint sha input =
     sha (stringify (J_obj [(''topic'', J_str (st_topic input)),
       (''participant_ids'', J_arr (map J_str (sort (st_participant_ids input))))]))"

subsection \<open>Thread roots\<close>

definition root_candidate :: "string \<Rightarrow> row \<Rightarrow> bool" where
  "root_candidate ident w \<longleftrightarrow>
     (case w_body w of
        Message m \<Rightarrow> m_message_id m = ident
          \<or> map_option tr_thread_id (m_thread_root m) = Some ident
          \<or> (case m_scope m of None \<Rightarrow> False
             | Some sc \<Rightarrow> sc_thread_id sc = ident \<and> sc_parent_key sc = None)
      | _ \<Rightarrow> False)"

definition valid_root :: "string \<Rightarrow> message \<Rightarrow> bool" where
  "valid_root ident m \<longleftrightarrow>
     (case m_thread_root m of None \<Rightarrow> False
      | Some raw \<Rightarrow>
     (case ThreadRootSchema_parse raw of None \<Rightarrow> False
      | Some root \<Rightarrow>
     (case m_scope m of None \<Rightarrow> False
      | Some sc \<Rightarrow>
          scope_ok sc \<and> m_message_id m = ident \<and> tr_thread_id root = ident
          \<and> sc_thread_id sc = ident \<and> sc_parent_key sc = None \<and> m_category m = Chat
          \<and> map_option tm_identity (find_member (tr_members root) (tr_creator_participant_id root))
              = Some (a_identity (m_author m))
          \<and> opt_ok (\<lambda>al. alias_ok al \<and> al_participant_id al = tr_creator_participant_id root) (m_author_alias m)
          \<and> m_source_msg_id m = None \<and> m_source_wire_id m = None \<and> m_source_reply_to m = None)))"

definition findThreadRoot :: "row list \<Rightarrow> string \<Rightarrow> err + row option" where
  "findThreadRoot rows ident =
     (case filter (root_candidate ident) rows of
        [] \<Rightarrow> Inr None
      | [root] \<Rightarrow>
          (case w_body root of
             Message m \<Rightarrow> if valid_root ident m then Inr (Some root)
                          else Inl (Thread_failure Reply_target_unavailable)
           | _ \<Rightarrow> Inl (Thread_failure Reply_target_unavailable))
      | _ \<Rightarrow> Inl (Thread_failure Reply_target_unavailable))"

subsection \<open>Classification\<close>

datatype association = Ordinary | Scoped row thread_root thread_scope

text \<open>The first loop: native ancestry, nearest first.\<close>

function ancestry :: "string \<Rightarrow> row list \<Rightarrow> string list \<Rightarrow> nat \<Rightarrow> row \<Rightarrow> err + (row \<times> parent_resolution) list" where
  "ancestry rid rows seen n item =
     (case (record_key (w_body item), author_of (w_body item)) of
        (Some key, Some author) \<Rightarrow>
          if w_room_id item \<noteq> rid \<or> List.member seen key \<or> n > length rows
          then Inl (Thread_failure Reply_target_unavailable)
          else
            (case resolveReplyParent rows rid (a_identity author)
                    (map_option rr_wire_id (source_reply_of (w_body item))) (w_seq item) of
               Resolved k p \<Rightarrow>
                 if w_seq p \<ge> w_seq item then Inl (Thread_failure Reply_target_unavailable)
                 else (case ancestry rid rows (key # seen) (Suc n) p of
                         Inl e \<Rightarrow> Inl e
                       | Inr chain \<Rightarrow> Inr ((item, Resolved k p) # chain))
             | resolved \<Rightarrow> Inr [(item, resolved)])
      | _ \<Rightarrow> Inl (Thread_failure Reply_target_unavailable))"
  by pat_completeness auto
termination
  by (relation "measure (\<lambda>(rid, rows, seen, n, item). w_seq item)") auto

declare ancestry.simps [simp del]

definition declares_thread :: "body \<Rightarrow> bool" where
  "declares_thread b \<longleftrightarrow> (case b of Message m \<Rightarrow> m_scope m \<noteq> None \<or> m_thread_root m \<noteq> None | _ \<Rightarrow> False)"

definition descendant_ok :: "row \<Rightarrow> row \<Rightarrow> message \<Rightarrow> thread_scope \<Rightarrow> parent_resolution \<Rightarrow> association \<Rightarrow> bool" where
  "descendant_ok root item m sc resolved assoc \<longleftrightarrow>
     m_thread_root m = None \<and> w_seq root < w_seq item
     \<and> (case resolved of Resolved k p \<Rightarrow> sc_parent_key sc = Some k | _ \<Rightarrow> False)
     \<and> (case assoc of Scoped r tr sc' \<Rightarrow> message_id_of (w_body r) = message_id_of (w_body root) | Ordinary \<Rightarrow> False)"

text \<open>The second loop's body, oldest first.\<close>

definition associate ::
  "string \<Rightarrow> bool \<Rightarrow> row list \<Rightarrow> association \<Rightarrow> row \<times> parent_resolution \<Rightarrow> err + association" where
  "associate rid anonymous rows assoc entry =
     (let (item, resolved) = entry; failure = Inl (Thread_failure Reply_target_unavailable) in
      if \<not> declares_thread (w_body item) \<and> assoc = Ordinary then Inr Ordinary
      else
        (case w_body item of
           Message m \<Rightarrow>
             (case m_scope m of None \<Rightarrow> failure
              | Some sc \<Rightarrow>
                  if \<not> scope_ok sc \<or> m_category m \<noteq> Chat
                    \<or> length (filter (\<lambda>w. w_room_id w = rid \<and> kind_of (w_body w) = K_message
                          \<and> message_id_of (w_body w) = Some (m_message_id m)) rows) \<noteq> 1
                  then failure
                  else
                    (case findThreadRoot (local_rows rows rid) (sc_thread_id sc) of
                       Inl e \<Rightarrow> Inl e
                     | Inr None \<Rightarrow> failure
                     | Inr (Some root) \<Rightarrow>
                         (case w_body root of
                            Message rm \<Rightarrow>
                              (case m_thread_root rm of None \<Rightarrow> failure
                               | Some tr \<Rightarrow>
                                   (case publicThreadMetadata anonymous (w_at root) rm tr of Inl e \<Rightarrow> Inl e
                                    | Inr _ \<Rightarrow>
                                   (case publicThreadAuthor anonymous m tr of Inl e \<Rightarrow> Inl e
                                    | Inr _ \<Rightarrow>
                                       if m_message_id m \<noteq> m_message_id rm
                                         \<and> \<not> descendant_ok root item m sc resolved assoc
                                       then failure else Inr (Scoped root tr sc))))
                          | _ \<Rightarrow> failure)))
         | _ \<Rightarrow> failure))"

fun associate_all ::
  "string \<Rightarrow> bool \<Rightarrow> row list \<Rightarrow> (row \<times> parent_resolution) list \<Rightarrow> err + association" where
  "associate_all rid anonymous rows [] = Inr Ordinary"
| "associate_all rid anonymous rows (e # chain) =
     (case associate_all rid anonymous rows chain of Inl x \<Rightarrow> Inl x
      | Inr a \<Rightarrow> associate rid anonymous rows a e)"

definition classifyThreadAssociation :: "string \<Rightarrow> bool \<Rightarrow> row list \<Rightarrow> row \<Rightarrow> err + association" where
  "classifyThreadAssociation rid anonymous rows source =
     (case ancestry rid rows [] 0 source of Inl e \<Rightarrow> Inl e
      | Inr chain \<Rightarrow> associate_all rid anonymous rows chain)"

subsection \<open>Authorising a reply\<close>

record reply_target =
  rt_wire_id :: string
  rt_sentence :: "int option"

record inbox_ref =
  ib_sender_id :: string
  ib_is_file :: bool
  ib_reply_to :: "reply_target option"

definition ordinary_recipients :: "room \<Rightarrow> string \<Rightarrow> string list" where
  "ordinary_recipients room sender =
     uniq (map s_identity (filter (\<lambda>s. s_state s = Seat_active \<and> s_identity s \<noteq> sender) (r_seats room)))"

definition thread_recipients :: "room \<Rightarrow> thread_root \<Rightarrow> string \<Rightarrow> string list" where
  "thread_recipients room tr sender =
     map tm_identity (filter (\<lambda>m. tm_identity m \<noteq> sender \<and> activeThreadSeat room tr (tm_identity m) \<noteq> None)
       (tr_members tr))"

definition lifecycle_pending :: "room \<Rightarrow> bool" where
  "lifecycle_pending room \<longleftrightarrow> map_option l_state (r_lifecycle_request room) = Some L_pending"

definition resolveIntakeScope ::
  "room \<Rightarrow> row list \<Rightarrow> inbox_ref \<Rightarrow> nat \<Rightarrow> err + (string list \<times> thread_scope option)" where
  "resolveIntakeScope room rows item beforeSeq =
     (let sender = ib_sender_id item; failure = Inl (Thread_failure Reply_target_unavailable) in
      case ib_reply_to item of None \<Rightarrow> Inr (ordinary_recipients room sender, None)
      | Some reply \<Rightarrow>
          if rt_wire_id reply = [] \<or> js_length (rt_wire_id reply) > 256
            \<or> \<not> opt_ok positive_safe (rt_sentence reply)
            \<or> r_state room \<noteq> Room_active \<or> lifecycle_pending room \<or> \<not> is_active_cid room sender
          then failure
          else
            (case resolveReplyParent rows (r_room_id room) sender (Some (rt_wire_id reply)) beforeSeq of
               Resolved k p \<Rightarrow>
                 (case classifyThreadAssociation (r_room_id room) (r_anonymous room) rows p of
                    Inl e \<Rightarrow> Inl e
                  | Inr Ordinary \<Rightarrow> Inr (ordinary_recipients room sender, None)
                  | Inr (Scoped root tr sc) \<Rightarrow>
                      if activeThreadSeat room tr sender = None then failure
                      else if ib_is_file item then Inl (Thread_failure Thread_files_unsupported)
                      else
                        (case message_id_of (w_body root) of None \<Rightarrow> failure
                         | Some thread \<Rightarrow>
                             Inr (thread_recipients room tr sender,
                               Some \<lparr>sc_thread_id = thread, sc_parent_key = Some k\<rparr>)))
             | _ \<Rightarrow> failure))"


subsection \<open>Facts\<close>

lemma findThreadRootD:
  assumes "findThreadRoot rows ident = Inr (Some r)"
  obtains m tr where "r \<in> set rows" "w_body r = Message m" "valid_root ident m" "m_message_id m = ident"
    "m_thread_root m = Some tr" "m_source_reply_to m = None" "tr_thread_id tr = ident"
proof -
  have f: "filter (root_candidate ident) rows = [r]" and b: "\<exists>m. w_body r = Message m \<and> valid_root ident m"
    using assms by (auto simp: findThreadRoot_def split: list.splits body.splits if_splits)
  then obtain m where m: "w_body r = Message m" "valid_root ident m" by blast
  then obtain tr where tr: "m_thread_root m = Some tr" by (auto simp: valid_root_def split: option.splits)
  moreover have "m_message_id m = ident" "m_source_reply_to m = None"
    using m(2) by (auto simp: valid_root_def split: option.splits)
  moreover have "tr_thread_id tr = ident"
    using m(2) tr by (auto simp: valid_root_def ThreadRootSchema_parse_def split: option.splits if_splits)
  ultimately show thesis using that m length_filter_eq_1D(1) [OF f] by blast
qed

lemma findThreadRoot_id:
  "findThreadRoot rows ident = Inr (Some r) \<Longrightarrow> w_body r = Message m \<Longrightarrow> ident = m_message_id m"
  by (erule findThreadRootD) auto

lemma valid_root_members:
  assumes "valid_root ident m" "m_thread_root m = Some tr"
  shows "distinct (map tm_identity (tr_members tr))" "distinct (map tm_participant_id (tr_members tr))"
proof -
  obtain ms where p: "list_parse member_parse (tr_members tr) = Some ms"
    and d: "distinct (map tm_participant_id ms)" "distinct (map tm_identity ms)"
    using assms by (auto simp: valid_root_def ThreadRootSchema_parse_def split: option.splits if_splits)
  have "list_parse member_parse xs = Some ys \<Longrightarrow> map tm_participant_id ys = map tm_participant_id xs
      \<and> map tm_identity ys = map to_upper (map tm_identity xs)" for xs ys
    by (induction xs arbitrary: ys)
      (auto simp: member_parse_def cid_parse_def split: option.splits if_splits)
  from this [OF p] d show "distinct (map tm_identity (tr_members tr))"
    "distinct (map tm_participant_id (tr_members tr))"
    by (metis distinct_map)+
qed

lemma associate_ScopedD:
  assumes "associate rid anon rows assoc (item, resolved) = Inr (Scoped root tr sc)"
  obtains m rm where "w_body item = Message m" "m_scope m = Some sc"
    "findThreadRoot (local_rows rows rid) (sc_thread_id sc) = Inr (Some root)"
    "w_body root = Message rm" "m_thread_root rm = Some tr"
    "length (filter (\<lambda>w. w_room_id w = rid \<and> kind_of (w_body w) = K_message
        \<and> message_id_of (w_body w) = Some (m_message_id m)) rows) = 1"
    "m_message_id m = m_message_id rm \<or> descendant_ok root item m sc resolved assoc"
  using assms
  by (auto simp: associate_def Let_def split: if_splits body.splits option.splits sum.splits)

lemma associate_OrdinaryD:
  "associate rid anon rows assoc (item, resolved) = Inr Ordinary \<Longrightarrow> assoc = Ordinary"
  by (auto simp: associate_def Let_def split: if_splits body.splits option.splits sum.splits)

text \<open>Every scoped association carries a root the archive finds under its own id.\<close>

lemma associate_all_root:
  assumes "associate_all rid anon rows chain = Inr (Scoped root tr sc)"
  shows "\<exists>rm. w_body root = Message rm \<and> m_thread_root rm = Some tr
    \<and> findThreadRoot (local_rows rows rid) (m_message_id rm) = Inr (Some root)"
proof (cases chain)
  case Nil
  with assms show ?thesis by simp
next
  case (Cons e c)
  then obtain a where "associate rid anon rows a (fst e, snd e) = Inr (Scoped root tr sc)"
    using assms by (auto split: sum.splits)
  then show ?thesis
    by (rule associate_ScopedD) (metis findThreadRoot_id)
qed

lemma ancestry_weaken:
  "ancestry rid rows seen n item = Inr c \<Longrightarrow> set seen' \<subseteq> set seen \<Longrightarrow> n' \<le> n \<Longrightarrow>
    ancestry rid rows seen' n' item = Inr c"
proof (induction rid rows seen n item arbitrary: c seen' n' rule: ancestry.induct)
  case (1 rid rows seen n item)
  obtain key author where k: "record_key (w_body item) = Some key" "author_of (w_body item) = Some author"
    using "1.prems"(1) by (subst (asm) ancestry.simps) (auto split: option.splits)
  have g: "w_room_id item = rid" "key \<notin> set seen" "n \<le> length rows"
    using "1.prems"(1) k by (subst (asm) ancestry.simps; auto split: if_splits)+
  then have g': "w_room_id item = rid" "key \<notin> set seen'" "n' \<le> length rows"
    using "1.prems"(2,3) by auto
  let ?res = "resolveReplyParent rows rid (a_identity author)
      (map_option rr_wire_id (source_reply_of (w_body item))) (w_seq item)"
  show ?case
  proof (cases ?res)
    case (Resolved pk p)
    obtain c' where less: "\<not> w_seq p \<ge> w_seq item" and c': "ancestry rid rows (key # seen) (Suc n) p = Inr c'"
      and c: "c = (item, Resolved pk p) # c'"
      using "1.prems"(1) k g Resolved by (subst (asm) ancestry.simps) (auto split: if_splits sum.splits)
    have "ancestry rid rows (key # seen') (Suc n') p = Inr c'"
      using "1.IH" [OF _ k(1)] k g Resolved less c' "1.prems"(2,3) by (auto simp: subset_iff)
    then show ?thesis using k g' Resolved less c by (subst ancestry.simps) simp
  qed (use "1.prems"(1) k g g' in \<open>(subst ancestry.simps, subst (asm) ancestry.simps, simp)+\<close>)
qed

lemma ancestry_step:
  assumes "ancestry rid rows [] 0 item = Inr c"
  obtains author where "author_of (w_body item) = Some author" "w_room_id item = rid"
    "\<And>k p. resolveReplyParent rows rid (a_identity author)
        (map_option rr_wire_id (source_reply_of (w_body item))) (w_seq item) = Resolved k p \<Longrightarrow>
      \<exists>c'. ancestry rid rows [] 0 p = Inr c' \<and> c = (item, Resolved k p) # c'"
proof -
  obtain key author where k: "record_key (w_body item) = Some key" "author_of (w_body item) = Some author"
    using assms by (subst (asm) ancestry.simps) (auto split: option.splits)
  moreover have g: "w_room_id item = rid"
    using assms k by (subst (asm) ancestry.simps) (auto split: if_splits)
  moreover have "\<exists>c'. ancestry rid rows [] 0 p = Inr c' \<and> c = (item, Resolved pk p) # c'"
    if r: "resolveReplyParent rows rid (a_identity author)
        (map_option rr_wire_id (source_reply_of (w_body item))) (w_seq item) = Resolved pk p" for pk p
  proof -
    have "\<exists>c'. ancestry rid rows [key] (Suc 0) p = Inr c' \<and> c = (item, Resolved pk p) # c'"
      using assms k g r by (subst (asm) ancestry.simps) (auto split: if_splits sum.splits)
    then show ?thesis using ancestry_weaken [of rid rows "[key]" "Suc 0" p _ "[]" 0] by auto
  qed
  ultimately show thesis using that by blast
qed

subsection \<open>Scope is inherited\<close>

lemma classify_step:
  assumes a: "classifyThreadAssociation rid anon rows item = Inr a"
    and author: "author_of (w_body item) = Some author"
    and r: "resolveReplyParent rows rid (a_identity author)
        (map_option rr_wire_id (source_reply_of (w_body item))) (w_seq item) = Resolved k p"
  obtains b where "classifyThreadAssociation rid anon rows p = Inr b"
    "associate rid anon rows b (item, Resolved k p) = Inr a"
    "\<And>root tr sc. b = Scoped root tr sc \<Longrightarrow> \<exists>rm. w_body root = Message rm \<and> m_thread_root rm = Some tr
        \<and> findThreadRoot (local_rows rows rid) (m_message_id rm) = Inr (Some root)"
proof -
  obtain c where c: "ancestry rid rows [] 0 item = Inr c" "associate_all rid anon rows c = Inr a"
    using a by (auto simp: classifyThreadAssociation_def split: sum.splits)
  obtain c' where c': "ancestry rid rows [] 0 p = Inr c'" "c = (item, Resolved k p) # c'"
    using c(1) by (rule ancestry_step) (use author r in auto)
  then obtain b where b: "associate_all rid anon rows c' = Inr b" "associate rid anon rows b (item, Resolved k p) = Inr a"
    using c(2) by (auto split: sum.splits)
  show thesis
  proof (rule that [of b])
    show "classifyThreadAssociation rid anon rows p = Inr b"
      using c' b by (simp add: classifyThreadAssociation_def)
  qed (use b associate_all_root in blast)+
qed

text \<open>Proven private ancestry cannot lose its scope. When the parent of an archived item belongs
  to a thread, the item either belongs to the same thread, under the same root, or is refused.\<close>

theorem scope_is_inherited:
  assumes item: "item \<in> set rows"
    and a: "classifyThreadAssociation rid anon rows item = Inr a"
    and author: "author_of (w_body item) = Some author"
    and r: "resolveReplyParent rows rid (a_identity author)
        (map_option rr_wire_id (source_reply_of (w_body item))) (w_seq item) = Resolved k p"
    and parent: "classifyThreadAssociation rid anon rows p = Inr (Scoped root tr sc)"
  shows "\<exists>sc'. a = Scoped root tr sc' \<and> sc_parent_key sc' = Some k"
proof -
  obtain b where "classifyThreadAssociation rid anon rows p = Inr b"
    and step: "associate rid anon rows b (item, Resolved k p) = Inr a"
    and bb: "\<And>root tr sc. b = Scoped root tr sc \<Longrightarrow> \<exists>rm. w_body root = Message rm \<and> m_thread_root rm = Some tr
        \<and> findThreadRoot (local_rows rows rid) (m_message_id rm) = Inr (Some root)"
    using a author r by (rule classify_step) auto
  with parent have b: "b = Scoped root tr sc" by simp
  obtain rm where rm: "w_body root = Message rm" "m_thread_root rm = Some tr"
    "findThreadRoot (local_rows rows rid) (m_message_id rm) = Inr (Some root)"
    using bb [OF b] by blast
  have "w_room_id item = rid"
    using a unfolding classifyThreadAssociation_def by (auto split: sum.splits elim: ancestry_step)
  obtain root' tr' sc' where s: "a = Scoped root' tr' sc'"
    using step associate_OrdinaryD b by (cases a) blast+
  from step [unfolded s] obtain m rm' where m: "w_body item = Message m" "m_scope m = Some sc'"
    "findThreadRoot (local_rows rows rid) (sc_thread_id sc') = Inr (Some root')"
    "w_body root' = Message rm'" "m_thread_root rm' = Some tr'"
    "length (filter (\<lambda>w. w_room_id w = rid \<and> kind_of (w_body w) = K_message
        \<and> message_id_of (w_body w) = Some (m_message_id m)) rows) = 1"
    "m_message_id m = m_message_id rm' \<or> descendant_ok root' item m sc' (Resolved k p) b"
    by (rule associate_ScopedD) blast
  have "m_message_id m \<noteq> m_message_id rm'"
  proof
    assume same: "m_message_id m = m_message_id rm'"
    obtain u where u: "filter (\<lambda>w. w_room_id w = rid \<and> kind_of (w_body w) = K_message
        \<and> message_id_of (w_body w) = Some (m_message_id m)) rows = [u]"
      using m(6) by (auto simp: length_Suc_conv)
    have "root' \<in> set rows" "w_room_id root' = rid" using m(3) by (auto elim!: findThreadRootD simp: local_rows_def)
    then have "root' = item"
      using filter_eq_single_unique [OF u, of root'] filter_eq_single_unique [OF u, of item]
        item m(1,4) same \<open>w_room_id item = rid\<close> by auto
    moreover have "m_source_reply_to rm' = None" using m(3,4) by (auto elim!: findThreadRootD)
    ultimately show False using r m(1,4) by (auto simp: resolveReplyParent_def)
  qed
  then have d: "descendant_ok root' item m sc' (Resolved k p) b" using m(7) by blast
  then have "m_message_id rm = m_message_id rm'" using rm(1) m(4) by (auto simp: descendant_ok_def b)
  then have "root' = root" using rm(3) m(3) findThreadRoot_id [OF m(3,4)] by simp
  with m rm s d show ?thesis by (auto simp: descendant_ok_def)
qed

subsection \<open>Recipients and members\<close>

lemma activeThreadSeatD:
  "activeThreadSeat room tr cid = Some s \<Longrightarrow> s \<in> set (r_seats room) \<and> active_seat s \<and> s_identity s = cid
    \<and> (\<exists>m\<in>set (tr_members tr). tm_identity m = cid \<and> tm_participant_id m = s_participant_id s)"
  by (auto simp: activeThreadSeat_def list_ex_iff dest!: find_SomeD)

lemma activeThreadSeat_active: "activeThreadSeat room tr cid \<noteq> None \<Longrightarrow> is_active_cid room cid"
  by (auto simp: is_active_cid_def list_ex_iff active_seat_def dest!: activeThreadSeatD)

lemma ordinary_recipients_ok:
  "distinct (ordinary_recipients room sender)"
  "cid \<in> set (ordinary_recipients room sender) \<longleftrightarrow> cid \<noteq> sender \<and> is_active_cid room cid"
  by (auto simp: ordinary_recipients_def is_active_cid_def list_ex_iff)

lemma classify_ScopedD:
  assumes "classifyThreadAssociation rid anon rows p = Inr (Scoped root tr sc)"
  obtains rm where "root \<in> set rows" "w_room_id root = rid" "w_body root = Message rm" "m_thread_root rm = Some tr"
    "valid_root (m_message_id rm) rm" "tr_thread_id tr = m_message_id rm"
proof -
  obtain c where "associate_all rid anon rows c = Inr (Scoped root tr sc)"
    using assms by (auto simp: classifyThreadAssociation_def split: sum.splits)
  then obtain rm where rm: "w_body root = Message rm" "m_thread_root rm = Some tr"
    "findThreadRoot (local_rows rows rid) (m_message_id rm) = Inr (Some root)"
    using associate_all_root by blast
  from rm(3) obtain m where f: "root \<in> set (local_rows rows rid)" "w_body root = Message m"
      "valid_root (m_message_id rm) m"
    by (rule findThreadRootD)
  then have m: "m = rm" using rm(1) by simp
  have "tr_thread_id tr = m_message_id rm"
    using f(3) rm(2) unfolding m
    by (auto simp: valid_root_def ThreadRootSchema_parse_def split: option.splits if_splits)
  with that [of rm] rm f m show thesis by (simp add: local_rows_def)
qed

lemma resolveIntakeScopeD:
  assumes "resolveIntakeScope room rows item before = Inr (rs, scope)"
  shows "(rs = ordinary_recipients room (ib_sender_id item) \<and> scope = None)
    \<or> (\<exists>p k root tr sc thread. classifyThreadAssociation (r_room_id room) (r_anonymous room) rows p = Inr (Scoped root tr sc)
         \<and> activeThreadSeat room tr (ib_sender_id item) \<noteq> None \<and> \<not> ib_is_file item
         \<and> message_id_of (w_body root) = Some thread
         \<and> rs = thread_recipients room tr (ib_sender_id item)
         \<and> scope = Some \<lparr>sc_thread_id = thread, sc_parent_key = Some k\<rparr>)"
proof (cases "ib_reply_to item")
  case None
  then show ?thesis using assms by (simp add: resolveIntakeScope_def)
next
  case (Some reply)
  note def = assms [unfolded resolveIntakeScope_def Let_def Some option.case]
  show ?thesis
  proof (cases "resolveReplyParent rows (r_room_id room) (ib_sender_id item) (Some (rt_wire_id reply)) before")
    case (Resolved k p)
    note def2 = def [unfolded Resolved parent_resolution.case]
    show ?thesis
    proof (cases "classifyThreadAssociation (r_room_id room) (r_anonymous room) rows p")
      case (Inl e)
      then show ?thesis using def2 by (simp split: if_splits)
    next
      case (Inr a)
      show ?thesis
      proof (cases a)
        case Ordinary
        then show ?thesis using def2 Inr by (simp split: if_splits)
      next
        case (Scoped root tr sc)
        then have "activeThreadSeat room tr (ib_sender_id item) \<noteq> None \<and> \<not> ib_is_file item
            \<and> (\<exists>thread. message_id_of (w_body root) = Some thread
              \<and> rs = thread_recipients room tr (ib_sender_id item)
              \<and> scope = Some \<lparr>sc_thread_id = thread, sc_parent_key = Some k\<rparr>)"
          using def2 Inr by (auto split: if_splits option.splits)
        then show ?thesis using Inr Scoped by blast
      qed
    qed
  qed (use def in \<open>simp_all split: if_splits\<close>)
qed

text \<open>Whatever an incoming item replies to, it is addressed to distinct active participants other
  than its sender. A reply into a thread is addressed only to members of the thread's root who still
  hold the seat they were selected with, its sender is one of those, and files are refused there.\<close>

theorem intake_recipients:
  assumes "resolveIntakeScope room rows item before = Inr (rs, scope)"
  shows "distinct rs \<and> (\<forall>cid\<in>set rs. cid \<noteq> ib_sender_id item \<and> is_active_cid room cid)
    \<and> (\<forall>sc. scope = Some sc \<longrightarrow>
         (\<exists>root m tr. root \<in> set rows \<and> w_body root = Message m \<and> m_thread_root m = Some tr
            \<and> valid_root (sc_thread_id sc) m \<and> \<not> ib_is_file item
            \<and> threadRelayEligible room tr (ib_sender_id item)
            \<and> (\<forall>cid\<in>set rs. threadRelayEligible room tr cid)))"
  using resolveIntakeScopeD [OF assms]
proof (elim disjE exE conjE)
  assume "rs = ordinary_recipients room (ib_sender_id item)" "scope = None"
  then show ?thesis using ordinary_recipients_ok by blast
next
  fix p k root tr sc thread
  assume c: "classifyThreadAssociation (r_room_id room) (r_anonymous room) rows p = Inr (Scoped root tr sc)"
    and sender: "activeThreadSeat room tr (ib_sender_id item) \<noteq> None" and nofile: "\<not> ib_is_file item"
    and thread: "message_id_of (w_body root) = Some thread"
    and rs: "rs = thread_recipients room tr (ib_sender_id item)"
    and scope: "scope = Some \<lparr>sc_thread_id = thread, sc_parent_key = Some k\<rparr>"
  from c obtain rm where rm: "root \<in> set rows" "w_body root = Message rm" "m_thread_root rm = Some tr"
    "valid_root (m_message_id rm) rm"
    by (rule classify_ScopedD) auto
  have "distinct rs" unfolding rs thread_recipients_def by (rule distinct_map_filter [OF valid_root_members(1) [OF rm(4,3)]])
  moreover have "\<forall>cid\<in>set rs. cid \<noteq> ib_sender_id item \<and> activeThreadSeat room tr cid \<noteq> None"
    unfolding rs thread_recipients_def by auto
  moreover have "thread = m_message_id rm" using thread rm(2) by simp
  ultimately show ?thesis
    using rm sender nofile activeThreadSeat_active unfolding scope threadRelayEligible_def
    by (metis option.inject thread_scope.select_convs(1))
qed

lemma room_active_distinct:
  assumes "room_seats_ok room"
  shows "distinct (map s_participant_id (active_seats room))" "distinct (map s_identity (active_seats room))"
proof -
  show "distinct (map s_participant_id (active_seats room))"
    using assms unfolding room_seats_ok_def active_seats_def by (blast intro: distinct_map_filter)
  have "active_seats room = filter active_seat (filter live_seat (r_seats room))"
    unfolding active_seats_def filter_filter by (rule filter_cong) (auto simp: active_seat_def live_seat_def)
  then show "distinct (map s_identity (active_seats room))"
    using assms unfolding room_seats_ok_def by (metis distinct_map_filter)
qed

lemma set_map_sort_key: "set (map f (sort_key k xs)) = set (map f xs)"
  by simp

lemma distinct_map_sort_key: "distinct (map f (sort_key k xs)) = distinct (map f xs)"
  by (simp add: distinct_map)

lemma selectThreadMembersD:
  assumes "selectThreadMembers room cid input = Inr ms"
  obtains creator where "creator \<in> set (active_seats room)" "s_identity creator = cid"
    "s_participant_id creator \<in> set (st_participant_ids input)" "distinct (st_participant_ids input)"
    "ms = sort_key tm_participant_id (map (\<lambda>s. \<lparr>tm_participant_id = s_participant_id s, tm_identity = s_identity s\<rparr>)
        (filter (\<lambda>s. s_participant_id s \<in> set (st_participant_ids input)) (active_seats room)))"
    "length (filter (\<lambda>s. s_participant_id s \<in> set (st_participant_ids input)) (active_seats room))
       = length (st_participant_ids input)"
proof -
  obtain creator where "List.find (\<lambda>s. s_identity s = cid) (active_seats room) = Some creator"
    using assms by (auto simp: selectThreadMembers_def Let_def split: option.splits)
  with that [of creator] assms find_SomeD [of "\<lambda>s. s_identity s = cid" "active_seats room" creator]
  show thesis by (simp add: selectThreadMembers_def Let_def split: if_splits)
qed

text \<open>The members chosen for a new thread are exactly the requested participants, each active,
  each once, in participant id order, and the creator is one of them.\<close>

theorem selected_members:
  assumes room: "room_seats_ok room" and sel: "selectThreadMembers room cid input = Inr ms"
  shows "set (map tm_participant_id ms) = set (st_participant_ids input)
    \<and> distinct (map tm_participant_id ms) \<and> distinct (map tm_identity ms)
    \<and> sorted (map tm_participant_id ms) \<and> cid \<in> set (map tm_identity ms)
    \<and> (\<forall>m\<in>set ms. \<exists>s\<in>set (active_seats room). s_participant_id s = tm_participant_id m \<and> s_identity s = tm_identity m)"
proof -
  let ?sel = "filter (\<lambda>s. s_participant_id s \<in> set (st_participant_ids input)) (active_seats room)"
  let ?mem = "map (\<lambda>s. \<lparr>tm_participant_id = s_participant_id s, tm_identity = s_identity s\<rparr>) ?sel"
  obtain creator where c: "creator \<in> set (active_seats room)" "s_identity creator = cid"
      "s_participant_id creator \<in> set (st_participant_ids input)"
    and d: "distinct (st_participant_ids input)" and ms: "ms = sort_key tm_participant_id ?mem"
    and len: "length ?sel = length (st_participant_ids input)"
    using sel by (rule selectThreadMembersD)
  have m: "map tm_participant_id ?mem = map s_participant_id ?sel" "map tm_identity ?mem = map s_identity ?sel"
    by simp_all
  have dp: "distinct (map s_participant_id ?sel)" "distinct (map s_identity ?sel)"
    using room_active_distinct [OF room] by (blast intro: distinct_map_filter)+
  have "set (map s_participant_id ?sel) = set (st_participant_ids input)"
  proof (rule card_subset_eq)
    show "card (set (map s_participant_id ?sel)) = card (set (st_participant_ids input))"
      using len distinct_card [OF d] distinct_card [OF dp(1)] by (simp only: length_map)
  qed auto
  then have "set (map tm_participant_id ms) = set (st_participant_ids input)"
    unfolding ms set_map_sort_key m .
  moreover have "distinct (map tm_participant_id ms)" "distinct (map tm_identity ms)"
    unfolding ms distinct_map_sort_key m by (rule dp)+
  moreover have "sorted (map tm_participant_id ms)" unfolding ms by (rule sorted_sort_key)
  moreover have "cid \<in> set (map tm_identity ms)"
    unfolding ms set_map_sort_key m using c by (simp add: image_iff) blast
  moreover have "\<forall>m\<in>set ms. \<exists>s\<in>set (active_seats room).
      s_participant_id s = tm_participant_id m \<and> s_identity s = tm_identity m"
    unfolding ms set_sort by auto
  ultimately show ?thesis by blast
qed

text \<open>The fingerprint of a thread request does not depend on the order of its participants.\<close>

theorem fingerprint_order_free:
  assumes "mset ps = mset qs"
  shows "threadFingerprint sha (i\<lparr>st_participant_ids := ps\<rparr>) = threadFingerprint sha (i\<lparr>st_participant_ids := qs\<rparr>)"
proof -
  have "sort ps = sort qs" by (rule properties_for_sort) (simp_all add: assms)
  then show ?thesis by (simp add: threadFingerprint_def)
qed

end
