(* ===== verification/World.thy ===== *)
theory World
  imports Threads
begin

section \<open>The state behind one room and its effects\<close>

text \<open>
  One room as \<open>RoomService\<close> and \<open>IntakePump\<close> see it: the stored metadata, the archive, and the
  hosted packet's cached view of the identity (its contacts, invites and whether contacts carry
  invite provenance). The clock, fresh ULIDs and every answer of the SDK are oracle functions of
  an \<open>env\<close>, read at a counter \<open>v_tick\<close> that every call advances, so nothing is assumed about
  them. A method body that runs under the room mutex is one effect \<open>'a svc\<close>; what it has
  written before an exception stays written. The store operations are those of
  \<open>src/storage.ts\<close>, the packet operations those of \<open>SdkRoomPacket\<close> in \<open>src/packets.ts\<close>.
\<close>

record contact =
  k_container_id :: string
  k_name :: string
  k_via_invite_id :: "string option"

record core_invite =
  ci_invite_id :: string
  ci_mode :: invite_mode

text \<open>An unread message or file of the identity, oldest first in \<open>v_inbox\<close> and \<open>v_files\<close>.\<close>

record inbox_item =
  in_msg_id :: int
  in_sender_id :: string
  in_sender_name :: string
  in_text :: string
  in_date :: string
  in_wire_id :: string
  in_reply_to :: "reply_target option"

record file_inbox_item =
  fi_file_id :: int
  fi_sender_id :: string
  fi_sender_name :: string
  fi_filename :: string
  fi_mime :: string
  fi_data :: string
  fi_date :: string
  fi_wire_id :: string
  fi_reply_to :: "reply_target option"

text \<open>What was handed to the SDK for sending.\<close>

datatype payload = Body string | Attachment string string string

record sent =
  x_recipient :: string
  x_payload :: payload
  x_reply_to :: "string option"

record world =
  v_room :: "room option"
  v_archive :: archive
  v_hosted :: bool
  v_cid :: string
  v_contacts :: "contact list"
  v_core_invites :: "core_invite list"
  v_provenance :: bool
  v_published :: "int option"
  v_inbox :: "inbox_item list"
  v_files :: "file_inbox_item list"
  v_sent :: "sent list"
  v_tick :: nat

record env =
  e_nfc :: "string \<Rightarrow> string"
  e_sha :: "string \<Rightarrow> string"
  e_datetime_ok :: "string \<Rightarrow> bool"
  e_now :: "nat \<Rightarrow> string"
  e_ulid :: "nat \<Rightarrow> string"
  e_list_contacts :: "nat \<Rightarrow> err + (string \<times> string) list \<times> (string \<times> string) list option"
  e_list_invites :: "nat \<Rightarrow> err + (string \<times> invite_mode option) list"
  e_choose_identity :: "nat \<Rightarrow> err + string"
  e_generate_invite :: "nat \<Rightarrow> invite_mode \<Rightarrow> err + (string \<times> string)"
  e_add_contact :: "nat \<Rightarrow> string \<Rightarrow> err + (string \<times> string)"
  e_revoke_invite :: "nat \<Rightarrow> string \<Rightarrow> err + bool"
  e_remove_contact :: "nat \<Rightarrow> string \<Rightarrow> err + bool"
  e_send :: "nat \<Rightarrow> string \<Rightarrow> string \<Rightarrow> string option \<Rightarrow> err + (relay_status \<times> string option)"
  e_send_file :: "nat \<Rightarrow> string \<Rightarrow> string \<Rightarrow> string \<Rightarrow> string \<Rightarrow> string option \<Rightarrow> err + (relay_status \<times> string option)"
  e_register :: "nat \<Rightarrow> err + unit"
  e_local_definitions :: "nat \<Rightarrow> err + consumer_definition list"
  e_validate_definition :: "consumer_definition \<Rightarrow> bool"
  e_collate :: "string \<Rightarrow> string"
  e_list_messages :: "nat \<Rightarrow> err + unit"
  e_list_files :: "nat \<Rightarrow> err + unit"
  e_get_message :: "nat \<Rightarrow> err + unit"
  e_get_file :: "nat \<Rightarrow> err + unit"
  e_destroy :: "nat \<Rightarrow> err + unit"
  e_identity_names :: "nat \<Rightarrow> err + string list"
  e_create :: "nat \<Rightarrow> string \<Rightarrow> err + string"
  e_restore :: "nat \<Rightarrow> string \<Rightarrow> string \<Rightarrow> err + string"

type_synonym 'a svc = "(world, err, 'a) eff"

subsection \<open>Clock and identifiers\<close>

definition tick :: "(nat \<Rightarrow> 'a) \<Rightarrow> 'a svc" where
  "tick f w = (Inr (f (v_tick w)), w\<lparr>v_tick := Suc (v_tick w)\<rparr>)"

definition call :: "(nat \<Rightarrow> err + 'a) \<Rightarrow> 'a svc" where
  "call f w = (f (v_tick w), w\<lparr>v_tick := Suc (v_tick w)\<rparr>)"

definition now :: "env \<Rightarrow> string svc" where
  "now env = call (\<lambda>t. if e_datetime_ok env (e_now env t) then Inr (e_now env t) else Inl Zod_error)"

definition fresh_ulid :: "env \<Rightarrow> string svc" where
  "fresh_ulid env = call (\<lambda>t. if ulid_ok (e_ulid env t) then Inr (e_ulid env t) else Inl Zod_error)"

subsection \<open>The store\<close>

text \<open>An operation of the store runs under the room's mutex, nested in the section that calls it. When it fails
  there, the mutex refuses the section in the end with that failure, even if the section caught it
  (\<open>withRoomMutex\<close> of \<open>storage.ts\<close>; the theory \<open>Mutex\<close> has its steps). An input the store rejects before it
  takes the mutex does not count. \<open>absorb\<close> is a \<open>catch\<close> at the end of a section.\<close>

fun nested_failure :: "err \<Rightarrow> bool" where
  "nested_failure (Storage_error m) \<longleftrightarrow> m \<noteq> ''invalid room_id'' \<and> m \<noteq> ''record room_id does not match''"
| "nested_failure _ = False"

definition absorb :: "'a svc \<Rightarrow> (err \<Rightarrow> 'a svc) \<Rightarrow> 'a svc" where
  "absorb m h = catch m (\<lambda>e. if nested_failure e then raise e else h e)"

lemma keeps_absorb [keeps_intro]: "keeps I m \<Longrightarrow> (\<And>e. keeps I (h e)) \<Longrightarrow> keeps I (absorb m h)"
  unfolding absorb_def by (intro keeps_catch keeps_if keeps_raise)

text \<open>\<open>load\<close> parses the stored metadata, and writes it back when the parse changed its name.\<close>

definition load :: "env \<Rightarrow> room svc" where
  "load env w =
     (case v_room w of
        None \<Rightarrow> (Inl (Storage_error ''room directory does not exist''), w)
      | Some r \<Rightarrow>
          (case RoomSchema_parse (e_nfc env) r of
             Inl e \<Rightarrow> (Inl e, w)
           | Inr room \<Rightarrow>
               (Inr room, if r_room_name room \<noteq> r_room_name r then w\<lparr>v_room := Some room\<rparr> else w)))"

definition store_save :: "env \<Rightarrow> room \<Rightarrow> room svc" where
  "store_save env input w =
     (case RoomSchema_parse (e_nfc env) input of
        Inl e \<Rightarrow> (Inl e, w)
      | Inr room \<Rightarrow>
          (if v_room w = None then (Inl (Storage_error ''room directory does not exist''), w)
           else (Inr room, w\<lparr>v_room := Some room\<rparr>)))"

text \<open>\<open>this.store.save(RoomSchema.parse(...))\<close>, the way the service writes.\<close>

definition save :: "env \<Rightarrow> room \<Rightarrow> room svc" where
  "save env room = bnd (lift_sum (RoomSchema_parse (e_nfc env) room)) (store_save env)"

definition append :: "env \<Rightarrow> string \<Rightarrow> draft \<Rightarrow> row svc" where
  "append env rid d w =
     (if v_room w = None then (Inl (Storage_error ''room directory does not exist''), w) else
      case archive_append (e_sha env) rid d (v_archive w) of (r, ar) \<Rightarrow> (r, w\<lparr>v_archive := ar\<rparr>))"

definition query :: "query_options \<Rightarrow> row list svc" where
  "query q w =
     (if v_room w = None then (Inl (Storage_error ''room directory does not exist''), w)
      else (Inr (query_rows (v_archive w) q), w))"

subsection \<open>The packet\<close>

text \<open>\<open>refreshContactsUnlocked\<close> replaces the cached contacts, \<open>refreshUnlocked\<close> the invites as well.
  A listing without an origin table does not carry invite provenance.\<close>

definition with_origin :: "(string \<times> string) list option \<Rightarrow> string \<times> string \<Rightarrow> contact" where
  "with_origin origins c =
     \<lparr>k_container_id = fst c, k_name = snd c,
      k_via_invite_id = (case origins of None \<Rightarrow> None | Some table \<Rightarrow> map_of table (fst c))\<rparr>"

definition refreshContactsUnlocked :: "env \<Rightarrow> unit svc" where
  "refreshContactsUnlocked env =
     bnd (call (e_list_contacts env)) (\<lambda>(listed, origins).
       modify (\<lambda>w. w\<lparr>v_provenance := origins \<noteq> None, v_contacts := map (with_origin origins) listed\<rparr>))"

definition known_mode :: "string \<times> invite_mode option \<Rightarrow> core_invite option" where
  "known_mode c = map_option (\<lambda>m. \<lparr>ci_invite_id = fst c, ci_mode = m\<rparr>) (snd c)"

definition refreshUnlocked :: "env \<Rightarrow> unit svc" where
  "refreshUnlocked env =
     andthen (refreshContactsUnlocked env)
       (bnd (call (e_list_invites env)) (\<lambda>listed.
          modify (\<lambda>w. w\<lparr>v_core_invites := List.map_filter known_mode listed\<rparr>)))"

text \<open>A lost binding is taken again in at most three attempts; only transport errors are retried.\<close>

definition isTransientTransportError :: "err \<Rightarrow> bool" where
  "isTransientTransportError e \<longleftrightarrow>
     (case e of
        Sdk_error code \<Rightarrow>
          List.member [''ECONNRESET'', ''ECONNREFUSED'', ''EPIPE'', ''ETIMEDOUT'', ''UND_ERR_CONNECT_TIMEOUT''] code
      | _ \<Rightarrow> False)"

definition rebind_once :: "env \<Rightarrow> unit svc" where
  "rebind_once env =
     bnd (call (e_choose_identity env)) (\<lambda>cid.
     bnd (gets v_cid) (\<lambda>mine. if cid \<noteq> mine then raise Cid_mismatch else refreshUnlocked env))"

fun rebind_attempts :: "env \<Rightarrow> nat \<Rightarrow> unit svc" where
  "rebind_attempts env 0 = rebind_once env"
| "rebind_attempts env (Suc n) =
     catch (rebind_once env)
       (\<lambda>e. if isTransientTransportError e then rebind_attempts env n else raise e)"

definition rebind :: "env \<Rightarrow> unit svc" where
  "rebind env = rebind_attempts env 2"

definition runBound :: "env \<Rightarrow> 'a svc \<Rightarrow> 'a svc" where
  "runBound env operation =
     catch operation
       (\<lambda>e. if e = Sdk_error ''NOT_BOUND'' \<or> e = Sdk_error ''BINDING_REASSIGNED''
            then andthen (rebind env) operation else raise e)"

definition refreshContacts :: "env \<Rightarrow> unit svc" where
  "refreshContacts env = runBound env (refreshContactsUnlocked env)"

definition refresh :: "env \<Rightarrow> unit svc" where
  "refresh env = runBound env (refreshUnlocked env)"

definition sdk :: "env \<Rightarrow> (nat \<Rightarrow> err + 'a) \<Rightarrow> 'a svc" where
  "sdk env f = runBound env (call f)"

record minted =
  mt_blob :: string
  mt_invite_id :: string
  mt_reusable :: bool

definition packet_mintInvite :: "env \<Rightarrow> invite_mode \<Rightarrow> minted svc" where
  "packet_mintInvite env mode =
     bnd (sdk env (\<lambda>t. e_generate_invite env t mode)) (\<lambda>(blob, ident).
       andthen (refresh env) (ret \<lparr>mt_blob = blob, mt_invite_id = ident, mt_reusable = (mode = Public)\<rparr>))"

definition packet_revokeInvite :: "env \<Rightarrow> string \<Rightarrow> bool svc" where
  "packet_revokeInvite env ident =
     bnd (sdk env (\<lambda>t. e_revoke_invite env t ident)) (\<lambda>revoked. andthen (refresh env) (ret revoked))"

record added_contact =
  ac_container_id :: string
  ac_inviter_name :: string

definition packet_addContact :: "env \<Rightarrow> string \<Rightarrow> added_contact svc" where
  "packet_addContact env blob =
     bnd (sdk env (\<lambda>t. e_add_contact env t blob)) (\<lambda>(cid, display).
       andthen (refresh env) (ret \<lparr>ac_container_id = cid, ac_inviter_name = display\<rparr>))"

text \<open>The cache drops exactly the removed contact; a failure leaves it.\<close>

definition packet_removeContact :: "env \<Rightarrow> string \<Rightarrow> (relay_status \<times> bool) svc" where
  "packet_removeContact env cid =
     bnd (sdk env (\<lambda>t. e_remove_contact env t cid)) (\<lambda>notified.
       andthen (modify (\<lambda>w. w\<lparr>v_contacts := filter (\<lambda>k. k_container_id k \<noteq> cid) (v_contacts w)\<rparr>))
         (ret (if notified then Queued else Send_failed, notified)))"

definition sent_to :: "string \<Rightarrow> payload \<Rightarrow> string option \<Rightarrow> unit svc" where
  "sent_to cid payload reply_to =
     modify (\<lambda>w. w\<lparr>v_sent := v_sent w @ [\<lparr>x_recipient = cid, x_payload = payload, x_reply_to = reply_to\<rparr>]\<rparr>)"

definition packet_send ::
  "env \<Rightarrow> string \<Rightarrow> string \<Rightarrow> string option \<Rightarrow> (relay_status \<times> string option) svc" where
  "packet_send env cid body reply_to =
     runBound env (andthen (sent_to cid (Body body) reply_to) (call (\<lambda>t. e_send env t cid body reply_to)))"

text \<open>\<open>sendFile\<close> validates before it sends.\<close>

definition packet_sendFile ::
  "env \<Rightarrow> string \<Rightarrow> string \<Rightarrow> string \<Rightarrow> string \<Rightarrow> string option \<Rightarrow> (relay_status \<times> string option) svc" where
  "packet_sendFile env cid filename mime bytes reply_to =
     (if \<not> file_name_ok filename \<or> \<not> file_mime_ok mime then raise Zod_error
      else if int (length bytes) > max_file_bytes then raise Range_error
      else
        runBound env (andthen (sent_to cid (Attachment filename mime bytes) reply_to)
          (call (\<lambda>t. e_send_file env t cid filename mime bytes reply_to))))"

definition hosted :: "unit svc" where
  "hosted = bnd (gets v_hosted) (\<lambda>h. require h (Service_error ''room packet is not hosted''))"

definition contact_cids :: "world \<Rightarrow> string list" where
  "contact_cids w = uniq (map k_container_id (v_contacts w))"

subsection \<open>The invariant\<close>

text \<open>The stored metadata is a fixed point of its schema, it is this room's, and the archive is well
  formed.\<close>

definition world_ok :: "env \<Rightarrow> string \<Rightarrow> world \<Rightarrow> bool" where
  "world_ok env rid w \<longleftrightarrow>
     archive_ok (e_sha env) rid (v_archive w)
     \<and> opt_ok (\<lambda>r. r_room_id r = rid \<and> RoomSchema_parse (e_nfc env) r = Inr r) (v_room w)"

lemma world_okD:
  "world_ok env rid w \<Longrightarrow> v_room w = Some r \<Longrightarrow>
    r_room_id r = rid \<and> RoomSchema_parse (e_nfc env) r = Inr r \<and> room_checks (e_nfc env) r"
  by (auto simp: world_ok_def dest: RoomSchema_parseD)

lemma load_ok: "world_ok env rid w \<Longrightarrow> load env w = (Inr r, w') \<Longrightarrow> w' = w \<and> v_room w = Some r \<and> r_room_id r = rid"
  by (auto simp: load_def world_ok_def split: option.splits sum.splits)

lemma load_error: "world_ok env rid w \<Longrightarrow> load env w = (Inl e, w') \<Longrightarrow> w' = w \<and> v_room w = None"
  by (auto simp: load_def world_ok_def split: option.splits sum.splits)

lemma keeps_tick [keeps_intro]: "keeps (world_ok env rid) (tick f)"
  and keeps_call [keeps_intro]: "keeps (world_ok env rid) (call g)"
  by (auto simp: keeps_def tick_def call_def world_ok_def)

lemma keeps_now [keeps_intro]: "keeps (world_ok env rid) (now env')"
  and keeps_fresh_ulid [keeps_intro]: "keeps (world_ok env rid) (fresh_ulid env')"
  unfolding now_def fresh_ulid_def by (rule keeps_call)+

lemma keeps_load [keeps_intro]: "keeps (world_ok env rid) (load env)"
  by (rule keepsI) (metis load_error load_ok sum.exhaust)

lemma keeps_store_save:
  assumes nfc: "nfc_laws (e_nfc env)" and id: "r_room_id room = rid"
  shows "keeps (world_ok env rid) (store_save env room)"
proof (rule keepsI)
  fix w r t
  assume w: "world_ok env rid w" and s: "store_save env room w = (r, t)"
  show "world_ok env rid t"
  proof (cases "RoomSchema_parse (e_nfc env) room")
    case (Inl e)
    then show ?thesis using w s by (simp add: store_save_def)
  next
    case (Inr p)
    then show ?thesis
      using w s id RoomSchema_parse_fixed [OF nfc Inr] RoomSchema_parse_id [OF Inr]
      by (auto simp: store_save_def world_ok_def split: if_splits)
  qed
qed

lemma keeps_save:
  assumes "nfc_laws (e_nfc env)" and "r_room_id room = rid"
  shows "keeps (world_ok env rid) (save env room)"
  unfolding save_def
proof (rule keepsI)
  fix w r t
  assume w: "world_ok env rid w" and s: "bnd (lift_sum (RoomSchema_parse (e_nfc env) room)) (store_save env) w = (r, t)"
  show "world_ok env rid t"
  proof (cases "RoomSchema_parse (e_nfc env) room")
    case (Inl e)
    then show ?thesis using w s by (simp add: eff_simps)
  next
    case (Inr p)
    then have "store_save env p w = (r, t)" using s by (auto simp: eff_simps)
    with keeps_store_save [OF assms(1)] RoomSchema_parse_id [OF Inr] assms(2) w show ?thesis
      by (metis keepsD)
  qed
qed

lemma keeps_append [keeps_intro]: "keeps (world_ok env rid) (append env rid d)"
  by (rule keepsI) (auto simp: append_def world_ok_def split: prod.splits if_splits dest: archive_append_ok)

lemma keeps_query [keeps_intro]: "keeps (world_ok env rid) (query q)"
  by (simp add: keeps_def query_def)

lemma keeps_modify: "(\<And>w. v_room (f w) = v_room w) \<Longrightarrow> (\<And>w. v_archive (f w) = v_archive w) \<Longrightarrow>
    keeps (world_ok env rid) (modify f)"
  by (simp add: keeps_def eff_simps world_ok_def)

lemma keeps_refreshContactsUnlocked: "keeps (world_ok env rid) (refreshContactsUnlocked env')"
  unfolding refreshContactsUnlocked_def by (intro keeps_intro keeps_modify) simp_all

lemma keeps_refreshUnlocked: "keeps (world_ok env rid) (refreshUnlocked env')"
  unfolding refreshUnlocked_def by (intro keeps_intro keeps_refreshContactsUnlocked keeps_modify) simp_all

lemma keeps_rebind_once: "keeps (world_ok env rid) (rebind_once env')"
  unfolding rebind_once_def by (intro keeps_intro keeps_refreshUnlocked)

lemma keeps_rebind_attempts: "keeps (world_ok env rid) (rebind_attempts env' n)"
  by (induction n) (simp_all add: keeps_rebind_once keeps_catch keeps_if keeps_raise)

lemma keeps_runBound: "keeps (world_ok env rid) m \<Longrightarrow> keeps (world_ok env rid) (runBound env' m)"
  unfolding runBound_def rebind_def by (intro keeps_intro keeps_rebind_attempts)

lemma keeps_sdk: "keeps (world_ok env rid) (sdk env' f)"
  unfolding sdk_def by (intro keeps_runBound keeps_call)

lemma keeps_packet [keeps_intro]:
  "keeps (world_ok env rid) (refreshContacts env')"
  "keeps (world_ok env rid) (refresh env')"
  "keeps (world_ok env rid) (packet_mintInvite env' mode)"
  "keeps (world_ok env rid) (packet_revokeInvite env' ident)"
  "keeps (world_ok env rid) (packet_addContact env' blob)"
  "keeps (world_ok env rid) (packet_removeContact env' cid)"
  "keeps (world_ok env rid) (packet_send env' cid body reply_to)"
  "keeps (world_ok env rid) hosted"
  "keeps (world_ok env rid) (packet_sendFile env' cid fname mime bytes reply_to)"
proof -
  show r1: "keeps (world_ok env rid) (refreshContacts env')" for env'
    unfolding refreshContacts_def by (intro keeps_runBound keeps_refreshContactsUnlocked)
  show r2: "keeps (world_ok env rid) (refresh env')" for env'
    unfolding refresh_def by (intro keeps_runBound keeps_refreshUnlocked)
  show "keeps (world_ok env rid) (packet_mintInvite env' mode)"
    "keeps (world_ok env rid) (packet_revokeInvite env' ident)"
    "keeps (world_ok env rid) (packet_addContact env' blob)"
    "keeps (world_ok env rid) (packet_removeContact env' cid)"
    "keeps (world_ok env rid) (packet_send env' cid body reply_to)"
    "keeps (world_ok env rid) hosted"
    "keeps (world_ok env rid) (packet_sendFile env' cid fname mime bytes reply_to)"
    unfolding packet_mintInvite_def packet_revokeInvite_def packet_addContact_def packet_removeContact_def
      packet_send_def hosted_def packet_sendFile_def sent_to_def
    by (intro keeps_intro keeps_sdk keeps_runBound keeps_modify r2; simp)+
qed

subsection \<open>How the metadata may evolve\<close>

instantiation room_state :: linorder
begin

fun room_state_rank :: "room_state \<Rightarrow> nat" where
  "room_state_rank Provisioning = 0"
| "room_state_rank Room_active = 1"
| "room_state_rank Closing = 2"
| "room_state_rank Closed = 3"

definition less_eq_room_state :: "room_state \<Rightarrow> room_state \<Rightarrow> bool" where
  "less_eq_room_state a b \<longleftrightarrow> room_state_rank a \<le> room_state_rank b"

definition less_room_state :: "room_state \<Rightarrow> room_state \<Rightarrow> bool" where
  "less_room_state a b \<longleftrightarrow> room_state_rank a < room_state_rank b"

lemma room_state_rank_inject: "room_state_rank a = room_state_rank b \<Longrightarrow> a = b"
  by (cases a; cases b) auto

instance
  by intro_classes (auto simp: less_eq_room_state_def less_room_state_def intro: room_state_rank_inject)

end

fun seat_rank :: "seat_state \<Rightarrow> nat" where
  "seat_rank Seat_pending = 0"
| "seat_rank Seat_active = 1"
| "seat_rank Seat_removed = 2"

definition seat_step :: "seat \<Rightarrow> seat \<Rightarrow> bool" where
  "seat_step s s' \<longleftrightarrow>
     s_participant_id s' = s_participant_id s \<and> s_identity s' = s_identity s \<and> s_role s' = s_role s
     \<and> s_invite_id s' = s_invite_id s \<and> s_alias s' = s_alias s
     \<and> seat_rank (s_state s) \<le> seat_rank (s_state s')
     \<and> (s_state s = Seat_removed \<longrightarrow>
          s_removed_at s' = s_removed_at s \<and> s_removed_epoch s' = s_removed_epoch s)"

text \<open>A room only moves forward: its lifecycle and its membership epoch never decrease, an established
  identity is never replaced, and no seat is dropped, reassigned or revived.\<close>

definition evolves :: "room \<Rightarrow> room \<Rightarrow> bool" where
  "evolves r r' \<longleftrightarrow>
     r_room_id r' = r_room_id r \<and> r_anonymous r' = r_anonymous r \<and> r_created_at r' = r_created_at r
     \<and> (r_identity_cid r \<noteq> [] \<longrightarrow> r_identity_cid r' = r_identity_cid r)
     \<and> r_state r \<le> r_state r' \<and> r_membership_epoch r \<le> r_membership_epoch r'
     \<and> (\<forall>s\<in>set (r_seats r). \<exists>s'\<in>set (r_seats r'). seat_step s s')"

lemma seat_step_refl [simp, intro]: "seat_step s s"
  by (simp add: seat_step_def)

lemma seat_rank_max: "seat_rank Seat_removed \<le> seat_rank x \<Longrightarrow> x = Seat_removed"
  by (cases x) auto

lemma seat_step_trans: "seat_step s t \<Longrightarrow> seat_step t u \<Longrightarrow> seat_step s u"
  unfolding seat_step_def by (metis order_trans seat_rank_max)

lemma evolves_refl [simp, intro]: "evolves r r"
  by (auto simp: evolves_def)

lemma evolves_id: "evolves r r' \<Longrightarrow> r_room_id r' = r_room_id r"
  by (simp add: evolves_def)

lemma evolves_trans: "evolves a b \<Longrightarrow> evolves b c \<Longrightarrow> evolves a c"
  unfolding evolves_def by (smt (verit, ccfv_threshold) order_trans seat_step_trans)

lemma evolves_parse: "RoomSchema_parse nfc r = Inr r' \<Longrightarrow> evolves r r'"
  by (auto simp: RoomSchema_parse_def room_transform_def evolves_def split: option.splits if_splits)

text \<open>The history of a room since some point: what its metadata was then, and what its archive held.\<close>

type_synonym past = "room \<times> row list"

definition room_inv :: "env \<Rightarrow> string \<Rightarrow> past \<Rightarrow> world \<Rightarrow> bool" where
  "room_inv env rid r0 w \<longleftrightarrow> world_ok env rid w \<and> opt_ok (evolves (fst r0)) (v_room w)
     \<and> (v_room w \<noteq> None \<longrightarrow> (\<exists>new. a_rows (v_archive w) = snd r0 @ new))"

text \<open>A room value a method holds: valid, this room's, and a later version of the entry metadata.\<close>

definition held :: "env \<Rightarrow> string \<Rightarrow> past \<Rightarrow> room \<Rightarrow> bool" where
  "held env rid r0 r \<longleftrightarrow> r_room_id r = rid \<and> evolves (fst r0) r \<and> room_checks (e_nfc env) r"

lemma held_id: "held env rid r0 r \<Longrightarrow> r_room_id r = rid"
  by (simp add: held_def)

lemma held_parse:
  assumes "held env rid r0 r" and "evolves r room" and "RoomSchema_parse (e_nfc env) room = Inr p"
  shows "held env rid r0 p"
  using assms evolves_trans evolves_parse RoomSchema_parseD RoomSchema_parse_id
  unfolding held_def by (metis evolves_def)

lemma room_inv_start:
  "world_ok env rid w \<Longrightarrow> v_room w = Some r0 \<Longrightarrow> room_inv env rid (r0, a_rows (v_archive w)) w"
  by (simp add: room_inv_def)

lemma room_inv_exists: "world_ok env rid w \<Longrightarrow> \<exists>r0. room_inv env rid r0 w"
  by (cases "v_room w") (auto simp: room_inv_def)

text \<open>What every effect but the writing of metadata does: the metadata stays, the archive may grow.\<close>

definition only_logs :: "world \<Rightarrow> world \<Rightarrow> bool" where
  "only_logs w w' \<longleftrightarrow> v_room w' = v_room w \<and> (\<exists>new. a_rows (v_archive w') = a_rows (v_archive w) @ new)"

interpretation logs: state_order only_logs
  by unfold_locales (auto simp: only_logs_def)

lemma logs_same_room: "moves only_logs m \<Longrightarrow> moves (\<lambda>w w'. v_room w' = v_room w) m"
  by (simp add: moves_def only_logs_def)

lemma archive_append_rows: "archive_append sha rid d ar = (r, ar') \<Longrightarrow> \<exists>new. a_rows ar' = a_rows ar @ new"
  by (cases r) (auto dest: archive_append_error elim: archive_appendD)

lemma keeps_inv_neutral:
  assumes "keeps (world_ok env rid) m" and "moves only_logs m"
  shows "keeps (room_inv env rid r0) m"
  by (rule keepsI)
    (use keepsD [OF assms(1)] movesD [OF assms(2)] in \<open>fastforce simp: room_inv_def only_logs_def\<close>)

lemma logs_base [moves_intro]:
  "moves only_logs (tick f)"
  "moves only_logs (call g)"
  "moves only_logs (append env rid d)"
  "moves only_logs (query q)"
  by (auto simp: moves_def tick_def call_def append_def query_def only_logs_def split: prod.splits dest: archive_append_rows)

lemma logs_modify:
  "(\<And>w. v_room (f w) = v_room w) \<Longrightarrow> (\<And>w. v_archive (f w) = v_archive w) \<Longrightarrow> moves only_logs (modify f)"
  by (simp add: moves_def eff_simps only_logs_def)

lemmas logs_rules = logs.rules logs_base logs_modify

lemma logs_rebind: "moves only_logs (rebind_attempts env n)"
proof -
  have "moves only_logs (rebind_once env)"
    unfolding rebind_once_def refreshUnlocked_def refreshContactsUnlocked_def by (intro logs_rules; simp)+
  then show ?thesis by (induction n) (simp_all, intro logs_rules)
qed

lemma logs_runBound:
  "moves only_logs m \<Longrightarrow> moves only_logs (runBound env m)"
  unfolding runBound_def rebind_def by (intro logs_rules logs_rebind)

lemma logs_packet:
  "moves only_logs (refreshContacts env)"
  "moves only_logs (refresh env)"
  "moves only_logs (packet_mintInvite env mode)"
  "moves only_logs (packet_revokeInvite env ident)"
  "moves only_logs (packet_addContact env blob)"
  "moves only_logs (packet_removeContact env cid)"
  "moves only_logs (packet_send env cid body reply_to)"
  "moves only_logs hosted"
  "moves only_logs (now env)"
  "moves only_logs (fresh_ulid env)"
  "moves only_logs (packet_sendFile env cid fname mime bytes reply_to)"
proof -
  show r1: "moves only_logs (refreshContacts env)" for env
    unfolding refreshContacts_def refreshContactsUnlocked_def by (intro logs_rules logs_runBound; simp)
  show r2: "moves only_logs (refresh env)" for env
    unfolding refresh_def refreshUnlocked_def refreshContactsUnlocked_def
    by (intro logs_rules logs_runBound; simp)
  show "moves only_logs (packet_mintInvite env mode)"
    "moves only_logs (packet_revokeInvite env ident)"
    "moves only_logs (packet_addContact env blob)"
    "moves only_logs (packet_removeContact env cid)"
    "moves only_logs (packet_send env cid body reply_to)"
    "moves only_logs hosted"
    "moves only_logs (now env)"
    "moves only_logs (fresh_ulid env)"
    "moves only_logs (packet_sendFile env cid fname mime bytes reply_to)"
    unfolding packet_mintInvite_def packet_revokeInvite_def packet_addContact_def packet_removeContact_def
      packet_send_def hosted_def now_def fresh_ulid_def packet_sendFile_def sdk_def sent_to_def
    by (intro logs_rules logs_runBound r2; simp)+
qed

interpretation same_room: state_order "\<lambda>w w'. v_room w' = v_room w"
  by unfold_locales simp_all

lemma same_room_modify: "(\<And>w. v_room (f w) = v_room w) \<Longrightarrow> moves (\<lambda>w w'. v_room w' = v_room w) (modify f)"
  by (simp add: moves_def eff_simps)

lemmas same_room_base [moves_intro] = logs_base [THEN logs_same_room]
lemmas same_room_packet = logs_packet [THEN logs_same_room]
lemmas same_room_rebind = logs_rebind [THEN logs_same_room]

lemma same_room_runBound:
  "moves (\<lambda>w w'. v_room w' = v_room w) m \<Longrightarrow> moves (\<lambda>w w'. v_room w' = v_room w) (runBound env m)"
  unfolding runBound_def rebind_def
  by (intro same_room.rules same_room_rebind)

lemmas same_room_rules = same_room.rules same_room_base same_room_modify

subsection \<open>The room invariant of the primitives\<close>

lemma inv_packet [keeps_intro]:
  "keeps (room_inv env rid r0) (refreshContacts env')"
  "keeps (room_inv env rid r0) (refresh env')"
  "keeps (room_inv env rid r0) (packet_mintInvite env' mode)"
  "keeps (room_inv env rid r0) (packet_revokeInvite env' ident)"
  "keeps (room_inv env rid r0) (packet_addContact env' blob)"
  "keeps (room_inv env rid r0) (packet_removeContact env' cid)"
  "keeps (room_inv env rid r0) (packet_send env' cid body reply_to)"
  "keeps (room_inv env rid r0) hosted"
  "keeps (room_inv env rid r0) (now env')"
  "keeps (room_inv env rid r0) (fresh_ulid env')"
  "keeps (room_inv env rid r0) (packet_sendFile env' cid fname mime bytes reply_to)"
  by (rule keeps_inv_neutral, rule keeps_packet keeps_now keeps_fresh_ulid, rule logs_packet)+

lemma inv_base [keeps_intro]:
  "keeps (room_inv env rid r0) (tick f)"
  "keeps (room_inv env rid r0) (call g)"
  "keeps (room_inv env rid r0) (query q)"
  by (simp_all add: keeps_def tick_def call_def query_def room_inv_def world_ok_def)

lemma inv_sdk [keeps_intro]: "keeps (room_inv env rid r0) (sdk env' f)"
  by (rule keeps_inv_neutral [OF keeps_sdk]) (unfold sdk_def, intro logs_runBound logs_base)

lemma inv_rebind [keeps_intro]: "keeps (room_inv env rid r0) (rebind env')"
  unfolding rebind_def by (rule keeps_inv_neutral [OF keeps_rebind_attempts logs_rebind])

lemma inv_modify:
  "(\<And>w. v_room (f w) = v_room w) \<Longrightarrow> (\<And>w. v_archive (f w) = v_archive w) \<Longrightarrow>
    keeps (room_inv env rid r0) (modify f)"
  by (simp add: keeps_def eff_simps room_inv_def world_ok_def)

lemma inv_append [keeps_intro]: "keeps (room_inv env rid r0) (append env rid d)"
  by (rule keeps_inv_neutral, rule keeps_append, rule logs_base)

lemma inv_load [keeps_intro]: "keeps (room_inv env rid r0) (load env)"
proof (rule keepsI)
  fix w r t
  assume w: "room_inv env rid r0 w" and l: "load env w = (r, t)"
  then have "world_ok env rid w" by (simp add: room_inv_def)
  then have "t = w" using l load_ok load_error by (cases r) blast+
  with w show "room_inv env rid r0 t" by simp
qed

lemma gives_load: "gives (room_inv env rid r0) (held env rid r0) (load env)"
proof (rule givesI)
  fix w r t
  assume w: "room_inv env rid r0 w" and "load env w = (Inr r, t)"
  then have r: "v_room w = Some r" "r_room_id r = rid" using load_ok unfolding room_inv_def by blast+
  with w world_okD [of env rid w r] show "held env rid r0 r" by (simp add: room_inv_def held_def)
qed

lemma gives_parse:
  "held env rid r0 r \<Longrightarrow> evolves r room \<Longrightarrow>
    gives I (held env rid r0) (lift_sum (RoomSchema_parse (e_nfc env) room))"
  by (rule givesI) (auto simp: eff_simps intro: held_parse)

lemma inv_store_save:
  assumes nfc: "nfc_laws (e_nfc env)" and h: "held env rid r0 r" and e: "evolves r room"
  shows "keeps (room_inv env rid r0) (store_save env room)"
    and "gives (room_inv env rid r0) (held env rid r0) (store_save env room)"
proof -
  have id: "r_room_id room = rid" using h e evolves_id held_id by metis
  have p: "held env rid r0 p" if "RoomSchema_parse (e_nfc env) room = Inr p" for p
    using held_parse [OF h e that] .
  show "keeps (room_inv env rid r0) (store_save env room)"
  proof (rule keepsI)
    fix w x t
    assume w: "room_inv env rid r0 w" and s: "store_save env room w = (x, t)"
    have "world_ok env rid t"
      using keepsD [OF keeps_store_save [OF nfc id]] w s unfolding room_inv_def by blast
    moreover have "opt_ok (evolves (fst r0)) (v_room t)"
    proof (cases "RoomSchema_parse (e_nfc env) room")
      case (Inl e)
      then show ?thesis using w s by (simp add: store_save_def room_inv_def)
    next
      case (Inr q)
      then have "evolves (fst r0) q" using p by (simp add: held_def)
      then show ?thesis using Inr w s by (auto simp: store_save_def room_inv_def split: if_splits)
    qed
    moreover have "v_archive t = v_archive w \<and> (v_room t \<noteq> None \<longrightarrow> v_room w \<noteq> None)"
      using s by (auto simp: store_save_def split: sum.splits if_splits)
    ultimately show "room_inv env rid r0 t" using w by (simp add: room_inv_def)
  qed
  show "gives (room_inv env rid r0) (held env rid r0) (store_save env room)"
    by (rule givesI) (use p in \<open>auto simp: store_save_def split: sum.splits if_splits\<close>)
qed

lemma inv_save:
  assumes nfc: "nfc_laws (e_nfc env)" and h: "held env rid r0 r" and e: "evolves r room"
  shows "keeps (room_inv env rid r0) (save env room)"
    and "gives (room_inv env rid r0) (held env rid r0) (save env room)"
proof -
  show "keeps (room_inv env rid r0) (save env room)"
    unfolding save_def by (rule keeps_bnd_gives [OF keeps_lift_sum gives_parse [OF h e]])
      (rule inv_store_save [OF nfc _ evolves_refl])
  show "gives (room_inv env rid r0) (held env rid r0) (save env room)"
    unfolding save_def by (rule gives_bnd [OF keeps_lift_sum gives_parse [OF h e]])
      (rule inv_store_save [OF nfc _ evolves_refl])
qed

text \<open>A method that loads the room and goes on with a held value.\<close>

lemma keeps_load_then [keeps_intro]:
  "(\<And>r. held env rid r0 r \<Longrightarrow> keeps (room_inv env rid r0) (f r)) \<Longrightarrow> keeps (room_inv env rid r0) (bnd (load env) f)"
  by (rule keeps_bnd_gives [OF inv_load gives_load])

lemma keeps_save_then:
  "nfc_laws (e_nfc env) \<Longrightarrow> held env rid r0 r \<Longrightarrow> evolves r room \<Longrightarrow>
    (\<And>p. held env rid r0 p \<Longrightarrow> keeps (room_inv env rid r0) (f p)) \<Longrightarrow> keeps (room_inv env rid r0) (bnd (save env room) f)"
  by (rule keeps_bnd_gives [OF inv_save(1) inv_save(2)])

lemmas keeps_steps =
  keeps_ret keeps_raise keeps_if keeps_let keeps_case_option keeps_case_prod keeps_andthen keeps_require
  keeps_load_then keeps_gets [THEN keeps_bnd] inv_packet(9) [THEN keeps_bnd] inv_packet(10) [THEN keeps_bnd]

subsection \<open>Common steps\<close>

lemma evolves_seats:
  assumes "\<And>s. s \<in> set (r_seats r) \<Longrightarrow> seat_step s (f s)"
    and "r_room_id r' = r_room_id r" "r_anonymous r' = r_anonymous r" "r_created_at r' = r_created_at r"
    "r_identity_cid r' = r_identity_cid r" "r_state r \<le> r_state r'" "r_membership_epoch r \<le> r_membership_epoch r'"
    and "set (map f (r_seats r)) \<subseteq> set (r_seats r')"
  shows "evolves r r'"
proof -
  have "\<exists>s'\<in>set (r_seats r'). seat_step s s'" if "s \<in> set (r_seats r)" for s
    using assms(1) [OF that] assms(8) that by (intro bexI [of _ "f s"]) auto
  then show ?thesis unfolding evolves_def using assms(2-7) by blast
qed

lemma evolves_same_seats:
  assumes "r_seats r' = r_seats r" "r_room_id r' = r_room_id r" "r_anonymous r' = r_anonymous r"
    "r_created_at r' = r_created_at r" "r_identity_cid r \<noteq> [] \<longrightarrow> r_identity_cid r' = r_identity_cid r"
    "r_state r \<le> r_state r'" "r_membership_epoch r \<le> r_membership_epoch r'"
  shows "evolves r r'"
  unfolding evolves_def assms(1) using assms(2-7) seat_step_refl by blast

lemma held_pid_unique:
  "held env rid r0 r \<Longrightarrow> s \<in> set (r_seats r) \<Longrightarrow> t \<in> set (r_seats r) \<Longrightarrow>
    s_participant_id s = s_participant_id t \<Longrightarrow> s = t"
  unfolding held_def room_checks_def room_seats_ok_def by (meson distinct_map inj_onD)

end
