(* ===== verification/Briefings.thy ===== *)
theory Briefings
  imports World
begin

section \<open>Room messages and briefings\<close>

text \<open>
  The appends of \<open>RoomService\<close> (\<open>src/service.ts\<close>) that speak with the room's own voice: a
  message and one relay intent per recipient (\<open>appendChatUnlocked\<close>, \<open>ensureMembershipNotice\<close>,
  \<open>appendBriefingForMissing\<close>), and the briefing ledger on top of them. \<open>role_briefings\<close> is a
  JavaScript object indexed by a caller's string, so a lookup also finds the members every object
  inherits.
\<close>

subsection \<open>Messages of the room\<close>

definition uniqueIdentities :: "string list \<Rightarrow> string list" where
  "uniqueIdentities ids = uniq ids"

definition active_identities :: "room \<Rightarrow> string list" where
  "active_identities room = uniqueIdentities (map s_identity (active_seats room))"

definition append_at :: "env \<Rightarrow> string \<Rightarrow> body \<Rightarrow> row svc" where
  "append_at env rid b = bnd (now env) (\<lambda>at. append env rid \<lparr>d_room_id = rid, d_at = at, d_body = b\<rparr>)"

definition message_intent :: "string \<Rightarrow> string \<Rightarrow> body" where
  "message_intent ident cid = Relay_intent \<lparr>ri_message_id = Some ident, ri_file_id = None, ri_recipient = cid\<rparr>"

text \<open>\<open>m\<close> lacks only its id: the clock is read first, then the id is minted; one intent per recipient
  follows.\<close>

definition append_fanout :: "env \<Rightarrow> string \<Rightarrow> message \<Rightarrow> row svc" where
  "append_fanout env rid m =
     bnd (now env) (\<lambda>at.
     bnd (fresh_ulid env) (\<lambda>ident.
     bnd (append env rid \<lparr>d_room_id = rid, d_at = at, d_body = Message (m\<lparr>m_message_id := ident\<rparr>)\<rparr>) (\<lambda>w.
     andthen (for_each (recipients_of (w_body w)) (\<lambda>cid.
         bnd (append_at env rid (message_intent ident cid)) (\<lambda>_. ret ())))
       (ret w))))"

definition room_author :: "room \<Rightarrow> author" where
  "room_author room = \<lparr>a_identity = r_identity_cid room, a_display_name = r_identity_name room, a_role = ROOM_ROLE\<rparr>"

definition room_message :: "author \<Rightarrow> category \<Rightarrow> string \<Rightarrow> string list \<Rightarrow> message" where
  "room_message author cat text recipients =
     \<lparr>m_message_id = [], m_author = author, m_author_alias = None, m_category = cat, m_briefing_role = None,
      m_briefing_version = None, m_membership = None, m_text = text, m_recipients = recipients,
      m_source_msg_id = None, m_source_wire_id = None, m_source_reply_to = None, m_scope = None,
      m_thread_root = None\<rparr>"

definition assertPostable :: "room \<Rightarrow> unit svc" where
  "assertPostable room = require (r_state room = Room_active) (Service_error ''not active'')"

definition appendChatUnlocked :: "env \<Rightarrow> string \<Rightarrow> room \<Rightarrow> author \<Rightarrow> string \<Rightarrow> row svc" where
  "appendChatUnlocked env rid room author text =
     andthen (assertPostable room)
       (append_fanout env rid (room_message author Chat text (active_identities room)))"

definition departure_text :: "string \<Rightarrow> int \<Rightarrow> string" where
  "departure_text label epoch =
     label @ '' left the room '' @ [char_of (194::nat), char_of (183::nat)] @ '' epoch '' @ show_nat (nat epoch)"

definition ensureMembershipNotice :: "env \<Rightarrow> room \<Rightarrow> seat \<Rightarrow> int \<Rightarrow> unit svc" where
  "ensureMembershipNotice env room seat epoch =
     bnd (query (any_row\<lparr>q_kind := Some K_message, q_category := Some Membership,
            q_membership_epoch := Some epoch, q_limit := Some 1\<rparr>)) (\<lambda>records.
     if records \<noteq> [] \<or> active_seats room = [] then ret ()
     else
       (let label = (case s_alias seat of Some al \<Rightarrow> al | None \<Rightarrow> s_display_name seat) in
        bnd (append_fanout env (r_room_id room)
          ((room_message (room_author room) Membership (departure_text label epoch) (active_identities room))
             \<lparr>m_membership := Some \<lparr>n_alias = Some label, n_role = Some (s_role seat), n_epoch = epoch\<rparr>\<rparr>))
          (\<lambda>_. ret ())))"

subsection \<open>The briefing ledger\<close>

record briefing =
  bf_category :: category
  bf_role :: "string option"
  bf_text :: string
  bf_version :: int

definition appendBriefingForMissing :: "env \<Rightarrow> room \<Rightarrow> seat list \<Rightarrow> briefing \<Rightarrow> string option svc" where
  "appendBriefingForMissing env room missing b =
     (if missing = [] then ret None
      else
        bnd (append_fanout env (r_room_id room)
              ((room_message (room_author room) (bf_category b) (bf_text b)
                  (uniqueIdentities (map s_identity missing)))
                \<lparr>m_briefing_role := bf_role b, m_briefing_version := Some (bf_version b)\<rparr>))
          (\<lambda>w. ret (Some (w_at w))))"

definition ensureBriefingKind :: "env \<Rightarrow> room \<Rightarrow> seat list \<Rightarrow> briefing \<Rightarrow> string svc" where
  "ensureBriefingKind env room recipients b =
     bnd (gets (\<lambda>w. briefingDeliveryTimes (v_archive w) (bf_category b) (bf_role b) (bf_version b)
            (uniqueIdentities (map s_identity recipients)))) (\<lambda>deliveries.
     bnd (appendBriefingForMissing env room
            (filter (\<lambda>s. s_identity s \<notin> set (map fst deliveries)) recipients) b) (\<lambda>appendedAt.
     (case sort (map snd deliveries @ (case appendedAt of None \<Rightarrow> [] | Some at \<Rightarrow> [at])) of
        at # _ \<Rightarrow> ret at
      | [] \<Rightarrow> now env)))"

text \<open>\<open>room.role_briefings[role]\<close>.\<close>

datatype 'a js_lookup = Absent | Own 'a | Inherited

definition OBJECT_PROTOTYPE :: "string list" where
  "OBJECT_PROTOTYPE =
     [''constructor'', ''__defineGetter__'', ''__defineSetter__'', ''hasOwnProperty'', ''__lookupGetter__'',
      ''__lookupSetter__'', ''isPrototypeOf'', ''propertyIsEnumerable'', ''toString'', ''valueOf'',
      ''__proto__'', ''toLocaleString'']"

definition js_get :: "(string \<times> 'a) list \<Rightarrow> string \<Rightarrow> 'a js_lookup" where
  "js_get obj k =
     (case map_of obj k of
        Some v \<Rightarrow> Own v
      | None \<Rightarrow> if List.member OBJECT_PROTOTYPE k then Inherited else Absent)"

text \<open>An inherited member has neither text nor version; binding the missing version into the
  delivery lookup is an error of the database driver.\<close>

fun ensureRoleBriefings :: "env \<Rightarrow> room \<Rightarrow> seat list \<Rightarrow> unit svc" where
  "ensureRoleBriefings env room [] = ret ()"
| "ensureRoleBriefings env room (seat # seats) =
     andthen
       (case js_get (r_role_briefings room) (s_role seat) of
          Absent \<Rightarrow> ret ()
        | Inherited \<Rightarrow> raise (Storage_error ''undefined binding'')
        | Own b \<Rightarrow>
            bnd (ensureBriefingKind env room [seat]
                   \<lparr>bf_category = Role_briefing, bf_role = Some (s_role seat), bf_text = b_text b,
                    bf_version = b_version b\<rparr>) (\<lambda>_. ret ()))
       (ensureRoleBriefings env room seats)"

definition common_briefing :: "room \<Rightarrow> briefing" where
  "common_briefing room = \<lparr>bf_category = Briefing, bf_role = None, bf_text = mi_briefing (r_mission room),
     bf_version = mi_briefing_version (r_mission room)\<rparr>"

definition ensureActivationBriefing :: "env \<Rightarrow> room \<Rightarrow> seat list \<Rightarrow> string svc" where
  "ensureActivationBriefing env room recipients =
     bnd (ensureBriefingKind env room recipients (common_briefing room)) (\<lambda>at.
     andthen (ensureRoleBriefings env room recipients) (ret at))"

definition redeliverCommonBriefing :: "env \<Rightarrow> room \<Rightarrow> unit svc" where
  "redeliverCommonBriefing env room =
     bnd (ensureBriefingKind env room (active_seats room) (common_briefing room)) (\<lambda>_. ret ())"

subsection \<open>They keep the invariant and leave the metadata alone\<close>

lemma keeps_append_at [keeps_intro]:
  "keeps (world_ok env rid) (append_at env rid b)" "keeps (room_inv env rid r0) (append_at env rid b)"
  unfolding append_at_def by (intro keeps_intro)+

lemma keeps_append_fanout [keeps_intro]:
  "keeps (world_ok env rid) (append_fanout env rid m)" "keeps (room_inv env rid r0) (append_fanout env rid m)"
  unfolding append_fanout_def by (intro keeps_intro)+

lemma keeps_appendChat [keeps_intro]:
  "keeps (world_ok env rid) (appendChatUnlocked env rid room a text)"
  "keeps (room_inv env rid r0) (appendChatUnlocked env rid room a text)"
  unfolding appendChatUnlocked_def assertPostable_def by (intro keeps_intro)+

lemma keeps_appendBriefing [keeps_intro]:
  "r_room_id room = rid \<Longrightarrow> keeps (room_inv env rid r0) (appendBriefingForMissing env room missing b)"
  unfolding appendBriefingForMissing_def by (auto intro!: keeps_intro)

lemma keeps_ensureBriefingKind [keeps_intro]:
  assumes "r_room_id room = rid"
  shows "keeps (room_inv env rid r0) (ensureBriefingKind env room recipients b)"
proof -
  have "keeps (room_inv env rid r0) (case xs of at # _ \<Rightarrow> ret at | [] \<Rightarrow> now env)" for xs
    by (cases xs) (auto intro!: keeps_intro)
  then show ?thesis using assms unfolding ensureBriefingKind_def by (intro keeps_intro) simp_all
qed

lemma keeps_ensureRoleBriefings [keeps_intro]:
  "r_room_id room = rid \<Longrightarrow> keeps (room_inv env rid r0) (ensureRoleBriefings env room seats)"
proof (induction seats)
  case Nil
  then show ?case by (simp add: keeps_intro)
next
  case (Cons s ss)
  show ?case
    unfolding ensureRoleBriefings.simps
    by (intro keeps_andthen; cases "js_get (r_role_briefings room) (s_role s)")
      (use Cons in \<open>auto intro!: keeps_intro\<close>)
qed

lemma keeps_ensureActivationBriefing [keeps_intro]:
  "r_room_id room = rid \<Longrightarrow> keeps (room_inv env rid r0) (ensureActivationBriefing env room seats)"
  "r_room_id room = rid \<Longrightarrow> keeps (room_inv env rid r0) (redeliverCommonBriefing env room)"
  unfolding ensureActivationBriefing_def redeliverCommonBriefing_def by (intro keeps_intro; simp)+

lemma keeps_ensureMembershipNotice [keeps_intro]:
  "r_room_id room = rid \<Longrightarrow> keeps (room_inv env rid r0) (ensureMembershipNotice env room seat epoch)"
  unfolding ensureMembershipNotice_def Let_def by (auto intro!: keeps_intro)

end
