(* ===== verification/Membership.thy ===== *)
theory Membership
  imports Briefings
begin

section \<open>Membership\<close>

text \<open>
  The membership half of \<open>RoomService\<close> (\<open>src/service.ts\<close>): reconciliation of the stored seats and
  invites with the contacts and invites the identity holds, direct removal, external invites, and
  the two runtime commands on membership. All of it runs under the room mutex; the pump that
  delivers the queued intents afterwards is \<open>Intake\<close>.
\<close>

definition mintAlias :: "seat list \<Rightarrow> string \<Rightarrow> string" where
  "mintAlias seated role = role @ '' #'' @ show_nat (length (filter (\<lambda>s. s_role s = role) seated) + 1)"

definition assertMutable :: "room \<Rightarrow> unit svc" where
  "assertMutable room =
     require (r_state room \<noteq> Closing \<and> r_state room \<noteq> Closed) (Service_error ''closing or closed'')"

definition isCancelledExternalSeat :: "seat \<Rightarrow> bool" where
  "isCancelledExternalSeat seat \<longleftrightarrow> s_state seat = Seat_removed \<and> s_accepted_at seat = None
     \<and> s_requested_at seat \<noteq> None \<and> s_invite_sha256 seat \<noteq> None"

definition hasRuntimeCommandGrant :: "room \<Rightarrow> string \<Rightarrow> string \<Rightarrow> bool" where
  "hasRuntimeCommandGrant room callerCid command \<longleftrightarrow>
     list_ex (\<lambda>g. g_caller_cid g = callerCid \<and> commandGrantMatches (g_command g) command) (r_command_grants room)
     \<or> (case List.find (\<lambda>s. s_state s = Seat_active \<and> s_identity s = callerCid) (r_seats room) of
          None \<Rightarrow> False
        | Some caller \<Rightarrow>
            list_ex (\<lambda>g. rg_role g = s_role caller
              \<and> list_ex (\<lambda>p. commandGrantMatches p command) (rg_commands g)) (r_role_command_grants room))"

subsection \<open>Removal\<close>

datatype removal_status = Removal_relay relay_status | Already_absent | Cancelled_pending

record removal_receipt =
  rc_participant_id :: string
  rc_epoch :: int
  rc_status :: removal_status
  rc_notified :: bool

definition findSeatForRemoval :: "room \<Rightarrow> string \<Rightarrow> err + seat" where
  "findSeatForRemoval room participant =
     (let matches = (\<lambda>s. s_identity s = participant \<or> s_participant_id s = participant) in
      case List.find (\<lambda>s. s_state s \<noteq> Seat_removed \<and> matches s) (r_seats room) of
        Some s \<Rightarrow> Inr s
      | None \<Rightarrow>
          (case List.find matches (r_seats room) of
             Some s \<Rightarrow> Inr s
           | None \<Rightarrow> Inl (Service_error ''not a participant'')))"

definition remove_or_absent :: "env \<Rightarrow> string \<Rightarrow> (removal_status \<times> bool) svc" where
  "remove_or_absent env cid =
     catch (bnd (packet_removeContact env cid) (\<lambda>(status, notified). ret (Removal_relay status, notified)))
       (\<lambda>e. if e = Absent_contact cid then ret (Already_absent, False) else raise e)"

definition drop_grants :: "string \<Rightarrow> room \<Rightarrow> room" where
  "drop_grants cid room = room\<lparr>r_command_grants := filter (\<lambda>g. g_caller_cid g \<noteq> cid) (r_command_grants room)\<rparr>"

definition replace_seat :: "seat \<Rightarrow> seat \<Rightarrow> room \<Rightarrow> room" where
  "replace_seat seat new room =
     room\<lparr>r_seats := map (\<lambda>c. if s_participant_id c = s_participant_id seat then new else c) (r_seats room)\<rparr>"

definition remove_seat :: "string \<Rightarrow> int \<Rightarrow> seat \<Rightarrow> seat" where
  "remove_seat at epoch seat = seat\<lparr>s_state := Seat_removed, s_removed_at := Some at, s_removed_epoch := Some epoch\<rparr>"

definition cancel_pending :: "env \<Rightarrow> room \<Rightarrow> seat \<Rightarrow> unit svc" where
  "cancel_pending env room seat =
     (if s_state seat = Seat_pending then
        bnd (now env) (\<lambda>at.
        bnd (save env (drop_grants (s_identity seat)
              (replace_seat seat (remove_seat at (r_membership_epoch room) seat) room))) (\<lambda>_. ret ()))
      else ret ())"

definition remove_pending :: "env \<Rightarrow> room \<Rightarrow> seat \<Rightarrow> removal_receipt svc" where
  "remove_pending env room seat =
     andthen hosted
     (bnd (gets (\<lambda>w. s_identity seat \<in> set (map k_container_id (v_contacts w)))) (\<lambda>established.
      bnd (if established then bnd (remove_or_absent env (s_identity seat)) (\<lambda>out. ret (Some out)) else ret None) (\<lambda>outcome.
      andthen (cancel_pending env room seat)
        (ret (case outcome of
           Some (status, notified) \<Rightarrow>
             \<lparr>rc_participant_id = s_participant_id seat, rc_epoch = r_membership_epoch room,
              rc_status = status, rc_notified = notified\<rparr>
         | None \<Rightarrow>
             \<lparr>rc_participant_id = s_participant_id seat, rc_epoch = r_membership_epoch room,
              rc_status = Cancelled_pending, rc_notified = False\<rparr>)))))"

definition remove_active :: "env \<Rightarrow> room \<Rightarrow> seat \<Rightarrow> bool \<Rightarrow> removal_receipt svc" where
  "remove_active env room seat notify =
     andthen hosted
     (bnd (remove_or_absent env (s_identity seat)) (\<lambda>(status, notified).
      bnd (now env) (\<lambda>at.
        (let epoch = r_membership_epoch room + 1 in
         bnd (save env ((drop_grants (s_identity seat)
               (room\<lparr>r_seats := map (\<lambda>c. if s_participant_id c = s_participant_id seat
                    then remove_seat at epoch c else c) (r_seats room)\<rparr>))\<lparr>r_membership_epoch := epoch\<rparr>)) (\<lambda>current.
         andthen (if notify then absorb (ensureMembershipNotice env current seat epoch) (\<lambda>_. ret ()) else ret ())
           (ret \<lparr>rc_participant_id = s_participant_id seat, rc_epoch = epoch, rc_status = status,
                 rc_notified = notified\<rparr>))))))"

definition beginRemovalUnlocked :: "env \<Rightarrow> room \<Rightarrow> seat \<Rightarrow> bool \<Rightarrow> removal_receipt svc" where
  "beginRemovalUnlocked env room seat notify =
     (if s_state seat = Seat_pending \<or> isCancelledExternalSeat seat then remove_pending env room seat
      else if s_state seat = Seat_removed then
        ret \<lparr>rc_participant_id = s_participant_id seat,
             rc_epoch = (case s_removed_epoch seat of Some e \<Rightarrow> e | None \<Rightarrow> r_membership_epoch room),
             rc_status = Already_absent, rc_notified = False\<rparr>
      else remove_active env room seat notify)"

text \<open>\<open>request.notify\<close> may be absent.\<close>

definition removeParticipant :: "env \<Rightarrow> string \<Rightarrow> bool option \<Rightarrow> removal_receipt svc" where
  "removeParticipant env participant notify =
     (if participant = [] then raise Zod_error
      else
        bnd (load env) (\<lambda>room.
        andthen (assertMutable room)
        (bnd (lift_sum (findSeatForRemoval room participant)) (\<lambda>seat.
           beginRemovalUnlocked env room seat
             ((case notify of None \<Rightarrow> True | Some b \<Rightarrow> b) \<and> \<not> r_quiet_membership room)))))"

subsection \<open>Runtime commands on membership\<close>

datatype command_error =
    Cmd_invalid_request
  | Cmd_room_unavailable
  | Cmd_unauthorized
  | Cmd_member_not_found
  | Cmd_stale_epoch int
  | Cmd_cannot_remove_self
  | Cmd_thread thread_error
  | Cmd_invalid_state

definition command_gate :: "room \<Rightarrow> string \<Rightarrow> string \<Rightarrow> command_error option" where
  "command_gate room sender command =
     (if r_state room \<noteq> Room_active \<or> lifecycle_pending room then Some Cmd_room_unavailable
      else if \<not> is_active_cid room sender \<or> \<not> hasRuntimeCommandGrant room sender command then Some Cmd_unauthorized
      else None)"

definition listMembersCommandUnlocked ::
  "env \<Rightarrow> string \<Rightarrow> (command_error + int \<times> (string \<times> string \<times> seat_state) list) svc" where
  "listMembersCommandUnlocked env sender =
     bnd (load env) (\<lambda>room.
       ret (case command_gate room sender ''list-members'' of
              Some e \<Rightarrow> Inl e
            | None \<Rightarrow> Inr (r_membership_epoch room,
                map (\<lambda>s. (s_participant_id s, s_role s, s_state s)) (r_seats room))))"

record remove_member_request =
  rm_participant_id :: string
  rm_expected_epoch :: int
  rm_confirm :: bool

definition remove_member_request_ok :: "remove_member_request \<Rightarrow> bool" where
  "remove_member_request_ok q \<longleftrightarrow> ulid_ok (rm_participant_id q) \<and> nonneg_safe (rm_expected_epoch q) \<and> rm_confirm q"

definition removeMemberCommandUnlocked ::
  "env \<Rightarrow> string \<Rightarrow> remove_member_request \<Rightarrow> (command_error + string \<times> int) svc" where
  "removeMemberCommandUnlocked env sender q =
     (if \<not> remove_member_request_ok q then ret (Inl Cmd_invalid_request)
      else
        bnd (load env) (\<lambda>room.
          case command_gate room sender ''remove-member'' of
            Some e \<Rightarrow> ret (Inl e)
          | None \<Rightarrow>
              (case List.find (\<lambda>s. s_participant_id s = rm_participant_id q) (r_seats room) of
                 None \<Rightarrow> ret (Inl Cmd_member_not_found)
               | Some target \<Rightarrow>
                   if s_state target = Seat_removed then
                     ret (Inr (s_participant_id target,
                       case s_removed_epoch target of Some e \<Rightarrow> e | None \<Rightarrow> r_membership_epoch room))
                   else if r_membership_epoch room \<noteq> rm_expected_epoch q then
                     ret (Inl (Cmd_stale_epoch (r_membership_epoch room)))
                   else if s_state target \<noteq> Seat_active then ret (Inl Cmd_member_not_found)
                   else if s_identity target = sender then ret (Inl Cmd_cannot_remove_self)
                   else
                     bnd (beginRemovalUnlocked env room target (\<not> r_quiet_membership room)) (\<lambda>receipt.
                       ret (Inr (s_participant_id target, rc_epoch receipt))))))"

subsection \<open>Reconciliation\<close>

text \<open>\<open>contactsByCid\<close>: the first contact of each CID, in order.\<close>

fun first_contacts :: "contact list \<Rightarrow> contact list" where
  "first_contacts [] = []"
| "first_contacts (k # ks) = k # filter (\<lambda>j. k_container_id j \<noteq> k_container_id k) (first_contacts ks)"

definition find_contact :: "contact list \<Rightarrow> string \<Rightarrow> contact option" where
  "find_contact ks cid = List.find (\<lambda>k. k_container_id k = cid) ks"

text \<open>An active seat whose contact is gone becomes a removed one, each at an epoch of its own.\<close>

fun depart_seats :: "env \<Rightarrow> contact list \<Rightarrow> seat list \<Rightarrow> int \<Rightarrow> (seat list \<times> int) svc" where
  "depart_seats env ks [] epoch = ret ([], epoch)"
| "depart_seats env ks (s # ss) epoch =
     (if s_state s \<noteq> Seat_active \<or> find_contact ks (s_identity s) \<noteq> None
      then bnd (depart_seats env ks ss epoch) (\<lambda>(rest, e). ret (s # rest, e))
      else
        bnd (now env) (\<lambda>at.
        bnd (depart_seats env ks ss (epoch + 1)) (\<lambda>(rest, e).
          ret ((remove_seat at (epoch + 1) s)\<lparr>s_removal_reason := Some Contact_absent\<rparr> # rest, e))))"

definition departed_cids :: "contact list \<Rightarrow> seat list \<Rightarrow> string list" where
  "departed_cids ks ss =
     map s_identity (filter (\<lambda>s. s_state s = Seat_active \<and> find_contact ks (s_identity s) = None) ss)"

definition reconcile_departures :: "env \<Rightarrow> room \<Rightarrow> contact list \<Rightarrow> room svc" where
  "reconcile_departures env room ks =
     bnd (depart_seats env ks (r_seats room) (r_membership_epoch room)) (\<lambda>(seats, epoch).
       if departed_cids ks (r_seats room) = [] then ret room
       else save env (room\<lparr>r_seats := seats, r_membership_epoch := epoch,
              r_command_grants := filter (\<lambda>g. \<not> List.member (departed_cids ks (r_seats room)) (g_caller_cid g))
                (r_command_grants room)\<rparr>))"

text \<open>A pending seat whose contact is established becomes active.\<close>

fun activate_seats :: "env \<Rightarrow> bool \<Rightarrow> contact list \<Rightarrow> seat list \<Rightarrow> (seat list \<times> seat list) svc" where
  "activate_seats env anonymous ks [] = ret ([], [])"
| "activate_seats env anonymous ks (s # ss) =
     (case (if s_state s = Seat_pending then find_contact ks (s_identity s) else None) of
        None \<Rightarrow> bnd (activate_seats env anonymous ks ss) (\<lambda>(rest, acts). ret (s # rest, acts))
      | Some k \<Rightarrow>
          bnd (now env) (\<lambda>at.
          bnd (activate_seats env anonymous ks ss) (\<lambda>(rest, acts).
            (let s' = s\<lparr>s_state := Seat_active, s_display_name := k_name k, s_accepted_at := Some at,
                        s_alias := (if anonymous then s_alias s else None)\<rparr>
             in ret (s' # rest, s' # acts)))))"

text \<open>\<open>inviteById\<close>: the last invite of each id.\<close>

definition invite_by_id :: "invite list \<Rightarrow> string \<Rightarrow> invite option" where
  "invite_by_id invs ident = List.find (\<lambda>i. i_invite_id i = ident) (rev invs)"

definition admission_open :: "invite \<Rightarrow> bool" where
  "admission_open i \<longleftrightarrow> i_state i = Live \<and> (i_recovery_of i = None \<or> i_recovery_confirmed i = Some True)"

definition legacyAdmissionInvite :: "bool \<Rightarrow> invite list \<Rightarrow> invite option" where
  "legacyAdmissionInvite provenance invs =
     (if provenance then None
      else (case filter admission_open invs of [i] \<Rightarrow> Some i | _ \<Rightarrow> None))"

fun last_removed_at :: "seat list \<Rightarrow> string \<Rightarrow> string option" where
  "last_removed_at [] cid = None"
| "last_removed_at (s # ss) cid =
     (case (if s_state s = Seat_removed \<and> s_identity s = cid then s_removed_at s else None) of
        None \<Rightarrow> last_removed_at ss cid
      | Some at \<Rightarrow>
          (case last_removed_at ss cid of None \<Rightarrow> Some at | Some later \<Rightarrow> Some (max at later)))"

definition admitting_invite :: "bool \<Rightarrow> room \<Rightarrow> contact \<Rightarrow> invite option" where
  "admitting_invite provenance room k =
     (case (case k_via_invite_id k of None \<Rightarrow> legacyAdmissionInvite provenance (r_invites room)
            | Some ident \<Rightarrow> invite_by_id (r_invites room) ident) of
        None \<Rightarrow> None
      | Some i \<Rightarrow>
          if \<not> admission_open i then None
          else
            (case last_removed_at (r_seats room) (k_container_id k) of
               None \<Rightarrow> Some i
             | Some at \<Rightarrow> if i_created_at i \<le> at then None else Some i))"

text \<open>\<open>seated\<close> holds every seat so far, the new ones last; the second component is the new ones.\<close>

definition new_seat :: "contact \<Rightarrow> invite \<Rightarrow> string \<Rightarrow> string \<Rightarrow> string option \<Rightarrow> seat" where
  "new_seat k i at pid al =
     \<lparr>s_identity = k_container_id k, s_display_name = k_name k, s_role = i_role i, s_invite_id = i_invite_id i,
      s_accepted_at = Some at, s_requested_at = None, s_invite_sha256 = None, s_participant_id = pid,
      s_state = Seat_active, s_alias = al, s_removal_reason = None, s_removed_at = None,
      s_removed_epoch = None, s_bounced_at = None\<rparr>"

fun admit_contacts :: "env \<Rightarrow> bool \<Rightarrow> room \<Rightarrow> seat list \<Rightarrow> contact list \<Rightarrow> seat list \<Rightarrow> seat list svc" where
  "admit_contacts env provenance room seated [] added = ret added"
| "admit_contacts env provenance room seated (k # ks) added =
     (if list_ex (\<lambda>s. live_seat s \<and> s_identity s = k_container_id k) (r_seats room)
       \<or> list_ex (\<lambda>s. s_identity s = k_container_id k) added
      then admit_contacts env provenance room seated ks added
      else
        (case admitting_invite provenance room k of
           None \<Rightarrow> admit_contacts env provenance room seated ks added
         | Some i \<Rightarrow>
             bnd (now env) (\<lambda>at.
             bnd (fresh_ulid env) (\<lambda>pid.
               admit_contacts env provenance room seated ks
                 (added @ [new_seat k i at pid
                   (if r_anonymous room then Some (mintAlias (seated @ added) (i_role i)) else None)])))))"

definition accepted_by_invite :: "seat list \<Rightarrow> string \<Rightarrow> string list" where
  "accepted_by_invite seats ident =
     uniq (map s_identity (filter (\<lambda>s. s_state s \<noteq> Seat_pending \<and> s_invite_id s = ident) seats))"

definition reconcile_invite :: "core_invite list \<Rightarrow> seat list \<Rightarrow> invite \<Rightarrow> invite" where
  "reconcile_invite core seats i =
     (let found = accepted_by_invite seats (i_invite_id i);
          accepted = (if found = [] then i_accepted_cids i else found);
          state =
            (if i_state i = Live \<and> i_invite_id i \<notin> set (map ci_invite_id core)
             then (if i_mode i = One_time \<and> accepted \<noteq> [] then Consumed else Replacement_required)
             else if i_state i = Live \<and> i_mode i = One_time \<and> accepted \<noteq> [] then Consumed
             else i_state i)
      in i\<lparr>i_accepted_cids := accepted, i_state := state\<rparr>)"

definition activation_ready :: "room \<Rightarrow> bool" where
  "activation_ready room \<longleftrightarrow>
     active_seats room \<noteq> []
     \<and> list_all (\<lambda>i. i_min_accepts i \<le> int (length (i_accepted_cids i)))
         (filter (\<lambda>i. i_state i \<noteq> Revoked) (r_invites room))
     \<and> list_all (\<lambda>q. ar_count q \<le> int (length (filter (\<lambda>s. s_role s = ar_role q) (active_seats room))))
         (case r_activation_requirements room of None \<Rightarrow> [] | Some qs \<Rightarrow> qs)"

definition reconcile_activate :: "env \<Rightarrow> room \<Rightarrow> seat list \<Rightarrow> room svc" where
  "reconcile_activate env room admitted =
     (if r_state room = Provisioning \<and> activation_ready room then
        bnd (ensureActivationBriefing env room (active_seats room)) (\<lambda>at.
          lift_sum (RoomSchema_parse (e_nfc env) (room\<lparr>r_state := Room_active, r_activated_at := Some at\<rparr>)))
      else if r_state room = Room_active \<and> admitted \<noteq> [] then
        bnd (ensureActivationBriefing env room admitted) (\<lambda>_. ret room)
      else ret room)"

text \<open>A core invite the room has no record of can admit nobody and is revoked.\<close>

definition revoke_unknown :: "env \<Rightarrow> room \<Rightarrow> core_invite list \<Rightarrow> unit svc" where
  "revoke_unknown env room core =
     for_each core (\<lambda>c. if invite_by_id (r_invites room) (ci_invite_id c) = None
       then bnd (packet_revokeInvite env (ci_invite_id c)) (\<lambda>_. ret ()) else ret ())"

definition reconciled_room :: "room \<Rightarrow> core_invite list \<Rightarrow> seat list \<Rightarrow> nat \<Rightarrow> room" where
  "reconciled_room room core seats joined =
     room\<lparr>r_seats := seats, r_invites := map (reconcile_invite core seats) (r_invites room),
          r_membership_epoch := r_membership_epoch room + int joined\<rparr>"

definition reconcile_members :: "env \<Rightarrow> bool \<Rightarrow> contact list \<Rightarrow> room \<Rightarrow> room svc" where
  "reconcile_members env provenance ks room =
     bnd (activate_seats env (r_anonymous room) ks (r_seats room)) (\<lambda>(seated, activated).
     bnd (admit_contacts env provenance room seated ks []) (\<lambda>added.
     bnd (gets v_core_invites) (\<lambda>core.
     andthen (revoke_unknown env room core)
       (bnd (lift_sum (RoomSchema_parse (e_nfc env)
            (reconciled_room room core (seated @ added) (length activated + length added)))) (\<lambda>r.
        bnd (reconcile_activate env r (activated @ added)) (store_save env))))))"

definition reconcileUnlocked :: "env \<Rightarrow> room \<Rightarrow> room svc" where
  "reconcileUnlocked env initial =
     (if r_state initial = Closed \<or> r_state initial = Closing then ret initial
      else
        andthen (refreshContacts env)
          (bnd (gets (\<lambda>w. first_contacts (v_contacts w))) (\<lambda>ks.
           bnd (gets v_provenance) (\<lambda>provenance.
           bnd (reconcile_departures env initial ks) (reconcile_members env provenance ks)))))"

subsection \<open>External invites\<close>

record external_receipt =
  ex_participant_id :: string
  ex_state :: seat_state
  ex_identity :: string

text \<open>\<open>unpack\<close> is \<open>unpackInvite\<close>, the decompression of an invite blob.\<close>

definition pending_seat :: "string \<Rightarrow> string \<Rightarrow> string \<Rightarrow> string \<Rightarrow> string \<Rightarrow> string \<Rightarrow> string option \<Rightarrow> seat" where
  "pending_seat cid display role digest at pid al =
     \<lparr>s_identity = cid, s_display_name = display, s_role = role, s_invite_id = digest, s_accepted_at = None,
      s_requested_at = Some at, s_invite_sha256 = Some digest, s_participant_id = pid, s_state = Seat_pending,
      s_alias = al, s_removal_reason = None, s_removed_at = None, s_removed_epoch = None, s_bounced_at = None\<rparr>"

definition seat_external :: "env \<Rightarrow> room \<Rightarrow> string \<Rightarrow> string \<Rightarrow> string \<Rightarrow> string \<Rightarrow> external_receipt svc" where
  "seat_external env room cid display role digest =
     bnd (now env) (\<lambda>at.
     bnd (fresh_ulid env) (\<lambda>pid.
     bnd (save env (room\<lparr>r_seats := r_seats room @
           [pending_seat cid display role digest at pid
             (if r_anonymous room then Some (mintAlias (r_seats room) role) else None)]\<rparr>)) (\<lambda>_.
     bnd (load env) (\<lambda>current.
     bnd (reconcileUnlocked env current) (\<lambda>reconciled.
       case List.find (\<lambda>s. s_participant_id s = pid) (r_seats reconciled) of
         None \<Rightarrow> raise (Plain_error ''seat is undefined'')
       | Some seat \<Rightarrow>
           ret \<lparr>ex_participant_id = pid, ex_state = s_state seat, ex_identity = s_identity seat\<rparr>)))))"

definition redeem_external :: "env \<Rightarrow> room \<Rightarrow> string \<Rightarrow> string \<Rightarrow> string option \<Rightarrow> string \<Rightarrow> external_receipt svc" where
  "redeem_external env room role blob expected digest =
     andthen hosted
     (bnd (gets (\<lambda>w. map k_container_id (v_contacts w))) (\<lambda>before.
      bnd (catch (packet_addContact env blob) (\<lambda>_. raise (Service_error ''external invite was rejected''))) (\<lambda>added.
        case cid_parse (ac_container_id added) of
          None \<Rightarrow> raise Zod_error
        | Some cid \<Rightarrow>
            if expected \<noteq> None \<and> expected \<noteq> Some cid then raise (Service_error ''inviter CID did not match'')
            else if List.member before cid then raise (Service_error ''inviter is already a contact'')
            else if list_ex (\<lambda>s. s_identity s = cid \<and> live_seat s) (r_seats room)
            then raise (Service_error ''inviter already has a seat'')
            else seat_external env room cid (ac_inviter_name added) role digest)))"

definition acceptExternalInvite ::
  "env \<Rightarrow> (string \<Rightarrow> string option) \<Rightarrow> string \<Rightarrow> string \<Rightarrow> string option \<Rightarrow> external_receipt svc" where
  "acceptExternalInvite env unpack role blob expected =
     (case opt_parse cid_parse expected of
        None \<Rightarrow> raise Zod_error
      | Some expected_cid \<Rightarrow>
          if \<not> role_ok role \<or> length blob > 48 * 1024 then raise Zod_error
          else
            (case unpack blob of
               None \<Rightarrow> raise (Service_error ''external invite is invalid'')
             | Some decoded \<Rightarrow>
                 bnd (load env) (\<lambda>room.
                 andthen (assertMutable room)
                   (redeem_external env room role blob expected_cid (e_sha env decoded)))))"

subsection \<open>Removal keeps the room invariant\<close>

lemma keeps_remove_or_absent [keeps_intro]:
  "keeps (room_inv env rid r0) (remove_or_absent env cid)"
  unfolding remove_or_absent_def by (intro keeps_intro)

lemma seat_step_remove: "s_state s \<noteq> Seat_removed \<Longrightarrow> seat_step s (remove_seat at epoch s)"
  by (cases "s_state s") (simp_all add: seat_step_def remove_seat_def)

lemma evolves_replace:
  assumes h: "held env rid r0 room" and s: "seat \<in> set (r_seats room)" "s_state seat \<noteq> Seat_removed"
  shows "evolves room (drop_grants cid (replace_seat seat (remove_seat at epoch seat) room))"
    and "r_membership_epoch room \<le> e \<Longrightarrow>
      evolves room ((drop_grants cid (room\<lparr>r_seats := map (\<lambda>c. if s_participant_id c = s_participant_id seat
        then remove_seat at epoch c else c) (r_seats room)\<rparr>))\<lparr>r_membership_epoch := e\<rparr>)"
proof -
  have u: "c = seat" if "c \<in> set (r_seats room)" "s_participant_id c = s_participant_id seat" for c
    using held_pid_unique [OF h that(1) s(1) that(2)] .
  show "evolves room (drop_grants cid (replace_seat seat (remove_seat at epoch seat) room))"
    by (rule evolves_seats [where f = "\<lambda>c. if s_participant_id c = s_participant_id seat then remove_seat at epoch seat else c"])
      (use u seat_step_remove [OF s(2)] in \<open>auto simp: drop_grants_def replace_seat_def\<close>)
  show "r_membership_epoch room \<le> e \<Longrightarrow>
      evolves room ((drop_grants cid (room\<lparr>r_seats := map (\<lambda>c. if s_participant_id c = s_participant_id seat
        then remove_seat at epoch c else c) (r_seats room)\<rparr>))\<lparr>r_membership_epoch := e\<rparr>)"
    by (rule evolves_seats [where f = "\<lambda>c. if s_participant_id c = s_participant_id seat then remove_seat at epoch c else c"])
      (use u seat_step_remove [OF s(2)] in \<open>auto simp: drop_grants_def\<close>)
qed

lemma keeps_beginRemoval:
  assumes nfc: "nfc_laws (e_nfc env)" and h: "held env rid r0 room" and s: "seat \<in> set (r_seats room)"
  shows "keeps (room_inv env rid r0) (beginRemovalUnlocked env room seat notify)"
proof -
  have cancel: "keeps (room_inv env rid r0) (cancel_pending env room seat)"
    unfolding cancel_pending_def
    by (intro keeps_steps keeps_save_then [OF nfc h] evolves_replace(1) [OF h s]) simp_all
  have active: "keeps (room_inv env rid r0) (remove_active env room seat notify)"
    if "s_state seat \<noteq> Seat_removed"
    unfolding remove_active_def Let_def
    by (intro keeps_steps inv_packet(8) keeps_remove_or_absent [THEN keeps_bnd] keeps_save_then [OF nfc h]
        evolves_replace(2) [OF h s that] keeps_absorb keeps_ensureMembershipNotice) (simp_all add: held_id)
  show ?thesis
    unfolding beginRemovalUnlocked_def remove_pending_def
    by (intro keeps_steps inv_packet(8) keeps_intro cancel active) auto
qed

lemma keeps_removeParticipant:
  assumes nfc: "nfc_laws (e_nfc env)"
  shows "keeps (room_inv env rid r0) (removeParticipant env participant notify)"
proof -
  have sel: "gives I (\<lambda>s. s \<in> set (r_seats room)) (lift_sum (findSeatForRemoval room participant))" for I :: "world \<Rightarrow> bool" and room
    by (rule givesI) (auto simp: eff_simps findSeatForRemoval_def Let_def split: option.splits dest: find_SomeD)
  show ?thesis
    unfolding removeParticipant_def assertMutable_def
    by (intro keeps_if keeps_raise keeps_load_then keeps_andthen keeps_require
        keeps_bnd_gives [OF keeps_lift_sum sel] keeps_beginRemoval [OF nfc])
qed

lemma keeps_removeMemberCommand:
  assumes nfc: "nfc_laws (e_nfc env)"
  shows "keeps (room_inv env rid r0) (removeMemberCommandUnlocked env sender q)"
proof -
  have "keeps (room_inv env rid r0) (beginRemovalUnlocked env room target n)"
    if "held env rid r0 room" "List.find P (r_seats room) = Some target" for room P target n
    using keeps_beginRemoval [OF nfc that(1)] find_SomeD [OF that(2)] by blast
  then show ?thesis
    unfolding removeMemberCommandUnlocked_def by (intro keeps_intro)
qed

lemma keeps_listMembers: "keeps (room_inv env rid r0) (listMembersCommandUnlocked env sender)"
  unfolding listMembersCommandUnlocked_def by (intro keeps_intro)

subsection \<open>Reconciliation keeps it too\<close>

text \<open>The seats a fold returns are the given ones, each possibly one step further.\<close>

lemma evolves_list_all2:
  assumes l: "list_all2 seat_step (r_seats r) ss" and sub: "set ss \<subseteq> set (r_seats r')"
    and rest: "r_room_id r' = r_room_id r" "r_anonymous r' = r_anonymous r" "r_created_at r' = r_created_at r"
    "r_identity_cid r' = r_identity_cid r" "r_state r \<le> r_state r'" "r_membership_epoch r \<le> r_membership_epoch r'"
  shows "evolves r r'"
proof -
  have "\<exists>s'\<in>set (r_seats r'). seat_step s s'" if s: "s \<in> set (r_seats r)" for s
  proof -
    obtain i where i: "i < length (r_seats r)" "r_seats r ! i = s" using s by (auto simp: in_set_conv_nth)
    then have "seat_step s (ss ! i)" "i < length ss"
      using list_all2_nthD [OF l i(1)] list_all2_lengthD [OF l] by simp_all
    then show ?thesis using sub nth_mem by blast
  qed
  then show ?thesis unfolding evolves_def using rest by blast
qed

lemma depart_seats_inv:
  "keeps (room_inv env rid r0) (depart_seats env ks ss epoch)
   \<and> gives (room_inv env rid r0) (\<lambda>p. list_all2 seat_step ss (fst p) \<and> epoch \<le> snd p) (depart_seats env ks ss epoch)"
proof (induction ss arbitrary: epoch)
  case Nil
  then show ?case by (simp add: keeps_ret gives_ret)
next
  case (Cons s ss)
  have k: "keeps (room_inv env rid r0) (depart_seats env ks ss e)" for e using Cons by blast
  have g: "gives (room_inv env rid r0) (\<lambda>p. list_all2 seat_step ss (fst p) \<and> e \<le> snd p) (depart_seats env ks ss e)" for e
    using Cons by blast
  have step: "s_state s = Seat_active \<Longrightarrow>
      seat_step s ((remove_seat at e s)\<lparr>s_removal_reason := Some Contact_absent\<rparr>)" for at e
    by (simp add: seat_step_def remove_seat_def)
  show ?case
    unfolding depart_seats.simps
    by (intro conjI keeps_steps keeps_bnd [OF k] gives_if gives_bnd [OF k g] gives_bnd_any [OF inv_packet(9)])
      (auto intro!: gives_intro keeps_intro intro: step split: prod.splits)
qed

lemma held_aliases: "held env rid r0 r \<Longrightarrow> s \<in> set (r_seats r) \<Longrightarrow> r_anonymous r \<or> s_alias s = None"
  by (auto simp: held_def room_checks_def room_seats_ok_def list_all_iff)

lemma reconcile_departures_inv:
  assumes nfc: "nfc_laws (e_nfc env)" and h: "held env rid r0 room"
  shows "keeps (room_inv env rid r0) (reconcile_departures env room ks)"
    and "gives (room_inv env rid r0) (held env rid r0) (reconcile_departures env room ks)"
proof -
  note d = depart_seats_inv [THEN conjunct1] depart_seats_inv [THEN conjunct2]
  have e: "evolves room (room\<lparr>r_seats := seats, r_membership_epoch := epoch, r_command_grants := gs\<rparr>)"
    if "list_all2 seat_step (r_seats room) seats \<and> r_membership_epoch room \<le> epoch" for seats epoch gs
    by (rule evolves_list_all2 [where ss = seats]) (use that in auto)
  show "keeps (room_inv env rid r0) (reconcile_departures env room ks)"
    unfolding reconcile_departures_def
    by (rule keeps_bnd_gives [OF d]) (auto intro!: keeps_steps inv_save(1) [OF nfc h] e split: prod.splits)
  show "gives (room_inv env rid r0) (held env rid r0) (reconcile_departures env room ks)"
    unfolding reconcile_departures_def
    by (rule gives_bnd [OF d]) (auto intro!: gives_if gives_ret h inv_save(2) [OF nfc h] e split: prod.splits)
qed

lemma activate_seats_inv:
  "(\<forall>s\<in>set ss. anon \<or> s_alias s = None) \<Longrightarrow>
   keeps (room_inv env rid r0) (activate_seats env anon ks ss)
   \<and> gives (room_inv env rid r0) (\<lambda>p. list_all2 seat_step ss (fst p)) (activate_seats env anon ks ss)"
proof (induction ss)
  case Nil
  then show ?case by (simp add: keeps_ret gives_ret)
next
  case (Cons s ss)
  have k: "keeps (room_inv env rid r0) (activate_seats env anon ks ss)" using Cons by auto
  have g: "gives (room_inv env rid r0) (\<lambda>p. list_all2 seat_step ss (fst p)) (activate_seats env anon ks ss)"
    using Cons by auto
  have step: "s_state s = Seat_pending \<Longrightarrow> seat_step s (s\<lparr>s_state := Seat_active, s_display_name := n,
      s_accepted_at := at, s_alias := (if anon then s_alias s else None)\<rparr>)" for n at
    using Cons.prems by (auto simp: seat_step_def)
  show ?case
  proof (cases "if s_state s = Seat_pending then find_contact ks (s_identity s) else None")
    case None
    show ?thesis unfolding activate_seats.simps None option.case
      by (intro conjI keeps_bnd [OF k] gives_bnd [OF k g])
        (auto intro!: keeps_intro gives_intro split: prod.splits)
  next
    case (Some c)
    then have p: "s_state s = Seat_pending" by (auto split: if_splits)
    have r: "gives (room_inv env rid r0) (\<lambda>q. list_all2 seat_step (s # ss) (fst q))
        (ret (s' # fst p, s' # snd p))" if "list_all2 seat_step ss (fst p)" "seat_step s s'" for p s'
      using that by (simp add: gives_ret)
    show ?thesis unfolding activate_seats.simps Some option.case Let_def split_beta
      by (intro conjI keeps_steps keeps_bnd [OF k] gives_bnd [OF k g] gives_bnd_any [OF inv_packet(9)] r step [OF p])
  qed
qed

lemma keeps_admit_contacts: "keeps (room_inv env rid r0) (admit_contacts env pv room seated ks added)"
proof (induction ks arbitrary: added)
  case Nil
  then show ?case by (simp add: keeps_ret)
next
  case (Cons k ks)
  then show ?case unfolding admit_contacts.simps by (intro keeps_steps)
qed

lemma reconcile_activate_inv:
  assumes nfc: "nfc_laws (e_nfc env)" and h: "held env rid r0 room"
  shows "keeps (room_inv env rid r0) (reconcile_activate env room admitted)"
    and "gives (room_inv env rid r0) (held env rid r0) (reconcile_activate env room admitted)"
proof -
  have b: "keeps (room_inv env rid r0) (ensureActivationBriefing env room ss)" for ss
    by (rule keeps_ensureActivationBriefing) (rule held_id [OF h])
  have e: "evolves room (room\<lparr>r_state := Room_active, r_activated_at := at\<rparr>)" if "r_state room = Provisioning" for at
    by (rule evolves_same_seats) (use that in \<open>auto simp: less_eq_room_state_def\<close>)
  show "keeps (room_inv env rid r0) (reconcile_activate env room admitted)"
    unfolding reconcile_activate_def by (intro keeps_intro b)
  show "gives (room_inv env rid r0) (held env rid r0) (reconcile_activate env room admitted)"
    unfolding reconcile_activate_def
    by (intro gives_if gives_bnd_any [OF b] gives_parse [OF h] gives_ret h e) simp
qed

lemma keeps_revoke_unknown [keeps_intro]: "keeps (room_inv env rid r0) (revoke_unknown env room core)"
  unfolding revoke_unknown_def by (intro keeps_intro)

lemma reconcile_members_inv:
  assumes nfc: "nfc_laws (e_nfc env)" and h: "held env rid r0 room"
  shows "keeps (room_inv env rid r0) (reconcile_members env pv ks room)"
    and "gives (room_inv env rid r0) (held env rid r0) (reconcile_members env pv ks room)"
proof -
  have al: "\<forall>s\<in>set (r_seats room). r_anonymous room \<or> s_alias s = None" by (intro ballI) (rule held_aliases [OF h])
  note act = activate_seats_inv [OF al, THEN conjunct1] activate_seats_inv [OF al, THEN conjunct2]
  have e: "evolves room (reconciled_room room core (seated @ added) n)"
    if "list_all2 seat_step (r_seats room) seated" for core seated added n
    by (rule evolves_list_all2 [OF that]) (auto simp: reconciled_room_def)
  show "keeps (room_inv env rid r0) (reconcile_members env pv ks room)"
    unfolding reconcile_members_def
    by (rule keeps_bnd_gives [OF act], simp only: split_beta)
      (intro keeps_bnd [OF keeps_admit_contacts] keeps_gets [THEN keeps_bnd] keeps_andthen keeps_revoke_unknown
        keeps_bnd_gives [OF keeps_lift_sum gives_parse [OF h e]]
        keeps_bnd_gives [OF reconcile_activate_inv(1) [OF nfc] reconcile_activate_inv(2) [OF nfc]]
        inv_store_save(1) [OF nfc _ evolves_refl])
  show "gives (room_inv env rid r0) (held env rid r0) (reconcile_members env pv ks room)"
    unfolding reconcile_members_def
    by (rule gives_bnd [OF act], simp only: split_beta)
      (intro gives_bnd_any [OF keeps_admit_contacts] keeps_gets [THEN gives_bnd_any] gives_andthen keeps_revoke_unknown
        gives_bnd [OF keeps_lift_sum gives_parse [OF h e]]
        gives_bnd [OF reconcile_activate_inv(1) [OF nfc] reconcile_activate_inv(2) [OF nfc]]
        inv_store_save(2) [OF nfc _ evolves_refl])
qed

lemma reconcile_inv:
  assumes nfc: "nfc_laws (e_nfc env)" and h: "held env rid r0 room"
  shows "keeps (room_inv env rid r0) (reconcileUnlocked env room)"
    and "gives (room_inv env rid r0) (held env rid r0) (reconcileUnlocked env room)"
proof -
  note dep = reconcile_departures_inv [OF nfc h]
  show "keeps (room_inv env rid r0) (reconcileUnlocked env room)"
    unfolding reconcileUnlocked_def
    by (intro keeps_if keeps_ret keeps_andthen inv_packet(1) keeps_gets [THEN keeps_bnd] keeps_bnd_gives [OF dep]
        reconcile_members_inv(1) [OF nfc])
  show "gives (room_inv env rid r0) (held env rid r0) (reconcileUnlocked env room)"
    unfolding reconcileUnlocked_def
    by (intro gives_if gives_ret h gives_andthen inv_packet(1) keeps_gets [THEN gives_bnd_any] gives_bnd [OF dep]
        reconcile_members_inv(2) [OF nfc])
qed

lemma keeps_acceptExternalInvite:
  assumes nfc: "nfc_laws (e_nfc env)"
  shows "keeps (room_inv env rid r0) (acceptExternalInvite env unpack role blob expected)"
proof -
  have seat: "keeps (room_inv env rid r0) (seat_external env room cid display role' digest)"
    if h: "held env rid r0 room" for room cid display role' digest
  proof -
    have e: "evolves room (room\<lparr>r_seats := r_seats room @ ss\<rparr>)" for ss
      by (rule evolves_seats [where f = id]) auto
    show ?thesis
      unfolding seat_external_def
      by (intro keeps_steps keeps_save_then [OF nfc h e] keeps_bnd [OF reconcile_inv(1) [OF nfc]])
  qed
  have redeem: "keeps (room_inv env rid r0) (redeem_external env room role blob c digest)"
    if h: "held env rid r0 room" for room c digest
    unfolding redeem_external_def
    by (intro keeps_steps inv_packet(8) keeps_bnd [OF keeps_catch] inv_packet(5) seat [OF h])
  show ?thesis
    unfolding acceptExternalInvite_def assertMutable_def by (intro keeps_steps redeem)
qed

end
