(* ===== verification/History.thy ===== *)
theory History
  imports Threads
begin

section \<open>Participant history\<close>

text \<open>
  \<open>src/thread-history.ts\<close>: the history a participant may read. Rows are numbered by the messages
  visible to the viewer, never by archive position, and a page is bounded in records and in bytes.
\<close>

record history_record =
  h_room_id :: string
  h_seq :: nat
  h_record_id :: string
  h_at :: string
  h_message_id :: string
  h_author :: author
  h_category :: category
  h_briefing_role :: "string option"
  h_briefing_version :: "int option"
  h_membership :: "notice option"
  h_text :: string
  h_thread :: "string option"
  h_thread_root :: "thread_metadata option"

definition publicHistoryMessage :: "row \<Rightarrow> message \<Rightarrow> author \<Rightarrow> history_record" where
  "publicHistoryMessage w m author =
     \<lparr>h_room_id = w_room_id w, h_seq = w_seq w, h_record_id = w_record_id w, h_at = w_at w,
      h_message_id = m_message_id m, h_author = author, h_category = m_category m,
      h_briefing_role = (if m_category m = Role_briefing then m_briefing_role m else None),
      h_briefing_version =
        (if m_category m = Briefing \<or> m_category m = Role_briefing then m_briefing_version m else None),
      h_membership = (if m_category m = Membership then m_membership m else None),
      h_text = m_text m, h_thread = None, h_thread_root = None\<rparr>"

subsection \<open>Its JSON text\<close>

fun category_name :: "category \<Rightarrow> string" where
  "category_name Briefing = ''briefing''"
| "category_name Role_briefing = ''role_briefing''"
| "category_name Chat = ''chat''"
| "category_name Membership = ''membership''"

definition author_json :: "author \<Rightarrow> json" where
  "author_json a = J_obj [(''identity'', J_str (a_identity a)), (''display_name'', J_str (a_display_name a)),
     (''role'', J_str (a_role a))]"

definition notice_json :: "notice \<Rightarrow> json" where
  "notice_json n = J_obj ([(''action'', J_str ''remove''), (''epoch'', J_num (n_epoch n))]
     @ opt_field ''alias'' J_str (n_alias n) @ opt_field ''role'' J_str (n_role n))"

definition metadata_json :: "thread_metadata \<Rightarrow> json" where
  "metadata_json p = J_obj [(''schema_version'', J_num 1), (''thread_id'', J_str (pm_thread_id p)),
     (''topic'', J_str (pm_topic p)), (''creator'', author_json (pm_creator p)),
     (''participant_ids'', J_arr (map J_str (pm_participant_ids p))), (''created_at'', J_str (pm_created_at p))]"

definition history_json :: "history_record \<Rightarrow> json" where
  "history_json h = J_obj
     ([(''version'', J_num 1), (''room_id'', J_str (h_room_id h)), (''seq'', J_num (int (h_seq h))),
       (''record_id'', J_str (h_record_id h)), (''at'', J_str (h_at h)), (''kind'', J_str ''message''),
       (''message_id'', J_str (h_message_id h)), (''author'', author_json (h_author h)),
       (''category'', J_str (category_name (h_category h))), (''text'', J_str (h_text h))]
      @ opt_field ''briefing_role'' J_str (h_briefing_role h)
      @ opt_field ''briefing_version'' J_num (h_briefing_version h)
      @ opt_field ''membership'' notice_json (h_membership h)
      @ opt_field ''thread''
          (\<lambda>t. J_obj [(''schema_version'', J_num 1), (''thread_id'', J_str t)]) (h_thread h)
      @ opt_field ''thread_root'' metadata_json (h_thread_root h))"

definition MAX_HISTORY_PAGE_BYTES :: nat where
  "MAX_HISTORY_PAGE_BYTES = 3 * 1024 * 1024"

subsection \<open>Projection\<close>

definition is_reply_row :: "row \<Rightarrow> bool" where
  "is_reply_row w \<longleftrightarrow> kind_of (w_body w) \<in> {K_message, K_file, K_relay_intent, K_relay_result}"

text \<open>One record of the loop: \<open>Inr None\<close> is \<open>continue\<close>. A thread failure and a schema failure both
  hide the record; no other exception arises here.\<close>

definition classify_visible ::
  "room \<Rightarrow> row list \<Rightarrow> string \<Rightarrow> row \<Rightarrow> message \<Rightarrow> err + (author \<times> string option \<times> thread_metadata option) option" where
  "classify_visible room replyRows viewerCid w m =
     (case classifyThreadAssociation (r_room_id room) (r_anonymous room) replyRows w of
        Inl e \<Rightarrow> Inl e
      | Inr (Scoped root tr sc) \<Rightarrow>
          if activeThreadSeat room tr viewerCid = None then Inr None
          else
            (case w_body root of
               Message rm \<Rightarrow>
                 (case publicThreadMetadata (r_anonymous room) (w_at root) rm tr of Inl e \<Rightarrow> Inl e
                  | Inr metadata \<Rightarrow>
                 (case publicThreadAuthor (r_anonymous room) m tr of Inl e \<Rightarrow> Inl e
                  | Inr author \<Rightarrow>
                      Inr (Some (author, Some (m_message_id rm),
                        if m_message_id m = m_message_id rm then Some metadata else None))))
             | _ \<Rightarrow> Inl (Thread_failure Reply_target_unavailable))
      | Inr Ordinary \<Rightarrow>
          (case m_author_alias m of
             None \<Rightarrow> Inr (Some (m_author m, None, None))
           | Some al \<Rightarrow>
               if alias_ok al then
                 Inr (Some (\<lparr>a_identity = al_participant_id al, a_display_name = al_alias al,
                             a_role = a_role (m_author m)\<rparr>, None, None))
               else Inl Zod_error))"

definition visible_message ::
  "room \<Rightarrow> row list \<Rightarrow> string \<Rightarrow> row \<Rightarrow> (message \<times> author \<times> string option \<times> thread_metadata option) option" where
  "visible_message room replyRows viewerCid w =
     (case w_body w of
        Message m \<Rightarrow>
          if w_room_id w \<noteq> r_room_id room then None
          else (case classify_visible room replyRows viewerCid w m of
                  Inr (Some (author, thread, metadata)) \<Rightarrow> Some (m, author, thread, metadata)
                | _ \<Rightarrow> None)
      | _ \<Rightarrow> None)"

definition history_record_id :: "string \<Rightarrow> string \<Rightarrow> nat \<Rightarrow> string" where
  "history_record_id room_id pid n = room_id @ '':participant:'' @ pid @ '':'' @ show_nat n"

definition project_record ::
  "string \<Rightarrow> row \<Rightarrow> message \<times> author \<times> string option \<times> thread_metadata option \<Rightarrow> nat \<Rightarrow> history_record" where
  "project_record pid w v ordinal =
     (case v of (m, author, thread, metadata) \<Rightarrow>
        (publicHistoryMessage w m author)\<lparr>h_seq := ordinal,
           h_record_id := history_record_id (w_room_id w) pid ordinal,
           h_thread := thread, h_thread_root := metadata\<rparr>)"

definition record_bytes :: "history_record \<Rightarrow> nat" where
  "record_bytes h = length (stringify (history_json h))"

fun history_loop ::
  "(row \<Rightarrow> (message \<times> author \<times> string option \<times> thread_metadata option) option) \<Rightarrow> string \<Rightarrow> nat \<Rightarrow> nat
     \<Rightarrow> row list \<Rightarrow> nat \<Rightarrow> nat \<Rightarrow> history_record list \<Rightarrow> err + history_record list" where
  "history_loop visible pid after limit [] ordinal bytes output = Inr output"
| "history_loop visible pid after limit (w # ws) ordinal bytes output =
     (case visible w of
        None \<Rightarrow> history_loop visible pid after limit ws ordinal bytes output
      | Some v \<Rightarrow>
          if ordinal + 1 \<le> after then history_loop visible pid after limit ws (ordinal + 1) bytes output
          else
            (let projected = project_record pid w v (ordinal + 1);
                 size = record_bytes projected + (if output = [] then 0 else 1)
             in if bytes + size > MAX_HISTORY_PAGE_BYTES
                then (if output = [] then Inl Range_error else Inr output)
                else if length (output @ [projected]) \<ge> limit then Inr (output @ [projected])
                else history_loop visible pid after limit ws (ordinal + 1) (bytes + size) (output @ [projected])))"

definition viewer_seat :: "room \<Rightarrow> string \<Rightarrow> seat option" where
  "viewer_seat room cid = List.find (\<lambda>s. s_state s = Seat_active \<and> s_identity s = cid) (r_seats room)"

definition projectParticipantHistory ::
  "room \<Rightarrow> row list \<Rightarrow> string \<Rightarrow> int option \<Rightarrow> int option \<Rightarrow> err + history_record list" where
  "projectParticipantHistory room records viewerCid after limit =
     (case viewer_seat room viewerCid of
        None \<Rightarrow> Inl (Thread_failure Unauthorized)
      | Some viewer \<Rightarrow>
          if r_state room \<noteq> Room_active then Inl (Thread_failure Unauthorized)
          else if \<not> (opt_ok nonneg_safe after \<and> opt_ok positive_safe limit) then Inl Zod_error
          else
            history_loop (visible_message room (filter is_reply_row records) viewerCid)
              (s_participant_id viewer)
              (case after of None \<Rightarrow> 0 | Some n \<Rightarrow> nat n) (case limit of None \<Rightarrow> 200 | Some n \<Rightarrow> nat n)
              records 0 2 [])"

text \<open>Every visible message of the archive with its ordinal: what pages are cut from.\<close>

fun project_all ::
  "(row \<Rightarrow> (message \<times> author \<times> string option \<times> thread_metadata option) option) \<Rightarrow> string \<Rightarrow> row list \<Rightarrow> nat
     \<Rightarrow> history_record list" where
  "project_all visible pid [] n = []"
| "project_all visible pid (w # ws) n =
     (case visible w of None \<Rightarrow> project_all visible pid ws n
      | Some v \<Rightarrow> project_record pid w v (n + 1) # project_all visible pid ws (n + 1))"

definition visible_history :: "room \<Rightarrow> row list \<Rightarrow> string \<Rightarrow> history_record list" where
  "visible_history room records viewerCid =
     (case viewer_seat room viewerCid of None \<Rightarrow> []
      | Some viewer \<Rightarrow> project_all (visible_message room (filter is_reply_row records) viewerCid)
          (s_participant_id viewer) records 0)"

subsection \<open>Pages\<close>

definition page_bytes :: "history_record list \<Rightarrow> nat" where
  "page_bytes hs = length (stringify (J_arr (map history_json hs)))"

lemma length_join: "length (join [c] xs) = sum_list (map length xs) + (length xs - 1)"
  by (induction "[c]" xs rule: join.induct) auto

lemma page_bytes_eq: "page_bytes hs = 2 + sum_list (map record_bytes hs) + (length hs - 1)"
  by (simp add: page_bytes_def length_join comp_def record_bytes_def [abs_def])

lemma page_bytes_snoc:
  "page_bytes (hs @ [h]) = page_bytes hs + record_bytes h + (if hs = [] then 0 else 1)"
  by (cases hs) (simp_all add: page_bytes_eq)

lemma project_all_seqs:
  "map h_seq (project_all visible pid ws n) = [Suc n..<Suc n + length (project_all visible pid ws n)]"
proof (induction ws arbitrary: n)
  case (Cons w ws)
  show ?case
  proof (cases "visible w")
    case (Some v)
    then show ?thesis using Cons [of "Suc n"]
      by (simp add: project_record_def upt_conv_Cons del: upt_Suc split: prod.splits)
  qed (use Cons in simp)
qed simp

text \<open>A page is the output so far followed by a prefix of what is left, within both bounds.\<close>

definition page_of :: "nat \<Rightarrow> history_record list \<Rightarrow> history_record list \<Rightarrow> history_record list \<Rightarrow> bool" where
  "page_of limit out rest res \<longleftrightarrow> (\<exists>k. res = out @ take k rest) \<and> length res \<le> limit
     \<and> page_bytes res \<le> MAX_HISTORY_PAGE_BYTES \<and> (res = [] \<longrightarrow> rest = [])"

lemma page_of_more: "page_of limit (out @ [h]) rest res \<Longrightarrow> page_of limit out (h # rest) res"
  unfolding page_of_def by (metis Nil_is_append_conv append.assoc append_Cons append_Nil not_Cons_self2 take_Suc_Cons)

lemma page_of_stop: "out \<noteq> [] \<Longrightarrow> length out \<le> limit \<Longrightarrow> page_bytes out \<le> MAX_HISTORY_PAGE_BYTES \<Longrightarrow>
    page_of limit out rest out"
  unfolding page_of_def by (auto intro: exI [of _ 0])

lemma three_way: "(if a then (if b then Inl e else Inr x) else if c then Inr y else r) = Inr res \<Longrightarrow>
    (a \<and> \<not> b \<and> res = x) \<or> (\<not> a \<and> c \<and> res = y) \<or> (\<not> a \<and> \<not> c \<and> r = Inr res)"
  by (simp split: if_splits)

lemma history_loop_pages:
  assumes "history_loop visible pid after limit ws n bytes out = Inr res"
    and "0 < limit" "length out < limit" "bytes = page_bytes out" "bytes \<le> MAX_HISTORY_PAGE_BYTES"
    and "out \<noteq> [] \<longrightarrow> after \<le> n"
  shows "page_of limit out (drop (after - n) (project_all visible pid ws n)) res"
  using assms
proof (induction ws arbitrary: n bytes out)
  case Nil
  then show ?case by (auto simp: page_of_def)
next
  case (Cons w ws)
  show ?case
  proof (cases "visible w")
    case None
    then have "history_loop visible pid after limit ws n bytes out = Inr res" using Cons.prems(1) by simp
    from Cons.IH [OF this Cons.prems(2-)] show ?thesis using None by simp
  next
    case (Some v)
    let ?p = "project_record pid w v (n + 1)"
    let ?size = "record_bytes ?p + (if out = [] then 0 else 1)"
    show ?thesis
    proof (cases "n + 1 \<le> after")
      case True
      then have out: "out \<noteq> [] \<longrightarrow> after \<le> n + 1" using Cons.prems(6) by auto
      have "history_loop visible pid after limit ws (n + 1) bytes out = Inr res"
        using Cons.prems(1) Some True by simp
      from Cons.IH [OF this Cons.prems(2-5) out] show ?thesis
        using Some Suc_diff_Suc [of n after, symmetric] True by simp
    next
      case False
      then have z: "after - n = 0" "after - (n + 1) = 0" by simp_all
      have all: "drop (after - n) (project_all visible pid (w # ws) n) = ?p # project_all visible pid ws (n + 1)"
        using Some z by simp
      have snoc: "page_bytes (out @ [?p]) = bytes + ?size"
        using Cons.prems(4) by (simp add: page_bytes_snoc)
      have loop: "(if bytes + ?size > MAX_HISTORY_PAGE_BYTES then (if out = [] then Inl Range_error else Inr out)
          else if length (out @ [?p]) \<ge> limit then Inr (out @ [?p])
          else history_loop visible pid after limit ws (n + 1) (bytes + ?size) (out @ [?p])) = Inr res"
        using Cons.prems(1) by (simp only: history_loop.simps Some option.case Let_def False if_False)
      consider "bytes + ?size > MAX_HISTORY_PAGE_BYTES" "out \<noteq> []" "res = out"
        | "bytes + ?size \<le> MAX_HISTORY_PAGE_BYTES" "length (out @ [?p]) \<ge> limit" "res = out @ [?p]"
        | "bytes + ?size \<le> MAX_HISTORY_PAGE_BYTES" "length (out @ [?p]) < limit"
          "history_loop visible pid after limit ws (n + 1) (bytes + ?size) (out @ [?p]) = Inr res"
        using three_way [OF loop] unfolding not_less not_le by blast
      then show ?thesis
      proof cases
        case 1
        then show ?thesis using Cons.prems by (simp add: page_of_stop)
      next
        case 2
        then have "page_of limit (out @ [?p]) (project_all visible pid ws (n + 1)) res"
          using snoc Cons.prems(3) by (simp add: page_of_stop)
        then show ?thesis unfolding all by (rule page_of_more)
      next
        case 3
        have "page_of limit (out @ [?p]) (drop (after - (n + 1)) (project_all visible pid ws (n + 1))) res"
          by (rule Cons.IH [OF 3(3) Cons.prems(2) 3(2) snoc [symmetric] 3(1)]) (use False in simp)
        then have "page_of limit (out @ [?p]) (project_all visible pid ws (n + 1)) res" by (simp only: z drop_0)
        then show ?thesis unfolding all by (rule page_of_more)
      qed
    qed
  qed
qed

lemma participant_page_of:
  assumes "projectParticipantHistory room records cid after limit = Inr page"
  shows "page_of (case limit of None \<Rightarrow> 200 | Some n \<Rightarrow> nat n) []
     (drop (case after of None \<Rightarrow> 0 | Some n \<Rightarrow> nat n) (visible_history room records cid)) page"
proof -
  let ?limit = "case limit of None \<Rightarrow> 200 | Some n \<Rightarrow> nat n"
  let ?after = "case after of None \<Rightarrow> 0 | Some n \<Rightarrow> nat n"
  obtain viewer where v: "viewer_seat room cid = Some viewer"
    and pos: "opt_ok positive_safe limit"
    and loop: "history_loop (visible_message room (filter is_reply_row records) cid) (s_participant_id viewer)
        ?after ?limit records 0 2 [] = Inr page"
    using assms by (auto simp: projectParticipantHistory_def split: option.splits if_splits)
  have lim: "0 < ?limit" using pos by (auto simp: positive_safe_def split: option.splits)
  have "page_of ?limit [] (drop (?after - 0) (project_all (visible_message room (filter is_reply_row records) cid)
      (s_participant_id viewer) records 0)) page"
    by (rule history_loop_pages [OF loop lim]) (use lim in \<open>simp_all add: page_bytes_eq MAX_HISTORY_PAGE_BYTES_def\<close>)
  then show ?thesis using v by (simp add: visible_history_def)
qed
text \<open>A page of participant history is a prefix of what follows the cursor in the viewer's own
  numbering, within the record and the byte bound, and it is empty only when nothing follows.\<close>

theorem participant_page:
  assumes "projectParticipantHistory room records cid after limit = Inr page"
  shows "page_of (case limit of None \<Rightarrow> 200 | Some n \<Rightarrow> nat n) []
     (drop (case after of None \<Rightarrow> 0 | Some n \<Rightarrow> nat n) (visible_history room records cid)) page"
  by (rule participant_page_of [OF assms])

lemma project_all_member:
  "h \<in> set (project_all visible pid ws n) \<Longrightarrow> \<exists>w\<in>set ws. \<exists>v k. visible w = Some v \<and> h = project_record pid w v k"
proof (induction ws arbitrary: n)
  case (Cons w ws)
  show ?case
  proof (cases "visible w")
    case None
    then show ?thesis using Cons by simp
  next
    case (Some v)
    then have "h = project_record pid w v (n + 1) \<or> h \<in> set (project_all visible pid ws (n + 1))"
      using Cons.prems by simp
    then show ?thesis
    proof
      assume "h = project_record pid w v (n + 1)"
      then show ?thesis using Some by (intro bexI [of _ w] exI [of _ v] exI [of _ "n + 1"]) simp_all
    next
      assume "h \<in> set (project_all visible pid ws (n + 1))"
      from Cons.IH [OF this] show ?thesis by (metis list.set_intros(2))
    qed
  qed
qed simp

lemma visible_messageD:
  assumes "visible_message room rows cid w = Some (m, author, thread, metadata)"
  shows "w_body w = Message m \<and> w_room_id w = r_room_id room
    \<and> classify_visible room rows cid w m = Inr (Some (author, thread, metadata))"
  using assms by (auto simp: visible_message_def split: body.splits if_splits sum.splits option.splits)

text \<open>An author as the other participants may know it: behind the alias of the item, if it has one.\<close>

definition masked :: "message \<Rightarrow> author" where
  "masked m = (case m_author_alias m of None \<Rightarrow> m_author m
     | Some al \<Rightarrow> \<lparr>a_identity = al_participant_id al, a_display_name = al_alias al, a_role = a_role (m_author m)\<rparr>)"

definition seen_author :: "room \<Rightarrow> message \<Rightarrow> author \<Rightarrow> bool" where
  "seen_author room m a \<longleftrightarrow>
     (if r_anonymous room then m_author_alias m \<noteq> None \<and> a = masked m else a = m_author m)"

definition may_see :: "room \<Rightarrow> row list \<Rightarrow> string \<Rightarrow> row \<Rightarrow> message \<Rightarrow> history_record \<Rightarrow> bool" where
  "may_see room rows cid w m h \<longleftrightarrow>
     (case classifyThreadAssociation (r_room_id room) (r_anonymous room) rows w of
        Inr Ordinary \<Rightarrow> h_author h = masked m \<and> h_thread h = None \<and> h_thread_root h = None
      | Inr (Scoped root tr sc) \<Rightarrow>
          threadRelayEligible room tr cid \<and> h_thread h = message_id_of (w_body root) \<and> seen_author room m (h_author h)
          \<and> (r_anonymous room \<longrightarrow> a_identity (h_author h) \<in> set (map tm_participant_id (tr_members tr)))
          \<and> opt_ok (\<lambda>md. \<exists>rm. w_body root = Message rm \<and> m_message_id m = m_message_id rm \<and> seen_author room rm (pm_creator md)
               \<and> pm_participant_ids md = map tm_participant_id (tr_members tr)) (h_thread_root h)
      | Inl e \<Rightarrow> False)"

lemma publicThreadAuthor_shown:
  assumes "publicThreadAuthor (r_anonymous room) m tr = Inr a"
  shows "seen_author room m a \<and> (r_anonymous room \<longrightarrow> a_identity a \<in> set (map tm_participant_id (tr_members tr)))"
  using assms by (auto simp: publicThreadAuthor_def seen_author_def masked_def split: option.splits if_splits dest!: find_SomeD)

lemma publicThreadMetadata_shown:
  assumes "publicThreadMetadata (r_anonymous room) at rm tr = Inr md"
  shows "seen_author room rm (pm_creator md) \<and> pm_participant_ids md = map tm_participant_id (tr_members tr)"
  using assms by (auto simp: publicThreadMetadata_def seen_author_def masked_def split: option.splits if_splits sum.splits)

lemma classify_visible_may_see:
  assumes "classify_visible room rows cid w m = Inr (Some (author, thread, metadata))"
    and "h_author h = author" "h_thread h = thread" "h_thread_root h = metadata"
  shows "may_see room rows cid w m h"
proof (cases "classifyThreadAssociation (r_room_id room) (r_anonymous room) rows w")
  case (Inl e)
  then show ?thesis using assms(1) by (simp add: classify_visible_def)
next
  case (Inr a)
  show ?thesis
  proof (cases a)
    case Ordinary
    then show ?thesis using Inr assms
      by (cases "m_author_alias m") (auto simp: classify_visible_def may_see_def masked_def split: if_splits)
  next
    case (Scoped root tr sc)
    note step = assms(1) [unfolded classify_visible_def Inr Scoped sum.case association.case]
    have seat: "activeThreadSeat room tr cid \<noteq> None" using step by (auto split: if_splits)
    obtain rm where rm: "w_body root = Message rm" using step seat by (auto split: body.splits)
    then obtain md where md: "publicThreadMetadata (r_anonymous room) (w_at root) rm tr = Inr md"
      and a: "publicThreadAuthor (r_anonymous room) m tr = Inr author" and t: "thread = Some (m_message_id rm)"
      and m: "metadata = (if m_message_id m = m_message_id rm then Some md else None)"
      using step seat by (auto split: sum.splits)
    show ?thesis
      using Inr Scoped seat rm assms(2-4) publicThreadAuthor_shown [OF a] publicThreadMetadata_shown [OF md] t m
      by (auto simp: may_see_def threadRelayEligible_def)
  qed
qed

text \<open>C16: a record a participant receives is a message of this room that it may see, with that message's text. An
  aliased message outside the threads is shown under its alias alone: participant id, alias and role, nothing of the
  author's own identity or name. A message that belongs to a thread is shown only to a member of the thread's root who
  holds the seat it was selected with; in an anonymous room it has an alias and is shown under that alias, its author
  being a participant id of the thread, and so is the creator named by the thread's metadata.\<close>

theorem history_is_confidential:
  assumes page: "projectParticipantHistory room records cid after limit = Inr page" and h: "h \<in> set page"
  shows "\<exists>w\<in>set records. \<exists>m. w_body w = Message m \<and> w_room_id w = r_room_id room
    \<and> h_message_id h = m_message_id m \<and> h_text h = m_text m \<and> may_see room (filter is_reply_row records) cid w m h"
proof -
  have "h \<in> set (visible_history room records cid)"
    using participant_page_of [OF page] h unfolding page_of_def
    by (auto dest!: in_set_takeD in_set_dropD)
  then obtain pid where "h \<in> set (project_all (visible_message room (filter is_reply_row records) cid) pid records 0)"
    by (auto simp: visible_history_def split: option.splits)
  then obtain w v k where w: "w \<in> set records" "visible_message room (filter is_reply_row records) cid w = Some v"
      and hp: "h = project_record pid w v k"
    using project_all_member by blast
  obtain m author thread metadata where v: "v = (m, author, thread, metadata)" by (cases v)
  note vis = visible_messageD [OF w(2) [unfolded v]]
  have "h_author h = author" "h_thread h = thread" "h_thread_root h = metadata" "h_message_id h = m_message_id m" "h_text h = m_text m"
    by (simp_all add: hp v project_record_def publicHistoryMessage_def)
  with vis w(1) classify_visible_may_see show ?thesis by blast
qed

text \<open>Only an active participant of an active room reads history.\<close>

theorem history_needs_active_seat:
  assumes "\<not> (r_state room = Room_active \<and> is_active_cid room cid)"
  shows "projectParticipantHistory room records cid after limit = Inl (Thread_failure Unauthorized)"
  using assms by (auto simp: projectParticipantHistory_def viewer_seat_def is_active_cid_def list_ex_iff
      split: option.splits dest!: find_SomeD)

end
