(* ===== verification/Messages.thy ===== *)
theory Messages
  imports Membership History
begin

section \<open>Posting and starting threads\<close>

text \<open>
  The operator's messages (\<open>postMessage\<close>, \<open>postAsRole\<close>) and the runtime command
  \<open>start_thread\<close> (\<open>startThreadCommandUnlocked\<close>) of \<open>RoomService\<close> (\<open>src/service.ts\<close>), and
  the JSON body a room sends for a message. A string is its UTF-8 bytes, so a byte length is the
  length of the encoded text.
\<close>

subsection \<open>Operator messages\<close>

definition postMessage :: "env \<Rightarrow> string \<Rightarrow> string \<Rightarrow> row svc" where
  "postMessage env rid text =
     (if \<not> text_ok text \<or> \<not> ulid_ok rid then raise Zod_error
      else bnd (load env) (\<lambda>room. appendChatUnlocked env rid room (room_author room) text))"

definition role_author :: "room \<Rightarrow> string \<Rightarrow> author" where
  "role_author room role = \<lparr>a_identity = r_identity_cid room, a_display_name = role, a_role = role\<rparr>"

definition postAsRole :: "env \<Rightarrow> string \<Rightarrow> string \<Rightarrow> string \<Rightarrow> row svc" where
  "postAsRole env rid role text =
     (if \<not> role_ok role \<or> \<not> text_ok text \<or> \<not> ulid_ok rid then raise Zod_error
      else
        bnd (load env) (\<lambda>room.
        andthen (assertPostable room)
          (if \<not> List.member (r_rest_roles room) role then raise (Service_error ''role is not registered'')
           else appendChatUnlocked env rid room (role_author room role) text)))"

subsection \<open>The body of a relayed message\<close>

definition MAX_ROOM_MESSAGE_BYTES :: nat where
  "MAX_ROOM_MESSAGE_BYTES = 262144"

definition thread_json :: "string \<Rightarrow> json" where
  "thread_json ident = J_obj [(''schema_version'', J_num 1), (''thread_id'', J_str ident)]"

definition room_body :: "string \<Rightarrow> room \<Rightarrow> string \<Rightarrow> author \<Rightarrow> (string \<times> json) list \<Rightarrow> string \<Rightarrow> string \<Rightarrow> (string \<times> json) list" where
  "room_body kind room ident author thread text at =
     [(''version'', J_num 1), (''kind'', J_str kind), (''room_id'', J_str (r_room_id room)),
      (''room_name'', J_str (r_room_name room)), (''message_id'', J_str ident), (''author'', author_json author)]
     @ thread @ [(''text'', J_str text), (''at'', J_str at)]"

subsection \<open>Starting a thread\<close>

definition started_by :: "string \<Rightarrow> string \<Rightarrow> row \<Rightarrow> bool" where
  "started_by cid key w \<longleftrightarrow>
     (case w_body w of
        Message m \<Rightarrow>
          (case m_thread_root m of None \<Rightarrow> False
           | Some root \<Rightarrow> a_identity (m_author m) = cid \<and> tr_idempotency_key root = key)
      | _ \<Rightarrow> False)"

definition prior_thread :: "env \<Rightarrow> seat \<Rightarrow> start_thread_input \<Rightarrow> row \<Rightarrow> command_error + string" where
  "prior_thread env creator q w =
     (case w_body w of
        Message m \<Rightarrow>
          (case m_thread_root m of None \<Rightarrow> Inl Cmd_invalid_state
           | Some root \<Rightarrow>
               if tr_creator_participant_id root \<noteq> s_participant_id creator then Inl Cmd_unauthorized
               else if tr_fingerprint root \<noteq> threadFingerprint (e_sha env) q
               then Inl (Cmd_thread Idempotency_conflict)
               else Inr (m_message_id m))
      | _ \<Rightarrow> Inl Cmd_invalid_state)"

definition new_root :: "env \<Rightarrow> string \<Rightarrow> seat \<Rightarrow> thread_member list \<Rightarrow> start_thread_input \<Rightarrow> thread_root" where
  "new_root env ident creator members q =
     \<lparr>tr_thread_id = ident, tr_topic = st_topic q, tr_creator_participant_id = s_participant_id creator,
      tr_members = members, tr_idempotency_key = st_idempotency_key q,
      tr_fingerprint = threadFingerprint (e_sha env) q\<rparr>"

definition root_message :: "room \<Rightarrow> seat \<Rightarrow> thread_root \<Rightarrow> message" where
  "root_message room creator root =
     \<lparr>m_message_id = tr_thread_id root,
      m_author = \<lparr>a_identity = s_identity creator, a_display_name = s_display_name creator, a_role = s_role creator\<rparr>,
      m_author_alias = (if r_anonymous room
        then map_option (\<lambda>al. \<lparr>al_participant_id = s_participant_id creator, al_alias = al\<rparr>) (s_alias creator) else None),
      m_category = Chat, m_briefing_role = None, m_briefing_version = None, m_membership = None,
      m_text = ''Thread: '' @ tr_topic root, m_recipients = map tm_identity (tr_members root),
      m_source_msg_id = None, m_source_wire_id = None, m_source_reply_to = None,
      m_scope = Some \<lparr>sc_thread_id = tr_thread_id root, sc_parent_key = None\<rparr>, m_thread_root = Some root\<rparr>"

text \<open>The author a participant sees: the alias in an anonymous room.\<close>

definition shown_author :: "room \<Rightarrow> seat \<Rightarrow> message \<Rightarrow> author" where
  "shown_author room creator m =
     (if r_anonymous room
      then \<lparr>a_identity = s_participant_id creator, a_display_name = (case s_alias creator of None \<Rightarrow> [] | Some al \<Rightarrow> al), a_role = s_role creator\<rparr>
      else m_author m)"

definition start_fresh :: "env \<Rightarrow> room \<Rightarrow> seat \<Rightarrow> thread_member list \<Rightarrow> start_thread_input \<Rightarrow> (command_error + string) svc" where
  "start_fresh env room creator members q =
     bnd (fresh_ulid env) (\<lambda>ident.
     bnd (now env) (\<lambda>at.
       (let root = new_root env ident creator members q; m = root_message room creator root in
        if r_anonymous room \<and> s_alias creator = None then raise (Plain_error ''creator is missing its alias'')
        else
          bnd (lift_sum (publicThreadMetadata (r_anonymous room) at m root)) (\<lambda>metadata.
            if length (stringify (J_obj (room_body ''room_msg'' room ident (shown_author room creator m)
                  [(''thread'', thread_json ident), (''thread_root'', metadata_json metadata)] (m_text m) at)))
               > MAX_ROOM_MESSAGE_BYTES
            then ret (Inl Cmd_invalid_request)
            else
              bnd (append env (r_room_id room) \<lparr>d_room_id = r_room_id room, d_at = at, d_body = Message m\<rparr>) (\<lambda>w.
                ret (Inr ident))))))"

definition start_selected :: "env \<Rightarrow> room \<Rightarrow> seat \<Rightarrow> start_thread_input \<Rightarrow> (command_error + string) svc" where
  "start_selected env room creator q =
     (case selectThreadMembers room (s_identity creator) q of
        Inl (Thread_failure f) \<Rightarrow> ret (Inl (Cmd_thread f))
      | Inl e \<Rightarrow> raise e
      | Inr members \<Rightarrow> start_fresh env room creator members q)"

definition startThreadCommandUnlocked :: "env \<Rightarrow> string \<Rightarrow> start_thread_input \<Rightarrow> (command_error + string) svc" where
  "startThreadCommandUnlocked env sender input =
     bnd (load env) (\<lambda>room.
       case command_gate room sender ''start_thread'' of
         Some e \<Rightarrow> ret (Inl e)
       | None \<Rightarrow>
           (case List.find (\<lambda>s. s_state s = Seat_active \<and> s_identity s = sender) (r_seats room) of
              None \<Rightarrow> ret (Inl Cmd_unauthorized)
            | Some creator \<Rightarrow>
                (case StartThreadInputSchema_parse input of
                   None \<Rightarrow> ret (Inl Cmd_invalid_request)
                 | Some q \<Rightarrow>
                     bnd (gets (\<lambda>w. readReplyRows (v_archive w) (r_room_id room))) (\<lambda>read.
                     bnd (lift_sum read) (\<lambda>rows.
                       case filter (started_by sender (st_idempotency_key q)) rows of
                         [] \<Rightarrow> start_selected env room creator q
                       | [w] \<Rightarrow> ret (prior_thread env creator q w)
                       | _ \<Rightarrow> raise (Plain_error ''duplicate thread roots''))))))"

subsection \<open>They keep the room invariant\<close>

lemma keeps_post:
  "keeps (room_inv env rid r0) (postMessage env rid text)"
  "keeps (room_inv env rid r0) (postAsRole env rid role text)"
  unfolding postMessage_def postAsRole_def assertPostable_def
  by (intro keeps_steps keeps_appendChat)+

lemma keeps_startThread: "keeps (room_inv env rid r0) (startThreadCommandUnlocked env sender input)"
proof -
  have f: "keeps (room_inv env rid r0) (start_fresh env room creator members q)" if "r_room_id room = rid" for room creator members q
    unfolding start_fresh_def that Let_def by (intro keeps_intro)
  have s: "keeps (room_inv env rid r0) (start_selected env room creator q)" if "r_room_id room = rid" for room creator q
    unfolding start_selected_def
    by (cases "selectThreadMembers room (s_identity creator) q")
      (auto intro!: keeps_ret keeps_raise f that split: err.splits)
  have l: "keeps (room_inv env rid r0) (case xs of [] \<Rightarrow> m | [w] \<Rightarrow> ret (g w) | _ \<Rightarrow> raise e)"
    if "keeps (room_inv env rid r0) m" for xs m g e
    by (cases xs rule: remdups_adj.cases) (simp_all add: that keeps_ret keeps_raise)
  show ?thesis
    unfolding startThreadCommandUnlocked_def
    by (intro keeps_steps keeps_bnd [OF keeps_lift_sum] l s held_id)
qed

end
