(* ===== verification/Invites.thy ===== *)
theory Invites
  imports Membership
begin

section \<open>Invites\<close>

text \<open>
  Minting, revoking, recovering and confirming invites (\<open>RoomService\<close> in \<open>src/service.ts\<close>),
  under the room mutex. The bytes of an invite never enter the metadata: a receipt carries them
  to the caller and only the descriptor is stored.
\<close>

subsection \<open>Minting\<close>

record invite_receipt =
  iv_invite :: invite
  iv_blob :: string
  iv_reusable :: bool
  iv_recovery_of :: "string option"

record create_invite_request =
  cq_mode :: invite_mode
  cq_role :: "string option"
  cq_min_accepts :: int

definition CreateInviteInputSchema_ok :: "create_invite_request \<Rightarrow> bool" where
  "CreateInviteInputSchema_ok q \<longleftrightarrow>
     opt_ok role_ok (cq_role q) \<and> positive_safe (cq_min_accepts q)
     \<and> (cq_mode q = One_time \<longrightarrow> cq_min_accepts q = 1)"

definition outstanding_invite :: "room \<Rightarrow> bool" where
  "outstanding_invite room \<longleftrightarrow> list_ex (\<lambda>i. i_state i = Live \<or> i_state i = Receipt_pending) (r_invites room)"

definition assert_provenance :: "room \<Rightarrow> unit svc" where
  "assert_provenance room =
     bnd (gets v_provenance) (\<lambda>provenance.
       require (provenance \<or> \<not> outstanding_invite room) (Service_error ''no authenticated invite provenance''))"

definition new_invite :: "string \<Rightarrow> invite_mode \<Rightarrow> string \<Rightarrow> int \<Rightarrow> invite_state \<Rightarrow> string option \<Rightarrow> string \<Rightarrow> invite" where
  "new_invite ident mode role min_accepts st recovery_of at =
     \<lparr>i_invite_id = ident, i_mode = mode, i_role = role, i_min_accepts = min_accepts, i_accepted_cids = [],
      i_state = st, i_recovery_of = recovery_of,
      i_recovery_confirmed = (case recovery_of of None \<Rightarrow> None | Some _ \<Rightarrow> Some False), i_created_at = at\<rparr>"

definition parse_invite :: "invite \<Rightarrow> invite svc" where
  "parse_invite i = (if invite_ok i then ret i else raise Zod_error)"

definition save_invites :: "env \<Rightarrow> room \<Rightarrow> invite list \<Rightarrow> room svc" where
  "save_invites env room invs = save env (room\<lparr>r_invites := invs\<rparr>)"

definition revoke_quietly :: "env \<Rightarrow> string \<Rightarrow> bool svc" where
  "revoke_quietly env ident =
     catch (bnd (packet_revokeInvite env ident) (\<lambda>_. ret True)) (\<lambda>_. ret False)"

definition mintInviteUnlocked :: "env \<Rightarrow> room \<Rightarrow> invite_mode \<Rightarrow> string \<Rightarrow> int \<Rightarrow> invite_receipt svc" where
  "mintInviteUnlocked env room mode role min_accepts =
     andthen hosted
     (andthen (assert_provenance room)
     (bnd (packet_mintInvite env mode) (\<lambda>minted.
      bnd (now env) (\<lambda>at.
      bnd (parse_invite (new_invite (mt_invite_id minted) mode role min_accepts Live None at)) (\<lambda>i.
      bnd (catch (save_invites env room (r_invites room @ [i]))
             (\<lambda>e. bnd (revoke_quietly env (mt_invite_id minted)) (\<lambda>_. raise e))) (\<lambda>_.
        ret \<lparr>iv_invite = i, iv_blob = mt_blob minted, iv_reusable = mt_reusable minted, iv_recovery_of = None\<rparr>))))))"

definition createInvite :: "env \<Rightarrow> create_invite_request \<Rightarrow> invite_receipt svc" where
  "createInvite env q =
     (if \<not> CreateInviteInputSchema_ok q then raise Zod_error
      else
        bnd (load env) (\<lambda>room.
        andthen (assertMutable room)
        (andthen hosted
        (andthen (assert_provenance room)
          (mintInviteUnlocked env room (cq_mode q)
             (case cq_role q of None \<Rightarrow> DEFAULT_ROLE | Some role \<Rightarrow> role) (cq_min_accepts q))))))"

subsection \<open>Revoking\<close>

definition pending_children :: "room \<Rightarrow> string \<Rightarrow> invite list" where
  "pending_children room ident =
     filter (\<lambda>i. i_state i = Receipt_pending \<and> i_recovery_of i = Some ident) (r_invites room)"

definition mark_revoked :: "string list \<Rightarrow> invite list \<Rightarrow> invite list" where
  "mark_revoked idents invs = map (\<lambda>i. if List.member idents (i_invite_id i) then i\<lparr>i_state := Revoked\<rparr> else i) invs"

definition revokeInvite :: "env \<Rightarrow> string \<Rightarrow> invite svc" where
  "revokeInvite env ident =
     (if ident = [] then raise Zod_error
      else
        bnd (load env) (\<lambda>room.
        andthen (assertMutable room)
          (case find_invite (r_invites room) ident of
             None \<Rightarrow> raise (Service_error ''invite does not belong to the room'')
           | Some current \<Rightarrow>
               if i_state current = Revoked then ret current
               else
                 (let children = (if i_state current = Replacement_required then pending_children room ident else []) in
                  andthen hosted
                  (andthen (for_each children (\<lambda>i. bnd (packet_revokeInvite env (i_invite_id i)) (\<lambda>_. ret ())))
                  (bnd (packet_revokeInvite env ident) (\<lambda>_.
                   bnd (save_invites env room (mark_revoked (ident # map i_invite_id children) (r_invites room))) (\<lambda>_.
                     ret (current\<lparr>i_state := Revoked\<rparr>)))))))))"

subsection \<open>Recovery\<close>

text \<open>A replacement that could not be recorded is revoked again, and so is a descriptor that was.\<close>

definition undo_replacement :: "env \<Rightarrow> string \<Rightarrow> unit svc" where
  "undo_replacement env ident =
     bnd (revoke_quietly env ident) (\<lambda>revoked.
       catch
         (bnd (load env) (\<lambda>observed.
            if revoked \<and> list_ex (\<lambda>i. i_invite_id i = ident \<and> i_state i = Receipt_pending) (r_invites observed)
            then bnd (save_invites env observed (mark_revoked [ident] (r_invites observed))) (\<lambda>_. ret ())
            else ret ()))
         (\<lambda>_. ret ()))"

definition rotate_pending :: "env \<Rightarrow> room \<Rightarrow> string \<Rightarrow> room svc" where
  "rotate_pending env room ident =
     (let prior = pending_children room ident in
      andthen (for_each prior (\<lambda>i. bnd (packet_revokeInvite env (i_invite_id i)) (\<lambda>_. ret ())))
        (if prior = [] then ret room
         else save_invites env room (mark_revoked (map i_invite_id prior) (r_invites room))))"

definition recover_one :: "env \<Rightarrow> invite \<Rightarrow> room \<times> invite_receipt list \<Rightarrow> (room \<times> invite_receipt list) svc" where
  "recover_one env stale st =
     bnd (rotate_pending env (fst st) (i_invite_id stale)) (\<lambda>room.
     bnd (revoke_quietly env (i_invite_id stale)) (\<lambda>_.
     bnd (packet_mintInvite env (i_mode stale)) (\<lambda>minted.
     bnd (now env) (\<lambda>at.
     bnd (parse_invite (new_invite (mt_invite_id minted) (i_mode stale) (i_role stale) (i_min_accepts stale)
            Receipt_pending (Some (i_invite_id stale)) at)) (\<lambda>i.
     bnd (catch (save_invites env room (r_invites room @ [i]))
            (\<lambda>e. andthen (undo_replacement env (mt_invite_id minted)) (raise e))) (\<lambda>saved.
       ret (saved, snd st @
         [\<lparr>iv_invite = i, iv_blob = mt_blob minted, iv_reusable = mt_reusable minted,
           iv_recovery_of = Some (i_invite_id stale)\<rparr>])))))))"

definition recoverInvites :: "env \<Rightarrow> invite_receipt list svc" where
  "recoverInvites env =
     bnd (load env) (\<lambda>initial.
     andthen hosted
     (bnd (reconcileUnlocked env initial) (\<lambda>room.
      andthen (assertMutable room)
      (bnd (fold_eff (recover_one env) (filter (\<lambda>i. i_state i = Replacement_required) (r_invites room)) (room, [])) (\<lambda>st.
         ret (snd st))))))"

subsection \<open>Confirmation\<close>

definition find_index :: "('a \<Rightarrow> bool) \<Rightarrow> 'a list \<Rightarrow> nat option" where
  "find_index P xs = List.find (\<lambda>n. P (xs ! n)) [0..<length xs]"

definition confirmed_before :: "string \<Rightarrow> invite \<Rightarrow> invite \<Rightarrow> bool" where
  "confirmed_before oldId old replacement \<longleftrightarrow>
     i_state old = Revoked \<and> i_recovery_of replacement = Some oldId
     \<and> i_recovery_confirmed replacement = Some True
     \<and> (i_state replacement = Live \<or> i_state replacement = Consumed
        \<or> i_state replacement = Replacement_required \<or> i_state replacement = Revoked)"

definition confirmable :: "string \<Rightarrow> invite \<Rightarrow> invite \<Rightarrow> bool" where
  "confirmable oldId old replacement \<longleftrightarrow>
     i_state old = Replacement_required \<and> i_state replacement = Receipt_pending
     \<and> i_recovery_of replacement = Some oldId \<and> i_recovery_confirmed replacement = Some False"

definition confirmed_invite :: "string \<Rightarrow> invite \<Rightarrow> invite" where
  "confirmed_invite oldId replacement =
     replacement\<lparr>i_accepted_cids := [], i_state := Live, i_recovery_of := Some oldId,
       i_recovery_confirmed := Some True\<rparr>"

definition confirm_at :: "env \<Rightarrow> room \<Rightarrow> string \<Rightarrow> nat \<Rightarrow> nat \<Rightarrow> invite svc" where
  "confirm_at env room oldId n k =
     (let old = r_invites room ! n; replacement = r_invites room ! k in
      if confirmed_before oldId old replacement then
        andthen hosted (bnd (reconcileUnlocked env room) (\<lambda>_. ret replacement))
      else if \<not> confirmable oldId old replacement then raise (Service_error ''pointer/state mismatch'')
      else
        andthen hosted
        (bnd (gets v_core_invites) (\<lambda>core.
          case List.find (\<lambda>c. ci_invite_id c = i_invite_id replacement) core of
            None \<Rightarrow> raise (Service_error ''no longer present in SDK identity state'')
          | Some c \<Rightarrow>
              if ci_mode c \<noteq> i_mode replacement then raise (Service_error ''no longer present in SDK identity state'')
              else
                bnd (save_invites env room
                  ((r_invites room)[n := old\<lparr>i_state := Revoked\<rparr>, k := confirmed_invite oldId replacement])) (\<lambda>saved.
                bnd (reconcileUnlocked env saved) (\<lambda>_. ret (confirmed_invite oldId replacement))))))"

definition confirmRecoveredInvite :: "env \<Rightarrow> string \<Rightarrow> string \<Rightarrow> invite svc" where
  "confirmRecoveredInvite env oldId replacementId =
     (if oldId = [] \<or> replacementId = [] then raise Zod_error
      else
        bnd (load env) (\<lambda>room.
        andthen (assertMutable room)
          (case (find_index (\<lambda>i. i_invite_id i = oldId) (r_invites room),
                 find_index (\<lambda>i. i_invite_id i = replacementId) (r_invites room)) of
             (Some n, Some k) \<Rightarrow>
               if n = k then raise (Service_error ''does not match a persisted descriptor'')
               else confirm_at env room oldId n k
           | _ \<Rightarrow> raise (Service_error ''does not match a persisted descriptor''))))"

subsection \<open>They keep the room invariant\<close>

lemma evolves_invites: "evolves room (room\<lparr>r_invites := invs\<rparr>)"
  by (rule evolves_same_seats) simp_all

lemma inv_save_invites:
  assumes "nfc_laws (e_nfc env)" and "held env rid r0 room"
  shows "keeps (room_inv env rid r0) (save_invites env room invs)"
    and "gives (room_inv env rid r0) (held env rid r0) (save_invites env room invs)"
  unfolding save_invites_def by (rule inv_save [OF assms evolves_invites])+

lemma inv_invite_base [keeps_intro]:
  "keeps (room_inv env rid r0) (revoke_quietly env' ident)"
  "keeps (room_inv env rid r0) (parse_invite i)"
  "keeps (room_inv env rid r0) (assert_provenance room)"
  "keeps (room_inv env rid r0) (assertMutable room)"
  unfolding revoke_quietly_def parse_invite_def assert_provenance_def assertMutable_def
  by (intro keeps_intro)+

lemma keeps_mintInvite:
  assumes nfc: "nfc_laws (e_nfc env)" and h: "held env rid r0 room"
  shows "keeps (room_inv env rid r0) (mintInviteUnlocked env room mode role n)"
  unfolding mintInviteUnlocked_def by (intro keeps_intro inv_save_invites(1) [OF nfc h])

lemma keeps_createInvite:
  assumes nfc: "nfc_laws (e_nfc env)"
  shows "keeps (room_inv env rid r0) (createInvite env q)"
  unfolding createInvite_def by (intro keeps_steps inv_invite_base inv_packet(8) keeps_mintInvite [OF nfc])

lemma keeps_revokeInvite:
  assumes nfc: "nfc_laws (e_nfc env)"
  shows "keeps (room_inv env rid r0) (revokeInvite env ident)"
  unfolding revokeInvite_def
  by (intro keeps_steps inv_invite_base inv_packet(8) keeps_for_each keeps_bnd [OF inv_packet(4)] keeps_bnd [OF inv_save_invites(1) [OF nfc]])

lemma keeps_undo_replacement:
  assumes nfc: "nfc_laws (e_nfc env)"
  shows "keeps (room_inv env rid r0) (undo_replacement env ident)"
  unfolding undo_replacement_def
  by (intro keeps_bnd [OF inv_invite_base(1)] keeps_catch keeps_steps keeps_bnd [OF inv_save_invites(1) [OF nfc]])

lemma rotate_pending_inv:
  assumes nfc: "nfc_laws (e_nfc env)" and h: "held env rid r0 room"
  shows "keeps (room_inv env rid r0) (rotate_pending env room ident)"
    and "gives (room_inv env rid r0) (held env rid r0) (rotate_pending env room ident)"
  unfolding rotate_pending_def Let_def
  by (intro keeps_intro inv_save_invites(1) [OF nfc h])
     (intro gives_andthen gives_if gives_ret h inv_save_invites(2) [OF nfc h] keeps_intro)

lemma recover_one_inv:
  assumes nfc: "nfc_laws (e_nfc env)" and h: "held env rid r0 (fst st)"
  shows "keeps (room_inv env rid r0) (recover_one env stale st)
    \<and> gives (room_inv env rid r0) (\<lambda>q. held env rid r0 (fst q)) (recover_one env stale st)"
proof -
  note rot = rotate_pending_inv [OF nfc h]
  have k: "keeps (room_inv env rid r0) (catch (save_invites env room invs)
      (\<lambda>e. andthen (undo_replacement env ident) (raise e)))" if "held env rid r0 room" for room invs ident
    by (intro keeps_catch inv_save_invites(1) [OF nfc that] keeps_andthen keeps_undo_replacement [OF nfc] keeps_raise)
  have g: "gives (room_inv env rid r0) (held env rid r0) (catch (save_invites env room invs)
      (\<lambda>e. andthen (undo_replacement env ident) (raise e)))" if "held env rid r0 room" for room invs ident
    by (intro gives_catch inv_save_invites [OF nfc that] gives_andthen keeps_undo_replacement [OF nfc] gives_raise)
  show ?thesis
    unfolding recover_one_def
    by (intro conjI keeps_bnd_gives [OF rot] keeps_bnd [OF inv_invite_base(1)] keeps_bnd [OF inv_packet(3)]
          keeps_bnd [OF inv_packet(9)] keeps_bnd [OF inv_invite_base(2)] keeps_bnd [OF k] keeps_ret
          gives_bnd [OF rot] gives_bnd_any [OF inv_invite_base(1)] gives_bnd_any [OF inv_packet(3)]
          gives_bnd_any [OF inv_packet(9)] gives_bnd_any [OF inv_invite_base(2)] gives_bnd [OF k g] gives_ret)
       simp_all
qed

lemma keeps_recoverInvites:
  assumes nfc: "nfc_laws (e_nfc env)"
  shows "keeps (room_inv env rid r0) (recoverInvites env)"
proof -
  have f: "keeps (room_inv env rid r0) (fold_eff (recover_one env) xs (room, []))" if h: "held env rid r0 room" for room xs
    using keeps_fold_gives [where P = "\<lambda>q. held env rid r0 (fst q)" and f = "recover_one env" and I = "room_inv env rid r0"]
      recover_one_inv [OF nfc] h by fastforce
  show ?thesis
    unfolding recoverInvites_def
    by (intro keeps_steps inv_packet(8) inv_invite_base keeps_bnd_gives [OF reconcile_inv [OF nfc]] keeps_bnd [OF f])
qed

lemma keeps_confirmRecoveredInvite:
  assumes nfc: "nfc_laws (e_nfc env)"
  shows "keeps (room_inv env rid r0) (confirmRecoveredInvite env oldId newId)"
proof -
  have c: "keeps (room_inv env rid r0) (confirm_at env room oldId n k)" if h: "held env rid r0 room" for room n k
    unfolding confirm_at_def
    by (intro keeps_steps inv_packet(8) keeps_bnd [OF reconcile_inv(1) [OF nfc]] h
        keeps_bnd_gives [OF inv_save_invites [OF nfc h]])
  show ?thesis
    unfolding confirmRecoveredInvite_def by (intro keeps_steps inv_invite_base c)
qed

end
