(* ===== verification/Settings.thy ===== *)
theory Settings
  imports Invites "HOL-Library.Product_Lexorder"
begin

section \<open>Settings, roles, grants and the consumer registry\<close>

text \<open>
  The operator operations of \<open>RoomService\<close> (\<open>src/service.ts\<close>) that edit the stored metadata:
  the room's settings, the role briefings, the roles a REST caller may speak as, the command
  grants, and the registry of consumer commands. The operator's \<open>localeCompare\<close> is a comparison
  of collation keys, the parameter \<open>e_collate\<close>; the deeper checks of a consumer definition (a
  compiled JSON schema, a configured handler) are the parameter \<open>e_validate_definition\<close>.
\<close>

subsection \<open>Settings\<close>

record update_request =
  uq_name :: "string option"
  uq_goal :: "string option"
  uq_briefing :: "string option"
  uq_status :: "string option"
  uq_quiet_membership :: "bool option"

definition default_to :: "'a option \<Rightarrow> 'a \<Rightarrow> 'a" where
  "default_to v d = (case v of None \<Rightarrow> d | Some x \<Rightarrow> x)"

definition UpdateRoomInputSchema_parse :: "(string \<Rightarrow> string) \<Rightarrow> update_request \<Rightarrow> update_request option" where
  "UpdateRoomInputSchema_parse nfc q =
     (case opt_parse (room_name_parse nfc) (uq_name q) of None \<Rightarrow> None
      | Some name \<Rightarrow>
          if opt_ok text_ok (uq_goal q) \<and> opt_ok text_ok (uq_briefing q) \<and> opt_ok nonempty (uq_status q)
            \<and> \<not> (uq_name q = None \<and> uq_goal q = None \<and> uq_briefing q = None \<and> uq_status q = None
                  \<and> uq_quiet_membership q = None)
          then Some (q\<lparr>uq_name := name\<rparr>) else None)"

definition briefing_changed :: "update_request \<Rightarrow> room \<Rightarrow> bool" where
  "briefing_changed q room \<longleftrightarrow> uq_briefing q \<noteq> None \<and> uq_briefing q \<noteq> Some (mi_briefing (r_mission room))"

definition updated_room :: "update_request \<Rightarrow> room \<Rightarrow> room" where
  "updated_room q room =
     room\<lparr>r_room_name := default_to (uq_name q) (r_room_name room),
          r_mission := \<lparr>mi_goal = default_to (uq_goal q) (mi_goal (r_mission room)),
                        mi_briefing = default_to (uq_briefing q) (mi_briefing (r_mission room)),
                        mi_briefing_version = (if briefing_changed q room
                          then mi_briefing_version (r_mission room) + 1 else mi_briefing_version (r_mission room))\<rparr>,
          r_quiet_membership := default_to (uq_quiet_membership q) (r_quiet_membership room),
          r_status := (case uq_status q of None \<Rightarrow> r_status room | Some st \<Rightarrow> Some st)\<rparr>"

definition updateRoom :: "env \<Rightarrow> update_request \<Rightarrow> (room \<times> bool) svc" where
  "updateRoom env request =
     (case UpdateRoomInputSchema_parse (e_nfc env) request of None \<Rightarrow> raise Zod_error
      | Some q \<Rightarrow>
          bnd (load env) (\<lambda>room.
          andthen (assertMutable room)
            (bnd (save env (updated_room q room)) (\<lambda>saved.
               if briefing_changed q room \<and> r_state saved = Room_active
               then andthen (redeliverCommonBriefing env saved) (ret (saved, True))
               else ret (saved, False)))))"

subsection \<open>Role briefings\<close>

definition store_briefing :: "env \<Rightarrow> room \<Rightarrow> string \<Rightarrow> role_briefing \<Rightarrow> (room \<times> bool) svc" where
  "store_briefing env room role b =
     bnd (save env (room\<lparr>r_role_briefings := AList.update role b (r_role_briefings room)\<rparr>)) (\<lambda>saved.
       (let holders = filter (\<lambda>s. s_role s = role) (active_seats saved) in
        if r_state saved \<noteq> Room_active \<or> holders = [] then ret (saved, False)
        else
          andthen (ensureBriefingKind env saved holders
              \<lparr>bf_category = Role_briefing, bf_role = Some role, bf_text = b_text b, bf_version = b_version b\<rparr>)
            (ret (saved, True))))"

text \<open>The version of an inherited member is not a number, which the schema refuses.\<close>

definition setRoleBriefing :: "env \<Rightarrow> string \<Rightarrow> string \<Rightarrow> (room \<times> bool) svc" where
  "setRoleBriefing env role text =
     (if \<not> role_ok role \<or> \<not> text_ok text then raise Zod_error
      else
        bnd (load env) (\<lambda>room.
        andthen (assertMutable room)
          (case js_get (r_role_briefings room) role of
             Own b \<Rightarrow>
               if b_text b = text then ret (room, False)
               else bnd (now env) (\<lambda>at.
                 store_briefing env room role \<lparr>b_text = text, b_version = b_version b + 1, b_updated_at = at\<rparr>)
           | Absent \<Rightarrow>
               bnd (now env) (\<lambda>at. store_briefing env room role \<lparr>b_text = text, b_version = 1, b_updated_at = at\<rparr>)
           | Inherited \<Rightarrow> bnd (now env) (\<lambda>at. raise Zod_error))))"

definition deleteRoleBriefing :: "env \<Rightarrow> string \<Rightarrow> room svc" where
  "deleteRoleBriefing env role =
     (if \<not> role_ok role then raise Zod_error
      else
        bnd (load env) (\<lambda>room.
        andthen (assertMutable room)
          (if js_get (r_role_briefings room) role = Absent then raise (Service_error ''no role briefing exists'')
           else save env (room\<lparr>r_role_briefings := AList.delete role (r_role_briefings room)\<rparr>))))"

subsection \<open>Roles a REST caller may speak as\<close>

definition addRestRole :: "env \<Rightarrow> string \<Rightarrow> room svc" where
  "addRestRole env role =
     (if \<not> role_ok role then raise Zod_error
      else if role = ROOM_ROLE then raise (Service_error ''role is reserved'')
      else
        bnd (load env) (\<lambda>room.
        andthen (assertMutable room)
          (if List.member (r_rest_roles room) role then ret room
           else save env (room\<lparr>r_rest_roles := r_rest_roles room @ [role]\<rparr>))))"

definition removeRestRole :: "env \<Rightarrow> string \<Rightarrow> room svc" where
  "removeRestRole env role =
     (if \<not> role_ok role then raise Zod_error
      else
        bnd (load env) (\<lambda>room.
        andthen (assertMutable room)
          (if \<not> List.member (r_rest_roles room) role then ret room
           else save env (room\<lparr>r_rest_roles := filter (\<lambda>x. x \<noteq> role) (r_rest_roles room)\<rparr>))))"

subsection \<open>Command grants\<close>

definition registered_consumer :: "room \<Rightarrow> string \<Rightarrow> bool" where
  "registered_consumer room name \<longleftrightarrow>
     list_ex (\<lambda>d. cd_name d = name) (default_to (r_consumer_commands room) [])"

definition assertRegisteredConsumerName :: "room \<Rightarrow> string \<Rightarrow> unit svc" where
  "assertRegisteredConsumerName room name =
     require (\<not> (starts_with ''consumer.'' name \<and> \<not> ends_with ''.*'' name \<and> \<not> registered_consumer room name))
       (Service_error ''consumer command is not registered'')"

definition grant_key :: "env \<Rightarrow> grant \<Rightarrow> string \<times> string" where
  "grant_key env g = (e_collate env (g_caller_cid g), e_collate env (g_command g))"

definition grantRuntimeCommand :: "env \<Rightarrow> grant \<Rightarrow> grant list svc" where
  "grantRuntimeCommand env request =
     (case grant_parse request of None \<Rightarrow> raise Zod_error
      | Some g \<Rightarrow>
          bnd (load env) (\<lambda>room.
          andthen (assertMutable room)
          (andthen (assertRegisteredConsumerName room (g_command g))
            (if \<not> is_active_cid room (g_caller_cid g) then raise (Service_error ''not an active room identity'')
             else if list_ex (\<lambda>x. g_caller_cid x = g_caller_cid g \<and> g_command x = g_command g) (r_command_grants room)
             then ret (r_command_grants room)
             else
               bnd (save env (room\<lparr>r_command_grants := sort_key (grant_key env) (r_command_grants room @ [g])\<rparr>)) (\<lambda>saved.
                 ret (r_command_grants saved))))))"

definition revokeRuntimeCommand :: "env \<Rightarrow> grant \<Rightarrow> grant list svc" where
  "revokeRuntimeCommand env request =
     (case grant_parse request of None \<Rightarrow> raise Zod_error
      | Some g \<Rightarrow>
          bnd (load env) (\<lambda>room.
          andthen (assertMutable room)
            (let kept = filter (\<lambda>x. g_caller_cid x \<noteq> g_caller_cid g \<or> g_command x \<noteq> g_command g) (r_command_grants room) in
             if length kept = length (r_command_grants room) then ret (r_command_grants room)
             else bnd (save env (room\<lparr>r_command_grants := kept\<rparr>)) (\<lambda>saved. ret (r_command_grants saved)))))"

definition role_grants_with :: "env \<Rightarrow> role_grant \<Rightarrow> role_grant list \<Rightarrow> role_grant list" where
  "role_grants_with env g grants =
     (let retained = filter (\<lambda>x. rg_role x \<noteq> rg_role g) grants in
      if rg_commands g = [] then retained
      else sort_key (\<lambda>x. e_collate env (rg_role x)) (retained @ [g\<lparr>rg_commands := sort (rg_commands g)\<rparr>]))"

definition setRuntimeRoleCommands :: "env \<Rightarrow> role_grant \<Rightarrow> role_grant list svc" where
  "setRuntimeRoleCommands env g =
     (if \<not> role_grant_ok g then raise Zod_error
      else
        bnd (load env) (\<lambda>room.
        andthen (assertMutable room)
        (andthen (for_each (rg_commands g) (assertRegisteredConsumerName room))
          (let grants = role_grants_with env g (r_role_command_grants room) in
           if grants = r_role_command_grants room then ret (r_role_command_grants room)
           else bnd (save env (room\<lparr>r_role_command_grants := grants\<rparr>)) (\<lambda>saved.
             ret (r_role_command_grants saved))))))"

subsection \<open>Consumer commands\<close>

definition registry_revision :: "room \<Rightarrow> int" where
  "registry_revision room = default_to (r_consumer_commands_revision room) 0"

definition registry :: "room \<Rightarrow> consumer_definition list" where
  "registry room = default_to (r_consumer_commands room) []"

text \<open>A changed definition drops every grant of its exact name.\<close>

definition with_definitions :: "room \<Rightarrow> consumer_definition list \<Rightarrow> string list \<Rightarrow> room" where
  "with_definitions room ds changed =
     room\<lparr>r_consumer_commands := Some ds,
          r_consumer_commands_revision := Some (registry_revision room + 1),
          r_command_grants := filter (\<lambda>g. \<not> List.member changed (g_command g)) (r_command_grants room),
          r_role_command_grants := filter (\<lambda>g. rg_commands g \<noteq> [])
            (map (\<lambda>g. g\<lparr>rg_commands := filter (\<lambda>c. \<not> List.member changed c) (rg_commands g)\<rparr>)
              (r_role_command_grants room))\<rparr>"

definition saveConsumerDefinitions ::
  "env \<Rightarrow> room \<Rightarrow> consumer_definition list \<Rightarrow> string list \<Rightarrow> room svc" where
  "saveConsumerDefinitions env room ds changed =
     bnd (lift_sum (RoomSchema_parse (e_nfc env) (with_definitions room ds changed))) (\<lambda>parsed.
     andthen (modify (\<lambda>w. w\<lparr>v_published := None\<rparr>)) (store_save env parsed))"

definition same_definition :: "consumer_definition \<Rightarrow> consumer_definition \<Rightarrow> bool" where
  "same_definition a b \<longleftrightarrow> cd_name a = cd_name b \<and> cd_description a = cd_description b
     \<and> cd_input_schema a = cd_input_schema b \<and> cd_handler a = cd_handler b"

definition prior_local :: "room \<Rightarrow> consumer_definition \<Rightarrow> consumer_definition option" where
  "prior_local room d = List.find (\<lambda>x. cd_name x = cd_name d \<and> cd_source x = Local_source) (registry room)"

definition unchanged_local :: "room \<Rightarrow> consumer_definition \<Rightarrow> consumer_definition option" where
  "unchanged_local room d =
     (case prior_local room d of None \<Rightarrow> None | Some p \<Rightarrow> if same_definition p d then Some p else None)"

definition synced_definitions :: "room \<Rightarrow> consumer_definition list \<Rightarrow> consumer_definition list" where
  "synced_definitions room locals =
     filter (\<lambda>d. cd_source d = Rest_source) (registry room)
     @ map (\<lambda>d. case unchanged_local room d of Some p \<Rightarrow> p
             | None \<Rightarrow> d\<lparr>cd_source := Local_source, cd_revision := registry_revision room + 1\<rparr>) locals"

definition changed_names :: "room \<Rightarrow> consumer_definition list \<Rightarrow> string list" where
  "changed_names room locals =
     map cd_name (filter (\<lambda>d. unchanged_local room d = None) locals)
     @ map cd_name (filter (\<lambda>p. cd_source p = Local_source \<and> \<not> list_ex (\<lambda>d. cd_name d = cd_name p) locals) (registry room))"

definition syncLocalConsumerCommands :: "env \<Rightarrow> unit svc" where
  "syncLocalConsumerCommands env =
     bnd (call (e_local_definitions env)) (\<lambda>locals.
     bnd (load env) (\<lambda>room.
       if list_ex (\<lambda>d. list_ex (\<lambda>x. cd_source x = Rest_source \<and> cd_name x = cd_name d) (registry room)) locals
       then raise (Service_error ''local/REST consumer name collision'')
       else if changed_names room locals = [] then ret ()
       else bnd (saveConsumerDefinitions env room (synced_definitions room locals) (changed_names room locals)) (\<lambda>_. ret ())))"

definition registerRuntimeCommands :: "env \<Rightarrow> bool \<Rightarrow> unit svc" where
  "registerRuntimeCommands env syncLocal =
     andthen (if syncLocal then syncLocalConsumerCommands env else ret ())
     (bnd (load env) (\<lambda>registered.
      andthen (modify (\<lambda>w. w\<lparr>v_published := None\<rparr>))
      (andthen (sdk env (e_register env))
        (modify (\<lambda>w. w\<lparr>v_published := Some (registry_revision registered)\<rparr>)))))"

definition consumerDefinitions :: "env \<Rightarrow> (int \<times> bool \<times> consumer_definition list) svc" where
  "consumerDefinitions env =
     bnd (load env) (\<lambda>room.
     bnd (gets v_published) (\<lambda>published.
       ret (registry_revision room, published = Some (registry_revision room), registry room)))"

definition publishConsumerCommands :: "env \<Rightarrow> (int \<times> bool \<times> consumer_definition list) svc" where
  "publishConsumerCommands env =
     andthen (catch (andthen hosted (registerRuntimeCommands env False)) (\<lambda>_. ret ()))
       (consumerDefinitions env)"

definition consumer_input_ok :: "consumer_definition \<Rightarrow> bool" where
  "consumer_input_ok d \<longleftrightarrow>
     consumer_name_ok (cd_name d) \<and> 1 \<le> js_length (cd_description d) \<and> js_length (cd_description d) \<le> 1024
     \<and> 1 \<le> js_length (cd_handler d) \<and> js_length (cd_handler d) \<le> 128"

definition registerConsumerCommand ::
  "env \<Rightarrow> int \<Rightarrow> consumer_definition \<Rightarrow> (int \<times> bool \<times> consumer_definition list) svc" where
  "registerConsumerCommand env expected d =
     (if \<not> nonneg_safe expected \<or> \<not> consumer_input_ok d then raise Zod_error
      else if \<not> e_validate_definition env d then raise (Service_error ''invalid consumer definition'')
      else
        bnd (load env) (\<lambda>room.
        andthen (assertMutable room)
          (if expected \<noteq> registry_revision room then raise (Service_error ''stale consumer registry revision'')
           else if list_ex (\<lambda>x. cd_name x = cd_name d \<and> cd_source x = Local_source) (registry room)
           then raise (Service_error ''cannot overwrite a local consumer definition'')
           else
             bnd (saveConsumerDefinitions env room
                (filter (\<lambda>x. cd_name x \<noteq> cd_name d) (registry room)
                 @ [d\<lparr>cd_source := Rest_source, cd_revision := expected + 1\<rparr>]) [cd_name d]) (\<lambda>_.
             publishConsumerCommands env))))"

definition deleteConsumerCommand ::
  "env \<Rightarrow> int \<Rightarrow> string \<Rightarrow> (int \<times> bool \<times> consumer_definition list) svc" where
  "deleteConsumerCommand env expected name =
     (if \<not> nonneg_safe expected then raise Zod_error
      else
        bnd (load env) (\<lambda>room.
        andthen (assertMutable room)
          (if expected \<noteq> registry_revision room then raise (Service_error ''stale consumer registry revision'')
           else
             (case List.find (\<lambda>x. cd_name x = name) (registry room) of
                None \<Rightarrow> raise (Service_error ''consumer command is not registered'')
              | Some target \<Rightarrow>
                  if cd_source target = Local_source then raise (Service_error ''cannot delete a local definition'')
                  else
                    bnd (saveConsumerDefinitions env room (filter (\<lambda>x. cd_name x \<noteq> name) (registry room)) [name]) (\<lambda>_.
                    publishConsumerCommands env)))))"

definition reloadConsumerCommands :: "env \<Rightarrow> (int \<times> bool \<times> consumer_definition list) svc" where
  "reloadConsumerCommands env =
     bnd (load env) (\<lambda>room.
     andthen (assertMutable room)
     (andthen (syncLocalConsumerCommands env) (publishConsumerCommands env)))"

text \<open>What \<open>invokeConsumerCommand\<close> decides under the mutex; the HTTP call follows outside of it.\<close>

definition authorizeConsumerCommand :: "env \<Rightarrow> string \<Rightarrow> string \<Rightarrow> consumer_definition option svc" where
  "authorizeConsumerCommand env name sender =
     bnd (load env) (\<lambda>room.
     bnd (gets v_published) (\<lambda>published.
       ret (case List.find (\<lambda>x. cd_name x = name) (registry room) of
              None \<Rightarrow> None
            | Some d \<Rightarrow>
                if r_state room \<noteq> Room_active \<or> lifecycle_pending room
                  \<or> published \<noteq> Some (registry_revision room)
                  \<or> \<not> is_active_cid room sender \<or> \<not> hasRuntimeCommandGrant room sender name
                then None else Some d)))"

subsection \<open>They keep the room invariant\<close>

lemma inv_sum_save:
  assumes nfc: "nfc_laws (e_nfc env)" and h: "held env rid r0 room" and e: "evolves room new"
  shows "keeps (room_inv env rid r0) (bnd (lift_sum (RoomSchema_parse (e_nfc env) new))
    (\<lambda>parsed. andthen (modify (\<lambda>w. w\<lparr>v_published := None\<rparr>)) (store_save env parsed)))"
  by (intro keeps_bnd_gives [OF keeps_lift_sum gives_parse [OF h e]] keeps_andthen inv_modify
      inv_store_save(1) [OF nfc _ evolves_refl]) simp_all

lemma keeps_updateRoom:
  assumes nfc: "nfc_laws (e_nfc env)"
  shows "keeps (room_inv env rid r0) (updateRoom env q)"
proof -
  have e: "evolves room (updated_room p room)" for room p
    by (rule evolves_same_seats) (simp_all add: updated_room_def)
  show ?thesis
    unfolding updateRoom_def
    by (intro keeps_steps inv_invite_base keeps_save_then [OF nfc _ e] keeps_ensureActivationBriefing held_id)
qed

lemma keeps_store_briefing:
  assumes nfc: "nfc_laws (e_nfc env)" and h: "held env rid r0 room"
  shows "keeps (room_inv env rid r0) (store_briefing env room role b)"
proof -
  have e: "evolves room (room\<lparr>r_role_briefings := bs\<rparr>)" for bs
    by (rule evolves_same_seats) simp_all
  show ?thesis
    unfolding store_briefing_def
    by (intro keeps_steps keeps_save_then [OF nfc h e] keeps_ensureBriefingKind held_id)
qed

lemma keeps_setRoleBriefing:
  assumes nfc: "nfc_laws (e_nfc env)"
  shows "keeps (room_inv env rid r0) (setRoleBriefing env role text)"
proof -
  have c: "keeps (room_inv env rid r0) (case v of Own b \<Rightarrow> f b | Absent \<Rightarrow> m | Inherited \<Rightarrow> k)"
    if "\<And>b. keeps (room_inv env rid r0) (f b)" "keeps (room_inv env rid r0) m" "keeps (room_inv env rid r0) k"
    for v f m k
    using that by (cases v) auto
  show ?thesis
    unfolding setRoleBriefing_def
    by (intro keeps_steps inv_invite_base c keeps_store_briefing [OF nfc])
qed

lemma keeps_deleteRoleBriefing:
  assumes nfc: "nfc_laws (e_nfc env)"
  shows "keeps (room_inv env rid r0) (deleteRoleBriefing env role)"
proof -
  have e: "evolves room (room\<lparr>r_role_briefings := bs\<rparr>)" for room bs
    by (rule evolves_same_seats) simp_all
  show ?thesis
    unfolding deleteRoleBriefing_def by (intro keeps_steps inv_invite_base inv_save(1) [OF nfc _ e])
qed

lemma keeps_rest_roles:
  assumes nfc: "nfc_laws (e_nfc env)"
  shows "keeps (room_inv env rid r0) (addRestRole env role)"
    and "keeps (room_inv env rid r0) (removeRestRole env role)"
proof -
  have e: "evolves room (room\<lparr>r_rest_roles := rs\<rparr>)" for room rs
    by (rule evolves_same_seats) simp_all
  show "keeps (room_inv env rid r0) (addRestRole env role)"
    and "keeps (room_inv env rid r0) (removeRestRole env role)"
    unfolding addRestRole_def removeRestRole_def
    by (intro keeps_steps inv_invite_base inv_save(1) [OF nfc _ e]; assumption)+
qed

lemma keeps_grants:
  assumes nfc: "nfc_laws (e_nfc env)"
  shows "keeps (room_inv env rid r0) (grantRuntimeCommand env g)"
    and "keeps (room_inv env rid r0) (revokeRuntimeCommand env g)"
    and "keeps (room_inv env rid r0) (setRuntimeRoleCommands env rg)"
proof -
  have e: "evolves room (room\<lparr>r_command_grants := gs\<rparr>)" "evolves room (room\<lparr>r_role_command_grants := rs\<rparr>)" for room gs rs
    by (rule evolves_same_seats; simp)+
  show "keeps (room_inv env rid r0) (grantRuntimeCommand env g)"
    and "keeps (room_inv env rid r0) (revokeRuntimeCommand env g)"
    and "keeps (room_inv env rid r0) (setRuntimeRoleCommands env rg)"
    unfolding grantRuntimeCommand_def revokeRuntimeCommand_def setRuntimeRoleCommands_def assertRegisteredConsumerName_def
    by (intro keeps_steps inv_invite_base keeps_for_each keeps_save_then [OF nfc _ e(1)]
        keeps_save_then [OF nfc _ e(2)]; assumption)+
qed

lemma keeps_saveConsumerDefinitions:
  assumes nfc: "nfc_laws (e_nfc env)" and h: "held env rid r0 room"
  shows "keeps (room_inv env rid r0) (saveConsumerDefinitions env room ds changed)"
  unfolding saveConsumerDefinitions_def
  by (rule inv_sum_save [OF nfc h], rule evolves_same_seats) (simp_all add: with_definitions_def)

lemma keeps_syncLocal:
  assumes nfc: "nfc_laws (e_nfc env)"
  shows "keeps (room_inv env rid r0) (syncLocalConsumerCommands env)"
  unfolding syncLocalConsumerCommands_def
  by (intro keeps_bnd [OF inv_base(2)] keeps_steps keeps_bnd [OF keeps_saveConsumerDefinitions [OF nfc]])

lemma keeps_registerRuntimeCommands:
  assumes nfc: "nfc_laws (e_nfc env)"
  shows "keeps (room_inv env rid r0) (registerRuntimeCommands env sync)"
  unfolding registerRuntimeCommands_def
  by (intro keeps_steps keeps_syncLocal [OF nfc] inv_sdk inv_modify) simp_all

lemma keeps_publish:
  assumes nfc: "nfc_laws (e_nfc env)"
  shows "keeps (room_inv env rid r0) (publishConsumerCommands env)"
  unfolding publishConsumerCommands_def consumerDefinitions_def
  by (intro keeps_steps keeps_catch inv_packet(8) keeps_registerRuntimeCommands [OF nfc])

lemma keeps_consumer_operations:
  assumes nfc: "nfc_laws (e_nfc env)"
  shows "keeps (room_inv env rid r0) (registerConsumerCommand env n d)"
    and "keeps (room_inv env rid r0) (deleteConsumerCommand env n name)"
    and "keeps (room_inv env rid r0) (reloadConsumerCommands env)"
    and "keeps (room_inv env rid r0) (authorizeConsumerCommand env name sender)"
  unfolding registerConsumerCommand_def deleteConsumerCommand_def reloadConsumerCommands_def authorizeConsumerCommand_def
  by (intro keeps_steps inv_invite_base keeps_bnd [OF keeps_saveConsumerDefinitions [OF nfc]] keeps_publish [OF nfc]
      keeps_syncLocal [OF nfc]; assumption)+

end
