(* ===== verification/Lifecycle.thy ===== *)
theory Lifecycle
  imports Settings
begin

section \<open>The life of a room\<close>

text \<open>
  Creation, recovery and rebinding (\<open>RoomService\<close> in \<open>src/service.ts\<close>), with the parts
  of \<open>CoworkStore\<close> (\<open>create\<close>, \<open>discardPendingProvisioning\<close>) and of \<open>PacketRegistry\<close>
  (\<open>src/packets.ts\<close>) they rest on.
\<close>

subsection \<open>The packet registry\<close>

definition assertStandardIdentity :: "env \<Rightarrow> string \<Rightarrow> string \<Rightarrow> unit svc" where
  "assertStandardIdentity env rid name =
     (case sdkIdentityNameError (e_nfc env) name of
        Some detail \<Rightarrow> raise (Name_error ''NAME_INVALID'')
      | None \<Rightarrow> require (isStandardRoomIdentityName (e_nfc env) rid name) Legacy_state)"

definition preflightCreate :: "env \<Rightarrow> string \<Rightarrow> string \<Rightarrow> unit svc" where
  "preflightCreate env rid name =
     andthen (assertStandardIdentity env rid name)
     (bnd (gets v_hosted) (\<lambda>h.
      andthen (require (\<not> h) (Plain_error ''already hosted''))
      (bnd (call (e_identity_names env)) (\<lambda>names.
       require (\<not> List.member names name) (Name_error ''NAME_TAKEN'')))))"

definition is_name_error :: "err \<Rightarrow> bool" where
  "is_name_error e \<longleftrightarrow> (case e of Name_error c \<Rightarrow> True | _ \<Rightarrow> False)"

text \<open>A packet starts with empty caches and is registered once its first refresh succeeded.\<close>

definition host_packet :: "env \<Rightarrow> string \<Rightarrow> unit svc" where
  "host_packet env cid =
     andthen (modify (\<lambda>w. w\<lparr>v_cid := cid, v_contacts := [], v_core_invites := [], v_provenance := False\<rparr>))
     (andthen (refresh env) (modify (\<lambda>w. w\<lparr>v_hosted := True\<rparr>)))"

definition packets_create :: "env \<Rightarrow> string \<Rightarrow> string \<Rightarrow> string svc" where
  "packets_create env rid name =
     andthen (preflightCreate env rid name)
       (catch (bnd (call (\<lambda>t. e_create env t name)) (\<lambda>cid. andthen (host_packet env cid) (ret cid)))
         (\<lambda>e. raise (if is_name_error e then e else Plain_error ''failed to provision identity'')))"

definition packets_restore :: "env \<Rightarrow> string \<Rightarrow> string \<Rightarrow> string \<Rightarrow> string svc" where
  "packets_restore env rid expected name =
     andthen (assertStandardIdentity env rid name)
     (andthen (require (expected \<noteq> []) (Plain_error ''no durably recorded CID''))
     (bnd (gets v_hosted) (\<lambda>h.
      andthen (require (\<not> h) (Plain_error ''already hosted''))
      (bnd (call (e_identity_names env)) (\<lambda>names.
       andthen (require (List.member names name) (Plain_error ''identity is missing''))
       (bnd (call (\<lambda>t. e_restore env t expected name)) (\<lambda>cid.
        andthen (require (cid = expected) (Plain_error ''CID mismatch''))
        (andthen (host_packet env cid) (ret cid)))))))))"

definition packets_destroy :: "env \<Rightarrow> unit svc" where
  "packets_destroy env =
     bnd (gets v_hosted) (\<lambda>h.
       if \<not> h then ret ()
       else andthen (call (e_destroy env)) (modify (\<lambda>w. w\<lparr>v_hosted := False\<rparr>)))"

subsection \<open>Creation\<close>

record create_room_request =
  nq_name :: "string option"
  nq_goal :: string
  nq_briefing :: string
  nq_anonymous :: "bool option"
  nq_quiet_membership :: "bool option"
  nq_activation_requirements :: "activation_requirement list option"

definition CreateRoomInputSchema_parse :: "(string \<Rightarrow> string) \<Rightarrow> create_room_request \<Rightarrow> create_room_request option" where
  "CreateRoomInputSchema_parse nfc q =
     (case opt_parse (room_name_parse nfc) (nq_name q) of None \<Rightarrow> None
      | Some name \<Rightarrow>
          if text_ok (nq_goal q) \<and> text_ok (nq_briefing q)
            \<and> opt_ok activation_requirements_ok (nq_activation_requirements q)
          then Some (q\<lparr>nq_name := name\<rparr>) else None)"

definition provisional_room :: "string \<Rightarrow> string \<Rightarrow> string \<Rightarrow> create_room_request \<Rightarrow> string \<Rightarrow> room" where
  "provisional_room rid name identity q at =
     \<lparr>r_room_id = rid, r_room_name = name, r_identity_name = identity, r_identity_cid = [],
      r_state = Provisioning, r_activation_requirements = nq_activation_requirements q,
      r_status = Some ''packet_pending'', r_invites = [], r_created_at = at, r_activated_at = None,
      r_closed_at = None,
      r_mission = \<lparr>mi_goal = nq_goal q, mi_briefing = nq_briefing q, mi_briefing_version = 1\<rparr>,
      r_role_briefings = [], r_rest_roles = [], r_command_grants = [], r_consumer_commands = None,
      r_consumer_commands_revision = None, r_lifecycle_request = None, r_role_command_grants = [],
      r_anonymous = default_to (nq_anonymous q) False,
      r_quiet_membership = default_to (nq_quiet_membership q) False, r_membership_epoch = 0, r_seats = []\<rparr>"

definition store_create :: "env \<Rightarrow> room \<Rightarrow> room svc" where
  "store_create env input w =
     (case RoomSchema_parse (e_nfc env) input of
        Inl e \<Rightarrow> (Inl e, w)
      | Inr room \<Rightarrow>
          (if v_room w \<noteq> None then (Inl (Storage_error ''room already exists''), w)
           else (Inr room, w\<lparr>v_room := Some room, v_archive := empty_archive\<rparr>)))"

definition empty_sentinel :: "room \<Rightarrow> string \<Rightarrow> bool" where
  "empty_sentinel room name \<longleftrightarrow>
     r_state room = Provisioning \<and> r_status room = Some ''packet_pending'' \<and> r_identity_cid room = []
     \<and> r_identity_name room = name \<and> r_invites room = [] \<and> r_seats room = []"

definition discardPendingProvisioning :: "env \<Rightarrow> string \<Rightarrow> unit svc" where
  "discardPendingProvisioning env name =
     bnd (load env) (\<lambda>room.
     bnd (gets (\<lambda>w. a_rows (v_archive w))) (\<lambda>rows.
     andthen (require (empty_sentinel room name \<and> rows = []) (Storage_error ''not the exact empty provisioning sentinel''))
       (modify (\<lambda>w. w\<lparr>v_room := None\<rparr>))))"

text \<open>\<open>rid\<close> is the room id just minted.\<close>

definition createRoom :: "env \<Rightarrow> string \<Rightarrow> create_room_request \<Rightarrow> room svc" where
  "createRoom env rid request =
     (case CreateRoomInputSchema_parse (e_nfc env) request of None \<Rightarrow> raise Zod_error
      | Some q \<Rightarrow>
     (if \<not> ulid_ok rid then raise Zod_error
      else case (case nq_name q of Some n \<Rightarrow> Some n | None \<Rightarrow> defaultRoomName rid) of None \<Rightarrow> raise Zod_error
      | Some name \<Rightarrow>
          bnd (lift_sum (roomIdentityName (e_nfc env) name)) (\<lambda>identity.
          andthen (preflightCreate env rid identity)
          (bnd (now env) (\<lambda>at.
           bnd (lift_sum (RoomSchema_parse (e_nfc env) (provisional_room rid name identity q at))) (\<lambda>provisional.
           andthen (store_create env provisional)
           (bnd (catch (packets_create env rid identity)
                   (\<lambda>e. if is_name_error e
                         then andthen (catch (discardPendingProvisioning env identity)
                                (\<lambda>_. raise (Plain_error ''could not be discarded''))) (raise e)
                         else raise e)) (\<lambda>cid.
            bnd (save env (provisional\<lparr>r_status := None, r_identity_cid := cid\<rparr>)) (\<lambda>room.
            andthen (registerRuntimeCommands env True) (ret room))))))))))"

subsection \<open>Recovery\<close>

definition isPacketPending :: "env \<Rightarrow> room \<Rightarrow> bool" where
  "isPacketPending env room \<longleftrightarrow>
     r_identity_cid room = [] \<and> r_state room = Provisioning \<and> r_status room = Some ''packet_pending''
     \<and> isPersistedRoomIdentityName (e_nfc env) (r_room_id room) (r_identity_name room)"

definition correct_pending_name :: "env \<Rightarrow> room \<Rightarrow> room svc" where
  "correct_pending_name env room =
     (if isPacketPending env room \<and> \<not> isStandardRoomIdentityName (e_nfc env) (r_room_id room) (r_identity_name room)
      then bnd (lift_sum (roomIdentityName (e_nfc env) (drop (length ROOM_IDENTITY_PREFIX) (r_identity_name room)))) (\<lambda>name.
        save env (room\<lparr>r_identity_name := name\<rparr>))
      else ret room)"

definition recovered_cid :: "env \<Rightarrow> string \<Rightarrow> room \<Rightarrow> string svc" where
  "recovered_cid env rid room =
     bnd (gets v_hosted) (\<lambda>h.
       if h then
         bnd (gets v_cid) (\<lambda>cid.
           if \<not> isPacketPending env room \<and> cid \<noteq> r_identity_cid room
           then raise (Service_error ''restored room packet CID mismatch'') else ret cid)
       else if isPacketPending env room then
         catch (packets_create env rid (r_identity_name room))
           (\<lambda>_. raise (Service_error ''failed to recover unproven packet-pending identity''))
       else
         bnd (catch (packets_restore env rid (r_identity_cid room) (r_identity_name room))
                (\<lambda>_. raise (Service_error ''failed to restore established room packet''))) (\<lambda>cid.
           if cid \<noteq> r_identity_cid room then raise (Service_error ''restored room packet CID mismatch'') else ret cid))"

definition recoverPacketUnlocked :: "env \<Rightarrow> string \<Rightarrow> room \<Rightarrow> room svc" where
  "recoverPacketUnlocked env rid initial =
     (if r_state initial = Closed then ret initial
      else
        bnd (correct_pending_name env initial) (\<lambda>room.
        bnd (recovered_cid env rid room) (\<lambda>cid.
        bnd (if isPacketPending env room then save env (room\<lparr>r_status := None, r_identity_cid := cid\<rparr>) else ret room) (\<lambda>current.
        andthen (registerRuntimeCommands env True) (ret current)))))"

definition recoverPacket :: "env \<Rightarrow> string \<Rightarrow> room svc" where
  "recoverPacket env rid = bnd (load env) (recoverPacketUnlocked env rid)"

definition recoverRoom :: "env \<Rightarrow> string \<Rightarrow> room svc" where
  "recoverRoom env rid =
     bnd (load env) (\<lambda>initial.
     bnd (recoverPacketUnlocked env rid initial) (\<lambda>room.
       if r_state room = Closed \<or> r_state room = Closing then ret room
       else andthen hosted (reconcileUnlocked env room)))"

definition reconcileRoom :: "env \<Rightarrow> room svc" where
  "reconcileRoom env = bnd (load env) (\<lambda>room. andthen hosted (reconcileUnlocked env room))"

text \<open>\<open>rebindIdentity\<close> up to the pump run it ends with.\<close>

definition rebindIdentity :: "env \<Rightarrow> string \<Rightarrow> room svc" where
  "rebindIdentity env rid =
     bnd (load env) (\<lambda>room.
       if r_state room = Closed \<or> r_state room = Closing then raise (Service_error ''closing or closed'')
       else
         bnd (gets v_hosted) (\<lambda>h.
         bnd (if isPacketPending env room \<or> \<not> h then recoverPacket env rid
              else andthen (rebind env) (ret room)) (\<lambda>current.
         bnd (reconcileRoom env) (\<lambda>_. ret current))))"

subsection \<open>They keep the invariants\<close>

lemma inv_to_world:
  assumes "\<And>r0. keeps (room_inv env rid r0) m"
  shows "keeps (world_ok env rid) m"
proof (rule keepsI)
  fix w r t
  assume w: "world_ok env rid w" and m: "m w = (r, t)"
  obtain r0 where "room_inv env rid r0 w" using room_inv_exists [OF w] by blast
  then have "room_inv env rid r0 t" using keepsD [OF assms] m by blast
  then show "world_ok env rid t" by (simp add: room_inv_def)
qed

lemma keeps_preflight [keeps_intro]: "keeps (room_inv env rid r0) (preflightCreate env' id' name)"
  unfolding preflightCreate_def assertStandardIdentity_def by (intro keeps_intro)

lemma keeps_assertStandard [keeps_intro]: "keeps (room_inv env rid r0) (assertStandardIdentity env' id' name)"
  unfolding assertStandardIdentity_def by (intro keeps_intro)

lemma keeps_host_packet [keeps_intro]: "keeps (room_inv env rid r0) (host_packet env' cid)"
  unfolding host_packet_def by (intro keeps_andthen inv_packet inv_modify) simp_all

lemma keeps_packets [keeps_intro]:
  "keeps (room_inv env rid r0) (packets_create env' id' name)"
  "keeps (room_inv env rid r0) (packets_restore env' id' cid name)"
  "keeps (room_inv env rid r0) (packets_destroy env')"
  unfolding packets_create_def packets_restore_def packets_destroy_def
  by (intro keeps_intro inv_modify; simp)+

lemma keeps_store_create:
  assumes nfc: "nfc_laws (e_nfc env)" and id: "r_room_id room = rid"
  shows "keeps (world_ok env rid) (store_create env room)"
proof (rule keepsI)
  fix w r t
  assume w: "world_ok env rid w" and s: "store_create env room w = (r, t)"
  show "world_ok env rid t"
  proof (cases "RoomSchema_parse (e_nfc env) room")
    case (Inl e)
    then show ?thesis using w s by (simp add: store_create_def)
  next
    case (Inr p)
    then show ?thesis
      using w s id RoomSchema_parse_fixed [OF nfc Inr] RoomSchema_parse_id [OF Inr]
      by (auto simp: store_create_def world_ok_def empty_archive_ok split: if_splits)
  qed
qed

lemma keeps_discard: "keeps (world_ok env rid) (discardPendingProvisioning env name)"
proof -
  have "keeps (world_ok env rid) (modify (\<lambda>w. w\<lparr>v_room := None\<rparr>))"
    by (simp add: keeps_def eff_simps world_ok_def)
  then show ?thesis unfolding discardPendingProvisioning_def by (intro keeps_bnd keeps_load keeps_gets keeps_andthen keeps_require)
qed

lemma keeps_createRoom:
  assumes nfc: "nfc_laws (e_nfc env)"
  shows "keeps (world_ok env rid) (createRoom env rid q)"
proof -
  note w = inv_to_world [OF keeps_preflight] inv_to_world [OF keeps_packets(1)]
    inv_to_world [OF keeps_registerRuntimeCommands [OF nfc]]
  have p: "gives (world_ok env rid) (\<lambda>r. r_room_id r = rid)
      (lift_sum (RoomSchema_parse (e_nfc env) (provisional_room rid name ident p at)))" for name ident p at
    by (rule givesI) (auto simp: eff_simps provisional_room_def dest: RoomSchema_parse_id)
  show ?thesis
    unfolding createRoom_def
    by (intro keeps_case_option keeps_if keeps_raise keeps_andthen keeps_bnd [OF keeps_lift_sum] keeps_bnd [OF keeps_now]
        keeps_bnd_gives [OF keeps_lift_sum p] keeps_store_create [OF nfc] keeps_bnd [OF keeps_catch]
        keeps_bnd [OF keeps_save [OF nfc]] keeps_catch keeps_discard w keeps_ret) simp_all
qed

lemma recoverPacket_inv:
  assumes nfc: "nfc_laws (e_nfc env)" and h: "held env rid r0 room"
  shows "keeps (room_inv env rid r0) (recoverPacketUnlocked env rid room)"
    and "gives (room_inv env rid r0) (held env rid r0) (recoverPacketUnlocked env rid room)"
proof -
  have e: "evolves r (r\<lparr>r_identity_name := n\<rparr>)" for r n
    by (rule evolves_same_seats) simp_all
  have e': "evolves r (r\<lparr>r_status := None, r_identity_cid := cid\<rparr>)" if "isPacketPending env r" for r cid
    by (rule evolves_same_seats) (use that in \<open>simp_all add: isPacketPending_def\<close>)
  have k1: "keeps (room_inv env rid r0) (correct_pending_name env room)"
    unfolding correct_pending_name_def by (intro keeps_steps keeps_bnd [OF keeps_lift_sum] inv_save(1) [OF nfc h e])
  have g1: "gives (room_inv env rid r0) (held env rid r0) (correct_pending_name env room)"
    unfolding correct_pending_name_def
    by (intro gives_if gives_ret h gives_bnd_any [OF keeps_lift_sum] inv_save(2) [OF nfc h e])
  have k2: "keeps (room_inv env rid r0) (recovered_cid env rid r)" for r
    unfolding recovered_cid_def by (intro keeps_intro)
  have k3: "keeps (room_inv env rid r0) (if isPacketPending env r then save env (r\<lparr>r_status := None, r_identity_cid := cid\<rparr>) else ret r)"
    if "held env rid r0 r" for r cid
    by (intro keeps_if keeps_ret inv_save(1) [OF nfc that e'])
  have g3: "gives (room_inv env rid r0) (held env rid r0)
      (if isPacketPending env r then save env (r\<lparr>r_status := None, r_identity_cid := cid\<rparr>) else ret r)"
    if "held env rid r0 r" for r cid
    by (intro gives_if gives_ret that inv_save(2) [OF nfc that e'])
  show "keeps (room_inv env rid r0) (recoverPacketUnlocked env rid room)"
    unfolding recoverPacketUnlocked_def
    by (intro keeps_if keeps_ret keeps_bnd_gives [OF k1 g1] keeps_bnd [OF k2] keeps_bnd [OF k3] keeps_andthen
        keeps_registerRuntimeCommands [OF nfc])
  show "gives (room_inv env rid r0) (held env rid r0) (recoverPacketUnlocked env rid room)"
    unfolding recoverPacketUnlocked_def
    by (intro gives_if gives_ret h gives_bnd [OF k1 g1] gives_bnd_any [OF k2] gives_bnd [OF k3 g3] gives_andthen
        keeps_registerRuntimeCommands [OF nfc])
qed

lemma keeps_recovery:
  assumes nfc: "nfc_laws (e_nfc env)"
  shows "keeps (room_inv env rid r0) (recoverPacket env rid)"
    and "keeps (room_inv env rid r0) (recoverRoom env rid)"
    and "keeps (room_inv env rid r0) (reconcileRoom env)"
    and "keeps (room_inv env rid r0) (rebindIdentity env rid)"
proof -
  show p: "keeps (room_inv env rid r0) (recoverPacket env rid)"
    unfolding recoverPacket_def by (intro keeps_load_then recoverPacket_inv(1) [OF nfc])
  show "keeps (room_inv env rid r0) (recoverRoom env rid)"
    unfolding recoverRoom_def
    by (intro keeps_load_then keeps_bnd_gives [OF recoverPacket_inv [OF nfc]] keeps_steps inv_packet(8)
        reconcile_inv(1) [OF nfc])
  show r: "keeps (room_inv env rid r0) (reconcileRoom env)"
    unfolding reconcileRoom_def by (intro keeps_load_then keeps_andthen inv_packet(8) reconcile_inv(1) [OF nfc])
  show "keeps (room_inv env rid r0) (rebindIdentity env rid)"
    unfolding rebindIdentity_def
    by (intro keeps_steps keeps_bnd [OF keeps_if] keeps_bnd [OF r] p inv_rebind)
qed

end
