(* ===== verification/Journal.thy ===== *)
theory Journal
  imports Lifecycle
begin

section \<open>Work left in the archive\<close>

text \<open>
  An intent in the archive is work until a result names it. Closing a room and relaying its
  messages both page through the intents without a result, 64 at a time, continuing after the
  last intent of each page (\<open>closeUnlocked\<close> in \<open>src/service.ts\<close>, \<open>relayPendingUnlocked\<close> in
  \<open>src/intake.ts\<close>). The loop is \<open>paged\<close>, with fuel for one page more than there are rows:
  \<open>paged_fuel\<close> shows that more fuel changes nothing, since every page moves the cursor past an
  intent and the body never adds one. \<open>paged_settles\<close> shows that a body that resolves the
  intent it is given leaves none unresolved.
\<close>

definition JOURNAL_WORK_BATCH_SIZE :: nat where
  "JOURNAL_WORK_BATCH_SIZE = 64"

definition unresolved_query :: "kind \<Rightarrow> kind \<Rightarrow> nat \<Rightarrow> query_options" where
  "unresolved_query k result after =
     any_row\<lparr>q_kind := Some k, q_unresolved_by := Some result, q_after := Some after,
             q_limit := Some JOURNAL_WORK_BATCH_SIZE\<rparr>"

fun paged :: "nat \<Rightarrow> kind \<Rightarrow> kind \<Rightarrow> (row \<Rightarrow> 'a \<Rightarrow> 'a svc) \<Rightarrow> nat \<Rightarrow> 'a \<Rightarrow> 'a svc" where
  "paged 0 k result body after a = raise (Plain_error ''out of fuel'')"
| "paged (Suc n) k result body after a =
     bnd (query (unresolved_query k result after)) (\<lambda>page.
       if page = [] then ret a
       else bnd (fold_eff body page a) (\<lambda>b. paged n k result body (w_seq (last page)) b))"

definition for_unresolved :: "kind \<Rightarrow> kind \<Rightarrow> (row \<Rightarrow> 'a \<Rightarrow> 'a svc) \<Rightarrow> 'a \<Rightarrow> 'a svc" where
  "for_unresolved k result body a =
     bnd (gets (\<lambda>w. Suc (length (a_rows (v_archive w))))) (\<lambda>fuel. paged fuel k result body 0 a)"

subsection \<open>Preservation\<close>

lemma keeps_paged:
  assumes "\<And>w a. keeps I (body w a)" and "\<And>q. keeps I (query q)"
  shows "keeps I (paged n k result body after a)"
proof (induction n arbitrary: after a)
  case 0
  then show ?case by (simp add: keeps_raise)
next
  case (Suc n)
  then show ?case unfolding paged.simps by (intro keeps_bnd keeps_if keeps_ret keeps_fold_eff assms)
qed

lemma keeps_for_unresolved [keeps_intro]:
  "(\<And>w a. keeps (room_inv env rid r0) (body w a)) \<Longrightarrow>
    keeps (room_inv env rid r0) (for_unresolved k result body a)"
  unfolding for_unresolved_def by (intro keeps_bnd keeps_gets keeps_paged inv_base(3))

subsection \<open>Growth without new work\<close>

definition rows_of :: "world \<Rightarrow> row list" where
  "rows_of w = a_rows (v_archive w)"

definition grows_without :: "kind \<Rightarrow> world \<Rightarrow> world \<Rightarrow> bool" where
  "grows_without k w w' \<longleftrightarrow>
     (\<exists>ext. rows_of w' = rows_of w @ ext \<and> list_all (\<lambda>v. kind_of (w_body v) \<noteq> k) ext)"

interpretation grows: state_order "grows_without k" for k
proof
  show "grows_without k s s" for s by (simp add: grows_without_def)
  show "grows_without k s u" if "grows_without k s t" "grows_without k t u" for s t u
    using that by (force simp: grows_without_def)
qed

definition work_left :: "kind \<Rightarrow> nat \<Rightarrow> world \<Rightarrow> row list" where
  "work_left k after w = filter (\<lambda>v. kind_of (w_body v) = k \<and> after < w_seq v) (rows_of w)"

lemma work_left_grows: "grows_without k w w' \<Longrightarrow> work_left k after w' = work_left k after w"
  by (auto simp: grows_without_def work_left_def list_all_iff filter_empty_conv)

lemma unresolved_page:
  assumes "query (unresolved_query k result after) w = (Inr page, w')"
  shows "w' = w" and "page = take 64 (filter (\<lambda>v. unresolved (rows_of w) result v) (work_left k after w))"
  using assms
  by (auto simp: query_def query_rows_def unresolved_query_def any_row_def query_where_def clause_def
      Let_def rows_of_def work_left_def JOURNAL_WORK_BATCH_SIZE_def conj_commute intro!: filter_cong arg_cong [of _ _ "take 64"]
      split: if_splits)

lemma page_shrinks:
  assumes "query (unresolved_query k result after) w = (Inr page, w)" and "page \<noteq> []"
  shows "length (work_left k (w_seq (last page)) w) < length (work_left k after w)"
proof -
  have "last page \<in> set (work_left k after w)"
    using unresolved_page(2) [OF assms(1)] assms(2) last_in_set in_set_takeD by (metis filter_is_subset subsetD)
  then have l: "last page \<in> set (rows_of w)" "kind_of (w_body (last page)) = k" "after < w_seq (last page)"
    by (auto simp: work_left_def)
  have "work_left k (w_seq (last page)) w = filter (\<lambda>v. w_seq (last page) < w_seq v) (work_left k after w)"
    using l(3) by (auto simp: work_left_def intro!: filter_cong)
  moreover have "\<exists>v\<in>set (work_left k after w). \<not> w_seq (last page) < w_seq v"
    using l by (auto simp: work_left_def)
  ultimately show ?thesis by (metis filter_id_conv length_filter_less)
qed

lemma moves_fold_grows:
  "(\<And>w a. moves (grows_without k) (body w a)) \<Longrightarrow> moves (grows_without k) (fold_eff body page a)"
  by (rule moves_fold_eff [OF grows.order])

lemma paged_step:
  "query (unresolved_query k result after) w = (Inr page, w) \<Longrightarrow> page \<noteq> [] \<Longrightarrow>
    paged (Suc n) k result body after a w =
      (case fold_eff body page a w of (Inl e, t) \<Rightarrow> (Inl e, t)
       | (Inr b, t) \<Rightarrow> paged n k result body (w_seq (last page)) b t)"
  by (simp add: bnd_def)

lemma paged_done:
  "query (unresolved_query k result after) w = (Inr [], w) \<Longrightarrow> paged (Suc n) k result body after a w = (Inr a, w)"
  by (simp add: bnd_def ret_def)

lemma paged_failed:
  "query (unresolved_query k result after) w = (Inl e, t) \<Longrightarrow> paged (Suc n) k result body after a w = (Inl e, t)"
  by (simp add: bnd_def)

lemma paged_fuel:
  assumes body: "\<And>w a. moves (grows_without k) (body w a)"
  shows "length (work_left k after w) < n \<Longrightarrow> paged (Suc n) k result body after a w = paged n k result body after a w"
proof (induction n arbitrary: after a w)
  case 0
  then show ?case by simp
next
  case (Suc n)
  obtain r w1 where q: "query (unresolved_query k result after) w = (r, w1)" by force
  show ?case
  proof (cases r)
    case (Inl e)
    then show ?thesis using paged_failed q by metis
  next
    case (Inr page)
    have q': "query (unresolved_query k result after) w = (Inr page, w)" using unresolved_page(1) q Inr by metis
    show ?thesis
    proof (cases "page = []")
      case True
      then show ?thesis using paged_done q' by metis
    next
      case False
      obtain x w2 where f: "fold_eff body page a w = (x, w2)" by force
      have "length (work_left k (w_seq (last page)) w2) < n"
        using page_shrinks [OF q' False] Suc.prems
          work_left_grows [OF movesD [OF moves_fold_grows [OF body] f]] by simp
      then show ?thesis using Suc.IH
        by (cases x) (simp_all only: paged_step [OF q' False] f prod.case sum.case)
    qed
  qed
qed

lemma paged_fuel_more:
  assumes body: "\<And>w a. moves (grows_without k) (body w a)" and n: "length (work_left k after w) < n"
  shows "paged (n + d) k result body after a w = paged n k result body after a w"
  by (induction d) (use paged_fuel [OF body] n in \<open>simp_all del: paged.simps\<close>)

text \<open>Any fuel of at least one more than the number of rows gives the same result.\<close>

lemma for_unresolved_fuel:
  assumes body: "\<And>w a. moves (grows_without k) (body w a)"
  shows "paged (Suc (length (rows_of w)) + d) k result body 0 a w = for_unresolved k result body a w"
proof -
  have "length (work_left k 0 w) < Suc (length (rows_of w))"
    by (simp add: work_left_def le_imp_less_Suc)
  from paged_fuel_more [OF body this] show ?thesis
    by (simp add: for_unresolved_def bnd_def gets_def rows_of_def)
qed

subsection \<open>A body that resolves its intent leaves none\<close>

definition settled_to :: "kind \<Rightarrow> kind \<Rightarrow> nat \<Rightarrow> world \<Rightarrow> bool" where
  "settled_to k result n w \<longleftrightarrow>
     (\<forall>v\<in>set (rows_of w). kind_of (w_body v) = k \<and> w_seq v \<le> n \<longrightarrow> \<not> unresolved (rows_of w) result v)"

definition all_settled :: "kind \<Rightarrow> kind \<Rightarrow> world \<Rightarrow> bool" where
  "all_settled k result w \<longleftrightarrow>
     (\<forall>v\<in>set (rows_of w). kind_of (w_body v) = k \<longrightarrow> \<not> unresolved (rows_of w) result v)"

lemma unresolved_grows: "grows_without k w w' \<Longrightarrow> unresolved (rows_of w') result v \<Longrightarrow> unresolved (rows_of w) result v"
  by (auto simp: grows_without_def unresolved_def)

lemma settled_grows: "grows_without k w w' \<Longrightarrow> settled_to k result n w \<Longrightarrow> settled_to k result n w'"
  unfolding settled_to_def grows_without_def unresolved_def list_all_iff by fastforce

definition resolves :: "(world \<Rightarrow> bool) \<Rightarrow> kind \<Rightarrow> (row \<Rightarrow> 'a \<Rightarrow> 'a svc) \<Rightarrow> bool" where
  "resolves I result body \<longleftrightarrow>
     (\<forall>v a. post (\<lambda>w. I w \<and> v \<in> set (rows_of w)) (body v a) (\<lambda>_ w'. \<not> unresolved (rows_of w') result v))"

lemma fold_resolves:
  assumes keep: "\<And>v a. keeps I (body v a)" and grow: "\<And>v a. moves (grows_without k) (body v a)"
    and res: "resolves I result body"
  shows "I w \<Longrightarrow> set page \<subseteq> set (rows_of w) \<Longrightarrow> fold_eff body page a w = (Inr b, t) \<Longrightarrow>
    \<forall>v\<in>set page. \<not> unresolved (rows_of t) result v"
proof (induction page arbitrary: a w)
  case Nil
  then show ?case by simp
next
  case (Cons v vs)
  obtain c u where step: "body v a w = (Inr c, u)" and rest: "fold_eff body vs c u = (Inr b, t)"
    using Cons.prems(3) by (auto split: prod.splits sum.splits)
  have g: "grows_without k w u" using movesD [OF grow step] .
  have i: "I u" using keepsD [OF keep Cons.prems(1) step] .
  have "set vs \<subseteq> set (rows_of u)" using g Cons.prems(2) by (auto simp: grows_without_def)
  from Cons.IH [OF i this rest] have vs: "\<forall>x\<in>set vs. \<not> unresolved (rows_of t) result x" .
  have "\<not> unresolved (rows_of u) result v"
    using res Cons.prems(1,2) step unfolding resolves_def by (auto dest!: postD [where x = c])
  then have "\<not> unresolved (rows_of t) result v"
    using unresolved_grows movesD [OF moves_fold_grows [OF grow] rest] by blast
  with vs show ?case by simp
qed

lemma settled_page:
  assumes s: "sorted_wrt (<) (map w_seq (rows_of w))" and before: "settled_to k result after w"
    and page: "page = take m (filter (unresolved (rows_of w) result) (work_left k after w))" "page \<noteq> []"
    and v: "v \<in> set (rows_of w)" "kind_of (w_body v) = k" "w_seq v \<le> w_seq (last page)" "unresolved (rows_of w) result v"
  shows "v \<in> set page"
proof -
  let ?found = "filter (unresolved (rows_of w) result) (work_left k after w)"
  have "after < w_seq v" using before v by (auto simp: settled_to_def not_le [symmetric])
  then have f: "v \<in> set ?found" using v by (simp add: work_left_def)
  have split: "?found = page @ drop m ?found" using page(1) by simp
  have sorted: "sorted_wrt (<) (map w_seq ?found)"
    using s by (simp add: work_left_def sorted_wrt_map sorted_wrt_filter)
  show ?thesis
  proof (rule ccontr)
    assume "v \<notin> set page"
    then have d: "v \<in> set (drop m ?found)" using f split by (metis Un_iff set_append)
    have l: "last page \<in> set page" using page(2) by simp
    have "sorted_wrt (<) (map w_seq page @ map w_seq (drop m ?found))"
      using sorted by (subst (asm) split) simp
    then have "\<forall>x\<in>set page. \<forall>y\<in>set (drop m ?found). w_seq x < w_seq y"
      by (simp add: sorted_wrt_append)
    with l d have "w_seq (last page) < w_seq v" by blast
    with v(3) show False by simp
  qed
qed

lemma paged_settles:
  assumes keep: "\<And>v a. keeps I (body v a)" and grow: "\<And>v a. moves (grows_without k) (body v a)"
    and res: "resolves I result body" and sorted: "\<And>w. I w \<Longrightarrow> sorted_wrt (<) (map w_seq (rows_of w))"
  shows "I w \<Longrightarrow> settled_to k result after w \<Longrightarrow> paged n k result body after a w = (Inr b, t) \<Longrightarrow>
    all_settled k result t"
proof (induction n arbitrary: after a w)
  case 0
  then show ?case by (simp add: raise_def)
next
  case (Suc n)
  obtain r w1 where q: "query (unresolved_query k result after) w = (r, w1)" by force
  have "\<exists>page. r = Inr page"
  proof (cases r)
    case (Inl e)
    then show ?thesis using Suc.prems(3) paged_failed [of k result after w e w1 n body a] q by simp
  qed simp
  then obtain page where page: "r = Inr page" by blast
  have w1: "w1 = w" and p: "page = take 64 (filter (unresolved (rows_of w) result) (work_left k after w))"
    using unresolved_page [of k result after w page w1] q page by auto
  have q': "query (unresolved_query k result after) w = (Inr page, w)" using q page w1 by simp
  show ?case
  proof (cases "page = []")
    case True
    then have "filter (unresolved (rows_of w) result) (work_left k after w) = []" using p by simp
    then have "all_settled k result w"
      using Suc.prems(2) by (fastforce simp: all_settled_def settled_to_def work_left_def filter_empty_conv not_le)
    moreover have "t = w" using Suc.prems(3) paged_done [of k result after w n body a] q' True by simp
    ultimately show ?thesis by simp
  next
    case False
    obtain c u where f: "fold_eff body page a w = (Inr c, u)"
      and rest: "paged n k result body (w_seq (last page)) c u = (Inr b, t)"
      using Suc.prems(3) unfolding paged_step [OF q' False] by (auto split: prod.splits sum.splits)
    have g: "grows_without k w u" using movesD [OF moves_fold_grows [OF grow] f] .
    have i: "I u" using keepsD [OF keeps_fold_eff [OF keep] Suc.prems(1) f] .
    have sub: "set page \<subseteq> set (rows_of w)" unfolding p work_left_def by (auto dest: in_set_takeD)
    have done_page: "\<forall>v\<in>set page. \<not> unresolved (rows_of u) result v"
      by (rule fold_resolves [OF keep grow res Suc.prems(1) sub f])
    have "settled_to k result (w_seq (last page)) u"
      unfolding settled_to_def
    proof (intro ballI impI)
      fix v assume v: "v \<in> set (rows_of u)" "kind_of (w_body v) = k \<and> w_seq v \<le> w_seq (last page)"
      then have vw: "v \<in> set (rows_of w)" using g by (auto simp: grows_without_def list_all_iff)
      show "\<not> unresolved (rows_of u) result v"
      proof (cases "unresolved (rows_of w) result v")
        case True
        have "v \<in> set page"
          by (rule settled_page [OF sorted [OF Suc.prems(1)] Suc.prems(2) p False vw]) (use v True in auto)
        then show ?thesis using done_page by blast
      next
        case False
        then show ?thesis using unresolved_grows [OF g] by blast
      qed
    qed
    from Suc.IH [OF i this rest] show ?thesis .
  qed
qed

lemma for_unresolved_settles:
  assumes "\<And>v a. keeps I (body v a)" and "\<And>v a. moves (grows_without k) (body v a)"
    and "resolves I result body" and "\<And>w. I w \<Longrightarrow> sorted_wrt (<) (map w_seq (rows_of w))"
    and zero: "\<And>w v. I w \<Longrightarrow> v \<in> set (rows_of w) \<Longrightarrow> 0 < w_seq v"
  shows "post I (for_unresolved k result body a) (\<lambda>_. all_settled k result)"
proof (rule postI)
  fix w b t
  assume i: "I w" and r: "for_unresolved k result body a w = (Inr b, t)"
  have s: "settled_to k result 0 w" using zero [OF i] by (fastforce simp: settled_to_def)
  have p: "paged (Suc (length (a_rows (v_archive w)))) k result body 0 a w = (Inr b, t)"
    using r by (simp add: for_unresolved_def bnd_def gets_def del: paged.simps)
  show "all_settled k result t"
    using paged_settles [of I body k result, OF assms(1-4) i s p] .
qed

subsection \<open>Appends\<close>

lemma body_parse_kind: "body_parse sha b = Some b' \<Longrightarrow> kind_of b' = kind_of b"
  by (cases b) (auto split: if_splits)

lemma append_rows:
  assumes "append env rid d w = (Inr v, t)"
  shows "rows_of t = rows_of w @ [v]" and "body_parse (e_sha env) (d_body d) = Some (w_body v)"
    and "t = w\<lparr>v_archive := v_archive t\<rparr>" and "w_at v = d_at d" and "w_seq v = next_seq (rows_of w)"
    and "w_record_id v = record_id_of rid (w_seq v)"
proof -
  obtain ar where a: "archive_append (e_sha env) rid d (v_archive w) = (Inr v, ar)" and t: "t = w\<lparr>v_archive := ar\<rparr>"
    using assms by (auto simp: append_def split: if_splits prod.splits)
  obtain e where e: "AppendRecordSchema_parse (e_sha env) d = Inr e" "w_seq v = next_seq (a_rows (v_archive w))"
    "w_record_id v = record_id_of rid (w_seq v)" "w_at v = d_at e" "w_body v = d_body e"
    "a_rows ar = a_rows (v_archive w) @ [v]"
    using a by (rule archive_appendD)
  have "d_at e = d_at d" "body_parse (e_sha env) (d_body d) = Some (d_body e)"
    using e(1) by (auto simp: AppendRecordSchema_parse_def split: if_splits option.splits)
  then show "rows_of t = rows_of w @ [v]" and "body_parse (e_sha env) (d_body d) = Some (w_body v)"
    and "t = w\<lparr>v_archive := v_archive t\<rparr>" and "w_at v = d_at d" and "w_seq v = next_seq (rows_of w)"
    and "w_record_id v = record_id_of rid (w_seq v)"
    using e t by (simp_all add: rows_of_def)
qed

lemma append_error_rows: "append env rid d w = (Inl e, t) \<Longrightarrow> rows_of t = rows_of w"
  by (auto simp: append_def rows_of_def split: if_splits prod.splits dest: archive_append_error)

lemma append_grows:
  assumes "kind_of (d_body d) \<noteq> k" shows "moves (grows_without k) (append env rid d)"
proof (rule movesI)
  fix w r t
  assume a: "append env rid d w = (r, t)"
  show "grows_without k w t"
  proof (cases r)
    case (Inl e)
    then show ?thesis using append_error_rows a by (simp add: grows_without_def)
  next
    case (Inr v)
    have p: "append env rid d w = (Inr v, t)" using a Inr by simp
    have "rows_of t = rows_of w @ [v]" "kind_of (w_body v) = kind_of (d_body d)"
      using append_rows(1) [OF p] body_parse_kind [OF append_rows(2) [OF p]] by simp_all
    then show ?thesis using assms by (simp add: grows_without_def)
  qed
qed

lemma call_grows: "moves (grows_without k) (call f)"
  by (simp add: moves_def call_def grows_without_def rows_of_def)

lemmas grows_rules = grows.rules call_grows

lemma append_at_grows: "kind_of b \<noteq> k \<Longrightarrow> moves (grows_without k) (append_at env rid b)"
  unfolding append_at_def now_def by (intro grows_rules append_grows) simp

lemma inv_sorted: "room_inv env rid r0 w \<Longrightarrow> sorted_wrt (<) (map w_seq (rows_of w))"
  by (auto simp: room_inv_def world_ok_def rows_of_def intro: archive_ascending)

lemma inv_seq_positive: "room_inv env rid r0 w \<Longrightarrow> v \<in> set (rows_of w) \<Longrightarrow> 0 < w_seq v"
  using seqs_bounded unfolding room_inv_def world_ok_def rows_of_def archive_ok_def by blast

lemma append_at_resolves:
  assumes "intent_record_id_of b = Some (w_record_id v)" and "kind_of b = result"
    and "\<And>sha b'. body_parse sha b = Some b' \<Longrightarrow> b' = b"
  shows "post P (append_at env rid b) (\<lambda>_ t. \<not> unresolved (rows_of t) result v)"
proof (rule postI)
  fix w x t
  assume "append_at env rid b w = (Inr x, t)"
  then obtain at u where a: "append env rid \<lparr>d_room_id = rid, d_at = at, d_body = b\<rparr> u = (Inr x, t)"
    by (auto simp: append_at_def bnd_def split: prod.splits sum.splits)
  have "rows_of t = rows_of u @ [x]" "w_body x = b"
    using append_rows(1) [OF a] append_rows(2) [OF a] assms(3) by auto
  then show "\<not> unresolved (rows_of t) result v" using assms(1,2) by (simp add: unresolved_def)
qed

end
