(* ===== verification/Closing.thy ===== *)
theory Closing
  imports Journal
begin

section \<open>Closing and deleting a room\<close>

text \<open>
  \<open>closeRoom\<close>, \<open>closeUnlocked\<close>, \<open>deleteRoom\<close>, \<open>resumeLifecycleRequest\<close> and the durable
  acceptance of \<open>room.close\<close> and \<open>room.delete\<close> as runtime commands (\<open>RoomService\<close> in
  \<open>src/service.ts\<close>), and \<open>CoworkStore.delete\<close> (\<open>src/storage.ts\<close>). Closing severs every contact
  behind a durable intent, removes the identity, accounts for every intent left without a result
  and only then stores the terminal state.
\<close>

subsection \<open>Closing\<close>

definition close_recipient :: "row \<Rightarrow> string" where
  "close_recipient v = (case w_body v of Close_notice_intent c \<Rightarrow> c | _ \<Rightarrow> [])"

definition close_outcome :: "row \<Rightarrow> relay_status \<Rightarrow> bool \<Rightarrow> bool \<Rightarrow> body" where
  "close_outcome v status notified uncertain =
     Close_notice_result \<lparr>cr_intent_record_id = w_record_id v, cr_recipient = close_recipient v,
       cr_status = status, cr_notified = notified, cr_uncertain_after_restart = uncertain\<rparr>"

definition appendUncertainCloseResult :: "env \<Rightarrow> string \<Rightarrow> row \<Rightarrow> unit svc" where
  "appendUncertainCloseResult env rid v =
     bnd (append_at env rid (close_outcome v Send_failed False True)) (\<lambda>_. ret ())"

text \<open>An intent without a result whose contact is gone.\<close>

definition settle_absent :: "env \<Rightarrow> string \<Rightarrow> string list \<Rightarrow> unit svc" where
  "settle_absent env rid contacts =
     for_unresolved K_close_notice_intent K_close_notice_result
       (\<lambda>v u. if List.member contacts (close_recipient v) then ret () else appendUncertainCloseResult env rid v) ()"

definition close_intent :: "env \<Rightarrow> string \<Rightarrow> string \<Rightarrow> row svc" where
  "close_intent env rid cid =
     bnd (query (any_row\<lparr>q_kind := Some K_close_notice_intent, q_recipient := Some cid,
            q_unresolved_by := Some K_close_notice_result, q_descending := True, q_limit := Some 1\<rparr>)) (\<lambda>found.
       case found of v # _ \<Rightarrow> ret v | [] \<Rightarrow> append_at env rid (Close_notice_intent cid))"

definition sever_contact :: "env \<Rightarrow> string \<Rightarrow> string \<Rightarrow> unit svc" where
  "sever_contact env rid cid =
     bnd (close_intent env rid cid) (\<lambda>v.
     bnd (packet_removeContact env cid) (\<lambda>(status, notified).
     bnd (append_at env rid (Close_notice_result \<lparr>cr_intent_record_id = w_record_id v, cr_recipient = cid,
            cr_status = status, cr_notified = notified, cr_uncertain_after_restart = False\<rparr>)) (\<lambda>_. ret ())))"

definition sever_contacts :: "env \<Rightarrow> string \<Rightarrow> unit svc" where
  "sever_contacts env rid =
     andthen (refreshContacts env)
     (bnd (gets contact_cids) (\<lambda>contacts.
      andthen (settle_absent env rid contacts)
      (andthen (for_each contacts (sever_contact env rid))
      (bnd (gets contact_cids) (\<lambda>remaining.
         require (remaining = []) (Service_error ''still has contacts after removal''))))))"

definition purge_identity :: "env \<Rightarrow> unit svc" where
  "purge_identity env =
     andthen (packets_destroy env)
       (bnd (gets v_hosted) (\<lambda>h. require (\<not> h) (Service_error ''live-state purge left residue'')))"

definition completed_request :: "room \<Rightarrow> lifecycle_request option" where
  "completed_request room =
     (case r_lifecycle_request room of None \<Rightarrow> None
      | Some q \<Rightarrow> Some (if l_command q = Room_close then q\<lparr>l_state := L_completed, l_error := False\<rparr> else q))"

definition closeUnlocked :: "env \<Rightarrow> string \<Rightarrow> room \<Rightarrow> room svc" where
  "closeUnlocked env rid room =
     bnd (gets v_hosted) (\<lambda>h.
     andthen (if h then sever_contacts env rid else ret ())
     (andthen (purge_identity env)
     (andthen (for_unresolved K_close_notice_intent K_close_notice_result
                 (\<lambda>v u. appendUncertainCloseResult env rid v) ())
     (bnd (now env) (\<lambda>at.
       save env (room\<lparr>r_state := Closed, r_closed_at := Some at, r_lifecycle_request := completed_request room\<rparr>))))))"

definition closeRoom :: "env \<Rightarrow> string \<Rightarrow> room svc" where
  "closeRoom env rid =
     bnd (load env) (\<lambda>room.
       if r_state room = Closed then save env (room\<lparr>r_lifecycle_request := completed_request room\<rparr>)
       else if isPacketPending env room then raise (Service_error ''identity CID is unproven'')
       else
         bnd (if r_state room = Closing then store_save env room else save env (room\<lparr>r_state := Closing\<rparr>))
           (closeUnlocked env rid))"

subsection \<open>Deletion\<close>

definition store_delete :: "env \<Rightarrow> unit svc" where
  "store_delete env =
     bnd (gets v_room) (\<lambda>present.
       if present = None then ret ()
       else
         bnd (load env) (\<lambda>room.
         andthen (require (r_state room = Closed) (Storage_error ''must be closed before deletion''))
           (modify (\<lambda>w. w\<lparr>v_room := None, v_archive := empty_archive\<rparr>))))"

text \<open>The failure to load the room is one under its mutex, so that the section reports it also when the
  deletion that follows succeeds.\<close>

definition deleteRoom :: "env \<Rightarrow> string \<Rightarrow> bool \<Rightarrow> unit svc" where
  "deleteRoom env rid confirm =
     (if \<not> confirm then raise Zod_error
      else
        bnd (catch (bnd (load env) (\<lambda>room. ret (Inr room))) (\<lambda>e. ret (Inl e))) (\<lambda>loaded.
          case loaded of
            Inl e \<Rightarrow> andthen (catch (store_delete env) (\<lambda>_. ret ())) (raise e)
          | Inr room \<Rightarrow>
              andthen (if r_state room \<noteq> Closed then bnd (closeRoom env rid) (\<lambda>_. ret ()) else ret ())
                (store_delete env)))"

subsection \<open>Lifecycle requests\<close>

definition fail_request :: "env \<Rightarrow> lifecycle_request \<Rightarrow> unit svc" where
  "fail_request env request =
     bnd (load env) (\<lambda>current.
       if map_option l_request_id (r_lifecycle_request current) \<noteq> Some (l_request_id request) then ret ()
       else
         bnd (save env (current\<lparr>r_lifecycle_request := Some (request\<lparr>l_state := L_failed, l_error := True\<rparr>)\<rparr>)) (\<lambda>_.
         ret ()))"

definition resumeLifecycleRequest :: "env \<Rightarrow> string \<Rightarrow> bool svc" where
  "resumeLifecycleRequest env rid =
     bnd (load env) (\<lambda>room.
       case r_lifecycle_request room of
         None \<Rightarrow> ret False
       | Some request \<Rightarrow>
           if l_state request \<noteq> L_pending then ret False
           else
             andthen
               (catch (if l_command request = Room_delete then deleteRoom env rid True
                       else bnd (closeRoom env rid) (\<lambda>_. ret ()))
                 (\<lambda>_. catch (fail_request env request) (\<lambda>_. ret ())))
               (ret True))"

datatype shared_error = Sh_room_unavailable | Sh_unauthorized | Sh_invalid_state | Sh_service err

definition shared_gate :: "room \<Rightarrow> string \<Rightarrow> string \<Rightarrow> shared_error option" where
  "shared_gate room sender name =
     (if r_state room \<noteq> Room_active then Some Sh_room_unavailable
      else if \<not> is_active_cid room sender \<or> \<not> hasRuntimeCommandGrant room sender name then Some Sh_unauthorized
      else None)"

fun lifecycle_name :: "lifecycle_command \<Rightarrow> string" where
  "lifecycle_name Room_close = ''room.close''"
| "lifecycle_name Room_delete = ''room.delete''"

definition record_request :: "env \<Rightarrow> room \<Rightarrow> lifecycle_command \<Rightarrow> string \<Rightarrow> string \<Rightarrow> (shared_error + unit) svc" where
  "record_request env room command sender wire_id =
     catch
       (bnd (now env) (\<lambda>at.
        bnd (save env (room\<lparr>r_lifecycle_request := Some
              \<lparr>l_request_id = wire_id, l_command = command, l_caller_cid = sender, l_accepted_at = at,
               l_state = L_pending, l_error = False\<rparr>\<rparr>)) (\<lambda>_. ret (Inr ()))))
       (\<lambda>e. ret (Inl (Sh_service e)))"

text \<open>The branch of \<open>sharedCommandUnlocked\<close> for \<open>room.close\<close> and \<open>room.delete\<close>, its arguments
  already parsed: the request is only recorded.\<close>

definition accept_request :: "env \<Rightarrow> room \<Rightarrow> lifecycle_command \<Rightarrow> string \<Rightarrow> string \<Rightarrow> (shared_error + unit) svc" where
  "accept_request env room command sender wire_id =
     (case r_lifecycle_request room of
        Some q \<Rightarrow>
          if l_state q \<noteq> L_completed
          then ret (if l_request_id q \<noteq> wire_id \<or> l_command q \<noteq> command \<or> l_state q = L_failed
                 then Inl Sh_invalid_state else Inr ())
          else record_request env room command sender wire_id
      | None \<Rightarrow> record_request env room command sender wire_id)"

definition acceptLifecycleCommand ::
  "env \<Rightarrow> lifecycle_command \<Rightarrow> string \<Rightarrow> string \<Rightarrow> (shared_error + unit) svc" where
  "acceptLifecycleCommand env command sender wire_id =
     bnd (load env) (\<lambda>room.
       case shared_gate room sender (lifecycle_name command) of
         Some e \<Rightarrow> ret (Inl e)
       | None \<Rightarrow> accept_request env room command sender wire_id)"

subsection \<open>They keep the room invariant\<close>

lemma keeps_close_steps [keeps_intro]:
  "keeps (room_inv env rid r0) (appendUncertainCloseResult env rid v)"
  "keeps (room_inv env rid r0) (close_intent env rid cid)"
proof -
  have c: "keeps (room_inv env rid r0) (case vs of v # _ \<Rightarrow> ret v | [] \<Rightarrow> append_at env rid b)" for vs b
    by (cases vs) (auto intro!: keeps_intro)
  show "keeps (room_inv env rid r0) (appendUncertainCloseResult env rid v)"
    unfolding appendUncertainCloseResult_def by (intro keeps_intro)
  show "keeps (room_inv env rid r0) (close_intent env rid cid)"
    unfolding close_intent_def by (intro keeps_bnd inv_base(3) c)
qed

lemma keeps_sever [keeps_intro]: "keeps (room_inv env rid r0) (sever_contacts env rid)"
  unfolding sever_contacts_def settle_absent_def sever_contact_def by (intro keeps_intro)

lemma keeps_purge [keeps_intro]: "keeps (room_inv env rid r0) (purge_identity env)"
  unfolding purge_identity_def by (intro keeps_intro)

lemma evolves_closing: "evolves room (room\<lparr>r_state := Closing\<rparr>)" if "r_state room \<noteq> Closed"
  by (rule evolves_same_seats) (use that in \<open>cases "r_state room"; simp add: less_eq_room_state_def\<close>)+

lemma evolves_closed:
  "evolves room (room\<lparr>r_state := Closed, r_closed_at := at, r_lifecycle_request := q\<rparr>)"
  by (rule evolves_same_seats) (cases "r_state room"; simp add: less_eq_room_state_def)+

lemma evolves_request: "evolves room (room\<lparr>r_lifecycle_request := q\<rparr>)"
  by (rule evolves_same_seats) simp_all

lemma closing_inv:
  assumes nfc: "nfc_laws (e_nfc env)" and h: "held env rid r0 room" "r_state room \<noteq> Closed"
  shows "keeps (room_inv env rid r0)
      (if r_state room = Closing then store_save env room else save env (room\<lparr>r_state := Closing\<rparr>))"
    and "gives (room_inv env rid r0) (held env rid r0)
      (if r_state room = Closing then store_save env room else save env (room\<lparr>r_state := Closing\<rparr>))"
  by (intro keeps_if inv_store_save(1) [OF nfc h(1) evolves_refl] inv_save(1) [OF nfc h(1) evolves_closing [OF h(2)]])
     (intro gives_if inv_store_save(2) [OF nfc h(1) evolves_refl] inv_save(2) [OF nfc h(1) evolves_closing [OF h(2)]])

lemma keeps_closeUnlocked:
  assumes nfc: "nfc_laws (e_nfc env)" and h: "held env rid r0 room"
  shows "keeps (room_inv env rid r0) (closeUnlocked env rid room)"
  unfolding closeUnlocked_def
  by (intro keeps_steps keeps_sever keeps_purge keeps_for_unresolved keeps_close_steps inv_save(1) [OF nfc h evolves_closed])

lemma keeps_closeRoom:
  assumes nfc: "nfc_laws (e_nfc env)"
  shows "keeps (room_inv env rid r0) (closeRoom env rid)"
  unfolding closeRoom_def
  by (intro keeps_load_then keeps_if inv_save(1) [OF nfc _ evolves_request] keeps_raise
      keeps_bnd_gives [OF closing_inv [OF nfc]] keeps_closeUnlocked [OF nfc])

lemma keeps_store_delete [keeps_intro]: "keeps (room_inv env rid r0) (store_delete env)"
proof -
  have "keeps (room_inv env rid r0) (modify (\<lambda>w. w\<lparr>v_room := None, v_archive := empty_archive\<rparr>))"
    by (simp add: keeps_def eff_simps room_inv_def world_ok_def empty_archive_ok)
  then show ?thesis unfolding store_delete_def by (intro keeps_intro)
qed

lemma keeps_deleteRoom:
  assumes nfc: "nfc_laws (e_nfc env)"
  shows "keeps (room_inv env rid r0) (deleteRoom env rid confirm)"
  unfolding deleteRoom_def
  by (intro keeps_if keeps_raise keeps_bnd keeps_catch keeps_load_then keeps_ret keeps_case_sum keeps_store_delete
      keeps_andthen keeps_closeRoom [OF nfc])

lemma keeps_lifecycle:
  assumes nfc: "nfc_laws (e_nfc env)"
  shows "keeps (room_inv env rid r0) (resumeLifecycleRequest env rid)"
    and "held env rid r0 room \<Longrightarrow> keeps (room_inv env rid r0) (accept_request env room command sender wire_id)"
    and "keeps (room_inv env rid r0) (acceptLifecycleCommand env command sender wire_id)"
proof -
  have f: "keeps (room_inv env rid r0) (fail_request env q)" for q
    unfolding fail_request_def by (intro keeps_steps keeps_bnd [OF inv_save(1) [OF nfc _ evolves_request]])
  have r: "keeps (room_inv env rid r0) (record_request env room c s x)" if "held env rid r0 room" for room c s x
    unfolding record_request_def
    by (intro keeps_catch keeps_steps keeps_bnd [OF inv_save(1) [OF nfc that evolves_request]])
  show "keeps (room_inv env rid r0) (resumeLifecycleRequest env rid)"
    unfolding resumeLifecycleRequest_def
    by (intro keeps_steps keeps_catch f keeps_deleteRoom [OF nfc] keeps_bnd [OF keeps_closeRoom [OF nfc]])
  have a: "keeps (room_inv env rid r0) (accept_request env room command sender wire_id)"
    if "held env rid r0 room" for room
    unfolding accept_request_def by (intro keeps_steps r [OF that])
  then show "held env rid r0 room \<Longrightarrow> keeps (room_inv env rid r0) (accept_request env room command sender wire_id)" .
  show "keeps (room_inv env rid r0) (acceptLifecycleCommand env command sender wire_id)"
    unfolding acceptLifecycleCommand_def by (intro keeps_steps a)
qed

subsection \<open>A closed room has no identity and no open intent\<close>

definition severed :: "world \<Rightarrow> bool" where
  "severed w \<longleftrightarrow> \<not> v_hosted w \<and> all_settled K_close_notice_intent K_close_notice_result w"

lemma purge_unhosts: "post P (purge_identity env) (\<lambda>_ w. \<not> v_hosted w)"
  by (auto simp: post_def purge_identity_def eff_simps packets_destroy_def call_def split: prod.splits sum.splits if_splits)

lemma keeps_unhosted:
  "keeps (\<lambda>w. \<not> v_hosted w) (append_at env rid b)"
  "keeps (\<lambda>w. \<not> v_hosted w) (query q)"
  "keeps (\<lambda>w. \<not> v_hosted w) (now env)"
  "keeps (\<lambda>w. \<not> v_hosted w) (save env room)"
  by (auto simp: keeps_def append_at_def now_def call_def query_def bnd_def append_def save_def store_save_def lift_sum_def
      split: prod.splits sum.splits if_splits)

lemma keeps_settled:
  "keeps (all_settled k result) (now env)" "keeps (all_settled k result) (save env room)"
  by (auto simp: keeps_def all_settled_def rows_of_def now_def call_def bnd_def save_def store_save_def lift_sum_def
      split: prod.splits sum.splits if_splits)

lemma close_settles:
  "post (\<lambda>w. room_inv env rid r0 w \<and> \<not> v_hosted w)
     (for_unresolved K_close_notice_intent K_close_notice_result (\<lambda>v u. appendUncertainCloseResult env rid v) ())
     (\<lambda>_. severed)"
proof -
  let ?I = "\<lambda>w. room_inv env rid r0 w \<and> \<not> v_hosted w"
  have k: "keeps ?I (appendUncertainCloseResult env rid v)" for v
    by (rule keeps_conj [OF keeps_close_steps(1)])
      (unfold appendUncertainCloseResult_def, intro keeps_bnd keeps_unhosted keeps_ret)
  have g: "moves (grows_without K_close_notice_intent) (appendUncertainCloseResult env rid v)" for v
    unfolding appendUncertainCloseResult_def by (intro grows_rules append_at_grows) (simp add: close_outcome_def)
  have r: "resolves ?I K_close_notice_result (\<lambda>v (u::unit). appendUncertainCloseResult env rid v)"
    unfolding resolves_def appendUncertainCloseResult_def
  proof (intro allI, rule post_bnd)
    fix v
    show "post (\<lambda>w. ?I w \<and> v \<in> set (rows_of w)) (append_at env rid (close_outcome v Send_failed False True))
        (\<lambda>_ t. \<not> unresolved (rows_of t) K_close_notice_result v)"
      by (rule append_at_resolves) (simp_all add: close_outcome_def split: if_splits)
    show "post (\<lambda>t. \<not> unresolved (rows_of t) K_close_notice_result v) (ret ())
        (\<lambda>_ t. \<not> unresolved (rows_of t) K_close_notice_result v)"
      by (rule post_ret)
  qed
  have "post ?I (for_unresolved K_close_notice_intent K_close_notice_result (\<lambda>v u. appendUncertainCloseResult env rid v) ())
      (\<lambda>_. all_settled K_close_notice_intent K_close_notice_result)"
    by (rule for_unresolved_settles [OF k g r]) (auto intro: inv_sorted inv_seq_positive)
  moreover have "keeps (\<lambda>w. \<not> v_hosted w)
      (for_unresolved K_close_notice_intent K_close_notice_result (\<lambda>v u. appendUncertainCloseResult env rid v) ())"
    unfolding for_unresolved_def appendUncertainCloseResult_def
    by (intro keeps_bnd keeps_gets keeps_paged keeps_unhosted keeps_ret)
  ultimately show ?thesis unfolding severed_def post_def by (blast dest: keepsD)
qed

lemma save_state: "post P (save env room) (\<lambda>r w. r_state r = r_state room \<and> v_room w = Some r)"
  by (auto simp: post_def save_def store_save_def bnd_def lift_sum_def dest!: RoomSchema_parse_state
      split: sum.splits if_splits)

lemma post_closeUnlocked:
  assumes nfc: "nfc_laws (e_nfc env)" and h: "held env rid r0 room"
  shows "post (room_inv env rid r0) (closeUnlocked env rid room)
    (\<lambda>r w. r_state r = Closed \<and> v_room w = Some r \<and> severed w)"
proof -
  have s: "post severed (save env (room\<lparr>r_state := Closed, r_closed_at := at, r_lifecycle_request := q\<rparr>))
      (\<lambda>r w. r_state r = Closed \<and> v_room w = Some r \<and> severed w)" for at q
  proof (rule post_conj3)
    show "post severed (save env (room\<lparr>r_state := Closed, r_closed_at := at, r_lifecycle_request := q\<rparr>)) (\<lambda>r w. r_state r = Closed)"
      using save_state by (rule post_weaken) simp_all
    show "post severed (save env (room\<lparr>r_state := Closed, r_closed_at := at, r_lifecycle_request := q\<rparr>)) (\<lambda>r w. v_room w = Some r)"
      using save_state by (rule post_weaken) simp_all
    show "post severed (save env (room\<lparr>r_state := Closed, r_closed_at := at, r_lifecycle_request := q\<rparr>)) (\<lambda>r. severed)"
      using post_keeps [OF keeps_conj [OF keeps_unhosted(4) keeps_settled(2)]] by (simp add: severed_def [abs_def])
  qed
  have n: "post severed (now env) (\<lambda>_. severed)"
    using post_keeps [OF keeps_conj [OF keeps_unhosted(3) keeps_settled(1)]] by (simp add: severed_def [abs_def])
  have p: "post (room_inv env rid r0) (purge_identity env) (\<lambda>_ w. room_inv env rid r0 w \<and> \<not> v_hosted w)"
    by (rule post_conj [OF post_keeps [OF keeps_purge] purge_unhosts])
  have c: "post (room_inv env rid r0) (if h then sever_contacts env rid else ret ()) (\<lambda>_. room_inv env rid r0)" for h
    by (intro post_keeps keeps_if keeps_sever keeps_ret)
  show ?thesis
    unfolding closeUnlocked_def
    by (rule post_bnd [OF post_keeps [OF keeps_gets]], rule post_andthen [OF c], rule post_andthen [OF p],
        rule post_andthen [OF close_settles], rule post_bnd [OF n], rule s)
qed

end
