(* ===== verification/Intake.thy ===== *)
theory Intake
  imports Messages Closing
begin

section \<open>Intake and relay\<close>

text \<open>
  \<open>IntakePump\<close> (\<open>src/intake.ts\<close>): an unread message or file of the identity becomes an archive
  record with its recipients, or a durable refusal, before it is acknowledged; the intents of the
  archive are then sent, one result each. The sections under the room mutex are effects; typed
  commands, which the SDK dispatches while the pump reads, are the runtime commands of the other
  theories. \<open>processInboxItem\<close> is the call the pump makes, with \<open>acknowledge\<close> false.
\<close>

subsection \<open>Bodies on the wire\<close>

fun canonicalValue :: "json \<Rightarrow> json" where
  "canonicalValue (J_arr xs) = J_arr (map canonicalValue xs)"
| "canonicalValue (J_obj fs) = J_obj (sort_key fst (map (\<lambda>(k, v). (k, canonicalValue v)) fs))"
| "canonicalValue v = v"

definition canonicalJson :: "json \<Rightarrow> string" where
  "canonicalJson v = stringify (canonicalValue v)"

definition sendRoomBody :: "env \<Rightarrow> string \<Rightarrow> (string \<times> json) list \<Rightarrow> string option \<Rightarrow> (relay_status \<times> string option) svc" where
  "sendRoomBody env cid unsigned reply_to = packet_send env cid (canonicalJson (J_obj unsigned)) reply_to"

fun wireKind :: "category \<Rightarrow> string" where
  "wireKind Briefing = ''room_briefing''"
| "wireKind Role_briefing = ''room_role_briefing''"
| "wireKind Membership = ''room_membership''"
| "wireKind Chat = ''room_msg''"

subsection \<open>What the SDK hands in\<close>

datatype source = Src_message inbox_item | Src_file file_inbox_item

fun src_sender :: "source \<Rightarrow> string" where
  "src_sender (Src_message i) = in_sender_id i"
| "src_sender (Src_file i) = fi_sender_id i"

fun src_wire :: "source \<Rightarrow> string" where
  "src_wire (Src_message i) = in_wire_id i"
| "src_wire (Src_file i) = fi_wire_id i"

fun src_date :: "source \<Rightarrow> string" where
  "src_date (Src_message i) = in_date i"
| "src_date (Src_file i) = fi_date i"

fun src_reply :: "source \<Rightarrow> reply_target option" where
  "src_reply (Src_message i) = in_reply_to i"
| "src_reply (Src_file i) = fi_reply_to i"

fun src_kind :: "source \<Rightarrow> source_kind" where
  "src_kind (Src_message i) = Source_message"
| "src_kind (Src_file i) = Source_file"

fun src_msg_id :: "source \<Rightarrow> int option" where
  "src_msg_id (Src_message i) = Some (in_msg_id i)"
| "src_msg_id (Src_file i) = None"

fun src_file_id :: "source \<Rightarrow> int option" where
  "src_file_id (Src_message i) = None"
| "src_file_id (Src_file i) = Some (fi_file_id i)"

definition src_ref :: "source \<Rightarrow> inbox_ref" where
  "src_ref s = \<lparr>ib_sender_id = src_sender s, ib_is_file = (src_kind s = Source_file), ib_reply_to = src_reply s\<rparr>"

definition reply_json :: "reply_target option \<Rightarrow> json" where
  "reply_json r =
     (case r of None \<Rightarrow> J_null
      | Some t \<Rightarrow> J_obj ([(''wire_id'', J_str (rt_wire_id t))] @ opt_field ''sentence'' J_num (rt_sentence t)))"

fun source_json :: "(string \<Rightarrow> string) \<Rightarrow> source \<Rightarrow> (string \<times> json) list" where
  "source_json sha (Src_file i) =
     [(''kind'', J_str ''file''), (''id'', J_num (fi_file_id i)), (''filename'', J_str (fi_filename i)),
      (''mime'', J_str (fi_mime i)), (''sha256'', J_str (sha (fi_data i)))]"
| "source_json sha (Src_message i) =
     [(''kind'', J_str ''message''), (''id'', J_num (in_msg_id i)), (''text'', J_str (in_text i))]"

definition inputFingerprint :: "(string \<Rightarrow> string) \<Rightarrow> source \<Rightarrow> string" where
  "inputFingerprint sha s =
     sha (canonicalJson (J_obj
       ([(''sender'', J_str (src_sender s)), (''wire'', J_str (src_wire s)), (''date'', J_str (src_date s)),
         (''reply'', reply_json (src_reply s))] @ source_json sha s)))"

subsection \<open>Recognising a replay\<close>

definition same_reply :: "reply_ref option \<Rightarrow> reply_target option \<Rightarrow> bool" where
  "same_reply stored observed \<longleftrightarrow>
     (case (stored, observed) of
        (None, None) \<Rightarrow> True
      | (Some r, Some t) \<Rightarrow> rr_wire_id r = rt_wire_id t \<and> rr_sentence r = rt_sentence t
      | _ \<Rightarrow> False)"

definition observed_wire :: "string \<Rightarrow> string option" where
  "observed_wire wire = (if wire = [] then None else Some wire)"

definition rejection_matches :: "(string \<Rightarrow> string) \<Rightarrow> rejection \<Rightarrow> source \<Rightarrow> bool" where
  "rejection_matches sha r s \<longleftrightarrow>
     rj_source_kind r = src_kind s
     \<and> (case s of Src_file i \<Rightarrow> rj_source_file_id r = Some (fi_file_id i)
                | Src_message i \<Rightarrow> rj_source_msg_id r = Some (in_msg_id i))
     \<and> rj_source_wire_id r = src_wire s \<and> rj_sender_identity r = src_sender s
     \<and> rj_fingerprint r = inputFingerprint sha s"

definition isRejectedReplay :: "(string \<Rightarrow> string) \<Rightarrow> row option \<Rightarrow> source \<Rightarrow> err + bool" where
  "isRejectedReplay sha stored s =
     (case map_option w_body stored of
        Some (Intake_rejection r) \<Rightarrow>
          if rejection_matches sha r s then Inr True else Inl (Plain_error ''does not match its durable intake rejection'')
      | _ \<Rightarrow> Inr False)"

definition message_matches :: "row \<Rightarrow> message \<Rightarrow> inbox_item \<Rightarrow> bool" where
  "message_matches w m i \<longleftrightarrow>
     m_source_wire_id m = observed_wire (in_wire_id i) \<and> same_reply (m_source_reply_to m) (in_reply_to i)
     \<and> a_identity (m_author m) = in_sender_id i \<and> m_text m = in_text i \<and> w_at w = in_date i"

definition findSourceMessage :: "row option \<Rightarrow> inbox_item \<Rightarrow> err + row option" where
  "findSourceMessage stored i =
     (case stored of None \<Rightarrow> Inr None
      | Some w \<Rightarrow>
          (case w_body w of
             Message m \<Rightarrow>
               if m_source_msg_id m \<noteq> Some (in_msg_id i) then Inr None
               else if message_matches w m i then Inr (Some w)
               else Inl (Plain_error ''does not match its durable room message'')
           | _ \<Rightarrow> Inr None))"

definition file_matches :: "row \<Rightarrow> file_item \<Rightarrow> file_inbox_item \<Rightarrow> bool" where
  "file_matches w f i \<longleftrightarrow>
     f_source_wire_id f = observed_wire (fi_wire_id i) \<and> same_reply (f_source_reply_to f) (fi_reply_to i)
     \<and> a_identity (f_author f) = fi_sender_id i \<and> f_filename f = fi_filename i \<and> f_mime f = fi_mime i
     \<and> w_at w = fi_date i \<and> f_size f = int (length (fi_data i)) \<and> f_data_base64 f = b64_encode (fi_data i)"

definition findSourceFile :: "row option \<Rightarrow> file_inbox_item \<Rightarrow> err + row option" where
  "findSourceFile stored i =
     (case stored of None \<Rightarrow> Inr None
      | Some w \<Rightarrow>
          (case w_body w of
             File f \<Rightarrow>
               if f_source_file_id f \<noteq> fi_file_id i then Inr None
               else if file_matches w f i then Inr (Some w)
               else Inl (Plain_error ''does not match its durable room file'')
           | _ \<Rightarrow> Inr None))"

subsection \<open>Refusals\<close>

definition bounceRemovedSender :: "env \<Rightarrow> room \<Rightarrow> string \<Rightarrow> unit svc" where
  "bounceRemovedSender env room sender =
     (case List.find (\<lambda>s. s_identity s = sender \<and> s_state s = Seat_removed) (r_seats room) of
        None \<Rightarrow> ret ()
      | Some removed \<Rightarrow>
          if s_bounced_at removed \<noteq> None \<or> is_active_cid room sender then ret ()
          else
            bnd (now env) (\<lambda>at.
            bnd (save env (room\<lparr>r_seats := map (\<lambda>c. if s_participant_id c = s_participant_id removed
                   then c\<lparr>s_bounced_at := Some at\<rparr> else c) (r_seats room)\<rparr>)) (\<lambda>_.
            catch (bnd (sendRoomBody env sender
                     [(''version'', J_num 1), (''kind'', J_str ''room_not_member''),
                      (''room_id'', J_str (r_room_id room)), (''room_name'', J_str (r_room_name room))] None)
                   (\<lambda>_. ret ())) (\<lambda>_. ret ()))))"

fun refusal_of :: "thread_error \<Rightarrow> (rejection_error \<times> string) option" where
  "refusal_of Reply_target_unavailable = Some (Rejected_reply_target, ''reply_target_unavailable'')"
| "refusal_of Thread_files_unsupported = Some (Rejected_thread_file, ''thread_files_unsupported'')"
| "refusal_of _ = None"

definition sender_seat :: "room \<Rightarrow> string \<Rightarrow> seat option" where
  "sender_seat room cid =
     (case List.find (\<lambda>s. s_identity s = cid \<and> s_state s = Seat_active) (r_seats room) of
        Some s \<Rightarrow> Some s
      | None \<Rightarrow> List.find (\<lambda>s. s_identity s = cid) (r_seats room))"

definition notify_refusal :: "env \<Rightarrow> room \<Rightarrow> string \<Rightarrow> string \<Rightarrow> unit svc" where
  "notify_refusal env room sender code =
     catch
       (andthen hosted
        (bnd (tick (e_ulid env)) (\<lambda>ident.
         bnd (now env) (\<lambda>at.
         bnd (sendRoomBody env sender (room_body ''room_msg'' room ident (room_author room) [] code at) None) (\<lambda>_.
           ret ())))))
       (\<lambda>_. ret ())"

definition recordRejectionUnlocked :: "env \<Rightarrow> room \<Rightarrow> source \<Rightarrow> thread_error \<Rightarrow> unit svc" where
  "recordRejectionUnlocked env room s failure =
     (case sender_seat room (src_sender s) of
        None \<Rightarrow> raise (Plain_error ''intake rejection requires a known seat and source wire'')
      | Some seat \<Rightarrow>
          if src_wire s = [] then raise (Plain_error ''intake rejection requires a known seat and source wire'')
          else
            (case refusal_of failure of
               None \<Rightarrow> raise (Thread_failure failure)
             | Some (e, code) \<Rightarrow>
                 bnd (append_at env (r_room_id room) (Intake_rejection
                   \<lparr>rj_source_kind = src_kind s, rj_source_msg_id = src_msg_id s, rj_source_file_id = src_file_id s,
                    rj_source_wire_id = src_wire s, rj_sender_identity = src_sender s,
                    rj_sender_participant_id = s_participant_id seat,
                    rj_fingerprint = inputFingerprint (e_sha env) s, rj_error = e\<rparr>)) (\<lambda>_.
                 notify_refusal env room (src_sender s) code)))"

definition freshScopeUnlocked :: "env \<Rightarrow> room \<Rightarrow> source \<Rightarrow> (string list \<times> thread_scope option) option svc" where
  "freshScopeUnlocked env room s =
     bnd (gets (\<lambda>w. (if src_reply s = None then Inr [] else readReplyRows (v_archive w) (r_room_id room),
                     if src_reply s = None then 1 else next_seq (rows_of w)))) (\<lambda>(read, before).
       case (case read of Inl e \<Rightarrow> Inl e | Inr rows \<Rightarrow> resolveIntakeScope room rows (src_ref s) before) of
         Inr disposition \<Rightarrow> ret (Some disposition)
       | Inl (Thread_failure f) \<Rightarrow> bnd (recordRejectionUnlocked env room s f) (\<lambda>_. ret None)
       | Inl e \<Rightarrow> raise e)"

subsection \<open>Completing the fan-out\<close>

text \<open>The work table hands out at most \<open>DEFAULT_WORK_BATCH_SIZE\<close> recipients of one record.\<close>

definition completeIntents :: "env \<Rightarrow> string \<Rightarrow> row \<Rightarrow> (string \<Rightarrow> body) \<Rightarrow> unit svc" where
  "completeIntents env rid w intent =
     bnd (gets (\<lambda>v. relayRecipientsNeedingIntent (v_archive v) (w_seq w) DEFAULT_WORK_BATCH_SIZE)) (\<lambda>cids.
       for_each cids (\<lambda>cid. bnd (append_at env rid (intent cid)) (\<lambda>_. ret ())))"

definition file_intent :: "string \<Rightarrow> string \<Rightarrow> body" where
  "file_intent ident cid = Relay_intent \<lparr>ri_message_id = None, ri_file_id = Some ident, ri_recipient = cid\<rparr>"

definition completeRecordIntents :: "env \<Rightarrow> string \<Rightarrow> row \<Rightarrow> unit svc" where
  "completeRecordIntents env rid w =
     (case w_body w of
        Message m \<Rightarrow> completeIntents env rid w (message_intent (m_message_id m))
      | File f \<Rightarrow> completeIntents env rid w (file_intent (f_file_id f))
      | _ \<Rightarrow> ret ())"

fun complete_batches :: "nat \<Rightarrow> env \<Rightarrow> string \<Rightarrow> unit svc" where
  "complete_batches 0 env rid = raise (Plain_error ''out of fuel'')"
| "complete_batches (Suc n) env rid =
     bnd (gets (\<lambda>w. recordsNeedingRelayIntents (v_archive w) 0 JOURNAL_WORK_BATCH_SIZE)) (\<lambda>records.
       if records = [] then ret ()
       else andthen (for_each records (completeRecordIntents env rid)) (complete_batches n env rid))"

definition completeSnapshotIntents :: "env \<Rightarrow> string \<Rightarrow> unit svc" where
  "completeSnapshotIntents env rid =
     bnd (gets (\<lambda>w. Suc (length (a_work (v_archive w))))) (\<lambda>fuel. complete_batches fuel env rid)"

subsection \<open>Messages and files\<close>

definition first_row :: "query_options \<Rightarrow> row option svc" where
  "first_row q = bnd (query (q\<lparr>q_limit := Some 1\<rparr>)) (\<lambda>found. ret (case found of [] \<Rightarrow> None | w # _ \<Rightarrow> Some w))"

definition active_sender :: "room \<Rightarrow> string \<Rightarrow> seat option" where
  "active_sender room cid = List.find (\<lambda>s. s_identity s = cid \<and> s_state s = Seat_active) (r_seats room)"

definition known_sender :: "room \<Rightarrow> string \<Rightarrow> bool" where
  "known_sender room cid \<longleftrightarrow> list_ex (\<lambda>s. s_identity s = cid) (r_seats room)"

text \<open>A sender without a seat, or without an active one and not replying, is turned away.\<close>

definition turned_away :: "room \<Rightarrow> source \<Rightarrow> bool" where
  "turned_away room s \<longleftrightarrow>
     \<not> known_sender room (src_sender s)
     \<or> (src_reply s = None \<and> (r_state room \<noteq> Room_active \<or> active_sender room (src_sender s) = None))"

definition seat_author :: "seat \<Rightarrow> author" where
  "seat_author seat = \<lparr>a_identity = s_identity seat, a_display_name = s_display_name seat, a_role = s_role seat\<rparr>"

definition seat_alias :: "room \<Rightarrow> seat \<Rightarrow> author_alias option" where
  "seat_alias room seat =
     (if r_anonymous room then map_option (\<lambda>al. \<lparr>al_participant_id = s_participant_id seat, al_alias = al\<rparr>) (s_alias seat)
      else None)"

definition stored_reply :: "reply_target option \<Rightarrow> reply_ref option" where
  "stored_reply r = map_option (\<lambda>t. \<lparr>rr_wire_id = rt_wire_id t, rr_sentence = rt_sentence t\<rparr>) r"

definition incoming_message :: "room \<Rightarrow> seat \<Rightarrow> inbox_item \<Rightarrow> string list \<times> thread_scope option \<Rightarrow> string \<Rightarrow> message" where
  "incoming_message room seat i disposition ident =
     \<lparr>m_message_id = ident, m_author = seat_author seat, m_author_alias = seat_alias room seat, m_category = Chat,
      m_briefing_role = None, m_briefing_version = None, m_membership = None, m_text = in_text i,
      m_recipients = fst disposition, m_source_msg_id = Some (in_msg_id i),
      m_source_wire_id = observed_wire (in_wire_id i), m_source_reply_to = stored_reply (in_reply_to i),
      m_scope = snd disposition, m_thread_root = None\<rparr>"

definition appendIncomingMessage :: "env \<Rightarrow> string \<Rightarrow> room \<Rightarrow> inbox_item \<Rightarrow> string list \<times> thread_scope option \<Rightarrow> row svc" where
  "appendIncomingMessage env rid room i disposition =
     (case active_sender room (in_sender_id i) of
        None \<Rightarrow> raise (Plain_error ''authorized message sender has no active seat'')
      | Some seat \<Rightarrow>
          if \<not> isStrictRfc3339 (in_date i) then raise Zod_error
          else
            bnd (fresh_ulid env) (\<lambda>ident.
              append env rid \<lparr>d_room_id = rid, d_at = in_date i,
                d_body = Message (incoming_message room seat i disposition ident)\<rparr>))"

definition processInboxItem :: "env \<Rightarrow> string \<Rightarrow> inbox_item \<Rightarrow> unit svc" where
  "processInboxItem env rid i =
     bnd (load env) (\<lambda>room.
     bnd (first_row (any_row\<lparr>q_source_msg_id := Some (in_msg_id i)\<rparr>)) (\<lambda>stored.
     bnd (lift_sum (isRejectedReplay (e_sha env) stored (Src_message i))) (\<lambda>replayed.
       if replayed then ret ()
       else
         bnd (lift_sum (findSourceMessage stored i)) (\<lambda>found.
           case found of
             Some w \<Rightarrow> completeRecordIntents env rid w
           | None \<Rightarrow>
               if turned_away room (Src_message i)
               then (if r_state room = Room_active then bounceRemovedSender env room (in_sender_id i) else ret ())
               else
                 bnd (freshScopeUnlocked env room (Src_message i)) (\<lambda>scope.
                   case scope of
                     None \<Rightarrow> ret ()
                   | Some disposition \<Rightarrow>
                       bnd (appendIncomingMessage env rid room i disposition) (completeRecordIntents env rid))))))"

text \<open>The SDK marks the file read and returns it; the response must be the one expected file.\<close>

definition packet_acknowledgeFile :: "env \<Rightarrow> file_inbox_item \<Rightarrow> unit svc" where
  "packet_acknowledgeFile env i =
     andthen (sdk env (e_get_file env))
       (bnd (gets (\<lambda>w. filter (\<lambda>x. fi_wire_id x = fi_wire_id i) (v_files w))) (\<lambda>pulled.
        andthen (modify (\<lambda>w. w\<lparr>v_files := filter (\<lambda>x. fi_wire_id x \<noteq> fi_wire_id i) (v_files w)\<rparr>))
          (require (pulled = [i]) (Plain_error ''SDK did not acknowledge selected file''))))"

definition incoming_file :: "(string \<Rightarrow> string) \<Rightarrow> room \<Rightarrow> seat \<Rightarrow> file_inbox_item \<Rightarrow> string list \<Rightarrow> string \<Rightarrow> file_item" where
  "incoming_file sha room seat i recipients ident =
     \<lparr>f_file_id = ident, f_author = seat_author seat, f_author_alias = seat_alias room seat,
      f_filename = fi_filename i, f_mime = fi_mime i, f_size = int (length (fi_data i)), f_sha256 = sha (fi_data i),
      f_data_base64 = b64_encode (fi_data i), f_recipients = recipients, f_source_file_id = fi_file_id i,
      f_source_wire_id = observed_wire (fi_wire_id i), f_source_reply_to = stored_reply (fi_reply_to i)\<rparr>"

text \<open>\<open>None\<close>: the file's metadata is beyond repair and it is drained.\<close>

definition appendIncomingFile :: "env \<Rightarrow> string \<Rightarrow> room \<Rightarrow> file_inbox_item \<Rightarrow> string list \<Rightarrow> row option svc" where
  "appendIncomingFile env rid room i recipients =
     (case active_sender room (fi_sender_id i) of
        None \<Rightarrow> raise (Plain_error ''authorized file sender has no active seat'')
      | Some seat \<Rightarrow>
          if \<not> file_name_ok (fi_filename i) \<or> \<not> file_mime_ok (fi_mime i) then ret None
          else if int (length (fi_data i)) > max_file_bytes then raise Range_error
          else if \<not> isStrictRfc3339 (fi_date i) then raise Zod_error
          else
            bnd (fresh_ulid env) (\<lambda>ident.
            bnd (append env rid \<lparr>d_room_id = rid, d_at = fi_date i,
                  d_body = File (incoming_file (e_sha env) room seat i recipients ident)\<rparr>) (\<lambda>w. ret (Some w))))"

definition finish_file :: "env \<Rightarrow> string \<Rightarrow> file_inbox_item \<Rightarrow> row option \<Rightarrow> unit svc" where
  "finish_file env rid i stored =
     andthen (case stored of None \<Rightarrow> ret () | Some w \<Rightarrow> completeRecordIntents env rid w) (packet_acknowledgeFile env i)"

definition processFileInboxItem :: "env \<Rightarrow> string \<Rightarrow> file_inbox_item \<Rightarrow> unit svc" where
  "processFileInboxItem env rid i =
     bnd (load env) (\<lambda>room.
     bnd (first_row (any_row\<lparr>q_source_file_id := Some (fi_file_id i)\<rparr>)) (\<lambda>stored.
     bnd (lift_sum (isRejectedReplay (e_sha env) stored (Src_file i))) (\<lambda>replayed.
       if replayed then packet_acknowledgeFile env i
       else
         bnd (lift_sum (findSourceFile stored i)) (\<lambda>found.
           case found of
             Some w \<Rightarrow> finish_file env rid i (Some w)
           | None \<Rightarrow>
               if turned_away room (Src_file i)
               then andthen (if r_state room = Room_active then bounceRemovedSender env room (fi_sender_id i) else ret ())
                      (packet_acknowledgeFile env i)
               else
                 bnd (freshScopeUnlocked env room (Src_file i)) (\<lambda>scope.
                   case scope of
                     None \<Rightarrow> packet_acknowledgeFile env i
                   | Some disposition \<Rightarrow>
                       bnd (appendIncomingFile env rid room i (fst disposition)) (finish_file env rid i))))))"

subsection \<open>They keep the room invariant\<close>

lemma keeps_sendRoomBody [keeps_intro]: "keeps (room_inv env rid r0) (sendRoomBody env' cid unsigned reply_to)"
  unfolding sendRoomBody_def by (rule inv_packet)

lemma keeps_bounce:
  assumes nfc: "nfc_laws (e_nfc env)" and h: "held env rid r0 room"
  shows "keeps (room_inv env rid r0) (bounceRemovedSender env room sender)"
proof -
  have e: "evolves room (room\<lparr>r_seats := map (\<lambda>c. if s_participant_id c = s_participant_id removed
      then c\<lparr>s_bounced_at := Some at\<rparr> else c) (r_seats room)\<rparr>)" for removed at
    by (rule evolves_seats [where f = "\<lambda>c. if s_participant_id c = s_participant_id removed
      then c\<lparr>s_bounced_at := Some at\<rparr> else c"]) (simp_all add: seat_step_def)
  show ?thesis
    unfolding bounceRemovedSender_def
    by (intro keeps_steps keeps_save_then [OF nfc h e] keeps_intro)
qed

lemma keeps_rejection:
  "r_room_id room = rid \<Longrightarrow> keeps (room_inv env rid r0) (recordRejectionUnlocked env room s failure)"
  unfolding recordRejectionUnlocked_def notify_refusal_def by (auto intro!: keeps_intro)

lemma keeps_freshScope:
  assumes "r_room_id room = rid" shows "keeps (room_inv env rid r0) (freshScopeUnlocked env room s)"
proof -
  have "keeps (room_inv env rid r0) (case x of Inr d \<Rightarrow> ret (Some d)
      | Inl (Thread_failure f) \<Rightarrow> bnd (recordRejectionUnlocked env room s f) (\<lambda>_. ret None) | Inl e \<Rightarrow> raise e)" for x
    by (auto split: sum.splits err.splits intro!: keeps_intro keeps_rejection [OF assms])
  then show ?thesis unfolding freshScopeUnlocked_def by (intro keeps_bnd keeps_gets keeps_case_prod)
qed

lemma keeps_completeRecord [keeps_intro]: "keeps (room_inv env rid r0) (completeRecordIntents env rid w)"
  unfolding completeRecordIntents_def completeIntents_def
  by (cases "w_body w") (auto intro!: keeps_intro)

lemma keeps_complete_batches: "keeps (room_inv env rid r0) (complete_batches n env rid)"
  by (induction n) (simp_all add: keeps_raise, intro keeps_intro)

lemma keeps_completeSnapshot [keeps_intro]: "keeps (room_inv env rid r0) (completeSnapshotIntents env rid)"
  unfolding completeSnapshotIntents_def by (intro keeps_bnd keeps_gets keeps_complete_batches)

lemma keeps_first_row [keeps_intro]: "keeps (room_inv env rid r0) (first_row q)"
  unfolding first_row_def by (intro keeps_intro)

lemma keeps_acknowledgeFile [keeps_intro]: "keeps (room_inv env rid r0) (packet_acknowledgeFile env' i)"
  unfolding packet_acknowledgeFile_def by (intro keeps_intro inv_modify) simp_all

lemma keeps_appendIncoming [keeps_intro]:
  "keeps (room_inv env rid r0) (appendIncomingMessage env rid room i d)"
  "keeps (room_inv env rid r0) (appendIncomingFile env rid room j rs)"
  unfolding appendIncomingMessage_def appendIncomingFile_def by (intro keeps_intro)+

lemma keeps_processInboxItem:
  assumes nfc: "nfc_laws (e_nfc env)"
  shows "keeps (room_inv env rid r0) (processInboxItem env rid i)"
  unfolding processInboxItem_def
  by (intro keeps_load_then keeps_bnd keeps_first_row keeps_lift_sum keeps_if keeps_ret keeps_case_option
      keeps_completeRecord keeps_bounce [OF nfc] keeps_freshScope held_id keeps_appendIncoming; assumption?)

lemma keeps_processFileInboxItem:
  assumes nfc: "nfc_laws (e_nfc env)"
  shows "keeps (room_inv env rid r0) (processFileInboxItem env rid i)"
  unfolding processFileInboxItem_def finish_file_def
  by (intro keeps_load_then keeps_bnd keeps_first_row keeps_lift_sum keeps_if keeps_ret keeps_case_option keeps_andthen
      keeps_completeRecord keeps_bounce [OF nfc] keeps_freshScope held_id keeps_appendIncoming keeps_acknowledgeFile; assumption?)

end
