(* ===== verification/Relay.thy ===== *)
theory Relay
  imports Intake
begin

section \<open>Relaying and the pump\<close>

text \<open>
  The second half of \<open>IntakePump\<close> (\<open>src/intake.ts\<close>): every relay intent without a result is
  decided (\<open>relay_plan\<close>: pass over it, settle it as skipped, or send), sent and given its result;
  and the pump that drains the identity's unread messages and files in batches before it relays.
  A send that throws leaves its intent without a result, the other recipients are still tried, and
  the first such error is thrown at the end.
\<close>

subsection \<open>Deciding about one recipient\<close>

datatype relay_plan = Pass_over | Settle relay_status | Deliver "author option" "(string \<times> json) list"

definition is_removed_cid :: "room \<Rightarrow> string \<Rightarrow> bool" where
  "is_removed_cid room cid \<longleftrightarrow> list_ex (\<lambda>s. s_state s = Seat_removed \<and> s_identity s = cid) (r_seats room)"

definition scoped_plan ::
  "room \<Rightarrow> nat \<Rightarrow> string \<Rightarrow> row \<Rightarrow> reply_decision \<Rightarrow> row \<Rightarrow> thread_root \<Rightarrow> thread_scope \<Rightarrow> err + relay_plan" where
  "scoped_plan room intent_seq cid w decision root tr sc =
     (case (w_body w, w_body root) of
        (Message m, Message rm) \<Rightarrow>
          if \<not> List.member (m_recipients m) cid \<or> intent_seq \<le> w_seq w
            \<or> \<not> list_ex (\<lambda>t. tm_identity t = cid) (tr_members tr)
          then Inl (Thread_failure Reply_target_unavailable)
          else if \<not> threadRelayEligible room tr cid then Inr (Settle Skipped_removed)
          else
            (case publicThreadMetadata (r_anonymous room) (w_at root) rm tr of Inl e \<Rightarrow> Inl e
             | Inr metadata \<Rightarrow>
            (case publicThreadAuthor (r_anonymous room) m tr of Inl e \<Rightarrow> Inl e
             | Inr author \<Rightarrow>
                 if m_message_id m = m_message_id rm
                 then Inr (Deliver (Some author)
                   [(''thread'', thread_json (m_message_id rm)), (''thread_root'', metadata_json metadata)])
                 else
                   (case decision of
                      Linked k s \<Rightarrow>
                        if Some k = sc_parent_key sc
                        then Inr (Deliver (Some author) [(''thread'', thread_json (m_message_id rm))])
                        else Inl (Thread_failure Reply_target_unavailable)
                    | _ \<Rightarrow> Inl (Thread_failure Reply_target_unavailable))))
      | _ \<Rightarrow> Inl (Thread_failure Reply_target_unavailable))"

definition relay_plan :: "room \<Rightarrow> row list \<Rightarrow> nat \<Rightarrow> string \<Rightarrow> row \<Rightarrow> reply_decision \<Rightarrow> err + relay_plan" where
  "relay_plan room rows intent_seq cid w decision =
     (case (case classifyThreadAssociation (r_room_id room) (r_anonymous room) rows w of
              Inl e \<Rightarrow> Inl e
            | Inr (Scoped root tr sc) \<Rightarrow> scoped_plan room intent_seq cid w decision root tr sc
            | Inr Ordinary \<Rightarrow>
                Inr (if \<not> List.member (recipients_of (w_body w)) cid then Pass_over
                     else if \<not> is_active_cid room cid \<and> is_removed_cid room cid then Settle Skipped_removed
                     else Deliver None [])) of
        Inl (Thread_failure f) \<Rightarrow> Inr (Settle Skipped_reply_unavailable)
      | r \<Rightarrow> r)"

definition linked_wire :: "reply_decision \<Rightarrow> string option" where
  "linked_wire decision = (case decision of Linked k s \<Rightarrow> Some s | _ \<Rightarrow> None)"

subsection \<open>What is sent\<close>

definition relayed_author :: "author option \<Rightarrow> message \<Rightarrow> author" where
  "relayed_author scoped m =
     (case scoped of Some a \<Rightarrow> a
      | None \<Rightarrow>
          (case m_author_alias m of None \<Rightarrow> m_author m
           | Some al \<Rightarrow> \<lparr>a_identity = al_participant_id al, a_display_name = al_alias al, a_role = a_role (m_author m)\<rparr>))"

definition relay_body :: "room \<Rightarrow> string \<Rightarrow> message \<Rightarrow> author option \<Rightarrow> (string \<times> json) list \<Rightarrow> (string \<times> json) list" where
  "relay_body room at m scoped thread =
     room_body (wireKind (m_category m)) room (m_message_id m) (relayed_author scoped m) thread (m_text m) at
     @ opt_field ''briefing_role'' J_str (m_briefing_role m)
     @ opt_field ''briefing_version'' J_num (m_briefing_version m)
     @ opt_field ''membership'' notice_json (m_membership m)"

definition uploader :: "file_item \<Rightarrow> string" where
  "uploader f = (case f_author_alias f of Some al \<Rightarrow> al_alias al | None \<Rightarrow> a_display_name (f_author f))"

definition file_notice :: "room \<Rightarrow> string \<Rightarrow> file_item \<Rightarrow> (string \<times> json) list" where
  "file_notice room at f =
     room_body ''room_msg'' room (f_file_id f) (room_author room) [] (uploader f @ '' sent a file'') at"

subsection \<open>Attempts and results\<close>

text \<open>\<open>attempt\<close>: the outcome, or nothing and the first error so far.\<close>

definition attempt :: "err option \<Rightarrow> 'a svc \<Rightarrow> ('a option \<times> err option) svc" where
  "attempt failed send =
     catch (bnd send (\<lambda>x. ret (Some x, failed)))
       (\<lambda>e. ret (None, case failed of None \<Rightarrow> Some e | Some f \<Rightarrow> Some f))"

definition outcome_wire :: "string option \<Rightarrow> string option" where
  "outcome_wire wire = (if wire = Some [] then None else wire)"

definition relay_outcome :: "row \<Rightarrow> relay_intent \<Rightarrow> relay_status \<Rightarrow> string option \<Rightarrow> string option \<Rightarrow> body" where
  "relay_outcome v i status wire metadata_wire =
     Relay_result \<lparr>rs_intent_record_id = w_record_id v, rs_message_id = ri_message_id i, rs_file_id = ri_file_id i,
       rs_recipient = ri_recipient i, rs_status = status, rs_wire_id = outcome_wire wire,
       rs_metadata_wire_id = outcome_wire metadata_wire\<rparr>"

definition settle :: "env \<Rightarrow> string \<Rightarrow> row \<Rightarrow> relay_intent \<Rightarrow> relay_status \<Rightarrow> string option \<Rightarrow> string option \<Rightarrow> err option \<Rightarrow> err option svc" where
  "settle env rid v i status wire metadata_wire failed =
     bnd (append_at env rid (relay_outcome v i status wire metadata_wire)) (\<lambda>_. ret failed)"

definition skipRelay :: "env \<Rightarrow> string \<Rightarrow> row \<Rightarrow> relay_intent \<Rightarrow> relay_status \<Rightarrow> err option \<Rightarrow> err option svc" where
  "skipRelay env rid v i status failed = settle env rid v i status None None failed"

definition deliver_message ::
  "env \<Rightarrow> room \<Rightarrow> row \<Rightarrow> relay_intent \<Rightarrow> string \<Rightarrow> message \<Rightarrow> author option \<Rightarrow> (string \<times> json) list \<Rightarrow> string option \<Rightarrow> err option \<Rightarrow> err option svc" where
  "deliver_message env room v i at m scoped thread reply_to failed =
     bnd (attempt failed (sendRoomBody env (ri_recipient i) (relay_body room at m scoped thread) reply_to))
       (\<lambda>(outcome, failed').
          case outcome of None \<Rightarrow> ret failed'
          | Some (status, wire) \<Rightarrow> settle env (r_room_id room) v i status wire None failed')"

definition deliver_file ::
  "env \<Rightarrow> room \<Rightarrow> row \<Rightarrow> relay_intent \<Rightarrow> string \<Rightarrow> file_item \<Rightarrow> string option \<Rightarrow> err option \<Rightarrow> err option svc" where
  "deliver_file env room v i at f reply_to failed =
     bnd (attempt failed (sendRoomBody env (ri_recipient i) (file_notice room at f) reply_to))
       (\<lambda>(notice, failed').
          case notice of None \<Rightarrow> ret failed'
          | Some (noticed, notice_wire) \<Rightarrow>
              if noticed = Send_failed then settle env (r_room_id room) v i Send_failed None None failed'
              else
                bnd (attempt failed' (packet_sendFile env (ri_recipient i) (f_filename f) (f_mime f)
                       (b64_decode (f_data_base64 f)) reply_to))
                  (\<lambda>(outcome, failed'').
                     case outcome of None \<Rightarrow> ret failed''
                     | Some (status, wire) \<Rightarrow> settle env (r_room_id room) v i status wire notice_wire failed''))"

subsection \<open>One intent\<close>

definition row_by :: "kind \<Rightarrow> (string \<Rightarrow> query_options \<Rightarrow> query_options) \<Rightarrow> string option \<Rightarrow> row option svc" where
  "row_by k by ident =
     (case ident of None \<Rightarrow> ret None
      | Some x \<Rightarrow> first_row (by x (any_row\<lparr>q_kind := Some k\<rparr>)))"

text \<open>The one item an intent names; an intent that names none, or two, is passed over.\<close>

definition intent_source :: "relay_intent \<Rightarrow> row option svc" where
  "intent_source i =
     bnd (row_by K_message (\<lambda>x q. q\<lparr>q_message_id := Some x\<rparr>) (ri_message_id i)) (\<lambda>m.
     bnd (row_by K_file (\<lambda>x q. q\<lparr>q_file_id := Some x\<rparr>) (ri_file_id i)) (\<lambda>f.
       ret (case (m, f) of (Some w, None) \<Rightarrow> Some w | (None, Some w) \<Rightarrow> Some w | _ \<Rightarrow> None)))"

definition reply_rows_for :: "string \<Rightarrow> row \<Rightarrow> row list svc" where
  "reply_rows_for rid w =
     (if source_reply_of (w_body w) = None \<and> \<not> declares_thread (w_body w) then ret []
      else bnd (gets (\<lambda>v. readReplyRows (v_archive v) rid)) lift_sum)"

definition deliver ::
  "env \<Rightarrow> room \<Rightarrow> row \<Rightarrow> relay_intent \<Rightarrow> row \<Rightarrow> author option \<Rightarrow> (string \<times> json) list \<Rightarrow> string option \<Rightarrow> err option \<Rightarrow> err option svc" where
  "deliver env room v i w scoped thread reply_to failed =
     (case w_body w of
        Message m \<Rightarrow> deliver_message env room v i (w_at w) m scoped thread reply_to failed
      | File f \<Rightarrow> deliver_file env room v i (w_at w) f reply_to failed
      | _ \<Rightarrow> ret failed)"

definition relay_one :: "env \<Rightarrow> room \<Rightarrow> row \<Rightarrow> err option \<Rightarrow> err option svc" where
  "relay_one env room v failed =
     (case w_body v of
        Relay_intent i \<Rightarrow>
          bnd (intent_source i) (\<lambda>source.
            case source of None \<Rightarrow> ret failed
            | Some w \<Rightarrow>
                bnd (reply_rows_for (r_room_id room) w) (\<lambda>rows.
                bnd (lift_sum (selectReply rows (r_room_id room) w (ri_recipient i))) (\<lambda>decision.
                bnd (lift_sum (relay_plan room rows (w_seq v) (ri_recipient i) w decision)) (\<lambda>plan.
                  case plan of
                    Pass_over \<Rightarrow> ret failed
                  | Settle status \<Rightarrow> skipRelay env (r_room_id room) v i status failed
                  | Deliver scoped thread \<Rightarrow>
                      deliver env room v i w scoped thread (linked_wire decision) failed))))
      | _ \<Rightarrow> ret failed)"

definition relayPendingUnlocked :: "env \<Rightarrow> unit svc" where
  "relayPendingUnlocked env =
     bnd (load env) (\<lambda>room.
     bnd (for_unresolved K_relay_intent K_relay_result (relay_one env room) None) (\<lambda>failed.
       case failed of None \<Rightarrow> ret () | Some e \<Rightarrow> raise e))"

subsection \<open>The pump\<close>

definition INTAKE_BATCH_SIZE :: nat where
  "INTAKE_BATCH_SIZE = 32"

definition shouldPause :: "env \<Rightarrow> bool svc" where
  "shouldPause env =
     bnd (load env) (\<lambda>room. if r_state room = Provisioning then ret True
       else bnd (load env) (\<lambda>again. ret (lifecycle_pending again)))"

definition same_source :: "inbox_item \<Rightarrow> inbox_item \<Rightarrow> bool" where
  "same_source a b \<longleftrightarrow> in_msg_id a = in_msg_id b \<and> in_wire_id a = in_wire_id b"

text \<open>
  \<open>getMessages({limit: 1})\<close> marks the oldest unread message read and returns it. One that is not
  the expected message is processed and the next one is fetched.
\<close>

definition pull_message :: "env \<Rightarrow> inbox_item option svc" where
  "pull_message env =
     andthen (sdk env (e_get_message env))
       (bnd (gets v_inbox) (\<lambda>unread.
          case unread of [] \<Rightarrow> ret None
          | i # rest \<Rightarrow> andthen (modify (\<lambda>w. w\<lparr>v_inbox := rest\<rparr>)) (ret (Some i))))"

fun acknowledge_from :: "nat \<Rightarrow> env \<Rightarrow> string \<Rightarrow> inbox_item \<Rightarrow> unit svc" where
  "acknowledge_from 0 env rid expected = raise (Plain_error ''out of fuel'')"
| "acknowledge_from (Suc n) env rid expected =
     bnd (load env) (\<lambda>room.
       if r_state room = Provisioning \<or> lifecycle_pending room then ret ()
       else
         bnd (pull_message env) (\<lambda>pulled.
           case pulled of None \<Rightarrow> ret ()
           | Some i \<Rightarrow>
               if same_source i expected
               then require (i = expected) (Plain_error ''SDK acknowledged message does not match'')
               else andthen (processInboxItem env rid i) (acknowledge_from n env rid expected)))"

definition packet_acknowledgeMessage :: "env \<Rightarrow> string \<Rightarrow> inbox_item \<Rightarrow> unit svc" where
  "packet_acknowledgeMessage env rid expected =
     bnd (gets (\<lambda>w. Suc (length (v_inbox w)))) (\<lambda>fuel. acknowledge_from fuel env rid expected)"

fun until_paused :: "env \<Rightarrow> 'x list \<Rightarrow> ('x \<Rightarrow> unit svc) \<Rightarrow> unit svc" where
  "until_paused env [] f = ret ()"
| "until_paused env (x # xs) f =
     bnd (shouldPause env) (\<lambda>paused. if paused then ret () else andthen (f x) (until_paused env xs f))"

definition unread :: "env \<Rightarrow> (inbox_item list \<times> file_inbox_item list) svc" where
  "unread env =
     andthen (sdk env (e_list_messages env))
       (bnd (gets (\<lambda>w. take INTAKE_BATCH_SIZE (v_inbox w))) (\<lambda>messages.
        andthen (sdk env (e_list_files env))
          (bnd (gets (\<lambda>w. take INTAKE_BATCH_SIZE (v_files w))) (\<lambda>files. ret (messages, files)))))"

fun drain :: "nat \<Rightarrow> env \<Rightarrow> string \<Rightarrow> unit svc" where
  "drain 0 env rid = raise (Plain_error ''out of fuel'')"
| "drain (Suc n) env rid =
     bnd (shouldPause env) (\<lambda>paused. if paused then ret () else
     bnd (shouldPause env) (\<lambda>paused. if paused then ret () else
     bnd (unread env) (\<lambda>(messages, files).
       if messages = [] \<and> files = [] then ret ()
       else
         andthen (until_paused env messages (\<lambda>i.
             andthen (processInboxItem env rid i) (packet_acknowledgeMessage env rid i)))
         (andthen (until_paused env files (processFileInboxItem env rid))
           (drain n env rid)))))"

definition drainAndRelay :: "env \<Rightarrow> string \<Rightarrow> unit svc" where
  "drainAndRelay env rid =
     andthen (bnd (gets (\<lambda>w. Suc (length (v_inbox w) + length (v_files w)))) (\<lambda>fuel. drain fuel env rid))
       (bnd (shouldPause env) (\<lambda>paused.
          if paused then ret ()
          else andthen (completeSnapshotIntents env rid) (relayPendingUnlocked env)))"

text \<open>One turn of \<open>runPump\<close>: \<open>afterPump\<close> executes an accepted close or delete.\<close>

definition pump :: "env \<Rightarrow> string \<Rightarrow> unit svc" where
  "pump env rid =
     bnd (gets v_hosted) (\<lambda>h.
       if \<not> h then ret ()
       else andthen (drainAndRelay env rid) (bnd (resumeLifecycleRequest env rid) (\<lambda>_. ret ())))"

subsection \<open>They keep the room invariant\<close>

lemma keeps_attempt [keeps_intro]: "keeps I send \<Longrightarrow> keeps I (attempt failed send)"
  unfolding attempt_def by (intro keeps_intro)

lemma keeps_relay_parts [keeps_intro]:
  "keeps (room_inv env rid r0) (settle env rid v i status wire mw failed)"
  "keeps (room_inv env rid r0) (intent_source i)"
  "keeps (room_inv env rid r0) (reply_rows_for rid' w)"
  unfolding settle_def intent_source_def reply_rows_for_def row_by_def by (intro keeps_intro)+

lemma keeps_deliver:
  assumes "r_room_id room = rid" shows "keeps (room_inv env rid r0) (deliver env room v i w scoped thread reply_to failed)"
proof (cases "w_body w")
  case (Message m)
  then show ?thesis unfolding deliver_def deliver_message_def assms by (simp, intro keeps_intro)
next
  case (File f)
  then show ?thesis unfolding deliver_def deliver_file_def assms by (simp, intro keeps_intro)
qed (simp_all add: deliver_def keeps_ret)

lemma keeps_relay_one:
  assumes "r_room_id room = rid" shows "keeps (room_inv env rid r0) (relay_one env room v failed)"
proof (cases "w_body v")
  case (Relay_intent i)
  have p: "keeps (room_inv env rid r0) (case plan of Pass_over \<Rightarrow> ret failed
      | Settle status \<Rightarrow> skipRelay env (r_room_id room) v i status failed
      | Deliver scoped thread \<Rightarrow> deliver env room v i w scoped thread wire failed)" for plan w wire
    by (cases plan) (simp_all add: keeps_ret skipRelay_def assms keeps_relay_parts keeps_deliver)
  show ?thesis unfolding relay_one_def Relay_intent body.case
    by (intro keeps_bnd keeps_case_option keeps_ret keeps_lift_sum keeps_relay_parts p)
qed (simp_all add: relay_one_def keeps_ret)

lemma keeps_relayPending [keeps_intro]: "keeps (room_inv env rid r0) (relayPendingUnlocked env)"
  unfolding relayPendingUnlocked_def
  by (intro keeps_load_then keeps_bnd keeps_for_unresolved keeps_relay_one held_id keeps_case_option keeps_ret keeps_raise)

lemma keeps_shouldPause [keeps_intro]: "keeps (room_inv env rid r0) (shouldPause env)"
  unfolding shouldPause_def by (intro keeps_steps)

lemma keeps_pull_message [keeps_intro]: "keeps (room_inv env rid r0) (pull_message env')"
  unfolding pull_message_def
  by (intro keeps_andthen inv_sdk keeps_bnd keeps_gets) (auto split: list.splits intro!: keeps_intro inv_modify)

lemma keeps_acknowledge_from:
  assumes nfc: "nfc_laws (e_nfc env)"
  shows "keeps (room_inv env rid r0) (acknowledge_from n env rid expected)"
  by (induction n) (simp_all add: keeps_raise, intro keeps_load_then keeps_if keeps_ret keeps_bnd keeps_pull_message
    keeps_case_option keeps_require keeps_andthen keeps_processInboxItem [OF nfc])

lemma keeps_acknowledgeMessage:
  assumes nfc: "nfc_laws (e_nfc env)"
  shows "keeps (room_inv env rid r0) (packet_acknowledgeMessage env rid expected)"
  unfolding packet_acknowledgeMessage_def by (intro keeps_bnd keeps_gets keeps_acknowledge_from [OF nfc])

lemma keeps_until_paused:
  "(\<And>x. keeps (room_inv env rid r0) (f x)) \<Longrightarrow> keeps (room_inv env rid r0) (until_paused env xs f)"
  by (induction xs) (simp_all add: keeps_ret keeps_bnd keeps_if keeps_andthen keeps_shouldPause)

lemma keeps_unread [keeps_intro]: "keeps (room_inv env rid r0) (unread env')"
  unfolding unread_def by (intro keeps_intro)

lemma keeps_drain:
  assumes nfc: "nfc_laws (e_nfc env)"
  shows "keeps (room_inv env rid r0) (drain n env rid)"
  by (induction n) (simp_all add: keeps_raise, intro keeps_bnd keeps_shouldPause keeps_if keeps_ret
    keeps_unread keeps_case_prod keeps_andthen keeps_until_paused keeps_gets keeps_processInboxItem [OF nfc]
    keeps_processFileInboxItem [OF nfc] keeps_acknowledgeMessage [OF nfc])

lemma keeps_drainAndRelay:
  assumes nfc: "nfc_laws (e_nfc env)"
  shows "keeps (room_inv env rid r0) (drainAndRelay env rid)"
  unfolding drainAndRelay_def
  by (intro keeps_andthen keeps_bnd keeps_gets keeps_drain [OF nfc] keeps_shouldPause keeps_if keeps_ret
      keeps_completeSnapshot keeps_relayPending)

lemma keeps_pump:
  assumes nfc: "nfc_laws (e_nfc env)"
  shows "keeps (room_inv env rid r0) (pump env rid)"
  unfolding pump_def
  by (intro keeps_bnd keeps_gets keeps_if keeps_ret keeps_andthen keeps_drainAndRelay [OF nfc] keeps_lifecycle(1) [OF nfc])

subsection \<open>Relaying never adds an intent\<close>

lemma grows_modify: "(\<And>w. v_archive (f w) = v_archive w) \<Longrightarrow> moves (grows_without k) (modify f)"
  by (simp add: moves_def eff_simps grows_without_def rows_of_def)

lemma query_grows: "moves (grows_without k) (query q)"
  by (simp add: moves_def query_def grows_without_def)

lemma grows_rebind: "moves (grows_without k) (rebind env)"
proof -
  have "moves (grows_without k) (rebind_once env)"
    unfolding rebind_once_def refreshUnlocked_def refreshContactsUnlocked_def
    by (intro grows_rules grows_modify) simp_all
  then have "moves (grows_without k) (rebind_attempts env n)" for n
    by (induction n) (simp_all, intro grows_rules)
  then show ?thesis by (simp add: rebind_def)
qed

lemma grows_runBound: "moves (grows_without k) m \<Longrightarrow> moves (grows_without k) (runBound env m)"
  unfolding runBound_def by (intro grows_rules grows_rebind)

lemma grows_sends:
  "moves (grows_without k) (packet_send env cid b reply_to)"
  "moves (grows_without k) (packet_sendFile env cid fname mime bytes reply_to)"
  unfolding packet_send_def packet_sendFile_def sent_to_def
  by (intro grows_rules grows_runBound grows_modify; simp)+

lemma attempt_grows: "moves (grows_without k) send \<Longrightarrow> moves (grows_without k) (attempt failed send)"
  unfolding attempt_def by (intro grows_rules)

lemma settle_grows: "moves (grows_without K_relay_intent) (settle env rid v i status wire mw failed)"
  unfolding settle_def by (intro grows_rules append_at_grows) (simp add: relay_outcome_def)

lemma deliver_grows: "moves (grows_without K_relay_intent) (deliver env room v i w scoped thread reply_to failed)"
proof (cases "w_body w")
  case (Message m)
  then show ?thesis unfolding deliver_def deliver_message_def sendRoomBody_def
    by (simp, intro grows_rules attempt_grows grows_sends settle_grows)
next
  case (File f)
  then show ?thesis unfolding deliver_def deliver_file_def sendRoomBody_def
    by (simp, intro grows_rules attempt_grows grows_sends settle_grows)
qed (simp_all add: deliver_def grows.ret_moves)

lemma relay_one_grows: "moves (grows_without K_relay_intent) (relay_one env room v failed)"
proof (cases "w_body v")
  case (Relay_intent i)
  have p: "moves (grows_without K_relay_intent) (case plan of Pass_over \<Rightarrow> ret failed
      | Settle status \<Rightarrow> skipRelay env (r_room_id room) v i status failed
      | Deliver scoped thread \<Rightarrow> deliver env room v i w scoped thread wire failed)" for plan w wire
    by (cases plan) (simp_all add: grows.ret_moves skipRelay_def settle_grows deliver_grows)
  show ?thesis unfolding relay_one_def Relay_intent body.case intent_source_def row_by_def first_row_def reply_rows_for_def
    by (intro grows_rules query_grows p)
qed (simp_all add: relay_one_def grows.ret_moves)

subsection \<open>Who is sent what\<close>

lemma relay_planD:
  assumes "relay_plan room rows n cid w decision = Inr (Deliver scoped thread)"
  shows "cid \<in> set (recipients_of (w_body w))
    \<and> ((classifyThreadAssociation (r_room_id room) (r_anonymous room) rows w = Inr Ordinary \<and> scoped = None \<and> thread = []
          \<and> (is_active_cid room cid \<or> \<not> is_removed_cid room cid))
       \<or> (\<exists>root tr sc m a. classifyThreadAssociation (r_room_id room) (r_anonymous room) rows w = Inr (Scoped root tr sc)
            \<and> w_body w = Message m \<and> scoped = Some a \<and> publicThreadAuthor (r_anonymous room) m tr = Inr a
            \<and> threadRelayEligible room tr cid \<and> w_seq w < n))"
proof (cases "classifyThreadAssociation (r_room_id room) (r_anonymous room) rows w")
  case (Inl e)
  then show ?thesis using assms by (auto simp: relay_plan_def split: err.splits)
next
  case (Inr a)
  show ?thesis
  proof (cases a)
    case Ordinary
    then show ?thesis using assms Inr by (auto simp: relay_plan_def split: if_splits)
  next
    case (Scoped root tr sc)
    then have "scoped_plan room n cid w decision root tr sc = Inr (Deliver scoped thread)"
      using assms Inr by (auto simp: relay_plan_def split: sum.splits err.splits)
    then show ?thesis
      using Inr Scoped
      by (auto simp: scoped_plan_def split: body.splits if_splits sum.splits reply_decision.splits)
  qed
qed

lemma publicThreadAuthor_alias:
  "publicThreadAuthor True m tr = Inr a \<Longrightarrow>
    \<exists>al. m_author_alias m = Some al \<and> alias_ok al
      \<and> a = \<lparr>a_identity = al_participant_id al, a_display_name = al_alias al, a_role = a_role (m_author m)\<rparr>"
  by (auto simp: publicThreadAuthor_def split: option.splits if_splits)

end
