(* ===== verification/Service.thy ===== *)
theory Service
  imports Relay Settings Invites
begin

section \<open>The public operations of the room service\<close>

text \<open>
  What \<open>RoomService\<close> (\<open>src/service.ts\<close>) offers its transports beyond the methods that run
  under the room mutex: the read-only operations, the three views of a room's history with their
  byte bound, and the public methods that release the mutex and then let the pump deliver what they
  archived (\<open>intake.resumePending\<close>).
\<close>

subsection \<open>The JSON text of a record\<close>

fun relay_status_name :: "relay_status \<Rightarrow> string" where
  "relay_status_name Queued = ''queued''"
| "relay_status_name Send_failed = ''send_failed''"
| "relay_status_name Skipped_removed = ''skipped_removed''"
| "relay_status_name Skipped_reply_unavailable = ''skipped_reply_unavailable''"

definition strings_json :: "string list \<Rightarrow> json" where
  "strings_json xs = J_arr (map J_str xs)"

definition alias_json :: "author_alias \<Rightarrow> json" where
  "alias_json al = J_obj [(''participant_id'', J_str (al_participant_id al)), (''alias'', J_str (al_alias al))]"

definition reply_ref_json :: "reply_ref \<Rightarrow> json" where
  "reply_ref_json r = J_obj ((''wire_id'', J_str (rr_wire_id r)) # opt_field ''sentence'' J_num (rr_sentence r))"

definition scope_json :: "thread_scope \<Rightarrow> json" where
  "scope_json sc = J_obj ((''thread_id'', J_str (sc_thread_id sc)) # opt_field ''parent_key'' J_str (sc_parent_key sc))"

definition root_json :: "thread_root \<Rightarrow> json" where
  "root_json tr = J_obj [(''schema_version'', J_num 1), (''thread_id'', J_str (tr_thread_id tr)),
     (''topic'', J_str (tr_topic tr)), (''creator_participant_id'', J_str (tr_creator_participant_id tr)),
     (''members'', J_arr (map (\<lambda>m. J_obj [(''participant_id'', J_str (tm_participant_id m)),
        (''identity'', J_str (tm_identity m))]) (tr_members tr))),
     (''idempotency_key'', J_str (tr_idempotency_key tr)), (''fingerprint'', J_str (tr_fingerprint tr))]"

definition message_fields :: "message \<Rightarrow> (string \<times> json) list" where
  "message_fields m =
     [(''kind'', J_str ''message''), (''message_id'', J_str (m_message_id m)), (''author'', author_json (m_author m))]
     @ opt_field ''author_alias'' alias_json (m_author_alias m)
     @ [(''category'', J_str (category_name (m_category m)))]
     @ opt_field ''briefing_role'' J_str (m_briefing_role m)
     @ opt_field ''briefing_version'' J_num (m_briefing_version m)
     @ opt_field ''membership'' notice_json (m_membership m)
     @ [(''text'', J_str (m_text m)), (''recipient_identities'', strings_json (m_recipients m))]
     @ opt_field ''source_msg_id'' J_num (m_source_msg_id m)
     @ opt_field ''source_wire_id'' J_str (m_source_wire_id m)
     @ opt_field ''source_reply_to'' reply_ref_json (m_source_reply_to m)
     @ opt_field ''scope'' scope_json (m_scope m) @ opt_field ''thread_root'' root_json (m_thread_root m)"

text \<open>\<open>FileMetadataRecordSchema\<close> omits the file's bytes.\<close>

definition file_fields :: "bool \<Rightarrow> file_item \<Rightarrow> (string \<times> json) list" where
  "file_fields with_bytes f =
     [(''kind'', J_str ''file''), (''file_id'', J_str (f_file_id f)), (''author'', author_json (f_author f))]
     @ opt_field ''author_alias'' alias_json (f_author_alias f)
     @ [(''filename'', J_str (f_filename f)), (''mime'', J_str (f_mime f)), (''size'', J_num (f_size f)),
        (''sha256'', J_str (f_sha256 f))]
     @ (if with_bytes then [(''data_base64'', J_str (f_data_base64 f))] else [])
     @ [(''recipient_identities'', strings_json (f_recipients f)), (''source_file_id'', J_num (f_source_file_id f))]
     @ opt_field ''source_wire_id'' J_str (f_source_wire_id f)
     @ opt_field ''source_reply_to'' reply_ref_json (f_source_reply_to f)"

definition rejection_fields :: "rejection \<Rightarrow> (string \<times> json) list" where
  "rejection_fields r =
     [(''kind'', J_str ''intake_rejection''),
      (''source_kind'', J_str (if rj_source_kind r = Source_message then ''message'' else ''file''))]
     @ opt_field ''source_msg_id'' J_num (rj_source_msg_id r) @ opt_field ''source_file_id'' J_num (rj_source_file_id r)
     @ [(''source_wire_id'', J_str (rj_source_wire_id r)), (''sender_identity'', J_str (rj_sender_identity r)),
        (''sender_participant_id'', J_str (rj_sender_participant_id r)), (''fingerprint'', J_str (rj_fingerprint r)),
        (''error'', J_str (if rj_error r = Rejected_reply_target then ''reply_target_unavailable''
           else ''thread_files_unsupported'')), (''notification_attempt_claimed'', J_bool True)]"

definition removal_fields :: "membership_intent \<Rightarrow> (string \<times> json) list" where
  "removal_fields j =
     [(''kind'', J_str ''membership_intent''), (''action'', J_str ''remove''),
      (''participant_id'', J_str (mj_participant_id j)), (''recipient_identity'', J_str (mj_recipient j)),
      (''role'', J_str (mj_role j))]
     @ opt_field ''alias'' J_str (mj_alias j)
     @ [(''epoch'', J_num (mj_epoch j)), (''notify'', J_bool (mj_notify j))]
     @ opt_field ''command'' (\<lambda>a. J_obj [(''sender_cid'', J_str (ca_sender_cid a)),
          (''sender_participant_id'', J_str (ca_sender_participant_id a)),
          (''request_wire_id'', J_str (ca_request_wire_id a)), (''idempotency_key'', J_str (ca_idempotency_key a)),
          (''expected_membership_epoch'', J_num (ca_expected_membership_epoch a))]) (mj_command j)"

definition sever_fields :: "string \<Rightarrow> (string \<times> json) \<Rightarrow> relay_status \<Rightarrow> bool \<Rightarrow> bool \<Rightarrow> (string \<times> json) list" where
  "sever_fields intent who status notified uncertain =
     [(''intent_record_id'', J_str intent), who, (''status'', J_str (relay_status_name status)),
      (''notified'', J_bool notified), (''key_material_retained'', J_bool True)]
     @ (if uncertain then [(''uncertain_after_restart'', J_bool True)] else [])"

fun body_fields :: "bool \<Rightarrow> body \<Rightarrow> (string \<times> json) list" where
  "body_fields with_bytes (Message m) = message_fields m"
| "body_fields with_bytes (File f) = file_fields with_bytes f"
| "body_fields with_bytes (Relay_intent i) =
     [(''kind'', J_str ''relay_intent'')] @ opt_field ''message_id'' J_str (ri_message_id i)
     @ opt_field ''file_id'' J_str (ri_file_id i) @ [(''recipient_identity'', J_str (ri_recipient i))]"
| "body_fields with_bytes (Relay_result r) =
     [(''kind'', J_str ''relay_result''), (''intent_record_id'', J_str (rs_intent_record_id r))]
     @ opt_field ''message_id'' J_str (rs_message_id r) @ opt_field ''file_id'' J_str (rs_file_id r)
     @ [(''recipient_identity'', J_str (rs_recipient r)), (''status'', J_str (relay_status_name (rs_status r)))]
     @ opt_field ''wire_id'' J_str (rs_wire_id r) @ opt_field ''metadata_wire_id'' J_str (rs_metadata_wire_id r)"
| "body_fields with_bytes (Intake_rejection r) = rejection_fields r"
| "body_fields with_bytes (Membership_intent j) = removal_fields j"
| "body_fields with_bytes (Membership_result r) =
     (''kind'', J_str ''membership_result'') #
     sever_fields (mr_intent_record_id r) (''participant_id'', J_str (mr_participant_id r)) (mr_status r)
       (mr_notified r) (mr_uncertain_after_restart r)"
| "body_fields with_bytes (Close_notice_intent c) =
     [(''kind'', J_str ''close_notice_intent''), (''recipient_identity'', J_str c)]"
| "body_fields with_bytes (Close_notice_result r) =
     (''kind'', J_str ''close_notice_result'') #
     sever_fields (cr_intent_record_id r) (''recipient_identity'', J_str (cr_recipient r)) (cr_status r)
       (cr_notified r) (cr_uncertain_after_restart r)"

definition row_json :: "bool \<Rightarrow> row \<Rightarrow> json" where
  "row_json with_bytes w =
     J_obj ([(''version'', J_num 1), (''room_id'', J_str (w_room_id w)), (''seq'', J_num (int (w_seq w))),
       (''record_id'', J_str (w_record_id w)), (''at'', J_str (w_at w))] @ body_fields with_bytes (w_body w))"

subsection \<open>The byte bound of a page\<close>

fun byte_page :: "('a \<Rightarrow> string) \<Rightarrow> 'a list \<Rightarrow> nat \<Rightarrow> 'a list \<Rightarrow> err + 'a list" where
  "byte_page encode [] bytes page = Inr page"
| "byte_page encode (r # rs) bytes page =
     (let nextBytes = length (encode r) + (if page = [] then 0 else 1) in
      if bytes + nextBytes > MAX_HISTORY_PAGE_BYTES
      then (if page = [] then Inl Range_error else Inr page)
      else byte_page encode rs (bytes + nextBytes) (page @ [r]))"

definition byteBoundedHistoryPage :: "('a \<Rightarrow> string) \<Rightarrow> 'a list \<Rightarrow> err + 'a list" where
  "byteBoundedHistoryPage encode records = byte_page encode records 2 []"

text \<open>The size of the JSON array of a page.\<close>

definition array_bytes :: "('a \<Rightarrow> string) \<Rightarrow> 'a list \<Rightarrow> nat" where
  "array_bytes encode page = length (''['' @ join '','' (map encode page) @ '']'')"

lemma array_bytes_snoc:
  "array_bytes encode (page @ [r]) = array_bytes encode page + (length (encode r) + (if page = [] then 0 else 1))"
  by (cases page) (simp_all add: array_bytes_def length_join)

lemma byte_page_max:
  assumes "byte_page encode rs bytes page = Inr res" and "bytes = array_bytes encode page"
    and "bytes \<le> MAX_HISTORY_PAGE_BYTES"
  shows "\<exists>k\<le>length rs. res = page @ take k rs \<and> array_bytes encode res \<le> MAX_HISTORY_PAGE_BYTES
    \<and> (k < length rs \<longrightarrow> array_bytes encode (res @ [rs ! k]) > MAX_HISTORY_PAGE_BYTES)
    \<and> (res = [] \<longrightarrow> page @ rs = [])"
  using assms
proof (induction rs arbitrary: bytes page)
  case Nil
  then show ?case by simp
next
  case (Cons r rs)
  let ?n = "length (encode r) + (if page = [] then 0 else 1)"
  note snoc = array_bytes_snoc [of encode page r, folded Cons.prems(2)]
  show ?case
  proof (cases "bytes + ?n > MAX_HISTORY_PAGE_BYTES")
    case True
    then have "res = page" "page \<noteq> []" using Cons.prems(1) by (auto simp: Let_def split: if_splits)
    then show ?thesis using True Cons.prems(2,3) snoc by (intro exI [of _ 0]) auto
  next
    case False
    then have "byte_page encode rs (bytes + ?n) (page @ [r]) = Inr res" using Cons.prems(1) by (simp add: Let_def)
    from Cons.IH [OF this snoc [symmetric]] False
    have "\<exists>k\<le>length rs. res = (page @ [r]) @ take k rs \<and> array_bytes encode res \<le> MAX_HISTORY_PAGE_BYTES
      \<and> (k < length rs \<longrightarrow> array_bytes encode (res @ [rs ! k]) > MAX_HISTORY_PAGE_BYTES)" by force
    then obtain k where "k \<le> length rs" "res = (page @ [r]) @ take k rs"
      "array_bytes encode res \<le> MAX_HISTORY_PAGE_BYTES"
      "k < length rs \<longrightarrow> array_bytes encode (res @ [rs ! k]) > MAX_HISTORY_PAGE_BYTES" by blast
    then show ?thesis by (intro exI [of _ "Suc k"]) simp
  qed
qed

lemma byte_page_started: "page \<noteq> [] \<Longrightarrow> byte_page encode rs bytes page \<noteq> Inl e"
  by (induction rs arbitrary: bytes page) (simp_all add: Let_def)

lemma byte_page_error:
  "byte_page encode rs 2 [] = Inl e \<Longrightarrow>
    e = Range_error \<and> rs \<noteq> [] \<and> array_bytes encode [hd rs] > MAX_HISTORY_PAGE_BYTES"
  by (cases rs) (auto simp: Let_def array_bytes_def byte_page_started split: if_splits)

text \<open>A page of the operator's history is the longest prefix of the records found whose JSON array
  stays within the byte contract; the only failure is a first record that alone exceeds it.\<close>

theorem history_page_maximal:
  "case byteBoundedHistoryPage encode records of
     Inl e \<Rightarrow> e = Range_error \<and> records \<noteq> [] \<and> array_bytes encode [hd records] > MAX_HISTORY_PAGE_BYTES
   | Inr page \<Rightarrow>
       (\<exists>k\<le>length records. page = take k records \<and> array_bytes encode page \<le> MAX_HISTORY_PAGE_BYTES
          \<and> (k = length records \<or> array_bytes encode (take (Suc k) records) > MAX_HISTORY_PAGE_BYTES))"
proof (cases "byteBoundedHistoryPage encode records")
  case (Inl e)
  then show ?thesis using byte_page_error unfolding byteBoundedHistoryPage_def by auto
next
  case (Inr page)
  then have "byte_page encode records 2 [] = Inr page" by (simp add: byteBoundedHistoryPage_def)
  from byte_page_max [OF this]
  obtain k where k: "k \<le> length records" "page = take k records" "array_bytes encode page \<le> MAX_HISTORY_PAGE_BYTES"
    "k < length records \<longrightarrow> array_bytes encode (page @ [records ! k]) > MAX_HISTORY_PAGE_BYTES"
    by (auto simp: array_bytes_def MAX_HISTORY_PAGE_BYTES_def)
  then have "k = length records \<or> array_bytes encode (take (Suc k) records) > MAX_HISTORY_PAGE_BYTES"
    by (cases "k = length records") (simp_all add: take_Suc_conv_app_nth)
  then show ?thesis using k Inr by (auto intro!: exI [of _ k])
qed

subsection \<open>Reading the archive page by page\<close>

function read_pages :: "nat \<Rightarrow> (nat \<Rightarrow> row list \<Rightarrow> bool) \<Rightarrow> archive \<Rightarrow> nat \<Rightarrow> row list \<Rightarrow> err + row list" where
  "read_pages limit invalid ar after records =
     (let batch = read_rows ar after limit in
      if batch = [] then Inr records
      else if invalid after batch then Inl (Plain_error ''invalid participant history archive page'')
      else read_pages limit invalid ar (w_seq (last batch)) (records @ batch))"
  by pat_completeness auto

termination read_pages
proof (relation "measure (\<lambda>(limit, invalid, ar, after, rows). length (filter (\<lambda>w. after < w_seq w) (a_rows ar)))", goal_cases)
  case (2 limit invalid ar after records batch)
  then have "last batch \<in> set batch" by simp
  with 2 have "last batch \<in> set (filter (\<lambda>w. after < w_seq w) (a_rows ar))"
    unfolding read_rows_def by (metis in_set_takeD)
  then show ?case by (auto intro!: filter_shrinks)
qed simp

declare read_pages.simps [simp del]

lemma read_pages_complete:
  assumes ok: "archive_ok sha rid ar" and lim: "0 < limit"
    and valid: "\<And>after. read_rows ar after limit \<noteq> [] \<Longrightarrow> \<not> invalid after (read_rows ar after limit)"
  shows "read_pages limit invalid ar after records = Inr (records @ filter (\<lambda>w. after < w_seq w) (a_rows ar))"
  using ok lim valid
proof (induction limit invalid ar after records rule: read_pages.induct)
  case (1 limit invalid ar after records)
  let ?page = "read_rows ar after limit"
  show ?case
  proof (cases "?page = []")
    case True
    then show ?thesis using archive_log.page_empty [OF 1(2,3)] by (subst read_pages.simps) simp
  next
    case False
    have v: "\<not> invalid after ?page" by (rule 1(4) [OF False])
    then have "read_pages limit invalid ar after records = read_pages limit invalid ar (w_seq (last ?page)) (records @ ?page)"
      using False by (subst read_pages.simps) (simp add: Let_def)
    also have "\<dots> = Inr ((records @ ?page) @ filter (\<lambda>w. w_seq (last ?page) < w_seq w) (a_rows ar))"
      by (rule 1(1) [OF refl False v 1(2,3)]) (rule 1(4))
    also have "\<dots> = Inr (records @ filter (\<lambda>w. after < w_seq w) (a_rows ar))"
      using archive_log.page_split [OF 1(2,3) False] by simp
    finally show ?thesis .
  qed
qed

lemma all_after_zero: "archive_ok sha rid ar \<Longrightarrow> filter (\<lambda>w. 0 < w_seq w) (a_rows ar) = a_rows ar"
  using seqs_bounded by (auto simp: archive_ok_def filter_id_conv)

subsection \<open>The history views\<close>

definition archived :: "(archive \<Rightarrow> 'a) \<Rightarrow> 'a svc" where
  "archived f =
     bnd (gets v_room) (\<lambda>present.
       if present = None then raise (Storage_error ''room directory does not exist'')
       else gets (\<lambda>w. f (v_archive w)))"

definition invalid_page :: "string \<Rightarrow> nat \<Rightarrow> row list \<Rightarrow> bool" where
  "invalid_page rid after batch \<longleftrightarrow> w_seq (last batch) \<le> after \<or> list_ex (\<lambda>w. w_room_id w \<noteq> rid) batch"

definition participantHistory :: "env \<Rightarrow> string \<Rightarrow> string \<Rightarrow> int option \<Rightarrow> int option \<Rightarrow> history_record list svc" where
  "participantHistory env rid viewerCid after limit =
     (if \<not> (opt_ok nonneg_safe after \<and> opt_ok positive_safe limit) then raise Zod_error
      else
        bnd (load env) (\<lambda>room.
          if r_state room \<noteq> Room_active \<or> \<not> is_active_cid room viewerCid then raise (Thread_failure Unauthorized)
          else
            bnd (archived (\<lambda>ar. read_pages JOURNAL_WORK_BATCH_SIZE (invalid_page rid) ar 0 [])) (\<lambda>rows.
            bnd (lift_sum rows) (\<lambda>records.
              lift_sum (projectParticipantHistory room records viewerCid after limit)))))"

datatype history_view = Operator | Operator_metadata | Participant_view
datatype history_page = Full "row list" | Redacted "history_record list"

text \<open>The operator's redacted view: the messages, an aliased author only by its alias.\<close>

definition redacted_message :: "row \<Rightarrow> history_record option" where
  "redacted_message w =
     (case w_body w of
        Message m \<Rightarrow> Some (publicHistoryMessage w m
          (case m_author_alias m of None \<Rightarrow> m_author m
           | Some al \<Rightarrow> \<lparr>a_identity = al_participant_id al, a_display_name = al_alias al, a_role = a_role (m_author m)\<rparr>))
      | _ \<Rightarrow> None)"

definition without_bytes :: "row \<Rightarrow> row" where
  "without_bytes w = (case w_body w of File f \<Rightarrow> w\<lparr>w_body := File (f\<lparr>f_data_base64 := []\<rparr>)\<rparr> | _ \<Rightarrow> w)"

definition page_after :: "int option \<Rightarrow> int option \<Rightarrow> archive \<Rightarrow> row list" where
  "page_after after limit ar =
     (let found = filter (\<lambda>w. nat (default_to after 0) < w_seq w) (a_rows ar) in
      case limit of None \<Rightarrow> found | Some n \<Rightarrow> take (nat n) found)"

definition history :: "env \<Rightarrow> history_view \<Rightarrow> int option \<Rightarrow> int option \<Rightarrow> history_page svc" where
  "history env view after limit =
     (if \<not> (opt_ok nonneg_safe after \<and> opt_ok positive_safe limit) then raise Zod_error
      else
        (case view of
           Operator_metadata \<Rightarrow>
             bnd (archived (\<lambda>ar. map without_bytes (page_after after limit ar))) (\<lambda>records.
             bnd (lift_sum (byteBoundedHistoryPage (\<lambda>w. stringify (row_json False w)) records)) (\<lambda>page. ret (Full page)))
         | Operator \<Rightarrow>
             bnd (archived (page_after after limit)) (\<lambda>records.
             bnd (lift_sum (byteBoundedHistoryPage (\<lambda>w. stringify (row_json True w)) records)) (\<lambda>page. ret (Full page)))
         | Participant_view \<Rightarrow>
             bnd (query (any_row\<lparr>q_kind := Some K_message, q_after := map_option nat after,
                    q_limit := map_option nat limit\<rparr>)) (\<lambda>records.
             bnd (lift_sum (byteBoundedHistoryPage (\<lambda>h. stringify (history_json h))
                    (case limit of None \<Rightarrow> List.map_filter redacted_message records
                     | Some n \<Rightarrow> take (nat n) (List.map_filter redacted_message records)))) (\<lambda>page. ret (Redacted page)))))"

text \<open>\<open>resourceRoom\<close>: the room, its seats and the metadata of every record past the cursor.\<close>

definition resourceRoom :: "env \<Rightarrow> nat option \<Rightarrow> (room \<times> seat list \<times> row list) svc" where
  "resourceRoom env historyAfter =
     bnd (load env) (\<lambda>room.
     bnd (archived (\<lambda>ar. read_pages 200 (\<lambda>_ _. False) ar (default_to historyAfter 0) [])) (\<lambda>rows.
     bnd (lift_sum rows) (\<lambda>history. ret (room, r_seats room, map without_bytes history))))"

subsection \<open>Requests\<close>

datatype request =
    Settings update_request
  | Set_briefing string string
  | Delete_briefing string
  | Invite create_invite_request
  | Accept_external string string "string option"
  | Remove_participant string "bool option"
  | Revoke string
  | Recover
  | Recover_confirm string string
  | Rebind
  | Show
  | Participants
  | Grants
  | Role_grants
  | Role_set role_grant
  | Grant grant
  | Ungrant grant
  | History history_view "int option" "int option"
  | Say string
  | Say_as string string
  | Rest_add string
  | Rest_remove string
  | Definition_list
  | Definition_put int consumer_definition
  | Definition_delete int string
  | Definition_reload
  | Close
  | Delete bool

datatype response =
    A_room room
  | An_invite invite_receipt
  | A_descriptor invite
  | Receipts "invite_receipt list"
  | External_receipt external_receipt
  | Removal removal_receipt
  | Seats "seat list"
  | Grant_list "grant list"
  | Role_grant_list "role_grant list"
  | A_page history_page
  | Posted row
  | Definitions "int \<times> bool \<times> consumer_definition list"
  | Nothing

text \<open>\<open>resumePending\<close> delivers what was archived, unless a pump is running and will do it.\<close>

definition resumePending :: "bool \<Rightarrow> env \<Rightarrow> string \<Rightarrow> unit svc" where
  "resumePending pumping env rid = (if pumping then ret () else pump env rid)"

definition delivered :: "bool \<Rightarrow> env \<Rightarrow> string \<Rightarrow> 'a svc \<Rightarrow> ('a \<Rightarrow> response) \<Rightarrow> response svc" where
  "delivered pumping env rid m answer =
     bnd m (\<lambda>x. andthen (resumePending pumping env rid) (ret (answer x)))"

definition delivered_if :: "bool \<Rightarrow> env \<Rightarrow> string \<Rightarrow> (room \<times> bool) svc \<Rightarrow> response svc" where
  "delivered_if pumping env rid m =
     bnd m (\<lambda>(room, redelivered).
       andthen (if redelivered then resumePending pumping env rid else ret ()) (ret (A_room room)))"

definition answered :: "'a svc \<Rightarrow> ('a \<Rightarrow> response) \<Rightarrow> response svc" where
  "answered m answer = bnd m (\<lambda>x. ret (answer x))"

fun serve :: "(string \<Rightarrow> string option) \<Rightarrow> bool \<Rightarrow> env \<Rightarrow> string \<Rightarrow> request \<Rightarrow> response svc" where
  "serve unpack pumping env rid (Settings q) = delivered_if pumping env rid (updateRoom env q)"
| "serve unpack pumping env rid (Set_briefing role text) = delivered_if pumping env rid (setRoleBriefing env role text)"
| "serve unpack pumping env rid (Delete_briefing role) = answered (deleteRoleBriefing env role) A_room"
| "serve unpack pumping env rid (Invite q) = answered (createInvite env q) An_invite"
| "serve unpack pumping env rid (Accept_external role blob expected) =
     delivered pumping env rid (acceptExternalInvite env unpack role blob expected) External_receipt"
| "serve unpack pumping env rid (Remove_participant participant notify) =
     bnd (removeParticipant env participant notify) (\<lambda>receipt.
       andthen (catch (resumePending pumping env rid) (\<lambda>_. ret ())) (ret (Removal receipt)))"
| "serve unpack pumping env rid (Revoke ident) = answered (revokeInvite env ident) A_descriptor"
| "serve unpack pumping env rid Recover = delivered pumping env rid (recoverInvites env) Receipts"
| "serve unpack pumping env rid (Recover_confirm old new) =
     delivered pumping env rid (confirmRecoveredInvite env old new) A_descriptor"
| "serve unpack pumping env rid Rebind = delivered pumping env rid (rebindIdentity env rid) A_room"
| "serve unpack pumping env rid Show = answered (load env) A_room"
| "serve unpack pumping env rid Participants = answered (load env) (\<lambda>room. Seats (r_seats room))"
| "serve unpack pumping env rid Grants = answered (load env) (\<lambda>room. Grant_list (r_command_grants room))"
| "serve unpack pumping env rid Role_grants = answered (load env) (\<lambda>room. Role_grant_list (r_role_command_grants room))"
| "serve unpack pumping env rid (Role_set g) = answered (setRuntimeRoleCommands env g) Role_grant_list"
| "serve unpack pumping env rid (Grant g) = answered (grantRuntimeCommand env g) Grant_list"
| "serve unpack pumping env rid (Ungrant g) = answered (revokeRuntimeCommand env g) Grant_list"
| "serve unpack pumping env rid (History view after limit) = answered (history env view after limit) A_page"
| "serve unpack pumping env rid (Say text) = delivered pumping env rid (postMessage env rid text) Posted"
| "serve unpack pumping env rid (Say_as role text) = delivered pumping env rid (postAsRole env rid role text) Posted"
| "serve unpack pumping env rid (Rest_add role) = answered (addRestRole env role) A_room"
| "serve unpack pumping env rid (Rest_remove role) = answered (removeRestRole env role) A_room"
| "serve unpack pumping env rid Definition_list = answered (consumerDefinitions env) Definitions"
| "serve unpack pumping env rid (Definition_put expected d) = answered (registerConsumerCommand env expected d) Definitions"
| "serve unpack pumping env rid (Definition_delete expected name) = answered (deleteConsumerCommand env expected name) Definitions"
| "serve unpack pumping env rid Definition_reload = answered (reloadConsumerCommands env) Definitions"
| "serve unpack pumping env rid Close = answered (closeRoom env rid) A_room"
| "serve unpack pumping env rid (Delete confirm) = answered (deleteRoom env rid confirm) (\<lambda>_. Nothing)"

definition notifyRoom :: "env \<Rightarrow> string \<Rightarrow> unit svc" where
  "notifyRoom env rid =
     bnd (gets v_hosted) (\<lambda>h.
       if \<not> h then ret ()
       else andthen (bnd (load env) (reconcileUnlocked env)) (pump env rid))"

subsection \<open>They keep the room invariant\<close>

lemma keeps_archived [keeps_intro]: "keeps (room_inv env rid r0) (archived f)"
  unfolding archived_def by (intro keeps_intro)

lemma keeps_load_any [keeps_intro]: "keeps (room_inv env rid r0) (answered (load env) f)"
  unfolding answered_def by (intro keeps_intro)

lemma keeps_reads [keeps_intro]:
  "keeps (room_inv env rid r0) (participantHistory env rid cid after limit)"
  "keeps (room_inv env rid r0) (history env view after limit)"
  "keeps (room_inv env rid r0) (resourceRoom env historyAfter)"
proof -
  show "keeps (room_inv env rid r0) (participantHistory env rid cid after limit)"
    unfolding participantHistory_def by (intro keeps_intro)
  show "keeps (room_inv env rid r0) (history env view after limit)"
    unfolding history_def by (cases view; simp only: history_view.case; intro keeps_intro)
  show "keeps (room_inv env rid r0) (resourceRoom env historyAfter)"
    unfolding resourceRoom_def by (intro keeps_intro)
qed

lemma keeps_resumePending:
  "nfc_laws (e_nfc env) \<Longrightarrow> keeps (room_inv env rid r0) (resumePending pumping env rid)"
  unfolding resumePending_def by (intro keeps_if keeps_ret keeps_pump)

lemma keeps_served:
  assumes nfc: "nfc_laws (e_nfc env)"
  shows "keeps (room_inv env rid r0) m \<Longrightarrow> keeps (room_inv env rid r0) (delivered pumping env rid m answer)"
    and "keeps (room_inv env rid r0) k \<Longrightarrow> keeps (room_inv env rid r0) (delivered_if pumping env rid k)"
    and "keeps (room_inv env rid r0) n \<Longrightarrow> keeps (room_inv env rid r0) (answered n answer')"
  unfolding delivered_def delivered_if_def answered_def
  by (intro keeps_bnd keeps_case_prod keeps_andthen keeps_if keeps_ret keeps_resumePending [OF nfc]; assumption)+

lemma keeps_consumerDefinitions: "keeps (room_inv env rid r0) (consumerDefinitions env)"
  unfolding consumerDefinitions_def by (intro keeps_intro)

lemma keeps_serve:
  assumes nfc: "nfc_laws (e_nfc env)"
  shows "keeps (room_inv env rid r0) (serve unpack pumping env rid q)"
  by (cases q; simp only: serve.simps; intro keeps_served [OF nfc] keeps_updateRoom [OF nfc] keeps_setRoleBriefing [OF nfc]
    keeps_deleteRoleBriefing [OF nfc] keeps_createInvite [OF nfc] keeps_acceptExternalInvite [OF nfc]
    keeps_removeParticipant [OF nfc] keeps_revokeInvite [OF nfc] keeps_recoverInvites [OF nfc]
    keeps_confirmRecoveredInvite [OF nfc] keeps_recovery [OF nfc] keeps_load_any keeps_grants [OF nfc] keeps_reads
    keeps_post keeps_rest_roles [OF nfc] keeps_consumer_operations [OF nfc] keeps_consumerDefinitions inv_invite_base keeps_closeRoom [OF nfc]
    keeps_deleteRoom [OF nfc] inv_load keeps_bnd keeps_andthen keeps_catch keeps_ret keeps_resumePending [OF nfc])

lemma keeps_notifyRoom:
  assumes nfc: "nfc_laws (e_nfc env)"
  shows "keeps (room_inv env rid r0) (notifyRoom env rid)"
  unfolding notifyRoom_def
  by (intro keeps_bnd keeps_gets keeps_if keeps_ret keeps_andthen keeps_load_then reconcile_inv(1) [OF nfc] keeps_pump [OF nfc])

subsection \<open>What a participant reads is decided on the whole archive\<close>

lemma load_okI: "world_ok env rid w \<Longrightarrow> v_room w = Some r \<Longrightarrow> load env w = (Inr r, w)"
  using world_okD [of env rid w r] by (simp add: load_def)

lemma archived_all:
  assumes w: "world_ok env rid w"
  shows "read_pages JOURNAL_WORK_BATCH_SIZE (invalid_page rid) (v_archive w) 0 [] = Inr (a_rows (v_archive w))"
proof -
  have ok: "archive_ok (e_sha env) rid (v_archive w)" using w by (simp add: world_ok_def)
  have "read_pages JOURNAL_WORK_BATCH_SIZE (invalid_page rid) (v_archive w) 0 []
      = Inr ([] @ filter (\<lambda>x. 0 < w_seq x) (a_rows (v_archive w)))"
    by (rule read_pages_complete [OF ok])
      (use archive_rooms [OF ok] archive_log.page_progress [OF ok] in
        \<open>auto simp: JOURNAL_WORK_BATCH_SIZE_def invalid_page_def list_ex_iff not_le read_rows_subset [THEN subsetD]\<close>)
  then show ?thesis using all_after_zero [OF ok] by simp
qed

text \<open>C17: reading participant history under the mutex gives the projection of the whole archive, for an
  active participant of an active room; anybody else, and any other room state, is refused; the
  state is unchanged.\<close>

theorem participant_history_complete:
  assumes "world_ok env rid w" and "v_room w = Some room" and "opt_ok nonneg_safe after" and "opt_ok positive_safe limit"
  shows "participantHistory env rid cid after limit w =
    (if r_state room = Room_active \<and> is_active_cid room cid
     then projectParticipantHistory room (a_rows (v_archive w)) cid after limit
     else Inl (Thread_failure Unauthorized), w)"
  using assms archived_all [OF assms(1)]
  by (simp add: participantHistory_def archived_def eff_simps load_okI)

end
