(* ===== verification/Routes.thy ===== *)
theory Routes
  imports Service
begin

section \<open>Routes and room commands\<close>

text \<open>
  \<open>src/command-routes.ts\<close> (the parameters of the room methods and the error classes) and the
  dispatch of a shared room command (\<open>sharedCommandUnlocked\<close> in \<open>src/service.ts\<close>): a method name
  and a JSON object become a request of \<open>Service\<close>, a command a participant sends through the SDK
  is answered only for an active participant that holds a grant for it. The room a command works
  on is the room it was sent to; its arguments may not name one.
\<close>

subsection \<open>Parameters\<close>

text \<open>The fields of an object, read the way a strict object schema does.\<close>

definition only_fields :: "string list \<Rightarrow> (string \<times> json) list \<Rightarrow> bool" where
  "only_fields names obj \<longleftrightarrow> list_all (\<lambda>(k, _). List.member names k) obj"

definition str_field :: "string \<Rightarrow> (string \<times> json) list \<Rightarrow> err + string" where
  "str_field k obj = (case map_of obj k of Some (J_str s) \<Rightarrow> Inr s | _ \<Rightarrow> Inl Zod_error)"

definition opt_str_field :: "string \<Rightarrow> (string \<times> json) list \<Rightarrow> err + string option" where
  "opt_str_field k obj =
     (case map_of obj k of None \<Rightarrow> Inr None | Some (J_str s) \<Rightarrow> Inr (Some s) | _ \<Rightarrow> Inl Zod_error)"

definition opt_bool_field :: "string \<Rightarrow> (string \<times> json) list \<Rightarrow> err + bool option" where
  "opt_bool_field k obj =
     (case map_of obj k of None \<Rightarrow> Inr None | Some (J_bool b) \<Rightarrow> Inr (Some b) | _ \<Rightarrow> Inl Zod_error)"

definition int_field :: "string \<Rightarrow> (string \<times> json) list \<Rightarrow> err + int" where
  "int_field k obj = (case map_of obj k of Some (J_num n) \<Rightarrow> Inr n | _ \<Rightarrow> Inl Zod_error)"

definition opt_int_field :: "string \<Rightarrow> (string \<times> json) list \<Rightarrow> err + int option" where
  "opt_int_field k obj =
     (case map_of obj k of None \<Rightarrow> Inr None | Some (J_num n) \<Rightarrow> Inr (Some n) | _ \<Rightarrow> Inl Zod_error)"

fun string_items :: "json list \<Rightarrow> err + string list" where
  "string_items [] = Inr []"
| "string_items (J_str s # xs) = (case string_items xs of Inl e \<Rightarrow> Inl e | Inr ss \<Rightarrow> Inr (s # ss))"
| "string_items (_ # xs) = Inl Zod_error"

definition strings_field :: "string \<Rightarrow> (string \<times> json) list \<Rightarrow> err + string list" where
  "strings_field k obj = (case map_of obj k of Some (J_arr xs) \<Rightarrow> string_items xs | _ \<Rightarrow> Inl Zod_error)"

fun invite_mode_of :: "string \<Rightarrow> err + invite_mode" where
  "invite_mode_of s =
     (if s = ''one_time'' then Inr One_time else if s = ''public'' then Inr Public else Inl Zod_error)"

fun view_of :: "string option \<Rightarrow> err + history_view" where
  "view_of None = Inr Operator"
| "view_of (Some s) =
     (if s = ''operator'' then Inr Operator else if s = ''operator-metadata'' then Inr Operator_metadata
      else if s = ''participant'' then Inr Participant_view else Inl Zod_error)"

definition after_sum :: "err + 'a \<Rightarrow> ('a \<Rightarrow> err + 'b) \<Rightarrow> err + 'b" where
  "after_sum x f = (case x of Inl e \<Rightarrow> Inl e | Inr y \<Rightarrow> f y)"

definition exactly :: "string list \<Rightarrow> (string \<times> json) list \<Rightarrow> err + request \<Rightarrow> err + request" where
  "exactly names obj parsed = (if only_fields names obj then parsed else Inl Zod_error)"

definition settings_params :: "(string \<times> json) list \<Rightarrow> err + request" where
  "settings_params p =
     exactly [''name'', ''goal'', ''briefing'', ''status'', ''quiet_membership''] p
       (after_sum (opt_str_field ''name'' p) (\<lambda>name. after_sum (opt_str_field ''goal'' p) (\<lambda>goal.
        after_sum (opt_str_field ''briefing'' p) (\<lambda>briefing. after_sum (opt_str_field ''status'' p) (\<lambda>status.
        after_sum (opt_bool_field ''quiet_membership'' p) (\<lambda>quiet.
          Inr (Settings \<lparr>uq_name = name, uq_goal = goal, uq_briefing = briefing, uq_status = status,
            uq_quiet_membership = quiet\<rparr>)))))))"

definition invite_params :: "(string \<times> json) list \<Rightarrow> err + request" where
  "invite_params p =
     exactly [''mode'', ''role'', ''min_accepts''] p
       (after_sum (str_field ''mode'' p) (\<lambda>s. after_sum (invite_mode_of s) (\<lambda>mode.
        after_sum (opt_str_field ''role'' p) (\<lambda>role. after_sum (int_field ''min_accepts'' p) (\<lambda>n.
          Inr (Invite \<lparr>cq_mode = mode, cq_role = role, cq_min_accepts = n\<rparr>))))))"

definition two_strings :: "string \<Rightarrow> string \<Rightarrow> (string \<times> json) list \<Rightarrow> (string \<Rightarrow> string \<Rightarrow> request) \<Rightarrow> err + request" where
  "two_strings a b p f =
     exactly [a, b] p (after_sum (str_field a p) (\<lambda>x. after_sum (str_field b p) (\<lambda>y. Inr (f x y))))"

definition one_string :: "string \<Rightarrow> (string \<times> json) list \<Rightarrow> (string \<Rightarrow> request) \<Rightarrow> err + request" where
  "one_string a p f = exactly [a] p (after_sum (str_field a p) (\<lambda>x. Inr (f x)))"

definition accept_params :: "(string \<times> json) list \<Rightarrow> err + request" where
  "accept_params p =
     exactly [''role'', ''invite'', ''expected_cid''] p
       (after_sum (str_field ''role'' p) (\<lambda>role. after_sum (str_field ''invite'' p) (\<lambda>blob.
        after_sum (opt_str_field ''expected_cid'' p) (\<lambda>cid. Inr (Accept_external role blob cid)))))"

definition remove_params :: "(string \<times> json) list \<Rightarrow> err + request" where
  "remove_params p =
     exactly [''participant'', ''notify''] p
       (after_sum (str_field ''participant'' p) (\<lambda>who. after_sum (opt_bool_field ''notify'' p) (\<lambda>notify.
          if who = [] then Inl Zod_error else Inr (Remove_participant who notify))))"

definition role_set_params :: "(string \<times> json) list \<Rightarrow> err + request" where
  "role_set_params p =
     exactly [''role'', ''commands''] p
       (after_sum (str_field ''role'' p) (\<lambda>role. after_sum (strings_field ''commands'' p) (\<lambda>commands.
          if list_all grant_pattern_ok commands
          then Inr (Role_set \<lparr>rg_role = role, rg_commands = commands\<rparr>) else Inl Zod_error)))"

definition grant_params :: "(grant \<Rightarrow> request) \<Rightarrow> (string \<times> json) list \<Rightarrow> err + request" where
  "grant_params f p =
     exactly [''caller_cid'', ''command''] p
       (after_sum (str_field ''caller_cid'' p) (\<lambda>cid. after_sum (str_field ''command'' p) (\<lambda>command.
          case grant_parse \<lparr>g_caller_cid = cid, g_command = command\<rparr> of None \<Rightarrow> Inl Zod_error
          | Some g \<Rightarrow> Inr (f g))))"

definition history_params :: "(string \<times> json) list \<Rightarrow> err + request" where
  "history_params p =
     exactly [''after'', ''limit'', ''view''] p
       (after_sum (opt_int_field ''after'' p) (\<lambda>after. after_sum (opt_int_field ''limit'' p) (\<lambda>limit.
        after_sum (opt_str_field ''view'' p) (\<lambda>v. after_sum (view_of v) (\<lambda>view. Inr (History view after limit))))))"

definition delete_params :: "(string \<times> json) list \<Rightarrow> err + request" where
  "delete_params p =
     exactly [''confirm''] p (case map_of p ''confirm'' of Some (J_bool True) \<Rightarrow> Inr (Delete True) | _ \<Rightarrow> Inl Zod_error)"

definition no_params :: "request \<Rightarrow> (string \<times> json) list \<Rightarrow> err + request" where
  "no_params q p = exactly [] p (Inr q)"

text \<open>The route of each room method, its parameters without \<open>room_id\<close>. The four methods of the consumer
  registry take definitions whose JSON schema is not modelled; they are requests of \<open>Service\<close> only.\<close>

definition room_routes :: "(string \<times> ((string \<times> json) list \<Rightarrow> err + request)) list" where
  "room_routes =
     [(''room.settings'', settings_params),
      (''room.briefing.role.set'', \<lambda>p. two_strings ''role'' ''text'' p Set_briefing),
      (''room.briefing.role.delete'', \<lambda>p. one_string ''role'' p Delete_briefing),
      (''room.invite'', invite_params),
      (''room.participant.remove'', remove_params),
      (''room.revoke'', \<lambda>p. one_string ''invite_id'' p Revoke),
      (''room.recover'', no_params Recover),
      (''room.recover.confirm'', \<lambda>p. two_strings ''recovery_of'' ''invite_id'' p Recover_confirm),
      (''room.rebind'', no_params Rebind),
      (''room.show'', no_params Show),
      (''room.participants'', no_params Participants),
      (''room.command.grants'', no_params Grants),
      (''room.command.role.grants'', no_params Role_grants),
      (''room.command.role.set'', role_set_params),
      (''room.command.grant'', grant_params Grant),
      (''room.command.revoke'', grant_params Ungrant),
      (''room.history'', history_params),
      (''room.message'', \<lambda>p. one_string ''text'' p Say),
      (''room.say'', \<lambda>p. two_strings ''role'' ''text'' p Say_as),
      (''room.role.rest.add'', \<lambda>p. one_string ''role'' p Rest_add),
      (''room.role.rest.remove'', \<lambda>p. one_string ''role'' p Rest_remove),
      (''room.close'', no_params Close),
      (''room.delete'', delete_params)]"

definition private_routes :: "(string \<times> ((string \<times> json) list \<Rightarrow> err + request)) list" where
  "private_routes = [(''room.accept'', accept_params)]"

definition run_route ::
  "(string \<Rightarrow> string option) \<Rightarrow> bool \<Rightarrow> env \<Rightarrow> string \<Rightarrow> ((string \<times> json) list \<Rightarrow> err + request) \<Rightarrow> (string \<times> json) list \<Rightarrow> response svc" where
  "run_route unpack pumping env rid route p =
     (case route p of Inl e \<Rightarrow> raise e | Inr q \<Rightarrow> serve unpack pumping env rid q)"

subsection \<open>Errors\<close>

fun lower_char :: "char \<Rightarrow> char" where
  "lower_char c = (if is_upper c then char_of (of_char c + 32 :: nat) else c)"

fun contains :: "string \<Rightarrow> string \<Rightarrow> bool" where
  "contains needle [] = (needle = [])"
| "contains needle (c # cs) = (starts_with needle (c # cs) \<or> contains needle cs)"

datatype error_class = Invalid_params | Not_found | Invalid_state | Internal

definition classifyServiceError :: "err \<Rightarrow> error_class" where
  "classifyServiceError e =
     (case e of
        Zod_error \<Rightarrow> Invalid_params
      | Storage_error message \<Rightarrow>
          (let m = map lower_char message in
           if contains ''does not exist'' m \<or> contains ''missing'' m then Not_found else Internal)
      | Service_error message \<Rightarrow> Invalid_state
      | _ \<Rightarrow> Internal)"

fun class_name :: "error_class \<Rightarrow> string" where
  "class_name Invalid_params = ''invalid_params''"
| "class_name Not_found = ''not_found''"
| "class_name Invalid_state = ''invalid_state''"
| "class_name Internal = ''internal''"

subsection \<open>Shared room commands\<close>

datatype shared_reply =
    Refused string
  | Lifecycle_accepted string lifecycle_command
  | Message_accepted string
  | Own_history "history_record list"
  | Shown json
  | Answer response

fun refusal_code :: "shared_error \<Rightarrow> string" where
  "refusal_code Sh_room_unavailable = ''room_unavailable''"
| "refusal_code Sh_unauthorized = ''unauthorized''"
| "refusal_code Sh_invalid_state = ''invalid_state''"
| "refusal_code (Sh_service e) = class_name (classifyServiceError e)"

fun room_state_name :: "room_state \<Rightarrow> string" where
  "room_state_name Provisioning = ''provisioning''"
| "room_state_name Room_active = ''active''"
| "room_state_name Closing = ''closing''"
| "room_state_name Closed = ''closed''"

fun seat_state_name :: "seat_state \<Rightarrow> string" where
  "seat_state_name Seat_pending = ''pending''"
| "seat_state_name Seat_active = ''active''"
| "seat_state_name Seat_removed = ''removed''"

definition shown_room :: "room \<Rightarrow> json" where
  "shown_room room = J_obj
     [(''room_id'', J_str (r_room_id room)), (''room_name'', J_str (r_room_name room)),
      (''state'', J_str (room_state_name (r_state room))),
      (''mission'', J_obj [(''goal'', J_str (mi_goal (r_mission room))), (''briefing'', J_str (mi_briefing (r_mission room))),
         (''briefing_version'', J_num (mi_briefing_version (r_mission room)))]),
      (''anonymous'', J_bool (r_anonymous room)), (''quiet_membership'', J_bool (r_quiet_membership room)),
      (''membership_epoch'', J_num (r_membership_epoch room))]"

definition shown_seats :: "room \<Rightarrow> json" where
  "shown_seats room = J_arr (map (\<lambda>s. J_obj [(''participant_id'', J_str (s_participant_id s)),
     (''role'', J_str (s_role s)), (''state'', J_str (seat_state_name (s_state s)))]) (r_seats room))"

definition own_history_params :: "(string \<times> json) list \<Rightarrow> err + int option \<times> int option" where
  "own_history_params p =
     (if only_fields [''after'', ''limit'', ''view''] p \<and> List.member [None, Some (J_str ''participant'')] (map_of p ''view'')
      then after_sum (opt_int_field ''after'' p) (\<lambda>after. after_sum (opt_int_field ''limit'' p) (\<lambda>limit.
        if opt_ok nonneg_safe after \<and> opt_ok positive_safe limit then Inr (after, limit) else Inl Zod_error))
      else Inl Zod_error)"

definition shared_answer :: "response \<Rightarrow> shared_reply" where
  "shared_answer r =
     (case r of
        Posted w \<Rightarrow> (case message_id_of (w_body w) of Some ident \<Rightarrow> Message_accepted ident | None \<Rightarrow> Answer r)
      | _ \<Rightarrow> Answer r)"

text \<open>A command runs while the pump that dispatched it is active, so what it archives is delivered by
  that pump.\<close>

definition dispatch_shared ::
  "(string \<Rightarrow> string option) \<Rightarrow> env \<Rightarrow> string \<Rightarrow> room \<Rightarrow> string \<Rightarrow> string \<Rightarrow> (string \<times> json) list \<Rightarrow> shared_reply svc" where
  "dispatch_shared unpack env rid room name sender p =
     (if name = ''room.history'' then
        (case own_history_params p of
           Inl e \<Rightarrow> ret (Refused ''invalid_request'')
         | Inr (after, limit) \<Rightarrow> bnd (participantHistory env rid sender after limit) (\<lambda>h. ret (Own_history h)))
      else if name = ''room.show'' then (if p = [] then ret (Shown (shown_room room)) else raise Zod_error)
      else if name = ''room.participants'' then (if p = [] then ret (Shown (shown_seats room)) else raise Zod_error)
      else
        (case map_of (if name = ''room.accept'' then private_routes else room_routes) name of
           None \<Rightarrow> raise (Plain_error ''no route'')
         | Some route \<Rightarrow> bnd (run_route unpack True env rid route p) (\<lambda>r. ret (shared_answer r))))"

definition lifecycle_command_of :: "string \<Rightarrow> lifecycle_command option" where
  "lifecycle_command_of name =
     (if name = ''room.close'' then Some Room_close else if name = ''room.delete'' then Some Room_delete else None)"

definition lifecycle_input_ok :: "lifecycle_command \<Rightarrow> (string \<times> json) list \<Rightarrow> bool" where
  "lifecycle_input_ok command p =
     (case command of Room_close \<Rightarrow> p = [] | Room_delete \<Rightarrow> only_fields [''confirm''] p \<and> map_of p ''confirm'' = Some (J_bool True))"

definition sharedCommandUnlocked ::
  "(string \<Rightarrow> string option) \<Rightarrow> env \<Rightarrow> string \<Rightarrow> string \<Rightarrow> json \<Rightarrow> string \<Rightarrow> string \<Rightarrow> shared_reply svc" where
  "sharedCommandUnlocked unpack env rid name input sender wire_id =
     (case input of
        J_obj p \<Rightarrow>
          if \<not> List.member SHARED_ROOM_COMMANDS name \<or> map_of p ''room_id'' \<noteq> None then ret (Refused ''invalid_request'')
          else
            bnd (load env) (\<lambda>room.
              case shared_gate room sender name of
                Some e \<Rightarrow> ret (Refused (refusal_code e))
              | None \<Rightarrow>
                  (case lifecycle_command_of name of
                     Some command \<Rightarrow>
                       if \<not> lifecycle_input_ok command p then ret (Refused ''invalid_params'')
                       else
                         bnd (accept_request env room command sender wire_id) (\<lambda>r.
                           ret (case r of Inl e \<Rightarrow> Refused (refusal_code e)
                                | Inr _ \<Rightarrow> Lifecycle_accepted wire_id command))
                   | None \<Rightarrow>
                       if lifecycle_pending room then ret (Refused ''room_unavailable'')
                       else
                         absorb (dispatch_shared unpack env rid room name sender p)
                           (\<lambda>e. ret (Refused (class_name (classifyServiceError e))))))
      | _ \<Rightarrow> ret (Refused ''invalid_request''))"

subsection \<open>Commands of consumers\<close>

text \<open>What \<open>invokeConsumerCommand\<close> decides under the room's mutex; the call of the consumer's handler, outside
  it, is the parameter \<open>invoke\<close>.\<close>

definition authorizedConsumer :: "env \<Rightarrow> string \<Rightarrow> string \<Rightarrow> consumer_definition option svc" where
  "authorizedConsumer env name sender =
     bnd (load env) (\<lambda>room. bnd (gets v_published) (\<lambda>published.
       ret (case List.find (\<lambda>d. cd_name d = name) (registry room) of
              None \<Rightarrow> None
            | Some d \<Rightarrow>
                if r_state room \<noteq> Room_active \<or> lifecycle_pending room \<or> published \<noteq> Some (registry_revision room) then None
                else if \<not> is_active_cid room sender \<or> \<not> hasRuntimeCommandGrant room sender name then None
                else Some d)))"

definition invokeConsumerCommand ::
  "env \<Rightarrow> (consumer_definition \<Rightarrow> json \<Rightarrow> 'r svc) \<Rightarrow> string \<Rightarrow> json \<Rightarrow> string \<Rightarrow> (command_error + 'r) svc" where
  "invokeConsumerCommand env invoke name input sender =
     bnd (authorizedConsumer env name sender) (\<lambda>authorized.
       case authorized of None \<Rightarrow> ret (Inl Cmd_unauthorized)
       | Some d \<Rightarrow> bnd (invoke d input) (\<lambda>r. ret (Inr r)))"

subsection \<open>They keep the room invariant\<close>

lemma keeps_run_route:
  "nfc_laws (e_nfc env) \<Longrightarrow> keeps (room_inv env rid r0) (run_route unpack pumping env rid route p)"
  unfolding run_route_def by (intro keeps_case_sum keeps_raise keeps_serve)

lemma keeps_dispatch_shared:
  assumes nfc: "nfc_laws (e_nfc env)"
  shows "keeps (room_inv env rid r0) (dispatch_shared unpack env rid room name sender p)"
  unfolding dispatch_shared_def
  by (intro keeps_if keeps_case_sum keeps_case_prod keeps_case_option keeps_ret keeps_raise keeps_bnd keeps_reads
      keeps_run_route [OF nfc])

lemma keeps_sharedCommand:
  assumes nfc: "nfc_laws (e_nfc env)"
  shows "keeps (room_inv env rid r0) (sharedCommandUnlocked unpack env rid name input sender wire_id)"
proof (cases input)
  case (J_obj p)
  show ?thesis unfolding sharedCommandUnlocked_def J_obj json.case
    by (intro keeps_if keeps_load_then keeps_case_option keeps_ret keeps_bnd keeps_lifecycle(2) [OF nfc] keeps_absorb
        keeps_dispatch_shared [OF nfc])
qed (simp_all add: sharedCommandUnlocked_def keeps_ret)

end
