(* ===== verification/System.thy ===== *)
theory System
  imports Routes
begin

section \<open>The system: every interleaving of the operations on one room\<close>

text \<open>
  A room is used by operators (REST and the private socket), by participants (SDK commands and
  messages) and by the daemon itself (notifications, recovery, the pump). Every section that runs
  under the room mutex is one step of \<open>step\<close>, so a run is any interleaving of such sections, of
  arrivals in the identity's inbox and of restarts that lose the hosted packet. \<open>reachable\<close> adds
  the creation of the room.
\<close>

definition arrived :: "inbox_item \<Rightarrow> world \<Rightarrow> world" where
  "arrived i w = w\<lparr>v_inbox := v_inbox w @ [i]\<rparr>"

definition file_arrived :: "file_inbox_item \<Rightarrow> world \<Rightarrow> world" where
  "file_arrived i w = w\<lparr>v_files := v_files w @ [i]\<rparr>"

definition restarted :: "world \<Rightarrow> world" where
  "restarted w = w\<lparr>v_hosted := False, v_contacts := [], v_core_invites := [], v_published := None\<rparr>"

inductive step :: "env \<Rightarrow> string \<Rightarrow> world \<Rightarrow> world \<Rightarrow> bool" for env rid where
  request: "serve unpack pumping env rid q w = (r, w') \<Longrightarrow> step env rid w w'"
| shared_command: "sharedCommandUnlocked unpack env rid name input sender wire_id w = (r, w') \<Longrightarrow> step env rid w w'"
| start_thread: "startThreadCommandUnlocked env sender thread w = (r, w') \<Longrightarrow> step env rid w w'"
| list_members: "listMembersCommandUnlocked env sender w = (r, w') \<Longrightarrow> step env rid w w'"
| remove_member: "removeMemberCommandUnlocked env sender removal w = (r, w') \<Longrightarrow> step env rid w w'"
| consumer_command: "authorizeConsumerCommand env name sender w = (r, w') \<Longrightarrow> step env rid w w'"
| notification: "reconcileRoom env w = (r, w') \<Longrightarrow> step env rid w w'"
| take_message: "processInboxItem env rid item w = (r, w') \<Longrightarrow> step env rid w w'"
| take_file: "processFileInboxItem env rid file w = (r, w') \<Longrightarrow> step env rid w w'"
| acknowledge: "packet_acknowledgeMessage env rid item w = (r, w') \<Longrightarrow> step env rid w w'"
| complete: "completeSnapshotIntents env rid w = (r, w') \<Longrightarrow> step env rid w w'"
| relay: "relayPendingUnlocked env w = (r, w') \<Longrightarrow> step env rid w w'"
| after_pump: "resumeLifecycleRequest env rid w = (r, w') \<Longrightarrow> step env rid w w'"
| recover_packet: "recoverPacket env rid w = (r, w') \<Longrightarrow> step env rid w w'"
| recover_room: "recoverRoom env rid w = (r, w') \<Longrightarrow> step env rid w w'"
| message_arrives: "step env rid w (arrived item w)"
| file_arrives: "step env rid w (file_arrived file w)"
| restart: "step env rid w (restarted w)"

inductive reachable :: "env \<Rightarrow> string \<Rightarrow> world \<Rightarrow> bool" for env rid where
  start: "v_room w = None \<Longrightarrow> v_archive w = empty_archive \<Longrightarrow> reachable env rid w"
| created: "reachable env rid w \<Longrightarrow> createRoom env rid q w = (r, w') \<Longrightarrow> reachable env rid w'"
| stepped: "reachable env rid w \<Longrightarrow> step env rid w w' \<Longrightarrow> reachable env rid w'"

inductive_cases step_cases: "step env rid w w'"

subsection \<open>Every step keeps the room invariant\<close>

lemma room_inv_environment:
  "room_inv env rid r0 (arrived i w) = room_inv env rid r0 w"
  "room_inv env rid r0 (file_arrived f w) = room_inv env rid r0 w"
  "room_inv env rid r0 (restarted w) = room_inv env rid r0 w"
  by (simp_all add: room_inv_def world_ok_def arrived_def file_arrived_def restarted_def)

lemmas keeps_sections =
  keeps_serve keeps_sharedCommand keeps_removeMemberCommand keeps_consumer_operations(4)
  keeps_recovery keeps_processInboxItem keeps_processFileInboxItem keeps_acknowledgeMessage keeps_lifecycle(1)

lemma inv_after: "room_inv env rid r0 w \<Longrightarrow> m w = (r, w') \<Longrightarrow> keeps (room_inv env rid r0) m \<Longrightarrow> room_inv env rid r0 w'"
  by (blast dest: keepsD)

lemma step_inv:
  assumes nfc: "nfc_laws (e_nfc env)" and "step env rid w w'" and w: "room_inv env rid r0 w"
  shows "room_inv env rid r0 w'"
  using assms(2)
  by cases
    ((erule inv_after [OF w], (rule keeps_sections [OF nfc] keeps_startThread keeps_listMembers keeps_completeSnapshot
        keeps_relayPending))+, simp_all add: room_inv_environment w)

lemma steps_inv:
  assumes nfc: "nfc_laws (e_nfc env)" and "(step env rid)\<^sup>*\<^sup>* w w'" and "room_inv env rid r0 w"
  shows "room_inv env rid r0 w'"
  using assms(2,3) by (induction rule: rtranclp_induct) (auto dest: step_inv [OF nfc])

lemma step_world_ok:
  assumes nfc: "nfc_laws (e_nfc env)" and s: "step env rid w w'" and w: "world_ok env rid w"
  shows "world_ok env rid w'"
proof -
  obtain r0 where "room_inv env rid r0 w" using room_inv_exists [OF w] by blast
  from step_inv [OF nfc s this] show ?thesis by (simp add: room_inv_def)
qed

lemma reachable_world_ok:
  assumes nfc: "nfc_laws (e_nfc env)" and "reachable env rid w"
  shows "world_ok env rid w"
  using assms(2)
proof induction
  case (start w)
  then show ?case by (simp add: world_ok_def empty_archive_ok)
next
  case (created w q r w')
  then show ?case using keepsD [OF keeps_createRoom [OF nfc]] by blast
next
  case (stepped w w')
  then show ?case using step_world_ok [OF nfc] by blast
qed

end
