(* ===== verification/Guards.thy ===== *)
theory Guards
  imports System
begin

section \<open>What the operations refuse\<close>

text \<open>The requests that only read, and the two that take a room to its end.\<close>

fun reads_only :: "request \<Rightarrow> bool" where
  "reads_only Show = True"
| "reads_only Participants = True"
| "reads_only Grants = True"
| "reads_only Role_grants = True"
| "reads_only (History view after limit) = True"
| "reads_only Definition_list = True"
| "reads_only _ = False"

fun ends_room :: "request \<Rightarrow> bool" where
  "ends_room Close = True"
| "ends_room (Delete confirm) = True"
| "ends_room _ = False"

lemma closing_refused:
  assumes w: "world_ok env rid w" "v_room w = Some room" and closing: "r_state room = Closing \<or> r_state room = Closed"
    and q: "\<not> reads_only q" "\<not> ends_room q"
  shows "\<exists>e. serve unpack pumping env rid q w = (Inl e, w)"
proof -
  note l = load_okI [OF w]
  have a: "assertMutable room w = (Inl (Service_error ''closing or closed''), w)"
    using closing by (auto simp: assertMutable_def eff_simps)
  have p: "r_state room \<noteq> Room_active" "r_state room \<noteq> Provisioning" using closing by auto
  show ?thesis
    using closing by (elim disjE; cases q) (use q in \<open>simp_all add: l a p delivered_def delivered_if_def answered_def eff_simps
      updateRoom_def setRoleBriefing_def deleteRoleBriefing_def createInvite_def acceptExternalInvite_def
      removeParticipant_def revokeInvite_def recoverInvites_def hosted_def reconcileUnlocked_def confirmRecoveredInvite_def
      rebindIdentity_def setRuntimeRoleCommands_def grantRuntimeCommand_def revokeRuntimeCommand_def postMessage_def
      postAsRole_def appendChatUnlocked_def assertPostable_def addRestRole_def removeRestRole_def registerConsumerCommand_def
      deleteConsumerCommand_def reloadConsumerCommands_def split: option.splits\<close>)
qed

lemma reading_leaves:
  assumes w: "world_ok env rid w" "v_room w = Some room" and q: "reads_only q"
  shows "snd (serve unpack pumping env rid q w) = w"
  using q
  by (cases q) (simp_all add: load_okI [OF w] answered_def consumerDefinitions_def history_def archived_def query_def eff_simps w(2)
      split: history_view.split sum.split option.split)

text \<open>C13: in a closing or closed room a request that only reads leaves everything as it is, and every other one
  but closing and deleting is refused with an error and without any effect. Whatever the request, closing and
  deleting included, the room is afterwards still closing or closed, unless it is no longer stored.\<close>

theorem closing_room_refuses:
  assumes nfc: "nfc_laws (e_nfc env)"
    and w: "world_ok env rid w" "v_room w = Some room" and closing: "r_state room = Closing \<or> r_state room = Closed"
  shows "(reads_only q \<longrightarrow> snd (serve unpack pumping env rid q w) = w)
    \<and> (\<not> reads_only q \<and> \<not> ends_room q \<longrightarrow> (\<exists>e. serve unpack pumping env rid q w = (Inl e, w)))
    \<and> (\<forall>room'. v_room (snd (serve unpack pumping env rid q w)) = Some room' \<longrightarrow>
        r_state room' = Closing \<or> r_state room' = Closed)"
proof (intro conjI impI allI)
  show "snd (serve unpack pumping env rid q w) = w" if "reads_only q" by (rule reading_leaves [OF w that])
  show "\<exists>e. serve unpack pumping env rid q w = (Inl e, w)" if "\<not> reads_only q \<and> \<not> ends_room q"
    by (rule closing_refused [OF w closing]) (use that in simp_all)
  fix room' assume room': "v_room (snd (serve unpack pumping env rid q w)) = Some room'"
  have "room_inv env rid (room, a_rows (v_archive w)) (snd (serve unpack pumping env rid q w))"
    by (rule keepsD [OF keeps_serve [OF nfc] room_inv_start [OF w] prod.collapse [symmetric]])
  then have "r_state room \<le> r_state room'" using room' by (simp add: room_inv_def evolves_def)
  then show "r_state room' = Closing \<or> r_state room' = Closed"
    using closing by (cases "r_state room'") (auto simp: less_eq_room_state_def)
qed

text \<open>What every command of a participant needs.\<close>

definition granted :: "room \<Rightarrow> string \<Rightarrow> string \<Rightarrow> bool" where
  "granted room sender name \<longleftrightarrow>
     r_state room = Room_active \<and> is_active_cid room sender \<and> hasRuntimeCommandGrant room sender name"

lemma shared_refused:
  assumes w: "world_ok env rid w" "v_room w = Some room"
    and gate: "\<not> granted room sender name \<or> (\<exists>p. input = J_obj p \<and> map_of p ''room_id'' \<noteq> None)"
  shows "\<exists>code. sharedCommandUnlocked unpack env rid name input sender wire_id w = (Inr (Refused code), w)"
proof (cases input)
  case (J_obj p)
  show ?thesis
  proof (cases "\<not> List.member SHARED_ROOM_COMMANDS name \<or> map_of p ''room_id'' \<noteq> None")
    case True
    then show ?thesis by (simp only: sharedCommandUnlocked_def J_obj json.case if_True ret_def) blast
  next
    case False
    then have "shared_gate room sender name \<noteq> None" using gate J_obj by (auto simp: shared_gate_def granted_def)
    then obtain e where "shared_gate room sender name = Some e" by blast
    then show ?thesis using False
      by (auto simp only: sharedCommandUnlocked_def J_obj json.case if_False bnd_def load_okI [OF w] prod.case sum.case option.case ret_def)
  qed
qed (simp_all add: sharedCommandUnlocked_def eff_simps)

lemma gate_refuses: "\<not> granted room sender name \<or> lifecycle_pending room \<Longrightarrow> \<exists>e. command_gate room sender name = Some e"
  by (auto simp: command_gate_def granted_def)

text \<open>C9: every command of a participant is carried out only in an active room, for an active participant that holds
  a grant covering it, explicitly or through its role; any other is refused without an effect. This holds for the
  shared commands (also refused when their arguments name a room), for \<open>start_thread\<close>, \<open>list-members\<close> and
  \<open>remove-member\<close> (also refused while a lifecycle request is pending), and for the commands of consumers, whose
  handler is then not called (also refused while a lifecycle request is pending, the command is not registered or its
  registration is not the published one).\<close>

theorem unauthorized_command_refused:
  assumes w: "world_ok env rid w" "v_room w = Some room"
  shows "(\<not> granted room sender name \<or> (\<exists>p. input = J_obj p \<and> map_of p ''room_id'' \<noteq> None) \<longrightarrow>
        (\<exists>code. sharedCommandUnlocked unpack env rid name input sender wire_id w = (Inr (Refused code), w)))
    \<and> (\<not> granted room sender ''start_thread'' \<or> lifecycle_pending room \<longrightarrow>
        (\<exists>e. startThreadCommandUnlocked env sender thread w = (Inr (Inl e), w)))
    \<and> (\<not> granted room sender ''list-members'' \<or> lifecycle_pending room \<longrightarrow>
        (\<exists>e. listMembersCommandUnlocked env sender w = (Inr (Inl e), w)))
    \<and> (\<not> granted room sender ''remove-member'' \<or> lifecycle_pending room \<longrightarrow>
        (\<exists>e. removeMemberCommandUnlocked env sender removal w = (Inr (Inl e), w)))
    \<and> (\<not> granted room sender name \<or> lifecycle_pending room \<or> (\<forall>d\<in>set (registry room). cd_name d \<noteq> name)
          \<or> v_published w \<noteq> Some (registry_revision room) \<longrightarrow>
        invokeConsumerCommand env invoke name input sender w = (Inr (Inl Cmd_unauthorized), w))"
proof (intro conjI impI)
  note l = load_okI [OF w]
  show "\<exists>code. sharedCommandUnlocked unpack env rid name input sender wire_id w = (Inr (Refused code), w)"
    if "\<not> granted room sender name \<or> (\<exists>p. input = J_obj p \<and> map_of p ''room_id'' \<noteq> None)"
    using shared_refused [OF w that] .
  show "\<exists>e. startThreadCommandUnlocked env sender thread w = (Inr (Inl e), w)"
    if "\<not> granted room sender ''start_thread'' \<or> lifecycle_pending room"
    using gate_refuses [OF that] by (auto simp: startThreadCommandUnlocked_def bnd_def l ret_def)
  show "\<exists>e. listMembersCommandUnlocked env sender w = (Inr (Inl e), w)"
    if "\<not> granted room sender ''list-members'' \<or> lifecycle_pending room"
    using gate_refuses [OF that] by (auto simp: listMembersCommandUnlocked_def bnd_def l ret_def)
  show "\<exists>e. removeMemberCommandUnlocked env sender removal w = (Inr (Inl e), w)"
    if "\<not> granted room sender ''remove-member'' \<or> lifecycle_pending room"
    using gate_refuses [OF that] by (auto simp: removeMemberCommandUnlocked_def bnd_def l ret_def)
  show "invokeConsumerCommand env invoke name input sender w = (Inr (Inl Cmd_unauthorized), w)"
    if "\<not> granted room sender name \<or> lifecycle_pending room \<or> (\<forall>d\<in>set (registry room). cd_name d \<noteq> name)
      \<or> v_published w \<noteq> Some (registry_revision room)"
    using that by (auto simp: invokeConsumerCommand_def authorizedConsumer_def granted_def bnd_def l gets_def ret_def
      split: option.split dest!: find_SomeD)
qed

section \<open>Removal\<close>

text \<open>The room metadata an effect leaves alone.\<close>

lemma same_room_notice:
  "moves (\<lambda>w w'. v_room w' = v_room w) (append_fanout env rid m)"
  "moves (\<lambda>w w'. v_room w' = v_room w) (ensureMembershipNotice env room seat epoch)"
  unfolding ensureMembershipNotice_def Let_def append_fanout_def append_at_def
  by (intro same_room_rules same_room_packet)+

lemma post_save:
  "post P (save env r) (\<lambda>p w. v_room w = Some p
     \<and> (\<exists>q. RoomSchema_parse (e_nfc env) r = Inr q \<and> RoomSchema_parse (e_nfc env) q = Inr p))"
  by (auto simp: post_def save_def store_save_def bnd_def lift_sum_def split: sum.splits if_splits)

lemma post_same_room: "moves (\<lambda>w w'. v_room w' = v_room w) m \<Longrightarrow> (\<And>w w'. v_room w' = v_room w \<Longrightarrow> P w \<Longrightarrow> Q w')
    \<Longrightarrow> post P m (\<lambda>_. Q)"
  by (rule postI) (blast dest: movesD)

definition left_room :: "room \<Rightarrow> seat \<Rightarrow> room \<Rightarrow> bool" where
  "left_room room seat room' \<longleftrightarrow>
     r_membership_epoch room' = r_membership_epoch room + 1
     \<and> \<not> is_active_cid room' (s_identity seat)
     \<and> (\<forall>c. \<not> hasRuntimeCommandGrant room' (s_identity seat) c)
     \<and> (\<exists>s\<in>set (r_seats room'). s_participant_id s = s_participant_id seat \<and> s_state s = Seat_removed
          \<and> s_removed_epoch s = Some (r_membership_epoch room'))"

lemma no_grant_without_seat:
  assumes "room_checks nfc room" and "\<not> is_active_cid room cid"
  shows "\<not> hasRuntimeCommandGrant room cid c"
  using assms
  by (auto simp: hasRuntimeCommandGrant_def room_checks_def room_grants_ok_def list_all_iff list_ex_iff is_active_cid_def
      split: option.splits dest!: find_SomeD)

lemma removed_left:
  assumes room: "room_seats_ok room" and s: "seat \<in> set (r_seats room)" "live_seat seat"
    and p: "RoomSchema_parse nfc (room\<lparr>r_seats := map (\<lambda>c. if s_participant_id c = s_participant_id seat
        then remove_seat at e c else c) (r_seats room), r_command_grants := gs, r_membership_epoch := e\<rparr>) = Inr q"
      "RoomSchema_parse nfc q = Inr room'" and e: "e = r_membership_epoch room + 1"
  shows "left_room room seat room'"
proof -
  let ?f = "\<lambda>c. if s_participant_id c = s_participant_id seat then remove_seat at e c else c"
  have seats: "r_seats room' = map ?f (r_seats room)" and epoch: "r_membership_epoch room' = e"
    using RoomSchema_parse_seats [OF p(1)] RoomSchema_parse_seats [OF p(2)]
      RoomSchema_parse_epoch [OF p(1)] RoomSchema_parse_epoch [OF p(2)] by simp_all
  have u: "distinct (map s_identity (filter live_seat (r_seats room)))" using room by (simp add: room_seats_ok_def)
  have gone: "\<not> is_active_cid room' (s_identity seat)"
  proof
    assume "is_active_cid room' (s_identity seat)"
    then obtain c where c: "c \<in> set (r_seats room)" "s_state (?f c) = Seat_active" "s_identity (?f c) = s_identity seat"
      by (auto simp: is_active_cid_def list_ex_iff seats)
    then have other: "s_participant_id c \<noteq> s_participant_id seat" by (auto simp: remove_seat_def split: if_splits)
    then have "c \<in> set (filter live_seat (r_seats room))" "seat \<in> set (filter live_seat (r_seats room))"
      "s_identity c = s_identity seat" using c s by (auto simp: live_seat_def)
    then have "c = seat" using u by (simp add: distinct_map inj_on_def)
    then show False using other by simp
  qed
  moreover have "\<not> hasRuntimeCommandGrant room' (s_identity seat) c" for c
    using no_grant_without_seat gone RoomSchema_parseD [OF p(2)] by blast
  moreover have "?f seat \<in> set (r_seats room')" using s(1) seats by auto
  ultimately show ?thesis
    unfolding left_room_def by (auto simp: epoch e remove_seat_def intro!: bexI [of _ "?f seat"])
qed

lemma post_remove_active:
  assumes room: "room_seats_ok room" and s: "seat \<in> set (r_seats room)" "live_seat seat"
  shows "post P (remove_active env room seat notify)
    (\<lambda>rc w. \<exists>room'. v_room w = Some room' \<and> left_room room seat room' \<and> rc_epoch rc = r_membership_epoch room')"
proof -
  let ?Q = "\<lambda>w. \<exists>room'. v_room w = Some room' \<and> left_room room seat room'"
  have tail: "post ?Q (if notify then absorb (ensureMembershipNotice env current seat e) (\<lambda>_. ret ()) else ret ()) (\<lambda>_. ?Q)"
    for current e
    unfolding absorb_def by (rule post_same_room, intro same_room_rules same_room_notice) simp
  have saved: "post P' (save env ((drop_grants (s_identity seat)
      (room\<lparr>r_seats := map (\<lambda>c. if s_participant_id c = s_participant_id seat
        then remove_seat at (r_membership_epoch room + 1) c else c) (r_seats room)\<rparr>))
          \<lparr>r_membership_epoch := r_membership_epoch room + 1\<rparr>)) (\<lambda>_. ?Q)" for P' at
    by (rule post_weaken [OF post_save]) (auto simp: drop_grants_def intro!: removed_left [OF room s])
  show ?thesis
    unfolding remove_active_def Let_def
    by (rule post_andthen [where R = "\<lambda>_ _. True"], simp add: post_def,
        rule post_bnd [where R = "\<lambda>_ _. True"], simp add: post_def, rule post_case_prod,
        rule post_bnd [where R = "\<lambda>_ _. True"], simp add: post_def,
        rule post_bnd [OF saved], rule post_andthen [OF tail], rule post_ret) (auto simp: left_room_def)
qed

text \<open>C8: removing an active participant takes its seat away for good: the seat is removed in a new
  membership epoch, its identity is active no more, and no command grant covers it any more, neither
  one of its own nor one of its role.\<close>

theorem removal_revokes:
  assumes w: "world_ok env rid w" "v_room w = Some room"
    and seat: "findSeatForRemoval room who = Inr seat" "s_state seat = Seat_active"
    and r: "removeParticipant env who notify w = (Inr rc, w')"
  shows "\<exists>room'. v_room w' = Some room' \<and> left_room room seat room' \<and> rc_epoch rc = r_membership_epoch room'"
proof -
  have s: "seat \<in> set (r_seats room)"
    using seat(1) by (auto simp: findSeatForRemoval_def Let_def split: option.splits dest: find_SomeD)
  have room: "room_seats_ok room" using world_okD [OF w] by (simp add: room_checks_def)
  have "beginRemovalUnlocked env room seat ((case notify of None \<Rightarrow> True | Some b \<Rightarrow> b) \<and> \<not> r_quiet_membership room) w
      = (Inr rc, w')"
    using r seat(1) by (auto simp: removeParticipant_def eff_simps load_okI [OF w] assertMutable_def split: if_splits)
  then have "remove_active env room seat ((case notify of None \<Rightarrow> True | Some b \<Rightarrow> b) \<and> \<not> r_quiet_membership room) w
      = (Inr rc, w')"
    using seat(2) by (simp add: beginRemovalUnlocked_def isCancelledExternalSeat_def)
  from postD [OF post_remove_active [OF room s, where P = "\<lambda>_. True"] _ this] seat(2)
  show ?thesis by (simp add: live_seat_def)
qed

end
