(* ===== verification/Admission.thy ===== *)
theory Admission
  imports Guards
begin

section \<open>Admission\<close>

text \<open>
  What reconciliation with the contacts of the identity may add to a room
  (\<open>reconcileUnlocked\<close> in \<open>src/service.ts\<close>): who gets a seat, and under which alias.
\<close>

subsection \<open>A seat needs an invite\<close>

definition admitted_by :: "room \<Rightarrow> contact \<Rightarrow> seat \<Rightarrow> bool" where
  "admitted_by room k s \<longleftrightarrow>
     s_identity s = k_container_id k \<and> s_state s = Seat_active
     \<and> \<not> list_ex (\<lambda>t. live_seat t \<and> s_identity t = s_identity s) (r_seats room)
     \<and> (\<exists>i\<in>set (r_invites room). admission_open i \<and> s_invite_id s = i_invite_id i \<and> s_role s = i_role i
          \<and> (\<forall>x. k_via_invite_id k = Some x \<longrightarrow> x = i_invite_id i)
          \<and> (\<forall>t\<in>set (r_seats room). s_state t = Seat_removed \<longrightarrow> s_identity t = s_identity s \<longrightarrow>
               opt_ok (\<lambda>at. at < i_created_at i) (s_removed_at t)))"

lemma last_removed_at_upper:
  "s \<in> set ss \<Longrightarrow> s_state s = Seat_removed \<Longrightarrow> s_identity s = cid \<Longrightarrow> s_removed_at s = Some at \<Longrightarrow>
    \<exists>l. last_removed_at ss cid = Some l \<and> at \<le> l"
proof (induction ss)
  case (Cons t ss)
  show ?case
  proof (cases "s = t")
    case True
    then show ?thesis using Cons.prems by (cases "last_removed_at ss cid") auto
  next
    case False
    then obtain l where "last_removed_at ss cid = Some l" "at \<le> l" using Cons by auto
    then show ?thesis by (cases "s_removed_at t") (auto simp: max_def split: if_splits)
  qed
qed simp

lemma invite_by_id_SomeD: "invite_by_id invs x = Some i \<Longrightarrow> i \<in> set invs \<and> i_invite_id i = x"
  by (auto simp: invite_by_id_def dest: find_SomeD)

lemma admitting_inviteD:
  assumes "admitting_invite provenance room k = Some i"
  shows "i \<in> set (r_invites room) \<and> admission_open i
    \<and> (\<forall>x. k_via_invite_id k = Some x \<longrightarrow> x = i_invite_id i)
    \<and> (\<forall>t\<in>set (r_seats room). s_state t = Seat_removed \<longrightarrow> s_identity t = k_container_id k \<longrightarrow>
         opt_ok (\<lambda>at. at < i_created_at i) (s_removed_at t))"
proof -
  let ?i = "case k_via_invite_id k of None \<Rightarrow> legacyAdmissionInvite provenance (r_invites room)
            | Some ident \<Rightarrow> invite_by_id (r_invites room) ident"
  have i: "?i = Some i" "admission_open i"
    and r: "\<forall>at. last_removed_at (r_seats room) (k_container_id k) = Some at \<longrightarrow> at < i_created_at i"
    using assms by (auto simp: admitting_invite_def split: option.splits if_splits)
  have "i \<in> set (r_invites room) \<and> (\<forall>x. k_via_invite_id k = Some x \<longrightarrow> x = i_invite_id i)"
  proof (cases "k_via_invite_id k")
    case None
    then have "filter admission_open (r_invites room) = [i]"
      using i by (auto simp: legacyAdmissionInvite_def split: if_splits list.splits)
    then have "i \<in> set (filter admission_open (r_invites room))" by simp
    then show ?thesis using None by simp
  next
    case (Some x)
    then show ?thesis using i invite_by_id_SomeD by auto
  qed
  moreover have "opt_ok (\<lambda>at. at < i_created_at i) (s_removed_at t)"
    if "t \<in> set (r_seats room)" "s_state t = Seat_removed" "s_identity t = k_container_id k" for t
    using last_removed_at_upper [OF that] r by (cases "s_removed_at t") (auto dest: order_le_less_trans)
  ultimately show ?thesis using i(2) by blast
qed

lemma admit_contacts_sound:
  assumes "admit_contacts env provenance room seated ks added w = (Inr res, w')" and "s \<in> set res"
  shows "s \<in> set added \<or> (\<exists>k\<in>set ks. admitted_by room k s)"
  using assms
proof (induction ks arbitrary: added w)
  case Nil
  then show ?case by (simp add: eff_simps)
next
  case (Cons k ks)
  show ?case
  proof (cases "list_ex (\<lambda>s. live_seat s \<and> s_identity s = k_container_id k) (r_seats room)
       \<or> list_ex (\<lambda>s. s_identity s = k_container_id k) added \<or> admitting_invite provenance room k = None")
    case True
    then have "admit_contacts env provenance room seated ks added w = (Inr res, w')"
      using Cons.prems(1) by (auto split: option.splits if_splits)
    from Cons.IH [OF this Cons.prems(2)] show ?thesis by auto
  next
    case False
    then obtain i where i: "admitting_invite provenance room k = Some i" by blast
    obtain at pid w1 al where run: "admit_contacts env provenance room seated ks
        (added @ [new_seat k i at pid al]) w1 = (Inr res, w')"
      using Cons.prems(1) False i by (auto simp: bnd_def split: prod.splits sum.splits)
    have n: "admitted_by room k (new_seat k i at pid al)"
      using False admitting_inviteD [OF i] by (auto simp: admitted_by_def new_seat_def)
    from Cons.IH [OF run Cons.prems(2)] show ?thesis using n by auto
  qed
qed

text \<open>C10: reconciliation seats a contact only through a live invite of the room: the very invite the
  contact came in by when the SDK says which, one created after every removal of that identity, and
  only when the identity holds no seat; the seat has the invite's role.\<close>

theorem admission_needs_invite:
  assumes "admit_contacts env provenance room seated ks [] w = (Inr added, w')" and "s \<in> set added"
  shows "\<exists>k\<in>set ks. admitted_by room k s"
  using admit_contacts_sound [OF assms(1)] assms(2) by auto

subsection \<open>Aliases\<close>

definition aliases_minted :: "seat list \<Rightarrow> bool" where
  "aliases_minted ss \<longleftrightarrow> (\<forall>n<length ss. s_alias (ss ! n) = Some (mintAlias (take n ss) (s_role (ss ! n))))"

lemma split_at_last:
  assumes "xs @ c # ys = xs' @ c # ys'" and "c \<notin> set ys" and "c \<notin> set ys'"
  shows "xs = xs' \<and> ys = ys'"
proof -
  have "rev ys @ c # rev xs = rev ys' @ c # rev xs'" using arg_cong [OF assms(1), of rev] by simp
  moreover have "takeWhile (\<lambda>x. x \<noteq> c) (rev zs @ c # us) = rev zs" if "c \<notin> set zs" for zs us
    using that by (subst takeWhile_append2) auto
  ultimately have "rev ys = rev ys'" using assms(2,3) by metis
  then show ?thesis using assms(1) by simp
qed

lemma hash_no_digit: "CHR ''#'' \<notin> set (show_nat n)"
  using show_nat_digits [of n] by (auto simp: list_all_iff is_digit_def in_range_def byte_def)

lemma mintAlias_inject:
  assumes "mintAlias ss role = mintAlias ss' role'"
  shows "role = role' \<and> length (filter (\<lambda>s. s_role s = role) ss) = length (filter (\<lambda>s. s_role s = role') ss')"
proof -
  have "(role @ '' '') @ CHR ''#'' # show_nat (length (filter (\<lambda>s. s_role s = role) ss) + 1)
      = (role' @ '' '') @ CHR ''#'' # show_nat (length (filter (\<lambda>s. s_role s = role') ss') + 1)"
    using assms by (simp add: mintAlias_def)
  from split_at_last [OF this hash_no_digit hash_no_digit] show ?thesis by auto
qed

lemma minted_distinct:
  assumes "aliases_minted ss"
  shows "distinct (map s_alias ss)"
proof -
  have "s_alias (ss ! m) \<noteq> s_alias (ss ! n)" if mn: "m < n" "n < length ss" for m n
  proof
    assume eq: "s_alias (ss ! m) = s_alias (ss ! n)"
    let ?count = "\<lambda>k. length (filter (\<lambda>s. s_role s = s_role (ss ! n)) (take k ss))"
    have "mintAlias (take m ss) (s_role (ss ! m)) = mintAlias (take n ss) (s_role (ss ! n))"
      using assms eq mn by (simp add: aliases_minted_def)
    from mintAlias_inject [OF this] have r: "s_role (ss ! m) = s_role (ss ! n)" "?count m = ?count n" by auto
    have "?count (Suc m) = Suc (?count m)" using r(1) mn by (simp add: take_Suc_conv_app_nth)
    moreover have "?count (Suc m) \<le> ?count n"
    proof -
      have "take n ss = take (Suc m) ss @ take (n - Suc m) (drop (Suc m) ss)"
        using mn(1) by (metis Suc_leI le_add_diff_inverse take_add)
      then show ?thesis by simp
    qed
    ultimately show False using r(2) by simp
  qed
  then have "map s_alias ss ! m \<noteq> map s_alias ss ! n" if "m < n" "n < length ss" for m n using that by simp
  then show ?thesis unfolding distinct_conv_nth by (metis length_map linorder_neqE_nat)
qed

lemma aliases_minted_snoc:
  "aliases_minted ss \<Longrightarrow> s_alias s = Some (mintAlias ss (s_role s)) \<Longrightarrow> aliases_minted (ss @ [s])"
  by (auto simp: aliases_minted_def nth_append less_Suc_eq)

lemma admit_contacts_aliases:
  assumes "admit_contacts env provenance room seated ks added w = (Inr res, w')" and "r_anonymous room"
    and "aliases_minted (seated @ added)"
  shows "aliases_minted (seated @ res)"
  using assms(1,3)
proof (induction ks arbitrary: added w)
  case Nil
  then show ?case by (simp add: eff_simps)
next
  case (Cons k ks)
  show ?case
  proof (cases "list_ex (\<lambda>s. live_seat s \<and> s_identity s = k_container_id k) (r_seats room)
       \<or> list_ex (\<lambda>s. s_identity s = k_container_id k) added \<or> admitting_invite provenance room k = None")
    case True
    then have "admit_contacts env provenance room seated ks added w = (Inr res, w')"
      using Cons.prems(1) by (auto split: option.splits if_splits)
    from Cons.IH [OF this Cons.prems(2)] show ?thesis .
  next
    case False
    then obtain i where i: "admitting_invite provenance room k = Some i" by auto
    let ?s = "\<lambda>at pid. new_seat k i at pid (Some (mintAlias (seated @ added) (i_role i)))"
    obtain at pid w1 where run: "admit_contacts env provenance room seated ks (added @ [?s at pid]) w1 = (Inr res, w')"
      using Cons.prems(1) False i assms(2) by (auto simp: bnd_def split: prod.splits sum.splits)
    have "aliases_minted ((seated @ added) @ [?s at pid])"
      by (rule aliases_minted_snoc [OF Cons.prems(2)]) (simp add: new_seat_def)
    then have "aliases_minted (seated @ (added @ [?s at pid]))" by simp
    from Cons.IH [OF run this] show ?thesis .
  qed
qed

text \<open>In an anonymous room every seat is known by a pseudonym of its own: when the seats so far carry
  minted aliases, so do the admitted ones, and no two seats, removed ones included, share an alias.\<close>

theorem aliases_stay_distinct:
  assumes "admit_contacts env provenance room seated ks [] w = (Inr added, w')" and "r_anonymous room"
    and "aliases_minted seated"
  shows "aliases_minted (seated @ added) \<and> distinct (map s_alias (seated @ added))"
proof -
  have "aliases_minted (seated @ added)"
    using admit_contacts_aliases [OF assms(1,2)] assms(3) by simp
  then show ?thesis using minted_distinct by blast
qed

end
