(* ===== verification/Delivery.thy ===== *)
theory Delivery
  imports Admission "HOL-Library.Multiset"
begin

section \<open>Delivery\<close>

text \<open>
  What the pump promises: the loops over the archive end, every item gets an intent for each of
  its recipients, an intent is sent to its recipient only, and nothing that leaves an anonymous room
  names an author (\<open>src/intake.ts\<close>, \<open>src/service.ts\<close>).
\<close>

subsection \<open>The loops end\<close>

text \<open>The loop as the source has it, \<open>None\<close> if it never ends.\<close>

partial_function (option) unresolved_loop ::
  "kind \<Rightarrow> kind \<Rightarrow> (row \<Rightarrow> 'a \<Rightarrow> 'a svc) \<Rightarrow> nat \<Rightarrow> 'a \<Rightarrow> world \<Rightarrow> ((err + 'a) \<times> world) option" where
  "unresolved_loop k result body after a w =
     (case query (unresolved_query k result after) w of
        (Inl e, t) \<Rightarrow> Some (Inl e, t)
      | (Inr page, t) \<Rightarrow>
          if page = [] then Some (Inr a, t)
          else
            (case fold_eff body page a t of
               (Inl e, u) \<Rightarrow> Some (Inl e, u)
             | (Inr b, u) \<Rightarrow> unresolved_loop k result body (w_seq (last page)) b u))"

lemma unresolved_loop_paged:
  assumes body: "\<And>w a. moves (grows_without k) (body w a)"
  shows "length (work_left k after w) < n \<Longrightarrow>
    unresolved_loop k result body after a w = Some (paged n k result body after a w)"
proof (induction n arbitrary: after a w)
  case 0
  then show ?case by simp
next
  case (Suc n)
  obtain r w1 where q: "query (unresolved_query k result after) w = (r, w1)" by force
  show ?case
  proof (cases r)
    case (Inl e)
    then show ?thesis using q by (subst unresolved_loop.simps) (simp add: bnd_def)
  next
    case (Inr page)
    have q': "query (unresolved_query k result after) w = (Inr page, w)" using unresolved_page(1) q Inr by metis
    show ?thesis
    proof (cases "page = []")
      case True
      then show ?thesis using q' by (subst unresolved_loop.simps) (simp add: eff_simps)
    next
      case False
      obtain x w2 where f: "fold_eff body page a w = (x, w2)" by force
      have "length (work_left k (w_seq (last page)) w2) < n"
        using page_shrinks [OF q' False] Suc.prems
          work_left_grows [OF movesD [OF moves_fold_grows [OF body] f]] by simp
      from Suc.IH [OF this] show ?thesis
        by (cases x; subst unresolved_loop.simps) (simp_all only: q' prod.case sum.case False if_False f
          paged_step [OF q' False])
    qed
  qed
qed

text \<open>C5: the loop over the relay intents without a result ends in every state: each page moves the
  cursor past an intent and relaying adds none, so the loop returns what the bounded one returns.\<close>

theorem relay_loop_ends:
  "unresolved_loop K_relay_intent K_relay_result (relay_one env room) 0 None w
     = Some (for_unresolved K_relay_intent K_relay_result (relay_one env room) None w)"
  by (simp add: for_unresolved_def bnd_def gets_def del: paged.simps)
     (rule unresolved_loop_paged [OF relay_one_grows], simp add: work_left_def rows_of_def le_imp_less_Suc)

subsection \<open>Every recipient gets an intent\<close>

lemma no_work_left:
  assumes ok: "archive_ok sha rid ar" and "recordsNeedingRelayIntents ar 0 JOURNAL_WORK_BATCH_SIZE = []"
  shows "\<not> awaits_intent (a_rows ar) n cid"
proof
  assume a: "awaits_intent (a_rows ar) n cid"
  then obtain v where v: "v \<in> set (a_rows ar)" "w_seq v = n" by (auto simp: awaits_intent_def list_ex_iff)
  have "(n, cid) \<in> set (a_work ar)" using a ok by (simp add: archive_ok_def)
  then have "v \<in> set (filter (\<lambda>w. 0 < w_seq w \<and> w_seq w \<in> set (map fst (a_work ar))) (a_rows ar))"
    using v seqs_bounded ok by (force simp: archive_ok_def)
  then have "filter (\<lambda>w. 0 < w_seq w \<and> w_seq w \<in> set (map fst (a_work ar))) (a_rows ar) \<noteq> []"
    by (metis empty_iff empty_set)
  then show False using assms(2) by (simp add: recordsNeedingRelayIntents_def JOURNAL_WORK_BATCH_SIZE_def)
qed

lemma complete_batches_post:
  "post (room_inv env rid r0) (complete_batches n env rid)
     (\<lambda>_ w. \<forall>n cid. \<not> awaits_intent (a_rows (v_archive w)) n cid)"
proof (induction n)
  case 0
  then show ?case by (simp add: post_def eff_simps)
next
  case (Suc n)
  let ?R = "\<lambda>records w. room_inv env rid r0 w
    \<and> records = recordsNeedingRelayIntents (v_archive w) 0 JOURNAL_WORK_BATCH_SIZE"
  have k: "post (room_inv env rid r0) (for_each records (completeRecordIntents env rid)) (\<lambda>_. room_inv env rid r0)" for records
    by (intro post_keeps keeps_intro)
  have more: "post (?R records) (andthen (for_each records (completeRecordIntents env rid)) (complete_batches n env rid))
      (\<lambda>_ w. \<forall>n cid. \<not> awaits_intent (a_rows (v_archive w)) n cid)" for records
    by (intro post_andthen [OF _ Suc.IH] post_weaken [OF k]) simp_all
  have none: "post (?R []) (ret ()) (\<lambda>_ w. \<forall>n cid. \<not> awaits_intent (a_rows (v_archive w)) n cid)"
    by (rule post_ret) (metis no_work_left room_inv_def world_ok_def)
  show ?case unfolding complete_batches.simps
    by (rule post_bnd [where R = ?R], rule post_gets, simp, rule post_if, simp only:, rule none, rule more)
qed

subsection \<open>What is sent, and to whom\<close>

definition sends_only :: "(sent \<Rightarrow> bool) \<Rightarrow> world \<Rightarrow> world \<Rightarrow> bool" where
  "sends_only P w w' \<longleftrightarrow> (\<exists>new. v_sent w' = v_sent w @ new \<and> list_all P new)"

interpretation sends: state_order "sends_only P" for P
  by unfold_locales (auto simp: sends_only_def)

lemma sends_only_refl [simp]: "sends_only P w w"
  by (simp add: sends_only_def)

lemma sends_nothing: "(\<And>w. v_sent (f w) = v_sent w) \<Longrightarrow> moves (sends_only P) (modify f)"
  by (simp add: moves_def eff_simps sends_only_def)

lemma sends_primitive:
  "moves (sends_only P) (tick f)" "moves (sends_only P) (call g)" "moves (sends_only P) (append env rid d)"
  "moves (sends_only P) (query q)"
  by (auto simp: moves_def tick_def call_def append_def query_def sends_only_def split: prod.splits)

lemmas sends_rules = sends.rules sends_primitive

lemma sends_lift_then: "(\<And>x. v = Inr x \<Longrightarrow> moves (sends_only P) (f x)) \<Longrightarrow> moves (sends_only P) (bnd (lift_sum v) f)"
  by (cases v) (simp_all add: moves_def eff_simps)

lemma sends_runBound:
  assumes "moves (sends_only P) m" shows "moves (sends_only P) (runBound env m)"
proof -
  have "moves (sends_only P) (rebind_once env)"
    unfolding rebind_once_def refreshUnlocked_def refreshContactsUnlocked_def
    by (intro sends_rules sends_nothing) simp_all
  then have "moves (sends_only P) (rebind_attempts env n)" for n by (induction n) (simp_all, intro sends_rules)
  then show ?thesis unfolding runBound_def rebind_def by (intro sends_rules assms)
qed

lemma sends_packet:
  "moves (sends_only (\<lambda>x. x_recipient x = cid)) (packet_send env cid b reply_to)"
  "moves (sends_only (\<lambda>x. x_recipient x = cid)) (packet_sendFile env cid fname mime bytes reply_to)"
proof -
  have s: "moves (sends_only (\<lambda>x. x_recipient x = cid)) (sent_to cid p reply_to)" for p
    by (simp add: sent_to_def moves_def eff_simps sends_only_def)
  show "moves (sends_only (\<lambda>x. x_recipient x = cid)) (packet_send env cid b reply_to)"
    "moves (sends_only (\<lambda>x. x_recipient x = cid)) (packet_sendFile env cid fname mime bytes reply_to)"
    unfolding packet_send_def packet_sendFile_def by (intro sends_rules sends_runBound s)+
qed

lemma sends_settle: "moves (sends_only P) (settle env rid v i status wire mw failed)"
  unfolding settle_def append_at_def now_def by (intro sends_rules)

lemma sends_attempt: "moves (sends_only P) m \<Longrightarrow> moves (sends_only P) (attempt failed m)"
  unfolding attempt_def by (intro sends_rules)

lemma sends_deliver:
  "moves (sends_only (\<lambda>x. x_recipient x = ri_recipient i)) (deliver env room v i w scoped thread reply_to failed)"
proof (cases "w_body w")
  case (Message m)
  then show ?thesis unfolding deliver_def deliver_message_def sendRoomBody_def
    by (simp, intro sends_rules sends_attempt sends_packet sends_settle)
next
  case (File f)
  then show ?thesis unfolding deliver_def deliver_file_def sendRoomBody_def
    by (simp, intro sends_rules sends_attempt sends_packet sends_settle)
qed (simp_all add: deliver_def sends.ret_moves)

lemma intent_source_pure:
  "intent_source i w = (r, t) \<Longrightarrow> v_sent t = v_sent w \<and> (\<forall>s. r = Inr (Some s) \<longrightarrow> s \<in> set (a_rows (v_archive w)))"
proof -
  have q: "x \<in> set (a_rows ar)" if "query_rows ar q = x # xs" for x xs ar q
  proof -
    have "x \<in> set (query_rows ar q)" using that by simp
    then show ?thesis by (auto simp: query_rows_def Let_def split: if_splits option.splits dest: in_set_takeD)
  qed
  assume "intent_source i w = (r, t)"
  then show ?thesis
    by (auto simp: intent_source_def row_by_def first_row_def eff_simps query_def split: option.splits prod.splits
        sum.splits if_splits list.splits dest: q)
qed

text \<open>C11: working on a relay intent sends to the intent's recipient only, and only when an archived item
  is addressed to that recipient.\<close>

theorem relay_sends_to_recipient:
  assumes i: "w_body v = Relay_intent i" and run: "relay_one env room v failed w = (r, w')"
  shows "\<exists>new. v_sent w' = v_sent w @ new \<and> (\<forall>x\<in>set new. x_recipient x = ri_recipient i
    \<and> (\<exists>src\<in>set (a_rows (v_archive w)). ri_recipient i \<in> set (recipients_of (w_body src))))"
proof -
  obtain found w1 where f: "intent_source i w = (found, w1)" by force
  have pure: "v_sent w1 = v_sent w" using intent_source_pure [OF f] by simp
  show ?thesis
  proof (cases "\<exists>s. found = Inr (Some s)")
    case False
    then have "v_sent w' = v_sent w" using run f pure
      by (auto simp: relay_one_def i bnd_def ret_def split: sum.splits option.splits)
    then show ?thesis by simp
  next
    case True
    then obtain src where src: "found = Inr (Some src)" "src \<in> set (a_rows (v_archive w))"
      using intent_source_pure [OF f] by blast
    let ?P = "\<lambda>x. x_recipient x = ri_recipient i \<and> ri_recipient i \<in> set (recipients_of (w_body src))"
    have d: "moves (sends_only ?P) (deliver env room v i src scoped thread wire failed)"
      if "ri_recipient i \<in> set (recipients_of (w_body src))" for scoped thread wire
      using sends_deliver [of i env room v src scoped thread wire failed] that by (simp add: moves_def sends_only_def)
    have p: "moves (sends_only ?P) (case plan of Pass_over \<Rightarrow> ret failed
        | Settle status \<Rightarrow> skipRelay env (r_room_id room) v i status failed
        | Deliver scoped thread \<Rightarrow> deliver env room v i src scoped thread wire failed)"
      if "relay_plan room rows (w_seq v) (ri_recipient i) src decision = Inr plan" for plan rows decision wire
      using that by (cases plan) (auto simp: sends.ret_moves skipRelay_def sends_settle dest!: relay_planD intro: d)
    have "moves (sends_only ?P)
        (bnd (reply_rows_for (r_room_id room) src) (\<lambda>rows.
         bnd (lift_sum (selectReply rows (r_room_id room) src (ri_recipient i))) (\<lambda>decision.
         bnd (lift_sum (relay_plan room rows (w_seq v) (ri_recipient i) src decision)) (\<lambda>plan.
           case plan of Pass_over \<Rightarrow> ret failed
           | Settle status \<Rightarrow> skipRelay env (r_room_id room) v i status failed
           | Deliver scoped thread \<Rightarrow> deliver env room v i src scoped thread (linked_wire decision) failed))))"
      (is "moves _ ?m")
      unfolding reply_rows_for_def
      by (rule sends.bnd_moves, intro sends_rules, rule sends.bnd_moves, rule sends_rules,
          rule sends_lift_then, rule p)
    moreover have "?m w1 = (r, w')"
      using run unfolding relay_one_def i body.case
      by (subst (asm) bnd_def) (simp only: f src(1) prod.case sum.case option.case)
    ultimately have "sends_only ?P w1 w'" by (rule movesD)
    then obtain new where "v_sent w' = v_sent w @ new" "list_all ?P new" unfolding sends_only_def pure by blast
    then show ?thesis using src(2) by (intro exI [of _ new]) (auto simp: list_all_iff)
  qed
qed

subsection \<open>Nothing sent names an aliased author\<close>

text \<open>What may be sent for an archived item in an anonymous room: what would be sent for the same item written by
  its alias, where the thread fields name at most the alias of the author of an archived thread root.\<close>

definition thread_hides :: "row list \<Rightarrow> (string \<times> json) list \<Rightarrow> bool" where
  "thread_hides rows thread \<longleftrightarrow>
     thread = [] \<or> (\<exists>ident. thread = [(''thread'', thread_json ident)])
     \<or> (\<exists>ident md root rm tr. thread = [(''thread'', thread_json ident), (''thread_root'', metadata_json md)]
          \<and> root \<in> set rows \<and> w_body root = Message rm \<and> m_thread_root rm = Some tr
          \<and> m_author_alias rm \<noteq> None \<and> pm_creator md = masked rm
          \<and> pm_participant_ids md = map tm_participant_id (tr_members tr))"

definition hidden_in :: "room \<Rightarrow> row list \<Rightarrow> row \<Rightarrow> payload \<Rightarrow> bool" where
  "hidden_in room rows src p \<longleftrightarrow>
     (case w_body src of
        Message m \<Rightarrow> \<exists>thread. thread_hides rows thread
          \<and> p = Body (canonicalJson (J_obj (relay_body room (w_at src)
                (m\<lparr>m_author := masked m, m_author_alias := None\<rparr>) None thread)))
      | File f \<Rightarrow>
          p = Body (canonicalJson (J_obj (room_body ''room_msg'' room (f_file_id f) (room_author room) []
                ((case f_author_alias f of Some al \<Rightarrow> al_alias al | None \<Rightarrow> a_display_name (f_author f)) @ '' sent a file'') (w_at src))))
          \<or> p = Attachment (f_filename f) (f_mime f) (b64_decode (f_data_base64 f))
      | _ \<Rightarrow> False)"

definition item_named :: "relay_intent \<Rightarrow> row \<Rightarrow> bool" where
  "item_named i src \<longleftrightarrow>
     (case w_body src of Message m \<Rightarrow> ri_message_id i = Some (m_message_id m)
      | File f \<Rightarrow> ri_file_id i = Some (f_file_id f) | _ \<Rightarrow> False)"

lemma readReplyRows_from_subset:
  "readReplyRows_from ar rid after rows = Inr out \<Longrightarrow>
    set out \<subseteq> set rows \<union> set (List.map_filter reply_row (a_rows ar))"
proof (induction ar rid after rows rule: readReplyRows_from.induct)
  case (1 ar rid after rows)
  let ?page = "read_rows ar after 64"
  have page: "set ?page \<subseteq> set (a_rows ar)" by (auto simp: read_rows_def dest: in_set_takeD)
  show ?case
  proof (cases "?page = []")
    case True
    then show ?thesis using "1.prems" by (subst (asm) readReplyRows_from.simps) simp
  next
    case False
    have run: "readReplyRows_from ar rid (w_seq (last ?page)) (rows @ List.map_filter reply_row ?page) = Inr out"
      and go: "\<not> w_seq (last ?page) \<le> after" "list_all (\<lambda>w. w_room_id w = rid) ?page"
      using "1.prems" False by (subst (asm) readReplyRows_from.simps, simp add: Let_def split: if_splits)+
    have "set out \<subseteq> set (rows @ List.map_filter reply_row ?page) \<union> set (List.map_filter reply_row (a_rows ar))"
      using "1.IH" [OF refl False go(1) _ run] go(2) by simp
    then show ?thesis using page by (auto simp: List.map_filter_def)
  qed
qed

lemma reply_rows_archived:
  assumes "reply_rows_for rid src w = (Inr rows, t)"
  shows "t = w \<and> set rows \<subseteq> set (List.map_filter reply_row (a_rows (v_archive w)))"
  using assms readReplyRows_from_subset [of "v_archive w" rid 0 "[]"]
  by (auto simp: reply_rows_for_def readReplyRows_def eff_simps split: if_splits sum.splits)

lemma scoped_plan_thread:
  assumes "scoped_plan room n cid src decision root tr sc = Inr (Deliver scoped thread)"
    and "w_body src = Message m" "w_body root = Message rm"
  shows "thread = [(''thread'', thread_json (m_message_id rm))]
    \<or> (\<exists>md. publicThreadMetadata (r_anonymous room) (w_at root) rm tr = Inr md
         \<and> thread = [(''thread'', thread_json (m_message_id rm)), (''thread_root'', metadata_json md)])"
  using assms by (auto simp: scoped_plan_def split: if_splits sum.splits reply_decision.splits)

text \<open>What the plan hands to the sender hides the author.\<close>

lemma plan_hides:
  assumes plan: "relay_plan room rows n cid src decision = Inr (Deliver scoped thread)" and anon: "r_anonymous room"
    and m: "w_body src = Message m" and rows: "set rows \<subseteq> set (List.map_filter reply_row all)"
  shows "relayed_author scoped m = masked m \<and> thread_hides all thread"
proof -
  from relay_planD [OF plan] consider
      "scoped = None" "thread = []"
    | root tr sc a where "classifyThreadAssociation (r_room_id room) (r_anonymous room) rows src = Inr (Scoped root tr sc)"
        "scoped = Some a" "publicThreadAuthor True m tr = Inr a"
    using m anon by auto
  then show ?thesis
  proof cases
    case 1
    then show ?thesis by (simp add: relayed_author_def masked_def thread_hides_def)
  next
    case 2
    obtain rm where rm: "root \<in> set rows" "w_body root = Message rm" "m_thread_root rm = Some tr"
      using classify_ScopedD [OF 2(1)] by blast
    then obtain v where "v \<in> set all" "reply_row v = Some root" using rows by (auto simp: List.map_filter_def)
    then obtain vm where v: "v \<in> set all" "w_body v = Message vm" "rm = vm\<lparr>m_text := []\<rparr>"
      using rm(2) by (cases "w_body v") (auto simp: reply_row_def)
    have same: "m_thread_root vm = Some tr" "masked rm = masked vm" "m_author_alias rm = m_author_alias vm"
      using rm(3) v(3) by (simp_all add: masked_def split: option.split)
    have sp: "scoped_plan room n cid src decision root tr sc = Inr (Deliver scoped thread)"
      using plan 2(1) by (auto simp: relay_plan_def split: sum.splits err.splits)
    have "thread_hides all thread"
      using scoped_plan_thread [OF sp m rm(2)]
    proof (elim disjE exE conjE)
      assume "thread = [(''thread'', thread_json (m_message_id rm))]"
      then show ?thesis unfolding thread_hides_def by blast
    next
      fix md assume md: "publicThreadMetadata (r_anonymous room) (w_at root) rm tr = Inr md"
        and thread: "thread = [(''thread'', thread_json (m_message_id rm)), (''thread_root'', metadata_json md)]"
      have "m_author_alias vm \<noteq> None \<and> pm_creator md = masked vm \<and> pm_participant_ids md = map tm_participant_id (tr_members tr)"
        using publicThreadMetadata_shown [OF md] same anon by (simp add: seen_author_def)
      then show ?thesis unfolding thread_hides_def using thread v(1,2) same(1) by blast
    qed
    moreover have "relayed_author scoped m = masked m"
      using publicThreadAuthor_shown [of room m tr a] 2(2,3) anon by (simp add: relayed_author_def seen_author_def)
    ultimately show ?thesis by blast
  qed
qed

lemma sends_payload:
  "P \<lparr>x_recipient = cid, x_payload = Body b, x_reply_to = reply_to\<rparr> \<Longrightarrow> moves (sends_only P) (packet_send env cid b reply_to)"
  "P \<lparr>x_recipient = cid, x_payload = Attachment fname mime bytes, x_reply_to = reply_to\<rparr> \<Longrightarrow>
     moves (sends_only P) (packet_sendFile env cid fname mime bytes reply_to)"
proof -
  have s: "moves (sends_only P) (sent_to cid p reply_to)"
    if "P \<lparr>x_recipient = cid, x_payload = p, x_reply_to = reply_to\<rparr>" for p
    using that by (simp add: sent_to_def moves_def eff_simps sends_only_def)
  show "P \<lparr>x_recipient = cid, x_payload = Body b, x_reply_to = reply_to\<rparr> \<Longrightarrow> moves (sends_only P) (packet_send env cid b reply_to)"
    unfolding packet_send_def by (intro sends_rules sends_runBound s)
  show "P \<lparr>x_recipient = cid, x_payload = Attachment fname mime bytes, x_reply_to = reply_to\<rparr> \<Longrightarrow>
     moves (sends_only P) (packet_sendFile env cid fname mime bytes reply_to)"
    unfolding packet_sendFile_def by (intro sends_rules sends_runBound s)
qed

lemma deliver_hides:
  assumes m: "\<And>m. w_body src = Message m \<Longrightarrow> relayed_author scoped m = masked m \<and> thread_hides all thread"
  shows "moves (sends_only (\<lambda>x. hidden_in room all src (x_payload x))) (deliver env room v i src scoped thread reply_to failed)"
proof (cases "w_body src")
  case (Message m)
  have "relay_body room (w_at src) m scoped thread = relay_body room (w_at src) (m\<lparr>m_author := masked m, m_author_alias := None\<rparr>) None thread"
    using m [OF Message] by (simp add: relay_body_def relayed_author_def)
  then have "hidden_in room all src (Body (canonicalJson (J_obj (relay_body room (w_at src) m scoped thread))))"
    using m [OF Message] Message by (auto simp: hidden_in_def)
  then show ?thesis unfolding deliver_def deliver_message_def sendRoomBody_def Message body.case
    by (intro sends_rules sends_attempt sends_payload sends_settle) simp
next
  case (File f)
  have "hidden_in room all src (Body (canonicalJson (J_obj (file_notice room (w_at src) f))))"
    "hidden_in room all src (Attachment (f_filename f) (f_mime f) (b64_decode (f_data_base64 f)))"
    using File by (simp_all add: hidden_in_def file_notice_def uploader_def)
  then show ?thesis unfolding deliver_def deliver_file_def sendRoomBody_def File body.case
    by (intro sends_rules sends_attempt sends_payload sends_settle) simp_all
qed (simp_all add: deliver_def sends.ret_moves)

lemma take_filter_head: "take n (filter P xs) = x # ys \<Longrightarrow> P x" "take n (rev (filter P xs)) = x # ys \<Longrightarrow> P x"
proof -
  show "P x" if "take n (filter P xs) = x # ys"
    using in_set_takeD [of x n "filter P xs"] that by simp
  show "P x" if "take n (rev (filter P xs)) = x # ys"
    using in_set_takeD [of x n "rev (filter P xs)"] that by simp
qed

lemma row_by_found:
  assumes "row_by k by ident w = (Inr (Some x), t)"
  shows "\<exists>y. ident = Some y \<and> query_where (a_rows (v_archive w)) ((by y (any_row\<lparr>q_kind := Some k\<rparr>))\<lparr>q_limit := Some 1\<rparr>) x"
  using assms
  by (auto simp: row_by_def first_row_def query_def eff_simps query_rows_def Let_def
    split: option.splits list.splits if_splits prod.splits dest: take_filter_head)

lemma row_by_pure: "row_by k by ident w = (r, t) \<Longrightarrow> t = w"
  by (auto simp: row_by_def first_row_def query_def eff_simps split: option.splits if_splits)

lemma intent_source_named:
  assumes "intent_source i w = (Inr (Some s), t)" shows "t = w \<and> item_named i s"
proof -
  obtain m w1 f where m: "row_by K_message (\<lambda>x q. q\<lparr>q_message_id := Some x\<rparr>) (ri_message_id i) w = (Inr m, w1)"
    and f: "row_by K_file (\<lambda>x q. q\<lparr>q_file_id := Some x\<rparr>) (ri_file_id i) w1 = (Inr f, t)"
    and s: "(m = Some s \<and> f = None) \<or> (m = None \<and> f = Some s)"
    using assms by (auto simp: intent_source_def bnd_def ret_def split: prod.splits sum.splits option.splits)
  have "w1 = w" "t = w1" using row_by_pure m f by blast+
  moreover have "item_named i s" if "m = Some s"
    using row_by_found [OF m [unfolded that]]
    by (cases "w_body s") (auto simp: item_named_def query_where_def any_row_def clause_def Let_def)
  moreover have "item_named i s" if "f = Some s"
    using row_by_found [OF f [unfolded that]]
    by (cases "w_body s") (auto simp: item_named_def query_where_def any_row_def clause_def Let_def)
  ultimately show ?thesis using s by blast
qed

text \<open>C12: nothing an anonymous room sends while it works on a relay intent names the author of an item behind its
  alias. Every text or file sent belongs to the archived item the intent names; a text is the one that would be sent
  for the same message written by its alias (participant id, alias and role), thread metadata names the alias of
  the thread root's author and participant ids, and the notice of a file names its uploader by the alias.\<close>

theorem relay_hides_author:
  assumes anon: "r_anonymous room" and i: "w_body v = Relay_intent i" and run: "relay_one env room v failed w = (r, w')"
  shows "\<exists>new. v_sent w' = v_sent w @ new \<and> (\<forall>x\<in>set new. \<exists>src\<in>set (a_rows (v_archive w)).
    item_named i src \<and> hidden_in room (a_rows (v_archive w)) src (x_payload x))"
proof -
  obtain found w1 where f: "intent_source i w = (found, w1)" by force
  show ?thesis
  proof (cases "\<exists>s. found = Inr (Some s)")
    case False
    then have "v_sent w' = v_sent w" using run f intent_source_pure [OF f]
      by (auto simp: relay_one_def i bnd_def ret_def split: sum.splits option.splits)
    then show ?thesis by simp
  next
    case True
    then obtain src where src: "found = Inr (Some src)" "src \<in> set (a_rows (v_archive w))" "w1 = w" "item_named i src"
      using intent_source_pure [OF f] intent_source_named f by blast
    let ?all = "a_rows (v_archive w)" and ?P = "\<lambda>x. hidden_in room (a_rows (v_archive w)) src (x_payload x)"
    obtain found_rows w2 where rr: "reply_rows_for (r_room_id room) src w = (found_rows, w2)" by force
    have same: "w2 = w" using rr by (auto simp: reply_rows_for_def eff_simps split: if_splits)
    have p: "moves (sends_only ?P) (case plan of Pass_over \<Rightarrow> ret failed
        | Settle status \<Rightarrow> skipRelay env (r_room_id room) v i status failed
        | Deliver scoped thread \<Rightarrow> deliver env room v i src scoped thread wire failed)"
      if "relay_plan room rows (w_seq v) (ri_recipient i) src decision = Inr plan"
        and "set rows \<subseteq> set (List.map_filter reply_row ?all)" for plan rows decision wire
    proof (cases plan)
      case (Deliver scoped thread)
      then show ?thesis
        using plan_hides [OF that(1) [unfolded Deliver] anon _ that(2)] by (auto intro: deliver_hides)
    qed (simp_all add: sends.ret_moves skipRelay_def sends_settle)
    have "sends_only ?P w w'"
    proof (cases found_rows)
      case (Inl e)
      then show ?thesis using run f src(1,3) rr same by (auto simp: relay_one_def i bnd_def)
    next
      case (Inr rows)
      have sub: "set rows \<subseteq> set (List.map_filter reply_row ?all)" using reply_rows_archived rr Inr by blast
      have "moves (sends_only ?P)
          (bnd (lift_sum (selectReply rows (r_room_id room) src (ri_recipient i))) (\<lambda>decision.
           bnd (lift_sum (relay_plan room rows (w_seq v) (ri_recipient i) src decision)) (\<lambda>plan.
             case plan of Pass_over \<Rightarrow> ret failed
             | Settle status \<Rightarrow> skipRelay env (r_room_id room) v i status failed
             | Deliver scoped thread \<Rightarrow> deliver env room v i src scoped thread (linked_wire decision) failed)))"
        (is "moves _ ?m")
        by (rule sends.bnd_moves, rule sends_rules, rule sends_lift_then, rule p [OF _ sub])
      moreover have "?m w = (r, w')"
        using run unfolding relay_one_def i body.case
        by (subst (asm) bnd_def, simp only: f src(1,3) prod.case sum.case option.case)
          (subst (asm) bnd_def, simp only: rr same Inr prod.case sum.case)
      ultimately show ?thesis by (rule movesD)
    qed
    then obtain new where "v_sent w' = v_sent w @ new" "list_all ?P new" unfolding sends_only_def by blast
    then show ?thesis using src(2,4) by (intro exI [of _ new]) (auto simp: list_all_iff)
  qed
qed

subsection \<open>Canonical bodies\<close>

text \<open>The text sent for an object does not depend on the order in which its fields were written.\<close>

theorem canonical_order_free:
  assumes "mset fs = mset gs" and "distinct (map fst fs)"
  shows "canonicalJson (J_obj fs) = canonicalJson (J_obj gs)"
proof -
  let ?c = "map (\<lambda>(k, v). (k, canonicalValue v))"
  have kf: "fst \<circ> (\<lambda>(k, v). (k, canonicalValue v)) = fst" by auto
  have keys: "map fst (?c xs) = map fst xs" for xs by (simp add: kf)
  have g: "distinct (map fst gs)" using assms by (metis mset_eq_imp_distinct_iff mset_map)
  have m: "mset (?c fs) = mset (?c gs)" using assms(1) by simp
  have "inj_on fst (set (?c fs))" using assms(2) keys by (metis distinct_map)
  moreover have "set (?c gs) = set (?c fs)" using m by (metis mset_eq_setD)
  ultimately have "sort_key fst (?c fs) = sort_key fst (?c gs)"
    by (intro map_sorted_distinct_set_unique [of fst]) (use assms(2) g in \<open>simp_all add: distinct_map_sort_key kf\<close>)
  then show ?thesis by (simp add: canonicalJson_def)
qed

subsection \<open>Rebinding\<close>

lemma rebind_once_other:
  assumes "\<And>t. e_choose_identity env t \<noteq> Inr (v_cid w)"
  shows "\<exists>e. rebind_once env w = (Inl e, w\<lparr>v_tick := Suc (v_tick w)\<rparr>)"
proof (cases "e_choose_identity env (v_tick w)")
  case (Inr cid)
  then have "cid \<noteq> v_cid w" using assms by metis
  then show ?thesis using Inr by (simp add: rebind_once_def call_def bnd_def gets_def raise_def)
qed (simp add: rebind_once_def call_def bnd_def)

lemma rebind_attempts_other:
  "(\<And>t. e_choose_identity env t \<noteq> Inr (v_cid w)) \<Longrightarrow>
    \<exists>e m. m \<le> Suc n \<and> rebind_attempts env n w = (Inl e, w\<lparr>v_tick := v_tick w + m\<rparr>)"
proof (induction n arbitrary: w)
  case 0
  from rebind_once_other [OF 0] obtain e where "rebind_once env w = (Inl e, w\<lparr>v_tick := Suc (v_tick w)\<rparr>)" by blast
  then show ?case by (intro exI [of _ e] exI [of _ 1]) simp
next
  case (Suc n)
  from rebind_once_other [OF Suc.prems]
  obtain e where e: "rebind_once env w = (Inl e, w\<lparr>v_tick := Suc (v_tick w)\<rparr>)" by blast
  show ?case
  proof (cases "isTransientTransportError e")
    case True
    have "\<And>t. e_choose_identity env t \<noteq> Inr (v_cid (w\<lparr>v_tick := Suc (v_tick w)\<rparr>))" using Suc.prems by simp
    from Suc.IH [OF this] obtain e' m where "m \<le> Suc n"
      "rebind_attempts env n (w\<lparr>v_tick := Suc (v_tick w)\<rparr>) = (Inl e', w\<lparr>v_tick := Suc (v_tick w) + m\<rparr>)" by auto
    then show ?thesis using e True by (intro exI [of _ e'] exI [of _ "Suc m"]) (simp add: catch_def)
  next
    case False
    then show ?thesis using e by (intro exI [of _ e] exI [of _ 1]) (simp add: catch_def raise_def)
  qed
qed

text \<open>A room whose daemon never offers its identity again never adopts another one: rebinding fails
  after at most three attempts and leaves everything but the clock as it was.\<close>

theorem rebind_keeps_identity:
  assumes "\<And>t. e_choose_identity env t \<noteq> Inr (v_cid w)"
  shows "\<exists>e m. m \<le> 3 \<and> rebind env w = (Inl e, w\<lparr>v_tick := v_tick w + m\<rparr>)"
  using rebind_attempts_other [OF assms, of 2] by (simp add: rebind_def numeral_3_eq_3)

end
