(* ===== verification/Endings.thy ===== *)
theory Endings
  imports Delivery
begin

section \<open>Closing, deleting, and starting a thread twice\<close>

subsection \<open>Closing\<close>

text \<open>C6: when closing an open room returns, the room is closed for good: the terminal state is stored,
  the identity is no longer hosted, and every contact removal that was intended has its result.\<close>

theorem closing_completes:
  assumes nfc: "nfc_laws (e_nfc env)" and w: "world_ok env rid w" "v_room w = Some room"
    and open_room: "r_state room \<noteq> Closed" and run: "closeRoom env rid w = (Inr r, w')"
  shows "r_state r = Closed \<and> v_room w' = Some r \<and> \<not> v_hosted w'
    \<and> (\<forall>v\<in>set (a_rows (v_archive w')). kind_of (w_body v) = K_close_notice_intent \<longrightarrow>
         (\<exists>u\<in>set (a_rows (v_archive w')). kind_of (w_body u) = K_close_notice_result
            \<and> intent_record_id_of (w_body u) = Some (w_record_id v)))"
proof -
  let ?past = "(room, a_rows (v_archive w))"
  have inv: "room_inv env rid ?past w" using room_inv_start [OF w] .
  have h: "held env rid ?past room" using world_okD [OF w] by (simp add: held_def)
  let ?save = "if r_state room = Closing then store_save env room else save env (room\<lparr>r_state := Closing\<rparr>)"
  obtain c w1 where s: "?save w = (Inr c, w1)" and cl: "closeUnlocked env rid c w1 = (Inr r, w')"
    using run open_room load_okI [OF w]
    by (auto simp: closeRoom_def bnd_def raise_def split: prod.splits sum.splits if_splits)
  have "room_inv env rid ?past w1" using keepsD [OF closing_inv(1) [OF nfc h open_room] inv s] .
  moreover have "held env rid ?past c" using givesD [OF closing_inv(2) [OF nfc h open_room] inv s] .
  ultimately have "r_state r = Closed \<and> v_room w' = Some r \<and> severed w'"
    using postD [OF post_closeUnlocked [OF nfc] _ cl] by blast
  then show ?thesis
    unfolding severed_def all_settled_def rows_of_def unresolved_def list_ex_iff by blast
qed

subsection \<open>Deleting\<close>

definition room_stays :: "world \<Rightarrow> world \<Rightarrow> bool" where
  "room_stays w w' \<longleftrightarrow> (v_room w \<noteq> None \<longrightarrow> v_room w' \<noteq> None)"

interpretation stays: state_order room_stays
  by unfold_locales (auto simp: room_stays_def)

lemma same_stays: "moves (\<lambda>w w'. v_room w' = v_room w) m \<Longrightarrow> moves room_stays m"
  by (simp add: moves_def room_stays_def)

lemmas stays_rules = stays.rules same_room_base [THEN same_stays] same_room_packet [THEN same_stays]

lemma stays_store:
  "moves room_stays (load env)" "moves room_stays (store_save env room)" "moves room_stays (save env room)"
  by (auto simp: moves_def load_def store_save_def save_def bnd_def lift_sum_def room_stays_def
      split: option.splits sum.splits)

lemma stays_paged: "(\<And>v a. moves room_stays (body v a)) \<Longrightarrow> moves room_stays (paged n k result body after a)"
proof (induction n arbitrary: after a)
  case (Suc n)
  then show ?case unfolding paged.simps by (intro stays_rules) auto
qed (simp add: stays.raise_moves)

lemma stays_unresolved: "(\<And>v a. moves room_stays (body v a)) \<Longrightarrow> moves room_stays (for_unresolved k result body a)"
  unfolding for_unresolved_def by (intro stays_rules stays_paged) assumption

lemma stays_close: "moves room_stays (closeRoom env rid)"
proof -
  have a: "moves room_stays (append_at env rid b)" for b
    unfolding append_at_def by (intro stays_rules)
  have u: "moves room_stays (appendUncertainCloseResult env rid v)" for v
    unfolding appendUncertainCloseResult_def by (intro stays_rules a)
  have i: "moves room_stays (close_intent env rid cid)" for cid
    unfolding close_intent_def by (rule stays.bnd_moves, rule stays_rules)
      (auto split: list.split intro: stays_rules a)
  have c: "moves room_stays (sever_contacts env rid)"
    unfolding sever_contacts_def settle_absent_def sever_contact_def
    by (intro stays_rules stays_unresolved a u i)
  have p: "moves room_stays (purge_identity env)"
    unfolding purge_identity_def packets_destroy_def
    by (intro stays_rules same_room_modify [THEN same_stays]) simp_all
  have cu: "moves room_stays (closeUnlocked env rid room)" for room
    unfolding closeUnlocked_def by (intro stays_rules stays_unresolved c p u stays_store)
  show ?thesis unfolding closeRoom_def by (intro stays_rules stays_store cu)
qed

text \<open>A deletion needs its confirmation, and either the room is gone or it is still stored: a failure to
  close it on the way never loses it.\<close>

theorem delete_all_or_nothing:
  assumes w: "world_ok env rid w" "v_room w = Some room" and run: "deleteRoom env rid confirm w = (r, w')"
  shows "(case r of Inr _ \<Rightarrow> confirm \<and> v_room w' = None \<and> v_archive w' = empty_archive
    | Inl e \<Rightarrow> v_room w' \<noteq> None)"
proof (cases confirm)
  case False
  then show ?thesis using run w by (auto simp: deleteRoom_def eff_simps)
next
  case True
  have d: "case x of Inr _ \<Rightarrow> v_room u = None \<and> v_archive u = empty_archive | Inl e \<Rightarrow> v_room u \<noteq> None"
    if "store_delete env t = (x, u)" "v_room t \<noteq> None" for t x u
  proof -
    have "v_room t' \<noteq> None" if "load env t = (y, t')" for y t'
      using movesD [OF stays_store(1) that] \<open>v_room t \<noteq> None\<close> by (simp add: room_stays_def)
    then show ?thesis using that
      by (auto simp: store_delete_def eff_simps split: prod.splits sum.splits if_splits)
  qed
  let ?close = "if r_state room \<noteq> Closed then bnd (closeRoom env rid) (\<lambda>_. ret ()) else ret ()"
  obtain y w1 where c: "?close w = (y, w1)" by force
  have "moves room_stays ?close" by (intro stays_rules stays_close)
  from movesD [OF this c] have s: "v_room w1 \<noteq> None" using w by (simp add: room_stays_def)
  show ?thesis
  proof (cases y)
    case (Inl e)
    then show ?thesis using run True c s load_okI [OF w] by (auto simp: deleteRoom_def bnd_def catch_def ret_def andthen_def)
  next
    case (Inr z)
    then have "store_delete env w1 = (r, w')"
      using run True c load_okI [OF w] by (simp add: deleteRoom_def bnd_def catch_def ret_def andthen_def)
    from d [OF this s] show ?thesis using True by (simp split: sum.splits)
  qed
qed

subsection \<open>Starting a thread twice\<close>

lemma reply_row_started: "reply_row w = Some v \<Longrightarrow> started_by cid key v = started_by cid key w"
  by (auto simp: reply_row_def started_by_def split: body.splits option.splits)

lemma reply_row_prior: "reply_row w = Some v \<Longrightarrow> prior_thread env creator q v = prior_thread env creator q w"
  by (auto simp: reply_row_def prior_thread_def split: body.splits option.splits)

lemma parsed_root:
  assumes "body_parse sha (Message m) = Some b" and "m_thread_root m = Some root"
  shows "\<exists>m' root'. b = Message m' \<and> m_message_id m' = m_message_id m \<and> m_author m' = m_author m
    \<and> m_thread_root m' = Some root' \<and> tr_creator_participant_id root' = tr_creator_participant_id root
    \<and> tr_fingerprint root' = tr_fingerprint root \<and> tr_idempotency_key root' = tr_idempotency_key root"
  using assms
  by (auto simp: message_parse_def message_shape_def ThreadRootSchema_parse_def split: option.splits if_splits)

definition start_found ::
  "env \<Rightarrow> room \<Rightarrow> seat \<Rightarrow> start_thread_input \<Rightarrow> row list \<Rightarrow> (command_error + string) svc" where
  "start_found env room creator q found =
     (case found of
        [] \<Rightarrow> start_selected env room creator q
      | [w] \<Rightarrow> ret (prior_thread env creator q w)
      | _ \<Rightarrow> raise (Plain_error ''duplicate thread roots''))"

definition thread_roots :: "world \<Rightarrow> string \<Rightarrow> string \<Rightarrow> row list" where
  "thread_roots w cid key = filter (started_by cid key) (List.map_filter reply_row (a_rows (v_archive w)))"

lemma start_thread_unfold:
  assumes w: "world_ok env rid w" "v_room w = Some room" and g: "command_gate room sender ''start_thread'' = None"
    and c: "List.find (\<lambda>s. s_state s = Seat_active \<and> s_identity s = sender) (r_seats room) = Some creator"
    and q: "StartThreadInputSchema_parse input = Some q"
  shows "startThreadCommandUnlocked env sender input w
    = start_found env room creator q (thread_roots w sender (st_idempotency_key q)) w"
proof -
  have "archive_ok (e_sha env) (r_room_id room) (v_archive w)"
    using w world_okD [OF w] by (simp add: world_ok_def)
  from readReplyRows_eq [OF this] show ?thesis
    by (simp add: startThreadCommandUnlocked_def bnd_def load_okI [OF w] g c q gets_def lift_sum_def start_found_def
        thread_roots_def)
qed

lemma bnd_returns:
  assumes "bnd m f s = (Inr y, t)" obtains x u where "m s = (Inr x, u)" "f x u = (Inr y, t)"
  using assms by (auto simp: bnd_def split: prod.splits sum.splits)

lemma call_same: "call f s = (r, t) \<Longrightarrow> v_room t = v_room s \<and> v_archive t = v_archive s"
  by (auto simp: call_def)

lemma start_fresh_appends:
  assumes run: "start_fresh env room creator members q w = (Inr (Inr ident), w')" and id: "s_identity creator = sender"
  shows "v_room w' = v_room w \<and> (\<exists>row. a_rows (v_archive w') = a_rows (v_archive w) @ [row]
    \<and> started_by sender (st_idempotency_key q) row \<and> prior_thread env creator q row = Inr ident \<and> reply_row row \<noteq> None)"
proof -
  obtain i w1 where f: "fresh_ulid env w = (Inr i, w1)"
    and r1: "(bnd (now env) (\<lambda>at.
       (let root = new_root env i creator members q; m = root_message room creator root in
        if r_anonymous room \<and> s_alias creator = None then raise (Plain_error ''creator is missing its alias'')
        else
          bnd (lift_sum (publicThreadMetadata (r_anonymous room) at m root)) (\<lambda>metadata.
            if length (stringify (J_obj (room_body ''room_msg'' room i (shown_author room creator m)
                  [(''thread'', thread_json i), (''thread_root'', metadata_json metadata)] (m_text m) at)))
               > MAX_ROOM_MESSAGE_BYTES
            then ret (Inl Cmd_invalid_request)
            else
              bnd (append env (r_room_id room) \<lparr>d_room_id = r_room_id room, d_at = at, d_body = Message m\<rparr>) (\<lambda>w.
                ret (Inr i)))))) w1 = (Inr (Inr ident), w')"
    using run unfolding start_fresh_def by (rule bnd_returns)
  obtain at w2 where n: "now env w1 = (Inr at, w2)"
    and ap: "\<exists>row. append env (r_room_id room) \<lparr>d_room_id = r_room_id room, d_at = at,
      d_body = Message (root_message room creator (new_root env i creator members q))\<rparr> w2 = (Inr row, w')" and i: "i = ident"
    using r1 by (rule bnd_returns)
      (auto simp: Let_def bnd_def ret_def raise_def lift_sum_def split: if_splits sum.splits prod.splits)
  have same: "v_room w2 = v_room w" "v_archive w2 = v_archive w"
    using f n unfolding fresh_ulid_def now_def by (metis call_same)+
  let ?root = "new_root env ident creator members q"
  let ?m = "root_message room creator ?root"
  obtain row where row: "archive_append (e_sha env) (r_room_id room)
      \<lparr>d_room_id = r_room_id room, d_at = at, d_body = Message ?m\<rparr> (v_archive w2) = (Inr row, v_archive w')"
    and room: "v_room w' = v_room w2"
    using ap i by (auto simp: append_def split: prod.splits if_splits)
  obtain d where d: "AppendRecordSchema_parse (e_sha env) \<lparr>d_room_id = r_room_id room, d_at = at, d_body = Message ?m\<rparr> = Inr d"
    "w_body row = d_body d" "a_rows (v_archive w') = a_rows (v_archive w2) @ [row]"
    using row by (rule archive_appendD)
  have "m_thread_root ?m = Some ?root" by (simp add: root_message_def)
  moreover have "body_parse (e_sha env) (Message ?m) = Some (d_body d)"
    using d(1) by (auto simp del: body_parse.simps simp: AppendRecordSchema_parse_def split: if_splits option.splits)
  ultimately obtain m' root' where m': "w_body row = Message m'" "m_message_id m' = m_message_id ?m" "m_author m' = m_author ?m"
    "m_thread_root m' = Some root'" "tr_creator_participant_id root' = tr_creator_participant_id ?root"
    "tr_fingerprint root' = tr_fingerprint ?root" "tr_idempotency_key root' = tr_idempotency_key ?root"
    using parsed_root [of "e_sha env" ?m "d_body d" ?root] d(2) by auto
  have "started_by sender (st_idempotency_key q) row" "prior_thread env creator q row = Inr ident" "reply_row row \<noteq> None"
    using m' id by (simp_all add: started_by_def prior_thread_def reply_row_def root_message_def new_root_def)
  then show ?thesis using same room d(3) by auto
qed

text \<open>C7: starting a thread is idempotent: repeating the accepted command, with the same key, answers with
  the same thread and archives nothing.\<close>

theorem start_thread_replays:
  assumes w: "world_ok env rid w"
    and run: "startThreadCommandUnlocked env sender input w = (Inr (Inr ident), w')"
  shows "startThreadCommandUnlocked env sender input w' = (Inr (Inr ident), w')"
proof -
  obtain room where room: "v_room w = Some room"
    using run by (cases "v_room w") (auto simp: startThreadCommandUnlocked_def bnd_def load_def)
  note l = load_okI [OF w room]
  have g: "command_gate room sender ''start_thread'' = None"
    using run by (cases "command_gate room sender ''start_thread''") (auto simp: startThreadCommandUnlocked_def bnd_def l ret_def)
  obtain creator where c: "List.find (\<lambda>s. s_state s = Seat_active \<and> s_identity s = sender) (r_seats room) = Some creator"
    using run by (auto simp: startThreadCommandUnlocked_def bnd_def l g ret_def split: option.splits)
  then have id: "s_identity creator = sender" by (auto dest: find_SomeD)
  obtain q where q: "StartThreadInputSchema_parse input = Some q"
    using run by (auto simp: startThreadCommandUnlocked_def bnd_def l g c ret_def split: option.splits)
  let ?key = "st_idempotency_key q"
  have f: "start_found env room creator q (thread_roots w sender ?key) w = (Inr (Inr ident), w')"
    using run start_thread_unfold [OF w room g c q] by simp
  show ?thesis
  proof (cases "thread_roots w sender ?key")
    case (Cons x xs)
    then have "w' = w" using f by (cases xs) (auto simp: start_found_def ret_def raise_def)
    then show ?thesis using run by simp
  next
    case Nil
    then obtain members where "start_fresh env room creator members q w = (Inr (Inr ident), w')"
      using f by (auto simp: start_found_def start_selected_def ret_def raise_def split: sum.splits err.splits)
    from start_fresh_appends [OF this id] obtain row
      where r: "v_room w' = v_room w" "a_rows (v_archive w') = a_rows (v_archive w) @ [row]"
        "started_by sender ?key row" "prior_thread env creator q row = Inr ident" "reply_row row \<noteq> None" by blast
    then obtain v where v: "reply_row row = Some v" by blast
    have "thread_roots w' sender ?key = [v]"
      using Nil r v reply_row_started [OF v]
      by (simp add: thread_roots_def map_filter_append List.map_filter_simps)
    then have "start_found env room creator q (thread_roots w' sender ?key) w' = (Inr (Inr ident), w')"
      using r(4) reply_row_prior [OF v] by (simp add: start_found_def ret_def)
    moreover have "world_ok env rid w'"
      using keepsD [OF keeps_startThread room_inv_start [OF w room] run] by (simp add: room_inv_def)
    ultimately show ?thesis using start_thread_unfold [OF _ _ g c q] r(1) room by simp
  qed
qed

end
