(* ===== verification/Termination.thy ===== *)
theory Termination
  imports Endings
begin

section \<open>The loops of the pump end\<close>

text \<open>
  The two unbounded loops of a pump run, as the source has them (\<open>for (;;)\<close> in
  \<open>completeSnapshotIntents\<close> and \<open>drainAndRelay\<close> of \<open>src/intake.ts\<close>): here a loop that never ends
  would be \<open>None\<close>. Both end, and the bounded functions of \<open>Intake\<close> and \<open>Relay\<close> return what
  they return.
\<close>

subsection \<open>Completing the fan-out\<close>

partial_function (option) completion_loop ::
  "env \<Rightarrow> string \<Rightarrow> world \<Rightarrow> ((err + unit) \<times> world) option" where
  "completion_loop env rid w =
     (if recordsNeedingRelayIntents (v_archive w) 0 JOURNAL_WORK_BATCH_SIZE = [] then Some (Inr (), w)
      else
        (case for_each (recordsNeedingRelayIntents (v_archive w) 0 JOURNAL_WORK_BATCH_SIZE)
            (completeRecordIntents env rid) w of
           (Inl e, t) \<Rightarrow> Some (Inl e, t)
         | (Inr x, t) \<Rightarrow> completion_loop env rid t))"

text \<open>An appended intent takes its entries off the work table and adds none.\<close>

definition work_drops :: "world \<Rightarrow> world \<Rightarrow> bool" where
  "work_drops w w' \<longleftrightarrow> length (a_work (v_archive w')) \<le> length (a_work (v_archive w))"

interpretation drops: state_order work_drops
  by unfold_locales (auto simp: work_drops_def)

lemma append_intent_work:
  assumes "append_at env rid (Relay_intent i) w = (r, w')"
  shows "work_drops w w' \<and> (\<forall>row n v. r = Inr row \<longrightarrow> (n, ri_recipient i) \<in> set (a_work (v_archive w)) \<longrightarrow>
    v \<in> set (a_rows (v_archive w)) \<longrightarrow> w_seq v = n \<longrightarrow> intent_subject v (Relay_intent i) \<longrightarrow>
    length (a_work (v_archive w')) < length (a_work (v_archive w)))"
proof -
  obtain at w1 where n: "now env w = (at, w1)" by force
  have same: "v_archive w1 = v_archive w" using n unfolding now_def by (metis call_same)
  show ?thesis
  proof (cases at)
    case (Inl e)
    then show ?thesis using assms n same by (auto simp: append_at_def bnd_def work_drops_def)
  next
    case (Inr t)
    let ?d = "\<lparr>d_room_id = rid, d_at = t, d_body = Relay_intent i\<rparr>"
    have a: "append env rid ?d w1 = (r, w')" using assms n Inr by (simp add: append_at_def bnd_def)
    show ?thesis
    proof (cases r)
      case (Inl e)
      then have "v_archive w' = v_archive w1" using a
        by (auto simp: append_def split: if_splits prod.splits dest: archive_append_error)
      then show ?thesis using Inl same by (simp add: work_drops_def)
    next
      case (Inr row)
      then have "archive_append (e_sha env) rid ?d (v_archive w1) = (Inr row, v_archive w')"
        using a by (auto simp: append_def split: if_splits prod.splits)
      then obtain d where d: "AppendRecordSchema_parse (e_sha env) ?d = Inr d" "w_body row = d_body d"
        "a_work (v_archive w') = work_after (a_rows (v_archive w1)) (a_work (v_archive w1)) row"
        by (rule archive_appendD)
      then have b: "w_body row = Relay_intent i"
        by (auto simp: AppendRecordSchema_parse_def split: if_splits option.splits)
      have work: "a_work (v_archive w') = filter (\<lambda>(n, cid). \<not> (cid = ri_recipient i
          \<and> list_ex (\<lambda>v. w_seq v = n \<and> intent_subject v (Relay_intent i)) (a_rows (v_archive w)))) (a_work (v_archive w))"
        using d(3) b same by (simp add: work_after_def)
      have strict: "length (a_work (v_archive w')) < length (a_work (v_archive w))"
        if "(n, ri_recipient i) \<in> set (a_work (v_archive w))" "v \<in> set (a_rows (v_archive w))" "w_seq v = n"
          "intent_subject v (Relay_intent i)" for n v
        unfolding work by (rule length_filter_less [OF that(1)]) (use that in \<open>auto simp: list_ex_iff\<close>)
      have "work_drops w w'" unfolding work_drops_def work by (rule length_filter_le)
      then show ?thesis using strict by blast
    qed
  qed
qed

lemma drops_append_at: "moves work_drops (append_at env rid (Relay_intent i))"
  by (rule movesI) (use append_intent_work in blast)

lemma drops_completeRecord: "moves work_drops (completeRecordIntents env rid v)"
  unfolding completeRecordIntents_def completeIntents_def message_intent_def file_intent_def
  by (cases "w_body v") (simp_all add: drops.ret_moves, (intro drops.rules drops_append_at)+)

lemma for_each_Cons:
  "for_each (x # xs) f w = (Inr (), w') \<Longrightarrow> \<exists>w1. f x w = (Inr (), w1) \<and> for_each xs f w1 = (Inr (), w')"
  by (auto split: prod.splits sum.splits)

lemma completeRecord_drops:
  assumes w: "world_ok env rid w" and v: "v \<in> set (recordsNeedingRelayIntents (v_archive w) 0 JOURNAL_WORK_BATCH_SIZE)"
    and run: "completeRecordIntents env rid v w = (Inr (), w')"
  shows "length (a_work (v_archive w')) < length (a_work (v_archive w))"
proof -
  let ?rows = "a_rows (v_archive w)" and ?work = "a_work (v_archive w)"
  have ok: "archive_ok (e_sha env) rid (v_archive w)" using w by (simp add: world_ok_def)
  have r: "v \<in> set ?rows" "w_seq v \<in> set (map fst ?work)"
    using v by (auto simp: recordsNeedingRelayIntents_def dest: in_set_takeD)
  then obtain c0 where c0: "(w_seq v, c0) \<in> set ?work" by auto
  then have "awaits_intent ?rows (w_seq v) c0" using ok by (simp add: archive_ok_def)
  then obtain u where u: "u \<in> set ?rows" "w_seq u = w_seq v" "c0 \<in> set (recipients_of (w_body u))"
    by (auto simp: awaits_intent_def list_ex_iff)
  have "distinct (map w_seq ?rows)" using ok unfolding archive_ok_def by (metis distinct_upt)
  then have "u = v" using u r(1) by (simp add: distinct_map inj_on_def)
  let ?cids = "relayRecipientsNeedingIntent (v_archive w) (w_seq v) DEFAULT_WORK_BATCH_SIZE"
  have "c0 \<in> set (sort (map snd (filter (\<lambda>(m, cid). m = w_seq v) ?work)))" using c0 by force
  then have "sort (map snd (filter (\<lambda>(m, cid). m = w_seq v) ?work)) \<noteq> []" by (metis empty_iff empty_set)
  then have "?cids \<noteq> []" by (simp add: relayRecipientsNeedingIntent_def DEFAULT_WORK_BATCH_SIZE_def)
  then obtain c cs where cs: "?cids = c # cs" by (cases ?cids) auto
  have "c \<in> set ?cids" unfolding cs by simp
  then have c: "(w_seq v, c) \<in> set ?work"
    by (auto simp: relayRecipientsNeedingIntent_def dest!: in_set_takeD)
  have go: "length (a_work (v_archive w')) < length ?work"
    if all: "for_each ?cids (\<lambda>cid. bnd (append_at env rid (Relay_intent (i cid))) (\<lambda>_. ret ())) w = (Inr (), w')"
      and i: "\<And>cid. ri_recipient (i cid) = cid" "\<And>cid. intent_subject v (Relay_intent (i cid))" for i
  proof -
    obtain row w1 where a: "append_at env rid (Relay_intent (i c)) w = (Inr row, w1)"
      and rest: "for_each cs (\<lambda>cid. bnd (append_at env rid (Relay_intent (i cid))) (\<lambda>_. ret ())) w1 = (Inr (), w')"
      using for_each_Cons [OF all [unfolded cs]] by (auto simp: bnd_def ret_def split: prod.splits sum.splits)
    have "length (a_work (v_archive w1)) < length ?work"
      using append_intent_work [OF a] c r(1) i by metis
    moreover have "moves work_drops (for_each cs (\<lambda>cid. bnd (append_at env rid (Relay_intent (i cid))) (\<lambda>_. ret ())))"
      by (intro drops.rules drops_append_at)
    then have "work_drops w1 w'" using rest by (rule movesD)
    ultimately show ?thesis unfolding work_drops_def by simp
  qed
  show ?thesis
  proof (cases "w_body v")
    case (Message m)
    show ?thesis by (rule go) (use run Message in \<open>auto simp: completeRecordIntents_def completeIntents_def message_intent_def
      bnd_def gets_def intent_subject_def\<close>)
  next
    case (File f)
    show ?thesis by (rule go) (use run File in \<open>auto simp: completeRecordIntents_def completeIntents_def file_intent_def
      bnd_def gets_def intent_subject_def\<close>)
  qed (use u(3) \<open>u = v\<close> in simp_all)
qed

lemma completion_step:
  assumes w: "world_ok env rid w"
    and some: "recordsNeedingRelayIntents (v_archive w) 0 JOURNAL_WORK_BATCH_SIZE = v # vs"
    and run: "for_each (v # vs) (completeRecordIntents env rid) w = (Inr (), w')"
  shows "length (a_work (v_archive w')) < length (a_work (v_archive w)) \<and> world_ok env rid w'"
proof -
  obtain w1 where first: "completeRecordIntents env rid v w = (Inr (), w1)"
    and rest: "for_each vs (completeRecordIntents env rid) w1 = (Inr (), w')" using for_each_Cons [OF run] by blast
  have "moves work_drops (for_each vs (completeRecordIntents env rid))" by (intro drops.rules drops_completeRecord)
  from movesD [OF this rest] completeRecord_drops [OF w _ first] some
  have "length (a_work (v_archive w')) < length (a_work (v_archive w))" by (simp add: work_drops_def)
  moreover obtain r0 where r: "room_inv env rid r0 w" using room_inv_exists [OF w] by blast
  have "keeps (room_inv env rid r0) (for_each (v # vs) (completeRecordIntents env rid))" by (intro keeps_intro)
  from keepsD [OF this r run] have "world_ok env rid w'" by (simp add: room_inv_def)
  ultimately show ?thesis by blast
qed

lemma completion_loop_batches:
  "world_ok env rid w \<Longrightarrow> length (a_work (v_archive w)) < n \<Longrightarrow> completion_loop env rid w = Some (complete_batches n env rid w)"
proof (induction n arbitrary: w)
  case (Suc n)
  let ?records = "recordsNeedingRelayIntents (v_archive w) 0 JOURNAL_WORK_BATCH_SIZE"
  show ?case
  proof (cases ?records)
    case Nil
    then show ?thesis by (subst completion_loop.simps) (simp add: bnd_def gets_def ret_def)
  next
    case (Cons v vs)
    obtain x t where f: "for_each (v # vs) (completeRecordIntents env rid) w = (x, t)" by force
    show ?thesis
    proof (cases x)
      case (Inl e)
      then show ?thesis using Cons f
        by (subst completion_loop.simps) (simp add: bnd_def gets_def andthen_def del: for_each.simps)
    next
      case (Inr u)
      then have "completion_loop env rid t = Some (complete_batches n env rid t)"
        using Suc.IH completion_step [OF Suc.prems(1) Cons] f Suc.prems(2) by simp
      then show ?thesis using Cons f Inr
        by (subst completion_loop.simps) (simp add: bnd_def gets_def andthen_def del: for_each.simps)
    qed
  qed
qed simp

text \<open>C4: completing the fan-out ends in every well-formed state: every turn of the loop takes entries off
  the work table. When it ends without an error, no item of the archive lacks a relay intent for one
  of its recipients.\<close>

theorem fanout_complete:
  assumes "world_ok env rid w"
  shows "\<exists>r w'. completion_loop env rid w = Some (r, w') \<and> completeSnapshotIntents env rid w = (r, w')
    \<and> (r = Inr () \<longrightarrow> (\<forall>n cid. \<not> awaits_intent (a_rows (v_archive w')) n cid))"
proof -
  obtain r w' where run: "completeSnapshotIntents env rid w = (r, w')" by force
  then have b: "complete_batches (Suc (length (a_work (v_archive w)))) env rid w = (r, w')"
    by (simp add: completeSnapshotIntents_def bnd_def gets_def del: complete_batches.simps)
  have "completion_loop env rid w = Some (r, w')"
    using completion_loop_batches [OF assms, of "Suc (length (a_work (v_archive w)))"] b by simp
  moreover obtain r0 where "room_inv env rid r0 w" using room_inv_exists [OF assms] by blast
  then have "\<forall>n cid. \<not> awaits_intent (a_rows (v_archive w')) n cid" if "r = Inr ()"
    using postD [OF complete_batches_post _ b [unfolded that]] by blast
  ultimately show ?thesis using run by blast
qed

subsection \<open>The inbox\<close>

definition inbox_same :: "world \<Rightarrow> world \<Rightarrow> bool" where
  "inbox_same w w' \<longleftrightarrow> v_inbox w' = v_inbox w \<and> v_files w' = v_files w"

interpretation quiet: state_order inbox_same
  by unfold_locales (auto simp: inbox_same_def)

lemma quiet_base:
  "moves inbox_same (tick f)" "moves inbox_same (call g)" "moves inbox_same (append env rid d)"
  "moves inbox_same (query q)" "moves inbox_same (load env)" "moves inbox_same (store_save env room)"
  by (auto simp: moves_def tick_def call_def append_def query_def load_def store_save_def inbox_same_def
      split: prod.splits option.splits sum.splits)

lemma quiet_modify:
  "(\<And>w. v_inbox (f w) = v_inbox w) \<Longrightarrow> (\<And>w. v_files (f w) = v_files w) \<Longrightarrow> moves inbox_same (modify f)"
  by (simp add: moves_def eff_simps inbox_same_def)

lemma quiet_save: "moves inbox_same (save env room)"
  unfolding save_def by (intro quiet.rules quiet_base)

lemma quiet_runBound: "moves inbox_same m \<Longrightarrow> moves inbox_same (runBound env m)"
proof -
  assume m: "moves inbox_same m"
  have "moves inbox_same (rebind_once env)"
    unfolding rebind_once_def refreshUnlocked_def refreshContactsUnlocked_def
    by (intro quiet.rules quiet_base quiet_modify; simp)
  then have "moves inbox_same (rebind_attempts env n)" for n by (induction n) (simp_all, intro quiet.rules)
  then show ?thesis unfolding runBound_def rebind_def by (intro quiet.rules m)
qed

lemma quiet_small:
  "moves inbox_same (sdk env f)" "moves inbox_same (now env)" "moves inbox_same (fresh_ulid env)"
  "moves inbox_same hosted" "moves inbox_same (append_at env rid b)" "moves inbox_same (sendRoomBody env c u reply_to)"
  "moves inbox_same (first_row q)" "moves inbox_same (shouldPause env)"
  unfolding sdk_def now_def fresh_ulid_def hosted_def append_at_def sendRoomBody_def packet_send_def sent_to_def
    first_row_def shouldPause_def
  by (intro quiet.rules quiet_base quiet_runBound quiet_modify; simp)+

lemma quiet_parts:
  "moves inbox_same (completeRecordIntents env rid v)"
  "moves inbox_same (bounceRemovedSender env room sender)"
  "moves inbox_same (recordRejectionUnlocked env room s failure)"
  "moves inbox_same (appendIncomingMessage env rid room i d)"
  "moves inbox_same (appendIncomingFile env rid room j rs)"
proof -
  show "moves inbox_same (completeRecordIntents env rid v)"
    unfolding completeRecordIntents_def completeIntents_def
    by (cases "w_body v") (simp_all add: quiet.ret_moves, (intro quiet.rules quiet_small)+)
  show "moves inbox_same (bounceRemovedSender env room sender)"
    unfolding bounceRemovedSender_def by (intro quiet.rules quiet_small quiet_save)
  show "moves inbox_same (recordRejectionUnlocked env room s failure)"
    unfolding recordRejectionUnlocked_def notify_refusal_def by (intro quiet.rules quiet_small quiet_base)
  show "moves inbox_same (appendIncomingMessage env rid room i d)"
    "moves inbox_same (appendIncomingFile env rid room j rs)"
    unfolding appendIncomingMessage_def appendIncomingFile_def by (intro quiet.rules quiet_small quiet_base)+
qed

lemma quiet_freshScope: "moves inbox_same (freshScopeUnlocked env room s)"
proof -
  have "moves inbox_same (case x of Inr d \<Rightarrow> ret (Some d)
      | Inl (Thread_failure f) \<Rightarrow> bnd (recordRejectionUnlocked env room s f) (\<lambda>_. ret None) | Inl e \<Rightarrow> raise e)" for x
    by (auto split: sum.splits err.splits intro!: quiet.rules quiet_parts)
  then show ?thesis unfolding freshScopeUnlocked_def
    by (intro quiet.bnd_moves moves_gets [OF quiet.order] moves_case_prod)
qed

lemma quiet_processInboxItem: "moves inbox_same (processInboxItem env rid i)"
  unfolding processInboxItem_def by (intro quiet.rules quiet_base quiet_small quiet_parts quiet_freshScope)

lemma quiet_unread: "moves inbox_same (unread env)"
  unfolding unread_def by (intro quiet.rules quiet_small)

subsection \<open>Draining the inbox\<close>

text \<open>An operation that reads the inbox; a room that is paused stops every loop that does.\<close>

definition inbox_drops :: "world \<Rightarrow> world \<Rightarrow> bool" where
  "inbox_drops w w' \<longleftrightarrow> length (v_inbox w') \<le> length (v_inbox w) \<and> length (v_files w') \<le> length (v_files w)"

definition unread_count :: "world \<Rightarrow> nat" where
  "unread_count w = length (v_inbox w) + length (v_files w)"

interpretation reads: state_order inbox_drops
  by unfold_locales (auto simp: inbox_drops_def)

definition paused :: "world \<Rightarrow> bool" where
  "paused w \<longleftrightarrow> opt_ok (\<lambda>r. r_state r = Provisioning \<or> lifecycle_pending r) (v_room w) \<and> v_room w \<noteq> None"

lemma quiet_drops: "inbox_same w w' \<Longrightarrow> inbox_drops w w'"
  by (simp add: inbox_same_def inbox_drops_def)

lemma quiet_reads: "moves inbox_same m \<Longrightarrow> moves inbox_drops m"
  by (simp add: moves_def quiet_drops)

lemma drops_count: "inbox_drops w w' \<Longrightarrow> unread_count w' \<le> unread_count w"
  by (simp add: inbox_drops_def unread_count_def)

lemma shouldPause_at:
  assumes "world_ok env rid w"
  shows "shouldPause env w = (if v_room w = None then Inl (Storage_error ''room directory does not exist'') else Inr (paused w), w)"
proof (cases "v_room w")
  case None
  then show ?thesis by (simp add: shouldPause_def load_def bnd_def)
next
  case (Some r)
  then show ?thesis using load_okI [OF assms Some] by (simp add: shouldPause_def bnd_def ret_def paused_def)
qed

lemma pull_message_eq:
  "pull_message env w =
     (case sdk env (e_get_message env) w of
        (Inl e, t) \<Rightarrow> (Inl e, t)
      | (Inr u, t) \<Rightarrow>
          (case v_inbox t of [] \<Rightarrow> (Inr None, t) | i # rest \<Rightarrow> (Inr (Some i), t\<lparr>v_inbox := rest\<rparr>)))"
  by (auto simp: pull_message_def eff_simps split: prod.split sum.split list.split)

lemma pull_message_reads: "moves inbox_drops (pull_message env)"
proof (rule movesI)
  fix w r t
  assume p: "pull_message env w = (r, t)"
  obtain y w1 where s: "sdk env (e_get_message env) w = (y, w1)" by force
  have "inbox_drops w w1" using movesD [OF quiet_small(1) s] by (rule quiet_drops)
  then show "inbox_drops w t" using p s
    by (auto simp: pull_message_eq inbox_drops_def split: sum.splits list.splits)
qed

lemma pull_message_pops:
  assumes p: "pull_message env w = (Inr x, w')" and some: "v_inbox w \<noteq> []"
  shows "x \<noteq> None \<and> length (v_inbox w') < length (v_inbox w) \<and> length (v_files w') = length (v_files w)"
proof -
  obtain y w1 where s: "sdk env (e_get_message env) w = (y, w1)" by force
  have "v_inbox w1 = v_inbox w" "v_files w1 = v_files w"
    using movesD [OF quiet_small(1) s] by (simp_all add: inbox_same_def)
  then show ?thesis using p s some by (auto simp: pull_message_eq split: sum.splits list.splits)
qed

lemma acknowledge_from_reads: "moves inbox_drops (acknowledge_from n env rid i)"
proof (induction n)
  case (Suc n)
  then show ?case
    by (simp, intro reads.rules quiet_base [THEN quiet_reads] pull_message_reads quiet_processInboxItem [THEN quiet_reads])
qed (simp add: reads.raise_moves)

lemma acknowledge_progress:
  assumes w: "world_ok env rid w" and some: "v_inbox w \<noteq> []" and run: "packet_acknowledgeMessage env rid i w = (Inr (), w')"
  shows "inbox_drops w w' \<and> (w' = w \<and> paused w \<or> unread_count w' < unread_count w)"
proof -
  let ?n = "length (v_inbox w)"
  have a: "acknowledge_from (Suc ?n) env rid i w = (Inr (), w')"
    using run by (simp add: packet_acknowledgeMessage_def bnd_def gets_def del: acknowledge_from.simps)
  obtain room where room: "v_room w = Some room" and l: "load env w = (Inr room, w)"
    using a load_okI [OF w] by (cases "v_room w") (auto simp: bnd_def load_def)
  show ?thesis
  proof (cases "paused w")
    case True
    then have "w' = w" using a l room by (simp add: bnd_def ret_def paused_def)
    then show ?thesis using True by (simp add: inbox_drops_def)
  next
    case False
    obtain x w1 where p: "pull_message env w = (Inr x, w1)"
      and rest: "(case x of None \<Rightarrow> ret () | Some j \<Rightarrow>
          if same_source j i then require (j = i) (Plain_error ''SDK acknowledged message does not match'')
          else andthen (processInboxItem env rid j) (acknowledge_from ?n env rid i)) w1 = (Inr (), w')"
      using a l room False by (auto simp: bnd_def paused_def split: prod.splits sum.splits)
    have "moves inbox_drops (case x of None \<Rightarrow> ret () | Some j \<Rightarrow>
          if same_source j i then require (j = i) (Plain_error ''SDK acknowledged message does not match'')
          else andthen (processInboxItem env rid j) (acknowledge_from ?n env rid i))"
      by (intro reads.rules acknowledge_from_reads quiet_processInboxItem [THEN quiet_reads])
    then have "inbox_drops w1 w'" using rest by (rule movesD)
    then show ?thesis using pull_message_pops [OF p some] by (simp add: inbox_drops_def unread_count_def)
  qed
qed

lemma acknowledge_reads: "moves inbox_drops (packet_acknowledgeMessage env rid i)"
  unfolding packet_acknowledgeMessage_def by (intro reads.rules acknowledge_from_reads)

lemma acknowledgeFile_reads: "moves inbox_drops (packet_acknowledgeFile env i)"
  unfolding packet_acknowledgeFile_def
  by (intro reads.rules quiet_small [THEN quiet_reads]) (auto simp: moves_def eff_simps inbox_drops_def)

lemma acknowledgeFile_pops:
  assumes run: "packet_acknowledgeFile env i w = (Inr (), w')" and i: "i \<in> set (v_files w)"
  shows "unread_count w' < unread_count w"
proof -
  obtain y w1 where s: "sdk env (e_get_file env) w = (y, w1)" by force
  have q: "v_inbox w1 = v_inbox w" "v_files w1 = v_files w"
    using movesD [OF quiet_small(1) s] by (simp_all add: inbox_same_def)
  have "w' = w1\<lparr>v_files := filter (\<lambda>x. fi_wire_id x \<noteq> fi_wire_id i) (v_files w1)\<rparr>"
    using run s by (auto simp: packet_acknowledgeFile_def eff_simps split: sum.splits if_splits)
  moreover have "length (filter (\<lambda>x. fi_wire_id x \<noteq> fi_wire_id i) (v_files w)) < length (v_files w)"
    by (rule length_filter_less [OF i]) simp
  ultimately show ?thesis by (simp add: unread_count_def q)
qed

text \<open>Every way through a file ends with its acknowledgement.\<close>

lemma quiet_post: "moves inbox_same m \<Longrightarrow> post (inbox_same w) m (\<lambda>x. inbox_same w)"
  by (rule postI) (blast dest: movesD intro: quiet.goes_on)

lemma acknowledgeFile_post:
  "i \<in> set (v_files w) \<Longrightarrow>
    post (inbox_same w) (packet_acknowledgeFile env i) (\<lambda>x t. unread_count t < unread_count w)"
  by (rule postI) (use acknowledgeFile_pops in \<open>fastforce simp: inbox_same_def unread_count_def\<close>)

lemma finish_file_post:
  assumes "i \<in> set (v_files w)"
  shows "post (inbox_same w) (finish_file env rid i st) (\<lambda>x t. unread_count t < unread_count w)"
  unfolding finish_file_def
  by (rule post_andthen [OF quiet_post acknowledgeFile_post [OF assms]]) (intro quiet.rules quiet_parts)

lemmas quiet_first = post_bnd [OF quiet_post] post_andthen [OF quiet_post]

lemma processFile_progress:
  assumes run: "processFileInboxItem env rid i w = (Inr (), w')" and i: "i \<in> set (v_files w)"
  shows "unread_count w' < unread_count w"
proof -
  have "post (inbox_same w) (processFileInboxItem env rid i) (\<lambda>x t. unread_count t < unread_count w)"
    unfolding processFileInboxItem_def
    by (intro quiet_first post_if post_case_option acknowledgeFile_post [OF i] finish_file_post [OF i] quiet.rules
        quiet_base quiet_small quiet_parts quiet_freshScope)
  from postD [OF this _ run] show ?thesis by (simp add: inbox_same_def)
qed

lemma finish_file_reads: "moves inbox_drops (finish_file env rid i st)"
  unfolding finish_file_def by (intro reads.rules quiet_parts [THEN quiet_reads] acknowledgeFile_reads)

lemma processFile_reads: "moves inbox_drops (processFileInboxItem env rid i)"
  unfolding processFileInboxItem_def
  by (intro reads.rules acknowledgeFile_reads finish_file_reads quiet_base [THEN quiet_reads] quiet_small [THEN quiet_reads]
      quiet_parts [THEN quiet_reads] quiet_freshScope [THEN quiet_reads])

subsection \<open>The drain loop\<close>

definition take_message :: "env \<Rightarrow> string \<Rightarrow> inbox_item \<Rightarrow> unit svc" where
  "take_message env rid i = andthen (processInboxItem env rid i) (packet_acknowledgeMessage env rid i)"

lemma until_paused_reads:
  "(\<And>x. moves inbox_drops (f x)) \<Longrightarrow> moves inbox_drops (until_paused env xs f)"
  by (induction xs) (simp_all add: reads.ret_moves, intro reads.rules quiet_small [THEN quiet_reads])

lemma take_message_reads: "moves inbox_drops (take_message env rid i)"
  unfolding take_message_def by (intro reads.rules quiet_processInboxItem [THEN quiet_reads] acknowledge_reads)

lemma take_message_progress:
  assumes nfc: "nfc_laws (e_nfc env)" and w: "world_ok env rid w" and some: "v_inbox w \<noteq> []"
    and run: "take_message env rid i w = (Inr (), w')"
  shows "paused w' \<or> unread_count w' < unread_count w"
proof -
  obtain w1 where p: "processInboxItem env rid i w = (Inr (), w1)" "packet_acknowledgeMessage env rid i w1 = (Inr (), w')"
    using run by (auto simp: take_message_def andthen_def split: prod.splits sum.splits)
  have s: "inbox_same w w1" using movesD [OF quiet_processInboxItem p(1)] .
  obtain r0 where r: "room_inv env rid r0 w" using room_inv_exists [OF w] by blast
  have "world_ok env rid w1" using keepsD [OF keeps_processInboxItem [OF nfc] r p(1)] by (simp add: room_inv_def)
  from acknowledge_progress [OF this _ p(2)] s some
  show ?thesis by (auto simp: inbox_same_def unread_count_def)
qed

lemma until_paused_stops:
  "world_ok env rid w \<Longrightarrow> paused w \<Longrightarrow> until_paused env xs f w = (Inr (), w)"
  by (cases xs) (auto simp: ret_def bnd_def shouldPause_at paused_def)

lemma until_paused_step:
  assumes "world_ok env rid w" and "\<not> paused w" and "until_paused env (x # xs) f w = (Inr (), w')"
  shows "\<exists>w1. f x w = (Inr (), w1) \<and> until_paused env xs f w1 = (Inr (), w')"
  using assms by (auto simp: bnd_def andthen_def shouldPause_at split: prod.splits sum.splits if_splits)

text \<open>A turn over unread messages, and one over unread files, leaves a paused room or less to read.\<close>

lemma messages_progress:
  assumes nfc: "nfc_laws (e_nfc env)" and w: "world_ok env rid w" and some: "v_inbox w \<noteq> []" "ms \<noteq> []"
    and run: "until_paused env ms (take_message env rid) w = (Inr (), w')"
  shows "paused w' \<or> unread_count w' < unread_count w"
proof (cases "paused w")
  case True
  then show ?thesis using until_paused_stops [OF w True, of ms "take_message env rid"] run by simp
next
  case False
  obtain m ms' where ms: "ms = m # ms'" using some(2) by (cases ms) auto
  obtain w1 where f: "take_message env rid m w = (Inr (), w1)" "until_paused env ms' (take_message env rid) w1 = (Inr (), w')"
    using until_paused_step [OF w False run [unfolded ms]] by blast
  have d: "inbox_drops w1 w'" using until_paused_reads [OF take_message_reads] f(2) by (rule movesD)
  obtain r0 where r: "room_inv env rid r0 w" using room_inv_exists [OF w] by blast
  have "keeps (room_inv env rid r0) (take_message env rid m)"
    unfolding take_message_def by (intro keeps_andthen keeps_processInboxItem [OF nfc] keeps_acknowledgeMessage [OF nfc])
  from keepsD [OF this r f(1)] have w1: "world_ok env rid w1" by (simp add: room_inv_def)
  show ?thesis
  proof (cases "paused w1")
    case True
    then show ?thesis using until_paused_stops [OF w1 True, of ms' "take_message env rid"] f(2) by simp
  next
    case False
    then show ?thesis using take_message_progress [OF nfc w some(1) f(1)] drops_count [OF d] by simp
  qed
qed

lemma files_progress:
  assumes w: "world_ok env rid w" and some: "set fs \<subseteq> set (v_files w)" "fs \<noteq> []"
    and run: "until_paused env fs (processFileInboxItem env rid) w = (Inr (), w')"
  shows "paused w' \<or> unread_count w' < unread_count w"
proof (cases "paused w")
  case True
  then show ?thesis using until_paused_stops [OF w True, of fs "processFileInboxItem env rid"] run by simp
next
  case False
  obtain f fs' where fs: "fs = f # fs'" using some(2) by (cases fs) auto
  obtain w1 where p: "processFileInboxItem env rid f w = (Inr (), w1)"
      "until_paused env fs' (processFileInboxItem env rid) w1 = (Inr (), w')"
    using until_paused_step [OF w False run [unfolded fs]] by blast
  have "inbox_drops w1 w'" using until_paused_reads [OF processFile_reads] p(2) by (rule movesD)
  then show ?thesis using processFile_progress [OF p(1)] drops_count some(1) fs by fastforce
qed

partial_function (option) drain_loop :: "env \<Rightarrow> string \<Rightarrow> world \<Rightarrow> ((err + unit) \<times> world) option" where
  "drain_loop env rid w =
     (case bnd (shouldPause env) (\<lambda>p. if p then ret None else
           bnd (shouldPause env) (\<lambda>p. if p then ret None else bnd (unread env) (\<lambda>found. ret (Some found)))) w of
        (Inl e, t) \<Rightarrow> Some (Inl e, t)
      | (Inr None, t) \<Rightarrow> Some (Inr (), t)
      | (Inr (Some (messages, files)), t) \<Rightarrow>
          if messages = [] \<and> files = [] then Some (Inr (), t)
          else
            (case andthen (until_paused env messages (\<lambda>i. andthen (processInboxItem env rid i) (packet_acknowledgeMessage env rid i)))
                (until_paused env files (processFileInboxItem env rid)) t of
               (Inl e, u) \<Rightarrow> Some (Inl e, u)
             | (Inr x, u) \<Rightarrow> drain_loop env rid u))"

definition drain_turn :: "env \<Rightarrow> string \<Rightarrow> inbox_item list \<Rightarrow> file_inbox_item list \<Rightarrow> unit svc" where
  "drain_turn env rid messages files =
     andthen (until_paused env messages (take_message env rid)) (until_paused env files (processFileInboxItem env rid))"

lemma drain_Suc:
  assumes w: "world_ok env rid w"
  shows "drain (Suc n) env rid w =
    (if v_room w = None then (Inl (Storage_error ''room directory does not exist''), w)
     else if paused w then (Inr (), w)
     else
       (case unread env w of
          (Inl e, t) \<Rightarrow> (Inl e, t)
        | (Inr (messages, files), t) \<Rightarrow>
            if messages = [] \<and> files = [] then (Inr (), t)
            else
              (case drain_turn env rid messages files t of
                 (Inl e, u) \<Rightarrow> (Inl e, u)
               | (Inr x, u) \<Rightarrow> drain n env rid u)))"
  by (simp add: bnd_def shouldPause_at [OF w] ret_def andthen_def drain_turn_def take_message_def [abs_def]
      split: prod.split sum.split)

lemma drain_loop_unfold:
  assumes w: "world_ok env rid w"
  shows "drain_loop env rid w =
    (if v_room w = None then Some (Inl (Storage_error ''room directory does not exist''), w)
     else if paused w then Some (Inr (), w)
     else
       (case unread env w of
          (Inl e, t) \<Rightarrow> Some (Inl e, t)
        | (Inr (messages, files), t) \<Rightarrow>
            if messages = [] \<and> files = [] then Some (Inr (), t)
            else
              (case drain_turn env rid messages files t of
                 (Inl e, u) \<Rightarrow> Some (Inl e, u)
               | (Inr x, u) \<Rightarrow> drain_loop env rid u)))"
  by (subst drain_loop.simps) (simp add: bnd_def shouldPause_at [OF w] ret_def andthen_def drain_turn_def
      take_message_def [abs_def] split: prod.split sum.split)

lemma unread_found:
  assumes "unread env w = (Inr (messages, files), t)"
  shows "inbox_same w t \<and> messages = take INTAKE_BATCH_SIZE (v_inbox w) \<and> files = take INTAKE_BATCH_SIZE (v_files w)"
proof -
  obtain x w1 y where l: "sdk env (e_list_messages env) w = (Inr x, w1)" "sdk env (e_list_files env) w1 = (Inr y, t)"
    "messages = take INTAKE_BATCH_SIZE (v_inbox w1)" "files = take INTAKE_BATCH_SIZE (v_files t)"
    using assms by (auto simp: unread_def andthen_def bnd_def gets_def ret_def split: prod.splits sum.splits)
  have "inbox_same w w1" "inbox_same w1 t" using movesD [OF quiet_small(1)] l(1,2) by blast+
  then show ?thesis using l(3,4) by (simp add: inbox_same_def)
qed

text \<open>A turn that found something leaves a paused room or less to read.\<close>

lemma drain_turn_progress:
  assumes nfc: "nfc_laws (e_nfc env)" and w: "world_ok env rid w" and u: "unread env w = (Inr (messages, files), t)"
    and some: "\<not> (messages = [] \<and> files = [])" and run: "drain_turn env rid messages files t = (Inr (), w')"
  shows "world_ok env rid w' \<and> (paused w' \<or> unread_count w' < unread_count w)"
proof -
  obtain r0 where r0: "room_inv env rid r0 w" using room_inv_exists [OF w] by blast
  have r: "room_inv env rid r0 t" using keepsD [OF keeps_unread r0 u] .
  then have t: "world_ok env rid t" by (simp add: room_inv_def)
  obtain w1 where m: "until_paused env messages (take_message env rid) t = (Inr (), w1)"
    and f: "until_paused env files (processFileInboxItem env rid) w1 = (Inr (), w')"
    using run by (auto simp: drain_turn_def andthen_def split: prod.splits sum.splits)
  have km: "keeps (room_inv env rid r0) (until_paused env messages (take_message env rid))"
    unfolding take_message_def
    by (intro keeps_until_paused keeps_andthen keeps_processInboxItem [OF nfc] keeps_acknowledgeMessage [OF nfc])
  have kf: "keeps (room_inv env rid r0) (until_paused env files (processFileInboxItem env rid))"
    by (intro keeps_until_paused keeps_processFileInboxItem [OF nfc])
  have r1: "room_inv env rid r0 w1" using keepsD [OF km r m] .
  then have w1: "world_ok env rid w1" by (simp add: room_inv_def)
  have "world_ok env rid w'" using keepsD [OF kf r1 f] by (simp add: room_inv_def)
  moreover have "paused w' \<or> unread_count w' < unread_count w"
  proof (cases "messages = []")
    case True
    then have "w1 = t" using m by (simp add: ret_def)
    moreover have "set files \<subseteq> set (v_files t)" "unread_count t = unread_count w"
      using unread_found [OF u] by (auto simp: inbox_same_def unread_count_def dest: in_set_takeD)
    ultimately show ?thesis using files_progress [OF t _ _ f [unfolded \<open>w1 = t\<close>]] some True by simp
  next
    case False
    have c: "unread_count t = unread_count w" "v_inbox t \<noteq> []"
      using unread_found [OF u] False by (auto simp: inbox_same_def unread_count_def)
    show ?thesis
    proof (cases "paused w1")
      case True
      then show ?thesis using until_paused_stops [OF w1 True, of files "processFileInboxItem env rid"] f by simp
    next
      case paused: False
      have "inbox_drops w1 w'" using until_paused_reads [OF processFile_reads] f by (rule movesD)
      then show ?thesis using messages_progress [OF nfc t c(2) False m] paused drops_count c(1) by fastforce
    qed
  qed
  ultimately show ?thesis by blast
qed

lemma drain_loop_drain:
  assumes nfc: "nfc_laws (e_nfc env)"
  shows "world_ok env rid w \<Longrightarrow> (if paused w then 0 else unread_count w) < n \<Longrightarrow>
    drain_loop env rid w = Some (drain n env rid w)"
proof (induction n arbitrary: w)
  case (Suc n)
  note unfold = drain_loop_unfold [OF Suc.prems(1)] drain_Suc [OF Suc.prems(1)]
  show ?case
  proof (cases "v_room w = None \<or> paused w")
    case True
    then show ?thesis unfolding unfold by auto
  next
    case False
    obtain x t where u: "unread env w = (x, t)" by force
    show ?thesis
    proof (cases x)
      case (Inl e)
      then show ?thesis unfolding unfold using False u by auto
    next
      case (Inr found)
      obtain messages files where found: "found = (messages, files)" by force
      obtain y v where run: "drain_turn env rid messages files t = (y, v)" by force
      show ?thesis
      proof (cases "(messages = [] \<and> files = []) \<or> (\<exists>e. y = Inl e)")
        case True
        then show ?thesis unfolding unfold using False u Inr found run by auto
      next
        case go: False
        then have y: "y = Inr ()" by (cases y) auto
        have some: "\<not> (messages = [] \<and> files = [])" using go by blast
        have p: "world_ok env rid v \<and> (paused v \<or> unread_count v < unread_count w)"
          by (rule drain_turn_progress [OF nfc Suc.prems(1) _ some]) (use u Inr found run y in simp_all)
        have "messages \<noteq> [] \<or> files \<noteq> []" using some by blast
        then have "0 < unread_count w" using unread_found [of env w messages files t] u Inr found
          by (auto simp: unread_count_def)
        then have "drain_loop env rid v = Some (drain n env rid v)"
          using Suc.IH [of v] p Suc.prems(2) False by (auto split: if_splits)
        then show ?thesis unfolding unfold using False u Inr found run y some by auto
      qed
    qed
  qed
qed simp

partial_function (option) acknowledge_loop ::
  "env \<Rightarrow> string \<Rightarrow> inbox_item \<Rightarrow> world \<Rightarrow> ((err + unit) \<times> world) option" where
  "acknowledge_loop env rid i w =
     (case bnd (load env) (\<lambda>room. if r_state room = Provisioning \<or> lifecycle_pending room then ret None
           else bnd (pull_message env) (\<lambda>pulled. ret pulled)) w of
        (Inl e, t) \<Rightarrow> Some (Inl e, t)
      | (Inr None, t) \<Rightarrow> Some (Inr (), t)
      | (Inr (Some j), t) \<Rightarrow>
          if same_source j i then Some (require (j = i) (Plain_error ''SDK acknowledged message does not match'') t)
          else
            (case processInboxItem env rid j t of
               (Inl e, u) \<Rightarrow> Some (Inl e, u)
             | (Inr x, u) \<Rightarrow> acknowledge_loop env rid i u))"

lemma pull_message_one:
  assumes "pull_message env w = (Inr (Some j), t)"
  shows "length (v_inbox t) < length (v_inbox w)"
proof -
  obtain y w1 where s: "sdk env (e_get_message env) w = (y, w1)" by force
  have "v_inbox w1 = v_inbox w" using movesD [OF quiet_small(1) s] by (simp add: inbox_same_def)
  then have "v_inbox w \<noteq> []" using assms s by (auto simp: pull_message_eq split: sum.splits list.splits)
  then show ?thesis using pull_message_pops [OF assms] by simp
qed

lemma acknowledge_loop_from:
  "length (v_inbox w) < n \<Longrightarrow> acknowledge_loop env rid i w = Some (acknowledge_from n env rid i w)"
proof (induction n arbitrary: w)
  case (Suc n)
  obtain x w1 where l: "load env w = (x, w1)" by force
  have s: "v_inbox w1 = v_inbox w" using movesD [OF quiet_base(5) l] by (simp add: inbox_same_def)
  obtain y w2 where p: "pull_message env w1 = (y, w2)" by force
  show ?case
  proof (cases "\<exists>room j. x = Inr room \<and> \<not> (r_state room = Provisioning \<or> lifecycle_pending room)
      \<and> y = Inr (Some j) \<and> \<not> same_source j i")
    case True
    then obtain room j where h: "x = Inr room" "\<not> (r_state room = Provisioning \<or> lifecycle_pending room)"
      "y = Inr (Some j)" "\<not> same_source j i" by blast
    obtain z w3 where r: "processInboxItem env rid j w2 = (z, w3)" by force
    have "length (v_inbox w3) < n"
      using movesD [OF quiet_processInboxItem r] pull_message_one p h(3) s Suc.prems by (fastforce simp: inbox_same_def)
    then have "acknowledge_loop env rid i w3 = Some (acknowledge_from n env rid i w3)" by (rule Suc.IH)
    then show ?thesis using l p h r
      by (subst acknowledge_loop.simps) (auto simp: bnd_def ret_def andthen_def split: sum.split)
  next
    case False
    then show ?thesis using l p
      by (subst acknowledge_loop.simps)
        (auto simp: bnd_def ret_def require_def raise_def split: sum.split option.split)
  qed
qed simp

text \<open>A drain without arrivals: as long as the inbox does not grow meanwhile and apart from the calls of consumers, draining
  it ends in every well-formed state, whatever the SDK answers: each turn leaves
  fewer unread messages and files, or a paused room that ends it. So does the loop inside a turn that
  acknowledges one message and takes in those that come before it.\<close>

theorem drain_ends:
  assumes "nfc_laws (e_nfc env)" and "world_ok env rid w"
  shows "drain_loop env rid w = Some (drain (Suc (length (v_inbox w) + length (v_files w))) env rid w)
    \<and> acknowledge_loop env rid i w = Some (packet_acknowledgeMessage env rid i w)"
proof
  show "drain_loop env rid w = Some (drain (Suc (length (v_inbox w) + length (v_files w))) env rid w)"
    by (rule drain_loop_drain [OF assms]) (simp add: unread_count_def)
  show "acknowledge_loop env rid i w = Some (packet_acknowledgeMessage env rid i w)"
    by (simp add: packet_acknowledgeMessage_def bnd_def gets_def acknowledge_loop_from del: acknowledge_from.simps)
qed

end
