(* ===== verification/Fallback.thy ===== *)
theory Fallback
  imports Service
begin

section \<open>Queries without an index\<close>

text \<open>
  A store need not offer \<open>query\<close>: \<open>queryStore\<close> in \<open>src/service.ts\<close> and in \<open>src/intake.ts\<close>
  then filter the archive in memory, the service over one read of all of it, the intake over pages
  of 64 that it checks. Both must select what the SQL of \<open>CoworkStore.query\<close> selects, for the
  columns their callers use.
\<close>

definition completed_intents :: "row list \<Rightarrow> kind \<Rightarrow> string list" where
  "completed_intents rows result =
     List.map_filter (\<lambda>v. intent_record_id_of (w_body v)) (filter (\<lambda>v. kind_of (w_body v) = result) rows)"

definition uncompleted :: "row list \<Rightarrow> kind option \<Rightarrow> row list \<Rightarrow> row list" where
  "uncompleted rows result found =
     (case result of None \<Rightarrow> found
      | Some k \<Rightarrow> filter (\<lambda>w. \<not> List.member (completed_intents rows k) (w_record_id w)) found)"

definition ordered_slice :: "query_options \<Rightarrow> row list \<Rightarrow> row list" where
  "ordered_slice q found =
     (let ordered = (if q_descending q then rev found else found) in
      case q_limit q of None \<Rightarrow> ordered | Some n \<Rightarrow> take n ordered)"

definition service_selects :: "query_options \<Rightarrow> row \<Rightarrow> bool" where
  "service_selects q w \<longleftrightarrow>
     (let b = w_body w in
      clause (q_kind q) (Some (kind_of b)) \<and> opt_ok (\<lambda>n. n < w_seq w) (q_after q)
      \<and> clause (q_message_id q) (message_id_of b) \<and> clause (q_file_id q) (file_id_of b)
      \<and> clause (q_intent_record_id q) (intent_record_id_of b) \<and> clause (q_recipient q) (recipient_of b)
      \<and> clause (q_category q) (category_of b) \<and> clause (q_membership_epoch q) (membership_epoch_of b))"

definition service_queryStore :: "archive \<Rightarrow> query_options \<Rightarrow> row list" where
  "service_queryStore ar q =
     ordered_slice q (uncompleted (a_rows ar) (q_unresolved_by q) (filter (service_selects q) (a_rows ar)))"

definition intake_selects :: "query_options \<Rightarrow> row \<Rightarrow> bool" where
  "intake_selects q w \<longleftrightarrow>
     (let b = w_body w in
      opt_ok (\<lambda>n. n < w_seq w) (q_after q) \<and> clause (q_kind q) (Some (kind_of b))
      \<and> clause (q_message_id q) (message_id_of b) \<and> clause (q_file_id q) (file_id_of b)
      \<and> clause (q_source_msg_id q) (source_msg_id_of b) \<and> clause (q_source_file_id q) (source_file_id_of b)
      \<and> clause (q_recipient q) (recipient_of b))"

fun advances :: "string \<Rightarrow> nat \<Rightarrow> row list \<Rightarrow> bool" where
  "advances rid after [] = True"
| "advances rid after (w # ws) = (w_room_id w = rid \<and> after < w_seq w \<and> advances rid (w_seq w) ws)"

definition intake_queryStore :: "archive \<Rightarrow> string \<Rightarrow> query_options \<Rightarrow> err + row list" where
  "intake_queryStore ar rid q =
     (case read_pages JOURNAL_WORK_BATCH_SIZE (\<lambda>after page. \<not> advances rid after page) ar 0 [] of
        Inl e \<Rightarrow> Inl e
      | Inr rows \<Rightarrow> Inr (ordered_slice q (uncompleted rows (q_unresolved_by q) (filter (intake_selects q) rows))))"

subsection \<open>They agree with the store\<close>

lemma uncompleted_eq: "uncompleted rows result found = filter (\<lambda>w. opt_ok (\<lambda>k. unresolved rows k w) result) found"
proof (cases result)
  case (Some k)
  have "List.member (completed_intents rows k) (w_record_id w) \<longleftrightarrow> \<not> unresolved rows k w" for w
    by (auto simp: completed_intents_def unresolved_def list_ex_iff set_map_filter)
  then show ?thesis using Some by (auto simp: uncompleted_def intro: filter_cong)
qed (simp add: uncompleted_def)

lemma ordered_slice_query: "ordered_slice q (filter (query_where (a_rows ar) q) (a_rows ar)) = query_rows ar q"
  by (simp add: ordered_slice_def query_rows_def Let_def)

text \<open>Without an index the service finds the same records in the same order as the store's query does,
  for every query that does not select by source id.\<close>

theorem service_fallback_agrees:
  assumes "q_source_msg_id q = None" and "q_source_file_id q = None"
  shows "service_queryStore ar q = query_rows ar q"
proof -
  have "uncompleted (a_rows ar) (q_unresolved_by q) (filter (service_selects q) (a_rows ar))
      = filter (query_where (a_rows ar) q) (a_rows ar)"
    unfolding uncompleted_eq using assms
    by (auto simp: service_selects_def query_where_def clause_def Let_def intro: filter_cong)
  then show ?thesis by (simp add: service_queryStore_def ordered_slice_query)
qed

lemma sorted_advances:
  "sorted_wrt (<) (map w_seq ws) \<Longrightarrow> \<forall>w\<in>set ws. w_room_id w = rid \<and> after < w_seq w \<Longrightarrow> advances rid after ws"
  by (induction ws arbitrary: after) auto

text \<open>Without an index the intake, reading in checked pages of 64, finds the same records in the same order
  as the store's query does, for every query that does not select by intent, category or epoch; its
  cursor check never fails on a well-formed archive.\<close>

theorem intake_fallback_agrees:
  assumes ok: "archive_ok sha rid ar"
    and q: "q_intent_record_id q = None" "q_category q = None" "q_membership_epoch q = None"
  shows "intake_queryStore ar rid q = Inr (query_rows ar q)"
proof -
  have adv: "advances rid after (read_rows ar after JOURNAL_WORK_BATCH_SIZE)" for after
  proof (rule sorted_advances)
    show "sorted_wrt (<) (map w_seq (read_rows ar after JOURNAL_WORK_BATCH_SIZE))"
      using archive_ascending [OF ok] unfolding read_rows_def take_map [symmetric]
      by (intro sorted_wrt_take) (simp add: sorted_wrt_map sorted_wrt_filter)
    show "\<forall>w\<in>set (read_rows ar after JOURNAL_WORK_BATCH_SIZE). w_room_id w = rid \<and> after < w_seq w"
      using archive_rooms [OF ok] by (auto simp: read_rows_def dest!: in_set_takeD)
  qed
  have "read_pages JOURNAL_WORK_BATCH_SIZE (\<lambda>after page. \<not> advances rid after page) ar 0 [] = Inr (a_rows ar)"
    using read_pages_complete [OF ok, of JOURNAL_WORK_BATCH_SIZE "\<lambda>after page. \<not> advances rid after page" 0 "[]"]
      adv all_after_zero [OF ok] by (simp add: JOURNAL_WORK_BATCH_SIZE_def)
  moreover have "uncompleted (a_rows ar) (q_unresolved_by q) (filter (intake_selects q) (a_rows ar))
      = filter (query_where (a_rows ar) q) (a_rows ar)"
    unfolding uncompleted_eq using q
    by (auto simp: intake_selects_def query_where_def clause_def Let_def intro: filter_cong)
  ultimately show ?thesis by (simp add: intake_queryStore_def ordered_slice_query)
qed

end
