(* ===== verification/Samples.thy ===== *)
theory Samples
  imports Relay Invites
begin

section \<open>A sample room\<close>

text \<open>
  One concrete room, its archive and the answers of its daemon, on which the closed instances of
  the properties are evaluated: an anonymous active room with two active participants and one who
  was removed, holding a private thread with one reply whose relay to the thread's creator is still
  to be made.
\<close>

definition sha_0 :: "string \<Rightarrow> string" where
  "sha_0 s = replicate 64 CHR ''0''"

definition recode :: "string \<Rightarrow> string" where
  "recode s = of_cps (cps s)"

lemma recode_laws: "nfc_laws recode"
  using recode_nfc_laws by (simp add: recode_def [abs_def])

definition rid_0 :: string where
  "rid_0 = ''01arz3ndektsv4rrffq69g5fav''"

text \<open>The \<open>n\<close>-th sample identifier and CID.\<close>

definition ident :: "nat \<Rightarrow> string" where
  "ident n = ''01arz3ndektsv4rrffq69g5f'' @ [char_of (48 + n div 10 mod 10), char_of (48 + n mod 10)]"

definition cid :: "char \<Rightarrow> string" where
  "cid c = replicate 64 c"

definition at_0 :: string where
  "at_0 = ''2024-05-01T10:00:00Z''"

definition sample_seat :: "char \<Rightarrow> nat \<Rightarrow> string \<Rightarrow> seat_state \<Rightarrow> seat" where
  "sample_seat c n role st =
     \<lparr>s_identity = cid c, s_display_name = [c], s_role = role, s_invite_id = ''invite-1'',
      s_accepted_at = Some at_0, s_requested_at = None, s_invite_sha256 = None, s_participant_id = ident n,
      s_state = st, s_alias = Some (role @ '' #'' @ show_nat n), s_removal_reason = None,
      s_removed_at = (if st = Seat_removed then Some at_0 else None),
      s_removed_epoch = (if st = Seat_removed then Some 3 else None), s_bounced_at = None\<rparr>"

definition sample_invite :: invite where
  "sample_invite =
     \<lparr>i_invite_id = ''invite-1'', i_mode = Public, i_role = ''Participant'', i_min_accepts = 1,
      i_accepted_cids = [cid CHR ''A'', cid CHR ''B'', cid CHR ''C''], i_state = Live, i_recovery_of = None,
      i_recovery_confirmed = None, i_created_at = at_0\<rparr>"

definition sample_room :: room where
  "sample_room =
     \<lparr>r_room_id = rid_0, r_room_name = ''Ship it'', r_identity_name = ''ours-cowork:Ship it'', r_identity_cid = cid CHR ''F'',
      r_state = Room_active, r_activation_requirements = None, r_status = None, r_invites = [sample_invite],
      r_created_at = at_0, r_activated_at = Some at_0, r_closed_at = None,
      r_mission = \<lparr>mi_goal = ''ship'', mi_briefing = ''welcome'', mi_briefing_version = 1\<rparr>,
      r_role_briefings = [], r_rest_roles = [''reviewer''],
      r_command_grants = [\<lparr>g_caller_cid = cid CHR ''A'', g_command = ''*''\<rparr>],
      r_consumer_commands = None, r_consumer_commands_revision = None, r_lifecycle_request = None,
      r_role_command_grants = [], r_anonymous = True, r_quiet_membership = False, r_membership_epoch = 3,
      r_seats = [sample_seat CHR ''A'' 1 ''Participant'' Seat_active, sample_seat CHR ''B'' 2 ''Participant'' Seat_active,
                 sample_seat CHR ''C'' 3 ''Participant'' Seat_removed]\<rparr>"

lemma sample_room_parse: "RoomSchema_parse recode sample_room = Inr sample_room"
  by code_simp

definition sample_author :: "char \<Rightarrow> author" where
  "sample_author c = \<lparr>a_identity = cid c, a_display_name = [c], a_role = ''Participant''\<rparr>"

definition sample_alias :: "nat \<Rightarrow> author_alias option" where
  "sample_alias n = Some \<lparr>al_participant_id = ident n, al_alias = ''Participant #'' @ show_nat n\<rparr>"

definition sample_root :: thread_root where
  "sample_root =
     \<lparr>tr_thread_id = ident 20, tr_topic = ''Plan'', tr_creator_participant_id = ident 1,
      tr_members = [\<lparr>tm_participant_id = ident 1, tm_identity = cid CHR ''A''\<rparr>,
                    \<lparr>tm_participant_id = ident 2, tm_identity = cid CHR ''B''\<rparr>],
      tr_idempotency_key = ''k1'', tr_fingerprint = sha_0 []\<rparr>"

definition sample_root_message :: message where
  "sample_root_message =
     \<lparr>m_message_id = ident 20, m_author = sample_author CHR ''A'', m_author_alias = sample_alias 1, m_category = Chat,
      m_briefing_role = None, m_briefing_version = None, m_membership = None, m_text = ''Thread: Plan'',
      m_recipients = [cid CHR ''A'', cid CHR ''B''], m_source_msg_id = None, m_source_wire_id = None,
      m_source_reply_to = None, m_scope = Some \<lparr>sc_thread_id = ident 20, sc_parent_key = None\<rparr>,
      m_thread_root = Some sample_root\<rparr>"

definition sample_reply :: message where
  "sample_reply =
     \<lparr>m_message_id = ident 21, m_author = sample_author CHR ''B'', m_author_alias = sample_alias 2, m_category = Chat,
      m_briefing_role = None, m_briefing_version = None, m_membership = None, m_text = ''on it'',
      m_recipients = [cid CHR ''A''], m_source_msg_id = Some 7, m_source_wire_id = Some ''from-b-7'',
      m_source_reply_to = Some \<lparr>rr_wire_id = ''to-b-1'', rr_sentence = None\<rparr>,
      m_scope = Some \<lparr>sc_thread_id = ident 20, sc_parent_key = Some (''message:'' @ ident 20)\<rparr>,
      m_thread_root = None\<rparr>"

definition sample_result :: "nat \<Rightarrow> char \<Rightarrow> string \<Rightarrow> body" where
  "sample_result n c wire =
     Relay_result \<lparr>rs_intent_record_id = record_id_of rid_0 n, rs_message_id = Some (ident 20), rs_file_id = None,
       rs_recipient = cid c, rs_status = Queued, rs_wire_id = Some wire, rs_metadata_wire_id = None\<rparr>"

definition sample_bodies :: "body list" where
  "sample_bodies =
     [Message sample_root_message, message_intent (ident 20) (cid CHR ''A''), message_intent (ident 20) (cid CHR ''B''),
      sample_result 2 CHR ''A'' ''to-a-1'', sample_result 3 CHR ''B'' ''to-b-1'',
      Message sample_reply, message_intent (ident 21) (cid CHR ''A'')]"

fun archived :: "body list \<Rightarrow> archive \<Rightarrow> archive" where
  "archived [] ar = ar"
| "archived (b # bs) ar =
     archived bs (snd (archive_append sha_0 rid_0 \<lparr>d_room_id = rid_0, d_at = at_0, d_body = b\<rparr> ar))"

definition sample_row :: "nat \<Rightarrow> body \<Rightarrow> row" where
  "sample_row n b = \<lparr>w_room_id = rid_0, w_seq = n, w_record_id = record_id_of rid_0 n, w_at = at_0, w_body = b\<rparr>"

definition sample_rows :: "row list" where
  "sample_rows = map2 sample_row [1, 2, 3, 4, 5, 6, 7] sample_bodies"

definition sample_archive :: archive where
  "sample_archive = \<lparr>a_rows = sample_rows, a_work = []\<rparr>"

lemma archived_ok: "archive_ok sha_0 rid_0 ar \<Longrightarrow> archive_ok sha_0 rid_0 (archived bs ar)"
proof (induction bs arbitrary: ar)
  case (Cons b bs)
  obtain r ar' where "archive_append sha_0 rid_0 \<lparr>d_room_id = rid_0, d_at = at_0, d_body = b\<rparr> ar = (r, ar')" by force
  then show ?case using Cons archive_append_ok by simp
qed simp

lemma sample_archived: "archived sample_bodies empty_archive = sample_archive"
  by code_simp

lemma sample_archive_ok: "archive_ok sha_0 rid_0 sample_archive"
  unfolding sample_archived [symmetric] by (rule archived_ok) (rule empty_archive_ok)

text \<open>A daemon that answers every call, with identifiers taken from the tick.\<close>

definition sample_env :: env where
  "sample_env =
     \<lparr>e_nfc = recode, e_sha = sha_0, e_datetime_ok = isStrictRfc3339, e_now = (\<lambda>t. at_0), e_ulid = (\<lambda>t. ident (t + 30)),
      e_list_contacts = (\<lambda>t. Inr ([(cid CHR ''A'', ''A''), (cid CHR ''B'', ''B'')], Some [])),
      e_list_invites = (\<lambda>t. Inr [(''invite-1'', Some Public)]), e_choose_identity = (\<lambda>t. Inr (cid CHR ''F'')),
      e_generate_invite = (\<lambda>t mode. Inr (''blob'', ''invite-2'')), e_add_contact = (\<lambda>t blob. Inr (cid CHR ''D'', ''D'')),
      e_revoke_invite = (\<lambda>t i. Inr True), e_remove_contact = (\<lambda>t c. Inr True),
      e_send = (\<lambda>t c b reply. Inr (Queued, Some ''wire'')),
      e_send_file = (\<lambda>t c f m b reply. Inr (Queued, Some ''wire'')), e_register = (\<lambda>t. Inr ()),
      e_local_definitions = (\<lambda>t. Inr []), e_validate_definition = (\<lambda>d. True), e_collate = (\<lambda>s. s),
      e_list_messages = (\<lambda>t. Inr ()), e_list_files = (\<lambda>t. Inr ()), e_get_message = (\<lambda>t. Inr ()),
      e_get_file = (\<lambda>t. Inr ()), e_destroy = (\<lambda>t. Inr ()), e_identity_names = (\<lambda>t. Inr []),
      e_create = (\<lambda>t name. Inr (cid CHR ''F'')), e_restore = (\<lambda>t name c. Inr c)\<rparr>"

definition sample_world :: world where
  "sample_world =
     \<lparr>v_room = Some sample_room, v_archive = sample_archive, v_hosted = True, v_cid = cid CHR ''F'',
      v_contacts = [\<lparr>k_container_id = cid CHR ''A'', k_name = ''A'', k_via_invite_id = None\<rparr>,
                    \<lparr>k_container_id = cid CHR ''B'', k_name = ''B'', k_via_invite_id = None\<rparr>],
      v_core_invites = [\<lparr>ci_invite_id = ''invite-1'', ci_mode = Public\<rparr>], v_provenance = True, v_published = Some 0,
      v_inbox = [], v_files = [], v_sent = [], v_tick = 0\<rparr>"

lemma sample_world_ok: "world_ok sample_env rid_0 sample_world"
  using sample_archive_ok sample_room_parse
  by (simp add: world_ok_def sample_env_def sample_world_def sample_room_def)

end
