(* ===== verification/Witnesses.thy ===== *)
theory Witnesses
  imports Samples
begin

section \<open>The properties of replies, threads and history at the sample room\<close>

text \<open>Each lemma applies one property to the sample room and its archive.\<close>

definition sample_at :: "nat \<Rightarrow> row" where
  "sample_at n = sample_rows ! n"

lemma resolved_parent_witness:
  "sample_at 0 \<in> set sample_rows \<and> w_seq (sample_at 0) < 6
   \<and> resolveReplyParent sample_rows rid_0 (cid CHR ''B'') (Some ''to-b-1'') 6
       = Resolved (''message:'' @ ident 20) (sample_at 0)"
proof -
  have h: "resolveReplyParent sample_rows rid_0 (cid CHR ''B'') (Some ''to-b-1'') 6
      = Resolved (''message:'' @ ident 20) (sample_at 0)" by code_simp
  show ?thesis using resolved_parent_known_to_sender [OF h] h by simp
qed

lemma linked_reply_witness:
  "resolveReplyParent sample_rows rid_0 (cid CHR ''A'') (Some ''to-a-1'') 6
     = Resolved (''message:'' @ ident 20) (sample_at 0)"
proof -
  have h: "mapReplyParent sample_rows rid_0 (''message:'' @ ident 20) (sample_at 0) (cid CHR ''A'')
      = Linked (''message:'' @ ident 20) ''to-a-1''" by code_simp
  have f: "filter (\<lambda>i. record_key (w_body i) = Some (''message:'' @ ident 20)) (items (local_rows sample_rows rid_0))
      = [sample_at 0]" by code_simp
  have "w_seq (sample_at 0) < 6" by code_simp
  then show ?thesis using linked_reply_resolves_back [OF h] f by auto
qed

definition sample_ref :: inbox_ref where
  "sample_ref = \<lparr>ib_sender_id = cid CHR ''B'', ib_is_file = False,
     ib_reply_to = Some \<lparr>rt_wire_id = ''to-b-1'', rt_sentence = None\<rparr>\<rparr>"

lemma intake_recipients_witness:
  "distinct [cid CHR ''A''] \<and> is_active_cid sample_room (cid CHR ''A'')"
proof -
  have h: "resolveIntakeScope sample_room sample_rows sample_ref 8
      = Inr ([cid CHR ''A''], Some \<lparr>sc_thread_id = ident 20, sc_parent_key = Some (''message:'' @ ident 20)\<rparr>)"
    by code_simp
  show ?thesis using intake_recipients [OF h] by simp
qed

definition sample_request :: start_thread_input where
  "sample_request = \<lparr>st_topic = ''Plan'', st_participant_ids = [ident 2, ident 1], st_idempotency_key = ''k2''\<rparr>"

definition sample_page :: "history_record list" where
  "sample_page = (case projectParticipantHistory sample_room sample_rows (cid CHR ''B'') None None of Inr p \<Rightarrow> p | Inl e \<Rightarrow> [])"

lemma sample_page_eq: "projectParticipantHistory sample_room sample_rows (cid CHR ''B'') None None = Inr sample_page"
  and sample_page_length: "length sample_page = 2"
proof -
  have "case projectParticipantHistory sample_room sample_rows (cid CHR ''B'') None None of Inr p \<Rightarrow> length p = 2 | Inl e \<Rightarrow> False"
    by code_simp
  then show "projectParticipantHistory sample_room sample_rows (cid CHR ''B'') None None = Inr sample_page" "length sample_page = 2"
    by (simp_all add: sample_page_def split: sum.splits)
qed

lemma history_confidential_witness:
  "\<exists>w\<in>set sample_rows. \<exists>m. w_body w = Message m \<and> h_message_id (hd sample_page) = m_message_id m"
proof -
  have "hd sample_page \<in> set sample_page" using sample_page_length by (metis hd_in_set length_0_conv zero_neq_numeral)
  from history_is_confidential [OF sample_page_eq this] show ?thesis by blast
qed

end
