(* ===== verification/Scenarios.thy ===== *)
theory Scenarios
  imports Termination Fallback Witnesses
begin

section \<open>The properties of the service at the sample room\<close>

text \<open>
  Each lemma applies one property of the operations to a run in the sample room. What a run
  returns is evaluated on the definitions themselves.
\<close>

definition succeeds :: "'a svc \<Rightarrow> world \<Rightarrow> bool" where
  "succeeds m w \<longleftrightarrow> (case fst (m w) of Inr x \<Rightarrow> True | Inl e \<Rightarrow> False)"

lemma succeedsE:
  assumes "succeeds m w"
  obtains x w' where "m w = (Inr x, w')"
  using assms by (cases "m w") (auto simp: succeeds_def split: sum.splits)

definition sample_unpack :: "string \<Rightarrow> string option" where
  "sample_unpack blob = Some blob"

lemma sample_room_loaded [simp]: "v_room sample_world = Some sample_room"
  by (simp add: sample_world_def)

lemma sample_nfc: "nfc_laws (e_nfc sample_env)"
  by (simp add: sample_env_def recode_laws)

subsection \<open>Reading and refusing\<close>

lemma participant_history_witness:
  "participantHistory sample_env rid_0 (cid CHR ''C'') None (Some 5) sample_world = (Inl (Thread_failure Unauthorized), sample_world)"
proof -
  have n: "\<not> is_active_cid sample_room (cid CHR ''C'')" by code_simp
  have p: "opt_ok nonneg_safe None" "opt_ok positive_safe (Some 5)" by code_simp+
  show ?thesis using participant_history_complete [OF sample_world_ok sample_room_loaded p] n by simp
qed

definition closed_world :: world where
  "closed_world = sample_world\<lparr>v_room := Some (sample_room\<lparr>r_state := Closed, r_closed_at := Some at_0\<rparr>), v_hosted := False\<rparr>"

lemma closed_world_ok: "world_ok sample_env rid_0 closed_world"
proof -
  have "RoomSchema_parse recode (sample_room\<lparr>r_state := Closed, r_closed_at := Some at_0\<rparr>)
      = Inr (sample_room\<lparr>r_state := Closed, r_closed_at := Some at_0\<rparr>)" by code_simp
  then show ?thesis using sample_archive_ok
    by (simp add: world_ok_def closed_world_def sample_world_def sample_env_def sample_room_def)
qed

lemma closing_room_witness:
  "\<exists>e. serve sample_unpack False sample_env rid_0 (Say ''hello'') closed_world = (Inl e, closed_world)"
proof -
  have closed: "v_room closed_world = Some (sample_room\<lparr>r_state := Closed, r_closed_at := Some at_0\<rparr>)"
    by (simp add: closed_world_def)
  have q: "\<not> reads_only (Say ''hello'') \<and> \<not> ends_room (Say ''hello'')" by simp
  have "r_state (sample_room\<lparr>r_state := Closed, r_closed_at := Some at_0\<rparr>) = Closed" by simp
  note refuses = closing_room_refuses [OF sample_nfc closed_world_ok closed disjI2 [OF this],
    where q = "Say ''hello''" and unpack = sample_unpack and pumping = False]
  from refuses [THEN conjunct2, THEN conjunct1, THEN mp, OF q] show ?thesis .
qed

lemma unauthorized_witness:
  "(\<exists>code. sharedCommandUnlocked sample_unpack sample_env rid_0 ''room.close'' (J_obj []) (cid CHR ''B'') ''w-1'' sample_world
     = (Inr (Refused code), sample_world))
   \<and> (\<exists>e. listMembersCommandUnlocked sample_env (cid CHR ''Z'') sample_world = (Inr (Inl e), sample_world))"
proof -
  have "\<not> hasRuntimeCommandGrant sample_room (cid CHR ''B'') ''room.close''" "\<not> is_active_cid sample_room (cid CHR ''Z'')"
    by code_simp+
  then have "\<not> granted sample_room (cid CHR ''B'') ''room.close''" "\<not> granted sample_room (cid CHR ''Z'') ''list-members''"
    by (simp_all add: granted_def)
  then show ?thesis
    using unauthorized_command_refused [OF sample_world_ok sample_room_loaded] by blast
qed

subsection \<open>Members\<close>

lemma removal_witness:
  "\<exists>room'. v_room (snd (removeParticipant sample_env (ident 1) None sample_world)) = Some room'
     \<and> left_room sample_room (sample_seat CHR ''A'' 1 ''Participant'' Seat_active) room'"
proof -
  have s: "succeeds (removeParticipant sample_env (ident 1) None) sample_world" by code_simp
  have f: "findSeatForRemoval sample_room (ident 1) = Inr (sample_seat CHR ''A'' 1 ''Participant'' Seat_active)" by code_simp
  from s obtain rc w' where r: "removeParticipant sample_env (ident 1) None sample_world = (Inr rc, w')" by (rule succeedsE)
  have "s_state (sample_seat CHR ''A'' 1 ''Participant'' Seat_active) = Seat_active" by (simp add: sample_seat_def)
  from removal_revokes [OF sample_world_ok sample_room_loaded f this r] r show ?thesis by auto
qed

definition newcomer :: contact where
  "newcomer = \<lparr>k_container_id = cid CHR ''D'', k_name = ''D'', k_via_invite_id = Some ''invite-1''\<rparr>"

definition admitted :: "seat list" where
  "admitted =
     (case fst (admit_contacts sample_env True sample_room (r_seats sample_room) [newcomer] [] sample_world) of
        Inr added \<Rightarrow> added | Inl e \<Rightarrow> [])"

lemma admitted_run:
  "admit_contacts sample_env True sample_room (r_seats sample_room) [newcomer] [] sample_world
     = (Inr admitted, snd (admit_contacts sample_env True sample_room (r_seats sample_room) [newcomer] [] sample_world))"
proof -
  have "succeeds (admit_contacts sample_env True sample_room (r_seats sample_room) [newcomer] []) sample_world" by code_simp
  then show ?thesis by (rule succeedsE) (simp add: admitted_def)
qed

lemma admission_witness: "admitted_by sample_room newcomer (hd admitted)"
proof -
  have "length admitted = 1" by code_simp
  then have "hd admitted \<in> set admitted" by (intro hd_in_set) auto
  from admission_needs_invite [OF admitted_run this] show ?thesis by simp
qed

lemma aliases_witness: "distinct (map s_alias (r_seats sample_room @ admitted))"
proof -
  have "\<forall>n<3. s_alias (r_seats sample_room ! n)
      = Some (mintAlias (take n (r_seats sample_room)) (s_role (r_seats sample_room ! n)))" by code_simp
  then have "aliases_minted (r_seats sample_room)" by (simp add: aliases_minted_def sample_room_def)
  from aliases_stay_distinct [OF admitted_run _ this] show ?thesis by (simp add: sample_room_def)
qed

subsection \<open>Delivery\<close>

lemma fanout_witness:
  "\<not> awaits_intent (a_rows (v_archive (snd (completeSnapshotIntents sample_env rid_0 sample_world)))) 6 (cid CHR ''A'')"
proof -
  have "succeeds (completeSnapshotIntents sample_env rid_0) sample_world" by code_simp
  then obtain w' where "completeSnapshotIntents sample_env rid_0 sample_world = (Inr (), w')"
    by (rule succeedsE) simp
  then show ?thesis using fanout_complete [OF sample_world_ok] by auto
qed

definition sample_item :: inbox_item where
  "sample_item = \<lparr>in_msg_id = 8, in_sender_id = cid CHR ''B'', in_sender_name = ''B'', in_text = ''done'', in_date = at_0,
     in_wire_id = ''from-b-8'', in_reply_to = None\<rparr>"

lemma drain_witness:
  "drain_loop sample_env rid_0 (arrived sample_item sample_world) = Some (drain 2 sample_env rid_0 (arrived sample_item sample_world))"
proof -
  have "world_ok sample_env rid_0 (arrived sample_item sample_world)"
    using sample_world_ok by (simp add: world_ok_def arrived_def)
  moreover have "v_inbox (arrived sample_item sample_world) = [sample_item]" "v_files (arrived sample_item sample_world) = []"
    by (simp_all add: arrived_def sample_world_def)
  ultimately show ?thesis using drain_ends [OF sample_nfc] by (simp add: numeral_2_eq_2 del: drain.simps)
qed

definition sample_intent :: relay_intent where
  "sample_intent = \<lparr>ri_message_id = Some (ident 21), ri_file_id = None, ri_recipient = cid CHR ''A''\<rparr>"

lemma relay_recipient_witness:
  "\<exists>new. v_sent (snd (relay_one sample_env sample_room (sample_at 6) None sample_world)) = v_sent sample_world @ new
     \<and> length new = 1 \<and> (\<forall>x\<in>set new. x_recipient x = cid CHR ''A'')"
proof -
  have i: "w_body (sample_at 6) = Relay_intent sample_intent" by code_simp
  obtain r w' where r: "relay_one sample_env sample_room (sample_at 6) None sample_world = (r, w')" by force
  have n: "length (v_sent (snd (relay_one sample_env sample_room (sample_at 6) None sample_world))) = 1" by code_simp
  have e: "v_sent sample_world = []" by (simp add: sample_world_def)
  from relay_sends_to_recipient [OF i r] obtain new
    where "v_sent w' = v_sent sample_world @ new" "\<forall>x\<in>set new. x_recipient x = ri_recipient sample_intent" by blast
  then show ?thesis using n r by (intro exI [of _ new]) (simp add: sample_intent_def e)
qed

lemma relay_author_witness:
  "\<exists>new. v_sent (snd (relay_one sample_env sample_room (sample_at 6) None sample_world)) = v_sent sample_world @ new
     \<and> length new = 1 \<and> (\<forall>x\<in>set new. \<exists>src\<in>set sample_rows. item_named sample_intent src
          \<and> hidden_in sample_room sample_rows src (x_payload x))"
proof -
  have i: "w_body (sample_at 6) = Relay_intent sample_intent" by code_simp
  have anon: "r_anonymous sample_room" by code_simp
  obtain r w' where r: "relay_one sample_env sample_room (sample_at 6) None sample_world = (r, w')" by force
  have n: "length (v_sent (snd (relay_one sample_env sample_room (sample_at 6) None sample_world))) = 1" by code_simp
  have e: "v_sent sample_world = []" "a_rows (v_archive sample_world) = sample_rows"
    by (simp_all add: sample_world_def sample_archive_def)
  from relay_hides_author [OF anon i r] show ?thesis using n r by (auto simp: e)
qed

subsection \<open>Closing, deleting, starting a thread again\<close>

lemma closing_witness: "\<not> v_hosted (snd (closeRoom sample_env rid_0 sample_world))"
proof -
  have "succeeds (closeRoom sample_env rid_0) sample_world" by code_simp
  then obtain r w' where r: "closeRoom sample_env rid_0 sample_world = (Inr r, w')" by (rule succeedsE)
  have "r_state sample_room \<noteq> Closed" by (simp add: sample_room_def)
  from closing_completes [OF sample_nfc sample_world_ok sample_room_loaded this r] show ?thesis by (simp add: r)
qed

lemma delete_witness: "v_room (snd (deleteRoom sample_env rid_0 True sample_world)) = None"
proof -
  have "succeeds (deleteRoom sample_env rid_0 True) sample_world" by code_simp
  then obtain r w' where r: "deleteRoom sample_env rid_0 True sample_world = (Inr r, w')" by (rule succeedsE)
  from delete_all_or_nothing [OF sample_world_ok sample_room_loaded r] show ?thesis by (simp add: r)
qed

definition thread_run :: "(err + command_error + string) \<times> world" where
  "thread_run = startThreadCommandUnlocked sample_env (cid CHR ''A'') sample_request sample_world"

lemma start_thread_witness:
  "\<exists>tid. startThreadCommandUnlocked sample_env (cid CHR ''A'') sample_request (snd thread_run) = (Inr (Inr tid), snd thread_run)"
proof -
  have "case fst thread_run of Inr (Inr tid) \<Rightarrow> True | _ \<Rightarrow> False" by code_simp
  then obtain tid where "startThreadCommandUnlocked sample_env (cid CHR ''A'') sample_request sample_world
      = (Inr (Inr tid), snd thread_run)"
    unfolding thread_run_def by (cases "startThreadCommandUnlocked sample_env (cid CHR ''A'') sample_request sample_world")
      (auto split: sum.splits)
  from start_thread_replays [OF sample_world_ok this] show ?thesis by blast
qed

end
