(* ===== verification/Pump.thy ===== *)
theory Pump
  imports Prelude "HOL-Library.Multiset"
begin

section \<open>Coalescing the wakeups of a room\<close>

text \<open>
  \<open>IntakePump\<close> of \<open>intake.ts\<close>, for one room: \<open>notify\<close>, \<open>pump\<close> and \<open>resumePending\<close> coalesce requests
  onto at most one running pump and at most one notification worker. JavaScript runs a handler up to
  its next \<open>await\<close> without interleaving, so an event below is one such stretch: a call of an entry
  point, the end of a turn of the pump (\<open>drainAndRelay\<close> and \<open>afterPump\<close>, whose work is the subject of
  \<open>Relay\<close>), the \<open>finally\<close> block that follows the loop in a stretch of its own, or the worker resuming
  after the pump it awaited.

  A call made from inside a turn inherits the turn's asynchronous scope; \<open>scope\<close> is the run it
  inherited. Every request has a number, and the lists of numbers (not in the code) say who answers
  for it: the turn in progress, the next turn (\<open>run.dirty\<close>) or the worker (\<open>worker.dirty\<close>).
\<close>

datatype wait = On nat | Returned | Failed

datatype phase = Turning | Leaving bool

datatype loss = Turn_failed | Not_hosted | Stopping | Left_behind

record run =
  n_id :: nat
  n_dirty :: bool
  n_phase :: phase
  n_turn :: "nat list"
  n_next :: "nat list"

record worker =
  k_dirty :: bool
  k_scope :: "nat option"
  k_wait :: wait
  k_holds :: "nat list"

record pumping =
  i_accepting :: bool
  i_hosted :: bool
  i_pump :: "run option"
  i_worker :: "worker option"
  i_runs :: nat
  i_requests :: nat
  i_served :: "nat list"
  i_lost :: "(loss \<times> nat) list"

subsection \<open>The operations\<close>

definition lose :: "loss \<Rightarrow> nat list \<Rightarrow> pumping \<Rightarrow> pumping" where
  "lose why ns p = p\<lparr>i_lost := i_lost p @ map (Pair why) ns\<rparr>"

definition pump_room :: "nat option \<Rightarrow> nat list \<Rightarrow> pumping \<Rightarrow> wait \<times> pumping" where
  "pump_room scope ns p =
     (if \<not> i_hosted p then (Returned, lose Not_hosted ns p) else
      case i_pump p of
        Some r \<Rightarrow>
          (if scope = Some (n_id r) then Returned else On (n_id r),
           p\<lparr>i_pump := Some (r\<lparr>n_dirty := True, n_next := n_next r @ ns\<rparr>)\<rparr>)
      | None \<Rightarrow>
          (On (i_runs p),
           p\<lparr>i_pump := Some \<lparr>n_id = i_runs p, n_dirty = False, n_phase = Turning, n_turn = ns, n_next = []\<rparr>,
             i_runs := Suc (i_runs p)\<rparr>))"

definition resume_pending :: "nat option \<Rightarrow> nat list \<Rightarrow> pumping \<Rightarrow> pumping" where
  "resume_pending scope ns p =
     (case i_pump p of
        Some r \<Rightarrow> p\<lparr>i_pump := Some (r\<lparr>n_dirty := True, n_next := n_next r @ ns\<rparr>)\<rparr>
      | None \<Rightarrow> snd (pump_room scope ns p))"

text \<open>One round of the worker's loop: clear the flag and call the pump.\<close>

definition worker_round :: "nat option \<Rightarrow> nat list \<Rightarrow> pumping \<Rightarrow> pumping" where
  "worker_round scope ns p =
     (case pump_room scope ns p of (w, p') \<Rightarrow>
        p'\<lparr>i_worker := Some \<lparr>k_dirty = False, k_scope = scope, k_wait = w, k_holds = []\<rparr>\<rparr>)"

definition notify :: "nat option \<Rightarrow> nat list \<Rightarrow> pumping \<Rightarrow> pumping" where
  "notify scope ns p =
     (if \<not> i_accepting p then lose Stopping ns p else
      case i_worker p of
        Some k \<Rightarrow> p\<lparr>i_worker := Some (k\<lparr>k_dirty := True, k_holds := k_holds k @ ns\<rparr>)\<rparr>
      | None \<Rightarrow> worker_round scope ns p)"

text \<open>The worker resumes. After a failure it leaves its loop, and hands a flag that was set meanwhile to
  a replacement.\<close>

definition worker_resumes :: "worker \<Rightarrow> pumping \<Rightarrow> pumping" where
  "worker_resumes k p =
     (if k_wait k = Returned \<and> k_dirty k then worker_round (k_scope k) (k_holds k) p
      else if k_dirty k then notify (k_scope k) (k_holds k) (p\<lparr>i_worker := None\<rparr>)
      else p\<lparr>i_worker := None\<rparr>)"

text \<open>The end of a turn: the loop goes on when the flag was set and the room is still hosted.\<close>

definition turn_ends :: "run \<Rightarrow> pumping \<Rightarrow> pumping" where
  "turn_ends r p =
     (let q = p\<lparr>i_served := i_served p @ n_turn r\<rparr> in
      if \<not> i_hosted p then
        (lose Not_hosted (n_next r) q)\<lparr>i_pump := Some (r\<lparr>n_phase := Leaving True, n_turn := [], n_next := []\<rparr>)\<rparr>
      else if n_dirty r then q\<lparr>i_pump := Some (r\<lparr>n_dirty := False, n_turn := n_next r, n_next := []\<rparr>)\<rparr>
      else q\<lparr>i_pump := Some (r\<lparr>n_phase := Leaving True, n_turn := []\<rparr>)\<rparr>)"

definition turn_fails :: "run \<Rightarrow> pumping \<Rightarrow> pumping" where
  "turn_fails r p = (lose Turn_failed (n_turn r) p)\<lparr>i_pump := Some (r\<lparr>n_phase := Leaving False, n_turn := []\<rparr>)\<rparr>"

text \<open>The \<open>finally\<close> block: the entry goes, and whoever awaited the run hears how it ended.\<close>

definition pump_settles :: "run \<Rightarrow> bool \<Rightarrow> pumping \<Rightarrow> pumping" where
  "pump_settles r ok p =
     (lose (if ok then Left_behind else Turn_failed) (n_next r) p)
       \<lparr>i_pump := None,
        i_worker := map_option (\<lambda>k. if k_wait k = On (n_id r) then k\<lparr>k_wait := if ok then Returned else Failed\<rparr> else k)
          (i_worker p)\<rparr>"

subsection \<open>Events\<close>

datatype event =
    Notify "nat option" | Call_pump "nat option" | Resume "nat option"
  | Turn_ends | Turn_fails | Pump_settles | Worker_resumes
  | Hosts | Unhosts | Begin_shutdown

fun request_event :: "event \<Rightarrow> bool" where
  "request_event (Notify _) = True"
| "request_event (Call_pump _) = True"
| "request_event (Resume _) = True"
| "request_event _ = False"

fun own_event :: "event \<Rightarrow> bool" where
  "own_event Turn_ends = True"
| "own_event Turn_fails = True"
| "own_event Pump_settles = True"
| "own_event Worker_resumes = True"
| "own_event _ = False"

definition numbered :: "pumping \<Rightarrow> pumping" where
  "numbered p = p\<lparr>i_requests := Suc (i_requests p)\<rparr>"

fun occurs :: "event \<Rightarrow> pumping \<Rightarrow> pumping option" where
  "occurs (Notify scope) p = Some (notify scope [i_requests p] (numbered p))"
| "occurs (Call_pump scope) p = Some (snd (pump_room scope [i_requests p] (numbered p)))"
| "occurs (Resume scope) p = Some (resume_pending scope [i_requests p] (numbered p))"
| "occurs Turn_ends p =
     (case i_pump p of Some r \<Rightarrow> (if n_phase r = Turning then Some (turn_ends r p) else None) | None \<Rightarrow> None)"
| "occurs Turn_fails p =
     (case i_pump p of Some r \<Rightarrow> (if n_phase r = Turning then Some (turn_fails r p) else None) | None \<Rightarrow> None)"
| "occurs Pump_settles p =
     (case i_pump p of
        Some r \<Rightarrow> (case n_phase r of Leaving ok \<Rightarrow> Some (pump_settles r ok p) | Turning \<Rightarrow> None)
      | None \<Rightarrow> None)"
| "occurs Worker_resumes p =
     (case i_worker p of
        Some k \<Rightarrow> (case k_wait k of On _ \<Rightarrow> None | _ \<Rightarrow> Some (worker_resumes k p))
      | None \<Rightarrow> None)"
| "occurs Hosts p = Some (p\<lparr>i_hosted := True\<rparr>)"
| "occurs Unhosts p = Some (p\<lparr>i_hosted := False\<rparr>)"
| "occurs Begin_shutdown p = Some (p\<lparr>i_accepting := False\<rparr>)"

fun happen :: "event list \<Rightarrow> pumping \<Rightarrow> pumping option" where
  "happen [] p = Some p"
| "happen (e # es) p = (case occurs e p of None \<Rightarrow> None | Some q \<Rightarrow> happen es q)"

definition idle_pump :: pumping where
  "idle_pump = \<lparr>i_accepting = True, i_hosted = True, i_pump = None, i_worker = None, i_runs = 0,
     i_requests = 0, i_served = [], i_lost = []\<rparr>"

text \<open>\<open>drain\<close> returns when neither map has an entry.\<close>

definition drained :: "pumping \<Rightarrow> bool" where
  "drained p \<longleftrightarrow> i_pump p = None \<and> i_worker p = None"


subsection \<open>Every request is accounted for\<close>

definition run_lists :: "run \<Rightarrow> nat list" where
  "run_lists r = n_turn r @ n_next r"

definition opt_list :: "('a \<Rightarrow> 'b list) \<Rightarrow> 'a option \<Rightarrow> 'b list" where
  "opt_list f x = (case x of None \<Rightarrow> [] | Some y \<Rightarrow> f y)"

definition answering :: "pumping \<Rightarrow> nat list" where
  "answering p = opt_list run_lists (i_pump p) @ opt_list k_holds (i_worker p)"

definition accounted :: "pumping \<Rightarrow> nat multiset" where
  "accounted p = mset (i_served p) + mset (map snd (i_lost p)) + mset (answering p)"

definition run_ok :: "run \<Rightarrow> bool" where
  "run_ok r \<longleftrightarrow> (n_next r \<noteq> [] \<longrightarrow> n_dirty r) \<and> (n_phase r \<noteq> Turning \<longrightarrow> n_turn r = [])"

definition worker_ok :: "run option \<Rightarrow> worker \<Rightarrow> bool" where
  "worker_ok r k \<longleftrightarrow> (k_holds k \<noteq> [] \<longrightarrow> k_dirty k)
     \<and> (\<forall>n. k_wait k = On n \<longrightarrow> (case r of None \<Rightarrow> False | Some r' \<Rightarrow> n_id r' = n))"

definition pumping_ok :: "pumping \<Rightarrow> bool" where
  "pumping_ok p \<longleftrightarrow> pred_option run_ok (i_pump p) \<and> pred_option (worker_ok (i_pump p)) (i_worker p)"

lemmas account_simps = accounted_def answering_def run_lists_def

lemma opt_list_simps [simp]: "opt_list f None = []" "opt_list f (Some x) = f x"
  by (simp_all add: opt_list_def)

lemma lose_simps [simp]:
  "i_pump (lose why ns p) = i_pump p" "i_worker (lose why ns p) = i_worker p" "i_served (lose why ns p) = i_served p"
  "i_lost (lose why ns p) = i_lost p @ map (Pair why) ns" "i_hosted (lose why ns p) = i_hosted p"
  "i_accepting (lose why ns p) = i_accepting p" "i_requests (lose why ns p) = i_requests p"
  by (simp_all add: lose_def)

lemma snd_Pair [simp]: "snd \<circ> Pair x = id"
  by (rule ext) simp

lemma image_snd_Pair [simp]: "image_mset snd (image_mset (Pair x) m) = m"
  by (simp add: multiset.map_comp)

lemma numbered_simps [simp]:
  "i_pump (numbered p) = i_pump p" "i_worker (numbered p) = i_worker p" "i_served (numbered p) = i_served p"
  "i_lost (numbered p) = i_lost p" "i_hosted (numbered p) = i_hosted p" "i_accepting (numbered p) = i_accepting p"
  "i_requests (numbered p) = Suc (i_requests p)"
  by (simp_all add: numbered_def)

lemma accounted_pump_room: "accounted (snd (pump_room scope ns p)) = accounted p + mset ns"
  by (simp add: pump_room_def account_simps split: option.split)

lemma accounted_resume: "accounted (resume_pending scope ns p) = accounted p + mset ns"
  by (cases "i_pump p") (simp_all add: resume_pending_def accounted_pump_room, simp add: account_simps)

lemma pump_room_worker [simp]: "i_worker (snd (pump_room scope ns p)) = i_worker p"
  by (simp add: pump_room_def split: option.split)

lemma accounted_round:
  "accounted (worker_round scope ns p) + mset (opt_list k_holds (i_worker p)) = accounted p + mset ns"
proof -
  obtain w q where pr: "pump_room scope ns p = (w, q)" by (cases "pump_room scope ns p") blast
  have "i_worker q = i_worker p" using pump_room_worker [of scope ns p] by (simp add: pr)
  with accounted_pump_room [of scope ns p] show ?thesis by (simp add: worker_round_def pr account_simps)
qed

lemma accounted_notify: "accounted (notify scope ns p) = accounted p + mset ns"
  using accounted_round [of scope ns p]
  by (cases "i_worker p") (simp_all add: notify_def, simp_all add: account_simps)

lemma accounted_worker: "i_worker p = Some k \<Longrightarrow> worker_ok (i_pump p) k \<Longrightarrow> accounted (worker_resumes k p) = accounted p"
  using accounted_round [of "k_scope k" "k_holds k" p]
  by (auto simp: worker_resumes_def accounted_notify worker_ok_def) (simp_all add: account_simps)

lemma accounted_turns:
  assumes "i_pump p = Some r" and "run_ok r"
  shows "accounted (turn_ends r p) = accounted p" and "accounted (turn_fails r p) = accounted p"
    and "n_phase r = Leaving ok \<Longrightarrow> accounted (pump_settles r ok p) = accounted p"
proof -
  have hold: "opt_list k_holds (map_option (\<lambda>k. if k_wait k = On n then k\<lparr>k_wait := w\<rparr> else k) x) = opt_list k_holds x" for n w x
    by (cases x) simp_all
  show "accounted (turn_ends r p) = accounted p" using assms
    by (auto simp: turn_ends_def Let_def account_simps run_ok_def)
  show "accounted (turn_fails r p) = accounted p" using assms by (simp add: turn_fails_def account_simps)
  show "n_phase r = Leaving ok \<Longrightarrow> accounted (pump_settles r ok p) = accounted p" using assms
    by (simp add: pump_settles_def account_simps hold run_ok_def)
qed

subsection \<open>The shape of the state\<close>

lemma pumping_ok_cases:
  "pumping_ok p \<longleftrightarrow> (\<forall>r. i_pump p = Some r \<longrightarrow> run_ok r) \<and> (\<forall>k. i_worker p = Some k \<longrightarrow> worker_ok (i_pump p) k)"
  by (cases "i_pump p"; cases "i_worker p") (simp_all add: pumping_ok_def)

lemma pumping_ok_pump_room:
  "pumping_ok p \<Longrightarrow> pumping_ok (snd (pump_room scope ns p))
     \<and> (\<forall>n. fst (pump_room scope ns p) = On n \<longrightarrow>
          (case i_pump (snd (pump_room scope ns p)) of None \<Rightarrow> False | Some r \<Rightarrow> n_id r = n))"
  by (cases "i_pump p") (auto simp: pumping_ok_cases pump_room_def run_ok_def worker_ok_def)

lemma pumping_ok_resume: "pumping_ok p \<Longrightarrow> pumping_ok (resume_pending scope ns p)"
  using pumping_ok_pump_room [of p scope ns]
  by (cases "i_pump p") (auto simp: resume_pending_def pumping_ok_cases run_ok_def worker_ok_def)

lemma pumping_ok_round: "pumping_ok p \<Longrightarrow> pumping_ok (worker_round scope ns p)"
  using pumping_ok_pump_room [of p scope ns]
  by (auto simp: worker_round_def pumping_ok_cases worker_ok_def split: prod.splits)

lemma pumping_ok_lose [simp]: "pumping_ok (lose why ns p) = pumping_ok p"
  by (simp add: pumping_ok_cases)

lemma pumping_ok_notify: "pumping_ok p \<Longrightarrow> pumping_ok (notify scope ns p)"
  by (cases "i_worker p") (auto simp: notify_def pumping_ok_round, auto simp: pumping_ok_cases worker_ok_def)

lemma pumping_ok_idle_worker: "pumping_ok p \<Longrightarrow> pumping_ok (p\<lparr>i_worker := None\<rparr>)"
  by (simp add: pumping_ok_cases)

lemma pumping_ok_worker: "pumping_ok p \<Longrightarrow> pumping_ok (worker_resumes k p)"
  by (simp add: worker_resumes_def pumping_ok_round pumping_ok_notify pumping_ok_idle_worker)

lemma pumping_ok_turns:
  assumes "pumping_ok p" and "i_pump p = Some r"
  shows "n_phase r = Turning \<Longrightarrow> pumping_ok (turn_ends r p)" and "pumping_ok (turn_fails r p)"
    and "pumping_ok (pump_settles r ok p)"
proof -
  show "n_phase r = Turning \<Longrightarrow> pumping_ok (turn_ends r p)" "pumping_ok (turn_fails r p)" using assms
    by (auto simp: pumping_ok_cases turn_ends_def turn_fails_def Let_def run_ok_def worker_ok_def split: if_splits)
  show "pumping_ok (pump_settles r ok p)" using assms
    by (cases "i_worker p") (auto simp: pumping_ok_cases pump_settles_def worker_ok_def)
qed

lemma occurs_pumping_ok: "occurs e p = Some q \<Longrightarrow> pumping_ok p \<Longrightarrow> pumping_ok q"
proof -
  have n: "pumping_ok (numbered p) = pumping_ok p" "pumping_ok (p\<lparr>i_hosted := b\<rparr>) = pumping_ok p"
    "pumping_ok (p\<lparr>i_accepting := b\<rparr>) = pumping_ok p" for b
    by (simp_all add: pumping_ok_cases)
  show "occurs e p = Some q \<Longrightarrow> pumping_ok p \<Longrightarrow> pumping_ok q"
    by (cases e) (auto simp: n pumping_ok_notify pumping_ok_resume pumping_ok_pump_room pumping_ok_turns pumping_ok_worker
        split: option.splits if_splits phase.splits wait.splits)
qed

lemma occurs_accounted:
  assumes e: "occurs e p = Some q" and ok: "pumping_ok p" and a: "accounted p = mset [0..<i_requests p]"
  shows "accounted q = mset [0..<i_requests q]"
proof -
  have n: "accounted (numbered p) = accounted p" "accounted (p\<lparr>i_hosted := b\<rparr>) = accounted p"
    "accounted (p\<lparr>i_accepting := b\<rparr>) = accounted p" for b
    by (simp_all add: account_simps)
  have pr: "i_requests (snd (pump_room scope ns p)) = i_requests p" for scope ns p
    by (simp add: pump_room_def split: option.split)
  have rounds: "i_requests (worker_round scope ns p) = i_requests p" for scope ns p
    by (simp add: worker_round_def case_prod_unfold pr)
  have reqs: "i_requests (resume_pending scope ns p) = i_requests p" "i_requests (notify scope ns p) = i_requests p" for scope ns p
    by (simp_all add: resume_pending_def pr notify_def rounds split: option.split)
  have own: "i_requests (worker_resumes k p) = i_requests p" "i_requests (turn_ends r p) = i_requests p"
    "i_requests (turn_fails r p) = i_requests p" "i_requests (pump_settles r b p) = i_requests p" for k r b
    by (simp_all add: worker_resumes_def rounds reqs turn_ends_def turn_fails_def pump_settles_def Let_def)
  show ?thesis using e ok a
    by (cases e) (auto simp: n reqs own pr accounted_notify accounted_resume accounted_pump_room accounted_turns
        accounted_worker pumping_ok_cases atLeast0_lessThan_Suc split: option.splits if_splits phase.splits wait.splits)
qed

lemma happen_ok:
  "happen es p = Some q \<Longrightarrow> pumping_ok p \<Longrightarrow> accounted p = mset [0..<i_requests p]
     \<Longrightarrow> pumping_ok q \<and> accounted q = mset [0..<i_requests q]"
proof (induction es p rule: happen.induct)
  case (2 e es p)
  from 2(2) obtain p' where "occurs e p = Some p'" and "happen es p' = Some q" by (auto split: option.splits)
  with 2 occurs_pumping_ok [of e p p'] occurs_accounted [of e p p'] show ?case by simp
qed simp

lemma idle_ok: "pumping_ok idle_pump \<and> accounted idle_pump = mset [0..<i_requests idle_pump]"
  by (simp add: idle_pump_def pumping_ok_def account_simps)

lemma drained_answering: "drained p \<Longrightarrow> answering p = []"
  by (simp add: drained_def answering_def)


subsection \<open>Undisturbed histories\<close>

text \<open>A history is undisturbed when no turn fails, the room stays hosted, the pump is not shut down, and
  nothing comes between the end of the pump's loop and its \<open>finally\<close> block.\<close>

definition fault :: "event \<Rightarrow> bool" where
  "fault e \<longleftrightarrow> e = Turn_fails \<or> e = Unhosts \<or> e = Begin_shutdown"

definition leaving :: "pumping \<Rightarrow> bool" where
  "leaving p \<longleftrightarrow> (case i_pump p of None \<Rightarrow> False | Some r \<Rightarrow> n_phase r \<noteq> Turning)"

fun undisturbed :: "event list \<Rightarrow> pumping \<Rightarrow> bool" where
  "undisturbed [] p \<longleftrightarrow> True"
| "undisturbed (e # es) p \<longleftrightarrow> \<not> fault e \<and> (leaving p \<longrightarrow> e = Pump_settles)
     \<and> (case occurs e p of None \<Rightarrow> False | Some q \<Rightarrow> undisturbed es q)"

definition smooth :: "pumping \<Rightarrow> bool" where
  "smooth p \<longleftrightarrow> i_lost p = [] \<and> i_hosted p \<and> i_accepting p
     \<and> (\<forall>r. i_pump p = Some r \<longrightarrow> n_phase r \<noteq> Leaving False \<and> (n_phase r = Leaving True \<longrightarrow> n_next r = []))
     \<and> (\<forall>k. i_worker p = Some k \<longrightarrow> k_wait k \<noteq> Failed)"

lemma smooth_pump_room:
  "smooth p \<Longrightarrow> \<not> leaving p \<Longrightarrow> smooth (snd (pump_room scope ns p)) \<and> fst (pump_room scope ns p) \<noteq> Failed"
  by (cases "i_pump p") (auto simp: smooth_def pump_room_def leaving_def)

lemma smooth_round: "smooth p \<Longrightarrow> \<not> leaving p \<Longrightarrow> smooth (worker_round scope ns p)"
  using smooth_pump_room [of p scope ns] by (auto simp: worker_round_def smooth_def split: prod.split)

lemma smooth_notify: "smooth p \<Longrightarrow> \<not> leaving p \<Longrightarrow> smooth (notify scope ns p)"
  by (cases "i_worker p") (auto simp: notify_def smooth_round, auto simp: smooth_def)

lemma smooth_numbered [simp]: "smooth (numbered p) = smooth p" "leaving (numbered p) = leaving p"
  by (simp_all add: smooth_def leaving_def)

lemma smooth_occurs:
  assumes "occurs e p = Some q" and "smooth p" and "pumping_ok p" and "\<not> fault e" and "leaving p \<longrightarrow> e = Pump_settles"
  shows "smooth q"
proof -
  have resume: "\<not> leaving p \<Longrightarrow> smooth (resume_pending scope ns (numbered p))" for scope ns
    using smooth_pump_room [of "numbered p" scope ns] assms(2)
    by (cases "i_pump p") (auto simp: resume_pending_def smooth_def leaving_def numbered_def)
  have work: "smooth (worker_resumes k p)" if "\<not> leaving p" for k
    using that assms(2) smooth_notify [of "p\<lparr>i_worker := None\<rparr>"] smooth_round [of p]
    by (auto simp: worker_resumes_def smooth_def leaving_def)
  have turn: "smooth (turn_ends r p)" if "i_pump p = Some r" "n_phase r = Turning" for r
    using that assms(2,3) by (auto simp: turn_ends_def Let_def smooth_def pumping_ok_cases run_ok_def)
  have settle: "smooth (pump_settles r ok p)" if "i_pump p = Some r" "n_phase r = Leaving ok" for r ok
    using that assms(2) by (cases "i_worker p") (auto simp: pump_settles_def smooth_def)
  have host: "smooth (p\<lparr>i_hosted := True\<rparr>)" using assms(2) by (simp add: smooth_def)
  show ?thesis using assms
    by (cases e) (auto simp: smooth_notify smooth_pump_room resume work turn settle host fault_def
        split: option.splits phase.splits wait.splits if_splits)
qed

lemma smooth_happen:
  "happen es p = Some q \<Longrightarrow> undisturbed es p \<Longrightarrow> pumping_ok p \<Longrightarrow> smooth p \<Longrightarrow> smooth q"
proof (induction es p rule: happen.induct)
  case (2 e es p)
  from 2(2) obtain p' where "occurs e p = Some p'" and "happen es p' = Some q" by (auto split: option.splits)
  with 2 occurs_pumping_ok [of e p p'] smooth_occurs [of e p p'] show ?case by simp
qed simp

text \<open>C18: in every history of calls, turns and cleanups, each request for a room (a notification, a call of
  the pump, a resumption) is answered for exactly once: it was served by a turn (and handed to it when the turn began),
  or it is being served, or it waits in a flag that is still to be read, or it is among the lost; and when the
  pump has drained none is waiting. In an undisturbed history none is lost.\<close>

theorem requests_accounted:
  assumes "happen es idle_pump = Some p"
  shows "mset (i_served p) + mset (map snd (i_lost p)) + mset (answering p) = mset [0..<i_requests p]
    \<and> (drained p \<longrightarrow> answering p = [])
    \<and> (undisturbed es idle_pump \<longrightarrow> i_lost p = [])"
proof -
  have "smooth idle_pump" by (simp add: idle_pump_def smooth_def)
  with smooth_happen [OF assms] idle_ok have "undisturbed es idle_pump \<longrightarrow> i_lost p = []" by (auto simp: smooth_def)
  with happen_ok [OF assms] idle_ok drained_answering show ?thesis by (auto simp: accounted_def)
qed

subsection \<open>The pump comes to rest\<close>

definition run_work :: "run \<Rightarrow> nat" where
  "run_work r = (case n_phase r of Leaving _ \<Rightarrow> 1 | Turning \<Rightarrow> if n_dirty r then 3 else 2)"

definition worker_work :: "worker \<Rightarrow> nat" where
  "worker_work k = (if k_dirty k then 4 else 1)"

definition work_left :: "pumping \<Rightarrow> nat" where
  "work_left p = (case i_pump p of None \<Rightarrow> 0 | Some r \<Rightarrow> run_work r) + (case i_worker p of None \<Rightarrow> 0 | Some k \<Rightarrow> worker_work k)"


lemma work_left_simps:
  "i_pump p = None \<Longrightarrow> i_worker p = None \<Longrightarrow> work_left p = 0"
  "work_left (lose why ns p) = work_left p"
  by (simp_all add: work_left_def)

lemma work_pump_room: "work_left (snd (pump_room scope ns p)) \<le> work_left p + 2"
  by (cases "i_pump p") (auto simp: pump_room_def work_left_def run_work_def split: option.split phase.split)

lemma work_round:
  "i_worker p = None \<Longrightarrow> work_left (worker_round scope ns p) \<le> work_left p + 3"
  using work_pump_room [of scope ns p] pump_room_worker [of scope ns p]
  by (auto simp: worker_round_def work_left_def worker_work_def split: prod.splits)

lemma round_forgets: "worker_round scope ns p = worker_round scope ns (p\<lparr>i_worker := None\<rparr>)"
  by (cases "i_pump p") (simp_all add: worker_round_def pump_room_def lose_def)

lemma work_without_worker: "i_worker p = Some k \<Longrightarrow> work_left (p\<lparr>i_worker := None\<rparr>) + worker_work k = work_left p"
  by (simp add: work_left_def)

lemma work_worker:
  assumes "i_worker p = Some k"
  shows "work_left (worker_resumes k p) < work_left p"
proof -
  let ?p = "p\<lparr>i_worker := None\<rparr>"
  have round: "work_left (worker_round (k_scope k) (k_holds k) ?p) \<le> work_left ?p + 3"
    by (rule work_round) simp
  have dirty: "k_dirty k \<Longrightarrow> worker_work k = 4" "worker_work k \<ge> 1" by (simp_all add: worker_work_def)
  have "k_dirty k \<Longrightarrow> work_left (notify (k_scope k) (k_holds k) ?p) < work_left p"
    using round dirty(1) work_without_worker [OF assms] by (simp add: notify_def work_left_simps(2))
  moreover have "k_dirty k \<Longrightarrow> work_left (worker_round (k_scope k) (k_holds k) p) < work_left p"
    using round dirty(1) work_without_worker [OF assms] by (subst round_forgets) simp
  moreover have "work_left ?p < work_left p" using dirty(2) work_without_worker [OF assms] by simp
  ultimately show ?thesis by (simp add: worker_resumes_def)
qed

lemma work_turns:
  assumes "i_pump p = Some r"
  shows "n_phase r = Turning \<Longrightarrow> work_left (turn_ends r p) < work_left p"
    and "n_phase r = Turning \<Longrightarrow> work_left (turn_fails r p) < work_left p"
    and "n_phase r = Leaving ok \<Longrightarrow> work_left (pump_settles r ok p) < work_left p"
proof -
  show "n_phase r = Turning \<Longrightarrow> work_left (turn_ends r p) < work_left p"
    "n_phase r = Turning \<Longrightarrow> work_left (turn_fails r p) < work_left p"
    using assms by (auto simp: turn_ends_def turn_fails_def Let_def work_left_def run_work_def)
  show "n_phase r = Leaving ok \<Longrightarrow> work_left (pump_settles r ok p) < work_left p"
    using assms by (cases "i_worker p") (auto simp: pump_settles_def work_left_def run_work_def worker_work_def)
qed

lemma own_work: "occurs e p = Some q \<Longrightarrow> own_event e \<Longrightarrow> work_left q < work_left p"
  by (cases e) (auto simp: work_turns work_worker split: option.splits phase.splits wait.splits if_splits)

lemma own_steps: "happen es p = Some q \<Longrightarrow> list_all own_event es \<Longrightarrow> length es + work_left q \<le> work_left p"
proof (induction es p rule: happen.induct)
  case (2 e es p)
  from 2(2) obtain p' where "occurs e p = Some p'" and "happen es p' = Some q" by (auto split: option.splits)
  with 2 own_work [of e p p'] show ?case by simp
qed simp

lemma stuck_drained:
  assumes ok: "pumping_ok p" and stuck: "\<And>e. own_event e \<Longrightarrow> occurs e p = None"
  shows "drained p"
proof -
  have r: "i_pump p = None"
    using stuck [of Turn_ends] stuck [of Pump_settles] by (auto split: option.splits phase.splits if_splits)
  moreover have "i_worker p = None"
    using stuck [of Worker_resumes] ok r by (auto simp: pumping_ok_cases worker_ok_def split: option.splits wait.splits)
  ultimately show ?thesis by (simp add: drained_def)
qed

text \<open>Without new requests the pump comes to rest, whatever way its turns end: from a reachable state
  at most \<open>work_left\<close> stretches of its own follow (never more than seven), some stretch is enabled as long as
  it has not drained, and when none is left every request was served or is among the lost.\<close>

theorem pump_comes_to_rest:
  assumes "happen es idle_pump = Some p" and "happen own p = Some q" and "list_all own_event own"
  shows "length own \<le> work_left p \<and> work_left p \<le> 7
    \<and> (drained q \<or> (\<exists>e. own_event e \<and> occurs e q \<noteq> None))
    \<and> (drained q \<longrightarrow> mset (i_served q) + mset (map snd (i_lost q)) = mset [0..<i_requests q])"
proof -
  have p: "pumping_ok p" "accounted p = mset [0..<i_requests p]" using happen_ok [OF assms(1)] idle_ok by auto
  from happen_ok [OF assms(2) this] have q: "pumping_ok q" "accounted q = mset [0..<i_requests q]" by auto
  have "work_left p \<le> 7"
    by (simp add: work_left_def run_work_def worker_work_def split: option.split phase.split)
  moreover have "drained q \<longrightarrow> mset (i_served q) + mset (map snd (i_lost q)) = mset [0..<i_requests q]"
    using q(2) drained_answering [of q] by (auto simp: accounted_def)
  moreover have "drained q \<or> (\<exists>e. own_event e \<and> occurs e q \<noteq> None)"
    using stuck_drained [OF q(1)] by blast
  ultimately show ?thesis using own_steps [OF assms(2,3)] by simp
qed

subsection \<open>Sample histories\<close>

definition busy_history :: "event list" where
  "busy_history = [Notify None, Notify None, Resume None, Turn_ends, Call_pump (Some 0)]"

definition settling :: "event list" where
  "settling = [Turn_ends, Turn_ends, Pump_settles, Worker_resumes, Turn_ends, Pump_settles, Worker_resumes]"


lemma requests_witness:
  "case happen (busy_history @ settling) idle_pump of None \<Rightarrow> False
   | Some p \<Rightarrow> mset (i_served p) = mset [0..<i_requests p] \<and> i_requests p = 4"
proof -
  have "case happen (busy_history @ settling) idle_pump of None \<Rightarrow> False
    | Some p \<Rightarrow> drained p \<and> i_requests p = 4 \<and> undisturbed (busy_history @ settling) idle_pump" by code_simp
  then obtain p where "happen (busy_history @ settling) idle_pump = Some p" and "drained p" "i_requests p = 4"
    "undisturbed (busy_history @ settling) idle_pump" by (auto split: option.splits)
  with requests_accounted [OF this(1)] show ?thesis by (auto simp del: mset_upt)
qed

lemma rest_witness:
  "case happen busy_history idle_pump of None \<Rightarrow> False
   | Some p \<Rightarrow> (case happen settling p of None \<Rightarrow> False
     | Some q \<Rightarrow> drained q \<and> mset (i_served q) + mset (map snd (i_lost q)) = mset [0..<i_requests q])"
proof -
  have "case happen busy_history idle_pump of None \<Rightarrow> False
    | Some p \<Rightarrow> (case happen settling p of None \<Rightarrow> False | Some q \<Rightarrow> drained q)" by code_simp
  then obtain p q where p: "happen busy_history idle_pump = Some p" and q: "happen settling p = Some q" "drained q"
    by (auto split: option.splits)
  have "list_all own_event settling" by code_simp
  from pump_comes_to_rest [OF p q(1) this] p q show ?thesis by simp
qed

text \<open>The window of \<open>runPump\<close>: a resumption that comes after the loop has read its flag for the last time
  and before the \<open>finally\<close> block removes the entry marks a run that will not turn again. The pump drains
  without a fault, and the request is not served.\<close>

lemma request_left_behind:
  "case happen [Notify None, Turn_ends, Resume None, Pump_settles, Worker_resumes] idle_pump of None \<Rightarrow> False
   | Some p \<Rightarrow> drained p \<and> i_served p = [0] \<and> i_lost p = [(Left_behind, 1)]"
  by code_simp

end
