(* ===== verification/Ulid.thy ===== *)
theory Ulid
  imports Scalars "HOL-Library.Word" "HOL-Library.List_Lexorder"
begin

unbundle bit_operations_syntax

section \<open>Generated identifiers\<close>

text \<open>
  \<open>ulid.ts\<close>: a lower-case ULID is ten base-32 digits of the clock followed by sixteen of ten random
  bytes. The clock is a natural number (\<open>Date.now()\<close>) and the bytes are an argument. The bit buffer
  of the second loop is kept as the 32-bit word the JavaScript shift operators work on; a byte read
  past the end of the buffer is \<open>undefined\<close>, which \<open>|\<close> reads as 0.
\<close>

definition CROCKFORD :: string where
  "CROCKFORD = ''0123456789abcdefghjkmnpqrstvwxyz''"

fun time_digits :: "nat \<Rightarrow> nat \<Rightarrow> string" where
  "time_digits 0 time = []"
| "time_digits (Suc index) time = time_digits index (time div 32) @ [CROCKFORD ! (time mod 32)]"

fun next_byte :: "8 word list \<Rightarrow> 8 word \<times> 8 word list" where
  "next_byte [] = (0, [])"
| "next_byte (b # bs) = (b, bs)"

function refill :: "nat \<Rightarrow> 32 word \<Rightarrow> 8 word list \<Rightarrow> nat \<times> 32 word \<times> 8 word list" where
  "refill bits value entropy =
     (if bits < 5 then
        (case next_byte entropy of (b, rest) \<Rightarrow> refill (bits + 8) (push_bit 8 value OR ucast b) rest)
      else (bits, value, entropy))"
  by pat_completeness auto
termination by (relation "measure (\<lambda>(bits, _). 5 - bits)") auto

declare refill.simps [simp del]

fun entropy_digits :: "nat \<Rightarrow> nat \<Rightarrow> 32 word \<Rightarrow> 8 word list \<Rightarrow> string" where
  "entropy_digits 0 bits value entropy = []"
| "entropy_digits (Suc index) bits value entropy =
     (case refill bits value entropy of (bits', value', rest) \<Rightarrow>
        CROCKFORD ! unat (drop_bit (bits' - 5) value' AND 31) # entropy_digits index (bits' - 5) value' rest)"

definition generateUlid :: "nat \<Rightarrow> 8 word list \<Rightarrow> string" where
  "generateUlid time entropy = time_digits 10 time @ entropy_digits 16 0 0 entropy"

subsection \<open>The alphabet\<close>

text \<open>The value of a digit, and of a text read in base 32.\<close>

definition digit_value :: "char \<Rightarrow> nat" where
  "digit_value c = length (takeWhile (\<lambda>d. d \<noteq> c) CROCKFORD)"

definition base32_value :: "string \<Rightarrow> nat" where
  "base32_value s = fold (\<lambda>c v. v * 32 + digit_value c) s 0"

definition big_endian :: "8 word list \<Rightarrow> nat" where
  "big_endian bytes = fold (\<lambda>b v. v * 256 + unat b) bytes 0"

lemma crockford_facts:
  "i < 32 \<Longrightarrow> digit_value (CROCKFORD ! i) = i \<and> crockford_char (CROCKFORD ! i)"
proof -
  have "list_all (\<lambda>i. digit_value (CROCKFORD ! i) = i \<and> crockford_char (CROCKFORD ! i)) [0..<32]" by code_simp
  then show "i < 32 \<Longrightarrow> ?thesis" by (auto simp: list_all_iff)
qed


lemma base32_from: "fold (\<lambda>c v. v * 32 + digit_value c) s n = n * 32 ^ length s + base32_value s"
proof (induction s arbitrary: n)
  case Nil
  then show ?case by (simp add: base32_value_def)
next
  case (Cons c s)
  from Cons [of "n * 32 + digit_value c"] Cons [of "digit_value c"] show ?case
    by (simp add: base32_value_def algebra_simps)
qed

lemma base32_append: "base32_value (s @ t) = base32_value s * 32 ^ length t + base32_value t"
  using base32_from [of t "base32_value s"] by (simp add: base32_value_def)

lemma base32_single [simp]: "base32_value [] = 0" "base32_value [c] = digit_value c"
  by (simp_all add: base32_value_def)

lemma base32_Cons: "base32_value (c # s) = digit_value c * 32 ^ length s + base32_value s"
  using base32_append [of "[c]" s] by simp

lemma big_endian_from: "fold (\<lambda>b v. v * 256 + unat b) bs n = n * 256 ^ length bs + big_endian bs"
proof (induction bs arbitrary: n)
  case Nil
  then show ?case by (simp add: big_endian_def)
next
  case (Cons b bs)
  from Cons [of "n * 256 + unat b"] Cons [of "unat b"] show ?case
    by (simp add: big_endian_def algebra_simps)
qed

lemma big_endian_Cons: "big_endian (b # bs) = unat b * 256 ^ length bs + big_endian bs"
  using big_endian_from [of bs "unat b"] by (simp add: big_endian_def)

lemma big_endian_Nil [simp]: "big_endian [] = 0"
  by (simp add: big_endian_def)

subsection \<open>The clock\<close>

lemma time_digits_ok: "length (time_digits n t) = n \<and> list_all crockford_char (time_digits n t)"
  by (induction n arbitrary: t) (simp_all add: crockford_facts)

lemma time_digits_value: "base32_value (time_digits n t) = t mod 32 ^ n"
proof (induction n arbitrary: t)
  case (Suc n)
  have "t mod (32 * 32 ^ n) = 32 * (t div 32 mod 32 ^ n) + t mod 32" by (rule mod_mult2_eq)
  then show ?case by (simp add: base32_append Suc crockford_facts)
qed simp

subsection \<open>The bit buffer\<close>

lemma shift_in_byte: "push_bit 8 (of_nat n :: 32 word) OR ucast (b :: 8 word) = of_nat (n * 256 + unat b)"
proof -
  have "push_bit 8 (of_nat n :: 32 word) OR ucast b = push_bit 8 (of_nat n) + ucast b"
    by (rule sym, rule disjunctive_add_eq_or, rule bit_eqI) (auto simp: bit_simps dest: bit_imp_le_length)
  also have "\<dots> = of_nat (n * 256 + unat b)" by (simp add: push_bit_eq_mult)
  finally show ?thesis .
qed

lemma read_digit:
  assumes "k \<le> 27"
  shows "unat (drop_bit k (of_nat n :: 32 word) AND 31) = n div 2 ^ k mod 32"
proof -
  have mask: "(31 :: 32 word) = mask 5" by (simp add: mask_eq_exp_minus_1)
  have "unat (drop_bit k (of_nat n :: 32 word) AND 31) = take_bit 5 (drop_bit k (take_bit 32 n))"
    unfolding mask take_bit_eq_mask [symmetric]
    by (simp add: unsigned_take_bit_eq unsigned_drop_bit_eq unsigned_of_nat)
  also have "\<dots> = take_bit 5 (drop_bit k n)"
    using assms by (simp add: take_bit_drop_bit min_def)
  finally show ?thesis by (simp add: take_bit_eq_mod drop_bit_eq_div)
qed


lemma refill_step:
  assumes "bits \<le> 7"
  shows "refill bits (of_nat n) entropy =
     (if bits < 5 then (bits + 8, of_nat (n * 256 + unat (fst (next_byte entropy))), snd (next_byte entropy))
      else (bits, of_nat n, entropy))"
  using assms by (simp add: refill.simps [of bits] refill.simps [of "bits + 8"] shift_in_byte split: prod.split)

text \<open>The digits spell what the buffer held above its \<open>bits\<close> low bits, followed by the bytes still to come;
  the bits shifted out on the left were spelled before.\<close>

lemma mod_split: "(x div 2 ^ k mod 32) * (2 ^ k) + x mod 2 ^ k = x mod (2 ^ (k + 5) :: nat)"
  using mod_mult2_eq [of x "2 ^ k" 32] by (simp add: power_add algebra_simps)

lemma digit_shift:
  fixes x :: nat
  assumes "(32 :: nat) ^ m = 2 ^ k * l"
  shows "(x div 2 ^ k mod 32) * 32 ^ m + ((x mod 2 ^ k) * l + r) = (x mod 2 ^ (k + 5)) * l + r"
  unfolding mod_split [symmetric] assms by (simp add: algebra_simps)

lemma thirty_two_power:
  assumes "5 * m = k + 8 * l"
  shows "(32 :: nat) ^ m = 2 ^ k * 256 ^ l"
proof -
  have "(32 :: nat) ^ m = 2 ^ (5 * m)" by (simp add: power_mult)
  also have "\<dots> = 2 ^ k * 256 ^ l" unfolding assms power_add power_mult by simp
  finally show ?thesis .
qed

lemma entropy_digits_ok:
  "bits \<le> 7 \<Longrightarrow> 5 * m = bits + 8 * length entropy \<Longrightarrow>
     length (entropy_digits m bits (of_nat n) entropy) = m
   \<and> list_all crockford_char (entropy_digits m bits (of_nat n) entropy)
   \<and> base32_value (entropy_digits m bits (of_nat n) entropy) = (n mod 2 ^ bits) * 256 ^ length entropy + big_endian entropy"
proof (induction m arbitrary: bits n entropy)
  case 0
  then show ?case by simp
next
  case (Suc m)
  show ?case
  proof (cases "bits < 5")
    case True
    then obtain b rest where e: "entropy = b # rest" using Suc.prems by (cases entropy) auto
    let ?n = "n * 256 + unat b"
    let ?k = "3 + bits"
    have ih: "length (entropy_digits m ?k (of_nat ?n) rest) = m
      \<and> list_all crockford_char (entropy_digits m ?k (of_nat ?n) rest)
      \<and> base32_value (entropy_digits m ?k (of_nat ?n) rest) = (?n mod 2 ^ ?k) * 256 ^ length rest + big_endian rest"
      by (rule Suc.IH) (use True Suc.prems e in simp_all)
    have out: "entropy_digits (Suc m) bits (of_nat n) entropy
        = CROCKFORD ! (?n div 2 ^ ?k mod 32) # entropy_digits m ?k (of_nat ?n) rest"
    proof -
      have "bits + 8 - 5 = ?k" by simp
      then show ?thesis
        using True Suc.prems read_digit [of ?k ?n] by (simp add: refill_step e del: of_nat_add of_nat_mult)
    qed
    have m: "5 * m = ?k + 8 * length rest" using Suc.prems e by simp
    have "?n mod 2 ^ (?k + 5) = (n mod 2 ^ bits) * 256 + unat b"
    proof -
      have "unat b < 256" using unsigned_less [of b] by simp
      moreover have "(2 :: nat) ^ (?k + 5) = 256 * 2 ^ bits" by (simp add: power_add)
      ultimately show ?thesis using mod_mult2_eq [of ?n 256 "2 ^ bits"] by simp
    qed
    with digit_shift [OF thirty_two_power [OF m], of ?n "big_endian rest"] ih show ?thesis unfolding out
      by (simp add: base32_Cons crockford_facts e big_endian_Cons del: of_nat_add of_nat_mult) (simp add: algebra_simps)
  next
    case False
    let ?k = "bits - 5"
    have ih: "length (entropy_digits m ?k (of_nat n) entropy) = m
      \<and> list_all crockford_char (entropy_digits m ?k (of_nat n) entropy)
      \<and> base32_value (entropy_digits m ?k (of_nat n) entropy) = (n mod 2 ^ ?k) * 256 ^ length entropy + big_endian entropy"
      by (rule Suc.IH) (use False Suc.prems in simp_all)
    have out: "entropy_digits (Suc m) bits (of_nat n) entropy
        = CROCKFORD ! (n div 2 ^ ?k mod 32) # entropy_digits m ?k (of_nat n) entropy"
      using False Suc.prems read_digit [of ?k n] by (simp add: refill_step)
    have m: "5 * m = ?k + 8 * length entropy" using Suc.prems False by simp
    from digit_shift [OF thirty_two_power [OF m], of n "big_endian entropy"] ih False show ?thesis unfolding out
      by (simp add: base32_Cons crockford_facts)
  qed
qed


subsection \<open>Order\<close>

lemma digit_less: "digit_value c < 32" if "c \<in> set CROCKFORD"
proof -
  have "c \<in> set xs \<Longrightarrow> length (takeWhile (\<lambda>d. d \<noteq> c) xs) < length xs" for xs by (induction xs) auto
  from this [OF that] show ?thesis by (simp add: digit_value_def CROCKFORD_def)
qed

lemma crockford_digit: "crockford_char c \<Longrightarrow> c \<in> set CROCKFORD"
proof -
  have "list_all (\<lambda>c. crockford_char c \<longrightarrow> c \<in> set CROCKFORD) Enum.enum" by code_simp
  then show "crockford_char c \<Longrightarrow> c \<in> set CROCKFORD" by (simp add: list_all_iff UNIV_enum [symmetric])
qed

lemma digit_order: "c \<in> set CROCKFORD \<Longrightarrow> d \<in> set CROCKFORD \<Longrightarrow> digit_value c < digit_value d \<Longrightarrow> c < d"
proof -
  have "list_all (\<lambda>c. list_all (\<lambda>d. digit_value c < digit_value d \<longrightarrow> c < d) CROCKFORD) CROCKFORD" by code_simp
  then show "c \<in> set CROCKFORD \<Longrightarrow> d \<in> set CROCKFORD \<Longrightarrow> digit_value c < digit_value d \<Longrightarrow> c < d"
    by (simp add: list_all_iff)
qed

lemma digit_inj: "c \<in> set CROCKFORD \<Longrightarrow> d \<in> set CROCKFORD \<Longrightarrow> digit_value c = digit_value d \<Longrightarrow> c = d"
proof -
  have "list_all (\<lambda>c. list_all (\<lambda>d. digit_value c = digit_value d \<longrightarrow> c = d) CROCKFORD) CROCKFORD" by code_simp
  then show "c \<in> set CROCKFORD \<Longrightarrow> d \<in> set CROCKFORD \<Longrightarrow> digit_value c = digit_value d \<Longrightarrow> c = d"
    by (simp add: list_all_iff)
qed

lemma two_digits:
  fixes d :: nat
  assumes "d < k" and "v < l"
  shows "d * l + v < k * l"
  using mult_le_mono1 [OF Suc_leI [OF assms(1)], of l] assms(2) by simp

lemma base32_less: "set s \<subseteq> set CROCKFORD \<Longrightarrow> base32_value s < 32 ^ length s"
proof (induction s)
  case (Cons c s)
  then have "base32_value s < 32 ^ length s" "digit_value c < 32" using digit_less [of c] by simp_all
  from two_digits [OF this(2,1)] show ?case by (simp add: base32_Cons)
qed simp

lemma base32_order:
  "length s = length t \<Longrightarrow> set s \<subseteq> set CROCKFORD \<Longrightarrow> set t \<subseteq> set CROCKFORD
     \<Longrightarrow> base32_value s < base32_value t \<Longrightarrow> s < t"
proof (induction s t rule: list_induct2)
  case (Cons c s d t)
  have "digit_value c \<le> digit_value d"
  proof (rule ccontr)
    assume "\<not> digit_value c \<le> digit_value d"
    then have "Suc (digit_value d) * 32 ^ length t \<le> digit_value c * 32 ^ length t" by (intro mult_le_mono1) simp
    with Cons.prems(3) Cons.hyps base32_less [of t] Cons.prems(2) show False by (simp add: base32_Cons)
  qed
  then consider "digit_value c < digit_value d" | "digit_value c = digit_value d" by linarith
  then show ?case
  proof cases
    case 1
    then show ?thesis using Cons.prems digit_order [of c d] by simp
  next
    case 2
    then have "c = d" using Cons.prems digit_inj by simp
    with Cons show ?thesis by (simp add: base32_Cons)
  qed
qed simp

subsection \<open>The properties\<close>

lemma time_digits_first: "\<exists>rest. time_digits (Suc n) t = CROCKFORD ! (t div 32 ^ n mod 32) # rest"
proof (induction n arbitrary: t)
  case (Suc n)
  obtain rest where r: "time_digits (Suc n) (t div 32) = CROCKFORD ! (t div 32 div 32 ^ n mod 32) # rest"
    using Suc [of "t div 32"] by blast
  have "time_digits (Suc (Suc n)) t = time_digits (Suc n) (t div 32) @ [CROCKFORD ! (t mod 32)]"
    by (simp only: time_digits.simps)
  then show ?case unfolding r by (simp add: div_mult2_eq)
qed simp

lemma low_digit: "i < 8 \<Longrightarrow> in_range CHR ''0'' CHR ''7'' (CROCKFORD ! i)"
proof -
  have "list_all (\<lambda>i. in_range CHR ''0'' CHR ''7'' (CROCKFORD ! i)) [0..<8]" by code_simp
  then show "i < 8 \<Longrightarrow> in_range CHR ''0'' CHR ''7'' (CROCKFORD ! i)" by (simp add: list_all_iff)
qed

lemma generateUlid_digits:
  assumes "length entropy = 10"
  shows "length (generateUlid time entropy) = 26 \<and> list_all crockford_char (generateUlid time entropy)
    \<and> base32_value (generateUlid time entropy) = (time mod 2 ^ 50) * 2 ^ 80 + big_endian entropy"
  using entropy_digits_ok [of 0 16 entropy 0] time_digits_ok [of 10 time] assms
  by (simp add: generateUlid_def base32_append time_digits_value)

lemma generateUlid_ok:
  assumes "time < 2 ^ 48" and "length entropy = 10"
  shows "ulid_ok (generateUlid time entropy)"
proof -
  have "time div 32 ^ 9 < 8" using assms(1) by (intro less_mult_imp_div_less) simp
  then have "in_range CHR ''0'' CHR ''7'' (CROCKFORD ! (time div 32 ^ 9 mod 32))" by (simp add: low_digit)
  moreover obtain rest where "generateUlid time entropy = CROCKFORD ! (time div 32 ^ 9 mod 32) # rest"
    using time_digits_first [of 9 time] by (auto simp: generateUlid_def)
  ultimately show ?thesis using generateUlid_digits [OF assms(2), of time] by (simp add: ulid_ok_def)
qed

text \<open>A generated identifier is a well-formed ULID that spells the clock and the ten random bytes
  exactly (no bit is lost in the 32-bit buffer, so distinct entropy gives distinct identifiers), and an
  identifier generated at a later millisecond sorts after every earlier one.\<close>

theorem ulid_spells_clock:
  assumes "time < 2 ^ 48" and "length entropy = 10" and "length entropy' = 10" and "time' < time"
  shows "ulid_ok (generateUlid time entropy)
    \<and> base32_value (generateUlid time entropy) = time * 2 ^ 80 + big_endian entropy
    \<and> generateUlid time' entropy' < generateUlid time entropy"
proof -
  have big: "big_endian bs < 256 ^ length bs" for bs
  proof (induction bs)
    case (Cons b bs)
    have "unat b < 256" using unsigned_less [of b, where 'a = nat] by simp
    from two_digits [OF this Cons] show ?case by (simp add: big_endian_Cons)
  qed simp
  note d = generateUlid_digits [OF assms(2), of time] and d' = generateUlid_digits [OF assms(3), of time']
  have "Suc time' * 2 ^ 80 \<le> time * 2 ^ 80" using assms(4) by (intro mult_le_mono1) simp
  with big [of entropy'] assms have "base32_value (generateUlid time' entropy') < base32_value (generateUlid time entropy)"
    using d d' by simp
  moreover have "set (generateUlid time entropy) \<subseteq> set CROCKFORD" "set (generateUlid time' entropy') \<subseteq> set CROCKFORD"
    using d d' crockford_digit by (auto simp: list_all_iff)
  ultimately have "generateUlid time' entropy' < generateUlid time entropy" using d d' by (intro base32_order) (simp_all only:)
  with generateUlid_ok [OF assms(1,2)] d assms(1) show ?thesis by simp
qed

lemma ulid_witness:
  "generateUlid 1700000000000 [1, 2, 3, 4, 5, 6, 7, 8, 9, 10] = ''01hf7yat00041061050r3gg28a''
   \<and> ulid_ok (generateUlid 1700000000001 [255, 2, 3, 4, 5, 6, 7, 8, 9, 10])"
proof (intro conjI)
  show "generateUlid 1700000000000 [1, 2, 3, 4, 5, 6, 7, 8, 9, 10] = ''01hf7yat00041061050r3gg28a''" by code_simp
  show "ulid_ok (generateUlid 1700000000001 [255, 2, 3, 4, 5, 6, 7, 8, 9, 10])"
    using ulid_spells_clock [of 1700000000001 "[255, 2, 3, 4, 5, 6, 7, 8, 9, 10]" "[1, 2, 3, 4, 5, 6, 7, 8, 9, 10]" 1700000000000]
    by simp
qed

end
