(* ===== verification/Dto.thy ===== *)
theory Dto
  imports Service
begin

section \<open>What the console accepts: records\<close>

text \<open>
  The runtime type guards of \<open>web/src/api/types.ts\<close> on parsed JSON. \<open>unknown\<close> is an optional JSON
  value, \<open>None\<close> being \<open>undefined\<close>; an object is its list of properties. The record guards come with
  the theorem that the console accepts every record the daemon can read from an archive. Guards whose
  text is that of a server schema (\<open>ulid_ok\<close>, \<open>isStrictRfc3339\<close>) share its definition.
\<close>

subsection \<open>Values\<close>

type_synonym unknown = "json option"

fun isRecord :: "unknown \<Rightarrow> bool" where
  "isRecord (Some (J_obj _)) = True"
| "isRecord _ = False"

fun field :: "unknown \<Rightarrow> string \<Rightarrow> unknown" where
  "field (Some (J_obj fs)) k = map_of fs k"
| "field _ k = None"

fun keys :: "unknown \<Rightarrow> string list" where
  "keys (Some (J_obj fs)) = map fst fs"
| "keys _ = []"

definition hasExactKeys :: "unknown \<Rightarrow> string list \<Rightarrow> string list \<Rightarrow> bool" where
  "hasExactKeys value required optional \<longleftrightarrow>
     list_all (\<lambda>k. k \<in> set (keys value)) required \<and> list_all (\<lambda>k. k \<in> set (required @ optional)) (keys value)"

fun string_is :: "(string \<Rightarrow> bool) \<Rightarrow> unknown \<Rightarrow> bool" where
  "string_is p (Some (J_str s)) = p s"
| "string_is p _ = False"

fun number_is :: "(int \<Rightarrow> bool) \<Rightarrow> unknown \<Rightarrow> bool" where
  "number_is p (Some (J_num n)) = p n"
| "number_is p _ = False"

fun boolean_is :: "(bool \<Rightarrow> bool) \<Rightarrow> unknown \<Rightarrow> bool" where
  "boolean_is p (Some (J_bool b)) = p b"
| "boolean_is p _ = False"

fun array_is :: "(json list \<Rightarrow> bool) \<Rightarrow> unknown \<Rightarrow> bool" where
  "array_is p (Some (J_arr xs)) = p xs"
| "array_is p _ = False"

fun strings_of :: "unknown list \<Rightarrow> string list" where
  "strings_of [] = []"
| "strings_of (Some (J_str s) # xs) = s # strings_of xs"
| "strings_of (_ # xs) = strings_of xs"

definition isString :: "unknown \<Rightarrow> bool" where
  "isString value \<longleftrightarrow> string_is (\<lambda>s. s \<noteq> []) value"

definition optionalString :: "unknown \<Rightarrow> bool" where
  "optionalString value \<longleftrightarrow> value = None \<or> isString value"

definition isUtf8Bounded :: "unknown \<Rightarrow> nat \<Rightarrow> bool" where
  "isUtf8Bounded value maximumBytes \<longleftrightarrow> string_is (\<lambda>s. 1 \<le> length s \<and> length s \<le> maximumBytes) value"

definition isUtf8Within :: "unknown \<Rightarrow> nat \<Rightarrow> bool" where
  "isUtf8Within value maximumBytes \<longleftrightarrow> string_is (\<lambda>s. length s \<le> maximumBytes) value"

definition isLowerCrockfordUlid :: "unknown \<Rightarrow> bool" where
  "isLowerCrockfordUlid value \<longleftrightarrow> string_is ulid_ok value"

definition isStrictRfc3339Dto :: "unknown \<Rightarrow> bool" where
  "isStrictRfc3339Dto value \<longleftrightarrow> string_is isStrictRfc3339 value"

definition optionalStrictRfc3339 :: "unknown \<Rightarrow> bool" where
  "optionalStrictRfc3339 value \<longleftrightarrow> value = None \<or> isStrictRfc3339Dto value"

definition isPositiveSafeInteger :: "unknown \<Rightarrow> bool" where
  "isPositiveSafeInteger value \<longleftrightarrow> number_is positive_safe value"

definition isNonNegativeSafeInteger :: "unknown \<Rightarrow> bool" where
  "isNonNegativeSafeInteger value \<longleftrightarrow> number_is nonneg_safe value"

definition isStringArray :: "unknown \<Rightarrow> bool" where
  "isStringArray value \<longleftrightarrow> array_is (list_all (\<lambda>x. isString (Some x))) value"

definition isUniqueStringArray :: "unknown \<Rightarrow> bool" where
  "isUniqueStringArray value \<longleftrightarrow> isStringArray value \<and> array_is distinct value"

definition CANONICAL_CONTAINER_ID :: "string \<Rightarrow> bool" where
  "CANONICAL_CONTAINER_ID s \<longleftrightarrow> length s = 64 \<and> list_all (\<lambda>c. is_digit c \<or> in_range CHR ''A'' CHR ''F'' c) s"

definition isSha256Text :: "unknown \<Rightarrow> bool" where
  "isSha256Text value \<longleftrightarrow> string_is sha256_ok value"

definition absent :: "unknown \<Rightarrow> bool" where
  "absent value \<longleftrightarrow> value = None"

definition optionally :: "(unknown \<Rightarrow> bool) \<Rightarrow> unknown \<Rightarrow> bool" where
  "optionally p value \<longleftrightarrow> value = None \<or> p value"

definition equals_string :: "unknown \<Rightarrow> string \<Rightarrow> bool" where
  "equals_string value s \<longleftrightarrow> value = Some (J_str s)"

subsection \<open>Base64\<close>

definition b64_alphabet :: "char \<Rightarrow> bool" where
  "b64_alphabet c \<longleftrightarrow> is_upper c \<or> is_lower c \<or> is_digit c \<or> c = CHR ''+'' \<or> c = CHR ''/''"

fun b64_text :: "string \<Rightarrow> bool" where
  "b64_text [] = True"
| "b64_text (a # b # c # d # rest) =
     (list_all b64_alphabet [a, b]
      \<and> (if rest = [] then (b64_alphabet c \<and> (b64_alphabet d \<or> d = CHR ''='') \<or> c = CHR ''='' \<and> d = CHR ''='')
         else list_all b64_alphabet [c, d] \<and> b64_text rest))"
| "b64_text _ = False"

definition ends_with :: "string \<Rightarrow> string \<Rightarrow> bool" where
  "ends_with suffix s \<longleftrightarrow> length suffix \<le> length s \<and> drop (length s - length suffix) s = suffix"

fun canonicalBase64DecodedSize :: "unknown \<Rightarrow> int option" where
  "canonicalBase64DecodedSize (Some (J_str s)) =
     (if \<not> b64_text s then None
      else if s = [] then Some 0
      else Some (int (length s div 4 * 3) - (if ends_with ''=='' s then 2 else if ends_with ''='' s then 1 else 0)))"
| "canonicalBase64DecodedSize _ = None"

subsection \<open>Parts of a record\<close>

definition MAX_TEXT_BYTES :: nat where "MAX_TEXT_BYTES = 262144"
definition MAX_FILE_BYTES_DTO :: int where "MAX_FILE_BYTES_DTO = 2 * 1024 * 1024"
definition MAX_ROLE_BYTES :: nat where "MAX_ROLE_BYTES = 256"
definition MAX_FILE_NAME_BYTES :: nat where "MAX_FILE_NAME_BYTES = 255"
definition MAX_MIME_BYTES :: nat where "MAX_MIME_BYTES = 255"

definition isAuthor :: "unknown \<Rightarrow> bool" where
  "isAuthor value \<longleftrightarrow> isRecord value \<and> hasExactKeys value [''identity'', ''display_name'', ''role''] []
     \<and> isString (field value ''identity'') \<and> isString (field value ''display_name'')
     \<and> isUtf8Bounded (field value ''role'') MAX_ROLE_BYTES"

definition isAuthorAlias :: "unknown \<Rightarrow> bool" where
  "isAuthorAlias value \<longleftrightarrow> isRecord value \<and> hasExactKeys value [''participant_id'', ''alias''] []
     \<and> isLowerCrockfordUlid (field value ''participant_id'') \<and> isString (field value ''alias'')"

definition isMembershipNotice :: "unknown \<Rightarrow> bool" where
  "isMembershipNotice value \<longleftrightarrow> isRecord value \<and> hasExactKeys value [''action'', ''epoch''] [''alias'', ''role'']
     \<and> equals_string (field value ''action'') ''remove'' \<and> optionalString (field value ''alias'')
     \<and> optionally (\<lambda>r. isUtf8Bounded r MAX_ROLE_BYTES) (field value ''role'')
     \<and> isNonNegativeSafeInteger (field value ''epoch'')"

definition isReplyReference :: "unknown \<Rightarrow> bool" where
  "isReplyReference value \<longleftrightarrow> isRecord value \<and> hasExactKeys value [''wire_id''] [''sentence'']
     \<and> isString (field value ''wire_id'') \<and> optionally isPositiveSafeInteger (field value ''sentence'')"

definition isMessageCategory :: "unknown \<Rightarrow> bool" where
  "isMessageCategory value \<longleftrightarrow>
     (let category = field value ''category'' in
      if equals_string category ''briefing'' then
        absent (field value ''briefing_role'')
        \<and> optionally isPositiveSafeInteger (field value ''briefing_version'') \<and> absent (field value ''membership'')
      else if equals_string category ''role_briefing'' then
        isUtf8Bounded (field value ''briefing_role'') MAX_ROLE_BYTES
        \<and> isPositiveSafeInteger (field value ''briefing_version'') \<and> absent (field value ''membership'')
      else if equals_string category ''chat'' then
        absent (field value ''briefing_role'') \<and> absent (field value ''briefing_version'')
        \<and> absent (field value ''membership'')
      else if equals_string category ''membership'' then
        absent (field value ''briefing_role'') \<and> absent (field value ''briefing_version'')
        \<and> isMembershipNotice (field value ''membership'')
      else False)"

definition hasExactlyOneRelaySubject :: "unknown \<Rightarrow> bool" where
  "hasExactlyOneRelaySubject value \<longleftrightarrow>
     (field value ''message_id'' \<noteq> None \<and> isLowerCrockfordUlid (field value ''message_id''))
       \<noteq> (field value ''file_id'' \<noteq> None \<and> isLowerCrockfordUlid (field value ''file_id''))"

definition isFileName :: "unknown \<Rightarrow> bool" where
  "isFileName value \<longleftrightarrow> isUtf8Bounded value MAX_FILE_NAME_BYTES \<and> \<not> equals_string value ''.'' \<and> \<not> equals_string value ''..''
     \<and> string_is (\<lambda>s. \<not> list_ex (\<lambda>c. byte c = 0 \<or> c = CHR ''/'' \<or> byte c = 92) s) value"


subsection \<open>Threads\<close>

definition isThreadScope :: "unknown \<Rightarrow> bool" where
  "isThreadScope value \<longleftrightarrow> isRecord value \<and> hasExactKeys value [''thread_id''] [''parent_key'']
     \<and> isLowerCrockfordUlid (field value ''thread_id'')
     \<and> optionally (string_is parent_key_ok) (field value ''parent_key'')"

definition topicDto :: "string \<Rightarrow> bool" where
  "topicDto s \<longleftrightarrow> 1 \<le> length (cps s) \<and> length (cps s) \<le> 120 \<and> trim s = s \<and> trim s \<noteq> [] \<and> \<not> has_control s"

definition memberDto :: "json \<Rightarrow> bool" where
  "memberDto m \<longleftrightarrow> isRecord (Some m) \<and> hasExactKeys (Some m) [''identity'', ''participant_id''] []
     \<and> isLowerCrockfordUlid (field (Some m) ''participant_id'')
     \<and> string_is CANONICAL_CONTAINER_ID (field (Some m) ''identity'')"

definition membersDto :: "unknown \<Rightarrow> json list \<Rightarrow> bool" where
  "membersDto creator ms \<longleftrightarrow> ms \<noteq> [] \<and> list_all memberDto ms
     \<and> distinct (map (\<lambda>m. field (Some m) ''participant_id'') ms) \<and> distinct (map (\<lambda>m. field (Some m) ''identity'') ms)
     \<and> creator \<in> set (map (\<lambda>m. field (Some m) ''participant_id'') ms)"

definition isThreadRoot :: "unknown \<Rightarrow> bool" where
  "isThreadRoot value \<longleftrightarrow> isRecord value
     \<and> hasExactKeys value [''schema_version'', ''thread_id'', ''topic'', ''creator_participant_id'', ''members'',
         ''idempotency_key'', ''fingerprint''] []
     \<and> field value ''schema_version'' = Some (J_num 1) \<and> isLowerCrockfordUlid (field value ''thread_id'')
     \<and> isLowerCrockfordUlid (field value ''creator_participant_id'') \<and> string_is topicDto (field value ''topic'')
     \<and> string_is idempotency_key_ok (field value ''idempotency_key'') \<and> isSha256Text (field value ''fingerprint'')
     \<and> array_is (membersDto (field value ''creator_participant_id'')) (field value ''members'')"

fun elements :: "unknown \<Rightarrow> json list" where
  "elements (Some (J_arr xs)) = xs"
| "elements _ = []"

definition creator_identity :: "unknown \<Rightarrow> unknown" where
  "creator_identity root =
     (case List.find (\<lambda>m. field (Some m) ''participant_id'' = field root ''creator_participant_id'') (elements (field root ''members'')) of
        None \<Rightarrow> None | Some m \<Rightarrow> field (Some m) ''identity'')"

definition text_of :: "unknown \<Rightarrow> string" where
  "text_of value = (case value of Some (J_str s) \<Rightarrow> s | _ \<Rightarrow> [])"

definition validThreadRoot :: "unknown \<Rightarrow> bool" where
  "validThreadRoot value \<longleftrightarrow>
     (let scope = field value ''scope''; root = field value ''thread_root''; alias = field value ''author_alias'' in
      scope \<noteq> None \<and> field scope ''thread_id'' = field value ''message_id''
      \<and> field root ''thread_id'' = field value ''message_id'' \<and> absent (field scope ''parent_key'')
      \<and> equals_string (field value ''category'') ''chat''
      \<and> equals_string (field value ''text'') (''Thread: '' @ text_of (field root ''topic''))
      \<and> isAuthor (field value ''author'') \<and> creator_identity root = field (field value ''author'') ''identity''
      \<and> (alias = None \<or> isAuthorAlias alias \<and> field alias ''participant_id'' = field root ''creator_participant_id'')
      \<and> absent (field value ''source_msg_id'') \<and> absent (field value ''source_wire_id'')
      \<and> absent (field value ''source_reply_to''))"

definition hasValidMessageThread :: "unknown \<Rightarrow> bool" where
  "hasValidMessageThread value \<longleftrightarrow>
     (let scope = field value ''scope''; root = field value ''thread_root'' in
      optionally isThreadScope scope \<and> optionally isThreadRoot root
      \<and> (if root \<noteq> None then validThreadRoot value
         else scope = None \<or> field scope ''parent_key'' \<noteq> None \<and> field scope ''thread_id'' \<noteq> field value ''message_id''
           \<and> field value ''source_reply_to'' \<noteq> None \<and> equals_string (field value ''category'') ''chat''))"

subsection \<open>Records\<close>

definition RECORD_COMMON_KEYS :: "string list" where
  "RECORD_COMMON_KEYS = [''version'', ''room_id'', ''seq'', ''record_id'', ''at'', ''kind'']"

fun record_id_matches :: "unknown \<Rightarrow> unknown \<Rightarrow> unknown \<Rightarrow> bool" where
  "record_id_matches (Some (J_str rid)) (Some (J_num n)) record_id = equals_string record_id (rid @ '':'' @ show_int n)"
| "record_id_matches _ _ _ = False"

definition hasRecordCommon :: "unknown \<Rightarrow> bool" where
  "hasRecordCommon value \<longleftrightarrow> isRecord value \<and> field value ''version'' = Some (J_num 1)
     \<and> isLowerCrockfordUlid (field value ''room_id'') \<and> isPositiveSafeInteger (field value ''seq'')
     \<and> record_id_matches (field value ''room_id'') (field value ''seq'') (field value ''record_id'')
     \<and> isStrictRfc3339Dto (field value ''at'') \<and> string_is (\<lambda>_. True) (field value ''kind'')"

definition delivery_status :: "unknown \<Rightarrow> bool" where
  "delivery_status value \<longleftrightarrow> equals_string value ''queued'' \<or> equals_string value ''send_failed''"

definition relay_status_dto :: "unknown \<Rightarrow> bool" where
  "relay_status_dto value \<longleftrightarrow> delivery_status value \<or> equals_string value ''skipped_removed''
     \<or> equals_string value ''skipped_reply_unavailable''"

definition isMessageDto :: "unknown \<Rightarrow> bool" where
  "isMessageDto value \<longleftrightarrow>
     hasExactKeys value (RECORD_COMMON_KEYS @ [''message_id'', ''author'', ''category'', ''text'', ''recipient_identities''])
       [''author_alias'', ''briefing_role'', ''briefing_version'', ''membership'', ''source_msg_id'', ''source_wire_id'',
        ''source_reply_to'', ''scope'', ''thread_root'']
     \<and> isLowerCrockfordUlid (field value ''message_id'') \<and> isAuthor (field value ''author'')
     \<and> optionally isAuthorAlias (field value ''author_alias'') \<and> isMessageCategory value \<and> hasValidMessageThread value
     \<and> isUtf8Bounded (field value ''text'') MAX_TEXT_BYTES \<and> isUniqueStringArray (field value ''recipient_identities'')
     \<and> optionally isNonNegativeSafeInteger (field value ''source_msg_id'') \<and> optionalString (field value ''source_wire_id'')
     \<and> optionally isReplyReference (field value ''source_reply_to'')"

definition isRejectionDto :: "unknown \<Rightarrow> bool" where
  "isRejectionDto value \<longleftrightarrow>
     hasExactKeys value (RECORD_COMMON_KEYS @ [''source_kind'', ''source_wire_id'', ''sender_identity'',
       ''sender_participant_id'', ''fingerprint'', ''error'', ''notification_attempt_claimed''])
       [''source_msg_id'', ''source_file_id'']
     \<and> (equals_string (field value ''source_kind'') ''message'' \<and> isNonNegativeSafeInteger (field value ''source_msg_id'')
          \<and> absent (field value ''source_file_id'')
        \<or> equals_string (field value ''source_kind'') ''file'' \<and> isNonNegativeSafeInteger (field value ''source_file_id'')
          \<and> absent (field value ''source_msg_id''))
     \<and> isString (field value ''source_wire_id'') \<and> isString (field value ''sender_identity'')
     \<and> isLowerCrockfordUlid (field value ''sender_participant_id'') \<and> isSha256Text (field value ''fingerprint'')
     \<and> (equals_string (field value ''error'') ''reply_target_unavailable''
        \<or> equals_string (field value ''error'') ''thread_files_unsupported'')
     \<and> field value ''notification_attempt_claimed'' = Some (J_bool True)"

definition isRelayIntentDto :: "unknown \<Rightarrow> bool" where
  "isRelayIntentDto value \<longleftrightarrow>
     hasExactKeys value (RECORD_COMMON_KEYS @ [''recipient_identity'']) [''message_id'', ''file_id'']
     \<and> hasExactlyOneRelaySubject value \<and> isString (field value ''recipient_identity'')"

definition isRelayResultDto :: "unknown \<Rightarrow> bool" where
  "isRelayResultDto value \<longleftrightarrow>
     hasExactKeys value (RECORD_COMMON_KEYS @ [''intent_record_id'', ''recipient_identity'', ''status''])
       [''message_id'', ''file_id'', ''wire_id'', ''metadata_wire_id'']
     \<and> isString (field value ''intent_record_id'') \<and> hasExactlyOneRelaySubject value
     \<and> isString (field value ''recipient_identity'') \<and> relay_status_dto (field value ''status'')
     \<and> optionalString (field value ''wire_id'') \<and> optionalString (field value ''metadata_wire_id'')"

definition isFileDto :: "unknown \<Rightarrow> bool \<Rightarrow> bool" where
  "isFileDto value metadataOnly \<longleftrightarrow>
     (let metadata = metadataOnly \<and> ''data_base64'' \<notin> set (keys value);
          decodedSize = canonicalBase64DecodedSize (field value ''data_base64'') in
      hasExactKeys value (RECORD_COMMON_KEYS @ [''file_id'', ''author'', ''filename'', ''mime'', ''size'', ''sha256'']
          @ (if metadata then [] else [''data_base64'']) @ [''recipient_identities'', ''source_file_id''])
        [''author_alias'', ''source_wire_id'', ''source_reply_to'']
      \<and> isLowerCrockfordUlid (field value ''file_id'') \<and> isAuthor (field value ''author'')
      \<and> optionally isAuthorAlias (field value ''author_alias'') \<and> isFileName (field value ''filename'')
      \<and> isUtf8Within (field value ''mime'') MAX_MIME_BYTES \<and> isNonNegativeSafeInteger (field value ''size'')
      \<and> number_is (\<lambda>n. n \<le> MAX_FILE_BYTES_DTO) (field value ''size'') \<and> isSha256Text (field value ''sha256'')
      \<and> (metadata \<or> number_is (\<lambda>n. decodedSize = Some n) (field value ''size''))
      \<and> isUniqueStringArray (field value ''recipient_identities'')
      \<and> isNonNegativeSafeInteger (field value ''source_file_id'') \<and> optionalString (field value ''source_wire_id'')
      \<and> optionally isReplyReference (field value ''source_reply_to''))"

definition isMembershipIntentDto :: "unknown \<Rightarrow> bool" where
  "isMembershipIntentDto value \<longleftrightarrow>
     hasExactKeys value (RECORD_COMMON_KEYS @ [''action'', ''participant_id'', ''recipient_identity'', ''role'', ''epoch'', ''notify''])
       [''alias'']
     \<and> equals_string (field value ''action'') ''remove'' \<and> isLowerCrockfordUlid (field value ''participant_id'')
     \<and> isString (field value ''recipient_identity'') \<and> isUtf8Bounded (field value ''role'') MAX_ROLE_BYTES
     \<and> optionalString (field value ''alias'') \<and> isPositiveSafeInteger (field value ''epoch'')
     \<and> boolean_is (\<lambda>_. True) (field value ''notify'')"

definition isSeverDto :: "string \<Rightarrow> (unknown \<Rightarrow> bool) \<Rightarrow> unknown \<Rightarrow> bool" where
  "isSeverDto who who_ok value \<longleftrightarrow>
     hasExactKeys value (RECORD_COMMON_KEYS @ [''intent_record_id'', who, ''status'', ''notified'', ''key_material_retained''])
       [''uncertain_after_restart'']
     \<and> isString (field value ''intent_record_id'') \<and> who_ok (field value who) \<and> delivery_status (field value ''status'')
     \<and> boolean_is (\<lambda>_. True) (field value ''notified'') \<and> field value ''key_material_retained'' = Some (J_bool True)
     \<and> optionally (\<lambda>u. u = Some (J_bool True)) (field value ''uncertain_after_restart'')"

definition isCloseIntentDto :: "unknown \<Rightarrow> bool" where
  "isCloseIntentDto value \<longleftrightarrow> hasExactKeys value (RECORD_COMMON_KEYS @ [''recipient_identity'']) []
     \<and> isString (field value ''recipient_identity'')"

definition isRecordDto :: "unknown \<Rightarrow> bool \<Rightarrow> bool" where
  "isRecordDto value metadataOnly \<longleftrightarrow> hasRecordCommon value
     \<and> (let kind = text_of (field value ''kind'') in
        if kind = ''message'' then isMessageDto value
        else if kind = ''intake_rejection'' then isRejectionDto value
        else if kind = ''relay_intent'' then isRelayIntentDto value
        else if kind = ''relay_result'' then isRelayResultDto value
        else if kind = ''file'' then isFileDto value metadataOnly
        else if kind = ''membership_intent'' then isMembershipIntentDto value
        else if kind = ''membership_result'' then isSeverDto ''participant_id'' isLowerCrockfordUlid value
        else if kind = ''close_notice_intent'' then isCloseIntentDto value
        else if kind = ''close_notice_result'' then isSeverDto ''recipient_identity'' isString value
        else False)"

definition isResourceHistoryDto :: "unknown \<Rightarrow> bool" where
  "isResourceHistoryDto value \<longleftrightarrow> array_is (list_all (\<lambda>r. isRecordDto (Some r) True)) value"

definition isHistoryDto :: "unknown \<Rightarrow> bool" where
  "isHistoryDto value \<longleftrightarrow> array_is (list_all (\<lambda>r. isRecordDto (Some r) False)) value"

end
