(* ===== verification/DtoRooms.thy ===== *)
theory DtoRooms
  imports Dto
begin

section \<open>What the console accepts: rooms, participants and receipts\<close>

text \<open>
  The guards of \<open>web/src/api/types.ts\<close> on rooms and on what the daemon answers to invite, recovery and
  deletion requests, on parsed JSON as in \<open>Dto\<close>. A \<open>Set\<close> that a guard fills is a list of the values
  it saw. \<open>Some True\<close> and \<open>Some False\<close> are the guard's explicit \<open>requireV2\<close>.
\<close>

subsection \<open>Parts of a room\<close>

definition isMission :: "unknown \<Rightarrow> bool \<Rightarrow> bool" where
  "isMission value v2 \<longleftrightarrow> isRecord value
     \<and> hasExactKeys value (if v2 then [''goal'', ''briefing'', ''briefing_version''] else [''goal'', ''briefing'']) []
     \<and> isUtf8Bounded (field value ''goal'') MAX_TEXT_BYTES \<and> isUtf8Bounded (field value ''briefing'') MAX_TEXT_BYTES
     \<and> (v2 \<longrightarrow> isPositiveSafeInteger (field value ''briefing_version''))"

definition participant_state :: "unknown \<Rightarrow> bool" where
  "participant_state value \<longleftrightarrow>
     (let state = field value ''state'' in
      if equals_string state ''pending'' then
        \<not> absent (field value ''requested_at'') \<and> absent (field value ''accepted_at'')
        \<and> absent (field value ''removed_at'') \<and> absent (field value ''removed_epoch'') \<and> absent (field value ''bounced_at'')
      else if equals_string state ''active'' then
        \<not> absent (field value ''accepted_at'') \<and> absent (field value ''removed_at'')
        \<and> absent (field value ''removed_epoch'') \<and> absent (field value ''bounced_at'')
      else \<not> absent (field value ''removed_at'') \<and> \<not> absent (field value ''removed_epoch'')
        \<and> (\<not> absent (field value ''accepted_at'') \<or> \<not> absent (field value ''requested_at'')))"

definition isParticipant :: "unknown \<Rightarrow> bool option \<Rightarrow> bool" where
  "isParticipant value requireV2 \<longleftrightarrow> isRecord value
     \<and> (let v2 = (case requireV2 of Some b \<Rightarrow> b | None \<Rightarrow> ''participant_id'' \<in> set (keys value)) in
        hasExactKeys value
          (if v2 then [''identity'', ''display_name'', ''role'', ''invite_id'', ''participant_id'', ''state'']
           else [''identity'', ''display_name'', ''role'', ''invite_id'', ''accepted_at''])
          (if v2 then [''accepted_at'', ''requested_at'', ''invite_sha256'', ''alias'', ''removed_at'', ''removed_epoch'',
             ''removal_reason'', ''bounced_at''] else [])
        \<and> isString (field value ''identity'') \<and> isString (field value ''display_name'')
        \<and> isUtf8Bounded (field value ''role'') MAX_ROLE_BYTES \<and> isString (field value ''invite_id'')
        \<and> (if \<not> v2 then isStrictRfc3339Dto (field value ''accepted_at'')
           else isLowerCrockfordUlid (field value ''participant_id'')
             \<and> (equals_string (field value ''state'') ''pending'' \<or> equals_string (field value ''state'') ''active''
                \<or> equals_string (field value ''state'') ''removed'')
             \<and> optionalStrictRfc3339 (field value ''accepted_at'') \<and> optionalStrictRfc3339 (field value ''requested_at'')
             \<and> optionally isSha256Text (field value ''invite_sha256'') \<and> optionalString (field value ''alias'')
             \<and> optionalStrictRfc3339 (field value ''removed_at'')
             \<and> optionally isNonNegativeSafeInteger (field value ''removed_epoch'')
             \<and> optionally (\<lambda>r. equals_string (field value ''state'') ''removed'' \<and> equals_string r ''contact_absent'')
                 (field value ''removal_reason'')
             \<and> optionalStrictRfc3339 (field value ''bounced_at'')
             \<and> (absent (field value ''requested_at'') = absent (field value ''invite_sha256''))
             \<and> participant_state value))"

fun entries :: "unknown \<Rightarrow> (string \<times> json) list" where
  "entries (Some (J_obj fs)) = fs"
| "entries _ = []"

definition isRoleBriefingMap :: "unknown \<Rightarrow> bool" where
  "isRoleBriefingMap value \<longleftrightarrow> isRecord value
     \<and> list_all (\<lambda>(role, briefing).
          isUtf8Bounded (Some (J_str role)) MAX_ROLE_BYTES \<and> isRecord (Some briefing)
          \<and> hasExactKeys (Some briefing) [''text'', ''version'', ''updated_at''] []
          \<and> isUtf8Bounded (field (Some briefing) ''text'') MAX_TEXT_BYTES
          \<and> isPositiveSafeInteger (field (Some briefing) ''version'')
          \<and> isStrictRfc3339Dto (field (Some briefing) ''updated_at'')) (entries value)"

definition isRestRoleList :: "unknown \<Rightarrow> bool" where
  "isRestRoleList value \<longleftrightarrow>
     array_is (\<lambda>xs. list_all (\<lambda>r. isUtf8Bounded (Some r) MAX_ROLE_BYTES \<and> \<not> equals_string (Some r) ''room'') xs \<and> distinct xs) value"

definition console_command :: "unknown \<Rightarrow> bool" where
  "console_command c \<longleftrightarrow> equals_string c ''list-members'' \<or> equals_string c ''remove-member''"

definition isRuntimeCommandGrantList :: "unknown \<Rightarrow> bool" where
  "isRuntimeCommandGrantList value \<longleftrightarrow>
     array_is (\<lambda>xs. list_all (\<lambda>g. isRecord (Some g) \<and> hasExactKeys (Some g) [''caller_cid'', ''command''] []
           \<and> string_is CANONICAL_CONTAINER_ID (field (Some g) ''caller_cid'') \<and> console_command (field (Some g) ''command'')) xs
       \<and> distinct (map (\<lambda>g. (field (Some g) ''caller_cid'', field (Some g) ''command'')) xs)) value"

definition isRuntimeRoleCommandGrantList :: "unknown \<Rightarrow> bool" where
  "isRuntimeRoleCommandGrantList value \<longleftrightarrow>
     array_is (\<lambda>xs. list_all (\<lambda>g. isRecord (Some g) \<and> hasExactKeys (Some g) [''role'', ''commands''] []
           \<and> isUtf8Bounded (field (Some g) ''role'') MAX_ROLE_BYTES
           \<and> array_is (\<lambda>cs. distinct cs \<and> list_all (\<lambda>c. console_command (Some c)) cs) (field (Some g) ''commands'')) xs
       \<and> distinct (map (\<lambda>g. field (Some g) ''role'') xs)) value"

definition invite_state_dto :: "unknown \<Rightarrow> bool" where
  "invite_state_dto value \<longleftrightarrow>
     string_is (\<lambda>s. s \<in> {''live'', ''consumed'', ''revoked'', ''replacement_required'', ''receipt_pending''}) value"

definition isRoomInvite :: "unknown \<Rightarrow> bool" where
  "isRoomInvite value \<longleftrightarrow> isRecord value
     \<and> hasExactKeys value [''invite_id'', ''mode'', ''role'', ''min_accepts'', ''accepted_cids'', ''state'', ''created_at'']
         [''recovery_of'', ''recovery_confirmed'']
     \<and> isString (field value ''invite_id'')
     \<and> (equals_string (field value ''mode'') ''one_time'' \<or> equals_string (field value ''mode'') ''public'')
     \<and> isUtf8Bounded (field value ''role'') MAX_ROLE_BYTES \<and> isPositiveSafeInteger (field value ''min_accepts'')
     \<and> isUniqueStringArray (field value ''accepted_cids'') \<and> invite_state_dto (field value ''state'')
     \<and> optionalString (field value ''recovery_of'') \<and> optionally (boolean_is (\<lambda>_. True)) (field value ''recovery_confirmed'')
     \<and> isStrictRfc3339Dto (field value ''created_at'')
     \<and> (equals_string (field value ''mode'') ''one_time'' \<longrightarrow> field value ''min_accepts'' = Some (J_num 1))
     \<and> (absent (field value ''recovery_of'') \<longrightarrow> absent (field value ''recovery_confirmed''))
     \<and> (\<not> absent (field value ''recovery_of'') \<longrightarrow> \<not> absent (field value ''recovery_confirmed''))
     \<and> (equals_string (field value ''state'') ''receipt_pending'' \<longrightarrow>
          \<not> absent (field value ''recovery_of'') \<and> field value ''recovery_confirmed'' = Some (J_bool False)
          \<and> elements (field value ''accepted_cids'') = [])
     \<and> (\<not> absent (field value ''recovery_of'')
          \<and> (equals_string (field value ''state'') ''live'' \<or> equals_string (field value ''state'') ''consumed''
             \<or> equals_string (field value ''state'') ''replacement_required'')
        \<longrightarrow> field value ''recovery_confirmed'' = Some (J_bool True))"

subsection \<open>The room\<close>

definition ROOM_V1_KEYS :: "string list" where
  "ROOM_V1_KEYS = [''version'', ''room_id'', ''room_name'', ''identity_name'', ''identity_cid'', ''mission'', ''state'',
     ''invites'', ''seats'', ''created_at'']"

definition ROOM_V2_KEYS :: "string list" where
  "ROOM_V2_KEYS = ROOM_V1_KEYS @ [''role_briefings'', ''rest_roles'', ''command_grants'', ''role_command_grants'',
     ''anonymous'', ''quiet_membership'', ''membership_epoch'']"

definition isPacketPendingIdentityName :: "string \<Rightarrow> string \<Rightarrow> bool" where
  "isPacketPendingIdentityName roomName identityName \<longleftrightarrow>
     identityName = ''ours-cowork:'' @ of_cps (take (64 - length (cps ''ours-cowork:'')) (cps roomName))"

definition room_fields_dto :: "(string \<Rightarrow> string) \<Rightarrow> unknown \<Rightarrow> bool \<Rightarrow> bool" where
  "room_fields_dto nfc value v2 \<longleftrightarrow>
     hasExactKeys value (if v2 then ROOM_V2_KEYS else ROOM_V1_KEYS) [''status'', ''activated_at'', ''closed_at'']
     \<and> isLowerCrockfordUlid (field value ''room_id'') \<and> string_is (isNormalizedRoomName nfc) (field value ''room_name'')
     \<and> isString (field value ''identity_name'') \<and> string_is (\<lambda>_. True) (field value ''identity_cid'')
     \<and> isMission (field value ''mission'') v2
     \<and> string_is (\<lambda>s. s \<in> {''provisioning'', ''active'', ''closing'', ''closed''}) (field value ''state'')
     \<and> optionalString (field value ''status'')
     \<and> array_is (list_all (\<lambda>i. isRoomInvite (Some i))) (field value ''invites'')
     \<and> array_is (list_all (\<lambda>s. isParticipant (Some s) (Some v2))) (field value ''seats'')
     \<and> isStrictRfc3339Dto (field value ''created_at'') \<and> optionalStrictRfc3339 (field value ''activated_at'')
     \<and> optionalStrictRfc3339 (field value ''closed_at'')"

definition room_v2_fields_dto :: "unknown \<Rightarrow> bool" where
  "room_v2_fields_dto value \<longleftrightarrow>
     isRoleBriefingMap (field value ''role_briefings'') \<and> isRestRoleList (field value ''rest_roles'')
     \<and> isRuntimeCommandGrantList (field value ''command_grants'')
     \<and> isRuntimeRoleCommandGrantList (field value ''role_command_grants'')
     \<and> boolean_is (\<lambda>_. True) (field value ''anonymous'') \<and> boolean_is (\<lambda>_. True) (field value ''quiet_membership'')
     \<and> isNonNegativeSafeInteger (field value ''membership_epoch'')"

definition number_of :: "unknown \<Rightarrow> int" where
  "number_of value = (case value of Some (J_num n) \<Rightarrow> n | _ \<Rightarrow> 0)"

text \<open>The loop over the seats, with the identities and aliases seen so far.\<close>

fun seat_scan :: "bool \<Rightarrow> int \<Rightarrow> unknown list \<Rightarrow> unknown list \<Rightarrow> json list \<Rightarrow> bool" where
  "seat_scan anonymous epoch authorizedCids activeAliases [] = True"
| "seat_scan anonymous epoch authorizedCids activeAliases (s # ss) =
     (let seat = Some s; state = field seat ''state''; alias = field seat ''alias'';
          live = equals_string state ''pending'' \<or> equals_string state ''active'';
          aliased = equals_string state ''active'' \<and> \<not> absent alias in
      \<not> (live \<and> field seat ''identity'' \<in> set authorizedCids)
      \<and> (if anonymous then \<not> absent alias else absent alias)
      \<and> (if equals_string state ''removed'' then
           \<not> absent (field seat ''removed_at'') \<and> \<not> absent (field seat ''removed_epoch'')
           \<and> number_of (field seat ''removed_epoch'') \<le> epoch
         else absent (field seat ''removed_at'') \<and> absent (field seat ''removed_epoch'') \<and> absent (field seat ''bounced_at''))
      \<and> \<not> (aliased \<and> alias \<in> set activeAliases)
      \<and> seat_scan anonymous epoch (if live then field seat ''identity'' # authorizedCids else authorizedCids)
          (if aliased then alias # activeAliases else activeAliases) ss)"

definition active_cids_dto :: "json list \<Rightarrow> unknown list" where
  "active_cids_dto seats =
     map (\<lambda>s. field (Some s) ''identity'') (filter (\<lambda>s. equals_string (field (Some s) ''state'') ''active'') seats)"

definition room_seats_dto :: "unknown \<Rightarrow> bool" where
  "room_seats_dto value \<longleftrightarrow>
     (let seats = elements (field value ''seats'') in
      distinct (map (\<lambda>s. field (Some s) ''participant_id'') seats)
      \<and> seat_scan (field value ''anonymous'' = Some (J_bool True)) (number_of (field value ''membership_epoch'')) [] [] seats
      \<and> list_all (\<lambda>g. field (Some g) ''caller_cid'' \<in> set (active_cids_dto seats)) (elements (field value ''command_grants'')))"

definition exactPacketPending :: "unknown \<Rightarrow> bool" where
  "exactPacketPending value \<longleftrightarrow>
     equals_string (field value ''state'') ''provisioning'' \<and> equals_string (field value ''status'') ''packet_pending''
     \<and> isPacketPendingIdentityName (text_of (field value ''room_name'')) (text_of (field value ''identity_name''))
     \<and> elements (field value ''invites'') = [] \<and> elements (field value ''seats'') = []
     \<and> absent (field value ''activated_at'') \<and> absent (field value ''closed_at'')"

definition find_invite_dto :: "json list \<Rightarrow> unknown \<Rightarrow> json option" where
  "find_invite_dto invites ident = List.find (\<lambda>c. field (Some c) ''invite_id'' = ident) invites"

definition validSourceState :: "unknown \<Rightarrow> unknown \<Rightarrow> bool" where
  "validSourceState invite source \<longleftrightarrow>
     (let state = field invite ''state''; from = field source ''state'' in
      if equals_string state ''receipt_pending'' then equals_string from ''replacement_required''
      else if equals_string state ''live'' \<or> equals_string state ''consumed'' \<or> equals_string state ''replacement_required''
      then equals_string from ''revoked''
      else if equals_string state ''revoked'' then
        (if field invite ''recovery_confirmed'' = Some (J_bool True) then equals_string from ''revoked''
         else equals_string from ''replacement_required'' \<or> equals_string from ''revoked'')
      else False)"

definition recovery_dto :: "json list \<Rightarrow> json \<Rightarrow> bool" where
  "recovery_dto invites i \<longleftrightarrow>
     (let invite = Some i; ro = field invite ''recovery_of'' in
      ro = None \<or>
      (case find_invite_dto invites ro of None \<Rightarrow> False
       | Some s \<Rightarrow> field (Some s) ''invite_id'' \<noteq> field invite ''invite_id'' \<and> validSourceState invite (Some s)
           \<and> field (Some s) ''mode'' = field invite ''mode'' \<and> field (Some s) ''role'' = field invite ''role''
           \<and> field (Some s) ''min_accepts'' = field invite ''min_accepts''))"

fun pending_recoveries_dto :: "json list \<Rightarrow> unknown list" where
  "pending_recoveries_dto [] = []"
| "pending_recoveries_dto (i # is) =
     (if field (Some i) ''recovery_of'' \<noteq> None \<and> equals_string (field (Some i) ''state'') ''receipt_pending''
      then field (Some i) ''recovery_of'' # pending_recoveries_dto is else pending_recoveries_dto is)"

text \<open>The walk up the recovery lineage of an invite: it ends, since each step finds an invite whose id was
  not seen before.\<close>

definition invite_ids_dto :: "json list \<Rightarrow> unknown list" where
  "invite_ids_dto invites = map (\<lambda>c. field (Some c) ''invite_id'') invites"

definition recovery_of_dto :: "json \<Rightarrow> unknown" where
  "recovery_of_dto i = field (Some i) ''recovery_of''"

lemma find_invite_dto_id: "find_invite_dto invites ro = Some s \<Longrightarrow> ro \<in> set (invite_ids_dto invites)"
  using find_SomeD [of "\<lambda>c. field (Some c) ''invite_id'' = ro" invites s]
  by (auto simp: find_invite_dto_def invite_ids_dto_def)

lemma fewer_ids: "ro \<in> s \<Longrightarrow> ro \<notin> set l \<Longrightarrow> finite s \<Longrightarrow> card (s - set (ro # l)) < card (s - set l)"
  by (rule psubset_card_mono) auto

function lineage_walk :: "json list \<Rightarrow> unknown list \<Rightarrow> json \<Rightarrow> bool" where
  "lineage_walk invites lineage cursor =
     (if recovery_of_dto cursor = None then True
      else if recovery_of_dto cursor \<in> set lineage then False
      else (case find_invite_dto invites (recovery_of_dto cursor) of None \<Rightarrow> False
            | Some source \<Rightarrow> lineage_walk invites (recovery_of_dto cursor # lineage) source))"
  by pat_completeness auto
termination
proof (relation "measure (\<lambda>(invites, lineage, cursor). card (set (invite_ids_dto invites) - set lineage))", goal_cases)
  case 1
  show ?case by simp
next
  case (2 invites lineage cursor x2)
  show ?case unfolding in_measure prod.case by (rule fewer_ids [OF find_invite_dto_id [OF 2(3)] 2(2)]) simp
qed

declare lineage_walk.simps [simp del]

definition room_invites_dto :: "unknown \<Rightarrow> bool" where
  "room_invites_dto value \<longleftrightarrow>
     (let invites = elements (field value ''invites'') in
      list_all (recovery_dto invites) invites \<and> distinct (pending_recoveries_dto invites)
      \<and> list_all (\<lambda>i. lineage_walk invites [field (Some i) ''invite_id''] i) invites)"

definition isRoomDto :: "(string \<Rightarrow> string) \<Rightarrow> unknown \<Rightarrow> bool" where
  "isRoomDto nfc value \<longleftrightarrow> isRecord value
     \<and> (field value ''version'' = Some (J_num 1) \<or> field value ''version'' = Some (J_num 2))
     \<and> (let v2 = (field value ''version'' = Some (J_num 2)); cid = text_of (field value ''identity_cid'') in
        room_fields_dto nfc value v2
        \<and> (v2 \<longrightarrow> room_v2_fields_dto value)
        \<and> distinct (invite_ids_dto (elements (field value ''invites'')))
        \<and> (\<not> v2 \<longrightarrow> distinct (map (\<lambda>s. field (Some s) ''identity'') (elements (field value ''seats''))))
        \<and> (v2 \<longrightarrow> room_seats_dto value)
        \<and> \<not> (cid = [] \<and> \<not> exactPacketPending value)
        \<and> \<not> (cid \<noteq> [] \<and> equals_string (field value ''status'') ''packet_pending'')
        \<and> room_invites_dto value)"

definition isRoomListDto :: "(string \<Rightarrow> string) \<Rightarrow> unknown \<Rightarrow> bool" where
  "isRoomListDto nfc value \<longleftrightarrow> array_is (list_all (\<lambda>r. isRoomDto nfc (Some r))) value"

definition isParticipantListDto :: "unknown \<Rightarrow> bool" where
  "isParticipantListDto value \<longleftrightarrow>
     array_is (\<lambda>ps. list_all (\<lambda>p. isParticipant (Some p) None) ps
       \<and> (let v2Count = length (filter (\<lambda>p. field (Some p) ''participant_id'' \<noteq> None) ps) in
          (v2Count = 0 \<or> v2Count = length ps)
          \<and> (if v2Count \<noteq> length ps then distinct (map (\<lambda>p. field (Some p) ''identity'') ps)
             else distinct (map (\<lambda>p. field (Some p) ''participant_id'') ps)
               \<and> distinct (map (\<lambda>p. field (Some p) ''identity'')
                   (filter (\<lambda>p. equals_string (field (Some p) ''state'') ''pending''
                       \<or> equals_string (field (Some p) ''state'') ''active'') ps)))) ) value"


subsection \<open>Receipts\<close>

definition isInviteReceiptDto :: "unknown \<Rightarrow> bool" where
  "isInviteReceiptDto value \<longleftrightarrow> isRecord value \<and> isString (field value ''room_id'') \<and> isRoomInvite (field value ''invite'')
     \<and> isString (field value ''blob'') \<and> boolean_is (\<lambda>_. True) (field value ''reusable'')
     \<and> optionalString (field value ''recovery_of'')"

definition isInviteReceiptListDto :: "unknown \<Rightarrow> bool" where
  "isInviteReceiptListDto value \<longleftrightarrow> array_is (list_all (\<lambda>r. isInviteReceiptDto (Some r))) value"

record create_invite_dto =
  ci_room_id :: string
  ci_invite_mode :: string
  ci_role :: string
  ci_min_accepts :: int

text \<open>The three validators return the value they accept and throw otherwise.\<close>

definition accepted_or_throw :: "bool \<Rightarrow> string \<Rightarrow> unknown \<Rightarrow> err + unknown" where
  "accepted_or_throw ok message value = (if ok then Inr value else Inl (Plain_error message))"

definition validateCreatedInviteReceipt :: "unknown \<Rightarrow> create_invite_dto \<Rightarrow> err + unknown" where
  "validateCreatedInviteReceipt value request =
     (let invite = field value ''invite'' in
      accepted_or_throw
        (isInviteReceiptDto value \<and> equals_string (field value ''room_id'') (ci_room_id request)
         \<and> equals_string (field invite ''mode'') (ci_invite_mode request) \<and> equals_string (field invite ''role'') (ci_role request)
         \<and> field invite ''min_accepts'' = Some (J_num (ci_min_accepts request))
         \<and> elements (field invite ''accepted_cids'') = [] \<and> equals_string (field invite ''state'') ''live''
         \<and> absent (field invite ''recovery_of'') \<and> absent (field invite ''recovery_confirmed'')
         \<and> absent (field value ''recovery_of'')
         \<and> field value ''reusable'' = Some (J_bool (ci_invite_mode request = ''public'')))
        ''daemon returned an invalid invite receipt for this create request'' value)"

fun recovery_receipts_ok :: "unknown \<Rightarrow> unknown list \<Rightarrow> unknown list \<Rightarrow> json list \<Rightarrow> bool" where
  "recovery_receipts_ok room inviteIds sources [] = True"
| "recovery_receipts_ok room inviteIds sources (r # rs) =
     (let receipt = Some r; invite = field receipt ''invite''; ro = field receipt ''recovery_of'';
          invites = elements (field room ''invites'') in
      field receipt ''room_id'' = field room ''room_id'' \<and> ro \<noteq> None \<and> field invite ''recovery_of'' = ro
      \<and> equals_string (field invite ''state'') ''receipt_pending'' \<and> field invite ''recovery_confirmed'' = Some (J_bool False)
      \<and> elements (field invite ''accepted_cids'') = []
      \<and> field receipt ''reusable'' = Some (J_bool (equals_string (field invite ''mode'') ''public''))
      \<and> (case find_invite_dto invites ro of None \<Rightarrow> False
         | Some s \<Rightarrow> equals_string (field (Some s) ''state'') ''replacement_required''
             \<and> field (Some s) ''mode'' = field invite ''mode'' \<and> field (Some s) ''role'' = field invite ''role''
             \<and> field (Some s) ''min_accepts'' = field invite ''min_accepts''
             \<and> field (Some s) ''invite_id'' \<noteq> field invite ''invite_id'')
      \<and> field invite ''invite_id'' \<notin> set (invite_ids_dto invites)
      \<and> field invite ''invite_id'' \<notin> set inviteIds \<and> ro \<notin> set sources
      \<and> recovery_receipts_ok room (field invite ''invite_id'' # inviteIds) (ro # sources) rs)"

definition validateRecoveryInviteReceipts :: "unknown \<Rightarrow> unknown \<Rightarrow> err + unknown" where
  "validateRecoveryInviteReceipts value room =
     accepted_or_throw (isInviteReceiptListDto value \<and> recovery_receipts_ok room [] [] (elements value))
       ''daemon returned an invalid recovery receipt for this room state'' value"

definition validateConfirmedRecoveryInvite :: "unknown \<Rightarrow> unknown \<Rightarrow> err + unknown" where
  "validateConfirmedRecoveryInvite value receipt =
     (let invite = field receipt ''invite'' in
      accepted_or_throw
        (isRoomInvite value \<and> \<not> absent (field receipt ''recovery_of'')
         \<and> field value ''invite_id'' = field invite ''invite_id'' \<and> field value ''recovery_of'' = field receipt ''recovery_of''
         \<and> field value ''recovery_confirmed'' = Some (J_bool True)
         \<and> string_is (\<lambda>s. s \<in> {''live'', ''consumed'', ''replacement_required'', ''revoked''}) (field value ''state'')
         \<and> field value ''mode'' = field invite ''mode'' \<and> field value ''role'' = field invite ''role''
         \<and> field value ''min_accepts'' = field invite ''min_accepts'')
        ''daemon returned an invalid recovery confirmation for the displayed old/new pointer'' value)"

definition isDeleteRoomReceiptDto :: "unknown \<Rightarrow> bool" where
  "isDeleteRoomReceiptDto value \<longleftrightarrow> isRecord value \<and> length (keys value) = 4 \<and> field value ''version'' = Some (J_num 1)
     \<and> isString (field value ''room_id'') \<and> field value ''deleted'' = Some (J_bool True)
     \<and> equals_string (field value ''scope'') ''this_host''"

end
