(* ===== verification/ConsoleRecords.thy ===== *)
theory ConsoleRecords
  imports Dto Samples
begin

section \<open>The console accepts the daemon's records\<close>

text \<open>
  The guards of \<open>Dto\<close> applied to the JSON the daemon writes (\<open>row_json\<close>): one lemma per kind of
  record, from the schema every archive read goes through to the console's guard.
\<close>

subsection \<open>Reading the written properties\<close>

definition first_of :: "'a option \<Rightarrow> 'a option \<Rightarrow> 'a option" where
  "first_of a b = (if a = None then b else a)"

lemma first_of_simps [simp]: "first_of None b = b" "first_of (Some x) b = Some x" "first_of a None = a"
  by (simp_all add: first_of_def)

lemma map_of_first: "map_of (xs @ ys) k = first_of (map_of xs k) (map_of ys k)"
  by (cases "map_of xs k") (simp_all add: map_of_append map_add_def first_of_def split: option.split)

declare map_of_append [simp del]

lemma opt_field_facts [simp]:
  "map_of (opt_field k f v) k' = (if k' = k then map_option f v else None)"
  "map fst (opt_field k f v) = (if v = None then [] else [k])"
  by (cases v; simp add: opt_field_def)+

lemma optionally_map [simp]: "optionally p (map_option f v) = opt_ok (\<lambda>x. p (Some (f x))) v"
  by (cases v) (simp_all add: optionally_def)

lemma absent_map [simp]: "absent (map_option f v) = (v = None)"
  by (simp add: absent_def)

lemma optionalString_map [simp]: "optionalString (map_option J_str v) = opt_ok nonempty v"
  by (cases v) (simp_all add: optionalString_def isString_def nonempty_def)

lemma missing_simps [simp]: "optionally p None" "optionalString None" "absent None" "\<not> absent (Some x)"
  by (simp_all add: optionally_def optionalString_def absent_def)

lemma value_simps [simp]:
  "isString (Some (J_str s)) = nonempty s" "\<not> isString None"
  "isUtf8Bounded (Some (J_str s)) n = utf8Bounded n s" "isUtf8Within (Some (J_str s)) n = (length s \<le> n)"
  "isLowerCrockfordUlid (Some (J_str s)) = ulid_ok s" "isStrictRfc3339Dto (Some (J_str s)) = isStrictRfc3339 s"
  "isPositiveSafeInteger (Some (J_num i)) = positive_safe i" "isNonNegativeSafeInteger (Some (J_num i)) = nonneg_safe i"
  "isSha256Text (Some (J_str s)) = sha256_ok s" "equals_string (Some (J_str s)) t = (s = t)" "\<not> equals_string None t"
  "isLowerCrockfordUlid (map_option J_str v) = (\<exists>s. v = Some s \<and> ulid_ok s)"
  "isNonNegativeSafeInteger (map_option J_num m) = (\<exists>i. m = Some i \<and> nonneg_safe i)"
  "isPositiveSafeInteger (map_option J_num m) = (\<exists>i. m = Some i \<and> positive_safe i)"
  "isUtf8Bounded (map_option J_str v) n = (\<exists>s. v = Some s \<and> utf8Bounded n s)"
  by (cases v; cases m; simp add: isString_def nonempty_def isUtf8Bounded_def utf8Bounded_def isUtf8Within_def
      isLowerCrockfordUlid_def isStrictRfc3339Dto_def isPositiveSafeInteger_def isNonNegativeSafeInteger_def
      isSha256Text_def equals_string_def)+

lemma present_simps [simp]: "optionalString (Some (J_str s)) = nonempty s" "optionally p (Some x) = p (Some x)"
  by (simp_all add: optionalString_def optionally_def)

lemma unique_strings [simp]: "isUniqueStringArray (Some (strings_json xs)) \<longleftrightarrow> list_all nonempty xs \<and> distinct xs"
  by (auto simp: isUniqueStringArray_def isStringArray_def strings_json_def list_all_iff distinct_map inj_on_def)

lemmas dto_simps = map_of_first hasExactKeys_def RECORD_COMMON_KEYS_def list_all_append

lemma relay_intent_accepted:
  "relay_intent_ok i \<Longrightarrow> w_body w = Relay_intent i \<Longrightarrow> isRelayIntentDto (Some (row_json b w))"
  by (auto simp: isRelayIntentDto_def row_json_def dto_simps relay_intent_ok_def hasExactlyOneRelaySubject_def
     refineRelaySubject_def opt_ok_def split: option.splits)

lemma relay_result_accepted:
  "relay_result_ok r \<Longrightarrow> w_body w = Relay_result r \<Longrightarrow> isRelayResultDto (Some (row_json b w))"
  by (cases "rs_status r") (auto simp: isRelayResultDto_def row_json_def dto_simps relay_result_ok_def hasExactlyOneRelaySubject_def
     refineRelaySubject_def opt_ok_def relay_status_dto_def delivery_status_def split: option.splits)

lemma rejection_accepted:
  "rejection_ok r \<Longrightarrow> w_body w = Intake_rejection r \<Longrightarrow> isRejectionDto (Some (row_json b w))"
  by (cases "rj_error r"; cases "rj_source_kind r")
    (auto simp: isRejectionDto_def row_json_def rejection_fields_def dto_simps rejection_ok_def refineIntakeRejection_def)

lemma close_intent_accepted:
  "nonempty c \<Longrightarrow> w_body w = Close_notice_intent c \<Longrightarrow> isCloseIntentDto (Some (row_json b w))"
  by (simp add: isCloseIntentDto_def row_json_def dto_simps)

lemma close_result_accepted:
  "close_result_ok r \<Longrightarrow> w_body w = Close_notice_result r \<Longrightarrow> isSeverDto ''recipient_identity'' isString (Some (row_json b w))"
  by (auto simp: isSeverDto_def row_json_def sever_fields_def dto_simps close_result_ok_def relay_status_basic_def delivery_status_def
     optionally_def)

lemma membership_result_accepted:
  "membership_result_ok r \<Longrightarrow> w_body w = Membership_result r
     \<Longrightarrow> isSeverDto ''participant_id'' isLowerCrockfordUlid (Some (row_json b w))"
  by (auto simp: isSeverDto_def row_json_def sever_fields_def dto_simps membership_result_ok_def relay_status_basic_def delivery_status_def
     optionally_def)

lemma membership_intent_accepted:
  "membership_intent_ok j \<Longrightarrow> w_body w = Membership_intent j
     \<Longrightarrow> isMembershipIntentDto (Some (row_json b w)) \<longleftrightarrow> mj_command j = None"
  by (auto simp: isMembershipIntentDto_def row_json_def removal_fields_def dto_simps membership_intent_ok_def role_ok_def
    MAX_ROLE_BYTES_def)


subsection \<open>Message records\<close>

lemma hasExactKeys_obj [simp]:
  "hasExactKeys (Some (J_obj fs)) req opt \<longleftrightarrow>
     list_all (\<lambda>k. k \<in> set (map fst fs)) req \<and> list_all (\<lambda>k. k \<in> set (req @ opt)) (map fst fs)"
  by (simp add: hasExactKeys_def)

lemma isAuthor_json [simp]: "isAuthor (Some (author_json a)) = author_ok a"
  by (simp add: isAuthor_def author_json_def author_ok_def role_ok_def MAX_ROLE_BYTES_def)

lemma isAuthorAlias_json [simp]: "isAuthorAlias (Some (alias_json a)) = alias_ok a"
  by (simp add: isAuthorAlias_def alias_json_def alias_ok_def)

lemma isMembershipNotice_json [simp]: "isMembershipNotice (Some (notice_json n)) = notice_ok n"
  by (auto simp: isMembershipNotice_def notice_json_def notice_ok_def role_ok_def [abs_def] MAX_ROLE_BYTES_def map_of_first
      opt_ok_def split: option.splits)

lemma isReplyReference_json [simp]: "isReplyReference (Some (reply_ref_json r)) = reply_ref_ok r"
  by (simp add: isReplyReference_def reply_ref_json_def reply_ref_ok_def)

lemma isThreadScope_json [simp]: "isThreadScope (Some (scope_json sc)) = scope_ok sc"
  by (simp add: isThreadScope_def scope_json_def scope_ok_def)


definition member_json :: "thread_member \<Rightarrow> json" where
  "member_json m = J_obj [(''participant_id'', J_str (tm_participant_id m)), (''identity'', J_str (tm_identity m))]"

lemma hex_upper_canonical: "is_hex c \<Longrightarrow> \<not> is_lower c \<Longrightarrow> is_digit c \<or> in_range CHR ''A'' CHR ''F'' c"
  by (auto simp: is_hex_def is_hex_lower_def is_digit_def is_lower_def in_range_def byte_def)

lemma map_fixed: "map f xs = xs \<Longrightarrow> x \<in> set xs \<Longrightarrow> f x = x"
  by (induction xs) auto

lemma upper_fixed:
  assumes "to_upper s = s" and "c \<in> set s"
  shows "\<not> is_lower c"
proof
  assume low: "is_lower c"
  have "char_of (byte c - 32) = c"
    using map_fixed [OF assms(1) [unfolded to_upper_def] assms(2)] low by simp
  then have "byte (char_of (byte c - 32)) = byte c" by simp
  moreover have "byte c - 32 < 256" by (rule le_less_trans [OF diff_le_self byte_less])
  ultimately have "byte c - 32 = byte c" by simp
  moreover have "97 \<le> byte c" using low by (simp add: is_lower_def in_range_def byte_def)
  ultimately show False by linarith
qed

lemma cid_canonical: "cid_parse c = Some c \<Longrightarrow> CANONICAL_CONTAINER_ID c"
  using upper_fixed [of c] hex_upper_canonical
  by (auto simp: cid_parse_def CANONICAL_CONTAINER_ID_def list_all_iff split: if_splits)

lemma list_parse_all: "list_parse p xs = Some xs \<Longrightarrow> x \<in> set xs \<Longrightarrow> p x = Some x"
  by (induction xs) (auto split: option.splits)

lemma member_field [simp]:
  "field (Some (member_json m)) ''participant_id'' = Some (J_str (tm_participant_id m))"
  "field (Some (member_json m)) ''identity'' = Some (J_str (tm_identity m))"
  by (simp_all add: member_json_def)

lemma memberDto_json: "member_parse m = Some m \<Longrightarrow> memberDto (member_json m)"
proof -
  assume p: "member_parse m = Some m"
  then obtain c where c: "cid_parse (tm_identity m) = Some c" "ulid_ok (tm_participant_id m)" "m\<lparr>tm_identity := c\<rparr> = m"
    by (auto simp: member_parse_def split: option.splits if_splits)
  then have "tm_identity m = c" by (metis thread_member.select_convs(2) thread_member.surjective thread_member.update_convs(2))
  with c cid_canonical [of c] show ?thesis by (simp add: memberDto_def member_json_def)
qed

lemma root_json_members: "field (Some (root_json tr)) ''members'' = Some (J_arr (map member_json (tr_members tr)))"
  by (simp add: root_json_def member_json_def)

lemma root_json_fields [simp]:
  "field (Some (root_json tr)) ''thread_id'' = Some (J_str (tr_thread_id tr))"
  "field (Some (root_json tr)) ''topic'' = Some (J_str (tr_topic tr))"
  "field (Some (root_json tr)) ''creator_participant_id'' = Some (J_str (tr_creator_participant_id tr))"
  "field (Some (root_json tr)) ''idempotency_key'' = Some (J_str (tr_idempotency_key tr))"
  "field (Some (root_json tr)) ''fingerprint'' = Some (J_str (tr_fingerprint tr))"
  "field (Some (root_json tr)) ''schema_version'' = Some (J_num 1)"
  by (simp_all add: root_json_def)

lemma trim_nonempty: "trim_cps (cps s) \<noteq> [] \<Longrightarrow> trim s = s \<Longrightarrow> s \<noteq> []"
  by (auto simp: trim_cps_def)

lemma topicDto_stored: "stored_topic_ok s \<Longrightarrow> topicDto s"
  using trim_nonempty [of s] by (auto simp: stored_topic_ok_def topic_text_ok_def topicDto_def)

lemma isThreadRoot_json:
  assumes "ThreadRootSchema_parse tr = Some tr"
  shows "isThreadRoot (Some (root_json tr))"
proof -
  obtain ms where p: "list_parse member_parse (tr_members tr) = Some ms" and eq: "tr_members tr = ms"
    using assms by (auto simp: ThreadRootSchema_parse_def split: option.splits if_splits) (metis thread_root.select_convs(4) thread_root.surjective thread_root.update_convs(4))
  have ms: "list_all memberDto (map member_json (tr_members tr))"
    using p eq list_parse_all [of member_parse "tr_members tr"] memberDto_json by (auto simp: list_all_iff)
  have keys: "isRecord (Some (root_json tr)) \<and> hasExactKeys (Some (root_json tr)) [''schema_version'', ''thread_id'', ''topic'',
      ''creator_participant_id'', ''members'', ''idempotency_key'', ''fingerprint''] []"
    by (simp add: root_json_def)
  have dist: "distinct (map tm_participant_id (tr_members tr))" "distinct (map tm_identity (tr_members tr))"
      "tr_creator_participant_id tr \<in> set (map tm_participant_id (tr_members tr))" "tr_members tr \<noteq> []"
    and rest: "ulid_ok (tr_thread_id tr)" "stored_topic_ok (tr_topic tr)" "ulid_ok (tr_creator_participant_id tr)"
      "idempotency_key_ok (tr_idempotency_key tr)" "sha256_ok (tr_fingerprint tr)"
    using assms p eq by (auto simp: ThreadRootSchema_parse_def split: if_splits)
  have "membersDto (Some (J_str (tr_creator_participant_id tr))) (map member_json (tr_members tr))"
    using dist ms by (auto simp: membersDto_def distinct_map inj_on_def)
  with keys rest topicDto_stored show ?thesis by (simp add: isThreadRoot_def root_json_members)
qed

lemma find_map: "List.find P (map f xs) = map_option f (List.find (\<lambda>x. P (f x)) xs)"
  by (induction xs) simp_all

lemma creator_identity_json:
  "creator_identity (Some (root_json tr))
     = map_option (\<lambda>m. J_str (tm_identity m)) (find_member (tr_members tr) (tr_creator_participant_id tr))"
  by (simp add: creator_identity_def root_json_members find_map find_member_def option.case_eq_if map_option_case)


definition row_value :: "bool \<Rightarrow> row \<Rightarrow> unknown" where
  "row_value b w = Some (row_json b w)"

subsection \<open>File records\<close>

lemma b64_char_alphabet: "n < 64 \<Longrightarrow> b64_alphabet (b64_char n)"
proof -
  have "list_all (\<lambda>n. b64_alphabet (b64_char n)) [0..<64]" by code_simp
  then show "n < 64 \<Longrightarrow> b64_alphabet (b64_char n)" by (simp add: list_all_iff)
qed

lemma b64_alphabet_pad: "b64_alphabet c \<Longrightarrow> c \<noteq> CHR ''=''"
  by (auto simp: b64_alphabet_def is_upper_def is_lower_def is_digit_def in_range_def byte_def)

lemma b64_encode_Nil [simp]: "(b64_encode s = []) = (s = [])"
  by (cases s rule: b64_encode.cases) simp_all

lemma b64_encode_text: "b64_text (b64_encode s)"
  by (induction s rule: b64_encode.induct) (auto simp: b64_char_alphabet b64_ranges)

lemma ends_with_Cons:
  "suffix \<noteq> [] \<Longrightarrow> length suffix \<le> length s \<Longrightarrow> ends_with suffix (a # s) = ends_with suffix s"
  by (simp add: ends_with_def Suc_diff_le)

lemma b64_padding:
  "int (length (b64_encode s) div 4 * 3)
     - (if ends_with ''=='' (b64_encode s) then 2 else if ends_with ''='' (b64_encode s) then 1 else 0) = int (length s)
   \<and> length (b64_encode s) mod 4 = 0"
proof (induction s rule: b64_encode.induct)
  case 1
  then show ?case by (simp add: ends_with_def)
next
  case (2 a)
  then show ?case by (simp add: ends_with_def)
next
  case (3 a b)
  then show ?case using b64_alphabet_pad [OF b64_char_alphabet [OF b64_ranges(4) [of b]]] by (simp add: ends_with_def)
next
  case (4 a b c s)
  show ?case
  proof (cases "s = []")
    case True
    then show ?thesis using b64_alphabet_pad [OF b64_char_alphabet [OF b64_ranges(6) [of c]]] by (simp add: ends_with_def)
  next
    case False
    then have "2 \<le> length (b64_encode s)" using 4 by (cases s rule: b64_encode.cases) simp_all
    with 4 show ?thesis by (auto simp: ends_with_Cons split: if_splits)
  qed
qed

lemma decoded_size_encode: "canonicalBase64DecodedSize (Some (J_str (b64_encode s))) = Some (int (length s))"
  using b64_padding [of s] by (simp add: b64_encode_text)

lemma file_fields_of:
  assumes "w_body w = File f"
  shows "field (row_value b w) ''file_id'' = Some (J_str (f_file_id f))"
    and "field (row_value b w) ''author'' = Some (author_json (f_author f))"
    and "field (row_value b w) ''author_alias'' = map_option alias_json (f_author_alias f)"
    and "field (row_value b w) ''filename'' = Some (J_str (f_filename f))"
    and "field (row_value b w) ''mime'' = Some (J_str (f_mime f))"
    and "field (row_value b w) ''size'' = Some (J_num (f_size f))"
    and "field (row_value b w) ''sha256'' = Some (J_str (f_sha256 f))"
    and "field (row_value b w) ''data_base64'' = (if b then Some (J_str (f_data_base64 f)) else None)"
    and "field (row_value b w) ''recipient_identities'' = Some (strings_json (f_recipients f))"
    and "field (row_value b w) ''source_file_id'' = Some (J_num (f_source_file_id f))"
    and "field (row_value b w) ''source_wire_id'' = map_option J_str (f_source_wire_id f)"
    and "field (row_value b w) ''source_reply_to'' = map_option reply_ref_json (f_source_reply_to f)"
  using assms(1) by (simp_all add: row_value_def row_json_def file_fields_def map_of_first)

lemma file_keys:
  "w_body w = File f \<Longrightarrow>
    hasExactKeys (row_value b w) (RECORD_COMMON_KEYS @ [''file_id'', ''author'', ''filename'', ''mime'', ''size'', ''sha256'']
        @ (if b then [''data_base64''] else []) @ [''recipient_identities'', ''source_file_id''])
      [''author_alias'', ''source_wire_id'', ''source_reply_to'']
    \<and> (''data_base64'' \<in> set (keys (row_value b w))) = b"
  by (cases b) (simp_all add: row_value_def row_json_def file_fields_def RECORD_COMMON_KEYS_def)

lemma file_accepted:
  assumes f: "w_body w = File f" and shape: "file_shape f" and bytes: "refineFileRecord sha f"
  shows "isFileDto (row_value b w) (\<not> b)"
proof -
  have enc: "b64_encode (b64_decode (f_data_base64 f)) = f_data_base64 f" "int (length (b64_decode (f_data_base64 f))) = f_size f"
    using bytes by (auto simp: refineFileRecord_def Let_def)
  have size: "canonicalBase64DecodedSize (Some (J_str (f_data_base64 f))) = Some (f_size f)"
    using decoded_size_encode [of "b64_decode (f_data_base64 f)"] unfolding enc .
  have max: "nonneg_safe (f_size f)" using shape by (simp add: file_shape_def nonneg_safe_def max_safe_def max_file_bytes_def)
  show ?thesis
    using shape file_keys [OF f, of b] size max
    by (cases b) (simp_all add: isFileDto_def Let_def file_fields_of [OF f] file_shape_def isFileName_def file_name_ok_def
      MAX_FILE_NAME_BYTES_def MAX_MIME_BYTES_def MAX_FILE_BYTES_DTO_def file_mime_ok_def max_file_bytes_def del: canonicalBase64DecodedSize.simps)
qed


lemma message_fields_of:
  assumes "w_body w = Message m"
  shows "field (row_value b w) ''message_id'' = Some (J_str (m_message_id m))" and "field (row_value b w) ''author'' = Some (author_json (m_author m))"
    and "field (row_value b w) ''author_alias'' = map_option alias_json (m_author_alias m)"
    and "field (row_value b w) ''category'' = Some (J_str (category_name (m_category m)))"
    and "field (row_value b w) ''briefing_role'' = map_option J_str (m_briefing_role m)"
    and "field (row_value b w) ''briefing_version'' = map_option J_num (m_briefing_version m)"
    and "field (row_value b w) ''membership'' = map_option notice_json (m_membership m)"
    and "field (row_value b w) ''text'' = Some (J_str (m_text m))"
    and "field (row_value b w) ''recipient_identities'' = Some (strings_json (m_recipients m))"
    and "field (row_value b w) ''source_msg_id'' = map_option J_num (m_source_msg_id m)"
    and "field (row_value b w) ''source_wire_id'' = map_option J_str (m_source_wire_id m)"
    and "field (row_value b w) ''source_reply_to'' = map_option reply_ref_json (m_source_reply_to m)"
    and "field (row_value b w) ''scope'' = map_option scope_json (m_scope m)"
    and "field (row_value b w) ''thread_root'' = map_option root_json (m_thread_root m)"
  using assms(1) by (simp_all add: row_value_def row_json_def message_fields_def map_of_first)

lemma message_keys:
  "w_body w = Message m \<Longrightarrow>
    hasExactKeys (row_value b w) (RECORD_COMMON_KEYS @ [''message_id'', ''author'', ''category'', ''text'', ''recipient_identities''])
       [''author_alias'', ''briefing_role'', ''briefing_version'', ''membership'', ''source_msg_id'', ''source_wire_id'',
        ''source_reply_to'', ''scope'', ''thread_root'']"
  by (simp add: row_value_def row_json_def message_fields_def RECORD_COMMON_KEYS_def)

lemma message_category_accepted:
  assumes "w_body w = Message m" and "refineMessageCategory m" and "opt_ok role_ok (m_briefing_role m)"
    and "opt_ok positive_safe (m_briefing_version m)" and "opt_ok notice_ok (m_membership m)"
  shows "isMessageCategory (row_value b w)"
  using assms(2-)
  by (cases "m_category m")
    (auto simp: isMessageCategory_def message_fields_of [OF assms(1)] refineMessageCategory_def role_ok_def MAX_ROLE_BYTES_def)

lemma scope_fields [simp]:
  "field (Some (scope_json sc)) ''thread_id'' = Some (J_str (sc_thread_id sc))"
  "field (Some (scope_json sc)) ''parent_key'' = map_option J_str (sc_parent_key sc)"
  by (simp_all add: scope_json_def)

lemma author_fields [simp]: "field (Some (author_json a)) ''identity'' = Some (J_str (a_identity a))"
  by (simp add: author_json_def)

lemma alias_fields [simp]: "field (Some (alias_json al)) ''participant_id'' = Some (J_str (al_participant_id al))"
  by (simp add: alias_json_def)

lemma text_of_str [simp]: "text_of (Some (J_str s)) = s"
  by (simp add: text_of_def)

lemma category_chat [simp]: "(category_name c = ''chat'') = (c = Chat)"
  by (cases c) simp_all

lemma message_thread_accepted:
  assumes m: "w_body w = Message m" and "refineMessageThread m" and "opt_ok scope_ok (m_scope m)" and "author_ok (m_author m)"
    and "opt_ok alias_ok (m_author_alias m)" and root: "opt_parse ThreadRootSchema_parse (m_thread_root m) = Some (m_thread_root m)"
  shows "hasValidMessageThread (row_value b w)"
proof (cases "m_thread_root m")
  case None
  with assms(2,3) show ?thesis
    by (auto simp: hasValidMessageThread_def message_fields_of [OF m] refineMessageThread_def split: option.splits)
next
  case (Some tr)
  with root have tr: "isThreadRoot (Some (root_json tr))" by (auto split: option.splits intro: isThreadRoot_json)
  from assms(2) Some have r: "refine_thread_root m tr" by (simp add: refineMessageThread_def)
  then obtain sc where sc: "m_scope m = Some sc" by (auto simp: refine_thread_root_def split: option.splits)
  have "validThreadRoot (row_value b w)"
    using r sc Some assms(4,5)
    by (cases "m_author_alias m")
      (auto simp: validThreadRoot_def message_fields_of [OF m] refine_thread_root_def creator_identity_json Let_def)
  with tr sc Some assms(3) show ?thesis by (simp add: hasValidMessageThread_def message_fields_of [OF m])
qed

lemma message_accepted:
  assumes m: "w_body w = Message m" and p: "message_parse m = Some m"
  shows "isMessageDto (row_value b w)"
proof -
  obtain root where root: "opt_parse ThreadRootSchema_parse (m_thread_root m) = Some root"
    and shape: "message_shape m = Some m"
    using p by (auto simp: message_parse_def message_shape_def split: option.splits if_splits)
  from shape root have eq: "m\<lparr>m_thread_root := root\<rparr> = m" by (auto simp: message_shape_def split: if_splits)
  then have "m_thread_root m = root" by (metis message.select_convs(14) message.surjective message.update_convs(14))
  with shape root p message_category_accepted [OF m] message_thread_accepted [OF m] message_keys [OF m] show ?thesis
    by (auto simp: isMessageDto_def message_fields_of [OF m] message_shape_def message_parse_def text_ok_def MAX_TEXT_BYTES_def
        split: if_splits)
qed


subsection \<open>The console accepts every record\<close>

lemma record_common_accepted:
  assumes "CommunicationRecordSchema_parse sha w = Inr w'"
  shows "hasRecordCommon (row_value b w)"
proof -
  have kind: "string_is (\<lambda>_. True) (field (row_value b w) ''kind'')"
    by (cases "w_body w") (simp_all add: row_value_def row_json_def message_fields_def file_fields_def rejection_fields_def
      removal_fields_def sever_fields_def)
  have num: "show_int (int (w_seq w)) = show_nat (w_seq w)" by (simp add: show_int_def)
  from assms kind num show ?thesis
    by (auto simp: hasRecordCommon_def row_value_def row_json_def CommunicationRecordSchema_parse_def record_id_of_def
      split: if_splits)
qed

lemma kind_of_row:
  "text_of (field (row_value b w) ''kind'') =
     (case w_body w of Message _ \<Rightarrow> ''message'' | File _ \<Rightarrow> ''file'' | Relay_intent _ \<Rightarrow> ''relay_intent''
      | Relay_result _ \<Rightarrow> ''relay_result'' | Intake_rejection _ \<Rightarrow> ''intake_rejection''
      | Membership_intent _ \<Rightarrow> ''membership_intent'' | Membership_result _ \<Rightarrow> ''membership_result''
      | Close_notice_intent _ \<Rightarrow> ''close_notice_intent'' | Close_notice_result _ \<Rightarrow> ''close_notice_result'')"
  by (cases "w_body w") (simp_all add: row_value_def row_json_def message_fields_def file_fields_def rejection_fields_def
    removal_fields_def sever_fields_def)

fun audited :: "body \<Rightarrow> bool" where
  "audited (Membership_intent j) = (mj_command j \<noteq> None)"
| "audited _ = False"

lemma row_update_same: "w\<lparr>w_body := v\<rparr> = w \<Longrightarrow> w_body w = v"
  by (metis row.select_convs(5) row.surjective row.update_convs(5))

text \<open>C20: the console accepts every record the daemon can read from an archive, with its bytes and as
  metadata, except a removal journal entry of the prerelease that names the command it came from.\<close>

theorem console_accepts_records:
  assumes "CommunicationRecordSchema_parse sha w = Inr w"
  shows "isRecordDto (row_value with_bytes w) (\<not> with_bytes) \<longleftrightarrow> \<not> audited (w_body w)"
proof -
  from assms obtain v where v: "body_parse sha (w_body w) = Some v" and same: "w\<lparr>w_body := v\<rparr> = w"
    by (auto simp: CommunicationRecordSchema_parse_def split: if_splits option.splits)
  from row_update_same [OF same] v have p: "body_parse sha (w_body w) = Some (w_body w)" by simp
  note common = record_common_accepted [OF assms, of with_bytes]
  show ?thesis
  proof (cases "w_body w")
    case (Message m)
    with p have "message_parse m = Some m" by auto
    with message_accepted [OF Message] common Message show ?thesis by (simp add: isRecordDto_def kind_of_row)
  next
    case (File f)
    with p have "file_shape f" "refineFileRecord sha f" by (auto split: if_splits)
    with file_accepted [OF File] common File show ?thesis by (simp add: isRecordDto_def kind_of_row)
  next
    case (Relay_intent i)
    with p relay_intent_accepted [OF _ Relay_intent, folded row_value_def] common show ?thesis
      by (simp add: isRecordDto_def kind_of_row split: if_splits)
  next
    case (Relay_result r)
    with p relay_result_accepted [OF _ Relay_result, folded row_value_def] common show ?thesis
      by (simp add: isRecordDto_def kind_of_row split: if_splits)
  next
    case (Intake_rejection r)
    with p rejection_accepted [OF _ Intake_rejection, folded row_value_def] common show ?thesis
      by (simp add: isRecordDto_def kind_of_row split: if_splits)
  next
    case (Membership_intent j)
    with p membership_intent_accepted [OF _ Membership_intent, folded row_value_def] common show ?thesis
      by (simp add: isRecordDto_def kind_of_row split: if_splits)
  next
    case (Membership_result r)
    with p membership_result_accepted [OF _ Membership_result, folded row_value_def] common show ?thesis
      by (simp add: isRecordDto_def kind_of_row split: if_splits)
  next
    case (Close_notice_intent c)
    with p close_intent_accepted [OF _ Close_notice_intent, folded row_value_def] common show ?thesis
      by (simp add: isRecordDto_def kind_of_row split: if_splits)
  next
    case (Close_notice_result r)
    with p close_result_accepted [OF _ Close_notice_result, folded row_value_def] common show ?thesis
      by (simp add: isRecordDto_def kind_of_row split: if_splits)
  qed
qed


lemma console_records_witness: "isRecordDto (row_value True (sample_row 1 (Message sample_root_message))) False"
proof -
  have "CommunicationRecordSchema_parse sha_0 (sample_row 1 (Message sample_root_message))
    = Inr (sample_row 1 (Message sample_root_message))" by code_simp
  from console_accepts_records [OF this, of True] show ?thesis by (simp add: sample_row_def)
qed

end
