(* ===== verification/ConsoleRooms.thy ===== *)
theory ConsoleRooms
  imports DtoRooms ConsoleRecords Routes
begin

section \<open>The console accepts the daemon's rooms\<close>

text \<open>
  The JSON of a room as the daemon answers it (\<open>room_json\<close>, the properties of \<open>RoomSchema\<close> with the
  optional ones left out when undefined) against the console's guard. A consumer's own input schema
  stands in it as its encoded text.
\<close>

subsection \<open>The JSON of a room\<close>

definition seat_json :: "seat \<Rightarrow> json" where
  "seat_json s = J_obj
     ([(''identity'', J_str (s_identity s)), (''display_name'', J_str (s_display_name s)), (''role'', J_str (s_role s)),
       (''invite_id'', J_str (s_invite_id s))]
      @ opt_field ''accepted_at'' J_str (s_accepted_at s) @ opt_field ''requested_at'' J_str (s_requested_at s)
      @ opt_field ''invite_sha256'' J_str (s_invite_sha256 s)
      @ [(''participant_id'', J_str (s_participant_id s)), (''state'', J_str (seat_state_name (s_state s)))]
      @ opt_field ''alias'' J_str (s_alias s)
      @ opt_field ''removal_reason'' (\<lambda>r. J_str ''contact_absent'') (s_removal_reason s)
      @ opt_field ''removed_at'' J_str (s_removed_at s) @ opt_field ''removed_epoch'' J_num (s_removed_epoch s)
      @ opt_field ''bounced_at'' J_str (s_bounced_at s))"

fun invite_mode_name :: "invite_mode \<Rightarrow> string" where
  "invite_mode_name One_time = ''one_time''"
| "invite_mode_name Public = ''public''"

fun invite_state_name :: "invite_state \<Rightarrow> string" where
  "invite_state_name Live = ''live''"
| "invite_state_name Consumed = ''consumed''"
| "invite_state_name Revoked = ''revoked''"
| "invite_state_name Replacement_required = ''replacement_required''"
| "invite_state_name Receipt_pending = ''receipt_pending''"

definition invite_json :: "invite \<Rightarrow> json" where
  "invite_json i = J_obj
     ([(''invite_id'', J_str (i_invite_id i)), (''mode'', J_str (invite_mode_name (i_mode i))), (''role'', J_str (i_role i)),
       (''min_accepts'', J_num (i_min_accepts i)), (''accepted_cids'', strings_json (i_accepted_cids i)),
       (''state'', J_str (invite_state_name (i_state i)))]
      @ opt_field ''recovery_of'' J_str (i_recovery_of i) @ opt_field ''recovery_confirmed'' J_bool (i_recovery_confirmed i)
      @ [(''created_at'', J_str (i_created_at i))])"

definition mission_json :: "mission \<Rightarrow> json" where
  "mission_json m = J_obj [(''goal'', J_str (mi_goal m)), (''briefing'', J_str (mi_briefing m)),
     (''briefing_version'', J_num (mi_briefing_version m))]"

definition role_briefing_json :: "role_briefing \<Rightarrow> json" where
  "role_briefing_json b = J_obj [(''text'', J_str (b_text b)), (''version'', J_num (b_version b)),
     (''updated_at'', J_str (b_updated_at b))]"

definition grant_json :: "grant \<Rightarrow> json" where
  "grant_json g = J_obj [(''caller_cid'', J_str (g_caller_cid g)), (''command'', J_str (g_command g))]"

definition role_grant_json :: "role_grant \<Rightarrow> json" where
  "role_grant_json g = J_obj [(''role'', J_str (rg_role g)), (''commands'', strings_json (rg_commands g))]"

definition requirement_json :: "activation_requirement \<Rightarrow> json" where
  "requirement_json q = J_obj [(''role'', J_str (ar_role q)), (''count'', J_num (ar_count q))]"

definition consumer_json :: "consumer_definition \<Rightarrow> json" where
  "consumer_json d = J_obj [(''name'', J_str (cd_name d)), (''description'', J_str (cd_description d)),
     (''input_schema'', J_str (cd_input_schema d)), (''handler'', J_str (cd_handler d)),
     (''source'', J_str (if cd_source d = Rest_source then ''rest'' else ''local'')), (''revision'', J_num (cd_revision d))]"

definition lifecycle_json :: "lifecycle_request \<Rightarrow> json" where
  "lifecycle_json q = J_obj
     ([(''request_id'', J_str (l_request_id q)), (''command'', J_str (lifecycle_name (l_command q))),
       (''caller_cid'', J_str (l_caller_cid q)), (''accepted_at'', J_str (l_accepted_at q)),
       (''state'', J_str (case l_state q of L_pending \<Rightarrow> ''pending'' | L_failed \<Rightarrow> ''failed'' | L_completed \<Rightarrow> ''completed''))]
      @ (if l_error q then [(''error'', J_str ''lifecycle_failed'')] else []))"

definition room_json :: "room \<Rightarrow> json" where
  "room_json r = J_obj
     ([(''room_id'', J_str (r_room_id r)), (''identity_name'', J_str (r_identity_name r)),
       (''identity_cid'', J_str (r_identity_cid r)), (''state'', J_str (room_state_name (r_state r)))]
      @ opt_field ''activation_requirements'' (\<lambda>qs. J_arr (map requirement_json qs)) (r_activation_requirements r)
      @ opt_field ''status'' J_str (r_status r)
      @ [(''invites'', J_arr (map invite_json (r_invites r))), (''created_at'', J_str (r_created_at r))]
      @ opt_field ''activated_at'' J_str (r_activated_at r) @ opt_field ''closed_at'' J_str (r_closed_at r)
      @ [(''room_name'', J_str (r_room_name r)), (''version'', J_num 2), (''mission'', mission_json (r_mission r)),
         (''role_briefings'', J_obj (map (\<lambda>(role, b). (role, role_briefing_json b)) (r_role_briefings r))),
         (''rest_roles'', strings_json (r_rest_roles r)), (''command_grants'', J_arr (map grant_json (r_command_grants r)))]
      @ opt_field ''consumer_commands'' (\<lambda>ds. J_arr (map consumer_json ds)) (r_consumer_commands r)
      @ opt_field ''consumer_commands_revision'' J_num (r_consumer_commands_revision r)
      @ opt_field ''lifecycle_request'' lifecycle_json (r_lifecycle_request r)
      @ [(''role_command_grants'', J_arr (map role_grant_json (r_role_command_grants r))),
         (''anonymous'', J_bool (r_anonymous r)), (''quiet_membership'', J_bool (r_quiet_membership r)),
         (''membership_epoch'', J_num (r_membership_epoch r)), (''seats'', J_arr (map seat_json (r_seats r)))])"

subsection \<open>The parts\<close>

declare map_of_append [simp del]

lemma string_is_str [simp]: "string_is p (Some (J_str s)) = p s"
  by simp

lemma optionalStrict_simps [simp]:
  "optionalStrictRfc3339 (map_option J_str v) = opt_ok isStrictRfc3339 v" "optionalStrictRfc3339 None"
  by (cases v; simp add: optionalStrictRfc3339_def)+

lemma isMission_json [simp]: "isMission (Some (mission_json m)) True = mission_ok m"
  by (simp add: isMission_def mission_json_def mission_ok_def text_ok_def MAX_TEXT_BYTES_def)

lemma seat_fields [simp]:
  "field (Some (seat_json s)) ''identity'' = Some (J_str (s_identity s))"
  "field (Some (seat_json s)) ''display_name'' = Some (J_str (s_display_name s))"
  "field (Some (seat_json s)) ''role'' = Some (J_str (s_role s))"
  "field (Some (seat_json s)) ''invite_id'' = Some (J_str (s_invite_id s))"
  "field (Some (seat_json s)) ''accepted_at'' = map_option J_str (s_accepted_at s)"
  "field (Some (seat_json s)) ''requested_at'' = map_option J_str (s_requested_at s)"
  "field (Some (seat_json s)) ''invite_sha256'' = map_option J_str (s_invite_sha256 s)"
  "field (Some (seat_json s)) ''participant_id'' = Some (J_str (s_participant_id s))"
  "field (Some (seat_json s)) ''state'' = Some (J_str (seat_state_name (s_state s)))"
  "field (Some (seat_json s)) ''alias'' = map_option J_str (s_alias s)"
  "field (Some (seat_json s)) ''removal_reason'' = map_option (\<lambda>r. J_str ''contact_absent'') (s_removal_reason s)"
  "field (Some (seat_json s)) ''removed_at'' = map_option J_str (s_removed_at s)"
  "field (Some (seat_json s)) ''removed_epoch'' = map_option J_num (s_removed_epoch s)"
  "field (Some (seat_json s)) ''bounced_at'' = map_option J_str (s_bounced_at s)"
  by (simp_all add: seat_json_def map_of_first)

lemma seat_keys [simp]:
  "isRecord (Some (seat_json s))"
  "hasExactKeys (Some (seat_json s)) [''identity'', ''display_name'', ''role'', ''invite_id'', ''participant_id'', ''state'']
     [''accepted_at'', ''requested_at'', ''invite_sha256'', ''alias'', ''removed_at'', ''removed_epoch'',
      ''removal_reason'', ''bounced_at'']"
  by (simp_all add: seat_json_def)

lemma isParticipant_json [simp]: "seat_ok s \<Longrightarrow> isParticipant (Some (seat_json s)) (Some True)"
  by (cases "s_state s")
    (auto simp: isParticipant_def seat_ok_def seat_fields_ok_def no_removal_fields_def participant_state_def role_ok_def
      MAX_ROLE_BYTES_def opt_ok_def split: option.splits)

lemma invite_fields [simp]:
  "field (Some (invite_json i)) ''invite_id'' = Some (J_str (i_invite_id i))"
  "field (Some (invite_json i)) ''mode'' = Some (J_str (invite_mode_name (i_mode i)))"
  "field (Some (invite_json i)) ''role'' = Some (J_str (i_role i))"
  "field (Some (invite_json i)) ''min_accepts'' = Some (J_num (i_min_accepts i))"
  "field (Some (invite_json i)) ''accepted_cids'' = Some (strings_json (i_accepted_cids i))"
  "field (Some (invite_json i)) ''state'' = Some (J_str (invite_state_name (i_state i)))"
  "field (Some (invite_json i)) ''recovery_of'' = map_option J_str (i_recovery_of i)"
  "field (Some (invite_json i)) ''recovery_confirmed'' = map_option J_bool (i_recovery_confirmed i)"
  "field (Some (invite_json i)) ''created_at'' = Some (J_str (i_created_at i))"
  by (simp_all add: invite_json_def map_of_first)

lemma invite_keys [simp]:
  "isRecord (Some (invite_json i))"
  "hasExactKeys (Some (invite_json i))
     [''invite_id'', ''mode'', ''role'', ''min_accepts'', ''accepted_cids'', ''state'', ''created_at'']
     [''recovery_of'', ''recovery_confirmed'']"
  by (simp_all add: invite_json_def)

lemma invite_names [simp]:
  "(invite_mode_name a = invite_mode_name b) = (a = b)" "(invite_state_name c = invite_state_name d) = (c = d)"
  by (cases a; cases b; simp) (cases c; cases d; simp)

lemma elements_strings [simp]: "elements (Some (strings_json xs)) = map J_str xs"
  by (simp add: strings_json_def)

lemma isRoomInvite_json:
  "invite_ok i \<Longrightarrow> isRoomInvite (Some (invite_json i)) = distinct (i_accepted_cids i)"
  by (cases "i_mode i"; cases "i_state i"; cases "i_recovery_of i"; cases "i_recovery_confirmed i")
    (auto simp: isRoomInvite_def invite_ok_def invite_state_dto_def role_ok_def MAX_ROLE_BYTES_def)


subsection \<open>Lists of a room\<close>

lemma map_fields [simp]: "map (\<lambda>x. field (Some x) k) (map f xs) = map (\<lambda>x. field (Some (f x)) k) xs"
  by simp

definition console_grant :: "string \<Rightarrow> bool" where
  "console_grant c \<longleftrightarrow> c = ''list-members'' \<or> c = ''remove-member''"

lemma console_command_str [simp]: "console_command (Some (J_str c)) = console_grant c"
  by (simp add: console_command_def console_grant_def)

lemma role_briefings_json:
  "list_all (\<lambda>(role, b). role_ok role \<and> role_briefing_ok b) bs
     \<Longrightarrow> isRoleBriefingMap (Some (J_obj (map (\<lambda>(role, b). (role, role_briefing_json b)) bs)))"
  by (auto simp: isRoleBriefingMap_def list_all_iff role_briefing_json_def role_briefing_ok_def role_ok_def text_ok_def
      MAX_ROLE_BYTES_def MAX_TEXT_BYTES_def)

lemma rest_roles_json: "rest_roles_ok roles \<Longrightarrow> isRestRoleList (Some (strings_json roles))"
  by (auto simp: isRestRoleList_def strings_json_def rest_roles_ok_def list_all_iff role_ok_def MAX_ROLE_BYTES_def
      ROOM_ROLE_def List.member_iff distinct_map inj_on_def)

lemma grant_json_fields [simp]:
  "field (Some (grant_json g)) ''caller_cid'' = Some (J_str (g_caller_cid g))"
  "field (Some (grant_json g)) ''command'' = Some (J_str (g_command g))"
  by (simp_all add: grant_json_def)

lemma grant_cid_canonical:
  assumes "grant_parse g = Some g"
  shows "CANONICAL_CONTAINER_ID (g_caller_cid g)"
proof -
  obtain c where "cid_parse (g_caller_cid g) = Some c" "g\<lparr>g_caller_cid := c\<rparr> = g"
    using assms by (auto simp: grant_parse_def split: option.splits if_splits)
  moreover from this have "c = g_caller_cid g" by (metis grant.select_convs(1) grant.surjective grant.update_convs(1))
  ultimately show ?thesis using cid_canonical by simp
qed

lemma grants_json:
  assumes "list_parse grant_parse gs = Some gs" and "distinct (map (\<lambda>g. (g_caller_cid g, g_command g)) gs)"
  shows "isRuntimeCommandGrantList (Some (J_arr (map grant_json gs))) = list_all (\<lambda>g. console_grant (g_command g)) gs"
proof -
  have "distinct (map (\<lambda>g. (field (Some g) ''caller_cid'', field (Some g) ''command'')) (map grant_json gs))"
    using assms(2) by (simp add: distinct_map inj_on_def)
  moreover have "list_all (\<lambda>g. CANONICAL_CONTAINER_ID (g_caller_cid g)) gs"
    using list_parse_all [OF assms(1)] grant_cid_canonical by (simp add: list_all_iff)
  ultimately show ?thesis
    unfolding isRuntimeCommandGrantList_def by (auto simp: list_all_iff grant_json_def)
qed

lemma role_grant_fields [simp]:
  "field (Some (role_grant_json g)) ''role'' = Some (J_str (rg_role g))"
  "field (Some (role_grant_json g)) ''commands'' = Some (strings_json (rg_commands g))"
  by (simp_all add: role_grant_json_def)

lemma role_grants_json:
  assumes "list_all role_grant_ok gs" and "distinct (map rg_role gs)"
  shows "isRuntimeRoleCommandGrantList (Some (J_arr (map role_grant_json gs)))
    = list_all (\<lambda>g. list_all console_grant (rg_commands g)) gs"
proof -
  have "distinct (map (\<lambda>g. field (Some g) ''role'') (map role_grant_json gs))"
    using assms(2) by (simp add: distinct_map inj_on_def)
  moreover have "g \<in> set gs \<Longrightarrow> isRecord (Some (role_grant_json g)) \<and> hasExactKeys (Some (role_grant_json g)) [''role'', ''commands''] []
      \<and> isUtf8Bounded (Some (J_str (rg_role g))) MAX_ROLE_BYTES \<and> distinct (map J_str (rg_commands g))" for g
    using assms(1) by (auto simp: role_grant_json_def list_all_iff role_grant_ok_def role_ok_def MAX_ROLE_BYTES_def
        distinct_map inj_on_def)
  ultimately show ?thesis
    unfolding isRuntimeRoleCommandGrantList_def by (auto simp: list_all_iff strings_json_def)
qed

subsection \<open>Seats and invites\<close>

lemma seat_names [simp]:
  "(seat_state_name st = ''pending'') = (st = Seat_pending)" "(seat_state_name st = ''active'') = (st = Seat_active)"
  "(seat_state_name st = ''removed'') = (st = Seat_removed)"
  by (cases st; simp)+

lemma seat_scan_json:
  assumes "list_all seat_ok ss" and "distinct (map s_identity (filter live_seat ss))"
    and "\<forall>s\<in>set ss. anon = (s_alias s \<noteq> None)" and "distinct (List.map_filter s_alias (filter active_seat ss))"
    and "list_all (\<lambda>s. opt_ok (\<lambda>e. e \<le> epoch) (s_removed_epoch s)) ss"
    and "\<forall>s\<in>set ss. live_seat s \<longrightarrow> Some (J_str (s_identity s)) \<notin> set cids"
    and "\<forall>s\<in>set ss. active_seat s \<longrightarrow> map_option J_str (s_alias s) \<notin> set aliases"
  shows "seat_scan anon epoch cids aliases (map seat_json ss)"
  using assms
proof (induction ss arbitrary: cids aliases)
  case (Cons s ss)
  have "seat_scan anon epoch
      (if live_seat s then Some (J_str (s_identity s)) # cids else cids)
      (if active_seat s \<and> s_alias s \<noteq> None then map_option J_str (s_alias s) # aliases else aliases) (map seat_json ss)"
  proof (rule Cons.IH)
    show "\<forall>t\<in>set ss. live_seat t \<longrightarrow>
        Some (J_str (s_identity t)) \<notin> set (if live_seat s then Some (J_str (s_identity s)) # cids else cids)"
      using Cons.prems(2,6) by (auto simp: image_iff) metis
    show "\<forall>t\<in>set ss. active_seat t \<longrightarrow> map_option J_str (s_alias t)
        \<notin> set (if active_seat s \<and> s_alias s \<noteq> None then map_option J_str (s_alias s) # aliases else aliases)"
      using Cons.prems(4,7) by (force simp: map_filter_def image_iff split: if_splits)
  qed (use Cons.prems in \<open>auto simp: map_filter_def split: if_splits option.splits\<close>)
  with Cons.prems show ?case
    by (cases "s_state s")
      (auto simp: Let_def live_seat_def active_seat_def seat_ok_def no_removal_fields_def number_of_def)
qed simp


lemma find_invite_json [simp]:
  "find_invite_dto (map invite_json invs) (Some (J_str ro)) = map_option invite_json (find_invite invs ro)"
  by (simp add: find_invite_dto_def find_invite_def find_map)

lemma invite_ids_json [simp]: "invite_ids_dto (map invite_json invs) = map (\<lambda>i. Some (J_str (i_invite_id i))) invs"
  by (simp add: invite_ids_dto_def)

lemma valid_source_json:
  "validSourceState (Some (invite_json i)) (Some (invite_json s))
     = valid_source_state (i_state i) (i_recovery_confirmed i) (i_state s)"
  by (cases "i_state i"; cases "i_state s"; cases "i_recovery_confirmed i") (auto simp: validSourceState_def)

lemma recovery_json: "recovery_dto (map invite_json invs) (invite_json i) = recovery_ok invs i"
proof (cases "i_recovery_of i")
  case (Some ro)
  then show ?thesis
    by (cases "find_invite invs ro") (simp_all add: recovery_dto_def recovery_ok_def valid_source_json Let_def, fastforce)
qed (simp add: recovery_dto_def recovery_ok_def Let_def)

lemma pending_name [simp]: "(invite_state_name c = ''receipt_pending'') = (c = Receipt_pending)"
  by (cases c) simp_all

lemma pending_recoveries_json:
  "pending_recoveries_dto (map invite_json invs) = map (\<lambda>r. Some (J_str r)) (pending_recoveries invs)"
  by (induction invs) (auto simp: pending_recoveries_def map_filter_def)

subsection \<open>The room\<close>

lemma room_state_names: "room_state_name st \<in> {''provisioning'', ''active'', ''closing'', ''closed''}"
  by (cases st) simp_all

lemma room_json_fields [simp]:
  "isRecord (Some (room_json r))"
  "field (Some (room_json r)) ''room_id'' = Some (J_str (r_room_id r))"
  "field (Some (room_json r)) ''identity_name'' = Some (J_str (r_identity_name r))"
  "field (Some (room_json r)) ''identity_cid'' = Some (J_str (r_identity_cid r))"
  "field (Some (room_json r)) ''state'' = Some (J_str (room_state_name (r_state r)))"
  "field (Some (room_json r)) ''status'' = map_option J_str (r_status r)"
  "field (Some (room_json r)) ''invites'' = Some (J_arr (map invite_json (r_invites r)))"
  "field (Some (room_json r)) ''created_at'' = Some (J_str (r_created_at r))"
  "field (Some (room_json r)) ''activated_at'' = map_option J_str (r_activated_at r)"
  "field (Some (room_json r)) ''closed_at'' = map_option J_str (r_closed_at r)"
  "field (Some (room_json r)) ''room_name'' = Some (J_str (r_room_name r))"
  "field (Some (room_json r)) ''version'' = Some (J_num 2)"
  "field (Some (room_json r)) ''mission'' = Some (mission_json (r_mission r))"
  by (simp_all add: room_json_def map_of_first)

lemma room_json_fields2 [simp]:
  "field (Some (room_json r)) ''role_briefings'' = Some (J_obj (map (\<lambda>(role, b). (role, role_briefing_json b)) (r_role_briefings r)))"
  "field (Some (room_json r)) ''rest_roles'' = Some (strings_json (r_rest_roles r))"
  "field (Some (room_json r)) ''command_grants'' = Some (J_arr (map grant_json (r_command_grants r)))"
  "field (Some (room_json r)) ''role_command_grants'' = Some (J_arr (map role_grant_json (r_role_command_grants r)))"
  "field (Some (room_json r)) ''anonymous'' = Some (J_bool (r_anonymous r))"
  "field (Some (room_json r)) ''quiet_membership'' = Some (J_bool (r_quiet_membership r))"
  "field (Some (room_json r)) ''membership_epoch'' = Some (J_num (r_membership_epoch r))"
  "field (Some (room_json r)) ''seats'' = Some (J_arr (map seat_json (r_seats r)))"
  by (simp_all add: room_json_def map_of_first)

text \<open>The fields a console without an answer for them refuses.\<close>

definition plain_room :: "room \<Rightarrow> bool" where
  "plain_room r \<longleftrightarrow> r_activation_requirements r = None \<and> r_consumer_commands r = None
     \<and> r_consumer_commands_revision r = None \<and> r_lifecycle_request r = None"

lemma room_json_keys:
  "hasExactKeys (Some (room_json r)) ROOM_V2_KEYS [''status'', ''activated_at'', ''closed_at''] = plain_room r"
  by (cases "r_status r"; cases "r_activated_at r"; cases "r_closed_at r")
    (auto simp: room_json_def ROOM_V2_KEYS_def ROOM_V1_KEYS_def plain_room_def)


definition console_room :: "room \<Rightarrow> bool" where
  "console_room r \<longleftrightarrow> plain_room r
     \<and> list_all (\<lambda>g. console_grant (g_command g)) (r_command_grants r)
     \<and> list_all (\<lambda>g. list_all console_grant (rg_commands g)) (r_role_command_grants r)
     \<and> distinct (map i_invite_id (r_invites r)) \<and> list_all (\<lambda>i. distinct (i_accepted_cids i)) (r_invites r)
     \<and> list_all (\<lambda>i. lineage_walk (map invite_json (r_invites r)) [Some (J_str (i_invite_id i))] (invite_json i)) (r_invites r)
     \<and> (r_identity_cid r = [] \<longrightarrow> isPacketPendingIdentityName (r_room_name r) (r_identity_name r))"

lemma room_name_normalized: "room_name_parse nfc v = Some v \<Longrightarrow> isNormalizedRoomName nfc v"
  by (auto simp: roomNameError_def room_name_parse_def isNormalizedRoomName_def Let_def not_less split: if_splits)

lemma room_fields_json:
  assumes "room_fields_ok r" and "room_name_parse nfc (r_room_name r) = Some (r_room_name r)"
  shows "room_fields_dto nfc (Some (room_json r)) True
    \<longleftrightarrow> plain_room r \<and> list_all (\<lambda>i. distinct (i_accepted_cids i)) (r_invites r)"
proof -
  have "list_all (\<lambda>i. isRoomInvite (Some i)) (map invite_json (r_invites r))
      = list_all (\<lambda>i. distinct (i_accepted_cids i)) (r_invites r)"
    using assms(1) isRoomInvite_json by (auto simp: room_fields_ok_def list_all_iff)
  moreover have "list_all (\<lambda>s. isParticipant (Some s) (Some True)) (map seat_json (r_seats r))"
    using assms(1) by (auto simp: room_fields_ok_def list_all_iff)
  ultimately show ?thesis
    using assms(1) room_name_normalized [OF assms(2)] room_state_names [of "r_state r"]
    by (simp add: room_fields_dto_def room_fields_ok_def room_json_keys isString_def nonempty_def)
qed

lemma room_v2_json:
  assumes "room_fields_ok r" and "room_grants_ok r" and "list_parse grant_parse (r_command_grants r) = Some (r_command_grants r)"
  shows "room_v2_fields_dto (Some (room_json r))
    \<longleftrightarrow> list_all (\<lambda>g. console_grant (g_command g)) (r_command_grants r)
      \<and> list_all (\<lambda>g. list_all console_grant (rg_commands g)) (r_role_command_grants r)"
  using assms grants_json [OF assms(3)] role_grants_json [of "r_role_command_grants r"] rest_roles_json role_briefings_json
  by (simp add: room_v2_fields_dto_def room_fields_ok_def room_grants_ok_def)

lemma room_seats_json:
  assumes "room_fields_ok r" and "room_seats_ok r" and "room_grants_ok r"
  shows "room_seats_dto (Some (room_json r))"
proof -
  have "seat_scan (r_anonymous r) (r_membership_epoch r) [] [] (map seat_json (r_seats r))"
    using assms by (intro seat_scan_json) (auto simp: room_fields_ok_def room_seats_ok_def active_seats_def list_all_iff)
  moreover have "set (active_cids_dto (map seat_json (r_seats r))) = {Some (J_str c) | c. is_active_cid r c}"
    by (force simp: active_cids_dto_def is_active_cid_def list_ex_iff filter_map)
  moreover have "distinct (map (\<lambda>s. field (Some s) ''participant_id'') (map seat_json (r_seats r)))"
    using assms(2) by (simp add: room_seats_ok_def distinct_map inj_on_def)
  ultimately show ?thesis
    using assms(3) by (auto simp: room_seats_dto_def room_grants_ok_def number_of_def list_all_iff)
qed

lemma pending_identity_json:
  assumes "exact_packet_pending nfc r"
  shows "exactPacketPending (Some (room_json r)) = isPacketPendingIdentityName (r_room_name r) (r_identity_name r)"
  using assms by (simp add: exactPacketPending_def exact_packet_pending_def)

lemma room_invites_json:
  assumes "refineRoomLineage nfc r"
  shows "room_invites_dto (Some (room_json r)) \<longleftrightarrow>
    list_all (\<lambda>i. lineage_walk (map invite_json (r_invites r)) [Some (J_str (i_invite_id i))] (invite_json i)) (r_invites r)"
  using assms
  by (simp add: room_invites_dto_def refineRoomLineage_def pending_recoveries_json list.pred_map comp_def recovery_json distinct_map inj_on_def)

lemma room_parse_parts:
  assumes "RoomSchema_parse nfc r = Inr r"
  shows "room_name_parse nfc (r_room_name r) = Some (r_room_name r)"
    and "list_parse grant_parse (r_command_grants r) = Some (r_command_grants r)"
proof -
  have "room_transform nfc r = Some r" using RoomSchema_parseD [OF assms] by simp
  then obtain n gs q where p: "room_name_parse nfc (r_room_name r) = Some n" "list_parse grant_parse (r_command_grants r) = Some gs"
    and r: "r = r\<lparr>r_room_name := n, r_command_grants := gs, r_lifecycle_request := q\<rparr>"
    by (auto simp: room_transform_def eq_commute [of _ r] split: option.splits)
  from arg_cong [OF r, of r_room_name] arg_cong [OF r, of r_command_grants]
  have "n = r_room_name r" "gs = r_command_grants r" by simp_all
  with p show "room_name_parse nfc (r_room_name r) = Some (r_room_name r)"
    "list_parse grant_parse (r_command_grants r) = Some (r_command_grants r)" by simp_all
qed

text \<open>C19: the console accepts a room of the daemon exactly when the room has none of the four newer
  optional fields, grants only the two commands the console knows, its invites have distinct ids,
  no repeated container and no circular recovery, and, while its identity is not proven (the container id is
  empty), its identity has the very name the console expects: \<open>ours-cowork:\<close> and the first 52 characters of the name of
  the room. The schema of the daemon takes any name of a room behind the prefix there, so this condition is one of the
  console alone.\<close>

theorem console_accepts_rooms:
  assumes "RoomSchema_parse nfc room = Inr room"
  shows "isRoomDto nfc (Some (room_json room)) \<longleftrightarrow> console_room room"
proof -
  have c: "room_fields_ok room" "refineRoomLineage nfc room" "room_seats_ok room" "room_grants_ok room"
    using RoomSchema_parseD [OF assms] by (simp_all add: room_checks_def)
  note parts = room_parse_parts [OF assms]
  have cid: "r_identity_cid room = [] \<Longrightarrow> exact_packet_pending nfc room"
    "r_identity_cid room \<noteq> [] \<Longrightarrow> r_status room \<noteq> Some ''packet_pending''"
    using c(2) by (auto simp: refineRoomLineage_def)
  have ids: "distinct (invite_ids_dto (map invite_json (r_invites room))) = distinct (map i_invite_id (r_invites room))"
    by (simp add: distinct_map inj_on_def)
  show ?thesis
    using cid pending_identity_json [of nfc room] ids
    by (auto simp: isRoomDto_def Let_def room_fields_json [OF c(1) parts(1)] room_v2_json [OF c(1,4) parts(2)]
        room_seats_json [OF c(1,3,4)] room_invites_json [OF c(2)] console_room_def equals_string_def)
qed

text \<open>The sample room grants a caller every command, which the console does not know; with the one command
  in its place it is accepted.\<close>

definition plain_sample_room :: room where
  "plain_sample_room = sample_room\<lparr>r_command_grants := [\<lparr>g_caller_cid = cid CHR ''A'', g_command = ''list-members''\<rparr>]\<rparr>"

lemma console_rooms_witness:
  "isRoomDto recode (Some (room_json plain_sample_room)) \<and> \<not> isRoomDto recode (Some (room_json sample_room))"
proof -
  have p: "RoomSchema_parse recode plain_sample_room = Inr plain_sample_room" by code_simp
  have "console_room plain_sample_room" "\<not> console_room sample_room" by code_simp+
  with console_accepts_rooms [OF sample_room_parse] console_accepts_rooms [OF p] show ?thesis by simp
qed

end
