(* ===== verification/SupervisorLock.thy ===== *)
theory SupervisorLock
  imports Scalars "HOL-Library.AList"
begin

section \<open>One supervisor per state directory\<close>

text \<open>
  \<open>src/supervisor-lock.ts\<close>: the chain of generation files \<open>supervisor.lock.<n>\<close>. The file system is the
  list of generation files of the directory, and a contender is a state machine whose step is one file
  operation of \<open>acquireSupervisorLock\<close> or \<open>release\<close> (a listing, a look at the holder, a hard link, an
  unlink, the rename of a tombstone), so that any number of contenders interleave between operations; a
  process may die between any two. A listing is one atomic observation. Besides the holder, an entry
  records which process linked it (\<open>e_writer\<close>, not in the code) and whether the temporary name is still
  linked to it (\<open>nlink = 2\<close>). Holder records are valid JSON in private files here; an operating
  system error other than a missing or an existing name is left out.
\<close>

subsection \<open>Process incarnations\<close>

record incarnation =
  n_pid :: nat
  n_boot_id :: "string option"
  n_start_id :: "string option"

text \<open>The answers of the operating system about one PID: the signal probe (twice, as it may be repeated),
  the text of \<open>/proc/<pid>/stat\<close> by its code points, and the boot id.\<close>

datatype signal = Delivered | Refused_signal string

record probe =
  b_linux :: bool
  b_kill :: signal
  b_kill_again :: signal
  b_stat :: "nat list option"
  b_boot :: "string option"

definition exists_process :: "signal \<Rightarrow> bool" where
  "exists_process s \<longleftrightarrow> (case s of Delivered \<Rightarrow> True | Refused_signal code \<Rightarrow> code \<noteq> ''ESRCH'')"

function split_spaces :: "nat list \<Rightarrow> nat list list" where
  "split_spaces cs =
     (case dropWhile (\<lambda>c. \<not> is_space c) cs of
        [] \<Rightarrow> [cs]
      | _ # rest \<Rightarrow> takeWhile (\<lambda>c. \<not> is_space c) cs # split_spaces (dropWhile is_space rest))"
  by pat_completeness auto
termination
proof (relation "measure length", goal_cases)
  case (2 cs c rest)
  have "length (dropWhile is_space rest) \<le> length rest" by (rule length_dropWhile_le)
  also have "\<dots> < length cs" using length_dropWhile_le [of "\<lambda>c. \<not> is_space c" cs] 2 by simp
  finally show ?case by simp
qed simp

declare split_spaces.simps [simp del]

definition stat_fields :: "nat list \<Rightarrow> nat list list" where
  "stat_fields stat = split_spaces (trim_cps (drop 1 (rev (takeWhile (\<lambda>c. c \<noteq> byte (CHR '')'')) (rev stat)))))"

definition ascii_digits :: "nat list \<Rightarrow> bool" where
  "ascii_digits f \<longleftrightarrow> f \<noteq> [] \<and> list_all (\<lambda>c. 48 \<le> c \<and> c \<le> 57) f"

definition inspectProcess :: "nat \<Rightarrow> probe \<Rightarrow> incarnation option" where
  "inspectProcess pid probe =
     (let present = \<lparr>n_pid = pid, n_boot_id = None, n_start_id = None\<rparr> in
      if \<not> exists_process (b_kill probe) then None
      else if \<not> b_linux probe then Some present
      else (case b_stat probe of
          None \<Rightarrow> if exists_process (b_kill_again probe) then Some present else None
        | Some stat \<Rightarrow>
            (let fields = stat_fields stat in
             if hd fields = [byte (CHR ''Z'')] \<or> hd fields = [byte (CHR ''X'')] then None
             else if length fields \<le> 19 \<or> \<not> ascii_digits (fields ! 19) then Some present
             else (case b_boot probe of
                 None \<Rightarrow> Some present
               | Some text \<Rightarrow>
                   if trim text = [] then Some present
                   else Some (present\<lparr>n_boot_id := Some (trim text), n_start_id := Some (of_cps (fields ! 19))\<rparr>)))))"

subsection \<open>Generation files\<close>

record holder = incarnation +
  n_released :: bool

datatype inspection = Unreadable | Gone | Present incarnation

definition holderAlive :: "holder \<Rightarrow> (nat \<Rightarrow> inspection) \<Rightarrow> bool" where
  "holderAlive h inspect =
     (case inspect (n_pid h) of
        Unreadable \<Rightarrow> True
      | Gone \<Rightarrow> False
      | Present c \<Rightarrow>
          if n_boot_id h = None \<or> n_start_id h = None \<or> n_boot_id c = None \<or> n_start_id c = None then True
          else n_boot_id h = n_boot_id c \<and> n_start_id h = n_start_id c)"

record lock_file =
  e_holder :: holder
  e_alias :: bool
  e_writer :: nat

type_synonym dir = "(nat \<times> lock_file) list"

definition listed :: "nat \<Rightarrow> bool" where
  "listed g \<longleftrightarrow> 1 \<le> g \<and> g < 10 ^ 15"

definition generations :: "dir \<Rightarrow> nat list" where
  "generations d = sort (filter listed (map fst d))"

definition currentSupervisorGeneration :: "dir \<Rightarrow> nat option" where
  "currentSupervisorGeneration d = (if generations d = [] then None else Some (last (generations d)))"

datatype read_result = Missing | Invalid_holder | Holder holder

definition readHolder :: "dir \<Rightarrow> nat \<Rightarrow> read_result" where
  "readHolder d g = (case map_of d g of None \<Rightarrow> Missing
     | Some e \<Rightarrow> if e_alias e then Invalid_holder else Holder (e_holder e))"

definition supervisorGenerationFinished :: "dir \<Rightarrow> nat \<Rightarrow> (nat \<Rightarrow> inspection) \<Rightarrow> bool" where
  "supervisorGenerationFinished d g inspect \<longleftrightarrow>
     (case currentSupervisorGeneration d of None \<Rightarrow> 0 | Some t \<Rightarrow> t) > g
     \<or> (case readHolder d g of Missing \<Rightarrow> True | Invalid_holder \<Rightarrow> False
        | Holder h \<Rightarrow> n_released h \<or> \<not> holderAlive h inspect)"

definition unlink :: "nat \<Rightarrow> dir \<Rightarrow> dir" where
  "unlink g d = AList.delete g d"

definition drop_alias :: "nat \<Rightarrow> dir \<Rightarrow> dir" where
  "drop_alias g d = (case map_of d g of None \<Rightarrow> d | Some e \<Rightarrow> AList.update g (e\<lparr>e_alias := False\<rparr>) d)"

subsection \<open>A contender\<close>

datatype pc =
    Unborn
  | Idle
  | Lists nat
  | Looks nat nat
  | Reads nat nat
  | Links nat nat
  | Unaliases nat nat
  | Confirms nat nat
  | Withdraws nat nat
  | Clears nat "nat list"
  | Holds nat
  | Checks nat
  | Replaces nat
  | Released
  | Already_running nat
  | Failed string
  | Dead

definition retry :: "nat \<Rightarrow> pc" where
  "retry attempt = (if attempt + 1 < 16 then Lists (attempt + 1)
     else Failed ''supervisor lock changed repeatedly while acquiring it'')"

definition same_incarnation :: "incarnation \<Rightarrow> holder \<Rightarrow> bool" where
  "same_incarnation self h \<longleftrightarrow> n_pid h = n_pid self \<and> n_boot_id h = n_boot_id self \<and> n_start_id h = n_start_id self"

definition record_of :: "incarnation \<Rightarrow> bool \<Rightarrow> holder" where
  "record_of self released =
     \<lparr>n_pid = n_pid self, n_boot_id = n_boot_id self, n_start_id = n_start_id self, n_released = released\<rparr>"

text \<open>One file operation of contender \<open>k\<close>, whose incarnation is \<open>self\<close>. \<open>Holds\<close> is the lock returned to the
  caller, and its step the call of \<open>release\<close>.\<close>

fun lock_step :: "nat \<Rightarrow> incarnation \<Rightarrow> (nat \<Rightarrow> inspection) \<Rightarrow> pc \<Rightarrow> dir \<Rightarrow> pc \<times> dir" where
  "lock_step k self inspect (Lists n) d =
     ((case currentSupervisorGeneration d of None \<Rightarrow> Links n 1 | Some t \<Rightarrow> Looks n t), d)"
| "lock_step k self inspect (Looks n t) d =
     (case map_of d t of None \<Rightarrow> (retry n, d) | Some e \<Rightarrow> (Reads n t, drop_alias t d))"
| "lock_step k self inspect (Reads n t) d =
     ((case readHolder d t of
         Missing \<Rightarrow> retry n
       | Invalid_holder \<Rightarrow> Failed ''supervisor lock must be a private 0600 single-link regular file''
       | Holder h \<Rightarrow> if \<not> n_released h \<and> holderAlive h inspect then Already_running (n_pid h) else Links n (t + 1)), d)"
| "lock_step k self inspect (Links n g) d =
     (if map_of d g \<noteq> None then (retry n, d)
      else (Unaliases n g, (g, \<lparr>e_holder = record_of self False, e_alias = True, e_writer = k\<rparr>) # d))"
| "lock_step k self inspect (Unaliases n g) d =
     (Confirms n g, case map_of d g of None \<Rightarrow> d | Some e \<Rightarrow> if e_writer e = k then drop_alias g d else d)"
| "lock_step k self inspect (Confirms n g) d =
     (if currentSupervisorGeneration d \<noteq> Some g then (Withdraws n g, d)
      else (Clears g (filter (\<lambda>s. s < g) (generations d)), d))"
| "lock_step k self inspect (Withdraws n g) d = (retry n, unlink g d)"
| "lock_step k self inspect (Clears g []) d = (Holds g, d)"
| "lock_step k self inspect (Clears g (s # ss)) d = (Clears g ss, unlink s d)"
| "lock_step k self inspect (Holds g) d = (Checks g, d)"
| "lock_step k self inspect (Checks g) d =
     ((case readHolder d g of
         Missing \<Rightarrow> Released
       | Invalid_holder \<Rightarrow> Failed ''supervisor lock must be a private 0600 single-link regular file''
       | Holder h \<Rightarrow> if n_released h \<or> \<not> same_incarnation self h then Released else Replaces g), d)"
| "lock_step k self inspect (Replaces g) d =
     (Released, AList.update g \<lparr>e_holder = record_of self True, e_alias = False, e_writer = k\<rparr> d)"
| "lock_step k self inspect p d = (p, d)"

subsection \<open>Contenders together\<close>

record contest =
  x_dir :: dir
  x_pc :: "nat \<Rightarrow> pc"
  x_self :: "nat \<Rightarrow> incarnation"

definition alive :: "contest \<Rightarrow> nat \<Rightarrow> bool" where
  "alive w k \<longleftrightarrow> x_pc w k \<noteq> Unborn \<and> x_pc w k \<noteq> Dead"

definition true_record :: "incarnation \<Rightarrow> nat \<Rightarrow> string option \<Rightarrow> string option \<Rightarrow> bool" where
  "true_record t pid boot start \<longleftrightarrow>
     pid = n_pid t \<and> (boot \<noteq> None \<and> start \<noteq> None \<longrightarrow> boot = n_boot_id t \<and> start = n_start_id t)"

text \<open>What the operating system owes: a live process is never reported gone, and a full incarnation
  reported under its PID is its own. \<open>os k\<close> is the incarnation of process \<open>k\<close>.\<close>

definition inspect_sound :: "(nat \<Rightarrow> incarnation) \<Rightarrow> contest \<Rightarrow> (nat \<Rightarrow> inspection) \<Rightarrow> bool" where
  "inspect_sound os w inspect \<longleftrightarrow> (\<forall>k. alive w k \<longrightarrow>
     (case inspect (n_pid (os k)) of Unreadable \<Rightarrow> True | Gone \<Rightarrow> False
      | Present c \<Rightarrow> true_record (os k) (n_pid c) (n_boot_id c) (n_start_id c)))"

definition own_incarnation :: "nat \<Rightarrow> inspection \<Rightarrow> incarnation" where
  "own_incarnation pid i = (case i of Present c \<Rightarrow> c | _ \<Rightarrow> \<lparr>n_pid = pid, n_boot_id = None, n_start_id = None\<rparr>)"

fun at_rest :: "pc \<Rightarrow> bool" where
  "at_rest Idle = True"
| "at_rest Released = True"
| "at_rest (Already_running pid) = True"
| "at_rest (Failed message) = True"
| "at_rest _ = False"

inductive moves_to :: "(nat \<Rightarrow> incarnation) \<Rightarrow> contest \<Rightarrow> contest \<Rightarrow> bool" for os where
  born: "x_pc w k = Unborn \<Longrightarrow> \<forall>j. alive w j \<longrightarrow> n_pid (os j) \<noteq> n_pid (os k)
     \<Longrightarrow> moves_to os w (w\<lparr>x_pc := (x_pc w)(k := Idle)\<rparr>)"
| dies: "alive w k \<Longrightarrow> moves_to os w (w\<lparr>x_pc := (x_pc w)(k := Dead)\<rparr>)"
| acquires: "at_rest (x_pc w k) \<Longrightarrow> inspect_sound os w inspect \<Longrightarrow> inspect (n_pid (os k)) \<noteq> Unreadable
     \<Longrightarrow> moves_to os w (w\<lparr>x_pc := (x_pc w)(k := Lists 0),
           x_self := (x_self w)(k := own_incarnation (n_pid (os k)) (inspect (n_pid (os k))))\<rparr>)"
| operates: "alive w k \<Longrightarrow> inspect_sound os w inspect
     \<Longrightarrow> lock_step k (x_self w k) inspect (x_pc w k) (x_dir w) = (p, d)
     \<Longrightarrow> moves_to os w (w\<lparr>x_pc := (x_pc w)(k := p), x_dir := d\<rparr>)"

definition no_contest :: contest where
  "no_contest = \<lparr>x_dir = [], x_pc = (\<lambda>_. Unborn),
     x_self = (\<lambda>_. \<lparr>n_pid = 0, n_boot_id = None, n_start_id = None\<rparr>)\<rparr>"

inductive reached :: "(nat \<Rightarrow> incarnation) \<Rightarrow> contest \<Rightarrow> bool" for os where
  start: "reached os no_contest"
| move: "reached os w \<Longrightarrow> moves_to os w w' \<Longrightarrow> reached os w'"

text \<open>A contender excludes all others from its second listing until its tombstone is in place.\<close>

fun excludes :: "pc \<Rightarrow> bool" where
  "excludes (Clears g ss) = True"
| "excludes (Holds g) = True"
| "excludes (Checks g) = True"
| "excludes (Replaces g) = True"
| "excludes _ = False"

subsection \<open>The highest generation\<close>

definition highest :: "dir \<Rightarrow> nat" where
  "highest d = (case currentSupervisorGeneration d of None \<Rightarrow> 0 | Some t \<Rightarrow> t)"

lemma last_sort:
  assumes "xs \<noteq> []"
  shows "last (sort xs) = Max (set (xs :: nat list))"
proof (rule Max_eqI [symmetric])
  have ne: "sort xs \<noteq> []" using assms by (metis set_empty set_sort)
  then show "last (sort xs) \<in> set xs" using last_in_set [OF ne] by simp
  fix y assume "y \<in> set xs"
  then have y: "y \<in> set (butlast (sort xs) @ [last (sort xs)])" using ne by simp
  have "sorted (butlast (sort xs) @ [last (sort xs)])" using ne by simp
  with y show "y \<le> last (sort xs)" by (auto simp: sorted_append simp del: append_butlast_last_id)
qed simp

definition numbers :: "dir \<Rightarrow> nat set" where
  "numbers d = insert 0 {g. listed g \<and> map_of d g \<noteq> None}"

lemma numbers_set: "numbers d = insert 0 (set (filter listed (map fst d)))"
  by (auto simp: numbers_def map_of_eq_None_iff)

lemma finite_numbers [simp]: "finite (numbers d)"
  by (simp add: numbers_set)

lemma top_Max: "highest d = Max (numbers d)"
proof (cases "filter listed (map fst d) = []")
  case True
  then show ?thesis
    unfolding numbers_set highest_def currentSupervisorGeneration_def generations_def by (simp del: filter_empty_conv)
next
  case False
  then have "sort (filter listed (map fst d)) \<noteq> []" by (metis set_empty set_sort)
  then have "highest d = Max (set (filter listed (map fst d)))"
    unfolding highest_def currentSupervisorGeneration_def generations_def using last_sort [OF False] by simp
  moreover have "Max (insert 0 (set (filter listed (map fst d)))) = max 0 (Max (set (filter listed (map fst d))))"
    using False by (intro Max_insert) (simp_all only: finite_set set_empty not_False_eq_True)
  ultimately show ?thesis unfolding numbers_set by simp
qed

lemma current_top: "currentSupervisorGeneration d = (if highest d = 0 then None else Some (highest d))"
proof (cases "generations d = []")
  case False
  then have "last (generations d) \<in> set (generations d)" by simp
  then have "last (generations d) \<noteq> 0" by (auto simp: generations_def listed_def)
  with False show ?thesis by (simp add: highest_def currentSupervisorGeneration_def)
qed (simp add: highest_def currentSupervisorGeneration_def)

lemma listed_top: "listed g \<Longrightarrow> map_of d g \<noteq> None \<Longrightarrow> g \<le> highest d"
  unfolding top_Max by (rule Max_ge [OF finite_numbers]) (simp add: numbers_def)

lemma top_entry: "highest d \<noteq> 0 \<Longrightarrow> listed (highest d) \<and> map_of d (highest d) \<noteq> None"
proof -
  have "numbers d \<noteq> {}" by (simp add: numbers_def)
  from Max_in [OF finite_numbers this] have "highest d \<in> numbers d" unfolding top_Max .
  then show "highest d \<noteq> 0 \<Longrightarrow> listed (highest d) \<and> map_of d (highest d) \<noteq> None" by (auto simp: numbers_def)
qed

lemma topI: "listed t \<Longrightarrow> map_of d t \<noteq> None \<Longrightarrow> (\<And>g. listed g \<Longrightarrow> map_of d g \<noteq> None \<Longrightarrow> g \<le> t) \<Longrightarrow> highest d = t"
  using top_entry [of d] listed_top [of t d] by (metis le_antisym le_zero_eq listed_def not_one_le_zero)

lemma top_cong: "(\<And>g. (map_of d g = None) = (map_of d' g = None)) \<Longrightarrow> highest d = highest d'"
  by (simp add: top_Max numbers_def)

lemma top_zero: "highest d = 0 \<Longrightarrow> listed g \<Longrightarrow> map_of d g = None"
  using listed_top [of g d] by (cases "map_of d g") (auto simp: listed_def)

subsection \<open>The operations on the directory\<close>

lemma map_of_unlink: "map_of (unlink s d) g = (if g = s then None else map_of d g)"
  by (simp add: unlink_def delete_conv')

lemma top_unlink: "s \<noteq> highest d \<Longrightarrow> highest (unlink s d) = highest d"
proof (cases "highest d = 0")
  case True
  then have "highest (unlink s d) = 0"
    using top_entry [of "unlink s d"] top_zero [OF True, of "highest (unlink s d)"]
    by (cases "highest (unlink s d) = 0") (auto simp: map_of_unlink split: if_splits)
  with True show ?thesis by simp
next
  case False
  assume "s \<noteq> highest d"
  with top_entry [OF False] listed_top show ?thesis by (intro topI) (auto simp: map_of_unlink split: if_splits)
qed

lemma map_of_drop_alias:
  "map_of (drop_alias s d) g = (if g = s then map_option (\<lambda>e. e\<lparr>e_alias := False\<rparr>) (map_of d s) else map_of d g)"
  by (auto simp: drop_alias_def update_conv' split: option.splits)

lemma top_drop_alias [simp]: "highest (drop_alias s d) = highest d"
  by (rule top_cong) (simp add: map_of_drop_alias)

lemma top_update: "map_of d g \<noteq> None \<Longrightarrow> highest (AList.update g e d) = highest d"
  by (rule top_cong) (auto simp: update_conv')

lemma top_link: "map_of d g = None \<Longrightarrow> highest ((g, e) # d) = (if listed g then max g (highest d) else highest d)"
proof -
  have "numbers ((g, e) # d) = (if listed g then insert g (numbers d) else numbers d)" by (auto simp: numbers_def)
  moreover have "Max (insert g (numbers d)) = max g (Max (numbers d))"
    by (rule Max_insert [OF finite_numbers]) (simp add: numbers_def)
  ultimately show ?thesis by (simp add: top_Max)
qed

subsection \<open>The invariant\<close>

definition entry_true :: "(nat \<Rightarrow> incarnation) \<Rightarrow> (nat \<Rightarrow> pc) \<Rightarrow> lock_file \<Rightarrow> bool" where
  "entry_true os pcs e \<longleftrightarrow> pcs (e_writer e) \<noteq> Unborn
     \<and> true_record (os (e_writer e)) (n_pid (e_holder e)) (n_boot_id (e_holder e)) (n_start_id (e_holder e))"

definition finished :: "(nat \<Rightarrow> pc) \<Rightarrow> lock_file \<Rightarrow> bool" where
  "finished pcs e \<longleftrightarrow> n_released (e_holder e) \<or> pcs (e_writer e) = Dead"

definition owned :: "nat \<Rightarrow> incarnation \<Rightarrow> bool \<Rightarrow> lock_file option \<Rightarrow> bool" where
  "owned k self aliased eo \<longleftrightarrow>
     (\<exists>e. eo = Some e \<and> e_writer e = k \<and> e_holder e = record_of self False \<and> (e_alias e \<longrightarrow> aliased))"

text \<open>What holds of a contender, given the highest generation \<open>t\<close> and its file \<open>eo\<close>.\<close>

fun pc_ok :: "(nat \<Rightarrow> pc) \<Rightarrow> nat \<Rightarrow> incarnation \<Rightarrow> nat \<Rightarrow> lock_file option \<Rightarrow> pc \<Rightarrow> bool" where
  "pc_ok pcs k self t eo (Looks n g) = (g \<le> t)"
| "pc_ok pcs k self t eo (Reads n g) = (g \<le> t)"
| "pc_ok pcs k self t eo (Links n g) =
     (1 \<le> g \<and> g \<le> t + 1 \<and> (g = t + 1 \<and> t \<noteq> 0 \<longrightarrow> (\<exists>e. eo = Some e \<and> finished pcs e)))"
| "pc_ok pcs k self t eo (Unaliases n g) = (1 \<le> g \<and> (listed g \<longrightarrow> g \<le> t) \<and> (g = t \<longrightarrow> owned k self True eo))"
| "pc_ok pcs k self t eo (Confirms n g) = (1 \<le> g \<and> (listed g \<longrightarrow> g \<le> t) \<and> (g = t \<longrightarrow> owned k self False eo))"
| "pc_ok pcs k self t eo (Withdraws n g) = (g \<noteq> t \<and> (listed g \<longrightarrow> g < t))"
| "pc_ok pcs k self t eo (Clears g ss) = (1 \<le> g \<and> g = t \<and> owned k self False eo \<and> (\<forall>s\<in>set ss. s < g))"
| "pc_ok pcs k self t eo (Holds g) = (1 \<le> g \<and> g = t \<and> owned k self False eo)"
| "pc_ok pcs k self t eo (Checks g) = (1 \<le> g \<and> g = t \<and> owned k self False eo)"
| "pc_ok pcs k self t eo (Replaces g) = (1 \<le> g \<and> g = t \<and> owned k self False eo)"
| "pc_ok pcs k self t eo p = True"

definition top_file :: "dir \<Rightarrow> lock_file option" where
  "top_file d = map_of d (highest d)"

definition entries_true :: "(nat \<Rightarrow> incarnation) \<Rightarrow> (nat \<Rightarrow> pc) \<Rightarrow> dir \<Rightarrow> bool" where
  "entries_true os pcs d \<longleftrightarrow> (\<forall>g e. map_of d g = Some e \<longrightarrow> entry_true os pcs e)"

definition contest_ok :: "(nat \<Rightarrow> incarnation) \<Rightarrow> contest \<Rightarrow> bool" where
  "contest_ok os w \<longleftrightarrow>
     (\<forall>k. pc_ok (x_pc w) k (x_self w k) (highest (x_dir w)) (top_file (x_dir w)) (x_pc w k))
     \<and> entries_true os (x_pc w) (x_dir w)
     \<and> (\<forall>k. alive w k \<and> x_pc w k \<noteq> Idle \<longrightarrow>
          true_record (os k) (n_pid (x_self w k)) (n_boot_id (x_self w k)) (n_start_id (x_self w k)))"


subsection \<open>Preservation\<close>

text \<open>What a step of contender \<open>k\<close> can do to the highest generation and its file.\<close>

inductive top_change :: "(nat \<Rightarrow> pc) \<Rightarrow> nat \<Rightarrow> nat \<Rightarrow> lock_file option \<Rightarrow> nat \<Rightarrow> lock_file option \<Rightarrow> bool" for pcs k where
  unchanged: "top_change pcs k t eo t eo"
| unaliased: "top_change pcs k t eo t (map_option (\<lambda>e. e\<lparr>e_alias := False\<rparr>) eo)"
| superseded: "(t \<noteq> 0 \<Longrightarrow> \<exists>e. eo = Some e \<and> finished pcs e) \<Longrightarrow> top_change pcs k t eo (t + 1) eo'"
| buried: "owned k self False eo \<Longrightarrow> e_writer e = k \<Longrightarrow> n_released (e_holder e) \<Longrightarrow> top_change pcs k t eo t (Some e)"

lemma pc_ok_dead:
  "pc_ok pcs k self t eo p \<Longrightarrow> (\<And>j. pcs j = Dead \<Longrightarrow> pcs' j = Dead) \<Longrightarrow> pc_ok pcs' k self t eo p"
  by (cases p) (auto simp: finished_def)

lemma owned_finished: "owned k self al (Some e) \<Longrightarrow> finished pcs e \<Longrightarrow> pcs k = Dead"
  by (auto simp: owned_def finished_def record_of_def)

lemma owned_unaliased: "owned k self al eo \<Longrightarrow> owned k self al (map_option (\<lambda>e. e\<lparr>e_alias := False\<rparr>) eo)"
  by (auto simp: owned_def)

lemma owned_writer: "owned k self al eo \<Longrightarrow> owned j self' al' eo \<Longrightarrow> j = k"
  by (auto simp: owned_def)

lemma others_keep:
  assumes "top_change pcs k t eo t' eo'" and "pc_ok pcs j self t eo p" and "pcs j = p" and "j \<noteq> k"
    and "t' = t + 1 \<Longrightarrow> listed t'"
  shows "pc_ok pcs j self t' eo' p"
  using assms
proof (induction rule: top_change.induct)
  case (unaliased t eo)
  then show ?case by (cases p) (auto intro: owned_unaliased simp: finished_def)
next
  case (superseded t eo eo')
  then show ?case
    by (cases p) (auto dest: owned_finished)
next
  case (buried self eo e t)
  then show ?case
    by (cases p) (auto simp: finished_def dest: owned_writer)
qed


text \<open>The judgement of a contender on a holder is right: not released and not alive means its writer died.\<close>

definition judged :: "(nat \<Rightarrow> pc) \<Rightarrow> (nat \<Rightarrow> inspection) \<Rightarrow> dir \<Rightarrow> bool" where
  "judged pcs inspect d \<longleftrightarrow>
     (\<forall>g e. map_of d g = Some e \<longrightarrow> \<not> holderAlive (e_holder e) inspect \<longrightarrow> pcs (e_writer e) = Dead)"

lemma true_records_alive:
  assumes "true_record t (n_pid h) (n_boot_id h) (n_start_id h)"
    and "case inspect (n_pid t) of Unreadable \<Rightarrow> True | Gone \<Rightarrow> False
      | Present c \<Rightarrow> true_record t (n_pid c) (n_boot_id c) (n_start_id c)"
  shows "holderAlive h inspect"
  using assms by (cases "inspect (n_pid t)") (auto simp: holderAlive_def true_record_def)

lemma sound_judged:
  assumes "contest_ok os w" and "inspect_sound os w inspect"
  shows "judged (x_pc w) inspect (x_dir w)"
  unfolding judged_def
proof (intro allI impI)
  fix g e assume e: "map_of (x_dir w) g = Some e" and na: "\<not> holderAlive (e_holder e) inspect"
  from assms(1) e have t: "entry_true os (x_pc w) e" by (simp add: contest_ok_def entries_true_def)
  then have "\<not> alive w (e_writer e)"
    using assms(2) na true_records_alive [of "os (e_writer e)" "e_holder e" inspect]
    unfolding inspect_sound_def entry_true_def by blast
  with t show "x_pc w (e_writer e) = Dead" by (simp add: alive_def entry_true_def)
qed

lemma finished_holder:
  "judged pcs inspect d \<Longrightarrow> readHolder d g = Holder h \<Longrightarrow> n_released h \<or> \<not> holderAlive h inspect
     \<Longrightarrow> \<exists>e. map_of d g = Some e \<and> finished pcs e"
  by (auto simp: readHolder_def judged_def finished_def split: option.splits if_splits)

lemma top_file_unlink: "s \<noteq> highest d \<Longrightarrow> top_file (unlink s d) = top_file d"
  by (simp add: top_file_def top_unlink map_of_unlink)

lemma top_file_drop_alias:
  "top_file (drop_alias s d) = (if s = highest d then map_option (\<lambda>e. e\<lparr>e_alias := False\<rparr>) (top_file d) else top_file d)"
  by (simp add: top_file_def map_of_drop_alias)

lemma top_change_drop: "top_change pcs k (highest d) (top_file d) (highest (drop_alias s d)) (top_file (drop_alias s d))"
  by (auto simp: top_file_drop_alias intro: top_change.intros)

lemma top_file_link:
  "map_of d g = None \<Longrightarrow> g \<le> highest d + 1 \<Longrightarrow>
     highest ((g, e) # d) = (if listed g \<and> g = highest d + 1 then highest d + 1 else highest d)
     \<and> top_file ((g, e) # d) = (if listed g \<and> g = highest d + 1 then Some e
         else if g = highest d then Some e else top_file d)"
  by (cases "g = highest d + 1") (auto simp: top_link top_file_def max_def)

definition step_ok :: "(nat \<Rightarrow> pc) \<Rightarrow> nat \<Rightarrow> incarnation \<Rightarrow> dir \<Rightarrow> pc \<times> dir \<Rightarrow> bool" where
  "step_ok pcs k self d r \<longleftrightarrow>
     pc_ok pcs k self (highest (snd r)) (top_file (snd r)) (fst r)
     \<and> top_change pcs k (highest d) (top_file d) (highest (snd r)) (top_file (snd r))
     \<and> (highest (snd r) = highest d + 1 \<longrightarrow> listed (highest (snd r)))"

lemma step_okI:
  "pc_ok pcs k self (highest d) (top_file d) p \<Longrightarrow> step_ok pcs k self d (p, d)"
  by (simp add: step_ok_def top_change.unchanged)

lemma retry_ok [simp]: "pc_ok pcs k self t eo (retry n)"
  by (simp add: retry_def)

lemma links_ok:
  assumes "pc_ok pcs k self (highest d) (top_file d) (Links n g)"
  shows "step_ok pcs k self d (lock_step k self inspect (Links n g) d)"
proof (cases "map_of d g = None")
  case True
  let ?e = "\<lparr>e_holder = record_of self False, e_alias = True, e_writer = k\<rparr>"
  from assms have g: "1 \<le> g" "g \<le> highest d + 1" by simp_all
  have ne: "g \<noteq> highest d" using True g top_entry [of d] by auto
  note link = top_file_link [OF True g(2), of ?e]
  show ?thesis
  proof (cases "listed g \<and> g = highest d + 1")
    case new: True
    with assms have "highest d \<noteq> 0 \<Longrightarrow> \<exists>e. top_file d = Some e \<and> finished pcs e" by auto
    from top_change.superseded [OF this] new g True link show ?thesis
      by (auto simp: step_ok_def owned_def)
  next
    case False
    with link ne g True show ?thesis
      by (auto simp: step_ok_def intro: top_change.unchanged)
  qed
qed (simp add: step_okI)

lemma lists_ok: "step_ok pcs k self d (lock_step k self inspect (Lists n) d)"
  by (cases "highest d") (auto simp: current_top intro!: step_okI)

lemma looks_ok:
  "pc_ok pcs k self (highest d) (top_file d) (Looks n g) \<Longrightarrow> step_ok pcs k self d (lock_step k self inspect (Looks n g) d)"
  using top_change_drop [of pcs k d g]
  by (auto simp: step_ok_def intro: top_change.unchanged split: option.split)

lemma reads_ok:
  assumes "pc_ok pcs k self (highest d) (top_file d) (Reads n g)" and "judged pcs inspect d"
  shows "step_ok pcs k self d (lock_step k self inspect (Reads n g) d)"
  using assms(1) finished_holder [OF assms(2), of g]
  by (auto simp: top_file_def intro!: step_okI split: read_result.split)

lemma unaliases_ok:
  assumes "pc_ok pcs k self (highest d) (top_file d) (Unaliases n g)"
  shows "step_ok pcs k self d (lock_step k self inspect (Unaliases n g) d)"
proof (cases "\<exists>e. map_of d g = Some e \<and> e_writer e = k")
  case True
  then have "lock_step k self inspect (Unaliases n g) d = (Confirms n g, drop_alias g d)" by auto
  moreover have "g = highest d \<Longrightarrow> owned k self False (top_file (drop_alias g d))"
    using assms by (auto simp: top_file_drop_alias owned_def)
  ultimately show ?thesis using assms top_change_drop [of pcs k d g] by (simp add: step_ok_def)
next
  case False
  then have "lock_step k self inspect (Unaliases n g) d = (Confirms n g, d)" by (auto split: option.split)
  moreover have "g \<noteq> highest d" using False assms by (auto simp: owned_def top_file_def)
  ultimately show ?thesis using assms by (simp add: step_okI)
qed


lemma confirms_ok:
  assumes "pc_ok pcs k self (highest d) (top_file d) (Confirms n g)"
  shows "step_ok pcs k self d (lock_step k self inspect (Confirms n g) d)"
  using assms by (auto simp: current_top intro!: step_okI split: if_splits)

lemma unlink_ok:
  assumes "s \<noteq> highest d" and "pc_ok pcs k self (highest d) (top_file d) p"
  shows "step_ok pcs k self d (p, unlink s d)"
  using assms by (simp add: step_ok_def top_unlink top_file_unlink top_change.unchanged)

lemma replaces_ok:
  assumes "pc_ok pcs k self (highest d) (top_file d) (Replaces g)"
  shows "step_ok pcs k self d (lock_step k self inspect (Replaces g) d)"
proof -
  let ?e = "\<lparr>e_holder = record_of self True, e_alias = False, e_writer = k\<rparr>"
  have "owned k self False (top_file d)" and g: "g = highest d" using assms by simp_all
  then have "top_change pcs k (highest d) (top_file d) (highest d) (Some ?e)"
    by (intro top_change.buried) (simp_all add: record_of_def)
  moreover have "map_of d g \<noteq> None" using assms by (auto simp: owned_def top_file_def)
  ultimately show ?thesis using g by (simp add: step_ok_def top_update top_file_def update_conv')
qed

lemma lock_step_ok:
  assumes "pc_ok pcs k self (highest d) (top_file d) p" and "judged pcs inspect d"
  shows "step_ok pcs k self d (lock_step k self inspect p d)"
proof (cases p)
  case (Clears g ss)
  with assms(1) show ?thesis by (cases ss) (auto intro: unlink_ok step_okI)
next
  case (Withdraws n g)
  with assms(1) show ?thesis by (simp add: unlink_ok)
next
  case (Checks g)
  with assms(1) show ?thesis by (auto intro!: step_okI split: read_result.split)
next
  case (Lists n)
  show ?thesis unfolding Lists by (rule lists_ok)
next
  case (Looks n g)
  show ?thesis unfolding Looks by (rule looks_ok [OF assms(1) [unfolded Looks]])
next
  case (Reads n g)
  show ?thesis unfolding Reads by (rule reads_ok [OF assms(1) [unfolded Reads] assms(2)])
next
  case (Links n g)
  show ?thesis unfolding Links by (rule links_ok [OF assms(1) [unfolded Links]])
next
  case (Unaliases n g)
  show ?thesis unfolding Unaliases by (rule unaliases_ok [OF assms(1) [unfolded Unaliases]])
next
  case (Confirms n g)
  show ?thesis unfolding Confirms by (rule confirms_ok [OF assms(1) [unfolded Confirms]])
next
  case (Replaces g)
  show ?thesis unfolding Replaces by (rule replaces_ok [OF assms(1) [unfolded Replaces]])
qed (use assms in \<open>auto intro: step_okI\<close>)

lemma entry_true_simps [simp]:
  "entry_true os pcs (e\<lparr>e_alias := x\<rparr>) = entry_true os pcs e"
  "entry_true os pcs \<lparr>e_holder = record_of self b, e_alias = x, e_writer = k\<rparr> \<longleftrightarrow>
     pcs k \<noteq> Unborn \<and> true_record (os k) (n_pid self) (n_boot_id self) (n_start_id self)"
  by (simp_all add: entry_true_def record_of_def)

lemma entries_true_dir [simp]:
  "entries_true os pcs d \<Longrightarrow> entries_true os pcs (unlink g d)"
  "entries_true os pcs d \<Longrightarrow> entries_true os pcs (drop_alias g d)"
  "entries_true os pcs d \<Longrightarrow> entry_true os pcs e \<Longrightarrow> entries_true os pcs (AList.update g e d)"
  "entries_true os pcs d \<Longrightarrow> entry_true os pcs e \<Longrightarrow> entries_true os pcs ((g, e) # d)"
  by (auto simp: entries_true_def map_of_unlink map_of_drop_alias update_conv')

lemma lock_step_entries:
  assumes "lock_step k self inspect p d = (p', d')" and "entries_true os pcs d" and "pcs k \<noteq> Unborn"
    and "true_record (os k) (n_pid self) (n_boot_id self) (n_start_id self)"
  shows "entries_true os pcs d'"
proof (cases p)
  case (Clears g ss)
  with assms show ?thesis by (cases ss) auto
qed (use assms in \<open>auto split: if_splits option.splits\<close>)

lemma lock_step_alive: "lock_step k self inspect p d = (p', d') \<Longrightarrow> p \<noteq> Unborn \<Longrightarrow> p \<noteq> Dead \<Longrightarrow> p' \<noteq> Unborn \<and> p' \<noteq> Dead"
  by (cases "(k, self, inspect, p, d)" rule: lock_step.cases)
    (auto simp: retry_def split: option.splits read_result.splits if_splits)

lemma lock_step_Idle: "lock_step k self inspect p d = (p', d') \<Longrightarrow> p \<noteq> Idle \<Longrightarrow> p' \<noteq> Idle"
  by (cases "(k, self, inspect, p, d)" rule: lock_step.cases)
    (auto simp: retry_def split: option.splits read_result.splits if_splits)


lemma pc_ok_update:
  "pc_ok pcs j self t eo p \<Longrightarrow> pcs k \<noteq> Dead \<Longrightarrow> pc_ok (pcs(k := q)) j self t eo p"
  by (erule pc_ok_dead [where pcs = pcs and pcs' = "pcs(k := q)"]) auto

lemma entries_true_update:
  "entries_true os pcs d \<Longrightarrow> (pcs k = Unborn \<or> q \<noteq> Unborn) \<Longrightarrow> entries_true os (pcs(k := q)) d"
  by (auto simp: entries_true_def entry_true_def)

lemma contest_ok_start: "contest_ok os no_contest"
  by (simp add: contest_ok_def no_contest_def entries_true_def alive_def)

lemma true_own:
  assumes "inspect_sound os w inspect" and "alive w k"
  shows "true_record (os k) (n_pid (own_incarnation (n_pid (os k)) (inspect (n_pid (os k)))))
    (n_boot_id (own_incarnation (n_pid (os k)) (inspect (n_pid (os k)))))
    (n_start_id (own_incarnation (n_pid (os k)) (inspect (n_pid (os k)))))"
  using assms by (cases "inspect (n_pid (os k))") (auto simp: inspect_sound_def own_incarnation_def true_record_def)

lemma contest_ok_moves:
  assumes "moves_to os w w'" and "contest_ok os w"
  shows "contest_ok os w'"
  using assms
proof (induction rule: moves_to.induct)
  case (born w k)
  then show ?case by (auto simp: contest_ok_def alive_def intro!: pc_ok_update entries_true_update)
next
  case (dies w k)
  then show ?case by (auto simp: contest_ok_def alive_def intro!: pc_ok_update entries_true_update)
next
  case (acquires w k inspect)
  then have "alive w k" by (cases "x_pc w k") (auto simp: alive_def)
  with acquires true_own [of os w inspect k] show ?case
    by (auto simp: contest_ok_def alive_def intro!: pc_ok_update entries_true_update)
next
  case (operates w k inspect p d)
  let ?d = "x_dir w"
  have "pc_ok (x_pc w) k (x_self w k) (highest ?d) (top_file ?d) (x_pc w k)" using operates.prems by (simp add: contest_ok_def)
  from lock_step_ok [OF this sound_judged [OF operates.prems operates.hyps(2)]]
  have ok: "step_ok (x_pc w) k (x_self w k) ?d (p, d)" unfolding operates.hyps(3) .
  have pc: "pc_ok (x_pc w) j (x_self w j) (highest d) (top_file d) (if j = k then p else x_pc w j)" for j
  proof (cases "j = k")
    case False
    from ok have "top_change (x_pc w) k (highest ?d) (top_file ?d) (highest d) (top_file d)"
      and "highest d = highest ?d + 1 \<Longrightarrow> listed (highest d)" by (simp_all add: step_ok_def)
    from others_keep [OF this(1) _ refl False this(2)] operates.prems False show ?thesis by (simp add: contest_ok_def)
  qed (use ok in \<open>simp add: step_ok_def\<close>)
  have live: "x_pc w k \<noteq> Unborn" "x_pc w k \<noteq> Dead" using operates.hyps(1) by (simp_all add: alive_def)
  show ?case
  proof (cases "x_pc w k = Idle")
    case True
    with operates.hyps(3) have "p = x_pc w k" "d = ?d" by simp_all
    then show ?thesis using operates.prems by simp
  next
    case False
    then have self: "true_record (os k) (n_pid (x_self w k)) (n_boot_id (x_self w k)) (n_start_id (x_self w k))"
      using operates by (simp add: contest_ok_def)
    have "entries_true os (x_pc w) d"
      using lock_step_entries [where os = os and pcs = "x_pc w", OF operates.hyps(3) _ live(1) self] operates.prems
      by (simp add: contest_ok_def)
    then have "entries_true os ((x_pc w)(k := p)) d"
      using lock_step_alive [OF operates.hyps(3) live] by (intro entries_true_update) simp_all
    moreover have "pc_ok ((x_pc w)(k := p)) j (x_self w j) (highest d) (top_file d) (((x_pc w)(k := p)) j)" for j
      using pc_ok_update [OF pc [of j] live(2), of p] by simp
    ultimately show ?thesis using self operates.prems by (simp add: contest_ok_def alive_def)
  qed
qed

lemma reached_ok: "reached os w \<Longrightarrow> contest_ok os w"
  by (induction rule: reached.induct) (auto intro: contest_ok_start contest_ok_moves)


subsection \<open>Mutual exclusion\<close>

fun generation_of :: "pc \<Rightarrow> nat" where
  "generation_of (Clears g ss) = g"
| "generation_of (Holds g) = g"
| "generation_of (Checks g) = g"
| "generation_of (Replaces g) = g"
| "generation_of _ = 0"

lemma excludes_owned:
  assumes "reached os w" and "excludes (x_pc w k)"
  shows "owned k (x_self w k) False (top_file (x_dir w))" and "generation_of (x_pc w k) = highest (x_dir w)"
    and "highest (x_dir w) \<noteq> 0"
proof -
  have "pc_ok (x_pc w) k (x_self w k) (highest (x_dir w)) (top_file (x_dir w)) (x_pc w k)"
    using reached_ok [OF assms(1)] by (simp add: contest_ok_def)
  with assms(2) show "owned k (x_self w k) False (top_file (x_dir w))" "generation_of (x_pc w k) = highest (x_dir w)"
    "highest (x_dir w) \<noteq> 0"
    by (cases "x_pc w k"; auto)+
qed

text \<open>C23: at most one process holds the supervisor lock, whatever the interleaving of file operations and
  deaths, and while it does no observer finds its generation finished.\<close>

theorem one_supervisor:
  assumes "reached os w" and "excludes (x_pc w k)"
  shows "(\<forall>j. excludes (x_pc w j) \<longrightarrow> j = k)
    \<and> (\<forall>inspect. inspect_sound os w inspect \<longrightarrow>
          \<not> supervisorGenerationFinished (x_dir w) (generation_of (x_pc w k)) inspect)"
proof (intro conjI allI impI)
  note own = excludes_owned [OF assms]
  fix j assume "excludes (x_pc w j)"
  from excludes_owned(1) [OF assms(1) this] own(1) show "j = k" by (rule owned_writer [rotated])
next
  note own = excludes_owned [OF assms]
  fix inspect assume "inspect_sound os w inspect"
  from sound_judged [OF reached_ok [OF assms(1)] this] have j: "judged (x_pc w) inspect (x_dir w)" .
  have live: "x_pc w k \<noteq> Dead" using assms(2) by auto
  from own(1) obtain e where e: "map_of (x_dir w) (highest (x_dir w)) = Some e" "e_writer e = k"
      "\<not> n_released (e_holder e)" "\<not> e_alias e"
    by (auto simp: owned_def top_file_def record_of_def)
  with j live have "holderAlive (e_holder e) inspect" by (auto simp: judged_def)
  with e show "\<not> supervisorGenerationFinished (x_dir w) (generation_of (x_pc w k)) inspect"
    unfolding supervisorGenerationFinished_def highest_def [symmetric] own(2) by (simp add: readHolder_def)
qed

lemma top_change_le: "top_change pcs k t eo t' eo' \<Longrightarrow> t \<le> t'"
  by (induction rule: top_change.induct) auto

lemma generations_never_restart:
  assumes "reached os w" and "moves_to os w w'"
  shows "highest (x_dir w) \<le> highest (x_dir w')"
  using assms(2)
proof (cases rule: moves_to.cases)
  case (operates k inspect p d)
  have ok: "contest_ok os w" by (rule reached_ok [OF assms(1)])
  then have "pc_ok (x_pc w) k (x_self w k) (highest (x_dir w)) (top_file (x_dir w)) (x_pc w k)" by (simp add: contest_ok_def)
  from lock_step_ok [OF this sound_judged [OF ok operates(3)]] operates(4)
  show ?thesis unfolding operates(1) by (auto simp: step_ok_def dest: top_change_le)
qed simp_all


subsection \<open>A contender alone\<close>

fun alone :: "nat \<Rightarrow> nat \<Rightarrow> incarnation \<Rightarrow> (nat \<Rightarrow> inspection) \<Rightarrow> pc \<times> dir \<Rightarrow> pc \<times> dir" where
  "alone 0 k self inspect r = r"
| "alone (Suc n) k self inspect r = alone n k self inspect (lock_step k self inspect (fst r) (snd r))"

lemma alone_add: "alone (m + n) k self inspect r = alone n k self inspect (alone m k self inspect r)"
  by (induction m k self inspect r rule: alone.induct) simp_all

lemma contest_again: "w\<lparr>x_pc := f, x_dir := d, x_pc := g, x_dir := d'\<rparr> = w\<lparr>x_pc := g, x_dir := d'\<rparr>"
  by simp

lemma alone_reached:
  assumes "reached os w" and "alive w k" and "inspect_sound os w inspect"
    and "alone n k (x_self w k) inspect (x_pc w k, x_dir w) = (p, d)"
  shows "reached os (w\<lparr>x_pc := (x_pc w)(k := p), x_dir := d\<rparr>)"
  using assms
proof (induction n arbitrary: w)
  case 0
  then have "p = x_pc w k" "d = x_dir w" by simp_all
  then have "w\<lparr>x_pc := (x_pc w)(k := p), x_dir := d\<rparr> = w" by (simp only: fun_upd_triv) simp
  then show ?case using 0(1) by (simp only:)
next
  case (Suc n)
  obtain p1 d1 where step: "lock_step k (x_self w k) inspect (x_pc w k) (x_dir w) = (p1, d1)"
    by (cases "lock_step k (x_self w k) inspect (x_pc w k) (x_dir w)")
  let ?w = "w\<lparr>x_pc := (x_pc w)(k := p1), x_dir := d1\<rparr>"
  have "moves_to os w ?w" by (rule moves_to.operates [OF Suc.prems(2,3) step])
  with Suc.prems(1) have "reached os ?w" by (rule reached.move)
  moreover have live: "alive ?w j = alive w j" for j
    using lock_step_alive [OF step] Suc.prems(2) by (auto simp: alive_def)
  moreover have "inspect_sound os ?w inspect" using Suc.prems(3) unfolding inspect_sound_def live .
  moreover have "alone n k (x_self ?w k) inspect (x_pc ?w k, x_dir ?w) = (p, d)" using Suc.prems(4) step by simp
  ultimately have "reached os (?w\<lparr>x_pc := (x_pc ?w)(k := p), x_dir := d\<rparr>)" using Suc.IH [of ?w] Suc.prems(2) by blast
  moreover have "x_pc ?w = (x_pc w)(k := p1)" by simp
  ultimately show ?case unfolding contest_again by (simp only: fun_upd_upd)
qed

lemma clears_alone:
  "alone (Suc (length ss)) k self inspect (Clears g ss, d) = (Holds g, fold unlink ss d)"
  by (induction ss arbitrary: d) simp_all

lemma map_of_fold_unlink: "map_of (fold unlink ss d) g = (if g \<in> set ss then None else map_of d g)"
  by (induction ss arbitrary: d) (auto simp: map_of_unlink)

text \<open>A contender that finds no generation above its own holds the lock it linked, and its release leaves a
  tombstone.\<close>

definition takes :: "nat \<Rightarrow> incarnation \<Rightarrow> (nat \<Rightarrow> inspection) \<Rightarrow> nat \<Rightarrow> pc \<times> dir \<Rightarrow> bool" where
  "takes k self inspect g r \<longleftrightarrow> (\<exists>n d d'. alone n k self inspect r = (Holds g, d)
     \<and> alone 3 k self inspect (Holds g, d) = (Released, d')
     \<and> (\<exists>e. map_of d' g = Some e \<and> n_released (e_holder e)))"

lemma takes_after: "alone n k self inspect r = r' \<Longrightarrow> takes k self inspect g r' \<Longrightarrow> takes k self inspect g r"
  unfolding takes_def by (metis alone_add)

lemma links_alone:
  assumes "map_of d g = None" and "g = highest d + 1" and "listed g"
  shows "takes k self inspect g (Links n g, d)"
proof -
  let ?e = "\<lparr>e_holder = record_of self False, e_alias = True, e_writer = k\<rparr>"
  let ?d = "drop_alias g ((g, ?e) # d)"
  let ?ss = "filter (\<lambda>s. s < g) (generations ?d)"
  have "highest ?d = g" using assms by (simp add: top_link)
  then have current: "currentSupervisorGeneration ?d = Some g" using assms(2) by (simp add: current_top)
  have "alone 3 k self inspect (Links n g, d) = (Clears g ?ss, ?d)"
    using assms(1) current by (simp add: eval_nat_numeral)
  moreover have "takes k self inspect g (Clears g ?ss, ?d)"
  proof -
    have "map_of (fold unlink ?ss ?d) g = Some (?e\<lparr>e_alias := False\<rparr>)"
      by (simp add: map_of_fold_unlink map_of_drop_alias)
    then have "alone 3 k self inspect (Holds g, fold unlink ?ss ?d)
        = (Released, AList.update g \<lparr>e_holder = record_of self True, e_alias = False, e_writer = k\<rparr> (fold unlink ?ss ?d))"
      by (simp add: eval_nat_numeral readHolder_def record_of_def same_incarnation_def)
    then show ?thesis unfolding takes_def
      using clears_alone [of ?ss k self inspect g ?d] by (fastforce simp: update_conv' record_of_def)
  qed
  ultimately show ?thesis by (rule takes_after)
qed

text \<open>A contender that runs alone takes the lock when the holder of the highest generation has released
  it or is found dead, and can release it again.\<close>

theorem lone_contender_acquires:
  assumes "top_file d \<noteq> None \<Longrightarrow> n_released (e_holder (the (top_file d))) \<or> \<not> holderAlive (e_holder (the (top_file d))) inspect"
    and "highest d + 1 < 10 ^ 15"
  shows "takes k self inspect (highest d + 1) (Lists n, d)"
proof (cases "highest d = 0")
  case True
  then have "alone 1 k self inspect (Lists n, d) = (Links n 1, d)" by (simp add: current_top)
  moreover have "takes k self inspect 1 (Links n 1, d)"
    using top_zero [OF True, of 1] True by (intro links_alone) (auto simp: listed_def)
  ultimately show ?thesis using True takes_after by fastforce
next
  case False
  then obtain e where e: "map_of d (highest d) = Some e" using top_entry by auto
  let ?t = "highest d" and ?d = "drop_alias (highest d) d"
  have fin: "n_released (e_holder e) \<or> \<not> holderAlive (e_holder e) inspect" using assms(1) e by (simp add: top_file_def)
  have "readHolder ?d ?t = Holder (e_holder e)" using e by (simp add: readHolder_def map_of_drop_alias)
  then have "alone 3 k self inspect (Lists n, d) = (Links n (?t + 1), ?d)"
    using False fin e by (simp add: eval_nat_numeral current_top)
  moreover have "map_of ?d (?t + 1) = None"
    using listed_top [of "?t + 1" d] assms(2) by (cases "map_of d (?t + 1)") (auto simp: map_of_drop_alias listed_def)
  then have "takes k self inspect (?t + 1) (Links n (?t + 1), ?d)"
    using assms(2) by (intro links_alone) (auto simp: listed_def)
  ultimately show ?thesis by (rule takes_after)
qed


subsection \<open>Reading the process table\<close>

text \<open>The kernel's text: the PID, the command name in parentheses (any text, parentheses and spaces
  included), then fields separated by single spaces, and a newline.\<close>

fun join_fields :: "nat list list \<Rightarrow> nat list" where
  "join_fields [] = []"
| "join_fields [f] = f"
| "join_fields (f # fs) = f @ 32 # join_fields fs"

definition stat_text :: "nat list \<Rightarrow> nat list \<Rightarrow> nat list list \<Rightarrow> nat list" where
  "stat_text pid comm fs = pid @ [32, 40] @ comm @ [41, 32] @ join_fields fs @ [10]"

definition plain_field :: "nat list \<Rightarrow> bool" where
  "plain_field f \<longleftrightarrow> f \<noteq> [] \<and> list_all (\<lambda>c. \<not> is_space c \<and> c \<noteq> 41) f"

lemma spaces [simp]: "is_space 32" "is_space 10"
  by code_simp+

lemma join_edges:
  "list_all plain_field fs \<Longrightarrow> fs \<noteq> [] \<Longrightarrow>
     join_fields fs \<noteq> [] \<and> \<not> is_space (hd (join_fields fs)) \<and> \<not> is_space (last (join_fields fs)) \<and> 41 \<notin> set (join_fields fs)"
  by (induction fs rule: join_fields.induct) (auto simp: plain_field_def list_all_iff hd_append)

lemma takeWhile_field:
  assumes "plain_field f"
  shows "takeWhile (\<lambda>c. \<not> is_space c) (f @ 32 # xs) = f" "dropWhile (\<lambda>c. \<not> is_space c) (f @ 32 # xs) = 32 # xs"
    "dropWhile (\<lambda>c. \<not> is_space c) f = []"
  using assms by (auto simp: plain_field_def list_all_iff takeWhile_append dropWhile_append3 dropWhile_append2 dropWhile_eq_Nil_conv)

lemma split_join:
  assumes "list_all plain_field fs" and "fs \<noteq> []"
  shows "split_spaces (join_fields fs) = fs"
  using assms
proof (induction fs rule: join_fields.induct)
  case (2 f)
  then show ?case using takeWhile_field(3) by (subst split_spaces.simps) (simp del: dropWhile_eq_Nil_conv)
next
  case (3 f g fs)
  then have "\<not> is_space (hd (join_fields (g # fs)))" "join_fields (g # fs) \<noteq> []" using join_edges [of "g # fs"] by auto
  then have "dropWhile is_space (join_fields (g # fs)) = join_fields (g # fs)" by (cases "join_fields (g # fs)") auto
  with 3 takeWhile_field(1,2) [of f "join_fields (g # fs)"] show ?case by (subst split_spaces.simps) auto
qed simp

lemma stat_fields_text:
  assumes "list_all plain_field fs" and "fs \<noteq> []"
  shows "stat_fields (stat_text pid comm fs) = fs"
proof -
  note edges = join_edges [OF assms]
  let ?tail = "32 # join_fields fs @ [10]"
  have "rev (takeWhile (\<lambda>c. c \<noteq> 41) (rev (stat_text pid comm fs))) = ?tail"
    using edges by (simp add: stat_text_def takeWhile_append)
  moreover have "trim_cps (join_fields fs @ [10]) = join_fields fs"
  proof -
    have "dropWhile is_space (join_fields fs @ [10]) = join_fields fs @ [10]" using edges by (cases "join_fields fs") auto
    moreover have "dropWhile is_space (rev (join_fields fs)) = rev (join_fields fs)"
      using edges by (cases "join_fields fs" rule: rev_cases) auto
    ultimately show ?thesis by (simp add: trim_cps_def)
  qed
  moreover have "byte (CHR '')'') = 41" by code_simp
  ultimately show ?thesis using split_join [OF assms] by (simp add: stat_fields_def)
qed

text \<open>What the operating system answers about a live process: the signal probe finds it, its text in the
  process table (if readable) names a running state and its start time, the boot id (if readable) is the
  present one.\<close>

definition live_probe :: "incarnation \<Rightarrow> probe \<Rightarrow> bool" where
  "live_probe t pb \<longleftrightarrow> exists_process (b_kill pb) \<and> exists_process (b_kill_again pb)
     \<and> (\<forall>stat. b_stat pb = Some stat \<longrightarrow>
          (\<exists>pid comm fs. stat = stat_text pid comm fs \<and> list_all plain_field fs \<and> 20 \<le> length fs
             \<and> hd fs \<noteq> [90] \<and> hd fs \<noteq> [88] \<and> n_start_id t = Some (of_cps (fs ! 19))))
     \<and> (\<forall>text. b_boot pb = Some text \<longrightarrow> n_boot_id t = Some (trim text))"

lemma live_incarnation:
  assumes "live_probe t pb"
  shows "\<exists>c. inspectProcess (n_pid t) pb = Some c \<and> true_record t (n_pid c) (n_boot_id c) (n_start_id c)"
proof -
  have names: "byte (CHR ''Z'') = 90" "byte (CHR ''X'') = 88" by code_simp+
  show ?thesis
  proof (cases "b_stat pb")
    case (Some stat)
    with assms obtain pid comm fs where "stat = stat_text pid comm fs" "list_all plain_field fs" "20 \<le> length fs"
      and t: "hd fs \<noteq> [90]" "hd fs \<noteq> [88]" "n_start_id t = Some (of_cps (fs ! 19))"
      by (auto simp: live_probe_def)
    then have f: "stat_fields stat = fs" using stat_fields_text [of fs pid comm] by fastforce
    show ?thesis
      using assms Some t
      by (cases "b_boot pb") (auto simp: inspectProcess_def Let_def f names live_probe_def true_record_def)
  qed (use assms in \<open>auto simp: inspectProcess_def Let_def live_probe_def true_record_def\<close>)
qed

definition inspect_by :: "(nat \<Rightarrow> probe) \<Rightarrow> nat \<Rightarrow> inspection" where
  "inspect_by probes pid = (case inspectProcess pid (probes pid) of None \<Rightarrow> Gone | Some c \<Rightarrow> Present c)"

text \<open>Inspecting processes through the signal probe and the process table never finds a live process
  gone, whatever the name of its command, and an incarnation reported in full is its own.\<close>

theorem probed_sound:
  assumes "\<forall>k. alive w k \<longrightarrow> live_probe (os k) (probes (n_pid (os k)))"
  shows "inspect_sound os w (inspect_by probes)"
  unfolding inspect_sound_def
proof (intro allI impI)
  fix k assume k: "alive w k"
  with assms have "live_probe (os k) (probes (n_pid (os k)))" by simp
  from live_incarnation [OF this] show "case inspect_by probes (n_pid (os k)) of Unreadable \<Rightarrow> True | Gone \<Rightarrow> False
      | Present c \<Rightarrow> true_record (os k) (n_pid c) (n_boot_id c) (n_start_id c)"
    by (auto simp: inspect_by_def)
qed

subsection \<open>A run\<close>

definition sample_os :: "nat \<Rightarrow> incarnation" where
  "sample_os k = \<lparr>n_pid = 100 + k, n_boot_id = Some ''boot'', n_start_id = Some ''77''\<rparr>"

definition sample_inspect :: "nat \<Rightarrow> inspection" where
  "sample_inspect pid = Present \<lparr>n_pid = pid, n_boot_id = Some ''boot'', n_start_id = Some ''77''\<rparr>"

definition sample_contest :: contest where
  "sample_contest = \<lparr>x_dir = [], x_pc = (\<lambda>_. Unborn)(0 := Lists 0),
     x_self = (x_self no_contest)(0 := sample_os 0)\<rparr>"

lemma sample_sound: "inspect_sound sample_os w sample_inspect"
  by (simp add: inspect_sound_def sample_inspect_def sample_os_def true_record_def)

lemma sample_reached: "reached sample_os sample_contest"
proof -
  let ?w = "no_contest\<lparr>x_pc := (x_pc no_contest)(0 := Idle)\<rparr>"
  have "reached sample_os ?w"
    by (rule reached.move [OF reached.start moves_to.born]) (simp_all add: no_contest_def alive_def)
  moreover have "moves_to sample_os ?w (?w\<lparr>x_pc := (x_pc ?w)(0 := Lists 0),
      x_self := (x_self ?w)(0 := own_incarnation (n_pid (sample_os 0)) (sample_inspect (n_pid (sample_os 0))))\<rparr>)"
    by (rule moves_to.acquires) (simp_all add: sample_sound, simp add: sample_inspect_def)
  ultimately have "reached sample_os (?w\<lparr>x_pc := (x_pc ?w)(0 := Lists 0),
      x_self := (x_self ?w)(0 := own_incarnation (n_pid (sample_os 0)) (sample_inspect (n_pid (sample_os 0))))\<rparr>)"
    by (rule reached.move)
  then show ?thesis
    by (simp add: sample_contest_def no_contest_def own_incarnation_def sample_inspect_def sample_os_def cong: if_cong)
qed

definition sample_held :: contest where
  "sample_held = (let r = alone 5 0 (sample_os 0) sample_inspect (Lists 0, []) in
     sample_contest\<lparr>x_pc := (x_pc sample_contest)(0 := fst r), x_dir := snd r\<rparr>)"

lemma sample_held_reached: "reached sample_os sample_held"
proof -
  have "alive sample_contest 0" "x_self sample_contest 0 = sample_os 0" "x_pc sample_contest 0 = Lists 0" "x_dir sample_contest = []"
    by (simp_all add: alive_def sample_contest_def)
  with alone_reached [OF sample_reached _ sample_sound, of 0 5] show ?thesis
    by (simp add: sample_held_def Let_def)
qed

lemma sample_held_pc: "x_pc sample_held 0 = Holds 1"
  unfolding sample_held_def by code_simp

lemma one_supervisor_witness:
  "\<not> excludes (x_pc sample_held 1) \<and> \<not> supervisorGenerationFinished (x_dir sample_held) 1 sample_inspect"
  using one_supervisor [OF sample_held_reached, of 0] sample_sound by (auto simp: sample_held_pc)

text \<open>A tombstone left by process 0 is superseded by process 1.\<close>

lemma lone_contender_witness:
  "takes 1 (sample_os 1) sample_inspect 2
     (Lists 0, [(1, \<lparr>e_holder = record_of (sample_os 0) True, e_alias = True, e_writer = 0\<rparr>)])"
proof -
  let ?d = "[(1, \<lparr>e_holder = record_of (sample_os 0) True, e_alias = True, e_writer = 0\<rparr>)]"
  have "highest ?d = 1" "n_released (e_holder (the (top_file ?d)))" by code_simp+
  with lone_contender_acquires [of ?d sample_inspect 1 "sample_os 1" 0] show ?thesis by (simp add: numeral_2_eq_2)
qed


text \<open>A command named \<open>) Z (\<close> does not disguise its process.\<close>

definition sample_stat :: "nat list" where
  "sample_stat = stat_text (map byte ''100'') (map byte '') Z ('') ([83] # replicate 18 [48] @ [map byte ''77'', [48]])"

definition sample_probe :: probe where
  "sample_probe = \<lparr>b_linux = True, b_kill = Refused_signal ''EPERM'', b_kill_again = Delivered,
     b_stat = Some sample_stat, b_boot = Some ''boot''\<rparr>"

lemma sample_probe_live: "live_probe (sample_os k) sample_probe"
proof -
  let ?fs = "[83] # replicate 18 [48] @ [map byte ''77'', [48]]"
  have "list_all plain_field ?fs" "20 \<le> length ?fs" "hd ?fs \<noteq> [90]" "hd ?fs \<noteq> [88]" "of_cps (?fs ! 19) = ''77''"
      "trim ''boot'' = ''boot''"
    by code_simp+
  then have "\<exists>pid comm fs. sample_stat = stat_text pid comm fs \<and> list_all plain_field fs \<and> 20 \<le> length fs
      \<and> hd fs \<noteq> [90] \<and> hd fs \<noteq> [88] \<and> Some ''77'' = Some (of_cps (fs ! 19))"
    unfolding sample_stat_def by (intro exI conjI) (rule refl | assumption | simp)+
  moreover have "trim ''boot'' = ''boot''" by code_simp
  ultimately show ?thesis by (simp add: live_probe_def sample_probe_def exists_process_def sample_os_def)
qed

lemma probed_sound_witness: "inspect_sound sample_os sample_held (inspect_by (\<lambda>_. sample_probe))"
  using probed_sound [of sample_held sample_os "\<lambda>_. sample_probe"] sample_probe_live by simp

end
