(* ===== verification/Views.thy ===== *)
theory Views
  imports Json
begin

section \<open>Resource views: what the daemon streams\<close>

text \<open>
  \<open>CoworkResourceViews\<close> of \<open>src/resource-views.ts\<close>: a view of one resource (the room list, or one room
  with its participants and the metadata of its history) on a console connection. A refresh projects
  the resource and streams the difference to what the view streamed last: a snapshot, or an update of
  the room followed by pages of the new records. The promises, timers and the stream itself are left
  out; an interrupted refresh is one that stops after some prefix of its frames.
\<close>

subsection \<open>Projections and frames\<close>

text \<open>A record of the history: its sequence number and its JSON.\<close>

record entry =
  hr_seq :: nat
  hr_json :: json

text \<open>A projected payload: \<open>null\<close> for a room that is gone, a room list, or a room with the history past
  a cursor (which is part of the payload when the view had one).\<close>

datatype projection =
    Nothing
  | Listing json
  | Room_view json json "entry list" "nat option"

record source_state =
  so_generation :: string
  so_position :: nat
  so_healthy :: bool

datatype frame_body =
    Snapshot projection
  | Snapshot_paged json json
  | Room_update json json "nat option"
  | History_page "entry list" bool
  | Ready string source_state
  | Coverage source_state
  | Resync string
  | Health string

record envelope =
  ev_generation :: string
  ev_view :: string
  ev_epoch :: nat
  ev_baseline :: string
  ev_sequence :: nat
  ev_revision :: nat
  ev_body :: frame_body
  ev_source :: "source_state option"

subsection \<open>JSON\<close>

definition state_json :: "source_state \<Rightarrow> json" where
  "state_json s = J_obj [(''protocolVersion'', J_num 1), (''producerGeneration'', J_str (so_generation s)),
     (''position'', J_num (int (so_position s))), (''health'', J_str (if so_healthy s then ''healthy'' else ''failed''))]"

fun payload_json :: "projection \<Rightarrow> json" where
  "payload_json Nothing = J_null"
| "payload_json (Listing v) = v"
| "payload_json (Room_view room participants h after) =
     J_obj ([(''room'', room), (''participants'', participants), (''history'', J_arr (map hr_json h))]
       @ opt_field ''historyAfter'' (\<lambda>n. J_num (int n)) after)"

fun frame_kind :: "frame_body \<Rightarrow> string" where
  "frame_kind (Snapshot p) = ''snapshot''"
| "frame_kind (Snapshot_paged r ps) = ''snapshot''"
| "frame_kind (Room_update r ps a) = ''upsert''"
| "frame_kind (History_page rs c) = ''upsert''"
| "frame_kind (Ready b s) = ''ready''"
| "frame_kind (Coverage s) = ''coverage''"
| "frame_kind (Resync reason) = ''resync''"
| "frame_kind (Health reason) = ''health''"

fun body_json :: "frame_body \<Rightarrow> json" where
  "body_json (Snapshot p) = payload_json p"
| "body_json (Snapshot_paged room participants) =
     J_obj [(''room'', room), (''participants'', participants), (''history'', J_arr []), (''historyComplete'', J_bool False)]"
| "body_json (Room_update room participants after) =
     J_obj ([(''room'', room), (''participants'', participants), (''history'', J_arr [])]
       @ opt_field ''historyAfter'' (\<lambda>n. J_num (int n)) after @ [(''type'', J_str ''room-update'')])"
| "body_json (History_page records complete) =
     J_obj [(''type'', J_str ''history-page''), (''records'', J_arr (map hr_json records)), (''complete'', J_bool complete)]"
| "body_json (Ready b s) = J_obj [(''baselineId'', J_str b), (''source'', state_json s)]"
| "body_json (Coverage s) = J_obj [(''source'', state_json s)]"
| "body_json (Resync reason) = J_obj [(''reason'', J_str reason)]"
| "body_json (Health reason) = J_obj [(''healthy'', J_bool False), (''reason'', J_str reason)]"

definition envelope_json :: "envelope \<Rightarrow> json" where
  "envelope_json e = J_obj
     ([(''protocolVersion'', J_num 1), (''producerGeneration'', J_str (ev_generation e)), (''viewId'', J_str (ev_view e)),
       (''subscriptionEpoch'', J_num (int (ev_epoch e))), (''baselineId'', J_str (ev_baseline e)),
       (''sequence'', J_num (int (ev_sequence e))), (''revision'', J_num (int (ev_revision e))),
       (''kind'', J_str (frame_kind (ev_body e))), (''payload'', body_json (ev_body e))]
      @ opt_field ''source'' state_json (ev_source e))"

definition RESOURCE_FRAME_BYTES :: nat where "RESOURCE_FRAME_BYTES = 512 * 1024"
definition RESOURCE_PENDING_BYTES :: nat where "RESOURCE_PENDING_BYTES = 8 * 1024 * 1024"
definition RESOURCE_ASSEMBLY_BYTES :: nat where "RESOURCE_ASSEMBLY_BYTES = 16 * 1024 * 1024"
definition HISTORY_PAGE_BYTES :: nat where "HISTORY_PAGE_BYTES = 3 * 1024 * 1024"

subsection \<open>A view and its refresh_view\<close>

text \<open>\<open>v_payload\<close> keeps of the last payload what later ones are compared with, \<open>v_historyAfter\<close> the last
  sequence number streamed.\<close>

record view =
  v_generation :: string
  v_id :: string
  v_epoch :: nat
  v_baseline :: string
  v_revision :: nat
  v_sequence :: nat
  v_payload :: "projection option"
  v_covered :: "source_state option"
  v_ready :: bool
  v_failed :: bool
  v_historyAfter :: "nat option"

definition register_view :: "string \<Rightarrow> string \<Rightarrow> nat \<Rightarrow> string \<Rightarrow> view" where
  "register_view generation viewId epoch baseline =
     \<lparr>v_generation = generation, v_id = viewId, v_epoch = epoch, v_baseline = baseline, v_revision = 0, v_sequence = 0,
      v_payload = None, v_covered = None, v_ready = False, v_failed = False, v_historyAfter = None\<rparr>"

text \<open>\<open>resourceRoom\<close> and \<open>listRooms\<close>, given what the resource is at the moment of the projection.\<close>

datatype resource = Gone | Rooms json | Room json json "entry list"

fun project :: "resource \<Rightarrow> nat option \<Rightarrow> projection" where
  "project Gone after = Nothing"
| "project (Rooms v) after = Listing v"
| "project (Room room participants h) after =
     Room_view room participants (case after of None \<Rightarrow> h | Some n \<Rightarrow> filter (\<lambda>e. n < hr_seq e) h) after"

definition last_seq :: "entry list \<Rightarrow> nat" where
  "last_seq h = (if h = [] then 0 else hr_seq (last h))"

fun comparison :: "projection \<Rightarrow> projection" where
  "comparison (Room_view room participants h after) = Room_view room participants [] None"
| "comparison p = p"

fun without_observedAt :: "json \<Rightarrow> json" where
  "without_observedAt (J_arr xs) = J_arr (map without_observedAt xs)"
| "without_observedAt (J_obj fs) =
     J_obj (map (\<lambda>(k, x). (k, without_observedAt x)) (filter (\<lambda>(k, x). k \<noteq> ''observedAt'') fs))"
| "without_observedAt v = v"

definition compared_text :: "projection \<Rightarrow> string" where
  "compared_text p = stringify (without_observedAt (payload_json p))"

definition incremental :: "view \<Rightarrow> projection \<Rightarrow> bool" where
  "incremental v p = (case p of Room_view r ps h (Some n) \<Rightarrow> v_payload v \<noteq> None | _ \<Rightarrow> False)"

definition history_changed :: "view \<Rightarrow> projection \<Rightarrow> bool" where
  "history_changed v p = (case p of
     Room_view r ps h after \<Rightarrow> if incremental v p then h \<noteq> [] else Some (last_seq h) \<noteq> v_historyAfter v
   | _ \<Rightarrow> False)"

definition changed :: "view \<Rightarrow> projection \<Rightarrow> bool" where
  "changed v p \<longleftrightarrow> (case v_payload v of None \<Rightarrow> True
     | Some old \<Rightarrow> history_changed v p \<or> compared_text (comparison p) \<noteq> compared_text old)"

text \<open>The pages of a history: \<open>records\<close> is the page being filled, \<open>bytes\<close> its size.\<close>

fun history_pages :: "entry list \<Rightarrow> nat \<Rightarrow> entry list \<Rightarrow> entry list list" where
  "history_pages records bytes [] = [records]"
| "history_pages records bytes (r # rs) =
     (let size = length (stringify (hr_json r)) in
      if records \<noteq> [] \<and> bytes + size > HISTORY_PAGE_BYTES then records # history_pages [r] size rs
      else history_pages (records @ [r]) (bytes + size) rs)"

fun page_bodies :: "entry list list \<Rightarrow> source_state \<Rightarrow> (frame_body \<times> source_state option) list" where
  "page_bodies [] source = []"
| "page_bodies [records] source = [(History_page records True, Some source)]"
| "page_bodies (records # pages) source = (History_page records False, None) # page_bodies pages source"

definition content :: "view \<Rightarrow> projection \<Rightarrow> source_state \<Rightarrow> (frame_body \<times> source_state option) list" where
  "content v p source = (case p of
     Room_view room participants h after \<Rightarrow>
       if incremental v p then (Room_update room participants after, None) # page_bodies (history_pages [] 0 h) source
       else if length (stringify (payload_json p)) > HISTORY_PAGE_BYTES
       then (Snapshot_paged room participants, None) # page_bodies (history_pages [] 0 h) source
       else [(Snapshot p, Some source)]
   | _ \<Rightarrow> [(Snapshot p, Some source)])"

text \<open>\<open>emit\<close>: each frame takes the next sequence number; while intake of the room is pending it carries no
  source.\<close>

definition emit :: "bool \<Rightarrow> frame_body \<Rightarrow> source_state option \<Rightarrow> view \<Rightarrow> envelope \<times> view" where
  "emit pending b source v =
     (\<lparr>ev_generation = v_generation v, ev_view = v_id v, ev_epoch = v_epoch v, ev_baseline = v_baseline v,
       ev_sequence = v_sequence v + 1, ev_revision = v_revision v, ev_body = b,
       ev_source = (if pending then None else source)\<rparr>, v\<lparr>v_sequence := v_sequence v + 1\<rparr>)"

text \<open>An envelope beyond the assembly limit ends the refresh.\<close>

fun emit_all :: "bool list \<Rightarrow> (frame_body \<times> source_state option) list \<Rightarrow> view \<Rightarrow> envelope list \<times> view \<times> bool" where
  "emit_all pending [] v = ([], v, True)"
| "emit_all pending ((b, s) # bs) v =
     (let (e, v1) = emit (pending \<noteq> [] \<and> hd pending) b s v in
      if length (stringify (envelope_json e)) > RESOURCE_ASSEMBLY_BYTES then ([], v, False)
      else (let (es, v2, ok) = emit_all (tl pending) bs v1 in (e # es, v2, ok)))"

definition resync :: "string \<Rightarrow> view \<Rightarrow> envelope list \<times> view" where
  "resync reason v = (let (e, v1) = emit False (Resync reason) None v in ([e], v1\<lparr>v_failed := True\<rparr>))"

definition settle_view :: "projection \<Rightarrow> view \<Rightarrow> view" where
  "settle_view p v =
     (case p of
        Room_view r ps h after \<Rightarrow>
          v\<lparr>v_payload := Some (comparison p),
            v_historyAfter := Some (if h = [] then (if incremental v p then the (v_historyAfter v) else 0) else last_seq h)\<rparr>
      | _ \<Rightarrow> v\<lparr>v_payload := Some p\<rparr>)"

definition cursor_lost :: "view \<Rightarrow> projection \<Rightarrow> bool" where
  "cursor_lost v p \<longleftrightarrow> incremental v p \<and> (case p of Room_view r ps h after \<Rightarrow> after \<noteq> v_historyAfter v | _ \<Rightarrow> False)"

text \<open>
  \<open>refresh\<close> from a stable projection on. \<open>source\<close> was taken with the projection, \<open>later\<close> is the state of
  the store when the content has been flushed; \<open>pending\<close> says at which frames intake was pending, and
  \<open>interrupted\<close> whether it is pending then, which ends the refresh before its bookkeeping.
\<close>

definition refresh_view :: "bool list \<Rightarrow> bool \<Rightarrow> projection \<Rightarrow> source_state \<Rightarrow> source_state \<Rightarrow> view \<Rightarrow> envelope list \<times> view" where
  "refresh_view pending interrupted p source later v =
     (if cursor_lost v p then resync ''projection_unavailable'' v
      else if \<not> changed v p then ([], v\<lparr>v_covered := Some later\<rparr>)
      else (let (es, v1, ok) = emit_all pending (content v p source) (v\<lparr>v_revision := v_revision v + 1\<rparr>) in
        if \<not> ok then (let (rs, v2) = resync ''capacity'' v1 in (es @ rs, v2))
        else if interrupted then (es, v1)
        else (let v2 = (settle_view p v1)\<lparr>v_covered := Some later\<rparr> in
          if v_payload v \<noteq> None then (es, v2)
          else (let (e, v3) = emit False (Ready (v_baseline v) later) None v2 in (es @ [e], v3\<lparr>v_ready := True\<rparr>)))))"

text \<open>The projection a refresh starts from: the first of three attempts during which nothing relevant was
  committed.\<close>

fun stable_projection :: "(projection \<times> bool \<times> source_state) list \<Rightarrow> nat \<Rightarrow> (projection \<times> source_state) option" where
  "stable_projection ((p, disturbed, after) # rest) (Suc n) =
     (if \<not> so_healthy after then None else if disturbed then stable_projection rest n else Some (p, after))"
| "stable_projection _ _ = None"

text \<open>\<open>coverage\<close>: one entry of a coverage frame, which the console reads as a frame of its own.\<close>

definition coverage :: "view \<Rightarrow> envelope list \<times> view" where
  "coverage v = (case v_covered v of
     Some s \<Rightarrow> if v_ready v then (let (e, v1) = emit False (Coverage s) (Some s) v in ([e], v1)) else ([], v)
   | None \<Rightarrow> ([], v))"


text \<open>A commit that does not concern an idle view moves its coverage.\<close>

definition advance :: "source_state \<Rightarrow> view \<Rightarrow> view" where
  "advance s v = (if v_covered v = None then v else v\<lparr>v_covered := Some s\<rparr>)"

subsection \<open>Pages\<close>

lemma concat_history_pages: "concat (history_pages records bytes rs) = records @ rs"
  by (induction records bytes rs rule: history_pages.induct) (auto simp: Let_def)

lemma history_pages_ne [simp]: "history_pages records bytes rs \<noteq> []"
  by (induction records bytes rs rule: history_pages.induct) (auto simp: Let_def)

definition entry_bytes :: "entry \<Rightarrow> nat" where
  "entry_bytes r = length (stringify (hr_json r))"

text \<open>Only a page of one record exceeds the page size.\<close>

lemma history_pages_bounded:
  assumes "bytes = sum_list (map entry_bytes records)" and "bytes \<le> HISTORY_PAGE_BYTES \<or> length records \<le> 1"
  shows "\<forall>page\<in>set (history_pages records bytes rs). sum_list (map entry_bytes page) \<le> HISTORY_PAGE_BYTES \<or> length page \<le> 1"
  using assms
proof (induction rs arbitrary: records bytes)
  case (Cons r rs)
  have pages: "history_pages records bytes (r # rs) =
      (if records \<noteq> [] \<and> bytes + entry_bytes r > HISTORY_PAGE_BYTES then records # history_pages [r] (entry_bytes r) rs
       else history_pages (records @ [r]) (bytes + entry_bytes r) rs)"
    by (simp add: Let_def entry_bytes_def)
  show ?case
  proof (cases "records \<noteq> [] \<and> bytes + entry_bytes r > HISTORY_PAGE_BYTES")
    case True
    then show ?thesis using Cons.IH [of "entry_bytes r" "[r]"] Cons.prems unfolding pages by simp
  next
    case False
    have "\<forall>page\<in>set (history_pages (records @ [r]) (bytes + entry_bytes r) rs).
        sum_list (map entry_bytes page) \<le> HISTORY_PAGE_BYTES \<or> length page \<le> 1"
      using False Cons.prems by (intro Cons.IH) (cases "records = []"; simp)+
    with False show ?thesis unfolding pages by (simp only: if_False)
  qed
qed simp

end
