(* ===== verification/JsonParse.thy ===== *)
theory JsonParse
  imports Json Scalars
begin

section \<open>Reading JSON text\<close>

text \<open>
  \<open>JSON.parse\<close> on the values of \<open>Json\<close>: a recursive-descent reader over the bytes of the text, \<open>None\<close> for
  a \<open>SyntaxError\<close>. Numbers are the safe integers the program writes; a fraction, an exponent, \<open>-0\<close> or a
  larger number is \<open>None\<close> too. The properties of an object come in the order of their first occurrence, the
  last value wins; no schema of the program has property names that JavaScript would reorder.
\<close>

subsection \<open>Strings\<close>

fun string_span :: "string \<Rightarrow> (string \<times> string) option" where
  "string_span [] = None"
| "string_span (c # s) =
     (if byte c = 34 then Some ([], s)
      else if byte c < 32 then None
      else if byte c = 92 then
        (case s of [] \<Rightarrow> None | d # t \<Rightarrow> map_option (\<lambda>(b, r). (c # d # b, r)) (string_span t))
      else map_option (\<lambda>(b, r). (c # b, r)) (string_span s))"

definition unhex :: "nat \<Rightarrow> nat option" where
  "unhex c = (if 48 \<le> c \<and> c \<le> 57 then Some (c - 48)
     else if 97 \<le> c \<and> c \<le> 102 then Some (c - 87) else if 65 \<le> c \<and> c \<le> 70 then Some (c - 55) else None)"

definition simple_escape :: "nat \<Rightarrow> nat option" where
  "simple_escape c = (if c = 34 \<or> c = 92 \<or> c = 47 then Some c else if c = 98 then Some 8 else if c = 116 then Some 9
     else if c = 110 then Some 10 else if c = 102 then Some 12 else if c = 114 then Some 13 else None)"

fun unescape :: "nat list \<Rightarrow> nat list option" where
  "unescape [] = Some []"
| "unescape (c # cs) =
     (if c \<noteq> 92 then map_option ((#) c) (unescape cs)
      else (case cs of
          [] \<Rightarrow> None
        | e # r \<Rightarrow>
            if e \<noteq> 117 then (case simple_escape e of None \<Rightarrow> None | Some x \<Rightarrow> map_option ((#) x) (unescape r))
            else (case r of
                h1 # h2 # h3 # h4 # t \<Rightarrow>
                  (case (unhex h1, unhex h2, unhex h3, unhex h4) of
                     (Some a, Some b, Some c, Some d) \<Rightarrow> map_option ((#) (a * 4096 + b * 256 + c * 16 + d)) (unescape t)
                   | _ \<Rightarrow> None)
              | _ \<Rightarrow> None)))"

text \<open>A high surrogate followed by a low one is one code point.\<close>

definition high :: "nat \<Rightarrow> bool" where "high c \<longleftrightarrow> 55296 \<le> c \<and> c \<le> 56319"
definition low :: "nat \<Rightarrow> bool" where "low c \<longleftrightarrow> 56320 \<le> c \<and> c \<le> 57343"

fun join_pairs :: "nat list \<Rightarrow> nat list" where
  "join_pairs (c # d # cs) =
     (if high c \<and> low d then (65536 + (c - 55296) * 1024 + (d - 56320)) # join_pairs cs else c # join_pairs (d # cs))"
| "join_pairs cs = cs"

definition parse_string :: "string \<Rightarrow> (string \<times> string) option" where
  "parse_string s = (case string_span s of None \<Rightarrow> None
     | Some (b, r) \<Rightarrow> map_option (\<lambda>cs. (of_cps (join_pairs cs), r)) (unescape (cps b)))"

subsection \<open>Numbers, arrays, objects\<close>

definition parse_number :: "string \<Rightarrow> (json \<times> string) option" where
  "parse_number s =
     (let neg = (s \<noteq> [] \<and> hd s = CHR ''-''); t = (if neg then tl s else s);
          ds = takeWhile is_digit t; r = dropWhile is_digit t; n = int (read_nat ds) in
      if ds = [] \<or> (1 < length ds \<and> hd ds = CHR ''0'') \<or> (r \<noteq> [] \<and> hd r \<in> set ''.eE'') \<or> (neg \<and> n = 0) \<or> max_safe < n
      then None else Some (J_num (if neg then - n else n), r))"

definition json_space :: "char \<Rightarrow> bool" where
  "json_space c \<longleftrightarrow> byte c \<in> {9, 10, 13, 32}"

definition skip :: "string \<Rightarrow> string" where
  "skip s = dropWhile json_space s"

definition put_field :: "(string \<times> json) list \<Rightarrow> string \<times> json \<Rightarrow> (string \<times> json) list" where
  "put_field fs kv = (if fst kv \<in> fst ` set fs then map (\<lambda>f. if fst f = fst kv then kv else f) fs else fs @ [kv])"

definition object_of :: "(string \<times> json) list \<Rightarrow> json" where
  "object_of kvs = J_obj (foldl put_field [] kvs)"

definition after_literal :: "string \<Rightarrow> json \<Rightarrow> string \<Rightarrow> (json \<times> string) option" where
  "after_literal w v s = (if starts_with w s then Some (v, drop (length w) s) else None)"

text \<open>\<open>n\<close> bounds the depth of the calls; the length of the text is enough.\<close>

fun parse_value :: "nat \<Rightarrow> string \<Rightarrow> (json \<times> string) option"
and parse_elements :: "nat \<Rightarrow> string \<Rightarrow> (json list \<times> string) option"
and parse_members :: "nat \<Rightarrow> string \<Rightarrow> ((string \<times> json) list \<times> string) option" where
  "parse_value 0 s = None"
| "parse_value (Suc n) s =
     (case skip s of
        [] \<Rightarrow> None
      | c # r \<Rightarrow>
          if byte c = 34 then map_option (\<lambda>(t, q). (J_str t, q)) (parse_string r)
          else if c = CHR ''['' then
            (if starts_with '']'' (skip r) then Some (J_arr [], tl (skip r))
             else map_option (\<lambda>(xs, q). (J_arr xs, q)) (parse_elements n r))
          else if c = CHR ''{'' then
            (if starts_with ''}'' (skip r) then Some (J_obj [], tl (skip r))
             else map_option (\<lambda>(fs, q). (object_of fs, q)) (parse_members n r))
          else if c = CHR ''n'' then after_literal ''null'' J_null (c # r)
          else if c = CHR ''t'' then after_literal ''true'' (J_bool True) (c # r)
          else if c = CHR ''f'' then after_literal ''false'' (J_bool False) (c # r)
          else parse_number (c # r))"
| "parse_elements 0 s = None"
| "parse_elements (Suc n) s =
     (case parse_value n s of
        None \<Rightarrow> None
      | Some (v, r) \<Rightarrow>
          (case skip r of
             [] \<Rightarrow> None
           | c # t \<Rightarrow> if c = CHR '']'' then Some ([v], t)
               else if c = CHR '','' then map_option (\<lambda>(xs, q). (v # xs, q)) (parse_elements n t) else None))"
| "parse_members 0 s = None"
| "parse_members (Suc n) s =
     (case skip s of
        [] \<Rightarrow> None
      | c # r \<Rightarrow>
          if byte c \<noteq> 34 then None
          else (case parse_string r of
              None \<Rightarrow> None
            | Some (k, q) \<Rightarrow>
                (case skip q of
                   [] \<Rightarrow> None
                 | d # t \<Rightarrow>
                     if d \<noteq> CHR '':'' then None
                     else (case parse_value n t of
                         None \<Rightarrow> None
                       | Some (v, u) \<Rightarrow>
                           (case skip u of
                              [] \<Rightarrow> None
                            | e # w \<Rightarrow> if e = CHR ''}'' then Some ([(k, v)], w)
                                else if e = CHR '','' then map_option (\<lambda>(fs, q). ((k, v) # fs, q)) (parse_members n w)
                                else None)))))"

definition json_parse :: "string \<Rightarrow> json option" where
  "json_parse s = (case parse_value (Suc (length s)) s of
     Some (v, r) \<Rightarrow> if skip r = [] then Some v else None | None \<Rightarrow> None)"

subsection \<open>Reading back what was written\<close>

text \<open>The strings of JavaScript (no surrogate pair is held apart), and the values that can be written.\<close>

fun no_pairs :: "nat list \<Rightarrow> bool" where
  "no_pairs (c # d # cs) \<longleftrightarrow> \<not> (high c \<and> low d) \<and> no_pairs (d # cs)"
| "no_pairs cs \<longleftrightarrow> True"

definition js_string :: "string \<Rightarrow> bool" where
  "js_string s \<longleftrightarrow> of_cps (cps s) = s \<and> no_pairs (cps s)"

fun json_ok :: "json \<Rightarrow> bool" where
  "json_ok (J_num n) \<longleftrightarrow> - max_safe \<le> n \<and> n \<le> max_safe"
| "json_ok (J_str s) \<longleftrightarrow> js_string s"
| "json_ok (J_arr xs) \<longleftrightarrow> list_all json_ok xs"
| "json_ok (J_obj fs) \<longleftrightarrow> distinct (map fst fs) \<and> list_all (\<lambda>(k, v). js_string k \<and> json_ok v) fs"
| "json_ok v \<longleftrightarrow> True"

fun json_depth :: "json \<Rightarrow> nat" and elements_depth :: "json list \<Rightarrow> nat" and members_depth :: "(string \<times> json) list \<Rightarrow> nat" where
  "json_depth (J_arr xs) = Suc (elements_depth xs)"
| "json_depth (J_obj fs) = Suc (members_depth fs)"
| "json_depth v = 1"
| "elements_depth [] = 0"
| "elements_depth (x # xs) = Suc (max (json_depth x) (elements_depth xs))"
| "members_depth [] = 0"
| "members_depth ((k, x) # xs) = Suc (max (json_depth x) (members_depth xs))"

subsubsection \<open>Strings\<close>

definition plain :: "char \<Rightarrow> bool" where
  "plain c \<longleftrightarrow> 32 \<le> byte c \<and> byte c \<noteq> 34 \<and> byte c \<noteq> 92"

definition prefixed :: "string \<Rightarrow> string \<times> string \<Rightarrow> string \<times> string" where
  "prefixed t p = (t @ fst p, snd p)"

lemma span_plain: "list_all plain t \<Longrightarrow> string_span (t @ s) = map_option (prefixed t) (string_span s)"
proof (induction t)
  case Nil
  then show ?case by (cases "string_span s") (simp_all add: prefixed_def)
next
  case (Cons c t)
  then show ?case by (cases "string_span s") (auto simp: plain_def prefixed_def)
qed

lemma span_pair: "byte c = 92 \<Longrightarrow> string_span (c # d # s) = map_option (prefixed [c, d]) (string_span s)"
  by (cases "string_span s") (simp_all add: prefixed_def split_beta)

lemma prefixed_prefixed: "prefixed s (prefixed t p) = prefixed (s @ t) p"
  by (simp add: prefixed_def)

lemma plain_enc_cp:
  assumes "32 \<le> c" "c \<noteq> 34" "c \<noteq> 92" "c < 2097152"
  shows "list_all plain (enc_cp c)"
proof -
  have "c div 262144 < 8" using assms(4) by (simp add: less_mult_imp_div_less)
  moreover have "c < 65536 \<Longrightarrow> c div 4096 < 16" "c < 2048 \<Longrightarrow> c div 64 < 32" by (simp_all add: less_mult_imp_div_less)
  moreover have "k < 64 \<Longrightarrow> plain (char_of (128 + k))" for k :: nat by (simp add: plain_def)
  ultimately show ?thesis using assms by (auto simp: enc_cp_def plain_def)
qed

lemma hex_digit_byte: "n < 16 \<Longrightarrow> byte (hex_digit n) = (if n < 10 then 48 + n else 87 + n)"
  by (simp add: hex_digit_def)

lemma unhex_digit: "n < 16 \<Longrightarrow> unhex (byte (hex_digit n)) = Some n"
  by (simp add: hex_digit_byte unhex_def)

lemma plain_hex: "n < 16 \<Longrightarrow> plain (hex_digit n)"
  by (simp add: plain_def hex_digit_byte)

lemma unicode_hex:
  "c < 65536 \<Longrightarrow> c div 4096 < 16" "c div 256 mod 16 < 16" "c div 16 mod 16 < 16" "c mod 16 < (16::nat)"
  by (simp_all add: less_mult_imp_div_less)

lemma span_escape:
  assumes "c < 2097152"
  shows "string_span (json_escape c @ s) = map_option (prefixed (json_escape c)) (string_span s)"
proof -
  consider "c \<in> {34, 92, 8, 9, 10, 12, 13}" | "c \<notin> {34, 92, 8, 9, 10, 12, 13}" "c < 32 \<or> is_cs c" | "32 \<le> c" "\<not> is_cs c" "c \<noteq> 34" "c \<noteq> 92"
    by fastforce
  then show ?thesis
  proof cases
    case 1
    then obtain d where "json_escape c = [char_of (92::nat), d]" by (auto simp: json_escape_def)
    then show ?thesis by (simp only: append_Cons append_Nil) (rule span_pair, simp)
  next
    case 2
    then have c: "c < 65536" by (auto simp: is_cs_def)
    let ?h = "[hex_digit (c div 4096), hex_digit (c div 256 mod 16), hex_digit (c div 16 mod 16), hex_digit (c mod 16)]"
    have e: "json_escape c = [char_of (92::nat), CHR ''u''] @ ?h"
      using 2 by (auto simp: json_escape_def unicode_escape_def)
    have "list_all plain ?h" using plain_hex unicode_hex(1) [OF c] unicode_hex(2-4) by simp
    from span_plain [OF this, of s] have "string_span ([char_of (92::nat), CHR ''u''] @ ?h @ s)
        = map_option (prefixed [char_of (92::nat), CHR ''u'']) (map_option (prefixed ?h) (string_span s))"
      by (simp only: append_Cons append_Nil) (subst span_pair, simp_all)
    then show ?thesis unfolding e by (simp add: option.map_comp comp_def prefixed_prefixed)
  next
    case 3
    then have "json_escape c = enc_cp c" by (auto simp: json_escape_def)
    with span_plain [OF plain_enc_cp] 3 assms show ?thesis by simp
  qed
qed

lemma span_escapes:
  "list_all (\<lambda>c. c < 2097152) cs \<Longrightarrow>
    string_span (concat (map json_escape cs) @ char_of (34::nat) # rest) = Some (concat (map json_escape cs), rest)"
  by (induction cs) (simp_all add: span_escape prefixed_def)

lemma byte_letters [simp]: "byte CHR ''b'' = 98" "byte CHR ''t'' = 116" "byte CHR ''n'' = 110" "byte CHR ''f'' = 102"
  "byte CHR ''r'' = 114" "byte CHR ''u'' = 117"
  by (simp_all add: byte_def)

lemma cps_ascii_cons: "byte a < 128 \<Longrightarrow> cps (a # s) = byte a # cps s"
  by simp

lemma hex_byte_small: "n < 16 \<Longrightarrow> byte (hex_digit n) < 128"
  by (simp add: hex_digit_byte)

lemma recombine_hex: "(c::nat) div 4096 * 4096 + c div 256 mod 16 * 256 + c div 16 mod 16 * 16 + c mod 16 = c"
proof -
  have split: "x = x div 16 * 16 + x mod 16" for x :: nat by simp
  have "c div 16 div 16 = c div 256" "c div 256 div 16 = c div 4096" by (simp_all add: div_mult2_eq [symmetric])
  then have "c div 256 = c div 4096 * 16 + c div 256 mod 16" "c div 16 = c div 256 * 16 + c div 16 mod 16"
    using split [of "c div 256"] split [of "c div 16"] by simp_all
  moreover note split [of c]
  ultimately show ?thesis by linarith
qed

lemma unescape_escape:
  assumes "c < 2097152"
  shows "unescape (cps (json_escape c @ s)) = map_option ((#) c) (unescape (cps s))"
proof -
  consider "c \<in> {34, 92, 8, 9, 10, 12, 13}" | "c \<notin> {34, 92, 8, 9, 10, 12, 13}" "c < 32 \<or> is_cs c" | "32 \<le> c" "\<not> is_cs c" "c \<noteq> 34" "c \<noteq> 92"
    by fastforce
  then show ?thesis
  proof cases
    case 1
    then show ?thesis by (auto simp: json_escape_def simple_escape_def)
  next
    case 2
    then have c: "c < 65536" by (auto simp: is_cs_def)
    have e: "json_escape c = unicode_escape c" using 2 by (auto simp: json_escape_def)
    have "cps (json_escape c @ s) = 92 # 117 # byte (hex_digit (c div 4096)) # byte (hex_digit (c div 256 mod 16))
        # byte (hex_digit (c div 16 mod 16)) # byte (hex_digit (c mod 16)) # cps s"
      unfolding e unicode_escape_def using hex_byte_small unicode_hex(1) [OF c] unicode_hex(2-4) by simp
    then show ?thesis using unhex_digit unicode_hex(1) [OF c] unicode_hex(2-4) recombine_hex [of c] by simp
  next
    case 3
    then have "json_escape c = enc_cp c" by (auto simp: json_escape_def)
    with 3 assms show ?thesis by (simp add: cps_enc_cp)
  qed
qed

lemma unescape_escapes:
  "list_all (\<lambda>c. c < 2097152) cs \<Longrightarrow> unescape (cps (concat (map json_escape cs))) = Some cs"
  by (induction cs) (simp_all add: unescape_escape)

lemma join_pairs_id: "no_pairs cs \<Longrightarrow> join_pairs cs = cs"
  by (induction cs rule: no_pairs.induct) auto

lemma parse_json_string:
  assumes "js_string s"
  shows "parse_string (concat (map json_escape (cps s)) @ char_of (34::nat) # rest) = Some (s, rest)"
  using assms by (simp add: parse_string_def span_escapes unescape_escapes cps_bounded join_pairs_id js_string_def)

subsubsection \<open>Values\<close>

text \<open>What may follow a number.\<close>

definition closed :: "string \<Rightarrow> bool" where
  "closed s \<longleftrightarrow> s = [] \<or> (\<not> is_digit (hd s) \<and> hd s \<notin> set ''.eE'')"

lemma closed_next [simp]: "closed (CHR '','' # s)" "closed (CHR '']'' # s)" "closed (CHR ''}'' # s)" "closed []"
  by (simp_all add: closed_def is_digit_def in_range_def byte_def)

lemma digits_span:
  assumes "closed rest"
  shows "takeWhile is_digit (show_nat n @ rest) = show_nat n" "dropWhile is_digit (show_nat n @ rest) = rest"
proof -
  have d: "\<And>x. x \<in> set (show_nat n) \<Longrightarrow> is_digit x" using show_nat_digits [of n] by (simp add: list_all_iff)
  have "takeWhile is_digit rest = []" "dropWhile is_digit rest = rest" using assms by (cases rest; auto simp: closed_def)+
  with d show "takeWhile is_digit (show_nat n @ rest) = show_nat n" "dropWhile is_digit (show_nat n @ rest) = rest" by simp_all
qed

lemma show_nat_head: "n \<noteq> 0 \<Longrightarrow> hd (show_nat n) \<noteq> CHR ''0''"
proof (induction n rule: show_nat.induct)
  case (1 n)
  show ?case
  proof (cases "n < 10")
    case True
    have "byte (char_of (48 + n)) \<noteq> byte CHR ''0''" using True 1 by (simp add: byte_def [of "CHR ''0''"])
    then have "char_of (48 + n) \<noteq> CHR ''0''" by metis
    with True show ?thesis by (subst show_nat.simps) simp
  next
    case False
    then show ?thesis using 1 by (subst show_nat.simps) simp
  qed
qed

lemma show_nat_zero: "show_nat 0 = ''0''"
  by code_simp

lemma digit_not_minus: "is_digit c \<Longrightarrow> c \<noteq> CHR ''-''"
  by (auto simp: is_digit_def in_range_def byte_def)

lemma hd_digit: "is_digit (hd (show_nat n @ s))"
  using show_nat_digits [of n] by (cases "show_nat n") auto

lemma parse_show_int:
  assumes "closed rest" and "- max_safe \<le> n" "n \<le> max_safe"
  shows "parse_number (show_int n @ rest) = Some (J_num n, rest)"
proof -
  have lead: "\<not> (1 < length (show_nat m) \<and> hd (show_nat m) = CHR ''0'')" for m
    using show_nat_head [of m] by (cases "m = 0") (simp_all add: show_nat_zero)
  have end1: "\<not> (rest \<noteq> [] \<and> hd rest \<in> set ''.eE'')" using assms(1) by (auto simp: closed_def)
  show ?thesis
  proof (cases "n < 0")
    case True
    then show ?thesis using assms lead end1
      by (simp add: parse_number_def show_int_def digits_span [OF assms(1)] Let_def del: dropWhile_eq_Nil_conv)
  next
    case False
    then have "hd (show_nat (nat n) @ rest) \<noteq> CHR ''-''" using digit_not_minus hd_digit by blast
    with False show ?thesis using assms lead end1
      by (simp add: parse_number_def show_int_def digits_span [OF assms(1)] Let_def del: dropWhile_eq_Nil_conv)
  qed
qed

lemma skip_start: "s = [] \<or> \<not> json_space (hd s) \<Longrightarrow> skip s = s"
  by (cases s) (auto simp: skip_def)

lemma foldl_put: "distinct (map fst (gs @ fs)) \<Longrightarrow> foldl put_field gs fs = gs @ fs"
proof (induction fs arbitrary: gs)
  case (Cons kv fs)
  then have "put_field gs kv = gs @ [kv]" by (auto simp: put_field_def)
  with Cons.IH [of "gs @ [kv]"] Cons.prems show ?case by simp
qed simp

lemma object_of_distinct: "distinct (map fst fs) \<Longrightarrow> object_of fs = J_obj fs"
  using foldl_put [of "[]" fs] by (simp add: object_of_def)

definition member_text :: "string \<times> json \<Rightarrow> string" where
  "member_text f = json_string (fst f) @ '':'' @ stringify (snd f)"

lemma join_map_cons: "join '','' (map f (x # xs)) @ s = f x @ (if xs = [] then s else CHR '','' # join '','' (map f xs) @ s)"
  by (cases xs) auto

text \<open>The first character of a value decides how it is read.\<close>

lemma json_string_cons: "json_string s @ rest = char_of (34::nat) # concat (map json_escape (cps s)) @ char_of (34::nat) # rest"
  by (simp add: json_string_def)

lemma not_space [simp]:
  "\<not> json_space CHR ''n''" "\<not> json_space CHR ''t''" "\<not> json_space CHR ''f''" "\<not> json_space CHR ''[''" "\<not> json_space CHR ''{''"
  "\<not> json_space CHR ''}''" "\<not> json_space CHR '']''" "\<not> json_space CHR '',''" "\<not> json_space CHR '':''" "\<not> json_space CHR ''-''"
  "\<not> json_space (char_of (34::nat))"
  by (simp_all add: json_space_def byte_def)

lemma not_space_digit: "is_digit c \<Longrightarrow> \<not> json_space c"
  by (auto simp: json_space_def is_digit_def in_range_def byte_def)

lemma number_start:
  "hd (show_int n @ s) = CHR ''-'' \<or> is_digit (hd (show_int n @ s))"
  using hd_digit [of "nat n" s] by (simp add: show_int_def)

lemma skip_stringify: "skip (stringify v @ s) = stringify v @ s"
proof -
  have "\<not> json_space (hd (stringify v @ s))"
  proof (cases v)
    case (J_num n)
    then show ?thesis using number_start [of n s] not_space_digit by auto
  qed (simp_all add: json_string_def)
  then show ?thesis by (simp add: skip_start)
qed

lemma skip_members: "fs \<noteq> [] \<Longrightarrow> skip (join '','' (map member_text fs) @ s) = join '','' (map member_text fs) @ s"
  by (cases fs) (simp_all add: join_map_cons member_text_def json_string_def skip_start del: list.map)

lemma stringify_obj: "stringify (J_obj fs) = ''{'' @ join '','' (map member_text fs) @ ''}''"
proof -
  have "(\<lambda>(k, v). json_string k @ '':'' @ stringify v) = member_text" by (simp add: fun_eq_iff member_text_def)
  then show ?thesis by simp
qed

lemma quote_char: "char_of (34::nat) = CHR 0x22"
  by code_simp

lemma newline_char: "char_of (10::nat) = CHR 0x0A"
  by code_simp

definition reads :: "nat \<Rightarrow> bool" where
  "reads n \<longleftrightarrow>
     (\<forall>v rest. json_depth v \<le> n \<longrightarrow> json_ok v \<longrightarrow> closed rest \<longrightarrow> parse_value n (stringify v @ rest) = Some (v, rest))
     \<and> (\<forall>xs rest. xs \<noteq> [] \<longrightarrow> elements_depth xs \<le> n \<longrightarrow> list_all json_ok xs \<longrightarrow>
          parse_elements n (join '','' (map stringify xs) @ CHR '']'' # rest) = Some (xs, rest))
     \<and> (\<forall>fs rest. fs \<noteq> [] \<longrightarrow> members_depth fs \<le> n \<longrightarrow> list_all (\<lambda>(k, v). js_string k \<and> json_ok v) fs \<longrightarrow>
          parse_members n (join '','' (map member_text fs) @ CHR ''}'' # rest) = Some (fs, rest))"

lemma depth_pos: "json_depth v > 0"
  by (cases v) simp_all

lemma byte_brackets [simp]: "byte CHR ''['' = 91" "byte CHR ''{'' = 123" "byte CHR ''-'' = 45"
  by (simp_all add: byte_def)

lemma skip_at: "\<not> json_space c \<Longrightarrow> skip (c # s) = c # s"
  by (simp add: skip_start)

lemma digit_bytes: "is_digit c \<Longrightarrow> byte c \<noteq> 34 \<and> c \<notin> set ''[{ntf''"
  by (auto simp: is_digit_def in_range_def byte_def)

lemma read_number:
  assumes "- max_safe \<le> n" "n \<le> max_safe" and "closed rest"
  shows "parse_value (Suc k) (show_int n @ rest) = Some (J_num n, rest)"
proof -
  obtain c s where cs: "show_int n @ rest = c # s" by (cases "show_int n @ rest") (simp_all add: show_int_def split: if_splits)
  with number_start [of n rest] have c: "c = CHR ''-'' \<or> is_digit c" by simp
  have "skip (c # s) = c # s" using c not_space_digit by (auto simp: skip_at)
  moreover have "byte c \<noteq> 34" "c \<noteq> CHR ''[''" "c \<noteq> CHR ''{''" "c \<noteq> CHR ''n''" "c \<noteq> CHR ''t''" "c \<noteq> CHR ''f''"
    using c digit_bytes [of c] by auto
  ultimately show ?thesis using parse_show_int [OF assms(3,1,2)] unfolding cs by simp
qed

lemma stringify_bracket: "\<not> starts_with '']'' (stringify v @ s)" 
proof (cases v)
  case (J_num n)
  then show ?thesis using number_start [of n s]
    by (cases "show_int n @ s") (auto simp: starts_with_def is_digit_def in_range_def byte_def)
qed (simp_all add: starts_with_def json_string_def quote_char)

lemma skip_elements:
  assumes "xs \<noteq> []"
  shows "skip (join '','' (map stringify xs) @ s) = join '','' (map stringify xs) @ s"
    "\<not> starts_with '']'' (join '','' (map stringify xs) @ s)"
  using assms by (cases xs; simp add: join_map_cons skip_stringify stringify_bracket del: list.map)+

lemma members_brace: "fs \<noteq> [] \<Longrightarrow> \<not> starts_with ''}'' (join '','' (map member_text fs) @ s)"
  by (cases fs) (simp_all add: join_map_cons member_text_def json_string_def starts_with_def quote_char del: list.map)

lemma reads_value:
  assumes "reads n" and "json_depth v \<le> Suc n" and "json_ok v" and "closed rest"
  shows "parse_value (Suc n) (stringify v @ rest) = Some (v, rest)"
proof (cases v)
  case (J_bool b)
  then show ?thesis by (cases b) (simp_all add: skip_at after_literal_def starts_with_def byte_def)
next
  case (J_num k)
  then show ?thesis using read_number [of k rest n] assms(3,4) by simp
next
  case (J_str s)
  then show ?thesis using assms(3) parse_json_string [of s rest]
    by (simp add: json_string_def skip_at)
next
  case (J_arr xs)
  show ?thesis
  proof (cases "xs = []")
    case False
    with assms J_arr have "parse_elements n (join '','' (map stringify xs) @ CHR '']'' # rest) = Some (xs, rest)"
      by (simp add: reads_def)
    then show ?thesis using False J_arr skip_elements [OF False, of "CHR '']'' # rest"] by (simp add: skip_at)
  qed (simp add: J_arr skip_at starts_with_def)
next
  case (J_obj fs)
  show ?thesis
  proof (cases "fs = []")
    case False
    with assms J_obj have "parse_members n (join '','' (map member_text fs) @ CHR ''}'' # rest) = Some (fs, rest)"
      by (simp add: reads_def)
    then show ?thesis using False assms(3) J_obj skip_members [OF False, of "CHR ''}'' # rest"] members_brace [OF False]
      unfolding J_obj stringify_obj by (simp add: skip_at object_of_distinct)
  qed (simp add: J_obj skip_at starts_with_def)
qed (simp add: skip_at after_literal_def starts_with_def byte_def)

lemma reads_elements:
  assumes "reads n" and "xs \<noteq> []" and "elements_depth xs \<le> Suc n" and "list_all json_ok xs"
  shows "parse_elements (Suc n) (join '','' (map stringify xs) @ CHR '']'' # rest) = Some (xs, rest)"
proof -
  obtain x ys where xs: "xs = x # ys" using assms(2) by (cases xs) auto
  have "closed (if ys = [] then CHR '']'' # rest else CHR '','' # join '','' (map stringify ys) @ CHR '']'' # rest)" by simp
  with assms xs have "parse_value n (join '','' (map stringify xs) @ CHR '']'' # rest)
      = Some (x, if ys = [] then CHR '']'' # rest else CHR '','' # join '','' (map stringify ys) @ CHR '']'' # rest)"
    unfolding xs join_map_cons by (simp add: reads_def)
  moreover have "ys \<noteq> [] \<Longrightarrow> parse_elements n (join '','' (map stringify ys) @ CHR '']'' # rest) = Some (ys, rest)"
    using assms xs by (simp add: reads_def)
  ultimately show ?thesis using xs by (simp add: skip_at)
qed

lemma reads_members:
  assumes "reads n" and "fs \<noteq> []" and "members_depth fs \<le> Suc n" and "list_all (\<lambda>(k, v). js_string k \<and> json_ok v) fs"
  shows "parse_members (Suc n) (join '','' (map member_text fs) @ CHR ''}'' # rest) = Some (fs, rest)"
proof -
  obtain k v gs where fs: "fs = (k, v) # gs" using assms(2) by (cases fs) auto
  let ?rest = "if gs = [] then CHR ''}'' # rest else CHR '','' # join '','' (map member_text gs) @ CHR ''}'' # rest"
  have written: "join '','' (map member_text fs) @ CHR ''}'' # rest
      = char_of (34::nat) # concat (map json_escape (cps k)) @ char_of (34::nat) # CHR '':'' # stringify v @ ?rest"
    unfolding fs join_map_cons by (simp add: member_text_def json_string_def)
  have "parse_string (concat (map json_escape (cps k)) @ char_of (34::nat) # CHR '':'' # stringify v @ ?rest)
      = Some (k, CHR '':'' # stringify v @ ?rest)"
    using assms(4) fs by (intro parse_json_string) simp
  moreover have "closed ?rest" by simp
  then have "parse_value n (stringify v @ ?rest) = Some (v, ?rest)"
    using assms fs unfolding reads_def by (simp del: closed_next)
  moreover have "gs \<noteq> [] \<Longrightarrow> parse_members n (join '','' (map member_text gs) @ CHR ''}'' # rest) = Some (gs, rest)"
    using assms fs by (simp add: reads_def)
  ultimately show ?thesis unfolding written using fs by (simp add: skip_at)
qed

lemma reads_all: "reads n"
proof (induction n)
  case 0
  have "\<not> json_depth v \<le> 0" for v using depth_pos [of v] by simp
  moreover have "xs \<noteq> [] \<Longrightarrow> \<not> elements_depth xs \<le> 0" for xs by (cases xs) simp_all
  moreover have "fs \<noteq> [] \<Longrightarrow> \<not> members_depth fs \<le> 0" for fs by (cases fs) auto
  ultimately show ?case unfolding reads_def by blast
next
  case (Suc n)
  then show ?case using reads_value reads_elements reads_members unfolding reads_def [of "Suc n"] by blast
qed

text \<open>The text is longer than the reader is deep.\<close>

lemma depth_bound:
  "json_depth v \<le> length (stringify v)"
  "elements_depth xs \<le> Suc (length (join '','' (map stringify xs)))"
  "members_depth fs \<le> Suc (length (join '','' (map member_text fs)))"
proof (induction v and xs and fs rule: json_depth_elements_depth_members_depth.induct)
  case (5 x xs)
  then show ?case by (cases xs) auto
next
  case (7 k x xs)
  then show ?case by (cases xs) (auto simp: member_text_def)
next
  case (2 fs)
  then show ?case unfolding stringify_obj by simp
qed (simp_all add: json_string_def show_int_def Suc_leI)

theorem json_round_trip:
  assumes "json_ok v"
  shows "json_parse (stringify v) = Some v"
proof -
  have "parse_value (Suc (length (stringify v))) (stringify v @ []) = Some (v, [])"
    using reads_all [of "Suc (length (stringify v))"] assms depth_bound(1) [of v] unfolding reads_def
    by (metis closed_next(4) le_SucI)
  then show ?thesis by (simp add: json_parse_def skip_def)
qed

lemma json_round_trip_line:
  assumes "json_ok v"
  shows "json_parse (stringify v @ [char_of (10::nat)]) = Some v"
proof -
  have "closed [char_of (10::nat)]" by (simp add: closed_def is_digit_def in_range_def byte_def newline_char)
  then have "parse_value (Suc (Suc (length (stringify v)))) (stringify v @ [char_of (10::nat)]) = Some (v, [char_of (10::nat)])"
    using reads_all [of "Suc (Suc (length (stringify v)))"] assms depth_bound(1) [of v] unfolding reads_def
    by (metis le_SucI)
  then show ?thesis by (simp add: json_parse_def skip_def json_space_def)
qed

end
