(* ===== verification/Frames.thy ===== *)
theory Frames
  imports Views JsonParse Dto
begin

section \<open>Frames on the wire\<close>

text \<open>
  \<open>resourceFrames\<close> of \<open>src/resource-views.ts\<close> cuts an envelope into server-sent events, and the read loop
  of \<open>web/src/state/poller.ts\<close> puts it together again: the buffer of unread text, the events in it, and the
  assembly of a chunked envelope. Text is UTF-8, as everywhere; \<open>apply\<close> is an argument of the loop.
\<close>

subsection \<open>The daemon\<close>

definition CHUNK_BYTES :: nat where "CHUNK_BYTES = 256 * 1024"

function slices :: "string \<Rightarrow> string list" where
  "slices bs = (if bs = [] then [] else take CHUNK_BYTES bs # slices (drop CHUNK_BYTES bs))"
  by pat_completeness auto
termination by (relation "measure length") (auto simp: CHUNK_BYTES_def)

declare slices.simps [simp del]

definition parts_of :: "string \<Rightarrow> nat" where
  "parts_of bytes = (length bytes + CHUNK_BYTES - 1) div CHUNK_BYTES"

type_synonym wire = "string \<times> json"

definition frame_id :: "envelope \<Rightarrow> string" where
  "frame_id e = ev_view e @ '':'' @ show_nat (ev_epoch e) @ '':'' @ show_nat (ev_sequence e)"

definition binding :: "envelope \<Rightarrow> (string \<times> json) list" where
  "binding e = [(''protocolVersion'', J_num 1), (''id'', J_str (frame_id e)),
     (''producerGeneration'', J_str (ev_generation e)), (''viewId'', J_str (ev_view e)),
     (''subscriptionEpoch'', J_num (int (ev_epoch e))), (''revision'', J_num (int (ev_revision e))),
     (''sequence'', J_num (int (ev_sequence e)))]"

fun chunk_frames :: "(string \<times> json) list \<Rightarrow> nat \<Rightarrow> string list \<Rightarrow> wire list" where
  "chunk_frames b i [] = []"
| "chunk_frames b i (c # cs) =
     (''resource-chunk'', J_obj (b @ [(''type'', J_str ''chunk''), (''index'', J_num (int i)), (''data'', J_str (b64_encode c))]))
       # chunk_frames b (i + 1) cs"

definition newline :: char where "newline = CHR 0x0A"

definition frame_head :: "wire \<Rightarrow> string" where
  "frame_head w = ''event: '' @ fst w @ newline # ''data: '' @ stringify (snd w)"

definition frame_text :: "wire \<Rightarrow> string" where
  "frame_text w = frame_head w @ [newline, newline]"

definition resourceFrames :: "envelope \<Rightarrow> err + wire list" where
  "resourceFrames e =
     (let bytes = stringify (envelope_json e) in
      if length bytes > RESOURCE_ASSEMBLY_BYTES then Inl (Plain_error ''resource assembly limit exceeded'')
      else if length (frame_text (''resource'', envelope_json e)) \<le> RESOURCE_FRAME_BYTES then Inr [(''resource'', envelope_json e)]
      else Inr ([(''resource-chunk'', J_obj (binding e @ [(''type'', J_str ''start''), (''totalBytes'', J_num (int (length bytes))),
                   (''parts'', J_num (int (parts_of bytes)))]))]
        @ chunk_frames (binding e) 0 (slices bytes)
        @ [(''resource-chunk'', J_obj (binding e @ [(''type'', J_str ''commit''), (''totalBytes'', J_num (int (length bytes)))]))]))"

subsection \<open>The console\<close>

record assembly =
  as_id :: string
  as_total :: nat
  as_parts :: nat
  as_chunks :: "string list"
  as_bytes :: nat
  as_binding :: json

record 'v conn =
  cn_connection :: string
  cn_generation :: string
  cn_assembly :: "assembly option"
  cn_views :: 'v

text \<open>\<open>===\<close> on values read from two texts: two objects are never the same.\<close>

fun scalar :: "json \<Rightarrow> bool" where
  "scalar (J_arr xs) = False"
| "scalar (J_obj fs) = False"
| "scalar v = True"

definition same_value :: "unknown \<Rightarrow> unknown \<Rightarrow> bool" where
  "same_value x y \<longleftrightarrow> x = y \<and> (case x of None \<Rightarrow> True | Some v \<Rightarrow> scalar v)"

text \<open>\<open>String(value)\<close>.\<close>

fun js_String :: "json \<Rightarrow> string" where
  "js_String J_null = ''null''"
| "js_String (J_bool b) = (if b then ''true'' else ''false'')"
| "js_String (J_num n) = show_int n"
| "js_String (J_str s) = s"
| "js_String (J_arr xs) = join '','' (map (\<lambda>x. if x = J_null then [] else js_String x) xs)"
| "js_String (J_obj fs) = ''[object Object]''"

definition string_of :: "unknown \<Rightarrow> string" where
  "string_of x = (case x of None \<Rightarrow> ''undefined'' | Some v \<Rightarrow> js_String v)"

definition BINDING_KEYS :: "string list" where
  "BINDING_KEYS = [''producerGeneration'', ''viewId'', ''subscriptionEpoch'', ''revision'', ''sequence'']"

definition bound_to :: "json \<Rightarrow> json \<Rightarrow> bool" where
  "bound_to v b \<longleftrightarrow> list_all (\<lambda>k. same_value (field (Some v) k) (field (Some b) k)) BINDING_KEYS"

definition int_in :: "int \<Rightarrow> int \<Rightarrow> unknown \<Rightarrow> bool" where
  "int_in lo hi v = number_is (\<lambda>n. lo \<le> n \<and> n \<le> hi) v"

fun nat_of :: "unknown \<Rightarrow> nat" where
  "nat_of (Some (J_num n)) = nat n"
| "nat_of _ = 0"

text \<open>\<open>atob\<close> as the HTML standard has it: white space is dropped, up to two pads at the end of whole groups,
  and any other character outside the alphabet is an error.\<close>

definition atob_space :: "char \<Rightarrow> bool" where
  "atob_space c \<longleftrightarrow> byte c \<in> {9, 10, 12, 13, 32}"

definition drop_pads :: "string \<Rightarrow> string" where
  "drop_pads s = (if length s mod 4 \<noteq> 0 \<or> s = [] \<or> last s \<noteq> CHR ''='' then s
     else if butlast s \<noteq> [] \<and> last (butlast s) = CHR ''='' then butlast (butlast s) else butlast s)"

definition alphabet :: "char \<Rightarrow> bool" where
  "alphabet c \<longleftrightarrow> is_upper c \<or> is_lower c \<or> is_digit c \<or> c = CHR ''+'' \<or> c = CHR ''/''"

definition atob :: "string \<Rightarrow> string option" where
  "atob s = (let t = drop_pads (filter (\<lambda>c. \<not> atob_space c) s) in
     if length t mod 4 = 1 \<or> \<not> list_all alphabet t then None else Some (b64_decode t))"

definition start_assembly :: "assembly option \<Rightarrow> json \<Rightarrow> err + assembly" where
  "start_assembly a v =
     (if a \<noteq> None \<or> \<not> int_in 1 (16 * 1024 * 1024) (field (Some v) ''totalBytes'') \<or> \<not> int_in 1 64 (field (Some v) ''parts'')
      then Inl (Plain_error ''Resource assembly capacity'')
      else Inr \<lparr>as_id = string_of (field (Some v) ''id''), as_total = nat_of (field (Some v) ''totalBytes''),
        as_parts = nat_of (field (Some v) ''parts''), as_chunks = [], as_bytes = 0, as_binding = v\<rparr>)"

definition add_chunk :: "assembly \<Rightarrow> json \<Rightarrow> err + assembly" where
  "add_chunk a v =
     (if field (Some v) ''index'' \<noteq> Some (J_num (int (length (as_chunks a)))) then Inl (Plain_error ''Resource chunk order'')
      else (case field (Some v) ''data'' of
          Some (J_str data) \<Rightarrow>
            (case atob data of
               None \<Rightarrow> Inl (Plain_error ''InvalidCharacterError'')
             | Some bytes \<Rightarrow>
                 if as_bytes a + length bytes > as_total a \<or> length (as_chunks a) \<ge> as_parts a then Inl (Plain_error ''Resource chunk capacity'')
                 else Inr (a\<lparr>as_bytes := as_bytes a + length bytes, as_chunks := as_chunks a @ [bytes]\<rparr>))
        | _ \<Rightarrow> Inl (Plain_error ''Resource chunk order'')))"

definition commit_assembly :: "assembly \<Rightarrow> json \<Rightarrow> err + json" where
  "commit_assembly a v =
     (if as_bytes a \<noteq> as_total a \<or> field (Some v) ''totalBytes'' \<noteq> Some (J_num (int (as_total a))) \<or> length (as_chunks a) \<noteq> as_parts a
      then Inl (Plain_error ''Incomplete resource assembly'')
      else (case json_parse (concat (as_chunks a)) of
          None \<Rightarrow> Inl (Plain_error ''SyntaxError'')
        | Some complete \<Rightarrow> if bound_to complete (as_binding a) then Inr complete else Inl (Plain_error ''Resource assembly binding'')))"

text \<open>A coverage event is applied entry by entry, as frames of kind \<open>coverage\<close>.\<close>

definition spread :: "(string \<times> json) list \<Rightarrow> (string \<times> json) list \<Rightarrow> (string \<times> json) list" where
  "spread fs gs = foldl put_field fs gs"

definition coverage_value :: "json \<Rightarrow> json \<Rightarrow> json" where
  "coverage_value v entry =
     (case entry of
        J_obj fs \<Rightarrow> J_obj (spread fs ([(''protocolVersion'', the (field (Some v) ''protocolVersion'')),
           (''producerGeneration'', the (field (Some v) ''producerGeneration'')), (''kind'', J_str ''coverage''),
           (''payload'', J_obj (opt_field ''source'' (\<lambda>x. x) (field (Some entry) ''source'')))]))
      | w \<Rightarrow> w)"

fun apply_entries :: "('v \<Rightarrow> json \<Rightarrow> err + 'v) \<Rightarrow> json \<Rightarrow> 'v \<Rightarrow> json list \<Rightarrow> err + 'v" where
  "apply_entries ap v x [] = Inr x"
| "apply_entries ap v x (entry # es) =
     (if scalar entry then Inl (Plain_error ''Invalid resource coverage entry'')
      else (case ap x (coverage_value v entry) of Inl e \<Rightarrow> Inl e | Inr y \<Rightarrow> apply_entries ap v y es))"

definition lift_views :: "'v conn \<Rightarrow> err + 'v \<Rightarrow> err + 'v conn" where
  "lift_views c r = (case r of Inl x \<Rightarrow> Inl x | Inr v \<Rightarrow> Inr (c\<lparr>cn_views := v\<rparr>))"

definition handle_chunk :: "('v \<Rightarrow> json \<Rightarrow> err + 'v) \<Rightarrow> 'v conn \<Rightarrow> json \<Rightarrow> err + 'v conn" where
  "handle_chunk ap c v =
     (if field (Some v) ''type'' = Some (J_str ''start'')
      then (case start_assembly (cn_assembly c) v of Inl x \<Rightarrow> Inl x | Inr a \<Rightarrow> Inr (c\<lparr>cn_assembly := Some a\<rparr>))
      else (case cn_assembly c of
          None \<Rightarrow> Inl (Plain_error ''Resource chunk binding'')
        | Some a \<Rightarrow>
            if field (Some v) ''id'' \<noteq> Some (J_str (as_id a)) \<or> \<not> bound_to v (as_binding a) then Inl (Plain_error ''Resource chunk binding'')
            else if field (Some v) ''type'' = Some (J_str ''chunk'')
            then (case add_chunk a v of Inl x \<Rightarrow> Inl x | Inr b \<Rightarrow> Inr (c\<lparr>cn_assembly := Some b\<rparr>))
            else if field (Some v) ''type'' = Some (J_str ''commit'')
            then (case commit_assembly a v of Inl x \<Rightarrow> Inl x
              | Inr complete \<Rightarrow> lift_views (c\<lparr>cn_assembly := None\<rparr>) (ap (cn_views c) complete))
            else Inl (Plain_error ''Invalid resource chunk'')))"

definition handle_connection :: "(string \<Rightarrow> 'v \<Rightarrow> 'v) \<Rightarrow> 'v conn \<Rightarrow> json \<Rightarrow> err + 'v conn" where
  "handle_connection opened c v =
     (case (field (Some v) ''connectionId'', field (Some v) ''producerGeneration'') of
        (Some (J_str i), Some (J_str g)) \<Rightarrow>
          if cn_connection c \<noteq> [] \<or> field (Some v) ''protocolVersion'' \<noteq> Some (J_num 1) then Inl (Plain_error ''Invalid resource connection'')
          else Inr (c\<lparr>cn_connection := i, cn_generation := g, cn_views := opened g (cn_views c)\<rparr>)
      | _ \<Rightarrow> Inl (Plain_error ''Invalid resource connection''))"

definition handle_coverage :: "('v \<Rightarrow> json \<Rightarrow> err + 'v) \<Rightarrow> 'v conn \<Rightarrow> json \<Rightarrow> err + 'v conn" where
  "handle_coverage ap c v =
     (case field (Some v) ''views'' of
        Some (J_arr es) \<Rightarrow>
          if cn_assembly c \<noteq> None \<or> field (Some v) ''protocolVersion'' \<noteq> Some (J_num 1)
            \<or> field (Some v) ''producerGeneration'' \<noteq> Some (J_str (cn_generation c)) then Inl (Plain_error ''Invalid resource coverage'')
          else lift_views c (apply_entries ap v (cn_views c) es)
      | _ \<Rightarrow> Inl (Plain_error ''Invalid resource coverage''))"

definition handle_event :: "('v \<Rightarrow> json \<Rightarrow> err + 'v) \<Rightarrow> (string \<Rightarrow> 'v \<Rightarrow> 'v) \<Rightarrow> 'v conn \<Rightarrow> string option \<Rightarrow> json \<Rightarrow> err + 'v conn" where
  "handle_event ap opened c event v =
     (if event = Some ''resource-connection'' then handle_connection opened c v
      else if event = Some ''resource''
      then (if cn_assembly c \<noteq> None then Inl (Plain_error ''Interleaved resource assembly'') else lift_views c (ap (cn_views c) v))
      else if event = Some ''resource-coverage'' then handle_coverage ap c v
      else if event = Some ''resource-chunk'' then handle_chunk ap c v
      else Inl (Plain_error ''Resource service unavailable''))"

text \<open>\<open>buffer.indexOf('\n\n')\<close>: the text before the first blank line and the text after it.\<close>

fun next_frame :: "string \<Rightarrow> (string \<times> string) option" where
  "next_frame (a # b # s) =
     (if a = newline \<and> b = newline then Some ([], s) else map_option (\<lambda>(f, r). (a # f, r)) (next_frame (b # s)))"
| "next_frame _ = None"

fun split_lines :: "string \<Rightarrow> string list" where
  "split_lines [] = [[]]"
| "split_lines (c # s) =
     (if c = newline then [] # split_lines s
      else (case split_lines s of [] \<Rightarrow> [[c]] | l # ls \<Rightarrow> (c # l) # ls))"

definition event_of :: "string \<Rightarrow> string option" where
  "event_of f = map_option (drop 7) (List.find (starts_with ''event: '') (split_lines f))"

definition data_of :: "string \<Rightarrow> string" where
  "data_of f = join [newline] (map (drop 6) (filter (starts_with ''data: '') (split_lines f)))"

definition handle_frame :: "('v \<Rightarrow> json \<Rightarrow> err + 'v) \<Rightarrow> (string \<Rightarrow> 'v \<Rightarrow> 'v) \<Rightarrow> 'v conn \<Rightarrow> string \<Rightarrow> err + 'v conn" where
  "handle_frame ap opened c f =
     (if length f > 512 * 1024 then Inl (Plain_error ''Resource frame capacity'')
      else if starts_with '':'' f then Inr c
      else (case json_parse (data_of f) of None \<Rightarrow> Inl (Plain_error ''SyntaxError'') | Some v \<Rightarrow> handle_event ap opened c (event_of f) v))"

lemma next_frame_shorter: "next_frame s = Some (f, r) \<Longrightarrow> length r < length s"
  by (induction s arbitrary: f rule: next_frame.induct) (auto split: if_splits)

function drain_buffer :: "('v \<Rightarrow> json \<Rightarrow> err + 'v) \<Rightarrow> (string \<Rightarrow> 'v \<Rightarrow> 'v) \<Rightarrow> 'v conn \<Rightarrow> string \<Rightarrow> err + 'v conn \<times> string" where
  "drain_buffer ap opened c buf =
     (case next_frame buf of
        None \<Rightarrow> Inr (c, buf)
      | Some (f, rest) \<Rightarrow> (case handle_frame ap opened c f of Inl x \<Rightarrow> Inl x | Inr d \<Rightarrow> drain_buffer ap opened d rest))"
  by pat_completeness auto
termination by (relation "measure (\<lambda>(ap, opened, c, buf). length buf)") (auto dest: next_frame_shorter)

declare drain_buffer.simps [simp del]

text \<open>The read loop over what the network hands over, piece by piece.\<close>

fun read_all :: "('v \<Rightarrow> json \<Rightarrow> err + 'v) \<Rightarrow> (string \<Rightarrow> 'v \<Rightarrow> 'v) \<Rightarrow> 'v conn \<Rightarrow> string \<Rightarrow> string list \<Rightarrow> err + 'v conn \<times> string" where
  "read_all ap opened c buf [] = Inr (c, buf)"
| "read_all ap opened c buf (piece # pieces) =
     (if length (buf @ piece) > 8 * 1024 * 1024 then Inl (Plain_error ''Resource input capacity'')
      else (case drain_buffer ap opened c (buf @ piece) of Inl x \<Rightarrow> Inl x | Inr (d, rest) \<Rightarrow> read_all ap opened d rest pieces))"

subsection \<open>The text of a frame\<close>

lemma newline_byte: "byte newline = 10" and newline_of: "newline = char_of (10::nat)"
  by (simp_all add: newline_def byte_def newline_char)

definition single_line :: "string \<Rightarrow> bool" where
  "single_line s \<longleftrightarrow> newline \<notin> set s"

lemma single_line_simps [simp]:
  "single_line []" "single_line (c # s) \<longleftrightarrow> c \<noteq> newline \<and> single_line s" "single_line (s @ t) \<longleftrightarrow> single_line s \<and> single_line t"
  by (auto simp: single_line_def)

lemma byte_not_newline: "byte c \<noteq> 10 \<Longrightarrow> c \<noteq> newline"
  using newline_byte by auto

lemma escape_single_line:
  assumes "c < 2097152" shows "single_line (json_escape c)"
proof -
  consider "c \<in> {34, 92, 8, 9, 10, 12, 13}" | "c \<notin> {34, 92, 8, 9, 10, 12, 13}" "c < 32 \<or> is_cs c" | "32 \<le> c" "\<not> is_cs c" "c \<noteq> 34" "c \<noteq> 92"
    by fastforce
  then show ?thesis
  proof cases
    case 1
    then show ?thesis by (auto simp: json_escape_def intro!: byte_not_newline)
  next
    case 2
    then have c: "c < 65536" by (auto simp: is_cs_def)
    have "json_escape c = unicode_escape c" using 2 by (auto simp: json_escape_def)
    then show ?thesis using unicode_hex(1) [OF c] unicode_hex(2-4) by (auto simp: unicode_escape_def hex_digit_byte intro!: byte_not_newline split: if_splits)
  next
    case 3
    then have "json_escape c = enc_cp c" by (auto simp: json_escape_def)
    moreover have "list_all plain (enc_cp c)" using 3 assms by (intro plain_enc_cp)
    ultimately show ?thesis using newline_byte by (auto simp: single_line_def list_all_iff plain_def)
  qed
qed

lemma json_string_single_line: "single_line (json_string s)"
proof -
  have "single_line (concat (map json_escape cs))" if "list_all (\<lambda>c. c < 2097152) cs" for cs
    using that by (induction cs) (simp_all add: escape_single_line)
  then show ?thesis using cps_bounded [of s] by (simp add: json_string_def byte_not_newline)
qed

lemma show_nat_single_line: "single_line (show_nat n)"
proof -
  have "\<not> is_digit newline" by (simp add: is_digit_def in_range_def newline_byte byte_def [of "CHR ''0''"])
  then show ?thesis using show_nat_digits [of n] by (auto simp: single_line_def list_all_iff)
qed

lemma join_single_line: "list_all single_line xs \<Longrightarrow> single_line (join '','' xs)"
  by (induction "'',''::string" xs rule: join.induct) (simp_all add: newline_def)

lemma stringify_single_line: "single_line (stringify v)"
proof (induction v)
  case (J_num n)
  then show ?case by (simp add: show_int_def show_nat_single_line newline_def)
next
  case (J_arr xs)
  then have "single_line (join '','' (map stringify xs))" by (intro join_single_line) (simp add: list_all_iff)
  then show ?case by (simp add: newline_def)
next
  case (J_obj fs)
  then have "single_line (member_text f)" if "f \<in> set fs" for f
    using that json_string_single_line by (cases f) (fastforce simp: member_text_def newline_def)
  then have "single_line (join '','' (map member_text fs))" by (intro join_single_line) (simp add: list_all_iff)
  then show ?case unfolding stringify_obj by (simp add: newline_def)
qed (simp_all add: newline_def json_string_single_line)

lemma next_frame_append: "next_frame a = Some (f, r) \<Longrightarrow> next_frame (a @ b) = Some (f, r @ b)"
  by (induction a arbitrary: f rule: next_frame.induct) (auto split: if_splits)

lemma next_frame_skip: "c \<noteq> newline \<Longrightarrow> next_frame (c # s) = map_option (\<lambda>(f, r). (c # f, r)) (next_frame s)"
  by (cases s) simp_all

lemma next_frame_line: "single_line l \<Longrightarrow> next_frame (l @ s) = map_option (\<lambda>(f, r). (l @ f, r)) (next_frame s)"
  by (induction l; cases "next_frame s") (auto simp: next_frame_skip)

lemma next_frame_second:
  assumes "single_line l" "l \<noteq> []"
  shows "next_frame (newline # l @ s) = map_option (\<lambda>(f, r). (newline # l @ f, r)) (next_frame s)"
  using assms next_frame_line [OF assms(1), of s] by (cases l; cases "next_frame s") auto

lemma next_frame_text:
  assumes "single_line (fst w)"
  shows "next_frame (frame_text w @ rest) = Some (frame_head w, rest)" "next_frame (frame_head w @ [newline]) = None"
proof -
  have written: "frame_text w @ rest = (''event: '' @ fst w) @ newline # (''data: '' @ stringify (snd w)) @ newline # newline # rest"
    by (simp add: frame_text_def frame_head_def)
  have line: "single_line (''event: '' @ fst w)" "single_line (''data: '' @ stringify (snd w))"
    using assms by (simp_all add: stringify_single_line newline_def)
  have step: "next_frame (newline # (''data: '' @ stringify (snd w)) @ s)
      = map_option (\<lambda>(f, r). (newline # ''data: '' @ stringify (snd w) @ f, r)) (next_frame s)" for s
    using next_frame_second [OF line(2), of s] by simp
  show "next_frame (frame_text w @ rest) = Some (frame_head w, rest)"
    unfolding written next_frame_line [OF line(1)] step by (simp add: frame_head_def)
  show "next_frame (frame_head w @ [newline]) = None"
    using next_frame_line [OF line(1), of "newline # (''data: '' @ stringify (snd w)) @ [newline]"] step [of "[newline]"]
    by (simp add: frame_head_def)
qed

lemma split_lines_line: "single_line l \<Longrightarrow> split_lines l = [l] \<and> split_lines (l @ newline # s) = l # split_lines s"
  by (induction l) auto

lemma event_data_of_head:
  assumes "single_line (fst w)"
  shows "event_of (frame_head w) = Some (fst w)" "data_of (frame_head w) = stringify (snd w)"
proof -
  have line: "single_line (''event: '' @ fst w)" "single_line (''data: '' @ stringify (snd w))"
    using assms by (simp_all add: stringify_single_line newline_def)
  have "frame_head w = (''event: '' @ fst w) @ newline # (''data: '' @ stringify (snd w))" by (simp add: frame_head_def)
  then have "split_lines (frame_head w) = [''event: '' @ fst w, ''data: '' @ stringify (snd w)]"
    using split_lines_line [OF line(1)] split_lines_line [OF line(2)] by (simp only:)
  then show "event_of (frame_head w) = Some (fst w)" "data_of (frame_head w) = stringify (snd w)"
    by (simp_all add: event_of_def data_of_def starts_with_def)
qed

lemma handle_written:
  assumes "single_line (fst w)" and "json_ok (snd w)" and "length (frame_text w) \<le> RESOURCE_FRAME_BYTES"
  shows "handle_frame ap opened c (frame_head w) = handle_event ap opened c (Some (fst w)) (snd w)"
proof -
  have "\<not> starts_with '':'' (frame_head w)" by (simp add: frame_head_def starts_with_def)
  moreover have "length (frame_head w) \<le> 512 * 1024" using assms(3) by (simp add: frame_text_def RESOURCE_FRAME_BYTES_def)
  ultimately show ?thesis
    using event_data_of_head [OF assms(1)] json_round_trip [OF assms(2)] by (simp add: handle_frame_def)
qed

lemma drain_written:
  assumes "single_line (fst w)" and "json_ok (snd w)" and "length (frame_text w) \<le> RESOURCE_FRAME_BYTES"
  shows "drain_buffer ap opened c (frame_text w @ rest)
    = (case handle_event ap opened c (Some (fst w)) (snd w) of Inl x \<Rightarrow> Inl x | Inr d \<Rightarrow> drain_buffer ap opened d rest)"
  by (subst drain_buffer.simps) (simp add: next_frame_text [OF assms(1)] handle_written [OF assms])

subsection \<open>Chunks\<close>

lemma CHUNK_pos: "0 < CHUNK_BYTES"
  by (simp add: CHUNK_BYTES_def)

lemma concat_slices: "concat (slices bs) = bs"
  by (induction bs rule: slices.induct) (subst slices.simps, simp)

lemma slices_bounded: "c \<in> set (slices bs) \<Longrightarrow> length c \<le> CHUNK_BYTES"
proof (induction bs rule: slices.induct)
  case (1 bs)
  then show ?case by (cases "bs = []") (auto simp: slices.simps [of bs] slices.simps [of "[]"])
qed

lemma length_slices: "length (slices bs) = parts_of bs"
proof (induction bs rule: slices.induct)
  case (1 bs)
  show ?case
  proof (cases "bs = []")
    case True
    then show ?thesis by (simp add: slices.simps parts_of_def CHUNK_BYTES_def)
  next
    case False
    have pos: "length bs + CHUNK_BYTES - 1 = (length bs - 1) + CHUNK_BYTES" using False by (cases bs) simp_all
    have "parts_of bs = Suc ((length bs - 1) div CHUNK_BYTES)"
      unfolding parts_of_def pos using CHUNK_pos by (subst div_add_self2) simp_all
    moreover have "parts_of (drop CHUNK_BYTES bs) = (length bs - 1) div CHUNK_BYTES"
    proof (cases "length bs \<le> CHUNK_BYTES")
      case True
      then have "(length bs - 1) div CHUNK_BYTES = 0" using False by (intro div_less) (cases bs; simp)
      with True show ?thesis using CHUNK_pos by (simp add: parts_of_def)
    qed (simp add: parts_of_def)
    ultimately show ?thesis using False 1 by (simp add: slices.simps [of bs])
  qed
qed

lemma parts_limit: "length bs \<le> RESOURCE_ASSEMBLY_BYTES \<Longrightarrow> parts_of bs \<le> 64"
proof -
  assume "length bs \<le> RESOURCE_ASSEMBLY_BYTES"
  then have "length bs + CHUNK_BYTES - 1 \<le> RESOURCE_ASSEMBLY_BYTES + CHUNK_BYTES - 1" by simp
  then have "parts_of bs \<le> (RESOURCE_ASSEMBLY_BYTES + CHUNK_BYTES - 1) div CHUNK_BYTES"
    unfolding parts_of_def by (rule div_le_mono)
  then show ?thesis by (simp add: RESOURCE_ASSEMBLY_BYTES_def CHUNK_BYTES_def)
qed

lemma alphabet_b64: "n < 64 \<Longrightarrow> alphabet (b64_char n)"
proof -
  assume n: "n < 64"
  then consider "n < 26" | "26 \<le> n" "n < 52" | "52 \<le> n" "n < 62" | "n = 62" | "n = 63" by linarith
  then show ?thesis
    by cases (auto simp: b64_char_def alphabet_def is_upper_def is_lower_def is_digit_def in_range_def byte_def)
qed

lemmas alphabet_ranges = b64_ranges [THEN alphabet_b64]

lemma b64_shape:
  "\<exists>t p. b64_encode s = t @ p \<and> list_all alphabet t \<and> p \<in> {[], ''='', ''==''} \<and> 4 dvd length t + length p"
proof (induction s rule: b64_encode.induct)
  case 1
  show ?case by simp
next
  case (2 a)
  have "b64_encode [a] = [b64_char (byte a div 4), b64_char (byte a mod 4 * 16)] @ ''==''" by simp
  moreover have "list_all alphabet [b64_char (byte a div 4), b64_char (byte a mod 4 * 16)]" using alphabet_ranges by simp
  moreover have "length [b64_char (byte a div 4), b64_char (byte a mod 4 * 16)] + length ''=='' = 4" by simp
  then have "4 dvd length [b64_char (byte a div 4), b64_char (byte a mod 4 * 16)] + length ''==''" by (simp only: dvd_refl)
  ultimately show ?case by blast
next
  case (3 a b)
  let ?t = "[b64_char (byte a div 4), b64_char (byte a mod 4 * 16 + byte b div 16), b64_char (byte b mod 16 * 4)]"
  have "b64_encode [a, b] = ?t @ ''=''" by simp
  moreover have "list_all alphabet ?t" using alphabet_ranges by simp
  moreover have "length ?t + length ''='' = 4" by simp
  then have "4 dvd length ?t + length ''=''" by (simp only: dvd_refl)
  ultimately show ?case by blast
next
  case (4 a b c s)
  then obtain t p where t: "b64_encode s = t @ p" "list_all alphabet t" "p \<in> {[], ''='', ''==''}" "4 dvd length t + length p" by blast
  let ?q = "[b64_char (byte a div 4), b64_char (byte a mod 4 * 16 + byte b div 16),
    b64_char (byte b mod 16 * 4 + byte c div 64), b64_char (byte c mod 64)]"
  have "b64_encode (a # b # c # s) = (?q @ t) @ p" using t(1) by simp
  moreover have "list_all alphabet (?q @ t)" using alphabet_ranges t(2) by simp
  moreover have "length (?q @ t) + length p = 4 + (length t + length p)" by simp
  with t(4) have "4 dvd length (?q @ t) + length p" by (simp only: dvd_add_triv_left_iff)
  ultimately show ?case using t(3) by blast
qed

lemma alphabet_plain: "alphabet c \<Longrightarrow> \<not> atob_space c \<and> c \<noteq> CHR ''=''"
  by (auto simp: alphabet_def atob_space_def is_upper_def is_lower_def is_digit_def in_range_def byte_def)

lemma map_filter_pads: "p \<in> {[], ''='', ''==''} \<Longrightarrow> List.map_filter b64_val (t @ p) = List.map_filter b64_val t"
  using b64_pads by (auto simp: List.map_filter_def)

lemma drop_pads_none: "s = [] \<or> last s \<noteq> CHR ''='' \<Longrightarrow> drop_pads s = s"
  and drop_pads_one: "length s mod 4 = 0 \<Longrightarrow> s \<noteq> [] \<Longrightarrow> last s = CHR ''='' \<Longrightarrow> butlast s = [] \<or> last (butlast s) \<noteq> CHR ''=''
    \<Longrightarrow> drop_pads s = butlast s"
  and drop_pads_two: "length s mod 4 = 0 \<Longrightarrow> s \<noteq> [] \<Longrightarrow> last s = CHR ''='' \<Longrightarrow> butlast s \<noteq> [] \<Longrightarrow> last (butlast s) = CHR ''=''
    \<Longrightarrow> drop_pads s = butlast (butlast s)"
  by (auto simp: drop_pads_def)

lemma drop_pads_shape:
  assumes "list_all alphabet t" and "p \<in> {[], ''='', ''==''}" and "4 dvd length t + length p"
  shows "drop_pads (t @ p) = t"
proof -
  have t: "t = [] \<or> last t \<noteq> CHR ''=''" using assms(1) alphabet_plain last_in_set [of t] by (auto simp only: list_all_iff)
  have m: "length (t @ p) mod 4 = 0" using assms(3) by (simp only: length_append dvd_eq_mod_eq_0)
  consider "p = []" | "p = ''=''" | "p = ''==''" using assms(2) by blast
  then show ?thesis
  proof cases
    case 1
    with t show ?thesis using drop_pads_none by simp
  next
    case 2
    have "drop_pads (t @ ''='') = butlast (t @ ''='')"
      using m [unfolded 2] t by (intro drop_pads_one) simp_all
    with 2 show ?thesis by simp
  next
    case 3
    have e: "butlast (t @ ''=='') = t @ ''=''" by (simp add: butlast_append)
    have "drop_pads (t @ ''=='') = butlast (butlast (t @ ''==''))"
      using m [unfolded 3] by (intro drop_pads_two) (simp_all add: e)
    with 3 e show ?thesis by simp
  qed
qed

lemma unpadded_length: "p \<in> {[], ''='', ''==''} \<Longrightarrow> 4 dvd (n + length p) \<Longrightarrow> n mod 4 \<noteq> 1"
proof -
  assume p: "p \<in> {[], ''='', ''==''}" and d: "4 dvd (n + length p)"
  from p have "length p = 0 \<or> length p = 1 \<or> length p = 2" by auto
  with d show ?thesis by presburger
qed

lemma atob_encode: "atob (b64_encode s) = Some s"
proof -
  obtain t p where t: "b64_encode s = t @ p" "list_all alphabet t" "p \<in> {[], ''='', ''==''}" "4 dvd length t + length p"
    using b64_shape by blast
  have "\<not> atob_space CHR ''=''" by (simp add: atob_space_def byte_def)
  then have "\<forall>c\<in>set p. \<not> atob_space c" using t(3) by auto
  moreover have "\<forall>c\<in>set t. \<not> atob_space c" using t(2) alphabet_plain by (simp only: list_all_iff) blast
  ultimately have "filter (\<lambda>c. \<not> atob_space c) (t @ p) = t @ p" by (intro filter_True) (simp only: set_append ball_Un)
  moreover have "length t mod 4 \<noteq> 1" using t(3,4) by (rule unpadded_length)
  moreover have "b64_decode t = s"
    using map_filter_pads [OF t(3), of t] b64_decode_encode [of s] unfolding t(1) b64_decode_def by (simp only:)
  ultimately show ?thesis using t(2) drop_pads_shape [OF t(2-4)] unfolding t(1) atob_def Let_def by (simp only: not_False_eq_True simp_thms if_False)
qed

end
