(* ===== verification/Streams.thy ===== *)
theory Streams
  imports Frames
begin

section \<open>Streams of frames\<close>

text \<open>
  What the console makes of what the daemon writes: a chunked envelope is assembled and applied once, every
  frame stays within the limits of the reader, and a stream of envelopes and coverage is applied in order,
  however the network cuts it.
\<close>
subsection \<open>From envelopes to the console\<close>

definition wire_ok :: "wire \<Rightarrow> bool" where
  "wire_ok w \<longleftrightarrow> single_line (fst w) \<and> json_ok (snd w) \<and> length (frame_text w) \<le> RESOURCE_FRAME_BYTES"

fun handle_all :: "('v \<Rightarrow> json \<Rightarrow> err + 'v) \<Rightarrow> (string \<Rightarrow> 'v \<Rightarrow> 'v) \<Rightarrow> 'v conn \<Rightarrow> wire list \<Rightarrow> err + 'v conn" where
  "handle_all ap opened c [] = Inr c"
| "handle_all ap opened c (w # ws) =
     (case handle_event ap opened c (Some (fst w)) (snd w) of Inl x \<Rightarrow> Inl x | Inr d \<Rightarrow> handle_all ap opened d ws)"

lemma handle_all_append:
  "handle_all ap opened c (vs @ ws) = (case handle_all ap opened c vs of Inl x \<Rightarrow> Inl x | Inr d \<Rightarrow> handle_all ap opened d ws)"
  by (induction vs arbitrary: c) (simp_all split: sum.split)

lemma drain_wires:
  "list_all wire_ok ws \<Longrightarrow> drain_buffer ap opened c (concat (map frame_text ws) @ rest)
     = (case handle_all ap opened c ws of Inl x \<Rightarrow> Inl x | Inr d \<Rightarrow> drain_buffer ap opened d rest)"
  by (induction ws arbitrary: c) (auto simp: wire_ok_def drain_written split: sum.split)

text \<open>What a chunked envelope leaves in the assembly after the chunks \<open>ds\<close>.\<close>

definition assembling :: "envelope \<Rightarrow> json \<Rightarrow> string list \<Rightarrow> assembly" where
  "assembling e start ds = \<lparr>as_id = frame_id e, as_total = length (stringify (envelope_json e)),
     as_parts = parts_of (stringify (envelope_json e)), as_chunks = ds, as_bytes = length (concat ds), as_binding = start\<rparr>"

declare map_of_append [simp del]

lemma binding_fields [simp]:
  "map_of (binding e @ fs) ''producerGeneration'' = Some (J_str (ev_generation e))"
  "map_of (binding e @ fs) ''viewId'' = Some (J_str (ev_view e))"
  "map_of (binding e @ fs) ''subscriptionEpoch'' = Some (J_num (int (ev_epoch e)))"
  "map_of (binding e @ fs) ''revision'' = Some (J_num (int (ev_revision e)))"
  "map_of (binding e @ fs) ''sequence'' = Some (J_num (int (ev_sequence e)))"
  "map_of (binding e @ fs) ''id'' = Some (J_str (frame_id e))"
  "map_of (binding e @ fs) ''type'' = map_of fs ''type''" "map_of (binding e @ fs) ''index'' = map_of fs ''index''"
  "map_of (binding e @ fs) ''data'' = map_of fs ''data''" "map_of (binding e @ fs) ''totalBytes'' = map_of fs ''totalBytes''"
  "map_of (binding e @ fs) ''parts'' = map_of fs ''parts''"
  by (simp_all add: binding_def)

lemma bound_binding:
  "bound_to (J_obj (binding e @ fs)) (J_obj (binding e @ gs))"
  "bound_to (envelope_json e) (J_obj (binding e @ gs))"
  by (simp_all add: bound_to_def BINDING_KEYS_def same_value_def envelope_json_def)

definition start_json :: "envelope \<Rightarrow> json" where
  "start_json e = J_obj (binding e @ [(''type'', J_str ''start''), (''totalBytes'', J_num (int (length (stringify (envelope_json e))))),
     (''parts'', J_num (int (parts_of (stringify (envelope_json e)))))])"

definition commit_json :: "envelope \<Rightarrow> json" where
  "commit_json e = J_obj (binding e @ [(''type'', J_str ''commit''), (''totalBytes'', J_num (int (length (stringify (envelope_json e)))))])"

lemma parts_pos: "bs \<noteq> [] \<Longrightarrow> 0 < parts_of bs"
  using length_slices [of bs] by (simp add: slices.simps [of bs])

lemma handle_start:
  assumes "cn_assembly c = None" and "length (stringify (envelope_json e)) \<le> RESOURCE_ASSEMBLY_BYTES"
  shows "handle_event ap opened c (Some ''resource-chunk'') (start_json e) = Inr (c\<lparr>cn_assembly := Some (assembling e (start_json e) [])\<rparr>)"
proof -
  have "int_in 1 (16 * 1024 * 1024) (Some (J_num (int (length (stringify (envelope_json e))))))"
    using assms(2) stringify_ne [of "envelope_json e"]
    by (cases "stringify (envelope_json e)") (simp_all add: int_in_def RESOURCE_ASSEMBLY_BYTES_def)
  moreover have "int_in 1 64 (Some (J_num (int (parts_of (stringify (envelope_json e))))))"
    using parts_limit [OF assms(2)] parts_pos [OF stringify_ne, of "envelope_json e"] by (simp add: int_in_def)
  ultimately show ?thesis using assms(1)
    by (simp add: handle_event_def handle_chunk_def start_json_def start_assembly_def assembling_def string_of_def)
qed

lemma handle_data:
  assumes "length (concat (ds @ [d])) \<le> length (stringify (envelope_json e))" and "length ds < parts_of (stringify (envelope_json e))"
    and "cn_assembly c = Some (assembling e (start_json e) ds)"
  shows "handle_event ap opened c (Some ''resource-chunk'')
      (J_obj (binding e @ [(''type'', J_str ''chunk''), (''index'', J_num (int (length ds))), (''data'', J_str (b64_encode d))]))
    = Inr (c\<lparr>cn_assembly := Some (assembling e (start_json e) (ds @ [d]))\<rparr>)"
proof -
  let ?v = "J_obj (binding e @ [(''type'', J_str ''chunk''), (''index'', J_num (int (length ds))), (''data'', J_str (b64_encode d))])"
  have "add_chunk (assembling e (start_json e) ds) ?v = Inr (assembling e (start_json e) (ds @ [d]))"
    using assms(1,2) by (simp add: add_chunk_def assembling_def atob_encode)
  moreover have "bound_to ?v (start_json e)" unfolding start_json_def by (rule bound_binding)
  ultimately show ?thesis using assms(3) by (simp add: handle_event_def handle_chunk_def assembling_def)
qed

lemma handle_commit:
  assumes "concat ds = stringify (envelope_json e)" and "length ds = parts_of (stringify (envelope_json e))"
    and "cn_assembly c = Some (assembling e (start_json e) ds)" and "json_ok (envelope_json e)"
  shows "handle_event ap opened c (Some ''resource-chunk'') (commit_json e)
    = lift_views (c\<lparr>cn_assembly := None\<rparr>) (ap (cn_views c) (envelope_json e))"
proof -
  have "bound_to (envelope_json e) (start_json e)" unfolding start_json_def by (rule bound_binding)
  then have "commit_assembly (assembling e (start_json e) ds) (commit_json e) = Inr (envelope_json e)"
    using assms by (simp add: commit_assembly_def commit_json_def assembling_def json_round_trip)
  moreover have "bound_to (commit_json e) (start_json e)" unfolding start_json_def commit_json_def by (rule bound_binding)
  ultimately show ?thesis using assms(3) by (simp add: handle_event_def handle_chunk_def commit_json_def assembling_def)
qed

lemma handle_chunks:
  assumes "concat (ds @ cs) = stringify (envelope_json e)" and "length (ds @ cs) = parts_of (stringify (envelope_json e))"
    and "cn_assembly c = Some (assembling e (start_json e) ds)" and "json_ok (envelope_json e)"
  shows "handle_all ap opened c (chunk_frames (binding e) (length ds) cs @ [(''resource-chunk'', commit_json e)])
    = lift_views (c\<lparr>cn_assembly := None\<rparr>) (ap (cn_views c) (envelope_json e))"
  using assms
proof (induction cs arbitrary: ds c)
  case Nil
  then show ?case using handle_commit [of ds e c ap opened] by (simp split: sum.split)
next
  case (Cons d cs)
  let ?c = "c\<lparr>cn_assembly := Some (assembling e (start_json e) (ds @ [d]))\<rparr>"
  have "length (concat (ds @ [d])) \<le> length (concat (ds @ d # cs))" by simp
  then have len: "length (concat (ds @ [d])) \<le> length (stringify (envelope_json e))" unfolding Cons.prems(1) .
  have n: "length ds < parts_of (stringify (envelope_json e))" using Cons.prems(2) by simp
  have "handle_all ap opened ?c (chunk_frames (binding e) (length (ds @ [d])) cs @ [(''resource-chunk'', commit_json e)])
      = lift_views (?c\<lparr>cn_assembly := None\<rparr>) (ap (cn_views ?c) (envelope_json e))"
    using Cons.prems by (intro Cons.IH) simp_all
  then show ?case using handle_data [OF len n Cons.prems(3), of ap opened] by simp
qed

text \<open>However an envelope was cut, the console applies it once.\<close>

lemma handle_envelope:
  assumes "resourceFrames e = Inr ws" and "json_ok (envelope_json e)" and "cn_assembly c = None"
  shows "handle_all ap opened c ws = lift_views c (ap (cn_views c) (envelope_json e))"
proof (cases "length (frame_text (''resource'', envelope_json e)) \<le> RESOURCE_FRAME_BYTES")
  case True
  then have "ws = [(''resource'', envelope_json e)]"
    using assms(1) by (simp add: resourceFrames_def Let_def split: if_splits)
  with assms(3) show ?thesis by (simp add: handle_event_def split: sum.split)
next
  case False
  let ?bs = "stringify (envelope_json e)"
  have len: "length ?bs \<le> RESOURCE_ASSEMBLY_BYTES" using assms(1) by (simp add: resourceFrames_def Let_def split: if_splits)
  with False have ws: "ws = (''resource-chunk'', start_json e) # chunk_frames (binding e) (length ([] :: string list)) (slices ?bs)
      @ [(''resource-chunk'', commit_json e)]"
    using assms(1) by (simp add: resourceFrames_def start_json_def commit_json_def Let_def)
  let ?c = "c\<lparr>cn_assembly := Some (assembling e (start_json e) [])\<rparr>"
  have "handle_all ap opened ?c (chunk_frames (binding e) (length ([] :: string list)) (slices ?bs) @ [(''resource-chunk'', commit_json e)])
      = lift_views (?c\<lparr>cn_assembly := None\<rparr>) (ap (cn_views ?c) (envelope_json e))"
    using assms(2) by (intro handle_chunks) (simp_all add: concat_slices length_slices)
  moreover have "?c\<lparr>cn_assembly := None\<rparr> = c" using assms(3) by (cases c) simp
  ultimately show ?thesis unfolding ws using handle_start [OF assms(3) len, of ap opened] by simp
qed

subsection \<open>Sizes\<close>

definition ascii :: "string \<Rightarrow> bool" where
  "ascii s \<longleftrightarrow> list_all (\<lambda>c. plain c \<and> byte c < 128) s"

lemma ascii_simps [simp]:
  "ascii []" "ascii (c # s) \<longleftrightarrow> plain c \<and> byte c < 128 \<and> ascii s" "ascii (s @ t) \<longleftrightarrow> ascii s \<and> ascii t"
  by (auto simp: ascii_def)

lemma ascii_cps: "ascii s \<Longrightarrow> cps s = map byte s"
  by (rule cps_ascii) (simp add: ascii_def list_all_iff)

lemma enc_byte: "byte c < 128 \<Longrightarrow> enc_cp (byte c) = [c]"
  by (simp add: enc_cp_def)

lemma ascii_js_string: "ascii s \<Longrightarrow> js_string s"
proof -
  assume a: "ascii s"
  have "of_cps (map byte s) = s" using a by (induction s) (simp_all add: enc_byte)
  moreover have "no_pairs cs" if "list_all (\<lambda>c. c < 128) cs" for cs
    using that by (induction cs rule: no_pairs.induct) (auto simp: high_def)
  moreover have "list_all (\<lambda>c. c < 128) (map byte s)" using a by (simp add: ascii_def list_all_iff)
  ultimately show "js_string s" using ascii_cps [OF a] by (simp add: js_string_def)
qed

lemma ascii_json_string: "ascii s \<Longrightarrow> length (json_string s) = length s + 2"
proof -
  assume a: "ascii s"
  have "json_escape (byte c) = [c]" if "plain c" "byte c < 128" for c
    using that by (auto simp: json_escape_def plain_def enc_byte is_cs_def)
  then have "concat (map json_escape (map byte s)) = s" using a by (induction s) simp_all
  with ascii_cps [OF a] show ?thesis by (simp add: json_string_def)
qed

lemma length_cps: "length (cps s) \<le> length s"
proof (induction s rule: cps.induct)
  case (2 a s)
  then show ?case by (subst cps.simps(2)) (simp add: le_SucI del: cps.simps split: list.split)
qed simp

lemma length_json_string: "length (json_string s) \<le> 6 * length s + 2"
proof -
  have "length (enc_cp c) \<le> 6" "length (unicode_escape c) = 6" for c by (simp_all add: enc_cp_def unicode_escape_def)
  then have e: "length (json_escape c) \<le> 6" for c
    by (auto simp: json_escape_def)
  have "length (concat (map json_escape cs)) \<le> 6 * length cs" for cs
  proof (induction cs)
    case (Cons c cs)
    with e [of c] show ?case by simp
  qed simp
  from this [of "cps s"] length_cps [of s] show ?thesis by (simp add: json_string_def)
qed

lemma length_show_nat: "n < 10 ^ Suc k \<Longrightarrow> length (show_nat n) \<le> Suc k"
proof (induction k arbitrary: n)
  case 0
  then show ?case by (subst show_nat.simps) simp
next
  case (Suc k)
  then have "n div 10 < 10 ^ Suc k" by (simp add: less_mult_imp_div_less)
  from Suc.IH [OF this] show ?case by (subst show_nat.simps) simp
qed

lemma length_safe: "int n \<le> max_safe \<Longrightarrow> length (show_nat n) \<le> 16"
  using length_show_nat [of n 15] by (simp add: max_safe_def)

lemma length_join_frames: "length (join '','' xs) \<le> sum_list (map length xs) + length xs"
  by (induction "'',''::string" xs rule: join.induct) simp_all

definition field_size :: "string \<times> json \<Rightarrow> nat" where
  "field_size f = 6 * length (fst f) + 4 + length (stringify (snd f))"

lemma object_size: "length (stringify (J_obj fs)) \<le> 2 + sum_list (map field_size fs)"
proof -
  have "length (member_text f) + 1 \<le> field_size f" for f
    using length_json_string [of "fst f"] by (simp add: member_text_def field_size_def)
  then have "sum_list (map (\<lambda>f. length (member_text f) + 1) fs) \<le> sum_list (map field_size fs)"
    by (intro sum_list_mono)
  moreover have "sum_list (map (\<lambda>f. length (member_text f) + 1) fs) = sum_list (map length (map member_text fs)) + length fs"
    by (induction fs) simp_all
  moreover note length_join_frames [of "map member_text fs"]
  ultimately show ?thesis unfolding stringify_obj by simp
qed

lemma length_b64: "length (b64_encode s) = 4 * ((length s + 2) div 3)"
proof (induction s rule: b64_encode.induct)
  case (4 a b c s)
  have "(length s + 2 + 3) div 3 = (length s + 2) div 3 + 1" by simp
  then show ?case using 4 by simp
qed simp_all

lemma alphabet_ascii: "alphabet c \<Longrightarrow> plain c \<and> byte c < 128"
proof -
  assume "alphabet c"
  then consider "is_upper c" | "is_lower c" | "is_digit c" | "c = CHR ''+''" | "c = CHR ''/''" unfolding alphabet_def by blast
  then show ?thesis by cases (auto simp: plain_def is_upper_def is_lower_def is_digit_def in_range_def byte_def)
qed

lemma ascii_b64: "ascii (b64_encode s)"
proof -
  obtain t p where t: "b64_encode s = t @ p" "list_all alphabet t" "p \<in> {[], ''='', ''==''}" using b64_shape by blast
  have "plain CHR ''='' \<and> byte CHR ''='' < 128" by (simp add: plain_def byte_def)
  then have "ascii p" using t(3) by (elim insertE) simp_all
  moreover have "ascii t" using t(2) alphabet_ascii by (simp only: ascii_def list_all_iff) blast
  ultimately show ?thesis unfolding t(1) by simp
qed

lemma ascii_show_nat: "ascii (show_nat n)"
proof -
  have "is_digit c \<Longrightarrow> plain c \<and> byte c < 128" for c using alphabet_ascii [of c] by (simp add: alphabet_def)
  then show ?thesis using show_nat_digits [of n] by (simp add: ascii_def list_all_iff)
qed

text \<open>An envelope as the daemon makes it: view identifiers match \<open>/^[A-Za-z0-9_-]{1,128}$/\<close>, the generation
  is a UUID.\<close>

definition envelope_ok :: "envelope \<Rightarrow> bool" where
  "envelope_ok e \<longleftrightarrow> json_ok (envelope_json e) \<and> ascii (ev_view e) \<and> length (ev_view e) \<le> 128
     \<and> ascii (ev_generation e) \<and> length (ev_generation e) \<le> 64"

lemma envelope_numbers:
  assumes "envelope_ok e"
  shows "int (ev_epoch e) \<le> max_safe" "int (ev_sequence e) \<le> max_safe" "int (ev_revision e) \<le> max_safe"
  using assms by (simp_all add: envelope_ok_def envelope_json_def)

lemma ascii_frame_id: "ascii (ev_view e) \<Longrightarrow> ascii (frame_id e)"
  by (simp add: frame_id_def ascii_show_nat plain_def byte_def)

lemma ascii_names: "ascii ''protocolVersion''" "ascii ''id''" "ascii ''producerGeneration''" "ascii ''viewId''"
  "ascii ''subscriptionEpoch''" "ascii ''revision''" "ascii ''sequence''" "ascii ''type''" "ascii ''index''" "ascii ''data''"
  "ascii ''totalBytes''" "ascii ''parts''" "ascii ''start''" "ascii ''chunk''" "ascii ''commit''"
  by (simp_all add: plain_def byte_def)

lemma binding_ok:
  assumes "envelope_ok e"
  shows "list_all (\<lambda>(k, v). js_string k \<and> json_ok v) (binding e)"
  using assms envelope_numbers [OF assms] ascii_frame_id [of e] ascii_names [THEN ascii_js_string]
  by (simp add: binding_def envelope_ok_def ascii_js_string max_safe_def)

lemma length_frame_id:
  assumes "envelope_ok e" shows "length (frame_id e) \<le> 162"
  using assms envelope_numbers [OF assms, THEN length_safe] by (simp add: frame_id_def envelope_ok_def)

lemma binding_size:
  assumes "envelope_ok e"
  shows "sum_list (map field_size (binding e)) \<le> 3000"
proof -
  note n = envelope_numbers [OF assms, THEN length_safe]
  have "length (json_string (frame_id e)) \<le> 974" using length_json_string [of "frame_id e"] length_frame_id [OF assms] by simp
  moreover have "length (json_string (ev_generation e)) \<le> 386" "length (json_string (ev_view e)) \<le> 770"
    using assms length_json_string [of "ev_generation e"] length_json_string [of "ev_view e"] by (simp_all add: envelope_ok_def)
  moreover have "length (show_int 1) \<le> 16" using length_safe [of 1] by (simp add: show_int_def max_safe_def)
  ultimately show ?thesis using n by (simp add: binding_def field_size_def show_int_def)
qed

lemma chunk_wire_ok:
  assumes "envelope_ok e" and "distinct (map fst (binding e @ fs))" and "list_all (\<lambda>(k, v). js_string k \<and> json_ok v) fs"
    and "sum_list (map field_size fs) \<le> 400000"
  shows "wire_ok (''resource-chunk'', J_obj (binding e @ fs))"
proof -
  have "length (stringify (J_obj (binding e @ fs))) \<le> 2 + (3000 + 400000)"
    using object_size [of "binding e @ fs"] binding_size [OF assms(1)] assms(4) by simp
  then have "length (frame_text (''resource-chunk'', J_obj (binding e @ fs))) \<le> RESOURCE_FRAME_BYTES"
    by (simp add: frame_text_def frame_head_def RESOURCE_FRAME_BYTES_def del: stringify.simps)
  moreover have "single_line ''resource-chunk''" by (simp add: newline_def)
  ultimately show ?thesis using assms(2,3) binding_ok [OF assms(1)] by (simp add: wire_ok_def)
qed

lemma binding_names: "map fst (binding e) = [''protocolVersion'', ''id'', ''producerGeneration'', ''viewId'', ''subscriptionEpoch'', ''revision'', ''sequence'']"
  by (simp add: binding_def)

lemma chunk_frames_ok:
  assumes "envelope_ok e" and "list_all (\<lambda>c. length c \<le> CHUNK_BYTES) cs" and "int (n + length cs) \<le> max_safe"
  shows "list_all wire_ok (chunk_frames (binding e) n cs)"
  using assms(2,3)
proof (induction cs arbitrary: n)
  case (Cons c cs)
  have "length (b64_encode c) \<le> 349528"
  proof -
    have "(length c + 2) div 3 \<le> (CHUNK_BYTES + 2) div 3" using Cons.prems(1) by (intro div_le_mono) simp
    then show ?thesis by (simp add: length_b64 CHUNK_BYTES_def)
  qed
  then have "length (json_string (b64_encode c)) \<le> 349530" using ascii_json_string [OF ascii_b64, of c] by simp
  moreover have "length (show_nat n) \<le> 16" using Cons.prems(2) by (intro length_safe) simp
  moreover have "length (json_string ''chunk'') \<le> 32" using length_json_string [of "''chunk''"] by simp
  ultimately have "sum_list (map field_size [(''type'', J_str ''chunk''), (''index'', J_num (int n)), (''data'', J_str (b64_encode c))]) \<le> 400000"
    by (simp add: field_size_def show_int_def)
  then have "wire_ok (''resource-chunk'', J_obj (binding e @ [(''type'', J_str ''chunk''), (''index'', J_num (int n)), (''data'', J_str (b64_encode c))]))"
    using assms(1) Cons.prems(2) ascii_names [THEN ascii_js_string] ascii_b64 [THEN ascii_js_string]
    by (intro chunk_wire_ok) (simp_all add: binding_names max_safe_def)
  with Cons show ?case by simp
qed simp

lemma frames_ok:
  assumes "resourceFrames e = Inr ws" and "envelope_ok e"
  shows "list_all wire_ok ws"
proof (cases "length (frame_text (''resource'', envelope_json e)) \<le> RESOURCE_FRAME_BYTES")
  case True
  then have "ws = [(''resource'', envelope_json e)]"
    using assms(1) by (simp add: resourceFrames_def Let_def split: if_splits)
  moreover have "single_line ''resource''" by (simp add: newline_def)
  ultimately show ?thesis using True assms(2) by (simp add: wire_ok_def envelope_ok_def)
next
  case False
  let ?bs = "stringify (envelope_json e)"
  have len: "length ?bs \<le> RESOURCE_ASSEMBLY_BYTES" using assms(1) by (simp add: resourceFrames_def Let_def split: if_splits)
  with False have ws: "ws = (''resource-chunk'', start_json e) # chunk_frames (binding e) 0 (slices ?bs) @ [(''resource-chunk'', commit_json e)]"
    using assms(1) by (simp add: resourceFrames_def start_json_def commit_json_def Let_def)
  have safe: "int (length ?bs) \<le> max_safe" "int (parts_of ?bs) \<le> max_safe"
    using len parts_limit [OF len] by (simp_all add: RESOURCE_ASSEMBLY_BYTES_def max_safe_def)
  have names: "length (json_string ''start'') \<le> 32" "length (json_string ''commit'') \<le> 38"
    using length_json_string [of "''start''"] length_json_string [of "''commit''"] by simp_all
  have "wire_ok (''resource-chunk'', start_json e)" "wire_ok (''resource-chunk'', commit_json e)"
    unfolding start_json_def commit_json_def using assms(2) safe safe [THEN length_safe] names ascii_names [THEN ascii_js_string]
    by (intro chunk_wire_ok; simp add: binding_names field_size_def show_int_def max_safe_def)+
  moreover have "list_all (\<lambda>c. length c \<le> CHUNK_BYTES) (slices ?bs)" using slices_bounded by (simp add: list_all_iff)
  then have "list_all wire_ok (chunk_frames (binding e) 0 (slices ?bs))"
    using assms(2) safe(2) by (intro chunk_frames_ok) (simp_all add: length_slices)
  ultimately show ?thesis unfolding ws by simp
qed

subsection \<open>A stream\<close>

text \<open>What \<open>ResourceOutput\<close> writes one after the other: envelopes, and coverage of several views.\<close>

datatype outgoing = Enveloped envelope | Covering string "envelope list"

definition coverage_entry :: "envelope \<Rightarrow> (string \<times> json) list" where
  "coverage_entry e =
     [(''protocolVersion'', J_num 1), (''producerGeneration'', J_str (ev_generation e)), (''viewId'', J_str (ev_view e)),
      (''subscriptionEpoch'', J_num (int (ev_epoch e))), (''baselineId'', J_str (ev_baseline e)),
      (''sequence'', J_num (int (ev_sequence e))), (''revision'', J_num (int (ev_revision e)))]
     @ opt_field ''source'' state_json (ev_source e)"

definition coverage_json :: "string \<Rightarrow> envelope list \<Rightarrow> json" where
  "coverage_json g es = J_obj [(''protocolVersion'', J_num 1), (''producerGeneration'', J_str g),
     (''views'', J_arr (map (\<lambda>e. J_obj (coverage_entry e)) es))]"

fun wires_of :: "outgoing \<Rightarrow> err + wire list" where
  "wires_of (Enveloped e) = resourceFrames e"
| "wires_of (Covering g es) = Inr [(''resource-coverage'', coverage_json g es)]"

fun wires :: "outgoing list \<Rightarrow> err + wire list" where
  "wires [] = Inr []"
| "wires (x # xs) = (case wires_of x of Inl e \<Rightarrow> Inl e | Inr ws \<Rightarrow>
     (case wires xs of Inl e \<Rightarrow> Inl e | Inr vs \<Rightarrow> Inr (ws @ vs)))"

text \<open>What the console applies for each.\<close>

fun applied :: "outgoing \<Rightarrow> json list" where
  "applied (Enveloped e) = [envelope_json e]"
| "applied (Covering g es) = map (\<lambda>e. coverage_value (coverage_json g es) (J_obj (coverage_entry e))) es"

fun apply_values :: "('v \<Rightarrow> json \<Rightarrow> err + 'v) \<Rightarrow> 'v \<Rightarrow> json list \<Rightarrow> err + 'v" where
  "apply_values ap x [] = Inr x"
| "apply_values ap x (v # vs) = (case ap x v of Inl e \<Rightarrow> Inl e | Inr y \<Rightarrow> apply_values ap y vs)"

text \<open>What a coverage record holds, as \<open>coverage\<close> makes it: entries of the views of one connection, of which there are at
  most 64, each with an identifier of a view, identifiers that are UUIDs, and counters the console can represent.\<close>

definition source_ok :: "source_state \<Rightarrow> bool" where
  "source_ok s \<longleftrightarrow> ascii (so_generation s) \<and> length (so_generation s) \<le> 64 \<and> int (so_position s) \<le> max_safe"

definition entry_ok :: "envelope \<Rightarrow> bool" where
  "entry_ok e \<longleftrightarrow> ascii (ev_generation e) \<and> length (ev_generation e) \<le> 64 \<and> ascii (ev_view e) \<and> length (ev_view e) \<le> 128
     \<and> ascii (ev_baseline e) \<and> length (ev_baseline e) \<le> 64
     \<and> int (ev_epoch e) \<le> max_safe \<and> int (ev_sequence e) \<le> max_safe \<and> int (ev_revision e) \<le> max_safe
     \<and> (case ev_source e of None \<Rightarrow> True | Some s \<Rightarrow> source_ok s)"

fun outgoing_ok :: "string \<Rightarrow> outgoing \<Rightarrow> bool" where
  "outgoing_ok g (Enveloped e) \<longleftrightarrow> envelope_ok e"
| "outgoing_ok g (Covering h es) \<longleftrightarrow> h = g \<and> ascii g \<and> length g \<le> 64 \<and> length es \<le> 64 \<and> list_all entry_ok es"

lemma ascii_coverage_names: "ascii ''protocolVersion''" "ascii ''producerGeneration''" "ascii ''viewId''" "ascii ''subscriptionEpoch''"
  "ascii ''baselineId''" "ascii ''sequence''" "ascii ''revision''" "ascii ''source''" "ascii ''position''" "ascii ''health''"
  "ascii ''healthy''" "ascii ''failed''" "ascii ''views''"
  by (simp_all add: plain_def byte_def)

lemmas coverage_strings = ascii_coverage_names [THEN ascii_js_string] ascii_js_string

lemma length_one: "length (show_int 1) \<le> 16"
  using length_safe [of 1] by (simp add: show_int_def max_safe_def)

lemma source_size:
  assumes "source_ok s" shows "json_ok (state_json s)" and "length (stringify (state_json s)) \<le> 407"
proof -
  have s: "ascii (so_generation s)" "length (so_generation s) \<le> 64" "int (so_position s) \<le> max_safe" using assms by (simp_all add: source_ok_def)
  show "json_ok (state_json s)" using s coverage_strings by (simp add: state_json_def max_safe_def)
  have "length (json_string (if so_healthy s then ''healthy'' else ''failed'')) \<le> 9"
    using ascii_coverage_names(11,12) [THEN ascii_json_string] by simp
  then show "length (stringify (state_json s)) \<le> 407"
    using object_size [of "[(''protocolVersion'', J_num 1), (''producerGeneration'', J_str (so_generation s)),
      (''position'', J_num (int (so_position s))), (''health'', J_str (if so_healthy s then ''healthy'' else ''failed''))]"]
      length_one length_safe [OF s(3)] ascii_json_string [OF s(1)] s(2)
    by (simp add: state_json_def field_size_def show_int_def)
qed

lemma entry_size:
  assumes "entry_ok e" shows "json_ok (J_obj (coverage_entry e))" and "length (stringify (J_obj (coverage_entry e))) \<le> 1300"
proof -
  have e: "ascii (ev_generation e)" "length (ev_generation e) \<le> 64" "ascii (ev_view e)" "length (ev_view e) \<le> 128"
      "ascii (ev_baseline e)" "length (ev_baseline e) \<le> 64"
      "int (ev_epoch e) \<le> max_safe" "int (ev_sequence e) \<le> max_safe" "int (ev_revision e) \<le> max_safe"
    using assms by (simp_all add: entry_ok_def)
  have source: "source_ok s" if "ev_source e = Some s" for s using assms that by (simp add: entry_ok_def)
  show "json_ok (J_obj (coverage_entry e))"
    using e coverage_strings source_size(1) [OF source]
    by (cases "ev_source e") (simp_all add: coverage_entry_def opt_field_def max_safe_def)
  have "sum_list (map field_size (opt_field ''source'' state_json (ev_source e))) \<le> 447"
    using source_size(2) [OF source] by (cases "ev_source e") (simp_all add: field_size_def opt_field_def del: stringify.simps)
  then show "length (stringify (J_obj (coverage_entry e))) \<le> 1300"
    using object_size [of "coverage_entry e"] length_one e(2,4,6) e(7-9) [THEN length_safe] e(1,3,5) [THEN ascii_json_string]
    by (simp add: coverage_entry_def field_size_def show_int_def del: stringify.simps(6))
qed

lemma entries_size:
  "list_all entry_ok es \<Longrightarrow> length (stringify (J_arr (map (\<lambda>e. J_obj (coverage_entry e)) es))) \<le> 2 + 1301 * length es"
proof -
  assume ok: "list_all entry_ok es"
  then have "sum_list (map length (map stringify (map (\<lambda>e. J_obj (coverage_entry e)) es))) \<le> 1300 * length es"
    using entry_size(2) by (induction es) (fastforce simp del: stringify.simps)+
  then show ?thesis
    using length_join_frames [of "map stringify (map (\<lambda>e. J_obj (coverage_entry e)) es)"] by (simp del: stringify.simps(6))
qed

text \<open>The largest coverage record the daemon makes fits a frame the console reads.\<close>

lemma coverage_wire_ok:
  assumes "ascii g" "length g \<le> 64" "length es \<le> 64" "list_all entry_ok es"
  shows "wire_ok (''resource-coverage'', coverage_json g es)"
proof -
  have "list_all json_ok (map (\<lambda>e. J_obj (coverage_entry e)) es)" using assms(4) entry_size(1) by (simp only: list_all_iff set_map) blast
  then have json: "json_ok (coverage_json g es)" using assms(1) coverage_strings by (simp add: coverage_json_def max_safe_def)
  have "length (stringify (coverage_json g es)) \<le> 100000"
    using object_size [of "[(''protocolVersion'', J_num 1), (''producerGeneration'', J_str g), (''views'', J_arr (map (\<lambda>e. J_obj (coverage_entry e)) es))]"]
      length_one ascii_json_string [OF assms(1)] assms(2,3) entries_size [OF assms(4)]
    by (simp add: coverage_json_def field_size_def del: stringify.simps(5,6))
  then have "length (frame_text (''resource-coverage'', coverage_json g es)) \<le> RESOURCE_FRAME_BYTES"
    by (simp add: frame_text_def frame_head_def RESOURCE_FRAME_BYTES_def del: stringify.simps)
  moreover have "single_line ''resource-coverage''" by (simp add: newline_def)
  ultimately show ?thesis using json by (simp add: wire_ok_def)
qed

lemma apply_values_append:
  "apply_values ap x (vs @ ws) = (case apply_values ap x vs of Inl e \<Rightarrow> Inl e | Inr y \<Rightarrow> apply_values ap y ws)"
  by (induction vs arbitrary: x) (simp_all split: sum.split)

lemma apply_entries_values:
  "apply_entries ap v x (map (\<lambda>e. J_obj (coverage_entry e)) es)
     = apply_values ap x (map (\<lambda>e. coverage_value v (J_obj (coverage_entry e))) es)"
  by (induction es arbitrary: x) (simp_all split: sum.split)

lemma handle_outgoing:
  assumes "wires_of x = Inr ws" and "outgoing_ok (cn_generation c) x" and "cn_assembly c = None"
  shows "list_all wire_ok ws" and "handle_all ap opened c ws = lift_views c (apply_values ap (cn_views c) (applied x))"
proof -
  show "list_all wire_ok ws" using assms frames_ok coverage_wire_ok by (cases x) auto
  show "handle_all ap opened c ws = lift_views c (apply_values ap (cn_views c) (applied x))"
  proof (cases x)
    case (Enveloped e)
    with assms handle_envelope [of e ws c ap opened] show ?thesis
      by (simp add: envelope_ok_def split: sum.split)
  next
    case (Covering g es)
    have "handle_event ap opened c (Some ''resource-coverage'') (coverage_json g es)
        = lift_views c (apply_entries ap (coverage_json g es) (cn_views c) (map (\<lambda>e. J_obj (coverage_entry e)) es))"
      using assms(2,3) Covering by (simp add: handle_event_def handle_coverage_def coverage_json_def)
    moreover have "ws = [(''resource-coverage'', coverage_json g es)]" using assms(1) Covering by simp
    ultimately show ?thesis using Covering by (simp add: apply_entries_values split: sum.split)
  qed
qed

lemma lift_views_fields: "lift_views c r = Inr d \<Longrightarrow> cn_generation d = cn_generation c \<and> cn_assembly d = cn_assembly c"
  by (auto simp: lift_views_def split: sum.splits)

lemma lift_lift_views: "lift_views (c\<lparr>cn_views := v\<rparr>) r = lift_views c r"
  by (simp add: lift_views_def split: sum.split)

lemma handle_stream:
  assumes "wires sent = Inr ws" and "list_all (outgoing_ok (cn_generation c)) sent" and "cn_assembly c = None"
  shows "list_all wire_ok ws \<and> handle_all ap opened c ws = lift_views c (apply_values ap (cn_views c) (concat (map applied sent)))"
  using assms
proof (induction sent arbitrary: c ws)
  case Nil
  then show ?case by (simp add: lift_views_def)
next
  case (Cons x xs)
  then obtain us vs where ws: "wires_of x = Inr us" "wires xs = Inr vs" "ws = us @ vs"
    by (auto split: sum.splits)
  note one = handle_outgoing(1) [OF ws(1), of c] handle_outgoing(2) [OF ws(1), of c ap opened]
  have gen: "cn_generation (c\<lparr>cn_views := y\<rparr>) = cn_generation c" "cn_assembly (c\<lparr>cn_views := y\<rparr>) = None" for y
    using Cons.prems(3) by simp_all
  show ?case
  proof (cases "apply_values ap (cn_views c) (applied x)")
    case (Inl e)
    then have "handle_all ap opened c ws = Inl e" using one Cons.prems unfolding ws(3) by (simp add: handle_all_append lift_views_def)
    moreover have "list_all wire_ok vs" using Cons.IH [OF ws(2), of c] Cons.prems by simp
    ultimately show ?thesis using Inl one Cons.prems unfolding ws(3) by (simp add: apply_values_append lift_views_def)
  next
    case (Inr y)
    have "list_all wire_ok vs \<and> handle_all ap opened (c\<lparr>cn_views := y\<rparr>) vs
        = lift_views c (apply_values ap y (concat (map applied xs)))"
      using Cons.IH [OF ws(2), of "c\<lparr>cn_views := y\<rparr>"] Cons.prems by (simp add: lift_lift_views)
    then show ?thesis using Inr one Cons.prems unfolding ws(3)
      by (simp add: apply_values_append handle_all_append lift_views_def)
  qed
qed

subsection \<open>Pieces\<close>

lemma drain_append:
  "drain_buffer ap opened c (a @ b) = (case drain_buffer ap opened c a of Inl x \<Rightarrow> Inl x | Inr (d, rest) \<Rightarrow> drain_buffer ap opened d (rest @ b))"
proof (induction ap opened c a rule: drain_buffer.induct)
  case (1 ap opened c a)
  show ?case
  proof (cases "next_frame a")
    case None
    then show ?thesis by (simp add: drain_buffer.simps [of ap opened c a])
  next
    case (Some p)
    obtain f rest where p: "p = (f, rest)" by (cases p)
    have "next_frame (a @ b) = Some (f, rest @ b)" using next_frame_append Some p by simp
    then show ?thesis using Some p 1
      by (subst (1 2) drain_buffer.simps) (simp split: sum.split)
  qed
qed

lemma drain_none: "next_frame s = None \<Longrightarrow> drain_buffer ap opened c s = Inr (c, s)"
  by (simp add: drain_buffer.simps)

lemma next_frame_part:
  assumes "next_frame (a @ b) = None" shows "next_frame a = None"
  using next_frame_append [of a] assms by (cases "next_frame a") fastforce+

text \<open>What stays in the buffer is part of one frame.\<close>

lemma leftover:
  assumes "list_all wire_ok ws" and "p @ q = concat (map frame_text ws)" and "drain_buffer ap opened c p = Inr (d, rest)"
  shows "length rest \<le> RESOURCE_FRAME_BYTES"
  using assms
proof (induction ws arbitrary: p c)
  case Nil
  then show ?case by (simp add: drain_none)
next
  case (Cons w ws)
  have w: "wire_ok w" using Cons.prems(1) by simp
  from Cons.prems(2) have eq: "p @ q = frame_text w @ concat (map frame_text ws)" by simp
  then obtain us where "p = frame_text w @ us \<and> us @ q = concat (map frame_text ws) \<or> p @ us = frame_text w \<and> q = us @ concat (map frame_text ws)"
    by (auto simp: append_eq_append_conv2)
  then consider s where "p = frame_text w @ s" "s @ q = concat (map frame_text ws)"
    | s where "p @ s = frame_text w" "s \<noteq> []"
    by (cases "us = []") auto
  then show ?case
  proof cases
    case (1 s)
    have "\<exists>e. drain_buffer ap opened e s = Inr (d, rest)"
      using Cons.prems(3) w drain_written [of w ap opened c s] unfolding 1(1) wire_ok_def by (auto split: sum.splits)
    then obtain e where "drain_buffer ap opened e s = Inr (d, rest)" by blast
    with Cons.IH [OF _ 1(2), of e] Cons.prems(1) show ?thesis by simp
  next
    case (2 s)
    then obtain t where t: "s = t @ [newline]"
      unfolding frame_text_def by (cases s rule: rev_cases) (auto simp: append_eq_append_conv2 append_eq_Cons_conv Cons_eq_append_conv)
    then have "p @ t = frame_head w @ [newline]" using 2(1) unfolding frame_text_def
      by (metis append_assoc append_Cons append_Nil butlast_snoc)
    then have "next_frame p = None" using next_frame_text(2) [of w] w next_frame_part [of p t] by (simp add: wire_ok_def)
    then have "rest = p" using Cons.prems(3) by (simp add: drain_none)
    moreover have "length p \<le> length (frame_text w)" using 2(1) by (metis le_add1 length_append)
    ultimately show ?thesis using w by (simp add: wire_ok_def)
  qed
qed

text \<open>The only way in which a cut can matter: a piece so large that, with what is unread, it exceeds the 8 MiB of the
  reader.\<close>

definition input_capacity :: "err + 'v conn \<times> string" where
  "input_capacity = Inl (Plain_error ''Resource input capacity'')"

definition large :: "string \<Rightarrow> bool" where
  "large piece \<longleftrightarrow> 8 * 1024 * 1024 < length piece + RESOURCE_FRAME_BYTES"

lemma read_all_drains:
  assumes "list_all wire_ok ws" and "p @ concat pieces = concat (map frame_text ws)"
    and "drain_buffer ap opened c0 p = Inr (c, buf)"
  shows "read_all ap opened c buf pieces = drain_buffer ap opened c0 (p @ concat pieces)
    \<or> list_ex large pieces \<and> read_all ap opened c buf pieces = input_capacity"
  using assms(2-3)
proof (induction pieces arbitrary: p c buf)
  case (Cons x xs)
  have "length buf \<le> RESOURCE_FRAME_BYTES" using assms(1) Cons.prems(1,2) by (intro leftover) auto
  then have size: "large x" if "length (buf @ x) > 8 * 1024 * 1024" using that by (simp add: large_def)
  have step: "drain_buffer ap opened c0 (p @ x) = drain_buffer ap opened c (buf @ x)"
    using drain_append [of ap opened c0 p x] Cons.prems(2) by simp
  consider "length (buf @ x) > 8 * 1024 * 1024"
    | e where "\<not> length (buf @ x) > 8 * 1024 * 1024" "drain_buffer ap opened c (buf @ x) = Inl e"
    | d rest where "\<not> length (buf @ x) > 8 * 1024 * 1024" "drain_buffer ap opened c (buf @ x) = Inr (d, rest)"
    by (cases "drain_buffer ap opened c (buf @ x)") auto
  then show ?case
  proof cases
    case 1
    then show ?thesis using size by (simp add: input_capacity_def)
  next
    case (2 e)
    then have "drain_buffer ap opened c0 ((p @ x) @ concat xs) = Inl e" using step drain_append [of ap opened c0 "p @ x"] by simp
    with 2 show ?thesis by simp
  next
    case (3 d rest)
    have "read_all ap opened d rest xs = drain_buffer ap opened c0 ((p @ x) @ concat xs)
        \<or> list_ex large xs \<and> read_all ap opened d rest xs = input_capacity"
      using Cons.prems 3 step by (intro Cons.IH) simp_all
    with 3 show ?thesis by auto
  qed
qed simp

text \<open>C22: however the network cuts a stream of frames into pieces, the console either applies exactly the envelopes
  and coverage entries the daemon sent, each once and in order (to the first one its views refuse, if any), and is left
  with an empty buffer; or it gives the connection up for the size of its input. That happens only if some piece is
  larger than 7.5 MiB (8 MiB less one frame). In particular no frame of the daemon, a chunk of an envelope or a coverage
  record of all 64 views included, exceeds the 512 KiB the console reads, and no buffer of unread text gives it up when
  pieces are of the size networks have.\<close>

theorem stream_is_delivered:
  assumes "wires sent = Inr ws" and "list_all (outgoing_ok (cn_generation c)) sent" and "cn_assembly c = None"
    and "concat pieces = concat (map frame_text ws)"
  shows "read_all ap opened c [] pieces
      = (case apply_values ap (cn_views c) (concat (map applied sent)) of Inl x \<Rightarrow> Inl x | Inr v \<Rightarrow> Inr (c\<lparr>cn_views := v\<rparr>, []))
    \<or> list_ex large pieces \<and> read_all ap opened c [] pieces = input_capacity"
proof -
  have h: "list_all wire_ok ws" "handle_all ap opened c ws = lift_views c (apply_values ap (cn_views c) (concat (map applied sent)))"
    using handle_stream [OF assms(1-3)] by blast+
  have e: "drain_buffer ap opened d [] = Inr (d, [])" for d by (simp add: drain_none)
  have "drain_buffer ap opened c ([] @ concat pieces) = drain_buffer ap opened c (concat (map frame_text ws) @ [])" using assms(4) by simp
  also have "\<dots> = (case apply_values ap (cn_views c) (concat (map applied sent)) of Inl x \<Rightarrow> Inl x | Inr v \<Rightarrow> Inr (c\<lparr>cn_views := v\<rparr>, []))"
    unfolding drain_wires [OF h(1)] h(2) by (simp add: lift_views_def e split: sum.split)
  finally show ?thesis
    using read_all_drains [OF h(1), of "[]" pieces ap opened c c "[]"] assms(4) e by simp
qed

definition sample_envelope :: envelope where
  "sample_envelope = \<lparr>ev_generation = ''g'', ev_view = ''room_1'', ev_epoch = 1, ev_baseline = ''b'', ev_sequence = 1, ev_revision = 1,
     ev_body = Snapshot (Listing (J_arr [J_str ''a'', J_num (- 3)])),
     ev_source = Some \<lparr>so_generation = ''s'', so_position = 4, so_healthy = True\<rparr>\<rparr>"

definition sample_conn :: "json list conn" where
  "sample_conn = \<lparr>cn_connection = ''c'', cn_generation = ''g'', cn_assembly = None, cn_views = []\<rparr>"

lemma sample_envelope_ok: "envelope_ok sample_envelope" "length (frame_text (''resource'', envelope_json sample_envelope)) \<le> RESOURCE_FRAME_BYTES"
  "length (stringify (envelope_json sample_envelope)) \<le> RESOURCE_ASSEMBLY_BYTES"
  by code_simp+

lemma stream_witness:
  "\<exists>ws. wires [Enveloped sample_envelope, Covering ''g'' [sample_envelope]] = Inr ws
    \<and> read_all (\<lambda>v j. Inr (v @ [j])) (\<lambda>g v. v) sample_conn [] [take 20 (concat (map frame_text ws)), drop 20 (concat (map frame_text ws))]
      = Inr (sample_conn\<lparr>cn_views := [envelope_json sample_envelope,
          coverage_value (coverage_json ''g'' [sample_envelope]) (J_obj (coverage_entry sample_envelope))]\<rparr>, [])"
proof -
  let ?sent = "[Enveloped sample_envelope, Covering ''g'' [sample_envelope]]"
  let ?ws = "[(''resource'', envelope_json sample_envelope), (''resource-coverage'', coverage_json ''g'' [sample_envelope])]"
  let ?text = "concat (map frame_text ?ws)"
  have w: "wires ?sent = Inr ?ws" using sample_envelope_ok by (simp add: resourceFrames_def Let_def)
  have entry: "entry_ok sample_envelope" by code_simp
  then have ok: "list_all (outgoing_ok (cn_generation sample_conn)) ?sent"
    using sample_envelope_ok(1) by (simp add: sample_conn_def plain_def byte_def)
  have "wire_ok (''resource-coverage'', coverage_json ''g'' [sample_envelope])"
    using entry by (intro coverage_wire_ok) (simp_all add: plain_def byte_def)
  then have "length ?text \<le> 1024 * 1024"
    using sample_envelope_ok(2) by (simp add: wire_ok_def RESOURCE_FRAME_BYTES_def)
  then have "\<not> list_ex large [take 20 ?text, drop 20 ?text]" by (auto simp: large_def RESOURCE_FRAME_BYTES_def min_def)
  moreover have "cn_assembly sample_conn = None" by (simp add: sample_conn_def)
  moreover have "concat [take 20 ?text, drop 20 ?text] = ?text" by (simp only: concat.simps append_Nil2 append_take_drop_id)
  moreover have "apply_values (\<lambda>v j. Inr (v @ [j])) (cn_views sample_conn) (concat (map applied ?sent))
      = (Inr [envelope_json sample_envelope, coverage_value (coverage_json ''g'' [sample_envelope]) (J_obj (coverage_entry sample_envelope))]
         :: err + json list)"
    by (simp add: sample_conn_def)
  ultimately have "read_all (\<lambda>v j. Inr (v @ [j])) (\<lambda>g v. v) sample_conn [] [take 20 ?text, drop 20 ?text]
      = Inr (sample_conn\<lparr>cn_views := [envelope_json sample_envelope,
          coverage_value (coverage_json ''g'' [sample_envelope]) (J_obj (coverage_entry sample_envelope))]\<rparr>, [])"
    using stream_is_delivered [OF w ok, where ap = "\<lambda>v j. Inr (v @ [j])" and opened = "\<lambda>g v. v" and pieces = "[take 20 ?text, drop 20 ?text]"]
    by (simp only: sum.case HOL.simp_thms)
  with w show ?thesis by blast
qed

end
