(* ===== verification/ConsoleViews.thy ===== *)
theory ConsoleViews
  imports Views Scalars
begin

section \<open>Resource views: what the console keeps\<close>

text \<open>
  \<open>apply\<close> of \<open>createResourceSession\<close> (\<open>web/src/state/poller.ts\<close>): the console's copy of a view, moved by one
  frame at a time, and the proof that it stays the copy of what the daemon streamed. Deadlines and timers
  are left out. What a frame makes the console do is a list of effects.
\<close>

subsection \<open>The console's copy\<close>

text \<open>\<open>Paged\<close> is a room whose history is still arriving (\<open>historyComplete: false\<close>).\<close>

datatype copy =
    Whole projection
  | Paged json json "entry list" "nat option"

record console_view =
  c_room :: bool
  c_epoch :: nat
  c_sequence :: nat
  c_revision :: nat
  c_completed :: nat
  c_baseline :: "string option"
  c_pending :: "copy option"
  c_ready :: bool
  c_failed :: bool
  c_source :: "source_state option"

definition register_console :: "bool \<Rightarrow> nat \<Rightarrow> console_view" where
  "register_console room epoch =
     \<lparr>c_room = room, c_epoch = epoch, c_sequence = 0, c_revision = 0, c_completed = 0, c_baseline = None,
      c_pending = None, c_ready = False, c_failed = False, c_source = None\<rparr>"

datatype effect =
    Deliver projection
  | Prune_rooms json
  | Authentication_required
  | Recover

definition invalid_source :: "console_view \<Rightarrow> source_state \<Rightarrow> bool" where
  "invalid_source u s \<longleftrightarrow> so_generation s = [] \<or> \<not> so_healthy s
     \<or> (case c_source u of None \<Rightarrow> False
        | Some t \<Rightarrow> so_generation t \<noteq> so_generation s \<or> so_position t > so_position s)"

definition take_source :: "console_view \<Rightarrow> source_state \<Rightarrow> err + console_view" where
  "take_source u s = (if invalid_source u s then Inl (Plain_error ''Invalid resource source'') else Inr (u\<lparr>c_source := Some s\<rparr>))"

definition binding_lost :: "string \<Rightarrow> console_view \<Rightarrow> envelope \<Rightarrow> bool" where
  "binding_lost generation u e \<longleftrightarrow> ev_generation e \<noteq> generation \<or> ev_epoch e \<noteq> c_epoch u
     \<or> ev_sequence e \<noteq> c_sequence u + 1 \<or> ev_revision e < c_revision u
     \<or> (c_baseline u \<noteq> None \<and> c_baseline u \<noteq> Some (ev_baseline e))"

definition whole :: "copy option \<Rightarrow> bool" where
  "whole c \<longleftrightarrow> (case c of Some (Paged r ps h a) \<Rightarrow> False | _ \<Rightarrow> True)"

fun consecutive :: "nat \<Rightarrow> entry list \<Rightarrow> bool" where
  "consecutive n [] = True"
| "consecutive n (e # es) \<longleftrightarrow> hr_seq e = n + 1 \<and> consecutive (n + 1) es"

text \<open>A source that comes with content is tested as the content completes, and taken afterwards.\<close>

definition tested :: "bool \<Rightarrow> console_view \<Rightarrow> source_state option \<Rightarrow> bool" where
  "tested newer u source \<longleftrightarrow> \<not> (newer \<and> (case source of None \<Rightarrow> False | Some s \<Rightarrow> invalid_source u s))"

text \<open>The last part of \<open>apply\<close>, for snapshots and updates.\<close>

definition certify :: "bool \<Rightarrow> envelope \<Rightarrow> console_view \<times> effect list \<Rightarrow> err + console_view \<times> effect list" where
  "certify newer e r =
     (let (u, fx) = r in
      if \<not> whole (c_pending u) then Inr r
      else (case ev_source e of
          Some s \<Rightarrow> if c_ready u \<and> newer then
              (case take_source u s of Inl x \<Rightarrow> Inl x | Inr u1 \<Rightarrow> Inr (u1\<lparr>c_completed := c_revision u\<rparr>, fx))
            else Inr (u\<lparr>c_completed := c_revision u\<rparr>, fx)
        | None \<Rightarrow> Inr (u\<lparr>c_completed := c_revision u\<rparr>, fx)))"

text \<open>A new room list makes the console forget the rooms it lacks.\<close>

fun pruned :: "bool \<Rightarrow> projection \<Rightarrow> effect list" where
  "pruned False (Listing (J_arr rows)) = [Prune_rooms (J_arr rows)]"
| "pruned _ _ = []"

definition accept_snapshot :: "bool \<Rightarrow> console_view \<Rightarrow> projection \<Rightarrow> source_state option \<Rightarrow> err + console_view \<times> effect list" where
  "accept_snapshot newer u p source =
     (if \<not> tested newer u source then Inl (Plain_error ''Invalid resource source'')
      else Inr (u\<lparr>c_pending := Some (Whole p)\<rparr>,
        pruned (c_room u) p @ (if c_ready u then [Deliver p] else [])))"

definition accept_update :: "console_view \<Rightarrow> json \<Rightarrow> json \<Rightarrow> nat option \<Rightarrow> err + console_view \<times> effect list" where
  "accept_update u room participants after =
     (case c_pending u of
        Some (Whole (Room_view r ps h a)) \<Rightarrow>
          if \<not> c_ready u \<or> after \<noteq> Some (last_seq h) then Inl (Plain_error ''Invalid history cursor'')
          else Inr (u\<lparr>c_pending := Some (Paged room participants h after)\<rparr>, [])
      | _ \<Rightarrow> Inl (Plain_error ''Invalid history cursor''))"

definition accept_page :: "bool \<Rightarrow> console_view \<Rightarrow> entry list \<Rightarrow> bool \<Rightarrow> source_state option \<Rightarrow> err + console_view \<times> effect list" where
  "accept_page newer u records complete source =
     (case c_pending u of
        Some (Paged room participants h after) \<Rightarrow>
          if after \<noteq> None \<and> \<not> consecutive (last_seq h) records then Inl (Plain_error ''Invalid history sequence'')
          else if complete \<and> \<not> tested newer u source then Inl (Plain_error ''Invalid resource source'')
          else if complete then
            (let p = Room_view room participants (h @ records) None in
             Inr (u\<lparr>c_pending := Some (Whole p)\<rparr>, if c_ready u then [Deliver p] else []))
          else Inr (u\<lparr>c_pending := Some (Paged room participants (h @ records) after)\<rparr>, [])
      | _ \<Rightarrow> Inl (Plain_error ''Invalid history unit''))"

definition accept_ready :: "console_view \<Rightarrow> string \<Rightarrow> source_state \<Rightarrow> err + console_view \<times> effect list" where
  "accept_ready u baseline source =
     (case c_pending u of
        None \<Rightarrow> Inl (Plain_error ''Invalid resource baseline'')
      | Some c \<Rightarrow>
          if c_baseline u \<noteq> Some baseline then Inl (Plain_error ''Invalid resource baseline'')
          else (case c of
              Paged r ps h a \<Rightarrow> Inl (Plain_error ''Incomplete resource history'')
            | Whole p \<Rightarrow> (case take_source u source of Inl x \<Rightarrow> Inl x
                | Inr u1 \<Rightarrow> Inr (u1\<lparr>c_ready := True, c_completed := c_revision u\<rparr>, [Deliver p]))))"

definition dispatch :: "bool \<Rightarrow> console_view \<Rightarrow> envelope \<Rightarrow> err + console_view \<times> effect list" where
  "dispatch newer u e =
     (let certified = (\<lambda>r. case r of Inl x \<Rightarrow> Inl x | Inr y \<Rightarrow> certify newer e y) in
      case ev_body e of
        Snapshot p \<Rightarrow> certified (accept_snapshot newer u p (ev_source e))
      | Snapshot_paged r ps \<Rightarrow> Inr (u\<lparr>c_pending := Some (Paged r ps [] None)\<rparr>, [])
      | Room_update r ps after \<Rightarrow> certified (accept_update u r ps after)
      | History_page rs complete \<Rightarrow> certified (accept_page newer u rs complete (ev_source e))
      | Ready b s \<Rightarrow> accept_ready u b s
      | Coverage s \<Rightarrow> if \<not> c_ready u then Inl (Plain_error ''Resource baseline missing'')
          else (case take_source u s of Inl x \<Rightarrow> Inl x | Inr u1 \<Rightarrow> Inr (u1, []))
      | Health reason \<Rightarrow> if reason = ''auth_required'' then Inr (u, [Authentication_required])
          else Inl (Plain_error ''Resource recovery required'')
      | Resync reason \<Rightarrow> if reason = ''capacity'' \<or> reason = ''projection_unavailable''
          then Inr (u\<lparr>c_failed := True\<rparr>, [Recover]) else Inl (Plain_error ''Resource recovery required''))"

definition apply_bound :: "console_view \<Rightarrow> envelope \<Rightarrow> err + console_view \<times> effect list" where
  "apply_bound u e = dispatch (ev_revision e > c_completed u)
     (u\<lparr>c_sequence := ev_sequence e, c_revision := ev_revision e, c_baseline := Some (ev_baseline e)\<rparr>) e"

text \<open>A frame of an earlier registration of the view is dropped.\<close>

definition apply_frame :: "string \<Rightarrow> console_view \<Rightarrow> envelope \<Rightarrow> err + console_view \<times> effect list" where
  "apply_frame generation u e =
     (if ev_epoch e < c_epoch u then Inr (u, [])
      else if binding_lost generation u e then Inl (Plain_error ''Resource binding lost'')
      else apply_bound u e)"

fun apply_all :: "string \<Rightarrow> console_view \<Rightarrow> envelope list \<Rightarrow> err + console_view \<times> effect list" where
  "apply_all generation u [] = Inr (u, [])"
| "apply_all generation u (e # es) =
     (case apply_frame generation u e of Inl x \<Rightarrow> Inl x
      | Inr (u1, fx) \<Rightarrow> (case apply_all generation u1 es of Inl x \<Rightarrow> Inl x | Inr (u2, gx) \<Rightarrow> Inr (u2, fx @ gx)))"

subsection \<open>One frame\<close>

definition bound :: "view \<Rightarrow> console_view \<Rightarrow> bool" where
  "bound v u \<longleftrightarrow> c_epoch u = v_epoch v \<and> c_sequence u = v_sequence v \<and> c_revision u \<le> v_revision v
     \<and> c_completed u \<le> c_revision u \<and> (c_baseline u = None \<or> c_baseline u = Some (v_baseline v))"

text \<open>The copy after the numbers of a frame have been taken over.\<close>

definition renumbered :: "view \<Rightarrow> console_view \<Rightarrow> console_view" where
  "renumbered v u = u\<lparr>c_sequence := v_sequence v + 1, c_revision := v_revision v, c_baseline := Some (v_baseline v)\<rparr>"

lemma emit_bound: "bound v u \<Longrightarrow> bound (snd (emit pend b s v)) (renumbered v u)"
  by (simp add: bound_def renumbered_def emit_def)

lemma apply_emitted:
  assumes "bound v u"
  shows "apply_frame (v_generation v) u (fst (emit pend b s v)) = apply_bound u (fst (emit pend b s v))"
  using assms by (auto simp: apply_frame_def binding_lost_def bound_def emit_def)

lemma renumbered_simps [simp]:
  "c_pending (renumbered v u) = c_pending u" "c_ready (renumbered v u) = c_ready u" "c_source (renumbered v u) = c_source u"
  "c_revision (renumbered v u) = v_revision v" "c_completed (renumbered v u) = c_completed u"
  "c_baseline (renumbered v u) = Some (v_baseline v)" "c_failed (renumbered v u) = c_failed u" "c_room (renumbered v u) = c_room u"
  "invalid_source (renumbered v u) src = invalid_source u src"
  by (simp_all add: renumbered_def invalid_source_def)

lemma emit_view [simp]:
  "v_generation (snd (emit pend b s v)) = v_generation v" "v_revision (snd (emit pend b s v)) = v_revision v"
  "v_payload (snd (emit pend b s v)) = v_payload v" "v_historyAfter (snd (emit pend b s v)) = v_historyAfter v"
  "v_ready (snd (emit pend b s v)) = v_ready v" "v_baseline (snd (emit pend b s v)) = v_baseline v"
  "v_failed (snd (emit pend b s v)) = v_failed v"
  by (simp_all add: emit_def)

text \<open>Content that completes a copy is certified with its source, or just marked complete.\<close>

definition completed :: "bool \<Rightarrow> source_state option \<Rightarrow> console_view \<Rightarrow> console_view" where
  "completed newer source u =
     (case source of Some s \<Rightarrow> if c_ready u \<and> newer then u\<lparr>c_source := Some s, c_completed := c_revision u\<rparr>
        else u\<lparr>c_completed := c_revision u\<rparr>
      | None \<Rightarrow> u\<lparr>c_completed := c_revision u\<rparr>)"

lemma invalid_pending [simp]: "invalid_source (u\<lparr>c_pending := x\<rparr>) s = invalid_source u s"
  by (simp add: invalid_source_def)

lemma certify_whole:
  assumes "whole (c_pending u)" and "\<And>s. ev_source e = Some s \<Longrightarrow> \<not> invalid_source u s"
  shows "certify newer e (u, fx) = Inr (completed newer (ev_source e) u, fx)"
  using assms by (auto simp: certify_def completed_def take_source_def split: option.splits)

lemma emit_fields [simp]:
  "ev_body (fst (emit pend b s v)) = b" "ev_source (fst (emit pend b s v)) = (if pend then None else s)"
  by (simp_all add: emit_def)

lemma apply_frame_emit:
  assumes "bound v u"
  shows "apply_frame (v_generation v) u (fst (emit pend b s v))
    = dispatch (v_revision v > c_completed u) (renumbered v u) (fst (emit pend b s v))"
  unfolding apply_emitted [OF assms] by (simp add: apply_bound_def emit_def renumbered_def)

lemma apply_snapshot:
  assumes "bound v u" and "\<And>x. s = Some x \<Longrightarrow> \<not> invalid_source u x"
  shows "apply_frame (v_generation v) u (fst (emit pend (Snapshot p) s v))
    = Inr (completed (v_revision v > c_completed u) (if pend then None else s) ((renumbered v u)\<lparr>c_pending := Some (Whole p)\<rparr>),
        pruned (c_room u) p @ (if c_ready u then [Deliver p] else []))"
proof -
  let ?e = "fst (emit pend (Snapshot p) s v)"
  have "tested newer (renumbered v u) (ev_source ?e)" for newer
    using assms(2) by (auto simp: tested_def split: option.splits)
  moreover have "certify newer ?e ((renumbered v u)\<lparr>c_pending := Some (Whole p)\<rparr>, fx)
      = Inr (completed newer (if pend then None else s) ((renumbered v u)\<lparr>c_pending := Some (Whole p)\<rparr>), fx)" for newer fx
    using certify_whole [of "(renumbered v u)\<lparr>c_pending := Some (Whole p)\<rparr>" ?e] assms(2) by (cases pend) (simp_all add: whole_def)
  ultimately show ?thesis
    by (simp add: apply_frame_emit [OF assms(1)] dispatch_def accept_snapshot_def)
qed

lemma apply_page:
  assumes "bound v u" and "\<And>x. s = Some x \<Longrightarrow> \<not> invalid_source u x"
    and "c_pending u = Some (Paged r ps h after)" and "after = None \<or> consecutive (last_seq h) rs"
  shows "apply_frame (v_generation v) u (fst (emit pend (History_page rs complete) s v))
    = Inr (if complete then (completed (v_revision v > c_completed u) (if pend then None else s)
               ((renumbered v u)\<lparr>c_pending := Some (Whole (Room_view r ps (h @ rs) None))\<rparr>),
             if c_ready u then [Deliver (Room_view r ps (h @ rs) None)] else [])
           else ((renumbered v u)\<lparr>c_pending := Some (Paged r ps (h @ rs) after)\<rparr>, []))"
proof -
  let ?e = "fst (emit pend (History_page rs complete) s v)"
  let ?u = "(renumbered v u)\<lparr>c_pending := Some (Whole (Room_view r ps (h @ rs) None))\<rparr>"
  have "tested newer (renumbered v u) (ev_source ?e)" for newer
    using assms(2) by (auto simp: tested_def split: option.splits)
  moreover have "certify newer ?e (?u, fx) = Inr (completed newer (if pend then None else s) ?u, fx)" for newer fx
    using certify_whole [of ?u ?e] assms(2) by (cases pend) (simp_all add: whole_def)
  moreover have "certify newer ?e ((renumbered v u)\<lparr>c_pending := Some (Paged r ps (h @ rs) after)\<rparr>, fx)
      = Inr ((renumbered v u)\<lparr>c_pending := Some (Paged r ps (h @ rs) after)\<rparr>, fx)" for newer fx
    by (simp add: certify_def whole_def)
  ultimately show ?thesis
    using assms(3,4) by (auto simp: apply_frame_emit [OF assms(1)] dispatch_def accept_page_def Let_def)
qed

lemma apply_update:
  assumes "bound v u" and "c_pending u = Some (Whole (Room_view r0 ps0 h a))" and "c_ready u"
  shows "apply_frame (v_generation v) u (fst (emit pend (Room_update r ps (Some (last_seq h))) s v))
    = Inr ((renumbered v u)\<lparr>c_pending := Some (Paged r ps h (Some (last_seq h)))\<rparr>, [])"
  using assms(2,3) by (simp add: apply_frame_emit [OF assms(1)] dispatch_def accept_update_def certify_def whole_def Let_def)

lemma apply_paged:
  assumes "bound v u"
  shows "apply_frame (v_generation v) u (fst (emit pend (Snapshot_paged r ps) s v))
    = Inr ((renumbered v u)\<lparr>c_pending := Some (Paged r ps [] None)\<rparr>, [])"
  by (simp add: apply_frame_emit [OF assms] dispatch_def Let_def)



subsection \<open>The frames of a refresh_view\<close>

lemma completed_simps [simp]:
  "c_pending (completed newer s u) = c_pending u" "c_ready (completed newer s u) = c_ready u"
  "c_revision (completed newer s u) = c_revision u" "c_completed (completed newer s u) = c_revision u"
  "c_sequence (completed newer s u) = c_sequence u" "c_epoch (completed newer s u) = c_epoch u"
  "c_baseline (completed newer s u) = c_baseline u" "c_failed (completed newer s u) = c_failed u"
  "c_room (completed newer s u) = c_room u"
  by (simp_all add: completed_def split: option.split)

definition healthy :: "source_state \<Rightarrow> bool" where
  "healthy s \<longleftrightarrow> so_generation s \<noteq> [] \<and> so_healthy s"

definition up_to :: "source_state \<Rightarrow> console_view \<Rightarrow> bool" where
  "up_to s u \<longleftrightarrow> (case c_source u of None \<Rightarrow> True
     | Some t \<Rightarrow> so_generation t = so_generation s \<and> so_position t \<le> so_position s)"

lemma up_to_valid: "healthy s \<Longrightarrow> up_to s u \<Longrightarrow> \<not> invalid_source u s"
  by (cases "c_source u") (simp_all add: invalid_source_def healthy_def up_to_def)

lemma up_to_completed: "up_to s u \<Longrightarrow> x = None \<or> x = Some s \<Longrightarrow> up_to s (completed newer x u)"
  by (cases x) (simp_all add: up_to_def completed_def)


lemma up_to_fields [simp]:
  "up_to s (renumbered v u) = up_to s u" "up_to s (u\<lparr>c_pending := x\<rparr>) = up_to s u"
  by (simp_all add: up_to_def)

lemma bound_numbered:
  "bound v u \<Longrightarrow> bound (snd (emit pend b s v)) ((renumbered v u)\<lparr>c_pending := x\<rparr>)"
  "bound v u \<Longrightarrow> bound (snd (emit pend b s v)) (completed newer y ((renumbered v u)\<lparr>c_pending := x\<rparr>))"
  by (auto simp: bound_def renumbered_def emit_def)

lemma apply_all_append:
  "apply_all g u (es @ fs) = (case apply_all g u es of Inl x \<Rightarrow> Inl x
     | Inr (u1, fx) \<Rightarrow> (case apply_all g u1 fs of Inl x \<Rightarrow> Inl x | Inr (u2, gx) \<Rightarrow> Inr (u2, fx @ gx)))"
  by (induction es arbitrary: u) (auto split: sum.splits)

lemma consecutive_append: "consecutive n (xs @ ys) \<longleftrightarrow> consecutive n xs \<and> consecutive (n + length xs) ys"
  by (induction xs arbitrary: n) auto

lemma consecutive_last: "consecutive n xs \<Longrightarrow> xs \<noteq> [] \<Longrightarrow> hr_seq (last xs) = n + length xs"
  by (induction xs arbitrary: n) auto

lemma last_seq_append: "consecutive (last_seq h) xs \<Longrightarrow> last_seq (h @ xs) = last_seq h + length xs"
  using consecutive_last [of "last_seq h" xs] by (cases "xs = []") (simp_all add: last_seq_def)

text \<open>What the frames of some content leave behind: the copy \<open>p\<close> when all were sent; in any case a copy
  bound to the view, and no error.\<close>

definition accepted :: "source_state \<Rightarrow> view \<Rightarrow> console_view \<Rightarrow> envelope list \<times> view \<times> bool \<Rightarrow> projection \<Rightarrow> bool" where
  "accepted s v u r p \<longleftrightarrow> (case r of (es, v2, ok) \<Rightarrow>
     \<exists>u2 fx. apply_all (v_generation v) u es = Inr (u2, fx) \<and> bound v2 u2 \<and> up_to s u2 \<and> c_ready u2 = c_ready u
       \<and> (ok \<longrightarrow> c_pending u2 = Some (Whole p) \<and> c_completed u2 = c_revision u2 \<and> c_revision u2 = v_revision v
            \<and> (c_ready u \<longrightarrow> fx \<noteq> [] \<and> last fx = Deliver p)))"

lemma accepted_none: "bound v u \<Longrightarrow> up_to s u \<Longrightarrow> accepted s v u ([], v, False) p"
  by (simp add: accepted_def)

lemma accepted_cons:
  assumes "apply_frame (v_generation v) u (fst (emit pend b x v)) = Inr (u1, fx)" and "c_ready u1 = c_ready u"
    and "accepted s (snd (emit pend b x v)) u1 r p"
  shows "accepted s v u (case r of (es, v2, ok) \<Rightarrow> (fst (emit pend b x v) # es, v2, ok)) p"
proof -
  obtain es v2 ok where r: "r = (es, v2, ok)" by (cases r)
  obtain u2 gx where "apply_all (v_generation v) u1 es = Inr (u2, gx)" "bound v2 u2" "up_to s u2" "c_ready u2 = c_ready u"
    "ok \<longrightarrow> c_pending u2 = Some (Whole p) \<and> c_completed u2 = c_revision u2 \<and> c_revision u2 = v_revision v
       \<and> (c_ready u \<longrightarrow> gx \<noteq> [] \<and> last gx = Deliver p)"
    using assms(2,3) unfolding accepted_def r by auto
  with assms(1) show ?thesis unfolding accepted_def r by auto
qed

lemma accepted_step:
  assumes "bound v u" and "up_to s u"
    and "apply_frame (v_generation v) u (fst (emit (pending \<noteq> [] \<and> hd pending) b x v)) = Inr (u1, fx)"
    and "c_ready u1 = c_ready u"
    and "accepted s (snd (emit (pending \<noteq> [] \<and> hd pending) b x v)) u1
      (emit_all (tl pending) bs (snd (emit (pending \<noteq> [] \<and> hd pending) b x v))) p"
  shows "accepted s v u (emit_all pending ((b, x) # bs) v) p"
  using accepted_cons [OF assms(3,4,5)] accepted_none [OF assms(1,2)] by (simp add: Let_def split_beta)

lemma accepted_last:
  assumes "apply_frame (v_generation v) u (fst (emit (pending \<noteq> [] \<and> hd pending) b x v)) = Inr (u1, fx)"
    and "bound v u" "up_to s u" and "bound (snd (emit (pending \<noteq> [] \<and> hd pending) b x v)) u1" "up_to s u1" "c_ready u1 = c_ready u"
    and "c_pending u1 = Some (Whole p)" "c_completed u1 = c_revision u1" "c_revision u1 = v_revision v"
    and "c_ready u \<Longrightarrow> fx \<noteq> [] \<and> last fx = Deliver p"
  shows "accepted s v u (emit_all pending [(b, x)] v) p"
  using assms accepted_none [OF assms(2,3)] by (auto simp: accepted_def Let_def split_beta)

lemma pages_accepted:
  assumes "bound v u" and "up_to s u" and "healthy s" and "c_pending u = Some (Paged r ps h after)"
    and "after = None \<or> consecutive (last_seq h) (concat pages)" and "pages \<noteq> []"
  shows "accepted s v u (emit_all pending (page_bodies pages s) v) (Room_view r ps (h @ concat pages) None)"
  using assms
proof (induction pages s arbitrary: u v h pending rule: page_bodies.induct)
  case (2 rs s)
  let ?pend = "pending \<noteq> [] \<and> hd pending"
  have valid: "\<not> invalid_source u s" using 2 by (simp add: up_to_valid)
  then have "apply_frame (v_generation v) u (fst (emit ?pend (History_page rs True) (Some s) v))
    = Inr (completed (v_revision v > c_completed u) (if ?pend then None else Some s)
        ((renumbered v u)\<lparr>c_pending := Some (Whole (Room_view r ps (h @ rs) None))\<rparr>),
      if c_ready u then [Deliver (Room_view r ps (h @ rs) None)] else [])"
    using apply_page [of v u "Some s" r ps h after rs ?pend True] 2 by auto
  from accepted_last [OF this] 2 show ?case
    by (simp add: bound_numbered up_to_completed)
next
  case (3 rs q qs s)
  let ?pend = "pending \<noteq> [] \<and> hd pending"
  let ?u = "(renumbered v u)\<lparr>c_pending := Some (Paged r ps (h @ rs) after)\<rparr>"
  have seq: "after = None \<or> consecutive (last_seq h) rs \<and> consecutive (last_seq (h @ rs)) (concat (q # qs))"
    using 3 last_seq_append [of h rs] by (auto simp: consecutive_append)
  have "apply_frame (v_generation v) u (fst (emit ?pend (History_page rs False) None v)) = Inr (?u, [])"
    using apply_page [of v u None r ps h after rs ?pend False] 3 seq by auto
  moreover have "accepted s (snd (emit ?pend (History_page rs False) None v)) ?u
      (emit_all (tl pending) (page_bodies (q # qs) s) (snd (emit ?pend (History_page rs False) None v)))
      (Room_view r ps ((h @ rs) @ concat (q # qs)) None)"
    using 3 seq by (intro "3.IH") (auto simp: bound_numbered)
  ultimately have "accepted s v u (emit_all pending ((History_page rs False, None) # page_bodies (q # qs) s) v)
      (Room_view r ps ((h @ rs) @ concat (q # qs)) None)"
    using 3 by (intro accepted_step) auto
  then show ?case by simp
qed simp


subsection \<open>A refresh_view\<close>

fun copy_of :: "resource \<Rightarrow> projection" where
  "copy_of Gone = Nothing"
| "copy_of (Rooms v) = Listing v"
| "copy_of (Room r ps h) = Room_view r ps h None"


text \<open>The console is in step with the view when its copy is the last payload streamed, with the history \<open>h\<close>.\<close>

definition in_step :: "view \<Rightarrow> entry list \<Rightarrow> console_view \<Rightarrow> bool" where
  "in_step v h u \<longleftrightarrow> bound v u \<and> c_ready u = v_ready v
     \<and> (case v_payload v of
          None \<Rightarrow> v_historyAfter v = None \<and> \<not> v_ready v
        | Some (Room_view r ps hs after) \<Rightarrow> v_ready v \<and> hs = [] \<and> after = None
            \<and> c_pending u = Some (Whole (Room_view r ps h None)) \<and> v_historyAfter v = Some (last_seq h)
        | Some p \<Rightarrow> v_ready v \<and> c_pending u = Some (Whole p))"

text \<open>How a resource may have changed since the view streamed it with history \<open>h\<close>: a room's log has only
  grown, a room that is gone stays gone.\<close>

fun continues :: "projection option \<Rightarrow> entry list \<Rightarrow> resource \<Rightarrow> bool" where
  "continues None h (Room r ps h') = consecutive 0 h'"
| "continues (Some (Room_view r0 ps0 hs a)) h (Room r ps h') = (consecutive 0 h' \<and> (\<exists>new. h' = h @ new))"
| "continues None h R = True"
| "continues (Some (Room_view r0 ps0 hs a)) h Gone = True"
| "continues (Some Nothing) h Gone = True"
| "continues (Some (Listing v)) h (Rooms w) = True"
| "continues _ h R = False"





lemma consecutive_bounds: "consecutive n h \<Longrightarrow> e \<in> set h \<Longrightarrow> n < hr_seq e \<and> hr_seq e \<le> n + length h"
  by (induction h arbitrary: n) fastforce+

lemma consecutive_last_seq: "consecutive 0 h \<Longrightarrow> last_seq h = length h"
  using consecutive_last [of 0 h] by (cases "h = []") (simp_all add: last_seq_def)

lemma new_records:
  assumes "consecutive 0 (h @ new)"
  shows "filter (\<lambda>e. last_seq h < hr_seq e) (h @ new) = new" "consecutive (last_seq h) new"
proof -
  from assms have c: "consecutive 0 h" "consecutive (length h) new" by (simp_all add: consecutive_append)
  have l: "last_seq h = length h" using c(1) by (rule consecutive_last_seq)
  have "filter (\<lambda>e. length h < hr_seq e) h = []" using consecutive_bounds [OF c(1)] by (fastforce simp: filter_empty_conv)
  moreover have "filter (\<lambda>e. length h < hr_seq e) new = new" using consecutive_bounds [OF c(2)] by (simp add: filter_id_conv)
  ultimately show "filter (\<lambda>e. last_seq h < hr_seq e) (h @ new) = new" by (simp add: l)
  show "consecutive (last_seq h) new" using c(2) by (simp add: l)
qed

lemma snapshot_accepted:
  assumes "bound v u" and "up_to s u" and "healthy s"
  shows "accepted s v u (emit_all pending [(Snapshot p, Some s)] v) p"
proof -
  let ?pend = "pending \<noteq> [] \<and> hd pending"
  have "\<not> invalid_source u s" using assms by (simp add: up_to_valid)
  then have "apply_frame (v_generation v) u (fst (emit ?pend (Snapshot p) (Some s) v))
    = Inr (completed (v_revision v > c_completed u) (if ?pend then None else Some s) ((renumbered v u)\<lparr>c_pending := Some (Whole p)\<rparr>),
        pruned (c_room u) p @ (if c_ready u then [Deliver p] else []))"
    using apply_snapshot [of v u "Some s" ?pend p] assms by simp
  from accepted_last [OF this] assms show ?thesis by (simp add: bound_numbered up_to_completed)
qed

lemma bound_revision: "bound v u \<Longrightarrow> bound (v\<lparr>v_revision := v_revision v + 1\<rparr>) u"
  by (simp add: bound_def)

lemma paged_accepted:
  assumes "bound v u" and "up_to s u" and "healthy s"
    and "apply_frame (v_generation v) u (fst (emit (pending \<noteq> [] \<and> hd pending) b None v))
      = Inr ((renumbered v u)\<lparr>c_pending := Some (Paged r ps h after)\<rparr>, [])"
    and "after = None \<or> consecutive (last_seq h) new"
  shows "accepted s v u (emit_all pending ((b, None) # page_bodies (history_pages [] 0 new) s) v) (Room_view r ps (h @ new) None)"
proof (rule accepted_step [OF assms(1,2,4)])
  have "concat (history_pages [] 0 new) = new" by (simp add: concat_history_pages)
  then show "accepted s (snd (emit (pending \<noteq> [] \<and> hd pending) b None v)) ((renumbered v u)\<lparr>c_pending := Some (Paged r ps h after)\<rparr>)
      (emit_all (tl pending) (page_bodies (history_pages [] 0 new) s) (snd (emit (pending \<noteq> [] \<and> hd pending) b None v)))
      (Room_view r ps (h @ new) None)"
    using pages_accepted [of _ "(renumbered v u)\<lparr>c_pending := Some (Paged r ps h after)\<rparr>" s r ps h after "history_pages [] 0 new"] assms
    by (simp add: bound_numbered)
qed simp

lemma content_accepted:
  assumes "in_step v h u" and "continues (v_payload v) h R" and "up_to s u" and "healthy s"
  defines "w \<equiv> v\<lparr>v_revision := v_revision v + 1\<rparr>"
  shows "accepted s w u (emit_all pending (content v (project R (v_historyAfter v)) s) w) (copy_of R)"
proof -
  have b: "bound w u" using assms(1) bound_revision unfolding in_step_def w_def by blast
  show ?thesis
  proof (cases R)
    case (Room r ps h')
    show ?thesis
    proof (cases "v_payload v")
      case None
      then have after: "v_historyAfter v = None" using assms(1) by (simp add: in_step_def)
      show ?thesis
        using snapshot_accepted [OF b assms(3,4)] paged_accepted [OF b assms(3,4) apply_paged [OF b],
            where pending = pending and r = r and ps = ps and new = h'] Room after
        by (simp add: content_def incremental_def)
    next
      case (Some p0)
      with assms(2) Room obtain r0 ps0 hs a new where p0: "p0 = Room_view r0 ps0 hs a" and new: "h' = h @ new" "consecutive 0 (h @ new)"
        by (cases p0) auto
      with assms(1) Some have after: "v_historyAfter v = Some (last_seq h)"
        and c: "c_pending u = Some (Whole (Room_view r0 ps0 h None))" "c_ready u" by (auto simp: in_step_def)
      have p: "project R (v_historyAfter v) = Room_view r ps new (Some (last_seq h))"
        using new_records(1) [OF new(2)] Room new(1) after by simp
      then have content: "content v (project R (v_historyAfter v)) s
          = (Room_update r ps (Some (last_seq h)), None) # page_bodies (history_pages [] 0 new) s"
        using Some by (simp add: content_def incremental_def)
      show ?thesis
        unfolding content unfolding Room new(1) copy_of.simps
        by (rule paged_accepted [OF b assms(3,4) apply_update [OF b c]]) (simp add: new_records(2) [OF new(2)])
    qed
  qed (use snapshot_accepted [OF b assms(3,4)] in \<open>simp_all add: content_def\<close>)
qed


lemma emit_all_view:
  "emit_all pending bs v = (es, v2, ok) \<Longrightarrow> v_generation v2 = v_generation v \<and> v_baseline v2 = v_baseline v
     \<and> v_epoch v2 = v_epoch v \<and> v_revision v2 = v_revision v \<and> v_payload v2 = v_payload v
     \<and> v_historyAfter v2 = v_historyAfter v \<and> v_ready v2 = v_ready v \<and> v_failed v2 = v_failed v \<and> v_covered v2 = v_covered v"
proof (induction bs arbitrary: pending v es v2 ok)
  case (Cons b bs)
  obtain x y where b: "b = (x, y)" by (cases b)
  obtain fs w k where r: "emit_all (tl pending) bs (snd (emit (pending \<noteq> [] \<and> hd pending) x y v)) = (fs, w, k)"
    by (cases "emit_all (tl pending) bs (snd (emit (pending \<noteq> [] \<and> hd pending) x y v))")
  have "v_covered (snd (emit p x y v)) = v_covered v" "v_epoch (snd (emit p x y v)) = v_epoch v" for p by (simp_all add: emit_def)
  then show ?case using Cons.prems Cons.IH [OF r] r unfolding b by (auto simp: Let_def split_beta split: if_splits)
qed simp





definition sources_ok :: "source_state \<Rightarrow> source_state \<Rightarrow> bool" where
  "sources_ok s t \<longleftrightarrow> healthy t \<and> so_generation s = so_generation t \<and> so_position s \<le> so_position t"

lemma settle_fields [simp]:
  "v_generation (settle_view p v) = v_generation v" "v_epoch (settle_view p v) = v_epoch v" "v_sequence (settle_view p v) = v_sequence v"
  "v_revision (settle_view p v) = v_revision v" "v_baseline (settle_view p v) = v_baseline v" "v_ready (settle_view p v) = v_ready v"
  "v_failed (settle_view p v) = v_failed v"
  by (cases p; simp add: settle_view_def)+


lemma in_step_covered [simp]: "in_step (v\<lparr>v_covered := x\<rparr>) h u = in_step v h u"
proof (cases "v_payload v")
  case (Some p)
  then show ?thesis by (cases p) (simp_all add: in_step_def bound_def)
qed (simp add: in_step_def bound_def)




subsection \<open>A session\<close>













lemma sources_ok_trans: "sources_ok s t \<Longrightarrow> sources_ok t r \<Longrightarrow> sources_ok s r"
  by (auto simp: sources_ok_def)













subsection \<open>Witness\<close>

definition sample_source :: "nat \<Rightarrow> source_state" where
  "sample_source n = \<lparr>so_generation = ''g'', so_position = n, so_healthy = True\<rparr>"

definition sample_entry :: "nat \<Rightarrow> entry" where
  "sample_entry n = \<lparr>hr_seq = n, hr_json = J_num (int n)\<rparr>"

definition sample_view_room :: "entry list \<Rightarrow> resource" where
  "sample_view_room h = Room (J_str ''room'') (J_arr []) h"




subsection \<open>An interrupted refresh_view\<close>

text \<open>Once the content of a room is flushed, a refresh that finds intake pending ends before it records the
  cursor it streamed.\<close>

lemma refresh_interrupted:
  assumes "refresh_view pending True p s t v = (es, w)" and "\<not> v_failed w" and "changed v p" and "\<not> cursor_lost v p"
  shows "emit_all pending (content v p s) (v\<lparr>v_revision := v_revision v + 1\<rparr>) = (es, w, True)"
proof -
  obtain cs v1 ok where "emit_all pending (content v p s) (v\<lparr>v_revision := v_revision v + 1\<rparr>) = (cs, v1, ok)"
    by (cases "emit_all pending (content v p s) (v\<lparr>v_revision := v_revision v + 1\<rparr>)")
  with assms show ?thesis by (auto simp: refresh_view_def resync_def emit_def split: if_splits)
qed

lemma update_refused:
  assumes "bound v u" and "c_pending u = Some (Whole (Room_view r0 ps0 h a))" and "after \<noteq> Some (last_seq h)"
  shows "apply_frame (v_generation v) u (fst (emit pend (Room_update r ps after) s v)) = Inl (Plain_error ''Invalid history cursor'')"
  using assms(2,3) by (simp add: apply_frame_emit [OF assms(1)] dispatch_def accept_update_def Let_def)

text \<open>A refresh of a room with new records that is interrupted after its content was flushed makes the
  console refuse the next refresh that has anything to stream.\<close>

theorem interrupted_refresh_breaks_view:
  assumes "in_step v h u" and "v_ready v" and "consecutive 0 (h @ new @ later)" and "new \<noteq> []"
    and "up_to s u" and "sources_ok s s"
    and "refresh_view pending True (project (Room r ps (h @ new)) (v_historyAfter v)) s t v = (es, w)" and "\<not> v_failed w"
    and "refresh_view pending' interrupted (project (Room r' ps' (h @ new @ later)) (v_historyAfter w)) s' t' w = (fs, z)" and "\<not> v_failed z"
    and "v_payload v = Some (Room_view r0 ps0 [] None)"
  shows "es \<noteq> [] \<and> (\<exists>u1 fx. apply_all (v_generation v) u es = Inr (u1, fx))
    \<and> apply_all (v_generation v) u (es @ fs) = Inl (Plain_error ''Invalid history cursor'')"
proof -
  let ?w = "v\<lparr>v_revision := v_revision v + 1\<rparr>"
  from assms(1,11) have after: "v_historyAfter v = Some (last_seq h)" by (simp add: in_step_def)
  have c: "consecutive 0 (h @ new)" "consecutive 0 (h @ (new @ later))" using assms(3) by (simp_all add: consecutive_append)
  have p: "project (Room r ps (h @ new)) (v_historyAfter v) = Room_view r ps new (Some (last_seq h))"
    using new_records(1) [OF c(1)] after by simp
  have q: "project (Room r' ps' (h @ new @ later)) (Some (last_seq h)) = Room_view r' ps' (new @ later) (Some (last_seq h))"
    using new_records(1) [OF c(2)] by simp
  have ch: "changed v (Room_view r ps new (Some (last_seq h)))" "\<not> cursor_lost v (Room_view r ps new (Some (last_seq h)))"
    using assms(4,11) after by (simp_all add: changed_def history_changed_def incremental_def cursor_lost_def)
  from refresh_interrupted [OF assms(7,8)] ch have e: "emit_all pending (content v (project (Room r ps (h @ new)) (v_historyAfter v)) s) ?w = (es, w, True)"
    unfolding p by blast
  have cont: "continues (v_payload v) h (Room r ps (h @ new))" using assms(11) c(1) by simp
  from content_accepted [OF assms(1) cont assms(5), of pending] assms(6) e obtain u1 fx where
    a: "apply_all (v_generation v) u es = Inr (u1, fx)" "bound w u1"
    and pend: "c_pending u1 = Some (Whole (Room_view r ps (h @ new) None))"
    by (auto simp: accepted_def sources_ok_def)
  from emit_all_view [OF e] have w: "v_generation w = v_generation v" "v_payload w = v_payload v" "v_historyAfter w = Some (last_seq h)"
    using after by auto
  have last: "last_seq (h @ new) \<noteq> last_seq h"
    using last_seq_append new_records(2) [OF c(1)] assms(4) by simp
  have ch': "changed w (Room_view r' ps' (new @ later) (Some (last_seq h)))" "\<not> cursor_lost w (Room_view r' ps' (new @ later) (Some (last_seq h)))"
    using assms(4,11) w by (simp_all add: changed_def history_changed_def incremental_def cursor_lost_def)
  let ?x = "w\<lparr>v_revision := v_revision w + 1\<rparr>"
  have inc: "incremental w (Room_view r' ps' (new @ later) (Some (last_seq h)))" using w assms(11) by (simp add: incremental_def)
  obtain gs where "fs = fst (emit (pending' \<noteq> [] \<and> hd pending') (Room_update r' ps' (Some (last_seq h))) None ?x) # gs"
    using assms(9,10) ch' inc unfolding w(3) q refresh_view_def content_def
    by (auto simp: Let_def split_beta resync_def split: if_splits)
  moreover have "apply_frame (v_generation ?x) u1 (fst (emit (pending' \<noteq> [] \<and> hd pending') (Room_update r' ps' (Some (last_seq h))) None ?x))
      = Inl (Plain_error ''Invalid history cursor'')"
    using update_refused [OF bound_revision [OF a(2)], of r ps "h @ new" None "Some (last_seq h)"] pend last by simp
  ultimately have "apply_all (v_generation v) u1 fs = Inl (Plain_error ''Invalid history cursor'')" using w(1) by simp
  moreover have "es \<noteq> []" using e by (auto simp: p content_def incremental_def assms(11) Let_def split_beta split: if_splits)
  ultimately show ?thesis using a(1) by (simp add: apply_all_append)
qed

definition sample_view :: view where
  "sample_view = (settle_view (Room_view (J_str ''room'') (J_arr []) [sample_entry 1] None) (register_view ''g'' ''v'' 1 ''b''))
     \<lparr>v_revision := 1, v_sequence := 2, v_covered := Some (sample_source 1), v_ready := True\<rparr>"

definition sample_console :: console_view where
  "sample_console = (register_console True 1)\<lparr>c_sequence := 2, c_revision := 1, c_completed := 1, c_baseline := Some ''b'',
     c_pending := Some (Whole (Room_view (J_str ''room'') (J_arr []) [sample_entry 1] None)), c_ready := True,
     c_source := Some (sample_source 1)\<rparr>"

definition sample_refresh :: "bool \<Rightarrow> nat \<Rightarrow> view \<Rightarrow> envelope list \<times> view" where
  "sample_refresh interrupted n v = refresh_view [] interrupted
     (project (sample_view_room [sample_entry 1, sample_entry 2]) (v_historyAfter v)) (sample_source n) (sample_source n) v"

lemma sample_refreshes:
  "\<not> v_failed (snd (sample_refresh True 2 sample_view))
    \<and> \<not> v_failed (snd (sample_refresh False 3 (snd (sample_refresh True 2 sample_view))))"
  by code_simp

lemma interrupted_refresh_witness:
  "apply_all ''g'' sample_console (fst (sample_refresh True 2 sample_view)
      @ fst (sample_refresh False 3 (snd (sample_refresh True 2 sample_view)))) = Inl (Plain_error ''Invalid history cursor'')"
proof -
  have i: "in_step sample_view [sample_entry 1] sample_console" "v_ready sample_view" "up_to (sample_source 2) sample_console"
    "v_payload sample_view = Some (Room_view (J_str ''room'') (J_arr []) [] None)" "v_generation sample_view = ''g''"
    by (simp_all add: in_step_def bound_def sample_view_def sample_console_def settle_view_def register_view_def
        register_console_def last_seq_def sample_entry_def up_to_def sample_source_def incremental_def)
  have s: "sources_ok (sample_source 2) (sample_source 2)" "consecutive 0 ([sample_entry 1] @ [sample_entry 2] @ [])"
    by (simp_all add: sources_ok_def healthy_def sample_source_def sample_entry_def)
  have r: "refresh_view [] True (project (Room (J_str ''room'') (J_arr []) ([sample_entry 1] @ [sample_entry 2])) (v_historyAfter v))
      (sample_source 2) (sample_source 2) v = (fst (sample_refresh True 2 v), snd (sample_refresh True 2 v))"
    "refresh_view [] False (project (Room (J_str ''room'') (J_arr []) ([sample_entry 1] @ [sample_entry 2] @ [])) (v_historyAfter v))
      (sample_source 3) (sample_source 3) v = (fst (sample_refresh False 3 v), snd (sample_refresh False 3 v))" for v
    by (simp_all add: sample_refresh_def sample_view_room_def)
  show ?thesis
    using interrupted_refresh_breaks_view [OF i(1,2) s(2) _ i(3) s(1) r(1) _ r(2) _ i(4)] sample_refreshes i(5) by simp
qed

end
