(* ===== verification/Transports.thy ===== *)
theory Transports
  imports Routes Dto JsonParse
begin

section \<open>Transports\<close>

text \<open>
  \<open>src/transports.ts\<close>: how a request reaches the service. The dispatcher of RPC requests with its table of
  routes, the line protocol of the private Unix socket, and the decisions of the HTTP listener, up to the
  point where a body is dispatched, a resource view is asked for or a page is served. Timeouts, aborted
  bodies and the sockets themselves are left out. The URL parser of the runtime is a parameter
  (record \<open>url_lib\<close>), and so is \<open>JSON.parse\<close> where a body is read.
\<close>

subsection \<open>The dispatcher\<close>

definition MAX_REQUEST_BYTES :: nat where "MAX_REQUEST_BYTES = 1024 * 1024"

datatype rpc_id = Id_text string | Id_number int

fun rpc_id_of :: "unknown \<Rightarrow> rpc_id option" where
  "rpc_id_of (Some (J_str s)) = (if 1 \<le> js_length s \<and> js_length s \<le> 256 then Some (Id_text s) else None)"
| "rpc_id_of (Some (J_num n)) = (if nonneg_safe n then Some (Id_number n) else None)"
| "rpc_id_of _ = None"

record rpc_request =
  rp_id :: rpc_id
  rp_method :: string
  rp_params :: "(string \<times> json) list"

definition RpcRequestSchema_parse :: "json \<Rightarrow> rpc_request option" where
  "RpcRequestSchema_parse v =
     (if hasExactKeys (Some v) [''version'', ''id'', ''method'', ''params''] [] \<and> field (Some v) ''version'' = Some (J_num 1) then
        (case (rpc_id_of (field (Some v) ''id''), field (Some v) ''method'', field (Some v) ''params'') of
           (Some i, Some (J_str m), Some (J_obj ps)) \<Rightarrow>
             if 1 \<le> js_length m \<and> js_length m \<le> 256 then Some \<lparr>rp_id = i, rp_method = m, rp_params = ps\<rparr> else None
         | _ \<Rightarrow> None)
      else None)"

datatype rpc_response =
    Answered rpc_id "json option"
  | Failed "rpc_id option" string string

definition errorResponse :: "rpc_id option \<Rightarrow> string \<Rightarrow> string \<Rightarrow> rpc_response" where
  "errorResponse i code message = Failed i code message"

fun id_json :: "rpc_id \<Rightarrow> json" where
  "id_json (Id_text s) = J_str s"
| "id_json (Id_number n) = J_num n"

fun response_json :: "rpc_response \<Rightarrow> json" where
  "response_json (Answered i r) = J_obj ([(''version'', J_num 1), (''id'', id_json i)] @ opt_field ''result'' (\<lambda>x. x) r)"
| "response_json (Failed i code message) = J_obj [(''version'', J_num 1), (''id'', (case i of None \<Rightarrow> J_null | Some j \<Rightarrow> id_json j)),
     (''error'', J_obj [(''code'', J_str code), (''message'', J_str message)])]"

text \<open>A route runs in a state; what it throws is classified. \<open>message_of\<close> is the message of an error.\<close>

type_synonym 's route = "(string \<times> json) list \<Rightarrow> 's \<Rightarrow> (err + json option) \<times> 's"

definition dispatch :: "(err \<Rightarrow> string) \<Rightarrow> (string \<rightharpoonup> 's route) \<Rightarrow> bool \<Rightarrow> json \<Rightarrow> 's \<Rightarrow> rpc_response \<times> 's" where
  "dispatch message_of routes accepting input s =
     (case RpcRequestSchema_parse input of
        None \<Rightarrow> (errorResponse (rpc_id_of (field (Some input) ''id'')) ''invalid_request'' ''invalid RPC request'', s)
      | Some r \<Rightarrow>
          if \<not> accepting then (errorResponse (Some (rp_id r)) ''shutting_down'' ''daemon is shutting down'', s)
          else (case routes (rp_method r) of
              None \<Rightarrow> (errorResponse (Some (rp_id r)) ''method_not_found'' ''method not found'', s)
            | Some run \<Rightarrow>
                (case run (rp_params r) s of
                   (Inr v, t) \<Rightarrow> (Answered (rp_id r) v, t)
                 | (Inl e, t) \<Rightarrow> (errorResponse (Some (rp_id r)) (class_name (classifyServiceError e)) (message_of e), t))))"

definition dispatchBytes ::
  "(string \<Rightarrow> json option) \<Rightarrow> (err \<Rightarrow> string) \<Rightarrow> (string \<rightharpoonup> 's route) \<Rightarrow> bool \<Rightarrow> string \<Rightarrow> 's \<Rightarrow> rpc_response \<times> 's" where
  "dispatchBytes parse message_of routes accepting bytes s =
     (case parse bytes of
        None \<Rightarrow> (errorResponse None ''invalid_json'' ''invalid JSON'', s)
      | Some input \<Rightarrow> dispatch message_of routes accepting input s)"

subsection \<open>The private socket\<close>

datatype socket_event = Line string | Request_too_large

record socket_reader =
  so_buffered :: string
  so_rejected :: bool

definition line_end :: char where "line_end = CHR 0x0A"

function take_lines :: "string \<Rightarrow> socket_reader \<times> socket_event list" where
  "take_lines buf =
     (if line_end \<notin> set buf then (\<lparr>so_buffered = buf, so_rejected = False\<rparr>, [])
      else (let line = takeWhile (\<lambda>c. c \<noteq> line_end) buf; rest = tl (dropWhile (\<lambda>c. c \<noteq> line_end) buf) in
        if length line > MAX_REQUEST_BYTES then (\<lparr>so_buffered = rest, so_rejected = True\<rparr>, [Request_too_large])
        else (let (r, outs) = take_lines rest in (r, Line line # outs))))"
  by pat_completeness auto
termination
proof (relation "measure length")
  fix buf line rest assume "\<not> line_end \<notin> set (buf :: string)" and "rest = tl (dropWhile (\<lambda>c. c \<noteq> line_end) buf)"
  then show "(rest, buf) \<in> measure length"
    using length_dropWhile_le [of "\<lambda>c. c \<noteq> line_end" buf] by (cases "dropWhile (\<lambda>c. c \<noteq> line_end) buf") (auto simp: dropWhile_eq_Nil_conv)
qed simp

declare take_lines.simps [simp del]

definition socket_data :: "socket_reader \<Rightarrow> string \<Rightarrow> socket_reader \<times> socket_event list" where
  "socket_data r chunk =
     (if so_rejected r then (r, [])
      else (let buf = so_buffered r @ chunk in
        if length buf > MAX_REQUEST_BYTES \<and> line_end \<notin> set buf then (\<lparr>so_buffered = buf, so_rejected = True\<rparr>, [Request_too_large])
        else take_lines buf))"

fun socket_run :: "socket_reader \<Rightarrow> string list \<Rightarrow> socket_reader \<times> socket_event list" where
  "socket_run r [] = (r, [])"
| "socket_run r (c # cs) = (let (q, xs) = socket_data r c; (p, ys) = socket_run q cs in (p, xs @ ys))"

subsection \<open>HTTP\<close>

record http_request =
  rq_url :: "string option"
  rq_method :: string
  rq_headers :: "string \<rightharpoonup> string"
  rq_body :: "string list"

record url_lib =
  ul_pathname :: "string \<Rightarrow> string"
  ul_param :: "string \<Rightarrow> string \<Rightarrow> string option"
  ul_parse :: "string \<Rightarrow> (string \<times> string \<times> string) option"

text \<open>The options of the server the decisions read; \<open>sv_authorize\<close> is \<open>Some\<close> where HTTP management is
  configured.\<close>

record http_server =
  sv_port :: nat
  sv_authorize :: "(http_request \<Rightarrow> bool) option"
  sv_publicOrigin :: "string option"
  sv_resources :: bool

datatype dispatcher = Rest_dispatcher | Management_dispatcher

datatype outcome =
    Reply nat json
  | Open_stream string
  | Register string string string json
  | Remove string string string "string option"
  | Ask_bound string string string "string option" string
  | Client_config bool
  | Page
  | Rpc dispatcher string

definition header :: "http_request \<Rightarrow> string \<Rightarrow> string option" where
  "header q name = rq_headers q name"

definition lower :: "string \<Rightarrow> string" where
  "lower s = map lower_char s"

definition isJsonMediaType :: "string option \<Rightarrow> bool" where
  "isJsonMediaType value = (case value of
     None \<Rightarrow> False
   | Some v \<Rightarrow> (let mediaType = lower (trim (takeWhile (\<lambda>c. c \<noteq> CHR '';'') v)) in
       mediaType = ''application/json'' \<or> (starts_with ''application/'' mediaType \<and> JString.ends_with ''+json'' mediaType)))"

definition safeAuthenticatedBrowserOrigin :: "url_lib \<Rightarrow> http_server \<Rightarrow> http_request \<Rightarrow> bool" where
  "safeAuthenticatedBrowserOrigin lib sv q =
     (if header q ''sec-fetch-site'' \<notin> {None, Some ''same-origin'', Some ''none''} then False
      else (case header q ''origin'' of
          None \<Rightarrow> True
        | Some origin \<Rightarrow>
            (case sv_publicOrigin sv of
               Some public \<Rightarrow> origin = public
             | None \<Rightarrow> (case ul_parse lib origin of
                 None \<Rightarrow> False
               | Some (protocol, serialized, host) \<Rightarrow>
                   protocol \<in> {''http:'', ''https:''} \<and> serialized = origin \<and> Some host = header q ''host''))))"

definition safeRestOrigin :: "http_server \<Rightarrow> http_request \<Rightarrow> bool" where
  "safeRestOrigin sv q =
     (case header q ''host'' of
        None \<Rightarrow> False
      | Some authority \<Rightarrow>
          (authority = ''127.0.0.1:'' @ show_nat (sv_port sv) \<or> authority = ''localhost:'' @ show_nat (sv_port sv))
          \<and> (case header q ''origin'' of None \<Rightarrow> True | Some origin \<Rightarrow> origin = ''http://'' @ authority)
          \<and> map_option lower (header q ''sec-fetch-site'') \<noteq> Some ''cross-site'')"

text \<open>\<open>/^\/(browser|management)?\/?resources(?:\/(.*))?$/\<close> on a path.\<close>

definition strip_prefix :: "string \<Rightarrow> string \<Rightarrow> string option" where
  "strip_prefix p s = (if starts_with p s then Some (drop (length p) s) else None)"

definition resource_tail :: "string \<Rightarrow> string option" where
  "resource_tail s =
     (let t = (if starts_with ''/'' s then drop 1 s else s) in
      case strip_prefix ''resources'' t of
        None \<Rightarrow> None
      | Some r \<Rightarrow> if r = [] then Some [] else if starts_with ''/'' r then Some (drop 1 r) else None)"

definition resource_route :: "string \<Rightarrow> (string option \<times> string) option" where
  "resource_route path =
     (case strip_prefix ''/'' path of
        None \<Rightarrow> None
      | Some s \<Rightarrow>
          (case strip_prefix ''browser'' s of
             Some t \<Rightarrow> map_option (\<lambda>r. (Some ''browser'', r)) (resource_tail t)
           | None \<Rightarrow> (case strip_prefix ''management'' s of
               Some t \<Rightarrow> map_option (\<lambda>r. (Some ''management'', r)) (resource_tail t)
             | None \<Rightarrow> map_option (\<lambda>r. (None, r)) (resource_tail s))))"

fun path_parts :: "string \<Rightarrow> string list" where
  "path_parts [] = [[]]"
| "path_parts (c # s) =
     (if c = CHR ''/'' then [] # path_parts s
      else (case path_parts s of [] \<Rightarrow> [[c]] | p # ps \<Rightarrow> (c # p) # ps))"

definition error_body :: "string \<Rightarrow> json" where
  "error_body message = J_obj [(''error'', J_str message)]"

text \<open>\<open>readBody\<close>: the chunks that arrive before the limit is passed.\<close>

fun readBody :: "nat \<Rightarrow> string list \<Rightarrow> string \<Rightarrow> string option" where
  "readBody limit [] bytes = Some bytes"
| "readBody limit (c # cs) bytes =
     (if length bytes + length c > limit then None else readBody limit cs (bytes @ c))"

definition authorized :: "http_server \<Rightarrow> http_request \<Rightarrow> bool" where
  "authorized sv q = (case sv_authorize sv of None \<Rightarrow> True | Some f \<Rightarrow> f q)"

definition resource_forbidden :: "url_lib \<Rightarrow> http_server \<Rightarrow> string option \<Rightarrow> http_request \<Rightarrow> bool" where
  "resource_forbidden lib sv mode q =
     (if mode = Some ''management'' then sv_authorize sv = None \<or> header q ''origin'' \<noteq> None \<or> header q ''sec-fetch-site'' \<noteq> None
      else if mode = Some ''browser'' then sv_authorize sv = None \<or> \<not> safeAuthenticatedBrowserOrigin lib sv q
      else sv_authorize sv \<noteq> None \<or> \<not> safeRestOrigin sv q)"

definition owner_of :: "string option \<Rightarrow> http_request \<Rightarrow> string" where
  "owner_of mode q = (case mode of
     None \<Rightarrow> ''local''
   | Some m \<Rightarrow> m @ '':'' @ (case header q ''x-ours-api-token'' of None \<Rightarrow> ''undefined'' | Some t \<Rightarrow> t))"

definition resource_request :: "(string \<Rightarrow> json option) \<Rightarrow> url_lib \<Rightarrow> http_server \<Rightarrow> string option \<Rightarrow> string \<Rightarrow> http_request \<Rightarrow> outcome" where
  "resource_request parse lib sv mode tail q =
     (if resource_forbidden lib sv mode q then Reply 403 (error_body ''forbidden request origin'')
      else if \<not> authorized sv q then Reply 401 (error_body ''server credential required'')
      else if \<not> sv_resources sv then Reply 503 (error_body ''resource source unavailable'')
      else (let owner = owner_of mode q; parts = filter (\<lambda>p. p \<noteq> []) (path_parts tail); url = (case rq_url q of None \<Rightarrow> ''/'' | Some u \<Rightarrow> u) in
        if rq_method q = ''GET'' \<and> parts = [] then Open_stream owner
        else (case parts of
            [connection, views, view] \<Rightarrow>
              if views \<noteq> ''views'' then Reply 404 (error_body ''not found'')
              else if rq_method q = ''POST'' then
                (if \<not> isJsonMediaType (header q ''content-type'') then Reply 415 (error_body ''application/json required'')
                 else (case readBody MAX_REQUEST_BYTES (rq_body q) [] of
                     None \<Rightarrow> Reply 413 (error_body ''request too large'')
                   | Some bytes \<Rightarrow> (case parse bytes of
                       None \<Rightarrow> Reply 400 (error_body ''SyntaxError'')
                     | Some v \<Rightarrow> Register owner connection view v)))
              else if rq_method q = ''DELETE'' then Remove owner connection view (ul_param lib url ''epoch'')
              else if rq_method q = ''GET'' then
                Ask_bound owner connection view (ul_param lib url ''epoch'') (case ul_param lib url ''baselineId'' of None \<Rightarrow> [] | Some b \<Rightarrow> b)
              else Reply 404 (error_body ''not found'')
          | _ \<Rightarrow> Reply 404 (error_body ''not found''))))"

definition digits_only :: "string \<Rightarrow> bool" where
  "digits_only s \<longleftrightarrow> s \<noteq> [] \<and> list_all is_digit s"

definition refused :: "nat \<Rightarrow> string \<Rightarrow> string \<Rightarrow> outcome" where
  "refused status code message = Reply status (response_json (errorResponse None code message))"

definition rpc_over_http :: "url_lib \<Rightarrow> http_server \<Rightarrow> bool \<Rightarrow> bool \<Rightarrow> http_request \<Rightarrow> outcome" where
  "rpc_over_http lib sv management browser q =
     (if rq_method q \<noteq> ''POST'' then refused 404 ''not_found'' ''not found''
      else if \<not> isJsonMediaType (header q ''content-type'') then refused 415 ''unsupported_media_type'' ''application/json required''
      else if management \<and> \<not> browser \<and> (header q ''origin'' \<noteq> None \<or> header q ''sec-fetch-site'' \<noteq> None)
      then refused 403 ''forbidden'' ''browser requests cannot use machine management''
      else if browser \<and> \<not> safeAuthenticatedBrowserOrigin lib sv q then refused 403 ''forbidden'' ''forbidden request origin''
      else if management \<and> \<not> authorized sv q then refused 401 ''unauthorized'' ''server credential required''
      else if \<not> management \<and> \<not> safeRestOrigin sv q then refused 403 ''forbidden'' ''forbidden request origin''
      else if (case header q ''content-length'' of None \<Rightarrow> False
        | Some declared \<Rightarrow> \<not> digits_only declared \<or> read_nat declared > MAX_REQUEST_BYTES)
      then refused 413 ''request_too_large'' ''request exceeds 1 MiB''
      else (case readBody MAX_REQUEST_BYTES (rq_body q) [] of
          None \<Rightarrow> refused 413 ''request_too_large'' ''request exceeds 1 MiB''
        | Some bytes \<Rightarrow> Rpc (if management \<and> \<not> browser then Management_dispatcher else Rest_dispatcher) bytes))"

definition handleRest :: "(string \<Rightarrow> json option) \<Rightarrow> url_lib \<Rightarrow> http_server \<Rightarrow> http_request \<Rightarrow> outcome" where
  "handleRest parse lib sv q =
     (case resource_route (ul_pathname lib (case rq_url q of None \<Rightarrow> ''/'' | Some u \<Rightarrow> u)) of
        Some (mode, tail) \<Rightarrow> resource_request parse lib sv mode tail q
      | None \<Rightarrow>
          if rq_url q = Some ''/client-config'' \<and> rq_method q = ''GET'' then Client_config (sv_authorize sv \<noteq> None)
          else (let browser = (rq_url q = Some ''/browser/rpc'' \<and> sv_authorize sv \<noteq> None);
                    management = ((rq_url q = Some ''/management/rpc'' \<or> browser) \<and> sv_authorize sv \<noteq> None) in
            if rq_url q \<noteq> Some ''/rpc'' \<and> \<not> management
            then (if rq_method q = ''GET'' then Page else refused 404 ''not_found'' ''not found'')
            else rpc_over_http lib sv management browser q))"

text \<open>The status of an answer.\<close>

fun status_of :: "rpc_response \<Rightarrow> nat" where
  "status_of (Answered i r) = 200"
| "status_of (Failed i code message) = (if code = ''method_not_found'' then 404 else if code = ''internal'' then 500 else 400)"

definition serve_http ::
  "(string \<Rightarrow> json option) \<Rightarrow> (err \<Rightarrow> string) \<Rightarrow> (dispatcher \<Rightarrow> string \<rightharpoonup> 's route) \<Rightarrow> bool \<Rightarrow> url_lib \<Rightarrow> http_server
     \<Rightarrow> http_request \<Rightarrow> 's \<Rightarrow> outcome \<times> 's" where
  "serve_http parse message_of routes accepting lib sv q s =
     (case handleRest parse lib sv q of
        Rpc d bytes \<Rightarrow> (let (r, t) = dispatchBytes parse message_of (routes d) accepting bytes s in (Reply (status_of r) (response_json r), t))
      | x \<Rightarrow> (x, s))"

subsection \<open>The private socket is read by lines\<close>

lemma take_lines_none: "line_end \<notin> set s \<Longrightarrow> take_lines s = (\<lparr>so_buffered = s, so_rejected = False\<rparr>, [])"
  by (simp add: take_lines.simps)

lemma take_lines_cons:
  assumes "line_end \<notin> set l"
  shows "take_lines (l @ line_end # s) =
    (if length l > MAX_REQUEST_BYTES then (\<lparr>so_buffered = s, so_rejected = True\<rparr>, [Request_too_large])
     else (let (r, outs) = take_lines s in (r, Line l # outs)))"
proof -
  have "takeWhile (\<lambda>c. c \<noteq> line_end) (l @ line_end # s) = l" "dropWhile (\<lambda>c. c \<noteq> line_end) (l @ line_end # s) = line_end # s"
    using assms by (auto simp: takeWhile_append dropWhile_append)
  then show ?thesis by (subst take_lines.simps) (simp add: Let_def)
qed

definition lines_text :: "string list \<Rightarrow> string" where
  "lines_text ls = concat (map (\<lambda>l. l @ [line_end]) ls)"

text \<open>What a sequence of lines is answered with: the lines up to the first that is too long.\<close>

fun expected_events :: "string list \<Rightarrow> socket_event list" where
  "expected_events [] = []"
| "expected_events (l # ls) = (if length l > MAX_REQUEST_BYTES then [Request_too_large] else Line l # expected_events ls)"

definition one_lined :: "string list \<Rightarrow> bool" where
  "one_lined ls \<longleftrightarrow> list_all (\<lambda>l. line_end \<notin> set l) ls"

lemma take_lines_part:
  assumes "one_lined ls" and "p @ q = lines_text ls"
  shows "\<exists>r outs ms. take_lines p = (r, outs) \<and>
     (if so_rejected r then outs = expected_events ls
      else one_lined ms \<and> line_end \<notin> set (so_buffered r) \<and> so_buffered r @ q = lines_text ms
        \<and> outs @ expected_events ms = expected_events ls)"
  using assms
proof (induction ls arbitrary: p)
  case Nil
  then show ?case by (auto simp: take_lines_none lines_text_def one_lined_def intro: exI [of _ "[]"])
next
  case (Cons l ls)
  have l: "line_end \<notin> set l" and ls: "one_lined ls" using Cons.prems(1) by (simp_all add: one_lined_def)
  have eq: "p @ q = (l @ [line_end]) @ lines_text ls" using Cons.prems(2) by (simp add: lines_text_def)
  show ?case
  proof (cases "line_end \<in> set p")
    case False
    then show ?thesis using Cons.prems
      by (intro exI [of _ "\<lparr>so_buffered = p, so_rejected = False\<rparr>"] exI [of _ "[]"] exI [of _ "l # ls"]) (simp add: take_lines_none)
  next
    case True
    from eq have "\<exists>us. p = (l @ [line_end]) @ us \<and> us @ q = lines_text ls \<or> p @ us = l @ [line_end] \<and> q = us @ lines_text ls"
      unfolding append_eq_append_conv2 by blast
    then obtain us where "p = (l @ [line_end]) @ us \<and> us @ q = lines_text ls \<or> p @ us = l @ [line_end] \<and> q = us @ lines_text ls"
      by blast
    moreover have "us = []" if "p @ us = l @ [line_end]"
    proof (rule ccontr)
      assume "us \<noteq> []"
      then have "p @ butlast us = l" using that by (metis butlast_append butlast_snoc)
      with l True show False by auto
    qed
    ultimately obtain p2 where p2: "p = l @ line_end # p2" "p2 @ q = lines_text ls" by auto
    show ?thesis
    proof (cases "length l > MAX_REQUEST_BYTES")
      case True
      then show ?thesis using p2(1) take_lines_cons [OF l, of p2] by simp
    next
      case False
      from Cons.IH [OF ls p2(2)] obtain r outs ms where
        "take_lines p2 = (r, outs)" "if so_rejected r then outs = expected_events ls
         else one_lined ms \<and> line_end \<notin> set (so_buffered r) \<and> so_buffered r @ q = lines_text ms \<and> outs @ expected_events ms = expected_events ls"
        by blast
      then show ?thesis using False p2(1) take_lines_cons [OF l, of p2]
        by (intro exI [of _ r] exI [of _ "Line l # outs"] exI [of _ ms]) (auto split: if_splits)
    qed
  qed
qed

lemma rejected_reads_nothing: "so_rejected r \<Longrightarrow> snd (socket_run r cs) = [] \<and> so_rejected (fst (socket_run r cs))"
  by (induction cs) (simp_all add: socket_data_def split_beta Let_def)

lemma socket_run_lines:
  assumes "one_lined ls" and "\<not> so_rejected r" and "line_end \<notin> set (so_buffered r)" and "so_buffered r @ concat cs = lines_text ls"
  shows "snd (socket_run r cs) = expected_events ls"
  using assms
proof (induction cs arbitrary: r ls)
  case Nil
  then have "ls = []" by (cases ls) (auto simp: lines_text_def)
  then show ?case by simp
next
  case (Cons c cs)
  let ?buf = "so_buffered r @ c"
  have eq: "?buf @ concat cs = lines_text ls" using Cons.prems(4) by simp
  show ?case
  proof (cases "length ?buf > MAX_REQUEST_BYTES \<and> line_end \<notin> set ?buf")
    case True
    then obtain l ms where ls: "ls = l # ms" using eq by (cases ls) (auto simp: lines_text_def MAX_REQUEST_BYTES_def)
    have joined: "?buf @ concat cs = l @ line_end # lines_text ms" using eq by (simp add: ls lines_text_def)
    have "length ?buf \<le> length l"
    proof (rule ccontr)
      assume "\<not> length ?buf \<le> length l"
      then have "line_end \<in> set (take (length ?buf) (l @ line_end # lines_text ms))" by (auto simp: take_Cons')
      moreover have "take (length ?buf) (?buf @ concat cs) = ?buf" by (simp add: take_append)
      ultimately show False using True joined by metis
    qed
    then have "expected_events ls = [Request_too_large]" using True by (simp add: ls)
    moreover have "snd (socket_run r (c # cs)) = [Request_too_large]"
      using True Cons.prems(2) rejected_reads_nothing [of "\<lparr>so_buffered = ?buf, so_rejected = True\<rparr>" cs]
      by (simp add: socket_data_def Let_def split_beta)
    ultimately show ?thesis by simp
  next
    case False
    then have data: "socket_data r c = take_lines ?buf" using Cons.prems(2) by (auto simp: socket_data_def Let_def)
    from take_lines_part [OF Cons.prems(1) eq] obtain q outs ms where q: "take_lines ?buf = (q, outs)"
      "if so_rejected q then outs = expected_events ls
       else one_lined ms \<and> line_end \<notin> set (so_buffered q) \<and> so_buffered q @ concat cs = lines_text ms \<and> outs @ expected_events ms = expected_events ls"
      by blast
    show ?thesis
    proof (cases "so_rejected q")
      case True
      then show ?thesis using q data rejected_reads_nothing [OF True, of cs] by (simp add: split_beta Let_def)
    next
      case nrej: False
      then have "snd (socket_run q cs) = expected_events ms" using q(2) by (intro Cons.IH) simp_all
      then show ?thesis using q data nrej by (simp add: split_beta Let_def)
    qed
  qed
qed

text \<open>C28: the private socket dispatches each line of what a client sends, in order, up to the first line beyond
  1 MiB, which is answered with an error; how the bytes arrive makes no difference.\<close>

theorem socket_lines_are_requests:
  assumes "one_lined ls" and "concat chunks = lines_text ls"
  shows "snd (socket_run \<lparr>so_buffered = [], so_rejected = False\<rparr> chunks) = expected_events ls"
  using assms by (intro socket_run_lines) simp_all

subsection \<open>What HTTP lets through\<close>

lemma readBody_length: "readBody limit cs bytes = Some b \<Longrightarrow> length bytes \<le> limit \<Longrightarrow> length b \<le> limit"
  by (induction cs arbitrary: bytes) (fastforce split: if_splits)+

lemma readBody_concat: "readBody limit cs bytes = Some b \<Longrightarrow> b = bytes @ concat cs"
  by (induction cs arbitrary: bytes) (fastforce split: if_splits)+

text \<open>C27: a request that reaches the service over HTTP is a POST of at most 1 MiB of JSON. The management routes
  need the operator credential and no browser; the room routes need either the credential and the console's
  own origin, or a loopback authority without a foreign origin.\<close>

theorem http_dispatch_guarded:
  assumes "handleRest parse lib sv q = Rpc d bytes"
  shows "rq_method q = ''POST'' \<and> isJsonMediaType (header q ''content-type'') \<and> bytes = concat (rq_body q) \<and> length bytes \<le> MAX_REQUEST_BYTES
    \<and> (case d of
         Management_dispatcher \<Rightarrow> rq_url q = Some ''/management/rpc'' \<and> (\<exists>f. sv_authorize sv = Some f \<and> f q)
           \<and> header q ''origin'' = None \<and> header q ''sec-fetch-site'' = None
       | Rest_dispatcher \<Rightarrow>
           rq_url q = Some ''/browser/rpc'' \<and> (\<exists>f. sv_authorize sv = Some f \<and> f q) \<and> safeAuthenticatedBrowserOrigin lib sv q
           \<or> rq_url q = Some ''/rpc'' \<and> safeRestOrigin sv q)"
proof -
  let ?b = "rq_url q = Some ''/browser/rpc'' \<and> sv_authorize sv \<noteq> None"
  let ?m = "(rq_url q = Some ''/management/rpc'' \<or> ?b) \<and> sv_authorize sv \<noteq> None"
  have r: "rpc_over_http lib sv ?m ?b q = Rpc d bytes" and u: "rq_url q = Some ''/rpc'' \<or> ?m"
    using assms by (auto simp: handleRest_def resource_request_def refused_def Let_def split: option.splits if_splits list.splits)
  from r have c: "rq_method q = ''POST''" "isJsonMediaType (header q ''content-type'')"
    "?m \<and> \<not> ?b \<Longrightarrow> header q ''origin'' = None \<and> header q ''sec-fetch-site'' = None"
    "?b \<Longrightarrow> safeAuthenticatedBrowserOrigin lib sv q" "?m \<Longrightarrow> authorized sv q" "\<not> ?m \<Longrightarrow> safeRestOrigin sv q"
    "readBody MAX_REQUEST_BYTES (rq_body q) [] = Some bytes" "d = (if ?m \<and> \<not> ?b then Management_dispatcher else Rest_dispatcher)"
    unfolding rpc_over_http_def refused_def by (auto split: if_splits option.splits)
  have "length bytes \<le> MAX_REQUEST_BYTES" using readBody_length [OF c(7)] by simp
  moreover have "bytes = concat (rq_body q)" using readBody_concat [OF c(7)] by simp
  moreover have "?m \<Longrightarrow> \<exists>f. sv_authorize sv = Some f \<and> f q" using c(5) by (auto simp: authorized_def)
  ultimately show ?thesis using c u by auto
qed

definition url_laws :: "url_lib \<Rightarrow> bool" where
  "url_laws lib \<longleftrightarrow> (\<forall>o1 p s h. ul_parse lib o1 = Some (p, s, h) \<longrightarrow> p \<in> {''http:'', ''https:''} \<longrightarrow> s = p @ ''//'' @ h)"

definition own_origin :: "http_server \<Rightarrow> http_request \<Rightarrow> string \<Rightarrow> bool" where
  "own_origin sv q o1 \<longleftrightarrow> sv_publicOrigin sv = Some o1 \<or>
     (\<exists>h. header q ''host'' = Some h \<and> o1 \<in> {''http://'' @ h, ''https://'' @ h})"

lemma foreign_origin_unsafe:
  assumes "url_laws lib" and "header q ''origin'' = Some o1" and "\<not> own_origin sv q o1"
  shows "\<not> safeAuthenticatedBrowserOrigin lib sv q" "\<not> safeRestOrigin sv q"
proof -
  show "\<not> safeAuthenticatedBrowserOrigin lib sv q"
  proof
    assume "safeAuthenticatedBrowserOrigin lib sv q"
    with assms obtain p h where "ul_parse lib o1 = Some (p, o1, h)" "p \<in> {''http:'', ''https:''}" "header q ''host'' = Some h"
      by (auto simp: safeAuthenticatedBrowserOrigin_def own_origin_def split: if_splits option.splits)
    with assms(1,3) show False by (auto simp: url_laws_def own_origin_def)
  qed
  show "\<not> safeRestOrigin sv q" using assms(2,3) by (auto simp: safeRestOrigin_def own_origin_def split: option.splits)
qed

text \<open>A page of another site reaches neither a route nor a resource view: a request that carries a foreign
  origin leaves the state as it is and opens, registers, removes and reads no view.\<close>

theorem foreign_origin_changes_nothing:
  assumes "url_laws lib" and "header q ''origin'' = Some o1" and "\<not> own_origin sv q o1"
    and "serve_http parse message_of routes accepting lib sv q s = (x, t)"
  shows "t = s \<and> (x = Page \<or> (\<exists>b. x = Client_config b) \<or> (\<exists>n v. x = Reply n v))"
proof -
  note unsafe = foreign_origin_unsafe [OF assms(1-3)]
  have "resource_forbidden lib sv mode q" for mode
    using unsafe assms(2) by (auto simp: resource_forbidden_def)
  moreover have "\<exists>n v. rpc_over_http lib sv m b q = Reply n v" if "b \<longrightarrow> m" for m b
    using unsafe assms(2) that by (cases m; cases b) (auto simp: rpc_over_http_def refused_def)
  ultimately have "handleRest parse lib sv q = Page \<or> (\<exists>b. handleRest parse lib sv q = Client_config b)
      \<or> (\<exists>n v. handleRest parse lib sv q = Reply n v)"
    by (auto simp: handleRest_def resource_request_def refused_def Let_def split: option.split)
  moreover from this have "serve_http parse message_of routes accepting lib sv q s = (handleRest parse lib sv q, s)"
    by (elim disjE exE) (simp_all add: serve_http_def)
  ultimately show ?thesis using assms(4) by (metis prod.inject)
qed

subsection \<open>Witnesses\<close>

lemma socket_witness:
  "snd (socket_run \<lparr>so_buffered = [], so_rejected = False\<rparr> [''{'', ''}'' @ [line_end] @ ''['', '']'' @ [line_end]]) = [Line ''{}'', Line ''[]'']"
proof -
  have "one_lined [''{}'', ''[]'']" by (simp add: one_lined_def line_end_def)
  moreover have "concat [''{'', ''}'' @ [line_end] @ ''['', '']'' @ [line_end]] = lines_text [''{}'', ''[]'']" by (simp add: lines_text_def)
  ultimately have "snd (socket_run \<lparr>so_buffered = [], so_rejected = False\<rparr> [''{'', ''}'' @ [line_end] @ ''['', '']'' @ [line_end]])
      = expected_events [''{}'', ''[]'']" by (rule socket_lines_are_requests)
  then show ?thesis by (simp add: MAX_REQUEST_BYTES_def)
qed

text \<open>A URL parser for origins without a path.\<close>

definition sample_lib :: url_lib where
  "sample_lib = \<lparr>ul_pathname = (\<lambda>u. u), ul_param = (\<lambda>u k. None),
     ul_parse = (\<lambda>u. if starts_with ''http://'' u then Some (''http:'', u, drop 7 u)
       else if starts_with ''https://'' u then Some (''https:'', u, drop 8 u) else None)\<rparr>"

definition sample_server :: http_server where
  "sample_server = \<lparr>sv_port = 8080, sv_authorize = Some (\<lambda>q. header q ''x-ours-api-token'' = Some ''t''), sv_publicOrigin = None, sv_resources = True\<rparr>"

definition sample_post :: "string \<Rightarrow> (string \<times> string) list \<Rightarrow> http_request" where
  "sample_post url hs = \<lparr>rq_url = Some url, rq_method = ''POST'', rq_headers = map_of ((''content-type'', ''application/json'') # hs), rq_body = [''{'', ''}'']\<rparr>"

lemma sample_lib_laws: "url_laws sample_lib"
proof -
  have "u = ''http:'' @ ''//'' @ drop 7 u" if "starts_with ''http://'' u" for u :: string
    using starts_withD [OF that] by (simp add: eval_nat_numeral)
  moreover have "u = ''https:'' @ ''//'' @ drop 8 u" if "starts_with ''https://'' u" for u :: string
    using starts_withD [OF that] by (simp add: eval_nat_numeral)
  ultimately have "s = p @ ''//'' @ h" if "ul_parse sample_lib u = Some (p, s, h)" for u p s h
    using that by (fastforce simp: sample_lib_def simp del: append.simps split: if_splits)
  then show ?thesis unfolding url_laws_def by blast
qed

lemma http_dispatch_witness:
  "rq_url (sample_post ''/browser/rpc'' [(''host'', ''h''), (''origin'', ''https://h''), (''x-ours-api-token'', ''t'')]) = Some ''/browser/rpc''
   \<and> length (''{}'') \<le> MAX_REQUEST_BYTES"
proof -
  have "handleRest json_parse sample_lib sample_server
      (sample_post ''/browser/rpc'' [(''host'', ''h''), (''origin'', ''https://h''), (''x-ours-api-token'', ''t'')]) = Rpc Rest_dispatcher ''{}''"
    by code_simp
  from http_dispatch_guarded [OF this] show ?thesis by (simp add: sample_post_def)
qed

lemma foreign_origin_witness:
  "serve_http json_parse (\<lambda>e. []) (\<lambda>d m. Some (\<lambda>p n. (Inr None, n + 1))) True sample_lib sample_server
     (sample_post ''/browser/rpc'' [(''host'', ''h''), (''origin'', ''https://evil''), (''x-ours-api-token'', ''t'')]) (0 :: nat)
   = (Reply 403 (response_json (Failed None ''forbidden'' ''forbidden request origin'')), 0)"
proof -
  let ?q = "sample_post ''/browser/rpc'' [(''host'', ''h''), (''origin'', ''https://evil''), (''x-ours-api-token'', ''t'')]"
  have "header ?q ''origin'' = Some ''https://evil''" "\<not> own_origin sample_server ?q ''https://evil''"
    by (simp_all add: sample_post_def header_def own_origin_def sample_server_def)
  from foreign_origin_changes_nothing [OF sample_lib_laws this, of json_parse "\<lambda>e. []" "\<lambda>d m. Some (\<lambda>p n. (Inr None, n + 1))" True "0::nat"]
  have "snd (serve_http json_parse (\<lambda>e. []) (\<lambda>d m. Some (\<lambda>p n. (Inr None, n + 1))) True sample_lib sample_server ?q (0 :: nat)) = 0"
    by (metis prod.collapse)
  moreover have "fst (serve_http json_parse (\<lambda>e. []) (\<lambda>d m. Some (\<lambda>p n. (Inr None, n + 1))) True sample_lib sample_server ?q (0 :: nat))
      = Reply 403 (response_json (Failed None ''forbidden'' ''forbidden request origin''))"
    by code_simp
  ultimately show ?thesis by (simp add: prod_eq_iff)
qed

end
