(* ===== verification/Durability.thy ===== *)
theory Durability
  imports Json Scalars "HOL-Library.AList"
begin

section \<open>What a crash leaves of a room\<close>

text \<open>
  The files of one room (\<open>src/storage.ts\<close>) as a sequence of file operations, any prefix of which may be all
  that happened. A name is a path inside the room: \<open>.\<close> is the room directory itself. The disk holds the
  current directory entries and, until the directory is synced, the entries a power loss may bring back; a
  file that was not synced may hold anything afterwards. A killed process loses no operation. The SQLite
  archive is a list of committed rows: a commit is durable and atomic (WAL with \<open>synchronous = FULL\<close>).
  File modes, symbolic links and the sidecar files of SQLite are left out.
\<close>

subsection \<open>The disk\<close>

record stored_row =
  sr_payload :: string
  sr_blob :: "string option"

record disk =
  dk_entries :: "(string \<times> nat) list"
  dk_pending :: "(string \<times> nat option) list"
  dk_data :: "nat \<Rightarrow> string"
  dk_unsynced :: "nat list"
  dk_rows :: "stored_row list"
  dk_next :: nat

definition entry :: "disk \<Rightarrow> string \<Rightarrow> nat option" where
  "entry d n = map_of (dk_entries d) n"

definition content_of :: "disk \<Rightarrow> string \<Rightarrow> string option" where
  "content_of d n = map_option (dk_data d) (entry d n)"

definition dir_of :: "string \<Rightarrow> string" where
  "dir_of n = (if n = ''.'' then ''..'' else if starts_with ''blobs/'' n then ''blobs'' else ''.'')"

datatype io =
    Create string
  | Write string string
  | Fsync string
  | Rename string string
  | Unlink string
  | Rmtree string
  | Fsync_dir string
  | Commit stored_row

definition set_entry :: "string \<Rightarrow> nat option \<Rightarrow> disk \<Rightarrow> disk" where
  "set_entry n e d = d\<lparr>dk_pending := (n, entry d n) # dk_pending d,
     dk_entries := (case e of None \<Rightarrow> AList.delete n (dk_entries d) | Some i \<Rightarrow> AList.update n i (dk_entries d))\<rparr>"

fun io_step :: "io \<Rightarrow> disk \<Rightarrow> disk" where
  "io_step (Create n) d = (set_entry n (Some (dk_next d)) d)\<lparr>dk_next := dk_next d + 1\<rparr>"
| "io_step (Write n bytes) d = (case entry d n of None \<Rightarrow> d
     | Some i \<Rightarrow> d\<lparr>dk_data := (dk_data d)(i := bytes), dk_unsynced := i # dk_unsynced d\<rparr>)"
| "io_step (Fsync n) d = (case entry d n of None \<Rightarrow> d | Some i \<Rightarrow> d\<lparr>dk_unsynced := removeAll i (dk_unsynced d)\<rparr>)"
| "io_step (Rename m n) d = (case entry d m of None \<Rightarrow> d | Some i \<Rightarrow> set_entry n (Some i) (set_entry m None d))"
| "io_step (Unlink n) d = (if entry d n = None then d else set_entry n None d)"
| "io_step (Rmtree n) d = fold (\<lambda>m. set_entry m None) (filter (\<lambda>m. m = n \<or> dir_of m = n) (map fst (dk_entries d))) d"
| "io_step (Fsync_dir dir) d = d\<lparr>dk_pending := filter (\<lambda>(n, e). dir_of n \<noteq> dir) (dk_pending d)\<rparr>"
| "io_step (Commit r) d = d\<lparr>dk_rows := dk_rows d @ [r]\<rparr>"

definition run_io :: "io list \<Rightarrow> disk \<Rightarrow> disk" where
  "run_io ops d = fold io_step ops d"

text \<open>What a power loss may leave.\<close>

definition crash :: "disk \<Rightarrow> disk \<Rightarrow> bool" where
  "crash d c \<longleftrightarrow> (\<forall>n. entry c n = entry d n \<or> (n, entry c n) \<in> set (dk_pending d))
     \<and> (\<forall>i. i \<notin> set (dk_unsynced d) \<longrightarrow> dk_data c i = dk_data d i)
     \<and> dk_rows c = dk_rows d \<and> dk_next c = dk_next d \<and> dk_pending c = [] \<and> dk_unsynced c = []"

subsection \<open>The programs of the store\<close>

definition METADATA :: string where "METADATA = ''room.json''"
definition ARCHIVE :: string where "ARCHIVE = ''archive.sqlite3''"
definition BLOBS :: string where "BLOBS = ''blobs''"

definition blob_name :: "string \<Rightarrow> string" where
  "blob_name digest = ''blobs/'' @ digest"

text \<open>\<open>atomicBytesWrite\<close>; \<open>temp\<close> is the name with the random suffix.\<close>

definition atomicBytesWrite :: "string \<Rightarrow> string \<Rightarrow> string \<Rightarrow> io list" where
  "atomicBytesWrite path temp bytes = [Create temp, Write temp bytes, Fsync temp, Rename temp path, Fsync_dir (dir_of path)]"

definition persistBlob :: "disk \<Rightarrow> string \<Rightarrow> string \<Rightarrow> string \<Rightarrow> err + io list" where
  "persistBlob d digest bytes temp =
     (case content_of d (blob_name digest) of
        Some old \<Rightarrow> if old = bytes then Inr [] else Inl (Storage_error (''immutable blob collision for '' @ digest))
      | None \<Rightarrow> Inr [Create temp, Write temp bytes, Fsync temp, Rename temp (blob_name digest), Fsync_dir BLOBS])"

text \<open>\<open>append\<close> of a file: the blob first, then the row that names it.\<close>

definition append_file :: "(string \<Rightarrow> string) \<Rightarrow> disk \<Rightarrow> string \<Rightarrow> string \<Rightarrow> string \<Rightarrow> err + io list" where
  "append_file sha d payload bytes temp =
     (case persistBlob d (sha bytes) bytes temp of
        Inl e \<Rightarrow> Inl e
      | Inr ops \<Rightarrow> Inr (ops @ [Commit \<lparr>sr_payload = payload, sr_blob = Some (sha bytes)\<rparr>]))"

text \<open>What follows a transaction that failed: the blob goes if this append made it and no row names it.\<close>

definition removeUnreferencedBlob :: "disk \<Rightarrow> string \<Rightarrow> io list" where
  "removeUnreferencedBlob d digest =
     (if list_ex (\<lambda>r. sr_blob r = Some digest) (dk_rows d) \<or> entry d (blob_name digest) = None then []
      else [Unlink (blob_name digest), Fsync_dir BLOBS])"

definition is_blob_temp :: "string \<Rightarrow> bool" where
  "is_blob_temp s \<longleftrightarrow> starts_with ''.tmp-'' s \<and>
     (let q = dropWhile is_digit (drop 5 s) in
      takeWhile is_digit (drop 5 s) \<noteq> [] \<and> starts_with ''-'' q \<and> length (drop 1 q) = 16 \<and> list_all is_hex_lower (drop 1 q))"

definition blob_names :: "disk \<Rightarrow> string list" where
  "blob_names d = filter (\<lambda>n. dir_of n = BLOBS) (map fst (dk_entries d))"

definition referenced :: "disk \<Rightarrow> string \<Rightarrow> bool" where
  "referenced d n \<longleftrightarrow> list_ex (\<lambda>r. map_option blob_name (sr_blob r) = Some n) (dk_rows d)"

definition residue :: "disk \<Rightarrow> string list" where
  "residue d = filter (\<lambda>n. is_blob_temp (drop 6 n) \<or> \<not> referenced d n) (blob_names d)"

text \<open>\<open>reconcileBlobDirectory\<close>, on the first access after a start.\<close>

definition reconcileBlobDirectory :: "disk \<Rightarrow> err + io list" where
  "reconcileBlobDirectory d =
     (if list_all (\<lambda>n. is_blob_temp (drop 6 n) \<or> sha256_ok (drop 6 n)) (blob_names d)
      then Inr (map Unlink (residue d) @ (if residue d = [] then [] else [Fsync_dir BLOBS]))
      else Inl (Storage_error ''unexpected room blob residue''))"

subsection \<open>The life of an archive\<close>

text \<open>How a program of the store ends: it completes; the process is killed after some operations; the transaction is
  refused and only the first operations of the clean-up succeed; or, \<open>Failed n k\<close>, an operation of the program itself fails
  after \<open>n\<close> others, among them the sync of a directory, and the process goes on. Then \<open>persistBlob\<close> removes its temporary
  file, if that succeeds (\<open>k\<close>), and nothing else.\<close>

datatype ending = Done | Killed nat | Refused nat | Failed nat nat

definition abandon :: "string \<Rightarrow> nat \<Rightarrow> disk \<Rightarrow> disk" where
  "abandon temp k d = run_io (take k (if entry d temp = None then [] else [Unlink temp])) d"

datatype store_event =
    Starts ending
  | Appends_file string string string ending
  | Appends_text string
  | Dies

text \<open>The flag is \<open>reconciledBlobRooms.has(id)\<close>, which dies with the process.\<close>

fun store_step :: "(string \<Rightarrow> string) \<Rightarrow> store_event \<Rightarrow> disk \<times> bool \<Rightarrow> disk \<times> bool" where
  "store_step sha (Starts ending) (d, ready) =
     (case reconcileBlobDirectory d of
        Inl e \<Rightarrow> (d, ready)
      | Inr ops \<Rightarrow> if ready then (d, True)
          else (case ending of Done \<Rightarrow> (run_io ops d, True) | Killed n \<Rightarrow> (run_io (take n ops) d, False)
            | Refused n \<Rightarrow> (run_io (take n ops) d, False) | Failed n k \<Rightarrow> (run_io (take n ops) d, False)))"
| "store_step sha (Appends_file payload bytes temp ending) (d, ready) =
     (if \<not> ready \<or> entry d temp \<noteq> None \<or> \<not> starts_with ''blobs/'' temp \<or> \<not> is_blob_temp (drop 6 temp) then (d, ready)
      else (case append_file sha d payload bytes temp of
          Inl e \<Rightarrow> (d, True)
        | Inr ops \<Rightarrow> (case ending of
            Done \<Rightarrow> (run_io ops d, True)
          | Killed n \<Rightarrow> (run_io (take n ops) d, False)
          | Refused n \<Rightarrow> (let c = run_io (butlast ops) d in
              (if butlast ops = [] then c else run_io (take n (removeUnreferencedBlob c (sha bytes))) c, True))
          | Failed n k \<Rightarrow> (abandon temp k (run_io (take n (butlast ops)) d), True))))"
| "store_step sha (Appends_text payload) (d, ready) =
     (if ready then (io_step (Commit \<lparr>sr_payload = payload, sr_blob = None\<rparr>) d, True) else (d, False))"
| "store_step sha Dies (d, ready) = (d, False)"

definition new_disk :: "disk \<Rightarrow> bool" where
  "new_disk d \<longleftrightarrow> dk_rows d = [] \<and> blob_names d = [] \<and> dk_pending d = [] \<and> dk_unsynced d = []
     \<and> (\<forall>n i. entry d n = Some i \<longrightarrow> i < dk_next d)"

definition no_room :: disk where
  "no_room = \<lparr>dk_entries = [], dk_pending = [], dk_data = (\<lambda>i. []), dk_unsynced = [], dk_rows = [], dk_next = 0\<rparr>"

text \<open>The sync of the blob directory is the fifth operation of \<open>persistBlob\<close>; a process that goes on after it failed
  takes the blob for persisted.\<close>

fun sync_fails :: "store_event \<Rightarrow> bool" where
  "sync_fails (Appends_file payload bytes temp (Failed n k)) \<longleftrightarrow> n = 4"
| "sync_fails e \<longleftrightarrow> False"

text \<open>The first flag records that such a sync has failed, the second that power was lost after one had.\<close>

inductive stored :: "(string \<Rightarrow> string) \<Rightarrow> bool \<Rightarrow> bool \<Rightarrow> disk \<times> bool \<Rightarrow> bool" for sha where
  created: "new_disk d \<Longrightarrow> stored sha False False (d, True)"
| event: "stored sha f l x \<Longrightarrow> stored sha (f \<or> sync_fails e) l (store_step sha e x)"
| power_loss: "stored sha f l (d, ready) \<Longrightarrow> crash d c \<Longrightarrow> stored sha f (l \<or> f) (c, False)"

subsection \<open>Entries\<close>

lemma entry_set_entry [simp]: "entry (set_entry n e d) m = (if m = n then e else entry d m)"
  by (auto simp: entry_def set_entry_def update_conv' delete_conv' split: option.split)

lemma set_entry_fields [simp]:
  "dk_pending (set_entry n e d) = (n, entry d n) # dk_pending d" "dk_data (set_entry n e d) = dk_data d"
  "dk_unsynced (set_entry n e d) = dk_unsynced d" "dk_rows (set_entry n e d) = dk_rows d" "dk_next (set_entry n e d) = dk_next d"
  by (simp_all add: set_entry_def)

lemma entry_fields [simp]:
  "entry (d\<lparr>dk_pending := p\<rparr>) = entry d" "entry (d\<lparr>dk_data := f\<rparr>) = entry d" "entry (d\<lparr>dk_unsynced := u\<rparr>) = entry d"
  "entry (d\<lparr>dk_rows := r\<rparr>) = entry d" "entry (d\<lparr>dk_next := k\<rparr>) = entry d"
  by (simp_all add: entry_def fun_eq_iff)

lemma entry_in_names: "entry d n \<noteq> None \<longleftrightarrow> n \<in> set (map fst (dk_entries d))"
  by (simp add: entry_def map_of_eq_None_iff)

text \<open>Every inode in use is older than the next one.\<close>

definition inodes_ok :: "disk \<Rightarrow> bool" where
  "inodes_ok d \<longleftrightarrow> (\<forall>n i. entry d n = Some i \<longrightarrow> i < dk_next d) \<and> (\<forall>n i. (n, Some i) \<in> set (dk_pending d) \<longrightarrow> i < dk_next d)
     \<and> (\<forall>i\<in>set (dk_unsynced d). i < dk_next d)"

text \<open>A blob that is there with its bytes; a strict one cannot be taken away by a power loss either.\<close>

definition settled :: "(string \<Rightarrow> string) \<Rightarrow> bool \<Rightarrow> disk \<Rightarrow> string \<Rightarrow> bool" where
  "settled sha s d h \<longleftrightarrow> (\<exists>i. entry d (blob_name h) = Some i \<and> (s \<longrightarrow> (\<forall>e. (blob_name h, e) \<notin> set (dk_pending d)))
     \<and> i \<notin> set (dk_unsynced d) \<and> sha (dk_data d i) = h)"

definition rows_ok :: "(string \<Rightarrow> string) \<Rightarrow> bool \<Rightarrow> disk \<Rightarrow> bool" where
  "rows_ok sha s d \<longleftrightarrow> (\<forall>r\<in>set (dk_rows d). \<forall>h. sr_blob r = Some h \<longrightarrow> sha256_ok h \<and> settled sha s d h)"

lemma settled_crash:
  assumes "settled sha True d h" and "crash d c" shows "settled sha s c h"
proof -
  from assms(1) obtain i where i: "entry d (blob_name h) = Some i" "\<forall>e. (blob_name h, e) \<notin> set (dk_pending d)"
    "i \<notin> set (dk_unsynced d)" "sha (dk_data d i) = h" by (auto simp: settled_def)
  with assms(2) have "entry c (blob_name h) = Some i" "dk_data c i = dk_data d i" "dk_pending c = []" "dk_unsynced c = []"
    unfolding crash_def by metis+
  with i show ?thesis by (simp add: settled_def)
qed

lemma settled_create: "settled sha s d h \<Longrightarrow> n \<noteq> blob_name h \<Longrightarrow> settled sha s (io_step (Create n) d) h"
  and settled_fsync: "settled sha s d h \<Longrightarrow> settled sha s (io_step (Fsync n) d) h"
  and settled_unlink: "settled sha s d h \<Longrightarrow> n \<noteq> blob_name h \<Longrightarrow> settled sha s (io_step (Unlink n) d) h"
  and settled_fsync_dir: "settled sha s d h \<Longrightarrow> settled sha s (io_step (Fsync_dir dir) d) h"
  and settled_commit: "settled sha s d h \<Longrightarrow> settled sha s (io_step (Commit r) d) h"
  and settled_rename: "settled sha s d h \<Longrightarrow> m \<noteq> blob_name h \<Longrightarrow> n \<noteq> blob_name h \<Longrightarrow> settled sha s (io_step (Rename m n) d) h"
  by (auto simp: settled_def split: option.split)

lemma settled_write:
  assumes "settled sha s d h" and "entry d n \<noteq> entry d (blob_name h)"
  shows "settled sha s (io_step (Write n bytes) d) h"
proof -
  from assms(1) obtain i where i: "entry d (blob_name h) = Some i" "s \<longrightarrow> (\<forall>e. (blob_name h, e) \<notin> set (dk_pending d))"
    "i \<notin> set (dk_unsynced d)" "sha (dk_data d i) = h" by (auto simp: settled_def)
  with assms(2) have "entry (io_step (Write n bytes) d) (blob_name h) = Some i" "dk_pending (io_step (Write n bytes) d) = dk_pending d"
    "i \<notin> set (dk_unsynced (io_step (Write n bytes) d))" "dk_data (io_step (Write n bytes) d) i = dk_data d i"
    by (auto split: option.split)
  with i show ?thesis by (simp add: settled_def)
qed

lemma inodes_step:
  assumes "inodes_ok d" and "\<And>n. op \<noteq> Rmtree n"
  shows "inodes_ok (io_step op d)"
proof (cases op)
  case (Create n)
  have "entry d n = Some i \<Longrightarrow> i < Suc (dk_next d)" for i using assms(1) by (auto simp: inodes_ok_def less_SucI)
  with assms(1) Create show ?thesis by (auto simp: inodes_ok_def less_SucI)
next
  case (Rmtree n)
  with assms(2) show ?thesis by blast
qed (use assms(1) in \<open>auto simp: inodes_ok_def split: option.split if_splits\<close>)

subsection \<open>Appending a file\<close>

lemma blob_name_inject [simp]: "blob_name g = blob_name h \<longleftrightarrow> g = h"
  by (simp add: blob_name_def)

lemma dir_of_blob [simp]: "dir_of (blob_name h) = BLOBS"
  by (simp add: dir_of_def blob_name_def BLOBS_def starts_with_def)

lemma drop_blob_name [simp]: "drop 6 (blob_name h) = h"
  by (simp add: blob_name_def)

lemma temp_no_digest: "is_blob_temp s \<Longrightarrow> \<not> sha256_ok s"
  by (cases s) (auto simp: is_blob_temp_def sha256_ok_def starts_with_def is_hex_lower_def is_digit_def in_range_def byte_def)

lemma temp_no_blob: "is_blob_temp (drop 6 t) \<Longrightarrow> sha256_ok h \<Longrightarrow> t \<noteq> blob_name h"
  using temp_no_digest by fastforce

lemma starts_with_blobs: "starts_with ''blobs/'' t \<Longrightarrow> dir_of t = BLOBS"
  by (auto simp: dir_of_def BLOBS_def starts_with_def)

text \<open>The blob being written: after each operation of \<open>persistBlob\<close> every other settled blob stays settled, and
  after the last one the new blob is settled.\<close>

definition keeps_settled :: "(string \<Rightarrow> string) \<Rightarrow> bool \<Rightarrow> disk \<Rightarrow> disk \<Rightarrow> bool" where
  "keeps_settled sha s d c \<longleftrightarrow> (\<forall>h. sha256_ok h \<longrightarrow> settled sha s d h \<longrightarrow> settled sha s c h) \<and> dk_rows c = dk_rows d
     \<and> inodes_ok c"

lemma keeps_settled_rows: "keeps_settled sha s d c \<Longrightarrow> rows_ok sha s d \<Longrightarrow> rows_ok sha s c"
  by (auto simp: keeps_settled_def rows_ok_def)

lemma keeps_settled_trans: "keeps_settled sha s d c \<Longrightarrow> keeps_settled sha s c b \<Longrightarrow> keeps_settled sha s d b"
  by (auto simp: keeps_settled_def)

definition blob_ops :: "string \<Rightarrow> string \<Rightarrow> string \<Rightarrow> io list" where
  "blob_ops temp bytes digest = [Create temp, Write temp bytes, Fsync temp, Rename temp (blob_name digest), Fsync_dir BLOBS]"

lemma blob_ops_steps:
  assumes i: "inodes_ok d" and t: "is_blob_temp (drop 6 temp)" and free: "entry d temp = None" "entry d (blob_name g) = None"
    and g: "sha256_ok g" "sha bytes = g"
  defines "c1 \<equiv> io_step (Create temp) d"
  defines "c2 \<equiv> io_step (Write temp bytes) c1"
  defines "c3 \<equiv> io_step (Fsync temp) c2"
  defines "c4 \<equiv> io_step (Rename temp (blob_name g)) c3"
  defines "c5 \<equiv> io_step (Fsync_dir BLOBS) c4"
  shows "keeps_settled sha s d c1" "keeps_settled sha s d c2" "keeps_settled sha s d c3" "keeps_settled sha s d c4"
    "keeps_settled sha s d c5" "settled sha s c5 g" "\<And>h. h \<noteq> g \<Longrightarrow> sha256_ok h \<Longrightarrow> entry c5 (blob_name h) = entry d (blob_name h)"
    "\<And>h. h \<noteq> g \<Longrightarrow> sha256_ok h \<Longrightarrow> entry c4 (blob_name h) = entry d (blob_name h)" "settled sha False c4 g"
    "\<And>h. sha256_ok h \<Longrightarrow> entry c1 (blob_name h) = entry d (blob_name h)" "entry c2 = entry c1" "entry c3 = entry c1"
proof -
  have tb: "sha256_ok h \<Longrightarrow> temp \<noteq> blob_name h" for h using temp_no_blob [OF t] .
  have e1: "entry c1 temp = Some (dk_next d)" "\<And>n. n \<noteq> temp \<Longrightarrow> entry c1 n = entry d n" by (simp_all add: c1_def)
  have old: "entry d n = Some k \<Longrightarrow> k < dk_next d" for n k using i by (simp add: inodes_ok_def)
  have i1: "inodes_ok c1" unfolding c1_def using i by (intro inodes_step) simp_all
  have k1: "settled sha s c1 h" if "sha256_ok h" "settled sha s d h" for h
    unfolding c1_def using settled_create [OF that(2)] tb [OF that(1)] by blast
  then show 1: "keeps_settled sha s d c1" using i1 by (simp add: keeps_settled_def) (simp add: c1_def)
  have k2: "settled sha s c2 h" if "sha256_ok h" "settled sha s d h" for h
  proof -
    have "\<exists>k. entry d (blob_name h) = Some k" using that(2) by (auto simp: settled_def)
    then obtain k where k: "entry d (blob_name h) = Some k" by blast
    have "entry c1 (blob_name h) = Some k" using e1(2) [of "blob_name h"] tb [OF that(1)] k by simp
    then have "entry c1 temp \<noteq> entry c1 (blob_name h)" using e1(1) old [OF k] by simp
    then show ?thesis unfolding c2_def using settled_write [OF k1 [OF that]] by blast
  qed
  have i2: "inodes_ok c2" unfolding c2_def using i1 by (intro inodes_step) simp_all
  have r: "dk_rows c1 = dk_rows d" "dk_rows c2 = dk_rows d" using e1(1) by (simp_all add: c1_def c2_def split: option.split)
  show 2: "keeps_settled sha s d c2" using k2 i2 r by (simp add: keeps_settled_def)
  have e2: "entry c2 = entry c1" "dk_data c2 (dk_next d) = bytes" using e1(1) by (simp_all add: c2_def)
  have i3: "inodes_ok c3" unfolding c3_def using i2 by (intro inodes_step) simp_all
  have e3: "entry c3 = entry c1" "dk_data c3 (dk_next d) = bytes" "dk_next d \<notin> set (dk_unsynced c3)" "dk_rows c3 = dk_rows d"
    using e1(1) e2 r by (simp_all add: c3_def)
  show 3: "keeps_settled sha s d c3" using settled_fsync [OF k2, of _ temp] i3 e3(4) by (simp add: keeps_settled_def c3_def)
  have i4: "inodes_ok c4" unfolding c4_def using i3 by (intro inodes_step) simp_all
  have k4: "settled sha s c4 h" if "sha256_ok h" "settled sha s d h" for h
  proof -
    have "g \<noteq> h" using that(2) free(2) by (auto simp: settled_def)
    then have "blob_name g \<noteq> blob_name h" by simp
    moreover have "settled sha s c3 h" using 3 that by (simp add: keeps_settled_def)
    ultimately show ?thesis unfolding c4_def using settled_rename tb [OF that(1)] by blast
  qed
  have e4: "entry c4 (blob_name g) = Some (dk_next d)" "dk_data c4 (dk_next d) = bytes" "dk_next d \<notin> set (dk_unsynced c4)" "dk_rows c4 = dk_rows d"
    using e1(1) e3 by (simp_all add: c4_def)
  show 4: "keeps_settled sha s d c4" using k4 i4 e4(4) by (simp add: keeps_settled_def)
  have i5: "inodes_ok c5" unfolding c5_def using i4 by (intro inodes_step) simp_all
  show 5: "keeps_settled sha s d c5" using settled_fsync_dir [OF k4] i5 e4(4) by (simp add: keeps_settled_def c5_def)
  show "settled sha s c5 g" using e4 g(2) by (auto simp: settled_def c5_def)
  show "entry c5 (blob_name h) = entry d (blob_name h)" if "h \<noteq> g" "sha256_ok h" for h
    using that e1 e3(1) tb [OF that(2)] by (simp add: c5_def c4_def)
  show "entry c4 (blob_name h) = entry d (blob_name h)" if "h \<noteq> g" "sha256_ok h" for h
    using that e1 e3(1) tb [OF that(2)] by (simp add: c4_def)
  show "settled sha False c4 g" using e4 g(2) by (auto simp: settled_def)
  show "entry c1 (blob_name h) = entry d (blob_name h)" if "sha256_ok h" for h
    using e1(2) [of "blob_name h"] tb [OF that] by simp
  show "entry c2 = entry c1" "entry c3 = entry c1" using e2(1) e3(1) by simp_all
qed

fun store_inv :: "(string \<Rightarrow> string) \<Rightarrow> bool \<Rightarrow> disk \<times> bool \<Rightarrow> bool" where
  "store_inv sha s (d, ready) = (inodes_ok d \<and> rows_ok sha s d
     \<and> (ready \<longrightarrow> (\<forall>h. sha256_ok h \<longrightarrow> entry d (blob_name h) \<noteq> None \<longrightarrow> settled sha s d h)))"

definition blob_row :: "string \<Rightarrow> string \<Rightarrow> stored_row" where
  "blob_row payload g = \<lparr>sr_payload = payload, sr_blob = Some g\<rparr>"

lemma commit_inv:
  assumes "inodes_ok d" and "rows_ok sha s d" and "\<And>h. sr_blob r = Some h \<Longrightarrow> sha256_ok h \<and> settled sha s d h"
  shows "inodes_ok (io_step (Commit r) d)" "rows_ok sha s (io_step (Commit r) d)"
proof -
  show "inodes_ok (io_step (Commit r) d)" using assms(1) by (intro inodes_step) simp_all
  show "rows_ok sha s (io_step (Commit r) d)"
    using assms(2,3) settled_commit [of sha s d _ r] by (auto simp: rows_ok_def simp del: io_step.simps) (auto simp: rows_ok_def)
qed

lemma take_six: "run_io (take n [a, b, c, d, e, f]) s \<in>
  {s, io_step a s, io_step b (io_step a s), io_step c (io_step b (io_step a s)), io_step d (io_step c (io_step b (io_step a s))),
   io_step e (io_step d (io_step c (io_step b (io_step a s)))), io_step f (io_step e (io_step d (io_step c (io_step b (io_step a s)))))}"
proof -
  consider "n = 0" | "n = 1" | "n = 2" | "n = 3" | "n = 4" | "n = 5" | "6 \<le> n" by linarith
  then show ?thesis by cases (simp_all add: run_io_def take_Cons')
qed

lemma append_file_inv:
  assumes inv: "inodes_ok d" "rows_ok sha s d" "\<And>h. sha256_ok h \<Longrightarrow> entry d (blob_name h) \<noteq> None \<Longrightarrow> settled sha s d h"
    and sha: "sha256_ok (sha bytes)" and t: "is_blob_temp (drop 6 temp)" "entry d temp = None"
    and ops: "append_file sha d payload bytes temp = Inr ops"
  shows "store_inv sha s (run_io ops d, True)" "store_inv sha s (run_io (take n ops) d, False)"
    "butlast ops \<noteq> [] \<Longrightarrow> store_inv sha s (run_io (take n (removeUnreferencedBlob (run_io (butlast ops) d) (sha bytes))) (run_io (butlast ops) d), True)"
    "butlast ops = [] \<Longrightarrow> run_io (butlast ops) d = d"
proof -
  let ?g = "sha bytes"
  let ?r = "blob_row payload ?g"
  have row: "\<lparr>sr_payload = payload, sr_blob = Some ?g\<rparr> = ?r" "sr_blob ?r = Some ?g" by (simp_all add: blob_row_def)
  have "store_inv sha s (run_io ops d, True) \<and> store_inv sha s (run_io (take n ops) d, False)
    \<and> (butlast ops \<noteq> [] \<longrightarrow> store_inv sha s (run_io (take n (removeUnreferencedBlob (run_io (butlast ops) d) ?g)) (run_io (butlast ops) d), True))"
  proof (cases "entry d (blob_name ?g)")
    case (Some i)
    then have o: "ops = [Commit ?r]" using ops row by (auto simp: append_file_def persistBlob_def content_of_def split: if_splits)
    have s: "settled sha s d ?g" using inv(3) sha Some by simp
    have c: "inodes_ok (io_step (Commit ?r) d)" "rows_ok sha s (io_step (Commit ?r) d)"
      using commit_inv [OF inv(1,2), of ?r] s sha row(2) by simp_all
    have "settled sha s (io_step (Commit ?r) d) h" if "sha256_ok h" "entry (io_step (Commit ?r) d) (blob_name h) \<noteq> None" for h
      using settled_commit [OF inv(3)] that by simp
    moreover have "run_io (take n ops) d = (if n = 0 then d else io_step (Commit ?r) d)"
      by (simp add: o run_io_def take_Cons')
    moreover have "run_io ops d = io_step (Commit ?r) d" by (simp add: o run_io_def del: io_step.simps)
    ultimately show ?thesis using c inv(1,2) by (simp add: o del: io_step.simps)
  next
    case None
    then have o: "ops = [Create temp, Write temp bytes, Fsync temp, Rename temp (blob_name ?g), Fsync_dir BLOBS, Commit ?r]"
      using ops row by (simp add: append_file_def persistBlob_def content_of_def)
    let ?c5 = "io_step (Fsync_dir BLOBS) (io_step (Rename temp (blob_name ?g)) (io_step (Fsync temp) (io_step (Write temp bytes) (io_step (Create temp) d))))"
    note st = blob_ops_steps [where sha = sha, OF inv(1) t(1) t(2) None sha refl]
    note rows = st(1-5) [THEN keeps_settled_rows, OF inv(2)]
    have ino: "inodes_ok c" if "keeps_settled sha s d c" for c using that by (simp add: keeps_settled_def)
    have ready5: "settled sha s ?c5 h" if "sha256_ok h" "entry ?c5 (blob_name h) \<noteq> None" for h
    proof (cases "h = ?g")
      case False
      then have "entry d (blob_name h) \<noteq> None" using st(7) [OF False that(1)] that(2) by (simp del: io_step.simps)
      then show ?thesis using inv(3) that(1) st(5) by (simp add: keeps_settled_def del: io_step.simps)
    qed (use st(6) in simp)
    have c6: "inodes_ok (io_step (Commit ?r) ?c5)" "rows_ok sha s (io_step (Commit ?r) ?c5)"
      using commit_inv [OF ino [OF st(5)] rows(5), of ?r] st(6) sha row(2) by simp_all
    have ready6: "settled sha s (io_step (Commit ?r) ?c5) h" if "sha256_ok h" "entry (io_step (Commit ?r) ?c5) (blob_name h) \<noteq> None" for h
    proof (rule settled_commit, rule ready5 [OF that(1)])
      have "entry (io_step (Commit r) c) = entry c" for r c by simp
      with that(2) show "entry ?c5 (blob_name h) \<noteq> None" by (simp del: io_step.simps)
    qed
    have "run_io ops d = io_step (Commit ?r) ?c5" by (simp add: o run_io_def del: io_step.simps)
    then have 1: "store_inv sha s (run_io ops d, True)" using c6 ready6 by (simp del: io_step.simps)
    have two: "inodes_ok x \<and> rows_ok sha s x" if "x \<in> {d, io_step (Create temp) d, io_step (Write temp bytes) (io_step (Create temp) d),
        io_step (Fsync temp) (io_step (Write temp bytes) (io_step (Create temp) d)),
        io_step (Rename temp (blob_name ?g)) (io_step (Fsync temp) (io_step (Write temp bytes) (io_step (Create temp) d))),
        ?c5, io_step (Commit ?r) ?c5}" for x
      using that inv(1,2) rows st(1-5) [THEN ino] c6 by (auto simp del: io_step.simps)
    have 2: "store_inv sha s (run_io (take n ops) d, False)" using two [OF take_six] unfolding o by simp
    have b: "run_io (butlast ops) d = ?c5" by (simp add: o run_io_def del: io_step.simps)
    let ?u = "io_step (Unlink (blob_name ?g)) ?c5"
    have 3: "store_inv sha s (run_io (take n (removeUnreferencedBlob ?c5 ?g)) ?c5, True)"
    proof (cases "removeUnreferencedBlob ?c5 ?g = []")
      case True
      then show ?thesis using ino [OF st(5)] rows(5) ready5 by (simp add: run_io_def del: io_step.simps)
    next
      case False
      then have free: "\<not> list_ex (\<lambda>r. sr_blob r = Some ?g) (dk_rows ?c5)" and
        rm: "removeUnreferencedBlob ?c5 ?g = [Unlink (blob_name ?g), Fsync_dir BLOBS]"
        by (auto simp: removeUnreferencedBlob_def simp del: io_step.simps split: if_splits)
      have eu: "entry ?u m = (if m = blob_name ?g then None else entry ?c5 m)" "dk_rows ?u = dk_rows ?c5" for m
        unfolding io_step.simps(5) by simp_all
      have u: "settled sha s ?u h" if "settled sha s ?c5 h" "h \<noteq> ?g" for h
        using settled_unlink [OF that(1), of "blob_name ?g"] that(2) by (simp del: io_step.simps)
      have iu: "inodes_ok ?u" by (rule inodes_step [OF ino [OF st(5)]]) simp
      have ru: "rows_ok sha s ?u"
        unfolding rows_ok_def eu(2) using rows(5) u free by (auto simp: rows_ok_def list_ex_iff simp del: io_step.simps)
      have yu: "settled sha s ?u h" if "sha256_ok h" "entry ?u (blob_name h) \<noteq> None" for h
        using that u ready5 [OF that(1)] by (simp add: eu(1) del: io_step.simps split: if_splits)
      let ?v = "io_step (Fsync_dir BLOBS) ?u"
      have ev: "entry ?v = entry ?u" "dk_rows ?v = dk_rows ?u" unfolding io_step.simps(7) by simp_all
      have "inodes_ok ?v" by (rule inodes_step [OF iu]) simp
      moreover have "rows_ok sha s ?v" using ru settled_fsync_dir unfolding rows_ok_def ev(2) by blast
      moreover have "settled sha s ?v h" if "sha256_ok h" "entry ?v (blob_name h) \<noteq> None" for h
        using settled_fsync_dir [OF yu] that unfolding ev(1) by blast
      ultimately have "store_inv sha s (?v, True)" by (simp del: io_step.simps)
      moreover have "store_inv sha s (?u, True)" using iu ru yu by (simp del: io_step.simps)
      moreover have "store_inv sha s (?c5, True)" using ino [OF st(5)] rows(5) ready5 by (simp del: io_step.simps)
      moreover have "run_io (take n [Unlink (blob_name ?g), Fsync_dir BLOBS]) ?c5 \<in> {?c5, ?u, ?v}"
      proof -
        consider "n = 0" | "n = 1" | "2 \<le> n" by linarith
        then show ?thesis by cases (simp_all add: run_io_def take_Cons' del: io_step.simps)
      qed
      ultimately show ?thesis unfolding rm by (auto simp del: io_step.simps store_inv.simps)
    qed
    show ?thesis using 1 2 3 unfolding b by blast
  qed
  then show "store_inv sha s (run_io ops d, True)" "store_inv sha s (run_io (take n ops) d, False)"
    "butlast ops \<noteq> [] \<Longrightarrow> store_inv sha s (run_io (take n (removeUnreferencedBlob (run_io (butlast ops) d) ?g)) (run_io (butlast ops) d), True)"
    by blast+
  show "butlast ops = [] \<Longrightarrow> run_io (butlast ops) d = d" by (simp add: run_io_def)
qed

text \<open>An append whose blob could not be persisted: only after a failed sync of the directory is there a blob that a
  power loss can take away.\<close>

lemma abandon_inv:
  assumes "store_inv sha s (c, True)" and "is_blob_temp (drop 6 temp)"
  shows "store_inv sha s (abandon temp k c, True)"
proof -
  let ?u = "io_step (Unlink temp) c"
  have tb: "sha256_ok h \<Longrightarrow> temp \<noteq> blob_name h" for h using temp_no_blob [OF assms(2)] .
  have e: "dk_rows ?u = dk_rows c" "entry ?u n = (if n = temp then None else entry c n)" for n by simp_all
  have k: "settled sha s ?u h" if "sha256_ok h" "settled sha s c h" for h using settled_unlink [OF that(2) tb [OF that(1)]] .
  have "inodes_ok ?u" using assms(1) by (intro inodes_step) simp_all
  moreover have "rows_ok sha s ?u" using assms(1) k by (simp add: rows_ok_def e(1) del: io_step.simps)
  moreover have "settled sha s ?u h" if "sha256_ok h" "entry ?u (blob_name h) \<noteq> None" for h
    using that assms(1) k by (simp add: e(2) del: io_step.simps split: if_splits)
  ultimately have "store_inv sha s (?u, True)" by (simp del: io_step.simps)
  moreover have "abandon temp k c \<in> {c, ?u}"
    by (cases k) (auto simp: abandon_def run_io_def simp del: io_step.simps)
  ultimately show ?thesis using assms(1) by auto
qed

lemma append_failed_inv:
  assumes inv: "inodes_ok d" "rows_ok sha s d" "\<And>h. sha256_ok h \<Longrightarrow> entry d (blob_name h) \<noteq> None \<Longrightarrow> settled sha s d h"
    and sha: "sha256_ok (sha bytes)" and t: "is_blob_temp (drop 6 temp)" "entry d temp = None"
    and ops: "append_file sha d payload bytes temp = Inr ops" and n: "s \<Longrightarrow> n \<noteq> 4"
  shows "store_inv sha s (abandon temp k (run_io (take n (butlast ops)) d), True)"
proof (intro abandon_inv t(1), cases "entry d (blob_name (sha bytes))")
  case (Some i)
  then have "butlast ops = []" using ops by (auto simp: append_file_def persistBlob_def content_of_def split: if_splits)
  then show "store_inv sha s (run_io (take n (butlast ops)) d, True)" using inv by (simp add: run_io_def)
next
  case None
  let ?g = "sha bytes"
  let ?c1 = "io_step (Create temp) d" let ?c2 = "io_step (Write temp bytes) ?c1" let ?c3 = "io_step (Fsync temp) ?c2"
  let ?c4 = "io_step (Rename temp (blob_name ?g)) ?c3" let ?c5 = "io_step (Fsync_dir BLOBS) ?c4"
  have o: "butlast ops = [Create temp, Write temp bytes, Fsync temp, Rename temp (blob_name ?g), Fsync_dir BLOBS]"
    using ops None by (auto simp: append_file_def persistBlob_def content_of_def)
  note st = blob_ops_steps [where sha = sha, OF inv(1) t None sha refl]
  have ready: "store_inv sha s (c, True)" if "keeps_settled sha s d c"
    and "\<And>h. sha256_ok h \<Longrightarrow> entry c (blob_name h) \<noteq> None \<Longrightarrow> entry d (blob_name h) \<noteq> None \<or> settled sha s c h" for c
    using that inv keeps_settled_rows [OF that(1) inv(2)] unfolding keeps_settled_def store_inv.simps by blast
  have c: "store_inv sha s (d, True)" "store_inv sha s (?c1, True)" "store_inv sha s (?c2, True)" "store_inv sha s (?c3, True)"
    using inv ready [OF st(1)] ready [OF st(2)] ready [OF st(3)] st(10-12) by (simp_all del: io_step.simps)
  have c4: "store_inv sha s (?c4, True)" if "\<not> s"
    using ready [OF st(4)] st(8,9) that by (metis (full_types))
  have c5: "store_inv sha s (?c5, True)" using ready [OF st(5)] st(6,7) by metis
  consider "n = 0" | "n = 1" | "n = 2" | "n = 3" | "n = 4" "\<not> s" | "5 \<le> n" using n by linarith
  then show "store_inv sha s (run_io (take n (butlast ops)) d, True)"
    by cases (use c c4 c5 in \<open>simp_all add: o run_io_def take_Cons' del: io_step.simps store_inv.simps\<close>)
qed

subsection \<open>Reconciling\<close>

lemma unlinks:
  assumes "inodes_ok d" and "\<And>h. sha256_ok h \<Longrightarrow> settled sha s d h \<Longrightarrow> blob_name h \<notin> set ns \<or> \<not> K h"
  shows "inodes_ok (run_io (map Unlink ns) d) \<and> dk_rows (run_io (map Unlink ns) d) = dk_rows d
    \<and> (\<forall>n. entry (run_io (map Unlink ns) d) n = (if n \<in> set ns then None else entry d n))
    \<and> (\<forall>h. sha256_ok h \<longrightarrow> settled sha s d h \<longrightarrow> K h \<longrightarrow> settled sha s (run_io (map Unlink ns) d) h)"
  using assms
proof (induction ns arbitrary: d)
  case Nil
  then show ?case by (simp add: run_io_def)
next
  case (Cons n ns)
  let ?u = "io_step (Unlink n) d"
  have e: "entry ?u m = (if m = n then None else entry d m)" "dk_rows ?u = dk_rows d" for m by simp_all
  have i: "inodes_ok ?u" using Cons.prems(1) by (intro inodes_step) simp_all
  have prior: "settled sha s d h" if "settled sha s ?u h" for h
  proof -
    have "set (dk_pending d) \<subseteq> set (dk_pending ?u)" "dk_unsynced ?u = dk_unsynced d" "dk_data ?u = dk_data d" by auto
    then show ?thesis using that e(1) [of "blob_name h"] by (fastforce simp: settled_def simp del: io_step.simps split: if_splits)
  qed
  have fwd: "settled sha s ?u h" if "sha256_ok h" "settled sha s d h" "K h" for h
    using Cons.prems(2) [OF that(1,2)] that(3) by (intro settled_unlink [OF that(2)]) auto
  have "blob_name h \<notin> set ns \<or> \<not> K h" if "sha256_ok h" "settled sha s ?u h" for h
    using Cons.prems(2) [OF that(1) prior [OF that(2)]] by auto
  from Cons.IH [OF i this] have IH: "inodes_ok (run_io (map Unlink ns) ?u)" "dk_rows (run_io (map Unlink ns) ?u) = dk_rows d"
    "\<And>m. entry (run_io (map Unlink ns) ?u) m = (if m \<in> set ns then None else entry ?u m)"
    "\<And>h. sha256_ok h \<Longrightarrow> settled sha s ?u h \<Longrightarrow> K h \<Longrightarrow> settled sha s (run_io (map Unlink ns) ?u) h"
    unfolding e(2) by blast+
  have "run_io (map Unlink (n # ns)) d = run_io (map Unlink ns) ?u" by (simp add: run_io_def)
  then show ?case using IH fwd e(1) by (simp del: io_step.simps)
qed

lemma referenced_not_residue:
  assumes "sha256_ok h" and "referenced d (blob_name h)"
  shows "blob_name h \<notin> set (residue d)"
  using assms temp_no_digest [of h] by (auto simp: residue_def)

lemma rows_referenced: "r \<in> set (dk_rows d) \<Longrightarrow> sr_blob r = Some h \<Longrightarrow> referenced d (blob_name h)"
  by (auto simp: referenced_def list_ex_iff)

lemma referenced_row: "referenced d (blob_name h) \<Longrightarrow> \<exists>r\<in>set (dk_rows d). sr_blob r = Some h"
  by (auto simp: referenced_def list_ex_iff)

lemma not_residue_referenced: "entry d (blob_name h) \<noteq> None \<Longrightarrow> blob_name h \<notin> set (residue d) \<Longrightarrow> referenced d (blob_name h)"
  unfolding entry_in_names by (auto simp: residue_def blob_names_def)

lemma partial_unlinks:
  assumes "inodes_ok d" and "rows_ok sha s d" and "set ns \<subseteq> set (residue d)"
  shows "inodes_ok (run_io (map Unlink ns) d)" "rows_ok sha s (run_io (map Unlink ns) d)"
    "dk_rows (run_io (map Unlink ns) d) = dk_rows d"
    "\<And>n. entry (run_io (map Unlink ns) d) n = (if n \<in> set ns then None else entry d n)"
proof -
  have "blob_name h \<notin> set ns \<or> \<not> referenced d (blob_name h)" if "sha256_ok h" for h
    using referenced_not_residue [OF that, of d] assms(3) by blast
  then have u: "inodes_ok (run_io (map Unlink ns) d) \<and> dk_rows (run_io (map Unlink ns) d) = dk_rows d
    \<and> (\<forall>n. entry (run_io (map Unlink ns) d) n = (if n \<in> set ns then None else entry d n))
    \<and> (\<forall>h. sha256_ok h \<longrightarrow> settled sha s d h \<longrightarrow> referenced d (blob_name h) \<longrightarrow> settled sha s (run_io (map Unlink ns) d) h)"
    using assms(1) by (intro unlinks) simp_all
  then show "inodes_ok (run_io (map Unlink ns) d)" "dk_rows (run_io (map Unlink ns) d) = dk_rows d"
    "\<And>n. entry (run_io (map Unlink ns) d) n = (if n \<in> set ns then None else entry d n)" by blast+
  show "rows_ok sha s (run_io (map Unlink ns) d)"
    using u assms(2) rows_referenced unfolding rows_ok_def by metis
qed

lemma fsync_dir_inv:
  assumes "inodes_ok d" and "rows_ok sha s d"
  shows "inodes_ok (io_step (Fsync_dir dir) d)" "rows_ok sha s (io_step (Fsync_dir dir) d)" "entry (io_step (Fsync_dir dir) d) = entry d"
proof -
  show "inodes_ok (io_step (Fsync_dir dir) d)" using assms(1) by (intro inodes_step) simp_all
  have "dk_rows (io_step (Fsync_dir dir) d) = dk_rows d" by simp
  then show "rows_ok sha s (io_step (Fsync_dir dir) d)"
    using assms(2) settled_fsync_dir [of sha s d _ dir] unfolding rows_ok_def by metis
  show "entry (io_step (Fsync_dir dir) d) = entry d" by simp
qed

lemma run_io_append: "run_io (xs @ ys) d = run_io ys (run_io xs d)"
  by (simp add: run_io_def)

lemma reconcile_blobs_inv:
  assumes "inodes_ok d" and "rows_ok sha s d" and "reconcileBlobDirectory d = Inr ops"
  shows "store_inv sha s (run_io ops d, True)" "store_inv sha s (run_io (take n ops) d, False)"
proof -
  let ?ns = "residue d"
  have ops: "ops = map Unlink ?ns @ (if ?ns = [] then [] else [Fsync_dir BLOBS])"
    using assms(3) by (simp add: reconcileBlobDirectory_def split: if_splits)
  note full = partial_unlinks [OF assms(1,2) subset_refl]
  let ?c = "run_io (map Unlink ?ns) d"
  have end1: "run_io ops d = (if ?ns = [] then ?c else io_step (Fsync_dir BLOBS) ?c)"
    by (simp add: ops run_io_append) (simp add: run_io_def)
  note sync = fsync_dir_inv [OF full(1,2), of BLOBS]
  have fin: "inodes_ok (run_io ops d)" "rows_ok sha s (run_io ops d)" "entry (run_io ops d) = entry ?c" "dk_rows (run_io ops d) = dk_rows d"
  proof -
    have "run_io ops d = ?c \<or> run_io ops d = io_step (Fsync_dir BLOBS) ?c" unfolding end1 by (simp only: split: if_split) simp
    moreover have "dk_rows (io_step (Fsync_dir BLOBS) ?c) = dk_rows ?c" by simp
    ultimately show "inodes_ok (run_io ops d)" "rows_ok sha s (run_io ops d)" "entry (run_io ops d) = entry ?c" "dk_rows (run_io ops d) = dk_rows d"
      using full(1-3) sync by metis+
  qed
  have "settled sha s (run_io ops d) h" if "sha256_ok h" "entry (run_io ops d) (blob_name h) \<noteq> None" for h
  proof -
    have "entry d (blob_name h) \<noteq> None" "blob_name h \<notin> set ?ns" using that(2) unfolding fin(3) full(4) by (auto split: if_splits)
    then have "referenced d (blob_name h)" by (rule not_residue_referenced)
    then obtain r where "r \<in> set (dk_rows d)" "sr_blob r = Some h" using referenced_row by blast
    then show ?thesis using fin(2,4) by (simp add: rows_ok_def)
  qed
  then show "store_inv sha s (run_io ops d, True)" using fin by simp
  show "store_inv sha s (run_io (take n ops) d, False)"
  proof (cases "n \<le> length ?ns")
    case True
    then have "take n ops = map Unlink (take n ?ns)" by (simp add: ops take_map)
    then show ?thesis using partial_unlinks [OF assms(1,2), of "take n ?ns"] by (simp add: set_take_subset)
  next
    case False
    then have "length ops \<le> n" by (simp add: ops Suc_leI)
    then have "take n ops = ops" by simp
    then show ?thesis using fin by simp
  qed
qed

lemma crash_inv:
  assumes "inodes_ok d" and "rows_ok sha True d" and "crash d c"
  shows "store_inv sha s (c, False)"
proof -
  have "inodes_ok c" using assms(1,3) unfolding inodes_ok_def crash_def by (metis empty_iff list.set(1))
  moreover have "dk_rows c = dk_rows d" using assms(3) by (simp add: crash_def)
  then have "rows_ok sha s c" using assms(2) settled_crash [OF _ assms(3)] unfolding rows_ok_def by auto
  ultimately show ?thesis by simp
qed

lemma event_inv:
  assumes "store_inv sha s x" and sha: "\<And>b. sha256_ok (sha b)" and sync: "s \<Longrightarrow> \<not> sync_fails e"
  shows "store_inv sha s (store_step sha e x)"
proof -
  obtain d ready where x: "x = (d, ready)" by (cases x)
  from assms(1) x have d: "inodes_ok d" "rows_ok sha s d" "ready \<Longrightarrow> sha256_ok h \<Longrightarrow> entry d (blob_name h) \<noteq> None \<Longrightarrow> settled sha s d h" for h
    by auto
  then have same: "store_inv sha s (d, ready)" "store_inv sha s (d, False)" by auto
  show ?thesis
  proof (cases e)
    case (Starts ending)
    then show ?thesis using same reconcile_blobs_inv [OF d(1,2)] unfolding x
      by (cases ready; cases "reconcileBlobDirectory d"; cases ending) (simp_all del: store_inv.simps)
  next
    case (Appends_file payload bytes temp ending)
    show ?thesis
    proof (cases "\<not> ready \<or> entry d temp \<noteq> None \<or> \<not> starts_with ''blobs/'' temp \<or> \<not> is_blob_temp (drop 6 temp)")
      case True
      then show ?thesis using same unfolding x Appends_file by (simp del: store_inv.simps)
    next
      case False
      then have ready: ready and t: "is_blob_temp (drop 6 temp)" "entry d temp = None" by auto
      show ?thesis
      proof (cases "append_file sha d payload bytes temp")
        case (Inl err)
        then show ?thesis using same ready False unfolding x Appends_file by (simp del: store_inv.simps)
      next
        case (Inr ops)
        note done1 = append_file_inv [OF d(1,2) d(3) [OF ready] sha t Inr] append_failed_inv [OF d(1,2) d(3) [OF ready] sha t Inr]
        show ?thesis using False Inr done1 same(1) ready sync unfolding x Appends_file
          by (cases ending) (simp_all add: Let_def del: store_inv.simps)
      qed
    qed
  next
    case (Appends_text payload)
    have "settled sha s (io_step (Commit r) d) h" if "ready" "sha256_ok h" "entry (io_step (Commit r) d) (blob_name h) \<noteq> None" for r h
      using settled_commit [OF d(3) [OF that(1,2)]] that(3) by simp
    then show ?thesis using same commit_inv [OF d(1,2), of "\<lparr>sr_payload = payload, sr_blob = None\<rparr>"] unfolding x Appends_text
      by (cases ready) (simp_all del: io_step.simps)
  next
    case Dies
    then show ?thesis using same unfolding x by simp
  qed
qed

lemma stored_inv:
  assumes "stored sha f l x" and sha: "\<And>b. sha256_ok (sha b)"
  shows "(\<not> f \<longrightarrow> store_inv sha True x) \<and> (\<not> l \<longrightarrow> store_inv sha False x)"
  using assms(1)
proof induction
  case (created d)
  have "entry d (blob_name h) = None" for h
  proof (rule ccontr)
    assume "entry d (blob_name h) \<noteq> None"
    then have "blob_name h \<in> set (blob_names d)" unfolding entry_in_names by (simp add: blob_names_def)
    with created show False by (simp add: new_disk_def)
  qed
  with created show ?case by (auto simp: new_disk_def inodes_ok_def rows_ok_def)
next
  case (event f l x e)
  then show ?case using event_inv [where sha = sha and x = x and e = e, OF _ sha] by blast
next
  case (power_loss f l d ready c)
  then show ?case using crash_inv [of d sha c] by (auto simp del: store_inv.simps(1)) (simp_all)
qed

text \<open>C24: whatever appends, kills, failed operations, failed transactions and power losses a room goes through, and in
  whatever order, every committed file record has its blob on disk with exactly the bytes of its digest, unless power was
  lost after the sync of the blob directory had failed and the process had gone on; and one more power loss leaves it
  there, unless such a sync has failed. (A failed sync does lose committed blobs: theorem \<open>failed_sync_loses_blob\<close> of
  \<open>Crashes\<close>.)\<close>

theorem committed_blob_survives:
  assumes "stored sha failed lost (d, ready)" and "\<And>b. sha256_ok (sha b)"
    and "r \<in> set (dk_rows d)" and "sr_blob r = Some h"
    and "c = d \<and> \<not> lost \<or> crash d c \<and> \<not> failed"
  shows "r \<in> set (dk_rows c) \<and> (\<exists>bytes. content_of c (blob_name h) = Some bytes \<and> sha bytes = h)"
proof -
  note inv = stored_inv [OF assms(1,2)]
  have "settled sha False c h \<and> dk_rows c = dk_rows d" using assms(5)
  proof
    assume c: "c = d \<and> \<not> lost"
    then have "rows_ok sha False d" using inv by simp
    with c assms(3,4) show ?thesis by (simp add: rows_ok_def)
  next
    assume c: "crash d c \<and> \<not> failed"
    then have "rows_ok sha True d" using inv by simp
    with c assms(3,4) have "settled sha True d h" by (simp add: rows_ok_def)
    with c show ?thesis using settled_crash by (auto simp: crash_def)
  qed
  then show ?thesis using assms(3) by (auto simp: settled_def content_of_def)
qed

text \<open>A first file, committed; every digest is the same sixty-four zeros here.\<close>

definition zero_sha :: "string \<Rightarrow> string" where
  "zero_sha bytes = replicate 64 (CHR ''0'')"

definition first_file :: disk where
  "first_file = fst (store_step zero_sha (Appends_file ''{}'' ''abc'' ''blobs/.tmp-1-0123456789abcdef'' Done) (no_room, True))"

lemma first_file_stored: "stored zero_sha False False (first_file, True)"
proof -
  have "new_disk no_room" by (simp add: new_disk_def no_room_def blob_names_def entry_def)
  then have "stored zero_sha (False \<or> sync_fails (Appends_file ''{}'' ''abc'' ''blobs/.tmp-1-0123456789abcdef'' Done)) False
      (store_step zero_sha (Appends_file ''{}'' ''abc'' ''blobs/.tmp-1-0123456789abcdef'' Done) (no_room, True))"
    by (rule stored.event [OF stored.created])
  moreover have "store_step zero_sha (Appends_file ''{}'' ''abc'' ''blobs/.tmp-1-0123456789abcdef'' Done) (no_room, True) = (first_file, True)"
    unfolding first_file_def
    by (simp add: no_room_def entry_def append_file_def persistBlob_def content_of_def starts_with_def is_blob_temp_def
        is_digit_def is_hex_lower_def in_range_def byte_def Let_def)
  ultimately show ?thesis by simp
qed

lemma zero_digest: "sha256_ok (zero_sha b)"
proof -
  have "is_hex_lower (CHR ''0'')" by code_simp
  then have "\<forall>c\<in>set (zero_sha b). is_hex_lower c" by (simp add: zero_sha_def)
  then show ?thesis by (simp add: sha256_ok_def list_all_iff) (simp add: zero_sha_def)
qed

lemma first_file_row: "blob_row ''{}'' (zero_sha ''abc'') \<in> set (dk_rows first_file)"
  by (simp add: first_file_def no_room_def entry_def append_file_def persistBlob_def content_of_def starts_with_def is_blob_temp_def
      is_digit_def is_hex_lower_def in_range_def byte_def Let_def run_io_def blob_row_def)

text \<open>It is there after a power loss; and it is there now, if a first append failed in the sync of the directory and a
  second one committed the record.\<close>

definition failed_append :: store_event where
  "failed_append = Appends_file ''{}'' ''abc'' ''blobs/.tmp-1-0123456789abcdef'' (Failed 4 1)"

definition retried_append :: store_event where
  "retried_append = Appends_file ''{}'' ''abc'' ''blobs/.tmp-1-00000000000000ff'' Done"

definition retried_file :: "disk \<times> bool" where
  "retried_file = store_step zero_sha retried_append (store_step zero_sha failed_append (no_room, True))"

lemma retried_file_stored: "stored zero_sha True False (fst retried_file, snd retried_file)"
proof -
  have "new_disk no_room" by (simp add: new_disk_def no_room_def blob_names_def entry_def)
  then have "stored zero_sha ((False \<or> sync_fails failed_append) \<or> sync_fails retried_append) False retried_file"
    unfolding retried_file_def by (intro stored.event stored.created)
  then show ?thesis by (simp add: failed_append_def retried_append_def)
qed

lemma retried_file_row: "dk_rows (fst retried_file) = [blob_row ''{}'' (zero_sha ''abc'')]"
  by code_simp

theorem committed_blob_witness:
  "(\<exists>bytes. content_of (fst retried_file) (blob_name (zero_sha ''abc'')) = Some bytes \<and> zero_sha bytes = zero_sha ''abc'')
   \<and> (\<exists>bytes. content_of (first_file\<lparr>dk_pending := [], dk_unsynced := []\<rparr>) (blob_name (zero_sha ''abc'')) = Some bytes
        \<and> zero_sha bytes = zero_sha ''abc'')"
proof -
  have "crash first_file (first_file\<lparr>dk_pending := [], dk_unsynced := []\<rparr>)" by (simp add: crash_def)
  then show ?thesis
    using committed_blob_survives [OF first_file_stored zero_digest first_file_row, of "zero_sha ''abc''" "first_file\<lparr>dk_pending := [], dk_unsynced := []\<rparr>"]
      committed_blob_survives [OF retried_file_stored zero_digest, of "blob_row ''{}'' (zero_sha ''abc'')" "zero_sha ''abc''" "fst retried_file"]
      retried_file_row
    by (simp add: blob_row_def)
qed

end
