(* ===== verification/Crashes.thy ===== *)
theory Crashes
  imports Durability
begin

section \<open>Metadata, creation and deletion under crashes\<close>

text \<open>
  The rest of what \<open>src/storage.ts\<close> says about crashes: room metadata is replaced atomically, deletion can be
  resumed from wherever it stopped; and three things a crash or a failed sync does leave behind: a room that
  was being created and now blocks the listing, a temporary file that blocks deletion for ever, and a blob
  that a later append trusts although its directory was never synced. The provisioning
  directories of an older release, which a deletion removes before anything else, are left out.
\<close>

subsection \<open>Metadata\<close>

text \<open>The metadata a room may be found with: one of the versions written so far, and never a torn one.\<close>

inductive metadata_run :: "string list \<Rightarrow> disk \<Rightarrow> bool" where
  first: "inodes_ok d \<Longrightarrow> dk_pending d = [] \<Longrightarrow> dk_unsynced d = [] \<Longrightarrow> content_of d METADATA = Some v \<Longrightarrow> metadata_run [v] d"
| part_written: "metadata_run vs d \<Longrightarrow> entry d temp = None \<Longrightarrow> temp \<noteq> METADATA
    \<Longrightarrow> metadata_run (v # vs) (run_io (take n (atomicBytesWrite METADATA temp v)) d)"
| lost_power: "metadata_run vs d \<Longrightarrow> crash d c \<Longrightarrow> metadata_run vs c"

definition may_be :: "disk \<Rightarrow> string \<Rightarrow> nat option \<Rightarrow> bool" where
  "may_be d n e \<longleftrightarrow> e = entry d n \<or> (n, e) \<in> set (dk_pending d)"

definition version :: "string list \<Rightarrow> disk \<Rightarrow> nat option \<Rightarrow> bool" where
  "version vs d e \<longleftrightarrow> (\<exists>i. e = Some i \<and> i < dk_next d \<and> i \<notin> set (dk_unsynced d) \<and> dk_data d i \<in> set vs)"

definition metadata_ok :: "string list \<Rightarrow> disk \<Rightarrow> bool" where
  "metadata_ok vs d \<longleftrightarrow> inodes_ok d \<and> (\<forall>e. may_be d METADATA e \<longrightarrow> version vs d e)"

lemma may_be_crash: "crash d c \<Longrightarrow> may_be c n e \<Longrightarrow> may_be d n e"
  by (auto simp: crash_def may_be_def)

lemma version_crash:
  assumes "crash d c" and "version vs d e" shows "version vs c e"
proof -
  from assms(2) obtain i where "e = Some i" "i < dk_next d" "i \<notin> set (dk_unsynced d)" "dk_data d i \<in> set vs"
    by (auto simp: version_def)
  with assms(1) show ?thesis by (simp add: version_def crash_def)
qed

lemma inodes_crash:
  assumes "crash d c" and "inodes_ok d" shows "inodes_ok c"
proof -
  have "i < dk_next c" if "entry c n = Some i" for n i
  proof -
    have "may_be d n (Some i)" using assms(1) that may_be_crash [of d c n "Some i"] by (simp add: may_be_def)
    with assms show ?thesis by (auto simp: may_be_def inodes_ok_def crash_def)
  qed
  with assms(1) show ?thesis by (simp add: inodes_ok_def crash_def)
qed

lemma metadata_ok_crash:
  assumes "metadata_ok vs d" and "crash d c" shows "metadata_ok vs c"
proof -
  have "version vs c e" if "may_be c METADATA e" for e
    using version_crash [OF assms(2)] may_be_crash [OF assms(2) that] assms(1) by (simp add: metadata_ok_def)
  then show ?thesis using inodes_crash [OF assms(2)] assms(1) by (simp add: metadata_ok_def)
qed

lemma metadata_ok_more: "metadata_ok vs d \<Longrightarrow> metadata_ok (v # vs) d"
  by (auto simp: metadata_ok_def version_def)

lemma version_keeps:
  assumes "version vs d e" and "dk_next d \<le> dk_next c"
    and "\<And>i. i < dk_next d \<Longrightarrow> i \<notin> set (dk_unsynced d) \<Longrightarrow> i \<notin> set (dk_unsynced c) \<and> dk_data c i = dk_data d i"
  shows "version vs c e"
proof -
  from assms(1) obtain i where i: "e = Some i" "i < dk_next d" "i \<notin> set (dk_unsynced d)" "dk_data d i \<in> set vs"
    by (auto simp: version_def)
  with assms(2) assms(3) [OF i(2,3)] show ?thesis by (auto simp: version_def)
qed

lemma atomic_write_steps:
  fixes v :: string
  assumes ok: "metadata_ok vs d" and t: "entry d temp = None" "temp \<noteq> METADATA"
  defines "c1 \<equiv> io_step (Create temp) d"
  defines "c2 \<equiv> io_step (Write temp v) c1"
  defines "c3 \<equiv> io_step (Fsync temp) c2"
  defines "c4 \<equiv> io_step (Rename temp METADATA) c3"
  defines "c5 \<equiv> io_step (Fsync_dir (dir_of METADATA)) c4"
  shows "metadata_ok (v # vs) c1" "metadata_ok (v # vs) c2" "metadata_ok (v # vs) c3" "metadata_ok (v # vs) c4" "metadata_ok (v # vs) c5"
    "entry c5 METADATA = Some (dk_next d)" "dk_data c5 (dk_next d) = v" "dk_next d \<notin> set (dk_unsynced c5)" "\<And>e. (METADATA, e) \<notin> set (dk_pending c5)"
proof -
  have i: "inodes_ok d" using ok by (simp add: metadata_ok_def)
  have i1: "inodes_ok c1" unfolding c1_def by (rule inodes_step [OF i]) simp
  have i2: "inodes_ok c2" unfolding c2_def by (rule inodes_step [OF i1]) simp
  have i3: "inodes_ok c3" unfolding c3_def by (rule inodes_step [OF i2]) simp
  have i4: "inodes_ok c4" unfolding c4_def by (rule inodes_step [OF i3]) simp
  have i5: "inodes_ok c5" unfolding c5_def by (rule inodes_step [OF i4]) simp
  have old: "version (v # vs) d e" if "may_be d METADATA e" for e
    using ok that by (auto simp: metadata_ok_def version_def)
  have e1: "entry c1 n = (if n = temp then Some (dk_next d) else entry d n)" for n by (simp add: c1_def)
  have m1: "may_be c1 METADATA e \<longleftrightarrow> may_be d METADATA e" for e
    using t(2) by (auto simp: may_be_def c1_def)
  have v1: "version (v # vs) d e \<Longrightarrow> version (v # vs) c1 e" for e
    by (rule version_keeps) (simp_all add: c1_def)
  show 1: "metadata_ok (v # vs) c1" using i1 m1 v1 old by (simp add: metadata_ok_def)
  have fields2: "entry c2 = entry c1" "dk_pending c2 = dk_pending c1" "dk_next c2 = Suc (dk_next d)" "dk_data c2 = (dk_data d)(dk_next d := v)"
    "dk_unsynced c2 = dk_next d # dk_unsynced d" using e1 by (simp_all add: c2_def) (simp_all add: c1_def)
  have m2: "may_be c2 METADATA e \<longleftrightarrow> may_be d METADATA e" for e
    using m1 fields2 by (simp add: may_be_def)
  have v2: "version (v # vs) d e \<Longrightarrow> version (v # vs) c2 e" for e
    by (rule version_keeps) (auto simp: fields2)
  show 2: "metadata_ok (v # vs) c2" using i2 m2 v2 old by (simp add: metadata_ok_def)
  have fields3: "entry c3 = entry c1" "dk_pending c3 = dk_pending c1" "dk_next c3 = Suc (dk_next d)" "dk_data c3 = (dk_data d)(dk_next d := v)"
    "dk_unsynced c3 = removeAll (dk_next d) (dk_unsynced d)" using e1 fields2 by (simp_all add: c3_def)
  have m3: "may_be c3 METADATA e \<longleftrightarrow> may_be d METADATA e" for e
    using m1 fields3 by (simp add: may_be_def)
  have v3: "version (v # vs) d e \<Longrightarrow> version (v # vs) c3 e" for e
    by (rule version_keeps) (auto simp: fields3)
  show 3: "metadata_ok (v # vs) c3" using i3 m3 v3 old by (simp add: metadata_ok_def)
  have fields4: "entry c4 METADATA = Some (dk_next d)" "dk_next c4 = dk_next c3" "dk_data c4 = dk_data c3" "dk_unsynced c4 = dk_unsynced c3"
    "set (dk_pending c4) = {(METADATA, entry d METADATA), (temp, Some (dk_next d))} \<union> set (dk_pending c3)"
    using e1 fields3 t(2) by (auto simp: c4_def)
  have new: "version (v # vs) c4 (Some (dk_next d))" using fields3 fields4 by (simp add: version_def)
  have m4: "version (v # vs) c4 e" if "may_be c4 METADATA e" for e
  proof -
    from that consider "e = Some (dk_next d)" | "may_be c3 METADATA e"
      using fields4 fields3(1) e1 t(2) by (auto simp: may_be_def)
    then show ?thesis
    proof cases
      case 2
      then have "version (v # vs) c3 e" using 3 by (simp add: metadata_ok_def)
      then show ?thesis using fields4 by (simp add: version_def)
    qed (use new in simp)
  qed
  show 4: "metadata_ok (v # vs) c4" using i4 m4 by (simp add: metadata_ok_def)
  have fields5: "entry c5 = entry c4" "dk_data c5 = dk_data c4" "dk_unsynced c5 = dk_unsynced c4" "dk_next c5 = dk_next c4"
    "set (dk_pending c5) \<subseteq> set (dk_pending c4)" by (auto simp: c5_def)
  have "version (v # vs) c5 e" if "may_be c5 METADATA e" for e
    using m4 [of e] that fields5 by (auto simp: may_be_def version_def)
  then show "metadata_ok (v # vs) c5" using i5 by (simp add: metadata_ok_def)
  show "entry c5 METADATA = Some (dk_next d)" "dk_data c5 (dk_next d) = v" "dk_next d \<notin> set (dk_unsynced c5)"
    using fields3 fields4 fields5 by simp_all
  show "(METADATA, e) \<notin> set (dk_pending c5)" for e by (auto simp: c5_def)
qed

lemma take_five: "run_io (take n [a, b, c, d, e]) s \<in>
  {s, io_step a s, io_step b (io_step a s), io_step c (io_step b (io_step a s)), io_step d (io_step c (io_step b (io_step a s))),
   io_step e (io_step d (io_step c (io_step b (io_step a s))))}"
proof -
  consider "n = 0" | "n = 1" | "n = 2" | "n = 3" | "n = 4" | "5 \<le> n" by linarith
  then show ?thesis by cases (simp_all add: run_io_def take_Cons')
qed

lemma metadata_run_ok: "metadata_run vs d \<Longrightarrow> metadata_ok vs d"
proof (induction rule: metadata_run.induct)
  case (first d v)
  then show ?case by (auto simp: metadata_ok_def may_be_def version_def content_of_def inodes_ok_def)
next
  case (part_written vs d temp v n)
  note st = atomic_write_steps(1-5) [where v = v, OF part_written.IH part_written.hyps(2,3)]
  show ?case
    using take_five [of n "Create temp" "Write temp v" "Fsync temp" "Rename temp METADATA" "Fsync_dir (dir_of METADATA)" d]
      st metadata_ok_more [OF part_written.IH, of v] unfolding atomicBytesWrite_def by (auto simp del: io_step.simps)
next
  case (lost_power vs d c)
  then show ?case using metadata_ok_crash by blast
qed

text \<open>C25: whatever writes of the metadata of a room were cut short and whatever power was lost, the metadata on
  disk is one of the versions written, complete; a write that completed is there for good.\<close>

theorem metadata_never_torn:
  assumes "metadata_run vs d"
  shows "(\<exists>v\<in>set vs. content_of d METADATA = Some v)
    \<and> (entry d temp = None \<longrightarrow> temp \<noteq> METADATA \<longrightarrow>
        (\<forall>c. c = run_io (atomicBytesWrite METADATA temp w) d \<or> crash (run_io (atomicBytesWrite METADATA temp w) d) c \<longrightarrow> content_of c METADATA = Some w))"
proof -
  have ok: "metadata_ok vs d" using metadata_run_ok [OF assms] .
  then have "version vs d (entry d METADATA)" by (simp add: metadata_ok_def may_be_def)
  then have 1: "\<exists>v\<in>set vs. content_of d METADATA = Some v" by (auto simp: version_def content_of_def)
  have 2: "content_of c METADATA = Some w" if t: "entry d temp = None" "temp \<noteq> METADATA"
    and c: "c = run_io (atomicBytesWrite METADATA temp w) d \<or> crash (run_io (atomicBytesWrite METADATA temp w) d) c" for c
  proof -
    let ?c = "run_io (atomicBytesWrite METADATA temp w) d"
    note st = atomic_write_steps(6-9) [where v = w, OF ok t]
    have run: "?c = io_step (Fsync_dir (dir_of METADATA)) (io_step (Rename temp METADATA) (io_step (Fsync temp) (io_step (Write temp w) (io_step (Create temp) d))))"
      by (simp add: atomicBytesWrite_def run_io_def del: io_step.simps)
    from st [folded run] have "entry ?c METADATA = Some (dk_next d)" "dk_data ?c (dk_next d) = w" "dk_next d \<notin> set (dk_unsynced ?c)"
      "\<And>e. (METADATA, e) \<notin> set (dk_pending ?c)" by blast+
    moreover from this have "entry c METADATA = Some (dk_next d) \<and> dk_data c (dk_next d) = w"
      using c unfolding crash_def by metis
    ultimately show ?thesis by (simp add: content_of_def)
  qed
  show ?thesis using 1 2 by blast
qed

subsection \<open>A blob whose directory was not synced\<close>

text \<open>When the sync of the blob directory fails, the append is refused; but the blob stays, the next append of
  the same bytes takes it for persisted, and a power loss leaves the committed record without its blob.\<close>

theorem failed_sync_loses_blob:
  assumes "entry d temp = None" and "entry d (blob_name (sha bytes)) = None" and "temp \<noteq> blob_name (sha bytes)"
    and "append_file sha d payload bytes temp = Inr ops"
    and "failed = run_io (take 4 ops) d"
  shows "append_file sha failed payload' bytes temp' = Inr [Commit (blob_row payload' (sha bytes))]
    \<and> (\<exists>c. crash (run_io [Commit (blob_row payload' (sha bytes))] failed) c
         \<and> blob_row payload' (sha bytes) \<in> set (dk_rows c) \<and> content_of c (blob_name (sha bytes)) = None)"
proof -
  let ?b = "blob_name (sha bytes)"
  have ops: "take 4 ops = [Create temp, Write temp bytes, Fsync temp, Rename temp ?b]"
    using assms(2,4) by (auto simp: append_file_def persistBlob_def content_of_def)
  have f: "failed = io_step (Rename temp ?b) (io_step (Fsync temp) (io_step (Write temp bytes) (io_step (Create temp) d)))"
    unfolding assms(5) ops by (simp add: run_io_def del: io_step.simps)
  have e: "entry failed ?b = Some (dk_next d)" "dk_data failed (dk_next d) = bytes" "(?b, None) \<in> set (dk_pending failed)"
    unfolding f using assms(1-3) by simp_all
  then have again: "append_file sha failed payload' bytes temp' = Inr [Commit (blob_row payload' (sha bytes))]"
    by (simp add: append_file_def persistBlob_def content_of_def blob_row_def)
  let ?d = "run_io [Commit (blob_row payload' (sha bytes))] failed"
  let ?c = "(set_entry ?b None ?d)\<lparr>dk_pending := [], dk_unsynced := []\<rparr>"
  have "crash ?d ?c" unfolding crash_def using e(3) by (simp add: run_io_def)
  moreover have "blob_row payload' (sha bytes) \<in> set (dk_rows ?c)" "content_of ?c ?b = None"
    by (simp_all add: run_io_def content_of_def)
  ultimately show ?thesis using again by blast
qed

subsection \<open>Creation\<close>

definition create_ops :: "string \<Rightarrow> string \<Rightarrow> io list" where
  "create_ops temp bytes = [Create ''.'', Create BLOBS, Fsync_dir ''.'', Fsync_dir ''..'', Create ARCHIVE] @ atomicBytesWrite METADATA temp bytes"

definition EXPECTED :: "string list" where
  "EXPECTED = [''archive.sqlite3'', ''archive.sqlite3-wal'', ''archive.sqlite3-shm'', ''blobs'', ''room.json'', ''room.json.v1.bak'']"

definition present :: "disk \<Rightarrow> string list" where
  "present d = filter (\<lambda>n. dir_of n = ''.'') (map fst (dk_entries d))"

text \<open>\<open>delete\<close>; \<open>closed\<close> says of the text of the metadata whether it is a closed room, \<open>None\<close> when it is
  malformed.\<close>

definition removal :: "disk \<Rightarrow> io list" where
  "removal d = map Unlink (filter (\<lambda>n. entry d n \<noteq> None) [''archive.sqlite3-wal'', ''archive.sqlite3-shm'', ARCHIVE, ''room.json.v1.bak''])
     @ (if entry d BLOBS \<noteq> None then [Rmtree BLOBS] else []) @ [Fsync_dir ''.'']
     @ (if entry d METADATA \<noteq> None then [Unlink METADATA] else []) @ [Fsync_dir ''.'', Unlink ''.'', Fsync_dir ''..'']"

definition delete_room :: "(string \<Rightarrow> bool option) \<Rightarrow> disk \<Rightarrow> err + io list" where
  "delete_room closed d =
     (if entry d ''.'' = None then Inr [Fsync_dir ''..'']
      else (case content_of d METADATA of
          Some bytes \<Rightarrow> (case closed bytes of
              None \<Rightarrow> Inl (Storage_error ''malformed metadata'')
            | Some c \<Rightarrow> if \<not> c then Inl (Storage_error ''must be closed before deletion'')
                else if list_ex (\<lambda>n. n \<notin> set EXPECTED) (present d) then Inl (Storage_error ''contains live or unexpected residue'')
                else Inr (removal d))
        | None \<Rightarrow>
            if entry d ARCHIVE \<noteq> None \<or> entry d BLOBS \<noteq> None then Inl (Storage_error ''has archive residue without deletion metadata'')
            else if list_ex (\<lambda>n. n \<notin> set EXPECTED) (present d) then Inl (Storage_error ''contains live or unexpected residue'')
            else Inr (removal d)))"

text \<open>What \<open>list\<close> does with this room: nothing, the rest of a deletion, or loading it.\<close>

datatype listed = Absent | Removed disk | Loaded string

definition list_room :: "(string \<Rightarrow> bool option) \<Rightarrow> disk \<Rightarrow> err + listed" where
  "list_room closed d =
     (if entry d ''.'' = None then Inr Absent
      else (case content_of d METADATA of
          Some bytes \<Rightarrow> if closed bytes = None then Inl (Storage_error ''malformed metadata'') else Inr (Loaded bytes)
        | None \<Rightarrow> (case delete_room closed d of Inl e \<Rightarrow> Inl e | Inr ops \<Rightarrow> Inr (Removed (run_io ops d)))))"

text \<open>A process that dies while it creates a room leaves, from the second file operation until the metadata is
  in place, a room that can be neither listed nor deleted; so listing any room fails from then on.\<close>

theorem creation_crash_blocks_listing:
  assumes "closed bytes \<noteq> None"
  defines "left \<equiv> \<lambda>k. run_io (take k (create_ops ''room.json.tmp-1-a'' bytes)) no_room"
  shows "list_room closed (left k) =
    (if k = 0 then Inr Absent else if k = 1 then Inr (Removed (run_io (removal (left 1)) (left 1)))
     else if k \<le> 8 then Inl (Storage_error ''has archive residue without deletion metadata'') else Inr (Loaded bytes))"
proof -
  have ten: "k = 0 \<or> k = 1 \<or> k = 2 \<or> k = 3 \<or> k = 4 \<or> k = 5 \<or> k = 6 \<or> k = 7 \<or> k = 8 \<or> k = 9 \<or> 10 \<le> k" by presburger
  have names: "dir_of ''.'' = ''..''" "dir_of ''blobs'' = ''.''" "dir_of ''archive.sqlite3'' = ''.''" "dir_of ''room.json'' = ''.''"
    "dir_of ''room.json.tmp-1-a'' = ''.''"
    by (simp_all add: dir_of_def starts_with_def)
  from ten show ?thesis
    using assms(1) unfolding left_def create_ops_def atomicBytesWrite_def BLOBS_def ARCHIVE_def METADATA_def
    by (elim disjE) (simp_all add: list_room_def delete_room_def run_io_def content_of_def no_room_def entry_def set_entry_def
        present_def EXPECTED_def names METADATA_def ARCHIVE_def BLOBS_def)
qed

subsection \<open>Deletion\<close>

text \<open>A temporary file of a metadata write that died is not among the expected names, and nothing removes it.\<close>

lemma run_take: "run_io (take n (a @ b)) d = run_io (take (n - length a) b) (run_io (take n a) d)"
  by (simp add: run_io_def)

lemma temp_states:
  assumes "n = Suc 0 \<or> n = Suc (Suc 0) \<or> n = Suc (Suc (Suc 0))"
  shows "entry (run_io (take n (atomicBytesWrite p temp new)) d) = (entry d)(temp := Some (dk_next d))
    \<and> (\<forall>i. i \<noteq> dk_next d \<longrightarrow> dk_data (run_io (take n (atomicBytesWrite p temp new)) d) i = dk_data d i)"
proof -
  define x1 where "x1 = io_step (Create temp) d"
  define x2 where "x2 = io_step (Write temp new) x1"
  define x3 where "x3 = io_step (Fsync temp) x2"
  have 1: "entry x1 = (entry d)(temp := Some (dk_next d))" "dk_data x1 = dk_data d" unfolding x1_def by (simp_all add: fun_eq_iff)
  have 2: "entry x2 = (entry d)(temp := Some (dk_next d))" "dk_data x2 = (dk_data d)(dk_next d := new)"
    unfolding x2_def using 1 by (simp_all add: fun_eq_iff)
  have 3: "entry x3 = (entry d)(temp := Some (dk_next d))" "dk_data x3 = (dk_data d)(dk_next d := new)"
    unfolding x3_def using 2 by (simp_all add: fun_eq_iff)
  have "run_io (take n (atomicBytesWrite p temp new)) d \<in> {x1, x2, x3}"
    using assms unfolding atomicBytesWrite_def run_io_def x1_def x2_def x3_def
    by (elim disjE) (simp_all del: io_step.simps)
  then show ?thesis using 1 2 3 by auto
qed

text \<open>A metadata write killed before its rename leaves a temporary file with which the room can still be loaded
  but never deleted, closed as it may be.\<close>

theorem metadata_temp_blocks_deletion:
  assumes "entry d ''.'' \<noteq> None" and "content_of d METADATA = Some old" and "closed old = Some True"
    and "inodes_ok d" and "entry d temp = None" and "dir_of temp = ''.''" and "temp \<notin> set EXPECTED" and "n \<in> {1, 2, 3}"
    and "c = run_io (take n (atomicBytesWrite METADATA temp new)) d"
  shows "list_room closed c = Inr (Loaded old) \<and> delete_room closed c = Inl (Storage_error ''contains live or unexpected residue'')"
proof -
  have "METADATA \<in> set EXPECTED" by (simp add: EXPECTED_def METADATA_def)
  with assms(7) have t: "temp \<noteq> METADATA" by blast
  have t': "temp \<noteq> ''.''" using assms(6) by (cases "temp = ''.''") (simp_all add: dir_of_def)
  from assms(2) obtain i where i: "entry d METADATA = Some i" "dk_data d i = old" by (auto simp: content_of_def)
  with assms(4) have small: "i < dk_next d" unfolding inodes_ok_def by blast
  have n: "n = Suc 0 \<or> n = Suc (Suc 0) \<or> n = Suc (Suc (Suc 0))" using assms(8) by auto
  note e = temp_states [OF n, of METADATA temp new d, folded assms(9)]
  then have "dk_data c i = old" using small i by simp
  with e i t have m: "content_of c METADATA = Some old" by (simp add: content_of_def)
  have h: "entry c ''.'' \<noteq> None" using e t' assms(1) by simp
  have "temp \<in> set (present c)" using e assms(6) entry_in_names [of c temp] by (simp add: present_def)
  then have "list_ex (\<lambda>n. n \<notin> set EXPECTED) (present c)" using assms(7) by (auto simp: list_ex_iff)
  then show ?thesis using m h assms(3) by (simp add: list_room_def delete_room_def)
qed

fun removes :: "io \<Rightarrow> string \<Rightarrow> bool" where
  "removes (Unlink m) n \<longleftrightarrow> m = n"
| "removes (Rmtree m) n \<longleftrightarrow> n = m \<or> dir_of n = m"
| "removes op n \<longleftrightarrow> False"

fun only_removes :: "io \<Rightarrow> bool" where
  "only_removes (Unlink m) = True"
| "only_removes (Rmtree m) = True"
| "only_removes (Fsync_dir m) = True"
| "only_removes op = False"

lemma may_be_set_None: "may_be (set_entry m None d) n e \<Longrightarrow> may_be d n e \<or> e = None \<and> m = n"
  by (auto simp: may_be_def split: if_splits)

lemma fold_removed:
  "may_be (fold (\<lambda>m. set_entry m None) ms d) n e \<Longrightarrow> may_be d n e \<or> e = None \<and> n \<in> set ms"
  "entry (fold (\<lambda>m. set_entry m None) ms d) n = (if n \<in> set ms then None else entry d n)"
  "dk_data (fold (\<lambda>m. set_entry m None) ms d) = dk_data d" "dk_unsynced (fold (\<lambda>m. set_entry m None) ms d) = dk_unsynced d"
proof (induction ms arbitrary: d)
  case (Cons m ms)
  { case 1 then show ?case using Cons.IH(1) [of "set_entry m None d"] may_be_set_None by fastforce }
qed (auto split: if_splits)

lemma removal_step:
  assumes "only_removes op"
  shows "may_be (io_step op d) n e \<Longrightarrow> may_be d n e \<or> e = None \<and> removes op n"
    and "dk_data (io_step op d) = dk_data d" and "dk_unsynced (io_step op d) = dk_unsynced d"
proof -
  show "may_be (io_step op d) n e \<Longrightarrow> may_be d n e \<or> e = None \<and> removes op n"
    using assms may_be_set_None [of _ d n e] by (cases op) (auto simp: may_be_def split: if_splits dest!: fold_removed(1) [unfolded may_be_def])
qed (use assms in \<open>cases op; simp add: fold_removed\<close>)+

text \<open>Every state a deletion passes through.\<close>

definition gone :: "disk \<Rightarrow> bool" where
  "gone d \<longleftrightarrow> (\<forall>e. may_be d ARCHIVE e \<or> may_be d BLOBS e \<longrightarrow> e = None)"

definition deleting :: "(string \<Rightarrow> bool option) \<Rightarrow> disk \<Rightarrow> bool" where
  "deleting closed d \<longleftrightarrow> (\<forall>n i. dir_of n = ''.'' \<longrightarrow> may_be d n (Some i) \<longrightarrow> n \<in> set EXPECTED)
     \<and> (\<forall>i. may_be d METADATA (Some i) \<longrightarrow> i \<notin> set (dk_unsynced d) \<and> closed (dk_data d i) = Some True)
     \<and> (may_be d METADATA None \<longrightarrow> gone d)"

lemma deleting_step:
  assumes "deleting closed d" and "only_removes op" and "removes op METADATA \<longrightarrow> gone d"
  shows "deleting closed (io_step op d)"
  using assms(1,3) removal_step [OF assms(2), of d] unfolding deleting_def gone_def by (metis option.distinct(1))

lemma gone_step: "gone d \<Longrightarrow> only_removes op \<Longrightarrow> gone (io_step op d)"
  using removal_step(1) unfolding gone_def by blast

lemma deleting_steps: "deleting closed d \<Longrightarrow> list_all (\<lambda>op. only_removes op \<and> \<not> removes op METADATA) ops \<Longrightarrow> deleting closed (run_io ops d)"
  unfolding run_io_def by (induction ops arbitrary: d) (simp_all add: deleting_step)

lemma gone_steps: "deleting closed d \<Longrightarrow> gone d \<Longrightarrow> list_all only_removes ops \<Longrightarrow> deleting closed (run_io ops d) \<and> gone (run_io ops d)"
  unfolding run_io_def by (induction ops arbitrary: d) (simp_all add: deleting_step gone_step)

lemma deleting_crash: assumes "deleting closed d" and "crash d c" shows "deleting closed c"
proof -
  have "dk_data c i = dk_data d i" "dk_unsynced c = []" if "i \<notin> set (dk_unsynced d)" for i using assms(2) that by (auto simp: crash_def)
  then show ?thesis using assms(1) may_be_crash [OF assms(2)] unfolding deleting_def gone_def by (metis empty_iff list.set(1))
qed

lemma last_unlink: "entry (run_io (ops @ [Unlink m, Fsync_dir x]) d) m = None"
  by (simp add: run_io_def)

lemma removal_finishes: "entry (run_io (removal d) d) ''.'' = None"
proof -
  obtain ops where "removal d = ops @ [Unlink ''.'', Fsync_dir ''..'']" unfolding removal_def by simp
  then show ?thesis using last_unlink by simp
qed

lemma deleting_deletes:
  assumes "deleting closed d" obtains ops where "delete_room closed d = Inr ops" "entry (run_io ops d) ''.'' = None"
proof -
  have here: "may_be d n (entry d n)" for n by (simp add: may_be_def)
  have "n \<in> set EXPECTED" if "n \<in> set (present d)" for n
    using that assms here [of n] entry_in_names [of d n] by (auto simp: present_def deleting_def)
  then have e: "\<not> list_ex (\<lambda>n. n \<notin> set EXPECTED) (present d)" by (auto simp: list_ex_iff)
  have m: "closed bytes = Some True" if "content_of d METADATA = Some bytes" for bytes
    using that assms here [of METADATA] by (auto simp: content_of_def deleting_def)
  have "entry d ARCHIVE = None \<and> entry d BLOBS = None" if "content_of d METADATA = None"
    using that assms here [of METADATA] here [of ARCHIVE] here [of BLOBS] by (auto simp: content_of_def deleting_def gone_def)
  then have "delete_room closed d = Inr (if entry d ''.'' = None then [Fsync_dir ''..''] else removal d)"
    using e m by (auto simp: delete_room_def split: option.split)
  then show ?thesis using that removal_finishes by (cases "entry d ''.'' = None") (simp_all add: run_io_def)
qed

definition closed_room :: "(string \<Rightarrow> bool option) \<Rightarrow> disk \<Rightarrow> bool" where
  "closed_room closed d \<longleftrightarrow> entry d ''.'' \<noteq> None \<and> dk_pending d = [] \<and> dk_unsynced d = [] \<and> set (present d) \<subseteq> set EXPECTED
     \<and> (\<exists>bytes. content_of d METADATA = Some bytes \<and> closed bytes = Some True)"

lemma closed_room_deleting: assumes "closed_room closed d" shows "deleting closed d"
proof -
  have "n \<in> set EXPECTED" if "dir_of n = ''.''" "entry d n = Some i" for n i
    using assms that entry_in_names [of d n] by (auto simp: closed_room_def present_def)
  moreover have "may_be d n e \<longleftrightarrow> e = entry d n" for n e using assms by (auto simp: closed_room_def may_be_def)
  ultimately show ?thesis using assms unfolding closed_room_def deleting_def content_of_def by fastforce
qed

text \<open>The removal up to and with its first sync, and the rest.\<close>

definition payload_removal :: "disk \<Rightarrow> io list" where
  "payload_removal d = map Unlink (filter (\<lambda>n. entry d n \<noteq> None) [''archive.sqlite3-wal'', ''archive.sqlite3-shm'', ARCHIVE, ''room.json.v1.bak''])
     @ (if entry d BLOBS \<noteq> None then [Rmtree BLOBS] else [])"

lemma entry_unlinks: "entry (fold io_step (map Unlink ns) d) n = (if n \<in> set ns then None else entry d n)"
  by (induction ns arbitrary: d) auto

lemma entry_removed:
  defines "y \<equiv> \<lambda>m ns d. run_io (map Unlink (filter (\<lambda>n. entry d n \<noteq> None) ns) @ (if entry d m \<noteq> None then [Rmtree m] else [])) d"
  shows "n \<in> set ns \<Longrightarrow> entry (y m ns d) n = None" and "entry (y m ns d) m = None"
proof -
  define u where "u = fold io_step (map Unlink (filter (\<lambda>n. entry d n \<noteq> None) ns)) d"
  have u: "entry u n = (if n \<in> set ns then None else entry d n)" for n unfolding u_def by (simp add: entry_unlinks)
  have y: "y m ns d = (if entry d m \<noteq> None then io_step (Rmtree m) u else u)" by (simp add: y_def run_io_def u_def)
  show "n \<in> set ns \<Longrightarrow> entry (y m ns d) n = None" unfolding y by (simp add: fold_removed u)
  have "entry u m \<noteq> None \<Longrightarrow> m \<in> set (map fst (dk_entries u))" by (simp only: entry_in_names)
  then show "entry (y m ns d) m = None" unfolding y by (auto simp: fold_removed) (auto simp: u split: if_splits)
qed

lemma payload_removed:
  "entry (run_io (payload_removal d) d) ARCHIVE = None" "entry (run_io (payload_removal d) d) BLOBS = None"
  unfolding payload_removal_def by (rule entry_removed(1), simp) (rule entry_removed(2))

text \<open>C26: a deletion of a closed room stopped after any of its operations, by a kill or a power loss, can be
  repeated, and the repetition removes the room.\<close>

theorem deletion_resumes:
  assumes "closed_room closed d" and "delete_room closed d = Inr ops"
    and "c = run_io (take n ops) d \<or> crash (run_io (take n ops) d) c"
  shows "\<exists>rest. delete_room closed c = Inr rest \<and> entry (run_io rest c) ''.'' = None"
proof -
  let ?first = "payload_removal d @ [Fsync_dir ''.'']"
  let ?last = "(if entry d METADATA \<noteq> None then [Unlink METADATA] else []) @ [Fsync_dir ''.'', Unlink ''.'', Fsync_dir ''..'']"
  have "ops = removal d" using assms(1,2) by (auto simp: closed_room_def delete_room_def split: if_splits option.splits)
  then have ops: "ops = ?first @ ?last" by (simp add: removal_def payload_removal_def)
  have names: "METADATA \<noteq> ARCHIVE" "METADATA \<noteq> BLOBS" "dir_of METADATA \<noteq> BLOBS" "dir_of ARCHIVE = ''.''" "dir_of BLOBS = ''.''"
    "METADATA \<notin> {''archive.sqlite3-wal'', ''archive.sqlite3-shm'', ''room.json.v1.bak''}"
    by (simp_all add: METADATA_def ARCHIVE_def BLOBS_def dir_of_def starts_with_def)
  have 1: "list_all (\<lambda>op. only_removes op \<and> \<not> removes op METADATA) ?first"
    using names by (auto simp: payload_removal_def list_all_iff)
  have d: "deleting closed d" by (rule closed_room_deleting [OF assms(1)])
  let ?y = "run_io ?first d"
  have y: "?y = io_step (Fsync_dir ''.'') (run_io (payload_removal d) d)" by (simp add: run_io_def)
  have g: "gone ?y" unfolding y gone_def may_be_def using payload_removed names by (auto simp: run_io_def)
  have "deleting closed (run_io (take n ops) d)"
  proof (cases "n \<le> length ?first")
    case True
    then have "take n ops = take n ?first" unfolding ops by (simp only: take_append diff_is_0_eq') simp
    then show ?thesis using deleting_steps [OF d, of "take n ?first"] 1 by (metis list_all_iff in_set_takeD)
  next
    case False
    then have "run_io (take n ops) d = run_io (take (n - length ?first) ?last) ?y"
      unfolding ops run_take [of n ?first ?last] using take_all [of ?first n] False by (metis nat_le_linear)
    moreover have "list_all only_removes (take (n - length ?first) ?last)"
      by (auto simp: list_all_iff dest!: in_set_takeD split: if_splits)
    ultimately show ?thesis using gone_steps [OF deleting_steps [OF d 1] g] by metis
  qed
  then have "deleting closed c" using assms(3) deleting_crash by blast
  then show ?thesis by (rule deleting_deletes) blast
qed

subsection \<open>Runs\<close>

definition one_room :: disk where
  "one_room = \<lparr>dk_entries = [(''.'', 0), (METADATA, 1), (BLOBS, 2), (ARCHIVE, 3)], dk_pending = [], dk_data = (\<lambda>i. ''{}''),
     dk_unsynced = [], dk_rows = [], dk_next = 4\<rparr>"

definition all_closed :: "string \<Rightarrow> bool option" where
  "all_closed bytes = Some True"

lemmas name_defs = METADATA_def BLOBS_def ARCHIVE_def dir_of_def starts_with_def

lemma one_room_facts:
  "entry one_room ''.'' = Some 0" "entry one_room METADATA = Some 1" "entry one_room BLOBS = Some 2" "entry one_room ARCHIVE = Some 3"
  "content_of one_room METADATA = Some ''{}''" "entry one_room ''room.json.tmp-1-a'' = None"
  "dk_pending one_room = []" "dk_unsynced one_room = []" "dk_next one_room = 4"
  by (simp_all add: one_room_def entry_def content_of_def name_defs)

lemma one_room_inodes: "inodes_ok one_room"
  by (auto simp: inodes_ok_def one_room_facts) (auto simp: one_room_def entry_def split: if_splits)

lemma one_room_closed: "closed_room all_closed one_room"
  by (simp add: closed_room_def one_room_facts all_closed_def) (simp add: present_def one_room_def EXPECTED_def name_defs)

theorem metadata_witness:
  "(\<exists>v\<in>{''[]'', ''{}''}. content_of (run_io (take 2 (atomicBytesWrite METADATA ''room.json.tmp-1-a'' ''[]'')) one_room) METADATA = Some v)
    \<and> content_of (run_io (atomicBytesWrite METADATA ''room.json.tmp-1-a'' ''[]'') one_room) METADATA = Some ''[]''"
proof -
  have first: "metadata_run [''{}''] one_room" by (rule metadata_run.first) (simp_all add: one_room_inodes one_room_facts)
  have n: "''room.json.tmp-1-a'' \<noteq> METADATA" by (simp add: METADATA_def)
  show ?thesis
    using metadata_never_torn [OF metadata_run.part_written [OF first one_room_facts(6) n, where n = 2 and v = "''[]''"]]
      metadata_never_torn [OF first, of "''room.json.tmp-1-a''" "''[]''"] one_room_facts(6) n by simp
qed

theorem creation_crash_witness:
  "list_room all_closed (run_io (take 2 (create_ops ''room.json.tmp-1-a'' ''{}'')) no_room)
    = Inl (Storage_error ''has archive residue without deletion metadata'')"
  using creation_crash_blocks_listing [of all_closed "''{}''" 2] by (simp add: all_closed_def)

theorem metadata_temp_witness:
  "delete_room all_closed (run_io (take 2 (atomicBytesWrite METADATA ''room.json.tmp-1-a'' ''[]'')) one_room)
    = Inl (Storage_error ''contains live or unexpected residue'')"
proof -
  have n: "dir_of ''room.json.tmp-1-a'' = ''.''" "''room.json.tmp-1-a'' \<notin> set EXPECTED" "(2::nat) \<in> {1, 2, 3}"
    by (simp_all add: name_defs EXPECTED_def)
  show ?thesis
    using metadata_temp_blocks_deletion [OF _ one_room_facts(5) _ one_room_inodes one_room_facts(6) n refl, of all_closed "''[]''"]
    by (simp add: one_room_facts(1) all_closed_def)
qed

theorem failed_sync_witness:
  "\<exists>c. blob_row ''{}'' (zero_sha ''abc'') \<in> set (dk_rows c) \<and> content_of c (blob_name (zero_sha ''abc'')) = None"
proof -
  have 1: "entry no_room n = None" for n by (simp add: no_room_def entry_def)
  have 2: "''blobs/.tmp-1-0'' \<noteq> blob_name (zero_sha ''abc'')"
    by (simp add: blob_name_def zero_sha_def eval_nat_numeral)
  have 3: "append_file zero_sha no_room ''{}'' ''abc'' ''blobs/.tmp-1-0'' =
    Inr ([Create ''blobs/.tmp-1-0'', Write ''blobs/.tmp-1-0'' ''abc'', Fsync ''blobs/.tmp-1-0'', Rename ''blobs/.tmp-1-0'' (blob_name (zero_sha ''abc'')),
      Fsync_dir BLOBS, Commit \<lparr>sr_payload = ''{}'', sr_blob = Some (zero_sha ''abc'')\<rparr>])"
    by (simp add: append_file_def persistBlob_def content_of_def 1)
  show ?thesis using failed_sync_loses_blob [OF 1 1 2 3 refl, of "''{}''" "[]"] by blast
qed

theorem deletion_witness:
  "\<exists>rest. delete_room all_closed (run_io (take 2 (removal one_room)) one_room) = Inr rest
    \<and> entry (run_io rest (run_io (take 2 (removal one_room)) one_room)) ''.'' = None"
proof -
  have "\<not> list_ex (\<lambda>n. n \<notin> set EXPECTED) (present one_room)"
    using one_room_closed by (auto simp: closed_room_def list_ex_iff)
  then have "delete_room all_closed one_room = Inr (removal one_room)"
    by (simp add: delete_room_def one_room_facts all_closed_def)
  from deletion_resumes [OF one_room_closed this, of _ 2] show ?thesis by blast
qed

end
