(* ===== verification/Console.thy ===== *)
theory Console
  imports Scenarios "HOL-Library.AList"
begin

section \<open>The room model of the console\<close>

text \<open>
  The projections of \<open>web/src/state/roomModel.ts\<close> over the records and rooms the console holds: how pages of
  records are merged, the rows of the chat, the event and the file views, the versions of a file, and which
  controls a room's state enables. A \<open>Map\<close> is an association list in insertion order. The console's record of
  a file may come without its data, so that the data stand beside the record here and the field of the body
  is not read.
\<close>

record dto_row = row +
  dr_data_base64 :: "string option"

record file_row =
  fr_seq :: nat
  fr_record_id :: string
  fr_file_id :: string
  fr_at :: string
  fr_author :: author
  fr_filename :: string
  fr_mime :: string
  fr_size :: int
  fr_sha256 :: string
  fr_data_base64 :: "string option"

record file_version =
  fv_file :: file_row
  fv_version :: nat

record file_group =
  fg_groupId :: string
  fg_filename :: string
  fg_latest :: file_version
  fg_versions :: "file_version list"

datatype speaker = Speaker_room | Speaker_participant

datatype chat_row =
    Briefing_row nat string string author string
  | Message_row speaker nat string string author string
  | Chat_file file_row

record capabilities =
  can_edit_settings :: bool
  can_create_invite :: bool
  can_revoke_invite :: bool
  can_recover_invite :: bool
  can_message :: bool
  can_close :: bool
  can_delete :: bool

definition PROJECTION_PAGE_SIZE :: int where "PROJECTION_PAGE_SIZE = 500"

subsection \<open>Projections\<close>

definition set_record :: "'a row_scheme \<Rightarrow> (nat \<times> 'a row_scheme) list \<Rightarrow> (nat \<times> 'a row_scheme) list" where
  "set_record r m = AList.update (w_seq r) r m"

definition mergeRecords :: "'a row_scheme list \<Rightarrow> 'a row_scheme list \<Rightarrow> 'a row_scheme list" where
  "mergeRecords current incoming = sort_key w_seq (map snd (fold set_record incoming (fold set_record current [])))"

definition projectFile :: "dto_row \<Rightarrow> file_item \<Rightarrow> file_row" where
  "projectFile r f = \<lparr>fr_seq = w_seq r, fr_record_id = w_record_id r, fr_file_id = f_file_id f, fr_at = w_at r, fr_author = f_author f,
     fr_filename = f_filename f, fr_mime = f_mime f, fr_size = f_size f, fr_sha256 = f_sha256 f, fr_data_base64 = dr_data_base64 r\<rparr>"

definition chat_of :: "dto_row \<Rightarrow> chat_row option" where
  "chat_of r = (case w_body r of
     File f \<Rightarrow> Some (Chat_file (projectFile r f))
   | Message m \<Rightarrow> Some (if m_category m = Briefing then Briefing_row (w_seq r) (w_record_id r) (w_at r) (m_author m) (m_text m)
       else Message_row (if a_role (m_author m) = ''room'' then Speaker_room else Speaker_participant)
         (w_seq r) (w_record_id r) (w_at r) (m_author m) (m_text m))
   | _ \<Rightarrow> None)"

definition projectChat :: "dto_row list \<Rightarrow> chat_row list" where
  "projectChat records = List.map_filter chat_of (mergeRecords [] records)"

fun is_event :: "body \<Rightarrow> bool" where
  "is_event (Message m) = False"
| "is_event (File f) = False"
| "is_event _ = True"

definition projectEvents :: "dto_row list \<Rightarrow> dto_row list" where
  "projectEvents records = filter (\<lambda>r. is_event (w_body r)) (mergeRecords [] records)"

definition file_of :: "dto_row \<Rightarrow> file_row option" where
  "file_of r = (case w_body r of File f \<Rightarrow> Some (projectFile r f) | _ \<Rightarrow> None)"

definition projectFiles :: "dto_row list \<Rightarrow> string \<Rightarrow> file_row list" where
  "projectFiles records rid = List.map_filter file_of (mergeRecords [] (filter (\<lambda>r. w_room_id r = rid) records))"

definition push_version :: "file_row \<Rightarrow> (string \<times> file_row list) list \<Rightarrow> (string \<times> file_row list) list" where
  "push_version f m = AList.update (fr_filename f) ((case map_of m (fr_filename f) of None \<Rightarrow> [] | Some fs \<Rightarrow> fs) @ [f]) m"

definition file_group_of :: "string \<times> file_row list \<Rightarrow> file_group" where
  "file_group_of = (\<lambda>(filename, files).
     let versions = rev (map (\<lambda>(i, f). \<lparr>fv_file = f, fv_version = i + 1\<rparr>) (List.enumerate 0 (sort_key fr_seq files))) in
     \<lparr>fg_groupId = fr_file_id (fv_file (hd versions)), fg_filename = filename, fg_latest = hd versions, fg_versions = versions\<rparr>)"

definition groupFiles :: "dto_row list \<Rightarrow> string \<Rightarrow> file_group list" where
  "groupFiles records rid =
     sort_key (\<lambda>g. - int (fr_seq (fv_file (fg_latest g)))) (map file_group_of (fold push_version (projectFiles records rid) []))"

subsection \<open>Rooms\<close>

definition allCapabilities :: "bool \<Rightarrow> capabilities" where
  "allCapabilities v = \<lparr>can_edit_settings = v, can_create_invite = v, can_revoke_invite = v, can_recover_invite = v, can_message = v,
     can_close = v, can_delete = v\<rparr>"

definition mutableCapabilities :: "bool \<Rightarrow> capabilities" where
  "mutableCapabilities canMessage = \<lparr>can_edit_settings = True, can_create_invite = True, can_revoke_invite = True, can_recover_invite = True,
     can_message = canMessage, can_close = True, can_delete = False\<rparr>"

definition roomCapabilities :: "room_state \<Rightarrow> bool \<Rightarrow> capabilities" where
  "roomCapabilities state connected =
     (if \<not> connected then allCapabilities False
      else (case state of
          Provisioning \<Rightarrow> mutableCapabilities False
        | Room_active \<Rightarrow> mutableCapabilities True
        | Closing \<Rightarrow> allCapabilities False
        | Closed \<Rightarrow> (allCapabilities False)\<lparr>can_delete := True\<rparr>))"

definition unmetInviteCount :: "invite list \<Rightarrow> int" where
  "unmetInviteCount invites = fold (\<lambda>i count. if i_state i = Revoked then count
     else count + max 0 (i_min_accepts i - int (length (i_accepted_cids i)))) invites 0"

definition newestRows :: "'a list \<Rightarrow> int \<Rightarrow> 'a list" where
  "newestRows rows visibleCount = (let count = nat (max 0 visibleCount) in drop (length rows - count) rows)"

definition showEarlierCount :: "int \<Rightarrow> int \<Rightarrow> int \<Rightarrow> int" where
  "showEarlierCount visibleCount totalCount increment = min (max 0 totalCount) (max 0 visibleCount + max 0 increment)"

subsection \<open>Merging\<close>

lemma set_record_keys: "\<forall>(n, r)\<in>set m. w_seq r = n \<Longrightarrow> \<forall>(n, r)\<in>set (set_record r' m). w_seq r = n"
  unfolding set_record_def by (induction m) auto

lemma set_record_distinct: "distinct (map fst m) \<Longrightarrow> distinct (map fst (set_record r m))"
  by (simp add: set_record_def distinct_update)

lemma fold_set_record_ok:
  assumes "distinct (map fst m)" and "\<forall>(n, r)\<in>set m. w_seq r = n"
  shows "distinct (map fst (fold set_record rs m)) \<and> (\<forall>(n, r)\<in>set (fold set_record rs m). w_seq r = n)"
  using assms
proof (induction rs arbitrary: m)
  case (Cons r rs)
  show ?case
    using Cons.IH [OF set_record_distinct [OF Cons.prems(1)] set_record_keys [OF Cons.prems(2)]] by simp
qed simp

lemma find_snoc: "find P (xs @ [x]) = (case find P xs of Some y \<Rightarrow> Some y | None \<Rightarrow> if P x then Some x else None)"
  by (induction xs) auto

lemma map_of_fold_set_record:
  "map_of (fold set_record rs m) = (\<lambda>n. case find (\<lambda>r. w_seq r = n) (rev rs) of Some r \<Rightarrow> Some r | None \<Rightarrow> map_of m n)"
  by (induction rs arbitrary: m) (auto simp: fun_eq_iff find_snoc set_record_def update_conv' split: option.splits)

text \<open>A record wins over the records of its sequence number before it.\<close>

definition newest :: "'a row_scheme list \<Rightarrow> nat \<Rightarrow> 'a row_scheme option" where
  "newest rs n = find (\<lambda>r. w_seq r = n) (rev rs)"

lemma mergeRecords_spec:
  shows "sorted_wrt (<) (map w_seq (mergeRecords current incoming))"
    and "r \<in> set (mergeRecords current incoming) \<longleftrightarrow> newest (current @ incoming) (w_seq r) = Some r"
proof -
  define m where "m = fold set_record (current @ incoming) []"
  have merged: "mergeRecords current incoming = sort_key w_seq (map snd m)" by (simp add: mergeRecords_def m_def)
  have m: "distinct (map fst m)" "\<forall>(n, r)\<in>set m. w_seq r = n" "map_of m = newest (current @ incoming)"
    using fold_set_record_ok [of "[]" "current @ incoming"] map_of_fold_set_record [of "current @ incoming" "[]"]
    unfolding m_def newest_def by (auto split: option.splits)
  have "map w_seq (map snd m) = map fst m" using m(2) by (induction m) auto
  then have "distinct (map w_seq (sort_key w_seq (map snd m)))" using m(1)
    by (metis distinct_map mset_map mset_sort mset_eq_imp_distinct_iff)
  then show "sorted_wrt (<) (map w_seq (mergeRecords current incoming))"
    unfolding merged by (simp add: strict_sorted_iff)
  have "r \<in> snd ` set m \<longleftrightarrow> (w_seq r, r) \<in> set m" using m(2) by force
  then show "r \<in> set (mergeRecords current incoming) \<longleftrightarrow> newest (current @ incoming) (w_seq r) = Some r"
    unfolding merged using m(1,3) by (simp add: map_of_eq_Some_iff [symmetric])
qed

lemma newest_unique:
  assumes "\<forall>r\<in>set rs. \<forall>s\<in>set rs. w_seq r = w_seq s \<longrightarrow> r = s"
  shows "newest rs (w_seq r) = Some r \<longleftrightarrow> r \<in> set rs"
proof -
  have in_rs: "s \<in> set rs \<and> w_seq s = n" if "newest rs n = Some s" for s n
    using that set_rev nth_mem unfolding newest_def find_Some_iff by (metis length_rev)
  show ?thesis
  proof
    assume r: "r \<in> set rs"
    then have "newest rs (w_seq r) \<noteq> None" by (auto simp: newest_def find_None_iff)
    then obtain s where s: "newest rs (w_seq r) = Some s" by blast
    then have "s = r" using in_rs [OF s] assms r by blast
    then show "newest rs (w_seq r) = Some r" using s by simp
  qed (use in_rs in blast)
qed

lemma sorted_seqs_unique:
  fixes rows :: "'a row_scheme list"
  assumes "sorted_wrt (<) (map w_seq rows)" and "r \<in> set rows" and "s \<in> set rows" and "w_seq r = w_seq s"
  shows "r = s"
proof -
  have "distinct (map w_seq rows)" using assms(1) by (simp add: strict_sorted_iff)
  then show ?thesis using assms(2-4) by (auto simp: distinct_map inj_on_def)
qed

lemma merge_parts:
  fixes rows :: "'a row_scheme list"
  assumes "sorted_wrt (<) (map w_seq rows)" and "set a \<subseteq> set rows" and "set b \<subseteq> set rows"
  shows "mergeRecords a b = filter (\<lambda>r. r \<in> set a \<union> set b) rows"
proof -
  let ?f = "filter (\<lambda>r. r \<in> set a \<union> set b) rows"
  have u: "\<forall>r\<in>set (a @ b). \<forall>s\<in>set (a @ b). w_seq r = w_seq s \<longrightarrow> r = s"
    using sorted_seqs_unique [OF assms(1)] assms(2,3) by (simp add: subset_iff) blast
  have "set (mergeRecords a b) = set ?f"
    using mergeRecords_spec(2) [of _ a b] newest_unique [OF u] assms(2,3) by auto
  moreover have "sorted_wrt (<) (map w_seq ?f)" using assms(1) by (simp add: sorted_wrt_map sorted_wrt_filter)
  ultimately have "map w_seq (mergeRecords a b) = map w_seq ?f"
    using mergeRecords_spec(1) [of a b] by (intro strict_sorted_equal) (simp_all flip: image_set)
  then show ?thesis
    using \<open>set (mergeRecords a b) = set ?f\<close> sorted_seqs_unique [OF assms(1)]
    by (intro map_inj_on [where f = w_seq]) (auto simp: inj_on_def)
qed

text \<open>C30: pages of an archive merged one after another, in whatever order they arrive and however they overlap,
  are the records of the archive that some page held, in archive order and once each.\<close>

theorem merged_pages_are_archive:
  fixes rows :: "'a row_scheme list"
  assumes "sorted_wrt (<) (map w_seq rows)" and "\<forall>p\<in>set pages. set p \<subseteq> set rows"
  shows "fold (\<lambda>page held. mergeRecords held page) pages [] = filter (\<lambda>r. \<exists>p\<in>set pages. r \<in> set p) rows"
proof -
  have "fold (\<lambda>page held. mergeRecords held page) pages held = filter (\<lambda>r. r \<in> set held \<or> (\<exists>p\<in>set pages. r \<in> set p)) rows"
    if "held = filter (\<lambda>r. r \<in> set held) rows" "set held \<subseteq> set rows" for held
    using assms(2) that
  proof (induction pages arbitrary: held)
    case (Cons p pages)
    have m: "mergeRecords held p = filter (\<lambda>r. r \<in> set held \<union> set p) rows"
      by (rule merge_parts [OF assms(1)]) (use Cons.prems in auto)
    then have "set (mergeRecords held p) = set held \<union> set p" using Cons.prems by auto
    then show ?case using Cons.IH [of "mergeRecords held p"] Cons.prems m by (auto intro!: filter_cong)
  qed simp
  from this [of "[]"] show ?thesis by simp
qed

subsection \<open>The versions of a file\<close>

lemma push_version_keys: "distinct (map fst m) \<Longrightarrow> distinct (map fst (push_version f m))"
  by (simp add: push_version_def distinct_update)

lemma push_versions:
  "distinct (map fst m) \<Longrightarrow> distinct (map fst (fold push_version fs m))"
  "map_of (fold push_version fs m) n = (case (case map_of m n of None \<Rightarrow> [] | Some gs \<Rightarrow> gs) @ filter (\<lambda>f. fr_filename f = n) fs of
     [] \<Rightarrow> map_of m n | gs \<Rightarrow> Some gs)"
proof (induction fs arbitrary: m)
  case (Cons f fs)
  { case 1 then show ?case using Cons.IH(1) push_version_keys by simp
  next
    case 2
    show ?case using Cons.IH(2) [of "push_version f m"]
      by (auto simp: push_version_def update_conv' split: option.splits list.splits) }
qed (auto split: option.splits list.splits)

text \<open>The versions of a name, by sequence number.\<close>

definition versions_of :: "file_row list \<Rightarrow> string \<Rightarrow> file_row list" where
  "versions_of fs n = filter (\<lambda>f. fr_filename f = n) fs"

lemma pushed_group:
  "(n, gs) \<in> set (fold push_version fs []) \<longleftrightarrow> gs = versions_of fs n \<and> gs \<noteq> []"
proof -
  have "(n, gs) \<in> set (fold push_version fs []) \<longleftrightarrow> map_of (fold push_version fs []) n = Some gs"
    by (simp add: push_versions(1))
  then show ?thesis unfolding push_versions(2) versions_of_def by (auto split: list.splits)
qed

lemma projectFiles_sorted: "sorted_wrt (<) (map fr_seq (projectFiles records rid))"
proof -
  have "sorted_wrt (<) (map fr_seq (List.map_filter file_of rs))" if "sorted_wrt (<) (map w_seq rs)" for rs
    using that
  proof (induction rs)
    case (Cons r rs)
    have "fr_seq f = w_seq q" if "file_of q = Some f" for q f
      using that by (auto simp: file_of_def projectFile_def split: body.splits)
    with Cons show ?case by (auto simp: List.map_filter_simps map_filter_def split: option.split)
  qed (simp add: List.map_filter_simps)
  then show ?thesis unfolding projectFiles_def using mergeRecords_spec(1) by blast
qed

lemma group_spec:
  assumes "sorted_wrt (<) (map fr_seq fs)" and "fs \<noteq> []"
  and g: "g = file_group_of (n, fs)"
  shows "rev (map fv_file (fg_versions g)) = fs" and "rev (map fv_version (fg_versions g)) = [1..<Suc (length fs)]"
    and "fg_latest g = \<lparr>fv_file = last fs, fv_version = length fs\<rparr>" and "fg_filename g = n" and "fg_groupId g = fr_file_id (last fs)"
proof -
  have "sort_key fr_seq fs = fs" using assms(1) by (intro sort_key_id_if_sorted) (simp add: strict_sorted_iff)
  then have v: "fg_versions g = rev (map (\<lambda>(i, f). \<lparr>fv_file = f, fv_version = i + 1\<rparr>) (List.enumerate 0 fs))"
    by (simp add: g file_group_of_def Let_def)
  show "rev (map fv_file (fg_versions g)) = fs"
    unfolding v by (simp add: rev_map comp_def case_prod_beta flip: map_map) (simp add: comp_def case_prod_beta)
  have "map (\<lambda>(i, f). i + 1) (List.enumerate 0 fs) = [1..<Suc (length fs)]"
    by (rule nth_equalityI) (simp_all add: nth_enumerate_eq del: upt_Suc)
  then show "rev (map fv_version (fg_versions g)) = [1..<Suc (length fs)]"
    unfolding v by (simp add: rev_map comp_def case_prod_unfold del: upt_Suc)
  have "List.enumerate 0 fs \<noteq> []" using assms(2) by (cases fs) simp_all
  moreover from this have "last (List.enumerate 0 fs) = (length fs - 1, last fs)"
    using assms(2) by (simp add: last_conv_nth nth_enumerate_eq)
  ultimately have "hd (fg_versions g) = \<lparr>fv_file = last fs, fv_version = length fs\<rparr>"
    unfolding v using assms(2) by (simp add: hd_rev last_map)
  then show "fg_latest g = \<lparr>fv_file = last fs, fv_version = length fs\<rparr>" "fg_filename g = n" "fg_groupId g = fr_file_id (last fs)"
    by (simp_all add: g file_group_of_def Let_def)
qed

lemma versions_of_sorted: "sorted_wrt (<) (map fr_seq fs) \<Longrightarrow> sorted_wrt (<) (map fr_seq (versions_of fs n))"
  by (simp add: versions_of_def sorted_wrt_map sorted_wrt_filter)

text \<open>The file view shows every file of the room once: one group for each file name, with all versions of that
  name numbered from 1 in archive order, newest first, under the newest one, and the groups by their newest.\<close>

theorem files_grouped_once:
  fixes records rid
  defines "gs \<equiv> groupFiles records rid" and "fs \<equiv> projectFiles records rid"
  shows "distinct (map fg_filename gs) \<and> set (map fg_filename gs) = fr_filename ` set fs
    \<and> sorted_wrt (\<lambda>g h. fr_seq (fv_file (fg_latest h)) < fr_seq (fv_file (fg_latest g))) gs
    \<and> list_all (\<lambda>g. rev (map fv_file (fg_versions g)) = filter (\<lambda>f. fr_filename f = fg_filename g) fs
         \<and> rev (map fv_version (fg_versions g)) = [1..<Suc (length (fg_versions g))] \<and> fg_latest g = hd (fg_versions g)) gs"
proof -
  let ?m = "fold push_version fs []"
  have fs: "sorted_wrt (<) (map fr_seq fs)" unfolding fs_def by (rule projectFiles_sorted)
  have gs: "gs = sort_key (\<lambda>g. - int (fr_seq (fv_file (fg_latest g)))) (map file_group_of ?m)"
    by (simp add: gs_def fs_def groupFiles_def)
  have g: "\<exists>n. g = file_group_of (n, versions_of fs n) \<and> versions_of fs n \<noteq> []" if "g \<in> set gs" for g
    using that unfolding gs by (auto simp: pushed_group)
  have spec: "fg_filename (file_group_of x) = fst x" for x by (cases x) (simp add: file_group_of_def Let_def)
  have d: "distinct (map fst ?m)" by (rule push_versions(1)) simp
  have names: "mset (map fg_filename gs) = mset (map fst ?m)"
  proof -
    have "map fg_filename (map file_group_of ?m) = map fst ?m" using spec by simp
    then show ?thesis unfolding gs by (metis mset_map mset_sort)
  qed
  then have 1: "distinct (map fg_filename gs)" using d mset_eq_imp_distinct_iff by blast
  have "set (map fg_filename gs) = set (map fst ?m)" using names mset_eq_setD by blast
  also have "\<dots> = fr_filename ` set fs"
  proof (intro set_eqI)
    fix n
    have "n \<in> set (map fst ?m) \<longleftrightarrow> (\<exists>gs. (n, gs) \<in> set ?m)" by force
    also have "\<dots> \<longleftrightarrow> versions_of fs n \<noteq> []" by (simp add: pushed_group)
    also have "\<dots> \<longleftrightarrow> n \<in> fr_filename ` set fs" by (auto simp: versions_of_def filter_empty_conv)
    finally show "n \<in> set (map fst ?m) \<longleftrightarrow> n \<in> fr_filename ` set fs" .
  qed
  finally have 2: "set (map fg_filename gs) = fr_filename ` set fs" .
  have 3: "rev (map fv_file (fg_versions g)) = filter (\<lambda>f. fr_filename f = fg_filename g) fs
      \<and> rev (map fv_version (fg_versions g)) = [1..<Suc (length (fg_versions g))] \<and> fg_latest g = hd (fg_versions g)" if "g \<in> set gs" for g
  proof -
    obtain n where n: "g = file_group_of (n, versions_of fs n)" "versions_of fs n \<noteq> []" using g [OF \<open>g \<in> set gs\<close>] by blast
    note s = group_spec [OF versions_of_sorted [OF fs] n(2) n(1)]
    have "length (fg_versions g) = length (versions_of fs n)" using s(1) by (metis length_map length_rev)
    moreover have "fg_latest g = hd (fg_versions g)" by (simp add: n(1) file_group_of_def Let_def)
    ultimately show ?thesis using s by (simp add: versions_of_def)
  qed
  have last_in: "fv_file (fg_latest g) \<in> set fs \<and> fr_filename (fv_file (fg_latest g)) = fg_filename g" if "g \<in> set gs" for g
  proof -
    from g [OF that] obtain n where n: "g = file_group_of (n, versions_of fs n)" "versions_of fs n \<noteq> []" by blast
    then show ?thesis using group_spec(3,4) [OF versions_of_sorted [OF fs] n(2) n(1)] last_in_set [OF n(2)]
      by (simp add: versions_of_def)
  qed
  have inj: "inj_on (\<lambda>g. fr_seq (fv_file (fg_latest g))) (set gs)"
  proof (rule inj_onI)
    fix g h assume gh: "g \<in> set gs" "h \<in> set gs" "fr_seq (fv_file (fg_latest g)) = fr_seq (fv_file (fg_latest h))"
    have "inj_on fr_seq (set fs)" using fs by (simp add: strict_sorted_iff distinct_map)
    then have "fv_file (fg_latest g) = fv_file (fg_latest h)" using last_in gh by (meson inj_onD)
    then have "fg_filename g = fg_filename h" using last_in gh by metis
    then show "g = h" using 1 gh by (meson distinct_map inj_onD)
  qed
  have "sorted (map (\<lambda>g. - int (fr_seq (fv_file (fg_latest g)))) gs)" unfolding gs by simp
  moreover have "distinct (map (\<lambda>g. - int (fr_seq (fv_file (fg_latest g)))) gs)"
    using inj 1 by (auto simp: distinct_map inj_on_def)
  ultimately have "sorted_wrt (<) (map (\<lambda>g. - int (fr_seq (fv_file (fg_latest g)))) gs)" by (simp add: strict_sorted_iff)
  then have "sorted_wrt (\<lambda>g h. fr_seq (fv_file (fg_latest h)) < fr_seq (fv_file (fg_latest g))) gs" by (simp add: sorted_wrt_map)
  with 1 2 3 show ?thesis by (simp add: list_all_iff)
qed

subsection \<open>Controls\<close>

text \<open>When a room's state does not enable its composer, the daemon refuses the message one would send, without any
  effect. (The other controls depend on more than the capability: \<open>InviteManager\<close> also looks at the state of the invite.)\<close>

lemma composer_off_refused:
  assumes w: "world_ok env rid w" "v_room w = Some room" and off: "\<not> can_message (roomCapabilities (r_state room) True)"
  shows "\<exists>e. serve unpack pumping env rid (Say t) w = (Inl e, w)"
proof (cases "r_state room")
  case Provisioning
  then show ?thesis by (simp add: load_okI [OF w] delivered_def eff_simps postMessage_def appendChatUnlocked_def assertPostable_def)
next
  case Room_active
  with off show ?thesis by (simp add: roomCapabilities_def mutableCapabilities_def)
qed (use closing_refused [OF w, of "Say t"] in simp_all)

subsection \<open>Showing earlier rows\<close>

lemma newestRows_suffix: "\<exists>older. rows = older @ newestRows rows n"
  by (metis append_take_drop_id newestRows_def)

lemma newestRows_length: "length (newestRows rows n) = min (length rows) (nat n)"
  by (auto simp: newestRows_def Let_def min_def max_def)

lemma show_earlier_reaches:
  assumes "0 \<le> n"
  shows "((\<lambda>n. showEarlierCount n (int (length rows)) PROJECTION_PAGE_SIZE) ^^ Suc k) n
    = min (int (length rows)) (n + int (Suc k) * PROJECTION_PAGE_SIZE)"
  using assms by (induction k) (auto simp: showEarlierCount_def PROJECTION_PAGE_SIZE_def)

subsection \<open>Runs\<close>

theorem merged_pages_witness:
  "fold (\<lambda>page held. mergeRecords held page) [drop 4 sample_rows, take 6 (drop 2 sample_rows)] []
    = filter (\<lambda>r. r \<in> set (drop 4 sample_rows) \<or> r \<in> set (take 6 (drop 2 sample_rows))) sample_rows"
proof -
  have 1: "sorted_wrt (<) (map w_seq sample_rows)" by code_simp
  have 2: "\<forall>p\<in>set [drop 4 sample_rows, take 6 (drop 2 sample_rows)]. set p \<subseteq> set sample_rows"
    by (auto dest: in_set_takeD in_set_dropD)
  show ?thesis using merged_pages_are_archive [OF 1 2] by simp
qed

end
