(* ===== verification/Mutex.thy ===== *)
theory Mutex
  imports World "HOL-Library.AList"
begin

section \<open>The mutex of a room\<close>

text \<open>
  \<open>RoomQueue\<close> and \<open>withRoomMutex\<close> of \<open>src/storage.ts\<close> for one room, as steps of concurrent calls. A call made
  outside a section waits its turn and then is a section of its own. A call made from the asynchronous context
  of a section that has not ended is nested: it runs at once, and the section waits for it and keeps its
  failure. A call is a number; what it computes is its result. Contexts of several rooms at once are left out.
\<close>

subsection \<open>Calls, sections and their results\<close>

record 'a ownership =
  ow_active :: bool
  ow_pending :: "nat list"
  ow_failures :: "err list"
  ow_root :: "(err + 'a) option"

text \<open>\<open>mx_called\<close>, \<open>mx_begun\<close> and \<open>mx_nested\<close> log what happened: the outer calls and the sections in order, and each
  finished nested call with its section.\<close>

record 'a mutex =
  mx_queue :: "nat list"
  mx_holder :: "nat option"
  mx_own :: "(nat \<times> 'a ownership) list"
  mx_results :: "(nat \<times> (err + 'a)) list"
  mx_used :: "nat list"
  mx_called :: "nat list"
  mx_begun :: "nat list"
  mx_nested :: "(nat \<times> nat \<times> (err + 'a)) list"

definition free_mutex :: "'a mutex" where
  "free_mutex = \<lparr>mx_queue = [], mx_holder = None, mx_own = [], mx_results = [], mx_used = [], mx_called = [], mx_begun = [], mx_nested = []\<rparr>"

definition own :: "'a mutex \<Rightarrow> nat \<Rightarrow> 'a ownership option" where
  "own s t = map_of (mx_own s) t"

definition set_own :: "nat \<Rightarrow> 'a ownership \<Rightarrow> 'a mutex \<Rightarrow> 'a mutex" where
  "set_own t o1 s = s\<lparr>mx_own := AList.update t o1 (mx_own s)\<rparr>"

text \<open>What the section throws or returns.\<close>

definition section_result :: "err + 'a \<Rightarrow> err list \<Rightarrow> err + 'a" where
  "section_result root failures = (case root of
     Inl e \<Rightarrow> Inl e
   | Inr v \<Rightarrow> (case failures of [] \<Rightarrow> Inr v | e # _ \<Rightarrow> Inl e))"

datatype 'a mutex_event =
    Call "nat option" nat
  | Turn
  | Nested_settles nat nat "err + 'a"
  | Root_settles "err + 'a"
  | Leave

text \<open>\<open>Call ctx t\<close>: the context names the section it inherits. \<open>Turn\<close>: the promise of the section before settles.\<close>

fun mutex_step :: "'a mutex_event \<Rightarrow> 'a mutex \<Rightarrow> 'a mutex" where
  "mutex_step (Call ctx t) s =
     (if t \<in> set (mx_used s) then s
      else (let s' = s\<lparr>mx_used := t # mx_used s\<rparr> in
        case (case ctx of None \<Rightarrow> None | Some h \<Rightarrow> map_option (Pair h) (own s h)) of
          Some (h, o1) \<Rightarrow>
            if ow_active o1 then set_own h (o1\<lparr>ow_pending := ow_pending o1 @ [t]\<rparr>) s'
            else s'\<lparr>mx_queue := mx_queue s @ [t], mx_called := mx_called s @ [t]\<rparr>
        | None \<Rightarrow> s'\<lparr>mx_queue := mx_queue s @ [t], mx_called := mx_called s @ [t]\<rparr>))"
| "mutex_step Turn s =
     (case (mx_holder s, mx_queue s) of
        (None, t # rest) \<Rightarrow> set_own t \<lparr>ow_active = True, ow_pending = [], ow_failures = [], ow_root = None\<rparr>
          (s\<lparr>mx_holder := Some t, mx_queue := rest, mx_begun := mx_begun s @ [t]\<rparr>)
      | _ \<Rightarrow> s)"
| "mutex_step (Nested_settles h t r) s =
     (case own s h of
        None \<Rightarrow> s
      | Some o1 \<Rightarrow>
          if t \<notin> set (ow_pending o1) then s
          else set_own h (o1\<lparr>ow_pending := remove1 t (ow_pending o1),
                 ow_failures := ow_failures o1 @ (case r of Inl e \<Rightarrow> [e] | Inr _ \<Rightarrow> [])\<rparr>)
            (s\<lparr>mx_results := (t, r) # mx_results s, mx_nested := mx_nested s @ [(h, t, r)]\<rparr>))"
| "mutex_step (Root_settles r) s =
     (case mx_holder s of
        None \<Rightarrow> s
      | Some t \<Rightarrow> (case own s t of
            None \<Rightarrow> s
          | Some o1 \<Rightarrow> if ow_root o1 \<noteq> None then s else set_own t (o1\<lparr>ow_root := Some r\<rparr>) s))"
| "mutex_step Leave s =
     (case mx_holder s of
        None \<Rightarrow> s
      | Some t \<Rightarrow> (case own s t of
            None \<Rightarrow> s
          | Some o1 \<Rightarrow>
              (case ow_root o1 of
                 None \<Rightarrow> s
               | Some r \<Rightarrow>
                   if ow_pending o1 \<noteq> [] then s
                   else set_own t (o1\<lparr>ow_active := False\<rparr>)
                     (s\<lparr>mx_holder := None, mx_results := (t, section_result r (ow_failures o1)) # mx_results s\<rparr>))))"

definition mutex_run :: "'a mutex_event list \<Rightarrow> 'a mutex" where
  "mutex_run es = fold mutex_step es free_mutex"

text \<open>Work that runs: the body of the section, and the nested calls that have not settled.\<close>

definition runs :: "'a mutex \<Rightarrow> nat \<Rightarrow> bool" where
  "runs s t \<longleftrightarrow> (\<exists>o1. mx_holder s = Some t \<and> own s t = Some o1 \<and> ow_root o1 = None)
     \<or> (\<exists>h o1. own s h = Some o1 \<and> t \<in> set (ow_pending o1))"

subsection \<open>The invariant\<close>

definition nested_errors :: "(nat \<times> nat \<times> (err + 'a)) list \<Rightarrow> nat \<Rightarrow> err list" where
  "nested_errors log h = List.map_filter (\<lambda>(h', t, r). if h' = h then (case r of Inl e \<Rightarrow> Some e | Inr _ \<Rightarrow> None) else None) log"

text \<open>Only the section that holds the mutex is active; the others have no work left, and their result counts every
  nested failure. No number is used twice.\<close>

definition section_ok :: "'a mutex \<Rightarrow> nat \<Rightarrow> 'a ownership \<Rightarrow> bool" where
  "section_ok s t o1 \<longleftrightarrow> ow_failures o1 = nested_errors (mx_nested s) t
     \<and> distinct (ow_pending o1) \<and> set (ow_pending o1) \<subseteq> set (mx_used s) - set (mx_called s)
     \<and> (ow_active o1 \<longleftrightarrow> mx_holder s = Some t)
     \<and> (\<not> ow_active o1 \<longrightarrow> ow_pending o1 = [] \<and> (\<exists>r. ow_root o1 = Some r
          \<and> map_of (mx_results s) t = Some (section_result r (ow_failures o1))))"

definition calls_ok :: "'a mutex \<Rightarrow> bool" where
  "calls_ok s \<longleftrightarrow> mx_begun s @ mx_queue s = mx_called s \<and> distinct (mx_called s) \<and> set (mx_called s) \<subseteq> set (mx_used s)"

definition logs_ok :: "'a mutex \<Rightarrow> bool" where
  "logs_ok s \<longleftrightarrow> (\<forall>t. mx_holder s = Some t \<longrightarrow> t \<in> set (mx_begun s))
     \<and> (\<forall>(h, t, r)\<in>set (mx_nested s). t \<notin> set (mx_called s) \<and> t \<in> set (mx_used s) \<and> h \<in> set (mx_begun s))
     \<and> (\<forall>(t, r)\<in>set (mx_results s). t \<in> set (mx_used s))"

definition mutex_inv :: "'a mutex \<Rightarrow> bool" where
  "mutex_inv s \<longleftrightarrow> calls_ok s \<and> logs_ok s \<and> (\<forall>t. own s t \<noteq> None \<longleftrightarrow> t \<in> set (mx_begun s))
     \<and> (\<forall>t o1. own s t = Some o1 \<longrightarrow> section_ok s t o1)"

lemma own_set_own [simp]: "own (set_own t o1 s) u = (if u = t then Some o1 else own s u)"
  by (simp add: own_def set_own_def update_conv')

lemma set_own_fields [simp]:
  "mx_queue (set_own t o1 s) = mx_queue s" "mx_holder (set_own t o1 s) = mx_holder s" "mx_results (set_own t o1 s) = mx_results s"
  "mx_used (set_own t o1 s) = mx_used s" "mx_called (set_own t o1 s) = mx_called s" "mx_begun (set_own t o1 s) = mx_begun s"
  "mx_nested (set_own t o1 s) = mx_nested s"
  by (simp_all add: set_own_def)

lemma own_fields [simp]:
  "own (s\<lparr>mx_used := u\<rparr>) = own s" "own (s\<lparr>mx_queue := q\<rparr>) = own s" "own (s\<lparr>mx_called := c\<rparr>) = own s"
  "own (s\<lparr>mx_holder := h\<rparr>) = own s" "own (s\<lparr>mx_begun := b\<rparr>) = own s" "own (s\<lparr>mx_results := r\<rparr>) = own s"
  "own (s\<lparr>mx_nested := n\<rparr>) = own s"
  by (simp_all add: own_def fun_eq_iff)

lemma nested_errors_snoc:
  "nested_errors (log @ [(h', t, r)]) h = nested_errors log h @ (if h' = h then (case r of Inl e \<Rightarrow> [e] | Inr _ \<Rightarrow> []) else [])"
  by (simp add: nested_errors_def List.map_filter_def split: sum.split)

lemma mutex_inv_free: "mutex_inv free_mutex"
  by (simp add: mutex_inv_def calls_ok_def logs_ok_def free_mutex_def own_def)

lemma begun_used: "calls_ok s \<Longrightarrow> t \<in> set (mx_begun s) \<Longrightarrow> t \<in> set (mx_called s) \<and> t \<in> set (mx_used s)"
  unfolding calls_ok_def by (metis Un_iff set_append subset_iff)

lemma mutex_invD:
  assumes "mutex_inv s"
  shows "calls_ok s" "logs_ok s" "own s t \<noteq> None \<longleftrightarrow> t \<in> set (mx_begun s)" "own s t = Some o1 \<Longrightarrow> section_ok s t o1"
  using assms unfolding mutex_inv_def by blast+

lemma mutex_invI:
  assumes "calls_ok s" and "logs_ok s" and "\<And>t. own s t \<noteq> None \<longleftrightarrow> t \<in> set (mx_begun s)"
    and "\<And>t o1. own s t = Some o1 \<Longrightarrow> section_ok s t o1"
  shows "mutex_inv s"
  using assms unfolding mutex_inv_def by blast

lemma outer_call:
  assumes "mutex_inv s" and "t \<notin> set (mx_used s)"
  shows "mutex_inv (s\<lparr>mx_used := t # mx_used s, mx_queue := mx_queue s @ [t], mx_called := mx_called s @ [t]\<rparr>)" (is "mutex_inv ?s")
proof (rule mutex_invI)
  note i = mutex_invD [OF assms(1)]
  show "calls_ok ?s" using i(1) assms(2) by (auto simp: calls_ok_def)
  show "logs_ok ?s" using i(2) assms(2) by (fastforce simp: logs_ok_def)
  show "own ?s h \<noteq> None \<longleftrightarrow> h \<in> set (mx_begun ?s)" for h using i(3) by simp
  show "section_ok ?s h o1" if "own ?s h = Some o1" for h o1
    using i(4) [of h o1] that assms(2) by (auto simp: section_ok_def)
qed

lemma nested_call:
  assumes "mutex_inv s" and "t \<notin> set (mx_used s)" and "own s h = Some o1" and "ow_active o1"
  shows "mutex_inv (set_own h (o1\<lparr>ow_pending := ow_pending o1 @ [t]\<rparr>) (s\<lparr>mx_used := t # mx_used s\<rparr>))" (is "mutex_inv ?s")
proof (rule mutex_invI)
  note i = mutex_invD [OF assms(1)]
  show "calls_ok ?s" using i(1) by (auto simp: calls_ok_def)
  show "logs_ok ?s" using i(2) by (fastforce simp: logs_ok_def)
  show "own ?s k \<noteq> None \<longleftrightarrow> k \<in> set (mx_begun ?s)" for k using i(3) [of k] i(3) [of h] assms(3) by auto
  have new: "t \<notin> set (mx_called s)" using i(1) assms(2) by (auto simp: calls_ok_def)
  show "section_ok ?s k o2" if "own ?s k = Some o2" for k o2
    using that i(4) [of k o2] i(4) [OF assms(3)] assms(2,4) new by (cases "k = h") (auto simp: section_ok_def)
qed

lemma begun_called: "calls_ok s \<Longrightarrow> mx_queue s = t # rest \<Longrightarrow> t \<notin> set (mx_begun s) \<and> t \<in> set (mx_called s)"
  unfolding calls_ok_def by (metis disjoint_iff distinct_append in_set_conv_decomp list.set_intros(1))

lemma turn_inv:
  assumes "mutex_inv s" and "mx_holder s = None" and "mx_queue s = t # rest"
  shows "mutex_inv (set_own t \<lparr>ow_active = True, ow_pending = [], ow_failures = [], ow_root = None\<rparr>
    (s\<lparr>mx_holder := Some t, mx_queue := rest, mx_begun := mx_begun s @ [t]\<rparr>))" (is "mutex_inv ?s")
proof (rule mutex_invI)
  note i = mutex_invD [OF assms(1)]
  show "calls_ok ?s" using i(1) assms(3) by (auto simp: calls_ok_def)
  show "logs_ok ?s" using i(2) by (fastforce simp: logs_ok_def)
  show "own ?s k \<noteq> None \<longleftrightarrow> k \<in> set (mx_begun ?s)" for k using i(3) [of k] by auto
  note t = begun_called [OF i(1) assms(3)]
  have "h \<noteq> t" if "(h, u, r) \<in> set (mx_nested s)" for h u r using t i(2) that by (auto simp: logs_ok_def)
  then have "nested_errors (mx_nested s) t = []" by (fastforce simp: nested_errors_def List.map_filter_def filter_empty_conv)
  then show "section_ok ?s k o2" if "own ?s k = Some o2" for k o2
    using that i(4) [of k o2] assms(2) by (cases "k = t") (auto simp: section_ok_def)
qed

lemma nested_settles_inv:
  assumes "mutex_inv s" and "own s h = Some o1" and "t \<in> set (ow_pending o1)"
  shows "mutex_inv (set_own h (o1\<lparr>ow_pending := remove1 t (ow_pending o1),
       ow_failures := ow_failures o1 @ (case r of Inl e \<Rightarrow> [e] | Inr _ \<Rightarrow> [])\<rparr>)
     (s\<lparr>mx_results := (t, r) # mx_results s, mx_nested := mx_nested s @ [(h, t, r)]\<rparr>))" (is "mutex_inv ?s")
proof (rule mutex_invI)
  note i = mutex_invD [OF assms(1)]
  note sec = i(4) [OF assms(2)]
  have t: "t \<in> set (mx_used s)" "t \<notin> set (mx_called s)" using sec assms(3) by (auto simp: section_ok_def)
  show "calls_ok ?s" using i(1) by (auto simp: calls_ok_def)
  have h: "h \<in> set (mx_begun s)" using i(3) [of h] assms(2) by simp
  show "logs_ok ?s" using i(2) t h by (fastforce simp: logs_ok_def)
  show "own ?s k \<noteq> None \<longleftrightarrow> k \<in> set (mx_begun ?s)" for k using i(3) [of k] h by auto
  show "section_ok ?s k o2" if "own ?s k = Some o2" for k o2
  proof (cases "k = h")
    case True
    have "ow_active o1" using sec assms(3) by (auto simp: section_ok_def)
    then show ?thesis using True that sec by (auto simp: section_ok_def nested_errors_snoc dest: notin_set_remove1 set_remove1_subset [THEN subsetD])
  next
    case False
    then have "section_ok s k o2" using that i(4) by simp
    moreover have "k \<noteq> t" if "\<not> ow_active o2"
      using t(2) begun_used [OF i(1), of k] i(3) [of k] \<open>own ?s k = Some o2\<close> False by auto
    ultimately show ?thesis using False by (auto simp: section_ok_def nested_errors_snoc)
  qed
qed

lemma root_settles_inv:
  assumes "mutex_inv s" and "mx_holder s = Some t" and "own s t = Some o1"
  shows "mutex_inv (set_own t (o1\<lparr>ow_root := Some r\<rparr>) s)" (is "mutex_inv ?s")
proof (rule mutex_invI)
  note i = mutex_invD [OF assms(1)]
  show "calls_ok ?s" using i(1) by (auto simp: calls_ok_def)
  show "logs_ok ?s" using i(2) by (auto simp: logs_ok_def)
  show "own ?s k \<noteq> None \<longleftrightarrow> k \<in> set (mx_begun ?s)" for k using i(3) [of k] i(3) [of t] assms(3) by auto
  show "section_ok ?s k o2" if "own ?s k = Some o2" for k o2
    using that i(4) [of k o2] i(4) [OF assms(3)] assms(2) by (cases "k = t") (auto simp: section_ok_def)
qed

lemma leave_inv:
  assumes "mutex_inv s" and "mx_holder s = Some t" and "own s t = Some o1" and "ow_root o1 = Some r" and "ow_pending o1 = []"
  shows "mutex_inv (set_own t (o1\<lparr>ow_active := False\<rparr>)
    (s\<lparr>mx_holder := None, mx_results := (t, section_result r (ow_failures o1)) # mx_results s\<rparr>))" (is "mutex_inv ?s")
proof (rule mutex_invI)
  note i = mutex_invD [OF assms(1)]
  have t: "t \<in> set (mx_begun s)" using i(3) [of t] assms(3) by simp
  then have used: "t \<in> set (mx_used s)" using begun_used [OF i(1)] by simp
  show "calls_ok ?s" using i(1) by (auto simp: calls_ok_def)
  show "logs_ok ?s" using i(2) used by (fastforce simp: logs_ok_def)
  show "own ?s k \<noteq> None \<longleftrightarrow> k \<in> set (mx_begun ?s)" for k using i(3) [of k] t by auto
  show "section_ok ?s k o2" if "own ?s k = Some o2" for k o2
    using that i(4) [of k o2] i(4) [OF assms(3)] assms(2,4,5) by (cases "k = t") (auto simp: section_ok_def)
qed

lemma mutex_step_inv: "mutex_inv s \<Longrightarrow> mutex_inv (mutex_step e s)"
proof (cases e)
  case (Call ctx t)
  assume "mutex_inv s"
  then show ?thesis unfolding Call
    using outer_call [of s t] nested_call [of s t] by (auto simp: Let_def split: option.splits)
qed (auto simp: turn_inv nested_settles_inv root_settles_inv leave_inv split: option.splits list.splits)

lemma mutex_run_inv: "mutex_inv (mutex_run es)"
proof -
  have "mutex_inv (fold mutex_step es s)" if "mutex_inv s" for s
    using that by (induction es arbitrary: s) (simp_all add: mutex_step_inv)
  then show ?thesis unfolding mutex_run_def using mutex_inv_free by blast
qed

subsection \<open>What the mutex guarantees\<close>

text \<open>C31: whatever is called from whatever context, all work that runs belongs to one section, the one that holds the
  mutex; and sections begin in the order in which they were called, each once.\<close>

theorem one_section_at_a_time:
  fixes es :: "'a mutex_event list"
  defines "s \<equiv> mutex_run es"
  assumes "runs s t"
  shows "(\<exists>h o1. mx_holder s = Some h \<and> own s h = Some o1 \<and> ow_active o1 \<and> (t = h \<or> t \<in> set (ow_pending o1)))
    \<and> mx_begun s @ mx_queue s = mx_called s \<and> distinct (mx_called s)"
proof -
  note i = mutex_invD [OF mutex_run_inv [of es], folded s_def]
  have "\<exists>h o1. mx_holder s = Some h \<and> own s h = Some o1 \<and> ow_active o1 \<and> (t = h \<or> t \<in> set (ow_pending o1))"
    using assms(2) i(4) unfolding runs_def section_ok_def by (metis empty_iff list.set(1))
  then show ?thesis using i(1) by (simp add: calls_ok_def)
qed

text \<open>C32: a section that has ended has left no work behind, and returns what its body returned only if every
  nested call of it succeeded; a nested failure the body caught is reported all the same.\<close>

theorem ended_section_reports:
  fixes es :: "'a mutex_event list"
  defines "s \<equiv> mutex_run es"
  assumes "h \<in> set (mx_begun s)" and "mx_holder s \<noteq> Some h"
  shows "\<exists>o1 r. own s h = Some o1 \<and> ow_pending o1 = [] \<and> ow_root o1 = Some r
    \<and> map_of (mx_results s) h = Some (section_result r (nested_errors (mx_nested s) h))
    \<and> ((h, t, Inl e) \<in> set (mx_nested s) \<longrightarrow> (\<exists>e'. map_of (mx_results s) h = Some (Inl e')))"
proof -
  note i = mutex_invD [OF mutex_run_inv [of es], folded s_def]
  from i(3) [of h] assms(2) obtain o1 where o: "own s h = Some o1" by blast
  from i(4) [OF o] assms(3) obtain r where r: "ow_pending o1 = []" "ow_root o1 = Some r"
    "map_of (mx_results s) h = Some (section_result r (nested_errors (mx_nested s) h))"
    unfolding section_ok_def by auto
  have "\<exists>e'. section_result r (nested_errors (mx_nested s) h) = Inl e'" if "(h, t, Inl e) \<in> set (mx_nested s)"
  proof -
    from that have "e \<in> set (nested_errors (mx_nested s) h)"
      by (force simp: nested_errors_def List.map_filter_def)
    then show ?thesis by (cases r; cases "nested_errors (mx_nested s) h") (simp_all add: section_result_def)
  qed
  then show ?thesis using o r by auto
qed

text \<open>Settling everything a section waits for.\<close>

definition finish :: "nat \<Rightarrow> nat list \<Rightarrow> err + 'a \<Rightarrow> 'a mutex_event list" where
  "finish h pending r = map (\<lambda>t. Nested_settles h t r) pending @ [Root_settles r, Leave]"

fun is_call :: "'a mutex_event \<Rightarrow> bool" where
  "is_call (Call ctx t) = True"
| "is_call _ = False"

lemma settle_one:
  assumes "own s h = Some o1" and "ow_pending o1 = t # ts"
  shows "\<exists>o2. own (mutex_step (Nested_settles h t r) s) h = Some o2 \<and> ow_pending o2 = ts"
    and "mx_holder (mutex_step (Nested_settles h t r) s) = mx_holder s" "mx_queue (mutex_step (Nested_settles h t r) s) = mx_queue s"
      "mx_begun (mutex_step (Nested_settles h t r) s) = mx_begun s"
  using assms by simp_all

lemma settle_pending:
  assumes "own s h = Some o1" and "ow_pending o1 = ts"
  shows "(\<exists>o2. own (fold mutex_step (map (\<lambda>t. Nested_settles h t r) ts) s) h = Some o2 \<and> ow_pending o2 = [])
    \<and> mx_holder (fold mutex_step (map (\<lambda>t. Nested_settles h t r) ts) s) = mx_holder s
    \<and> mx_queue (fold mutex_step (map (\<lambda>t. Nested_settles h t r) ts) s) = mx_queue s
    \<and> mx_begun (fold mutex_step (map (\<lambda>t. Nested_settles h t r) ts) s) = mx_begun s"
  using assms
proof (induction ts arbitrary: s o1)
  case (Cons t ts)
  note one = settle_one [OF Cons.prems, of r]
  from one(1) obtain o2 where "own (mutex_step (Nested_settles h t r) s) h = Some o2" "ow_pending o2 = ts" by blast
  from Cons.IH [OF this] one(2-4) show ?case by (simp del: mutex_step.simps)
qed simp

lemma finish_section:
  assumes "mutex_inv s" and "mx_holder s = Some h"
  shows "\<exists>es. list_all (\<lambda>e. \<not> is_call e) es \<and> mx_holder (fold mutex_step es s) = None
    \<and> mx_queue (fold mutex_step es s) = mx_queue s \<and> mx_begun (fold mutex_step es s) = mx_begun s"
proof -
  note i = mutex_invD [OF assms(1)]
  have "h \<in> set (mx_begun s)" using i(2) assms(2) by (simp add: logs_ok_def)
  then obtain o1 where o: "own s h = Some o1" using i(3) [of h] by blast
  let ?s = "fold mutex_step (map (\<lambda>t. Nested_settles h t (Inl Zod_error)) (ow_pending o1)) s"
  from settle_pending [OF o refl, of "Inl Zod_error"] obtain o2 where o2: "own ?s h = Some o2" "ow_pending o2 = []"
    and k: "mx_holder ?s = Some h" "mx_queue ?s = mx_queue s" "mx_begun ?s = mx_begun s"
    using assms(2) by auto
  have "list_all (\<lambda>e. \<not> is_call e) (finish h (ow_pending o1) (Inl Zod_error))" by (auto simp: finish_def list_all_iff)
  moreover have "mx_holder (fold mutex_step (finish h (ow_pending o1) (Inl Zod_error)) s) = None
    \<and> mx_queue (fold mutex_step (finish h (ow_pending o1) (Inl Zod_error)) s) = mx_queue s
    \<and> mx_begun (fold mutex_step (finish h (ow_pending o1) (Inl Zod_error)) s) = mx_begun s"
    using o2 k by (auto simp: finish_def split: option.split)
  ultimately show ?thesis by blast
qed

lemma next_turn:
  assumes "mutex_inv s" and "mx_queue s = t # rest"
  shows "\<exists>es. list_all (\<lambda>e. \<not> is_call e) es \<and> mx_queue (fold mutex_step es s) = rest \<and> mx_begun (fold mutex_step es s) = mx_begun s @ [t]"
proof -
  obtain es where es: "list_all (\<lambda>e. \<not> is_call e) es" "mx_holder (fold mutex_step es s) = None"
    "mx_queue (fold mutex_step es s) = mx_queue s" "mx_begun (fold mutex_step es s) = mx_begun s"
  proof (cases "mx_holder s")
    case None
    then show ?thesis using that [of "[]"] by simp
  next
    case (Some h)
    then show ?thesis using finish_section [OF assms(1) Some] that by blast
  qed
  then show ?thesis using assms(2) by (intro exI [of _ "es @ [Turn]"]) simp
qed

text \<open>No call starves: from every state there is a way on without any new call on which a waiting section begins.\<close>

theorem waiting_section_begins:
  assumes "t \<in> set (mx_queue (mutex_run es))"
  shows "\<exists>more_es. list_all (\<lambda>e. \<not> is_call e) more_es \<and> t \<in> set (mx_begun (mutex_run (es @ more_es)))"
proof -
  have inv: "mutex_inv (fold mutex_step es s)" if "mutex_inv s" for es s
    using that by (induction es arbitrary: s) (simp_all add: mutex_step_inv)
  have "\<exists>xs. list_all (\<lambda>e. \<not> is_call e) xs \<and> t \<in> set (mx_begun (fold mutex_step xs s))"
    if "mutex_inv s" "mx_queue s = q" "t \<in> set q" for s q
    using that
  proof (induction q arbitrary: s)
    case (Cons u q)
    obtain xs where xs: "list_all (\<lambda>e. \<not> is_call e) xs" "mx_queue (fold mutex_step xs s) = q"
      "mx_begun (fold mutex_step xs s) = mx_begun s @ [u]" using next_turn [OF Cons.prems(1,2)] by blast
    show ?case
    proof (cases "t = u")
      case True
      then show ?thesis using xs by (intro exI [of _ xs]) simp
    next
      case False
      then obtain ys where "list_all (\<lambda>e. \<not> is_call e) ys" "t \<in> set (mx_begun (fold mutex_step ys (fold mutex_step xs s)))"
        using Cons.IH [OF inv [OF Cons.prems(1)] xs(2)] Cons.prems(3) by auto
      then show ?thesis using xs(1) by (intro exI [of _ "xs @ ys"]) simp
    qed
  qed simp
  from this [OF mutex_run_inv refl assms] show ?thesis by (simp add: mutex_run_def)
qed

text \<open>\<open>absorb\<close> is a section whose last act is one nested call: what it answers is the result of the section when the
  body turns a failure of that call into \<open>v\<close>.\<close>

lemma absorb_is_section:
  assumes "\<And>e. fst (m w) = Inl e \<Longrightarrow> nested_failure e"
  shows "fst (absorb m (\<lambda>e. ret v) w)
    = section_result (case fst (m w) of Inl e \<Rightarrow> Inr v | Inr x \<Rightarrow> Inr x) (case fst (m w) of Inl e \<Rightarrow> [e] | Inr x \<Rightarrow> [])"
  using assms by (cases "m w") (auto simp: absorb_def eff_simps section_result_def split: sum.splits)

subsection \<open>Positions and health\<close>

text \<open>What the store tells the views of its rooms: a position that every event advances, and the sources that have
  failed or are pending, each for one room or for all.\<close>

datatype resource_kind = Metadata_event | History_event | Delete_event | Health_event

record resource_log =
  rg_position :: nat
  rg_failed :: "(string \<times> string option) list"
  rg_pending :: "(string \<times> string option) list"
  rg_events :: "(string option \<times> resource_kind) list"

definition concerns :: "string option \<Rightarrow> (string \<times> string option) list \<Rightarrow> bool" where
  "concerns rid sources \<longleftrightarrow> list_ex (\<lambda>(n, scope). scope = None \<or> scope = rid) sources"

text \<open>The position and whether the health is \<open>failed\<close>.\<close>

definition resourceState :: "string option \<Rightarrow> resource_log \<Rightarrow> nat \<times> bool" where
  "resourceState rid g = (rg_position g, concerns rid (rg_failed g))"

definition resourcePending :: "string option \<Rightarrow> resource_log \<Rightarrow> bool" where
  "resourcePending rid g = concerns rid (rg_pending g)"

definition publishResource :: "string option \<Rightarrow> resource_kind \<Rightarrow> resource_log \<Rightarrow> resource_log" where
  "publishResource rid kind g = g\<lparr>rg_position := rg_position g + 1, rg_events := rg_events g @ [(rid, kind)]\<rparr>"

definition setResourceHealth :: "string \<Rightarrow> bool \<Rightarrow> string option \<Rightarrow> bool \<Rightarrow> resource_log \<Rightarrow> resource_log" where
  "setResourceHealth source healthy rid pending g =
     (let previous = map_of (rg_failed g) source \<noteq> None; wasPending = map_of (rg_pending g) source \<noteq> None;
          g' = g\<lparr>rg_failed := (if healthy then AList.delete source (rg_failed g) else AList.update source rid (rg_failed g)),
                 rg_pending := (if healthy \<and> pending then AList.update source rid (rg_pending g) else AList.delete source (rg_pending g))\<rparr> in
      if previous = (\<not> healthy) \<and> wasPending = (healthy \<and> pending) then g' else publishResource rid Health_event g')"

lemma concerns_map_of: "distinct (map fst m) \<Longrightarrow> concerns rid m \<longleftrightarrow> (\<exists>n scope. map_of m n = Some scope \<and> (scope = None \<or> scope = rid))"
  by (force simp: concerns_def list_ex_iff)

text \<open>A change of health that a view can see is published, as long as a source keeps its room.\<close>

lemma health_changes_published:
  assumes "distinct (map fst (rg_failed g))" and "distinct (map fst (rg_pending g))"
    and "map_of (rg_failed g) source \<in> {None, Some rid}" and "map_of (rg_pending g) source \<in> {None, Some rid}"
    and "rg_events (setResourceHealth source healthy rid pending g) = rg_events g"
  shows "resourceState r (setResourceHealth source healthy rid pending g) = resourceState r g
    \<and> resourcePending r (setResourceHealth source healthy rid pending g) = resourcePending r g"
proof -
  let ?g = "setResourceHealth source healthy rid pending g"
  have same: "(map_of (rg_failed g) source \<noteq> None) = (\<not> healthy)" "(map_of (rg_pending g) source \<noteq> None) = (healthy \<and> pending)"
    using assms(5) by (auto simp: setResourceHealth_def publishResource_def Let_def split: if_splits)
  then have m: "map_of (rg_failed ?g) = map_of (rg_failed g)" "map_of (rg_pending ?g) = map_of (rg_pending g)"
    using assms(3,4) by (auto simp: setResourceHealth_def Let_def update_conv' delete_conv' fun_eq_iff)
  have d: "distinct (map fst (rg_failed ?g))" "distinct (map fst (rg_pending ?g))"
    using assms(1,2) same by (auto simp: setResourceHealth_def Let_def distinct_update distinct_delete)
  have "rg_position ?g = rg_position g" using same by (simp add: setResourceHealth_def Let_def)
  then show ?thesis
    by (simp add: resourceState_def resourcePending_def concerns_map_of [OF d(1)] concerns_map_of [OF d(2)]
        concerns_map_of [OF assms(1)] concerns_map_of [OF assms(2)] m)
qed

subsection \<open>A run\<close>

text \<open>Call 0 is a section whose body catches the failure of its nested call 1; call 2 waits meanwhile.\<close>

definition sample_calls :: "unit mutex_event list" where
  "sample_calls = [Call None 0, Turn, Call (Some 0) 1, Call None 2, Nested_settles 0 1 (Inl Zod_error), Root_settles (Inr ())]"

theorem one_section_witness:
  "\<exists>h o1. mx_holder (mutex_run (take 4 sample_calls)) = Some h \<and> own (mutex_run (take 4 sample_calls)) h = Some o1 \<and> ow_active o1
    \<and> (1 = h \<or> 1 \<in> set (ow_pending o1))"
proof -
  have "runs (mutex_run (take 4 sample_calls)) 1"
    unfolding runs_def by (intro disjI2 exI [of _ 0]) (simp add: sample_calls_def mutex_run_def free_mutex_def own_def set_own_def)
  from one_section_at_a_time [OF this] show ?thesis by blast
qed

theorem ended_section_witness:
  "\<exists>e. map_of (mx_results (mutex_run (sample_calls @ [Leave]))) 0 = Some (Inl e)"
proof -
  have 1: "0 \<in> set (mx_begun (mutex_run (sample_calls @ [Leave])))" "mx_holder (mutex_run (sample_calls @ [Leave])) \<noteq> Some 0"
    "(0, 1, Inl Zod_error) \<in> set (mx_nested (mutex_run (sample_calls @ [Leave])))"
    by (simp_all add: sample_calls_def mutex_run_def free_mutex_def own_def set_own_def section_result_def)
  show ?thesis using ended_section_reports [OF 1(1,2), of 1 Zod_error] 1(3) by blast
qed

theorem waiting_section_witness:
  "\<exists>es. 2 \<in> set (mx_begun (mutex_run (sample_calls @ es)))"
proof -
  have "2 \<in> set (mx_queue (mutex_run sample_calls))"
    by (simp add: sample_calls_def mutex_run_def free_mutex_def own_def set_own_def)
  from waiting_section_begins [OF this] show ?thesis by blast
qed

end
