(* ===== verification/Supervision.thy ===== *)
theory Supervision
  imports Scalars "HOL-Library.AList" "HOL-Library.Char_ord" "HOL-Library.List_Lexorder"
begin

section \<open>The supervisor and the leases of its worker\<close>

text \<open>
  The daemon is a supervisor (\<open>src/daemon.ts\<close>) and a worker process (\<open>src/daemon-process.ts\<close>) that talk over IPC.
  The worker holds leases on the shared ours daemon under owner ids. It registers each id with the supervisor
  before it attaches; when it ends, terminal records on disk (\<open>src/owner-cleanup.ts\<close>) say which ids are to be
  released, and a record is removed only after the shared daemon acknowledged its release. The model is one
  supervisor, its worker, the two channels, the records and the leases, as interleaved steps. Of the shared
  daemon it uses what the code relies on: a released id is retired, and a retired id cannot be attached again.
  Which records of an older launch are replayed first, timers and log output are left out.
\<close>

subsection \<open>Selecting the shared daemon\<close>

record owner_selection =
  os_endpoint :: string
  os_expectedInstanceId :: string
  os_credentialPath :: string

definition ownerSelection :: "(string \<rightharpoonup> string) \<Rightarrow> err + owner_selection option" where
  "ownerSelection env =
     (case (env ''OURS_DAEMON_URL'', env ''OURS_DAEMON_ID'', env ''OURS_DAEMON_CREDENTIAL_PATH'') of
        (None, None, None) \<Rightarrow> Inr None
      | (Some u, Some i, Some c) \<Rightarrow>
          if u = [] \<or> i = [] \<or> c = [] then Inl (Plain_error ''V1 daemon selection requires three variables'')
          else Inr (Some \<lparr>os_endpoint = u, os_expectedInstanceId = i, os_credentialPath = c\<rparr>)
      | _ \<Rightarrow> Inl (Plain_error ''V1 daemon selection requires three variables''))"

subsection \<open>Terminal records\<close>

datatype terminal_reason = Process_exit | Session_end

record terminal_record =
  tm_selection :: owner_selection
  tm_owner :: string
  tm_reason :: terminal_reason

text \<open>The directory of records by name, the digest of the owner.\<close>

type_synonym terminal_dir = "(string \<times> terminal_record) list"

text \<open>\<open>publish\<close>; it may fail after any number of owners.\<close>

fun publish :: "(string \<Rightarrow> string) \<Rightarrow> owner_selection \<Rightarrow> terminal_reason \<Rightarrow> string list \<Rightarrow> terminal_dir \<Rightarrow> terminal_dir" where
  "publish sha sel reason [] dir = dir"
| "publish sha sel reason (o1 # os) dir =
     publish sha sel reason os
       (if map_of dir (sha o1) \<noteq> None then dir
        else dir @ [(sha o1, \<lparr>tm_selection = sel, tm_owner = o1, tm_reason = reason\<rparr>)])"

text \<open>\<open>replaySerial\<close> on the first \<open>n\<close> records in the order of their names: each owner is released and then its record
  removed; with \<open>half\<close> the next is released, and its record stays.\<close>

definition replaySerial :: "nat \<Rightarrow> bool \<Rightarrow> terminal_dir \<Rightarrow> string list \<Rightarrow> terminal_dir \<times> string list" where
  "replaySerial n half dir retired =
     (let names = sort (map fst dir);
          released = map (\<lambda>name. tm_owner (the (map_of dir name))) (take (if half then Suc n else n) names) in
      (fold AList.delete (take n names) dir, retired @ released))"

subsection \<open>The supervisor\<close>

datatype worker_message = Init_ack | Owner_register string | Shutdown_request | Stage string | Shutdown_ack bool

datatype supervisor_message = Init bool | Owner_registered string bool | Shutdown

record exit_result =
  xr_code :: "int option"
  xr_signal :: bool
  xr_error :: bool

text \<open>\<open>sp_connected\<close> and \<open>sp_exited\<close> are \<open>connected\<close> and \<open>exitCode\<close> of the child; \<open>sp_context\<close> says that owner
  cleanup is configured.\<close>

record supervisor =
  sp_context :: bool
  sp_initialized :: bool
  sp_stopping :: bool
  sp_settled :: "exit_result option"
  sp_primary_error :: bool
  sp_timer :: bool
  sp_request_timer :: bool
  sp_stage :: "string option"
  sp_owners :: "string list"
  sp_terminal :: "exit_result option"
  sp_delivery_stopped :: bool
  sp_connected :: bool
  sp_exited :: bool

definition WORKER_STAGES :: "string list" where
  "WORKER_STAGES = [''pre-lock'', ''post-lock'', ''during-host-init'', ''post-host'', ''pre-pid'', ''ready'']"

definition armWatchdog :: "supervisor \<Rightarrow> supervisor" where
  "armWatchdog s =
     (if sp_timer s \<or> sp_settled s \<noteq> None \<or> sp_terminal s \<noteq> None \<or> sp_exited s then s else s\<lparr>sp_timer := True\<rparr>)"

text \<open>\<open>send\<close>: the message that leaves, if one does; \<open>ok\<close> is what the callback or the exception says.\<close>

definition send :: "bool \<Rightarrow> supervisor_message \<Rightarrow> supervisor \<Rightarrow> supervisor \<times> supervisor_message list" where
  "send ok m s =
     (if \<not> sp_connected s \<or> sp_exited s then (armWatchdog s, [])
      else if ok then (s, [m]) else (armWatchdog (s\<lparr>sp_stopping := True\<rparr>), []))"

definition finish :: "exit_result \<Rightarrow> supervisor \<Rightarrow> supervisor" where
  "finish r s = (if sp_settled s \<noteq> None then s else s\<lparr>sp_settled := Some r, sp_timer := False, sp_request_timer := False\<rparr>)"

fun onMessage :: "bool \<Rightarrow> worker_message \<Rightarrow> supervisor \<Rightarrow> supervisor \<times> supervisor_message list" where
  "onMessage ok Init_ack s = (s\<lparr>sp_initialized := True\<rparr>, [])"
| "onMessage ok (Owner_register o1) s =
     (if \<not> sp_initialized s \<or> \<not> sp_context s \<or> o1 = [] \<or> js_length o1 > 256 then (s, [])
      else (let accepted = (\<not> sp_stopping s \<and> sp_terminal s = None \<and> sp_connected s) in
        send ok (Owner_registered o1 accepted)
          (if accepted then s\<lparr>sp_owners := (if o1 \<in> set (sp_owners s) then sp_owners s else sp_owners s @ [o1])\<rparr> else s)))"
| "onMessage ok Shutdown_request s = (if \<not> sp_initialized s then (s, []) else (s\<lparr>sp_request_timer := True\<rparr>, []))"
| "onMessage ok (Stage x) s = (if \<not> sp_initialized s \<or> x \<notin> set WORKER_STAGES then (s, []) else (s\<lparr>sp_stage := Some x\<rparr>, []))"
| "onMessage ok (Shutdown_ack requiresProcessExit) s =
     (if \<not> sp_initialized s \<or> requiresProcessExit then (s, []) else (s\<lparr>sp_connected := False\<rparr>, []))"

definition requestShutdown :: "bool \<Rightarrow> supervisor \<Rightarrow> supervisor \<times> supervisor_message list" where
  "requestShutdown ok s =
     (if sp_terminal s \<noteq> None then (s\<lparr>sp_delivery_stopped := True\<rparr>, [])
      else if sp_stopping s then (s, [])
      else (let s1 = s\<lparr>sp_stopping := True\<rparr> in
        if sp_connected s1 \<and> \<not> sp_exited s1 then (let (s2, out) = send ok Shutdown s1 in (armWatchdog s2, out))
        else (armWatchdog s1, [])))"

definition onDisconnect :: "supervisor \<Rightarrow> supervisor" where
  "onDisconnect s = (if sp_settled s \<noteq> None then s else armWatchdog (s\<lparr>sp_stopping := True\<rparr>))"

definition onError :: "int option \<Rightarrow> supervisor \<Rightarrow> supervisor" where
  "onError code s =
     (if sp_settled s \<noteq> None then s
      else (let s1 = s\<lparr>sp_stopping := True, sp_primary_error := True\<rparr> in
        if sp_context s1 then armWatchdog s1 else finish \<lparr>xr_code = code, xr_signal = False, xr_error = True\<rparr> s1))"

text \<open>\<open>finishTerminal\<close>: \<open>published\<close> is how many owners were published before a failure, \<open>None\<close> for all.\<close>

definition finishTerminal ::
  "(string \<Rightarrow> string) \<Rightarrow> owner_selection \<Rightarrow> nat option \<Rightarrow> exit_result \<Rightarrow> supervisor \<times> terminal_dir \<Rightarrow> supervisor \<times> terminal_dir" where
  "finishTerminal sha sel published r = (\<lambda>(s, dir).
     if sp_settled s \<noteq> None \<or> sp_terminal s \<noteq> None then (s, dir)
     else if \<not> sp_context s then (finish r s, dir)
     else (let s1 = s\<lparr>sp_stopping := True, sp_timer := False\<rparr> in
       case published of
         Some n \<Rightarrow> (finish (r\<lparr>xr_error := True\<rparr>) s1, publish sha sel Process_exit (take n (sp_owners s1)) dir)
       | None \<Rightarrow> (s1\<lparr>sp_terminal := Some r\<rparr>, publish sha sel Process_exit (sp_owners s1) dir)))"

text \<open>One turn of the loop that delivers the records.\<close>

definition deliver :: "bool \<Rightarrow> supervisor \<Rightarrow> supervisor" where
  "deliver delivered s =
     (case sp_terminal s of
        None \<Rightarrow> s
      | Some r \<Rightarrow> if delivered then finish r s
          else if sp_delivery_stopped s then finish (r\<lparr>xr_error := True\<rparr>) s else s)"

subsection \<open>The worker\<close>

record worker =
  wk_alive :: bool
  wk_capability :: bool
  wk_context :: bool
  wk_shutdown :: bool
  wk_disconnected :: bool
  wk_boot_failed :: bool
  wk_admissions :: "string list"
  wk_owners :: "string list"

text \<open>\<open>registerOwner\<close> up to its message; the request is refused when it returns none.\<close>

definition registerOwner :: "string \<Rightarrow> worker \<Rightarrow> worker \<times> worker_message list" where
  "registerOwner o1 w =
     (if wk_shutdown w \<or> wk_disconnected w \<or> \<not> wk_capability w \<or> \<not> wk_context w then (w, [])
      else (w\<lparr>wk_admissions := o1 # wk_admissions w\<rparr>, [Owner_register o1]))"

text \<open>\<open>pid_ok\<close>: the context names this process.\<close>

fun worker_receives :: "bool \<Rightarrow> supervisor_message \<Rightarrow> worker \<Rightarrow> worker \<times> worker_message list" where
  "worker_receives pid_ok (Init has_context) w =
     (if wk_capability w then (w, [])
      else (let w1 = w\<lparr>wk_capability := True, wk_context := has_context\<rparr> in
        if has_context \<and> \<not> pid_ok then (w1\<lparr>wk_shutdown := True, wk_admissions := []\<rparr>, [])
        else (w1, [Init_ack])))"
| "worker_receives pid_ok (Owner_registered o1 accepted) w =
     (if o1 \<notin> set (wk_admissions w) then (w, [])
      else (let w1 = w\<lparr>wk_admissions := removeAll o1 (wk_admissions w)\<rparr> in
        if accepted \<and> \<not> wk_shutdown w \<and> \<not> wk_disconnected w then (w1\<lparr>wk_owners := o1 # wk_owners w\<rparr>, []) else (w1, [])))"
| "worker_receives pid_ok Shutdown w = (w\<lparr>wk_capability := True, wk_shutdown := True, wk_admissions := []\<rparr>, [])"

subsection \<open>The whole\<close>

record tree =
  tr_supervisor :: supervisor
  tr_worker :: worker
  tr_to_worker :: "supervisor_message list"
  tr_to_supervisor :: "worker_message list"
  tr_dir :: terminal_dir
  tr_attached :: "string list"
  tr_retired :: "string list"

datatype tree_event =
    Supervisor_reads bool
  | Worker_reads bool
  | Signal bool
  | Request_timer bool
  | Send_fails
  | Child_error "int option"
  | Channel_closes
  | Supervisor_disconnects
  | Registers string
  | Register_times_out string
  | Sends worker_message
  | Attaches string
  | Session_ends nat
  | Worker_replays nat bool
  | Boot_fails
  | Releases string
  | Worker_dies
  | Exit_seen "nat option" "int option" bool
  | Supervisor_replays nat bool

definition says :: "worker_message \<Rightarrow> bool" where
  "says m \<longleftrightarrow> (case m of Owner_register _ \<Rightarrow> False | Init_ack \<Rightarrow> False | _ \<Rightarrow> True)"

text \<open>The daemon cleans up, and so ends the session of its owners, on a shutdown and when its boot failed. A client of the
  worker also releases its own lease when a room is unhosted (\<open>Releases\<close>).\<close>

definition ends :: "worker \<Rightarrow> bool" where
  "ends w \<longleftrightarrow> wk_shutdown w \<or> wk_boot_failed w"

fun tree_step :: "(string \<Rightarrow> string) \<Rightarrow> owner_selection \<Rightarrow> tree_event \<Rightarrow> tree \<Rightarrow> tree" where
  "tree_step sha sel (Supervisor_reads ok) t =
     (case tr_to_supervisor t of
        [] \<Rightarrow> t
      | m # ms \<Rightarrow> if sp_settled (tr_supervisor t) \<noteq> None then t
          else (let (s, out) = onMessage ok m (tr_supervisor t) in
            t\<lparr>tr_supervisor := s, tr_to_supervisor := ms, tr_to_worker := tr_to_worker t @ out\<rparr>))"
| "tree_step sha sel (Worker_reads pid_ok) t =
     (case tr_to_worker t of
        [] \<Rightarrow> t
      | m # ms \<Rightarrow> if \<not> wk_alive (tr_worker t) then t
          else (let (w, out) = worker_receives pid_ok m (tr_worker t) in
            t\<lparr>tr_worker := w, tr_to_worker := ms, tr_to_supervisor := tr_to_supervisor t @ out\<rparr>))"
| "tree_step sha sel (Signal ok) t =
     (if sp_settled (tr_supervisor t) \<noteq> None then t
      else (let (s, out) = requestShutdown ok (tr_supervisor t) in
        t\<lparr>tr_supervisor := s, tr_to_worker := tr_to_worker t @ out\<rparr>))"
| "tree_step sha sel (Request_timer ok) t =
     (if \<not> sp_request_timer (tr_supervisor t) then t
      else (let (s, out) = requestShutdown ok ((tr_supervisor t)\<lparr>sp_request_timer := False\<rparr>) in
        t\<lparr>tr_supervisor := s, tr_to_worker := tr_to_worker t @ out\<rparr>))"
| "tree_step sha sel Send_fails t = t\<lparr>tr_supervisor := armWatchdog ((tr_supervisor t)\<lparr>sp_stopping := True\<rparr>)\<rparr>"
| "tree_step sha sel (Child_error code) t = t\<lparr>tr_supervisor := onError code (tr_supervisor t)\<rparr>"
| "tree_step sha sel Channel_closes t = t\<lparr>tr_worker := (tr_worker t)\<lparr>wk_disconnected := True, wk_shutdown := True, wk_admissions := []\<rparr>\<rparr>"
| "tree_step sha sel Supervisor_disconnects t = t\<lparr>tr_supervisor := onDisconnect ((tr_supervisor t)\<lparr>sp_connected := False\<rparr>)\<rparr>"
| "tree_step sha sel (Registers o1) t =
     (if \<not> wk_alive (tr_worker t) then t
      else (let (w, out) = registerOwner o1 (tr_worker t) in t\<lparr>tr_worker := w, tr_to_supervisor := tr_to_supervisor t @ out\<rparr>))"
| "tree_step sha sel (Register_times_out o1) t =
     t\<lparr>tr_worker := (tr_worker t)\<lparr>wk_admissions := removeAll o1 (wk_admissions (tr_worker t))\<rparr>\<rparr>"
| "tree_step sha sel (Sends m) t =
     (if wk_alive (tr_worker t) \<and> wk_capability (tr_worker t) \<and> says m then t\<lparr>tr_to_supervisor := tr_to_supervisor t @ [m]\<rparr> else t)"
| "tree_step sha sel (Attaches o1) t =
     (if wk_alive (tr_worker t) \<and> o1 \<in> set (wk_owners (tr_worker t)) \<and> o1 \<notin> set (tr_retired t)
      then t\<lparr>tr_attached := o1 # tr_attached t\<rparr> else t)"
| "tree_step sha sel (Session_ends n) t =
     (if wk_alive (tr_worker t) \<and> ends (tr_worker t)
      then t\<lparr>tr_dir := publish sha sel Session_end (take n (wk_owners (tr_worker t))) (tr_dir t)\<rparr> else t)"
| "tree_step sha sel (Worker_replays n half) t =
     (if wk_alive (tr_worker t) \<and> ends (tr_worker t)
      then (let (dir, retired) = replaySerial n half (tr_dir t) (tr_retired t) in t\<lparr>tr_dir := dir, tr_retired := retired\<rparr>) else t)"
| "tree_step sha sel Boot_fails t = t\<lparr>tr_worker := (tr_worker t)\<lparr>wk_boot_failed := True\<rparr>\<rparr>"
| "tree_step sha sel (Releases o1) t =
     (if wk_alive (tr_worker t) \<and> o1 \<in> set (tr_attached t) then t\<lparr>tr_retired := o1 # tr_retired t\<rparr> else t)"
| "tree_step sha sel Worker_dies t = t\<lparr>tr_worker := (tr_worker t)\<lparr>wk_alive := False\<rparr>\<rparr>"
| "tree_step sha sel (Exit_seen published code signal) t =
     (if wk_alive (tr_worker t) then t
      else (let (s, dir) = finishTerminal sha sel published
          \<lparr>xr_code = code, xr_signal = signal, xr_error = sp_primary_error (tr_supervisor t)\<rparr>
          ((tr_supervisor t)\<lparr>sp_exited := True\<rparr>, tr_dir t) in
        t\<lparr>tr_supervisor := s, tr_dir := dir\<rparr>))"
| "tree_step sha sel (Supervisor_replays n half) t =
     (if sp_terminal (tr_supervisor t) = None \<or> sp_settled (tr_supervisor t) \<noteq> None then t
      else (let (dir, retired) = replaySerial n half (tr_dir t) (tr_retired t) in
        t\<lparr>tr_dir := dir, tr_retired := retired, tr_supervisor := deliver (dir = []) (tr_supervisor t)\<rparr>))"

definition forked :: "bool \<Rightarrow> tree" where
  "forked context = \<lparr>tr_supervisor = \<lparr>sp_context = context, sp_initialized = False, sp_stopping = False, sp_settled = None, sp_primary_error = False,
       sp_timer = False, sp_request_timer = False, sp_stage = None, sp_owners = [], sp_terminal = None, sp_delivery_stopped = False,
       sp_connected = True, sp_exited = False\<rparr>,
     tr_worker = \<lparr>wk_alive = True, wk_capability = False, wk_context = False, wk_shutdown = False, wk_disconnected = False, wk_boot_failed = False,
       wk_admissions = [], wk_owners = []\<rparr>,
     tr_to_worker = [Init context], tr_to_supervisor = [], tr_dir = [], tr_attached = [], tr_retired = []\<rparr>"

definition tree_run :: "(string \<Rightarrow> string) \<Rightarrow> owner_selection \<Rightarrow> bool \<Rightarrow> tree_event list \<Rightarrow> tree" where
  "tree_run sha sel context es = fold (tree_step sha sel) es (forked context)"

subsection \<open>Records\<close>

text \<open>A record stands under the digest of its owner, and an owner that is to be released has one or is retired.\<close>

definition dir_ok :: "(string \<Rightarrow> string) \<Rightarrow> terminal_dir \<Rightarrow> bool" where
  "dir_ok sha dir \<longleftrightarrow> (\<forall>(name, rec)\<in>set dir. name = sha (tm_owner rec))"

definition recorded :: "(string \<Rightarrow> string) \<Rightarrow> terminal_dir \<Rightarrow> string \<Rightarrow> bool" where
  "recorded sha dir o1 \<longleftrightarrow> (\<exists>rec. map_of dir (sha o1) = Some rec \<and> tm_owner rec = o1)"

lemma publish_one:
  assumes "dir_ok sha dir" and "\<And>x y. sha x = sha y \<Longrightarrow> x = y"
  defines "dir' \<equiv> \<lambda>sel o1 reason. if map_of dir (sha o1) \<noteq> None then dir
    else dir @ [(sha o1, \<lparr>tm_selection = sel, tm_owner = o1, tm_reason = reason\<rparr>)]"
  shows "dir_ok sha (dir' sel o1 reason)" and "recorded sha (dir' sel o1 reason) o1"
    and "recorded sha dir y \<Longrightarrow> recorded sha (dir' sel o1 reason) y"
proof -
  have "tm_owner rec = o1" if "map_of dir (sha o1) = Some rec" for rec
    using map_of_SomeD [OF that] assms(1,2) by (auto simp: dir_ok_def)
  then show "recorded sha (dir' sel o1 reason) o1" by (auto simp: recorded_def dir'_def map_add_def)
qed (use assms(1) in \<open>auto simp: dir_ok_def recorded_def dir'_def map_add_def split: option.split\<close>)

lemma publish_ok:
  assumes "dir_ok sha dir" and inj: "\<And>x y. sha x = sha y \<Longrightarrow> x = y"
  shows "dir_ok sha (publish sha sel reason os dir)
    \<and> (\<forall>x. recorded sha dir x \<or> x \<in> set os \<longrightarrow> recorded sha (publish sha sel reason os dir) x)"
  using assms(1)
proof (induction os arbitrary: dir)
  case (Cons o1 os)
  note one = publish_one [OF Cons.prems inj]
  show ?case using Cons.IH [OF one(1)] one(2,3) by auto
qed simp

lemma publish_nonempty: "publish sha sel reason os dir \<noteq> [] \<Longrightarrow> dir \<noteq> [] \<or> os \<noteq> []"
  by (cases os) simp_all

lemma map_of_fold_delete: "map_of (fold AList.delete ns dir) k = (if k \<in> set ns then None else map_of dir k)"
  by (induction ns arbitrary: dir) (auto simp: delete_conv')

lemma set_fold_delete: "set (fold AList.delete ns dir) \<subseteq> set dir"
proof (induction ns arbitrary: dir)
  case (Cons n ns)
  have "set (AList.delete n dir) \<subseteq> set dir" by (auto simp: AList.delete_eq)
  then show ?case using Cons.IH [of "AList.delete n dir"] by simp
qed simp

lemma replay_ok:
  assumes "dir_ok sha dir" and "replaySerial n half dir retired = (dir', retired')"
  shows "dir_ok sha dir'" and "set retired \<subseteq> set retired'" and "dir = [] \<Longrightarrow> dir' = [] \<and> retired' = retired"
    and "recorded sha dir x \<or> x \<in> set retired \<Longrightarrow> recorded sha dir' x \<or> x \<in> set retired'"
proof -
  let ?names = "sort (map fst dir)"
  let ?owner = "\<lambda>name. tm_owner (the (map_of dir name))"
  have d: "dir' = fold AList.delete (take n ?names) dir"
    and r: "retired' = retired @ map ?owner (take (if half then Suc n else n) ?names)"
    using assms(2) by (auto simp: replaySerial_def Let_def)
  show "dir_ok sha dir'" using assms(1) set_fold_delete unfolding d dir_ok_def by (meson subset_iff)
  show "set retired \<subseteq> set retired'" unfolding r by simp
  show "dir = [] \<Longrightarrow> dir' = [] \<and> retired' = retired" unfolding d r by simp
  assume "recorded sha dir x \<or> x \<in> set retired"
  then show "recorded sha dir' x \<or> x \<in> set retired'"
  proof
    assume x: "recorded sha dir x"
    show ?thesis
    proof (cases "sha x \<in> set (take n ?names)")
      case True
      then have "sha x \<in> set (take (if half then Suc n else n) ?names)" using set_take_subset_set_take [of n "Suc n" ?names] by (cases half) auto
      moreover have "x = ?owner (sha x)" using x by (auto simp: recorded_def)
      ultimately have "x \<in> ?owner ` set (take (if half then Suc n else n) ?names)" by (rule rev_image_eqI)
      then show ?thesis unfolding r by simp
    next
      case False
      then show ?thesis using x unfolding d recorded_def map_of_fold_delete by simp
    qed
  qed (simp add: r)
qed

subsection \<open>The invariant\<close>

lemma armWatchdog_keeps [simp]:
  "sp_owners (armWatchdog s) = sp_owners s" "sp_terminal (armWatchdog s) = sp_terminal s" "sp_settled (armWatchdog s) = sp_settled s"
  "sp_context (armWatchdog s) = sp_context s"
  by (simp_all add: armWatchdog_def)

lemma send_keeps [simp]:
  "sp_owners (fst (send ok m s)) = sp_owners s" "sp_terminal (fst (send ok m s)) = sp_terminal s"
  "sp_settled (fst (send ok m s)) = sp_settled s" "sp_context (fst (send ok m s)) = sp_context s"
  by (simp_all add: send_def)

lemma send_out: "x \<in> set (snd (send ok m s)) \<Longrightarrow> x = m"
  by (simp add: send_def split: if_splits)

lemma requestShutdown_keeps:
  assumes "requestShutdown ok s = (s', out)"
  shows "sp_owners s' = sp_owners s" "sp_terminal s' = sp_terminal s" "sp_settled s' = sp_settled s" "sp_context s' = sp_context s"
    "x \<in> set out \<Longrightarrow> x = Shutdown"
  using assms by (auto simp: requestShutdown_def Let_def case_prod_unfold dest: send_out split: if_splits)

lemma onMessage_keeps:
  assumes "onMessage ok m s = (s', out)"
  shows "sp_terminal s' = sp_terminal s" "sp_settled s' = sp_settled s" "sp_context s' = sp_context s" "set (sp_owners s) \<subseteq> set (sp_owners s')"
    "sp_terminal s \<noteq> None \<Longrightarrow> sp_owners s' = sp_owners s" "Owner_registered o1 True \<in> set out \<Longrightarrow> o1 \<in> set (sp_owners s')"
proof -
  have s': "s' = fst (onMessage ok m s)" and out: "out = snd (onMessage ok m s)" using assms by simp_all
  show "sp_terminal s' = sp_terminal s" "sp_settled s' = sp_settled s" "sp_context s' = sp_context s"
    unfolding s' by (cases m; simp add: Let_def)+
  show "set (sp_owners s) \<subseteq> set (sp_owners s')" unfolding s' by (cases m) (auto simp: Let_def)
  show "sp_terminal s \<noteq> None \<Longrightarrow> sp_owners s' = sp_owners s" unfolding s' by (cases m) (auto simp: Let_def)
  show "Owner_registered o1 True \<in> set out \<Longrightarrow> o1 \<in> set (sp_owners s')"
    unfolding s' out by (cases m) (auto simp: Let_def split: if_splits dest!: send_out)
qed

lemma replay_nothing [simp]: "replaySerial n half [] retired = ([], retired)"
  by (simp add: replaySerial_def)

definition owners_known :: "tree \<Rightarrow> bool" where
  "owners_known t \<longleftrightarrow> (\<forall>o1. Owner_registered o1 True \<in> set (tr_to_worker t) \<longrightarrow> o1 \<in> set (sp_owners (tr_supervisor t)))
     \<and> set (wk_owners (tr_worker t)) \<subseteq> set (sp_owners (tr_supervisor t)) \<and> set (tr_attached t) \<subseteq> set (wk_owners (tr_worker t))"

definition releases_ok :: "(string \<Rightarrow> string) \<Rightarrow> tree \<Rightarrow> bool" where
  "releases_ok sha t \<longleftrightarrow> dir_ok sha (tr_dir t)
     \<and> (sp_terminal (tr_supervisor t) \<noteq> None \<longrightarrow> \<not> wk_alive (tr_worker t)
          \<and> (\<forall>o1\<in>set (sp_owners (tr_supervisor t)). recorded sha (tr_dir t) o1 \<or> o1 \<in> set (tr_retired t)))
     \<and> (\<forall>r. sp_settled (tr_supervisor t) = Some r \<longrightarrow> \<not> xr_error r \<longrightarrow> sp_context (tr_supervisor t)
          \<longrightarrow> set (sp_owners (tr_supervisor t)) \<subseteq> set (tr_retired t))"

definition live_kept :: "tree \<Rightarrow> bool" where
  "live_kept t \<longleftrightarrow> wk_alive (tr_worker t) \<longrightarrow> tr_dir t \<noteq> [] \<longrightarrow> ends (tr_worker t)"

lemma owners_known_step: "owners_known t \<Longrightarrow> owners_known (tree_step sha sel e t)"
proof (cases e)
  case (Supervisor_reads ok)
  assume k: "owners_known t"
  show ?thesis
  proof (cases "tr_to_supervisor t")
    case (Cons m ms)
    obtain s out where s: "onMessage ok m (tr_supervisor t) = (s, out)" by force
    note m = onMessage_keeps(4,6) [OF s]
    show ?thesis using k m unfolding Supervisor_reads by (auto simp: s Cons owners_known_def split: if_splits)
  qed (use k Supervisor_reads in simp)
next
  case (Worker_reads pid_ok)
  assume k: "owners_known t"
  show ?thesis
  proof (cases "tr_to_worker t")
    case (Cons m ms)
    show ?thesis using k unfolding Worker_reads
      by (cases m) (auto simp: Cons owners_known_def Let_def split: if_splits prod.splits)
  qed (use k Worker_reads in simp)
next
  case (Signal ok)
  assume k: "owners_known t"
  obtain s out where s: "requestShutdown ok (tr_supervisor t) = (s, out)" by force
  show ?thesis using k requestShutdown_keeps(1,5) [OF s] unfolding Signal by (auto simp: s owners_known_def)
next
  case (Request_timer ok)
  assume k: "owners_known t"
  obtain s out where s: "requestShutdown ok ((tr_supervisor t)\<lparr>sp_request_timer := False\<rparr>) = (s, out)" by force
  show ?thesis using k requestShutdown_keeps(1,5) [OF s] unfolding Request_timer by (auto simp: s owners_known_def)
next
  case (Exit_seen published code signal)
  assume k: "owners_known t"
  show ?thesis using k unfolding Exit_seen
    by (auto simp: owners_known_def finishTerminal_def finish_def Let_def split: option.splits if_splits prod.splits)
qed (auto simp: owners_known_def onError_def onDisconnect_def finish_def deliver_def registerOwner_def Let_def
    split: if_splits option.splits prod.splits)

lemma live_kept_step: "live_kept t \<Longrightarrow> live_kept (tree_step sha sel e t)"
proof (cases e)
  case (Supervisor_reads ok)
  assume "live_kept t"
  then show ?thesis unfolding Supervisor_reads by (auto simp: ends_def live_kept_def split: list.splits prod.splits)
next
  case (Worker_reads pid_ok)
  assume k: "live_kept t"
  show ?thesis
  proof (cases "tr_to_worker t")
    case (Cons m ms)
    show ?thesis using k unfolding Worker_reads
      by (cases m) (auto simp: ends_def Cons live_kept_def Let_def split: if_splits prod.splits)
  qed (use k Worker_reads in simp)
next
  case (Worker_replays n half)
  assume k: "live_kept t"
  then show ?thesis unfolding Worker_replays by (auto simp: ends_def live_kept_def split: prod.splits)
qed (auto simp: ends_def live_kept_def registerOwner_def Let_def split: if_splits prod.splits)

lemma releases_ok_replay:
  assumes k: "releases_ok sha t" and r: "replaySerial n half (tr_dir t) (tr_retired t) = (dir, retired)"
  shows "releases_ok sha (t\<lparr>tr_dir := dir, tr_retired := retired\<rparr>)"
proof -
  have d: "dir_ok sha (tr_dir t)" using k by (simp add: releases_ok_def)
  note r = replay_ok [OF d r]
  show ?thesis using k r(1,2,4) unfolding releases_ok_def by (auto 4 4)
qed

lemma deliver_settles:
  assumes "releases_ok sha t" and "\<not> (sp_terminal (tr_supervisor t) = None \<or> sp_settled (tr_supervisor t) \<noteq> None)"
  shows "releases_ok sha (t\<lparr>tr_supervisor := deliver (tr_dir t = []) (tr_supervisor t)\<rparr>)"
proof -
  obtain r where r: "sp_terminal (tr_supervisor t) = Some r" using assms(2) by auto
  have "set (sp_owners (tr_supervisor t)) \<subseteq> set (tr_retired t)" if "tr_dir t = []"
    using assms(1) that r by (auto simp: releases_ok_def recorded_def)
  then show ?thesis using assms r by (auto simp: releases_ok_def deliver_def finish_def)
qed

lemma releases_ok_exit:
  assumes k: "releases_ok sha t" and inj: "\<And>x y. sha x = sha y \<Longrightarrow> x = y" and dead: "\<not> wk_alive (tr_worker t)"
    and f: "finishTerminal sha sel published r ((tr_supervisor t)\<lparr>sp_exited := True\<rparr>, tr_dir t) = (s, dir)"
  shows "releases_ok sha (t\<lparr>tr_supervisor := s, tr_dir := dir\<rparr>)"
proof -
  let ?s = "tr_supervisor t"
  have d: "dir_ok sha (tr_dir t)" using k by (simp add: releases_ok_def)
  note p = publish_ok [OF d inj]
  consider "sp_settled ?s \<noteq> None \<or> sp_terminal ?s \<noteq> None" | "sp_settled ?s = None" "sp_terminal ?s = None" "\<not> sp_context ?s"
    | "sp_settled ?s = None" "sp_terminal ?s = None" "sp_context ?s" by blast
  then show ?thesis
  proof cases
    case 1
    then show ?thesis using k f by (auto simp: finishTerminal_def releases_ok_def)
  next
    case 2
    then show ?thesis using k f by (auto simp: finishTerminal_def finish_def releases_ok_def)
  next
    case 3
    then show ?thesis using k f p dead
      by (cases published) (auto simp: finishTerminal_def finish_def releases_ok_def Let_def)
  qed
qed

lemma releases_ok_step:
  assumes k: "releases_ok sha t" and inj: "\<And>x y. sha x = sha y \<Longrightarrow> x = y"
  shows "releases_ok sha (tree_step sha sel e t)"
proof (cases e)
  case (Supervisor_reads ok)
  show ?thesis
  proof (cases "tr_to_supervisor t")
    case (Cons m ms)
    obtain s out where s: "onMessage ok m (tr_supervisor t) = (s, out)" by force
    show ?thesis using k onMessage_keeps(1-3,5) [OF s] unfolding Supervisor_reads by (auto simp: s Cons releases_ok_def)
  qed (use k Supervisor_reads in simp)
next
  case (Worker_reads pid_ok)
  show ?thesis
  proof (cases "tr_to_worker t")
    case (Cons m ms)
    show ?thesis using k unfolding Worker_reads
      by (cases m) (auto simp: Cons releases_ok_def Let_def split: if_splits prod.splits)
  qed (use k Worker_reads in simp)
next
  case (Signal ok)
  obtain s out where s: "requestShutdown ok (tr_supervisor t) = (s, out)" by force
  show ?thesis using k requestShutdown_keeps(1-4) [OF s] unfolding Signal by (auto simp: s releases_ok_def)
next
  case (Request_timer ok)
  obtain s out where s: "requestShutdown ok ((tr_supervisor t)\<lparr>sp_request_timer := False\<rparr>) = (s, out)" by force
  show ?thesis using k requestShutdown_keeps(1-4) [OF s] unfolding Request_timer by (auto simp: s releases_ok_def)
next
  case (Session_ends n)
  have d: "dir_ok sha (tr_dir t)" using k by (simp add: releases_ok_def)
  show ?thesis using k publish_ok [OF d inj] unfolding Session_ends by (auto simp: releases_ok_def)
next
  case (Worker_replays n half)
  obtain dir retired where r: "replaySerial n half (tr_dir t) (tr_retired t) = (dir, retired)" by force
  show ?thesis using k releases_ok_replay [OF k r] unfolding Worker_replays by (simp add: r)
next
  case (Exit_seen published code signal)
  show ?thesis unfolding Exit_seen
    using k releases_ok_exit [OF k inj] by (auto simp: Let_def split: prod.splits)
next
  case (Supervisor_replays n half)
  obtain dir retired where r: "replaySerial n half (tr_dir t) (tr_retired t) = (dir, retired)" by force
  show ?thesis using k deliver_settles [OF releases_ok_replay [OF k r]] unfolding Supervisor_replays by (auto simp: r)
qed (use k in \<open>auto simp: releases_ok_def onError_def onDisconnect_def finish_def registerOwner_def Let_def split: if_splits prod.splits\<close>)

lemma tree_run_ok:
  assumes "\<And>x y. sha x = sha y \<Longrightarrow> x = y"
  shows "owners_known (tree_run sha sel context es) \<and> releases_ok sha (tree_run sha sel context es) \<and> live_kept (tree_run sha sel context es)"
proof -
  have "owners_known (fold (tree_step sha sel) es t) \<and> releases_ok sha (fold (tree_step sha sel) es t) \<and> live_kept (fold (tree_step sha sel) es t)"
    if "owners_known t \<and> releases_ok sha t \<and> live_kept t" for t
    using that by (induction es arbitrary: t) (simp_all add: owners_known_step releases_ok_step [OF _ assms] live_kept_step)
  moreover have "owners_known (forked context) \<and> releases_ok sha (forked context) \<and> live_kept (forked context)"
    by (simp add: forked_def owners_known_def releases_ok_def live_kept_def dir_ok_def)
  ultimately show ?thesis unfolding tree_run_def by blast
qed

subsection \<open>What the supervisor guarantees\<close>

text \<open>C33: whatever the worker does and however it ends, every lease it attached is known to the supervisor; once the
  supervisor has handled the exit the lease is released or has its record on disk; and the supervisor ends
  without an error only when all of them are released. Nothing is published for release while the worker lives,
  was not told or bound to shut down, and has not failed to boot.\<close>

theorem no_lease_forgotten:
  assumes "\<And>x y. sha x = sha y \<Longrightarrow> x = y" and "t = tree_run sha sel context es"
  shows "(o1 \<in> set (tr_attached t) \<longrightarrow> o1 \<in> set (sp_owners (tr_supervisor t))
      \<and> (sp_terminal (tr_supervisor t) \<noteq> None \<longrightarrow> o1 \<in> set (tr_retired t) \<or> recorded sha (tr_dir t) o1)
      \<and> (\<forall>r. sp_settled (tr_supervisor t) = Some r \<and> sp_context (tr_supervisor t) \<longrightarrow> xr_error r \<or> o1 \<in> set (tr_retired t)))
    \<and> (tr_dir t \<noteq> [] \<longrightarrow> \<not> wk_alive (tr_worker t) \<or> wk_shutdown (tr_worker t) \<or> wk_boot_failed (tr_worker t))"
proof -
  have k: "owners_known t" "releases_ok sha t" "live_kept t" using tree_run_ok [OF assms(1)] assms(2) by simp_all
  have "o1 \<in> set (sp_owners (tr_supervisor t))" if "o1 \<in> set (tr_attached t)" using k(1) that by (auto simp: owners_known_def)
  moreover have "\<not> wk_alive (tr_worker t) \<or> wk_shutdown (tr_worker t) \<or> wk_boot_failed (tr_worker t)" if "tr_dir t \<noteq> []"
    using k(3) that by (auto simp: ends_def live_kept_def)
  ultimately show ?thesis using k(2) unfolding releases_ok_def by blast
qed

text \<open>A worker registers and attaches one lease and dies; the lease is published, released and the supervisor ends.\<close>

abbreviation sample_selection :: owner_selection where
  "sample_selection \<equiv> \<lparr>os_endpoint = ''e'', os_expectedInstanceId = ''i'', os_credentialPath = ''c''\<rparr>"

definition sample_events :: "tree_event list" where
  "sample_events = [Worker_reads True, Supervisor_reads True, Registers ''o'', Supervisor_reads True, Worker_reads True, Attaches ''o'',
     Worker_dies, Exit_seen None None True, Supervisor_replays 1 False]"

lemma sample_tree:
  "''o'' \<in> set (tr_attached (tree_run (\<lambda>x. x) sample_selection True sample_events))"
  "sp_settled (tr_supervisor (tree_run (\<lambda>x. x) sample_selection True sample_events))
     = Some \<lparr>xr_code = None, xr_signal = True, xr_error = False\<rparr>"
  "sp_context (tr_supervisor (tree_run (\<lambda>x. x) sample_selection True sample_events))"
  by code_simp+

lemma no_lease_forgotten_witness:
  "''o'' \<in> set (tr_retired (tree_run (\<lambda>x. x) sample_selection True sample_events))"
  using no_lease_forgotten [of "\<lambda>x. x" _ sample_selection True sample_events "''o''", OF _ refl] sample_tree by auto

end
