(* ===== verification/Owners.thy ===== *)
theory Owners
  imports Scalars
begin

section \<open>Which owner holds the identity of a room\<close>

text \<open>
  The identity of a room lives at the shared ours daemon, which grants it to one owner id at a time. The room keeps
  the id it presents in a ledger (\<open>src/room-owners.ts\<close>), so that after a loss of the whole process tree it can come
  back as the owner that still holds the lease; \<open>PacketRegistry\<close> (\<open>src/packets.ts\<close>) creates, restores, unhosts and
  destroys on top of it. The model is one room: its ledger, the lease at the daemon, and what the
  process is doing, as steps between the calls of \<open>create\<close>, \<open>restore\<close>, \<open>restoreAs\<close>, \<open>discard\<close>, \<open>close\<close> and
  \<open>destroy\<close>. The process may die between any two. Of the daemon it uses what the code relies on: an
  identity is bound to one owner, a released owner is retired for good, and only an owner that is retired is
  refused with \<open>BINDING_REASSIGNED\<close>. A new id is one never used before. File modes and power loss are left out.
\<close>

subsection \<open>The ledger\<close>

record owner_record =
  ow_room_id :: string
  ow_daemon_instance_id :: string
  ow_owner_instance_id :: string

type_synonym ledger = "string \<rightharpoonup> owner_record"

definition owner_id_ok :: "string \<Rightarrow> bool" where
  "owner_id_ok o1 \<longleftrightarrow> take 7 o1 = ''cowork-'' \<and> length o1 = 39 \<and> list_all (\<lambda>c. c \<in> set ''0123456789abcdef'') (drop 7 o1)"

definition ledger_path :: "string \<Rightarrow> err + string" where
  "ledger_path rid = (if ulid_ok rid then Inr (rid @ ''.json'') else Inl (Plain_error ''invalid room id''))"

definition ledger_read :: "string \<Rightarrow> ledger \<Rightarrow> err + owner_record option" where
  "ledger_read rid ledger =
     (case ledger_path rid of
        Inl e \<Rightarrow> Inl e
      | Inr path \<Rightarrow> (case ledger path of
          None \<Rightarrow> Inr None
        | Some r \<Rightarrow> if ow_room_id r \<noteq> rid \<or> \<not> owner_id_ok (ow_owner_instance_id r) then Inl (Plain_error ''invalid room owner record'')
            else Inr (Some r)))"

definition ledger_recorded :: "string \<Rightarrow> string \<Rightarrow> ledger \<Rightarrow> err + string option" where
  "ledger_recorded daemon rid ledger =
     (case ledger_read rid ledger of
        Inl e \<Rightarrow> Inl e
      | Inr None \<Rightarrow> Inr None
      | Inr (Some r) \<Rightarrow> Inr (if ow_daemon_instance_id r = daemon then Some (ow_owner_instance_id r) else None))"

text \<open>How far a change of the ledger comes: the rename or the unlink is one operation, and the sync after it may still
  fail.\<close>

datatype change = Changed | Fails_before | Fails_after

definition ledger_mint :: "string \<Rightarrow> string \<Rightarrow> string \<Rightarrow> change \<Rightarrow> ledger \<Rightarrow> (err + string) \<times> ledger" where
  "ledger_mint daemon o1 rid ch ledger =
     (case ledger_path rid of
        Inl e \<Rightarrow> (Inl e, ledger)
      | Inr path \<Rightarrow>
          (let written = ledger(path \<mapsto> \<lparr>ow_room_id = rid, ow_daemon_instance_id = daemon, ow_owner_instance_id = o1\<rparr>) in
           case ch of
             Changed \<Rightarrow> (Inr o1, written)
           | Fails_before \<Rightarrow> (Inl (Plain_error ''mint''), ledger)
           | Fails_after \<Rightarrow> (Inl (Plain_error ''mint''), written)))"

definition ledger_forget :: "string \<Rightarrow> string \<Rightarrow> change \<Rightarrow> ledger \<Rightarrow> (err + unit) \<times> ledger" where
  "ledger_forget o1 rid ch ledger =
     (case ledger_read rid ledger of
        Inl e \<Rightarrow> (Inl e, ledger)
      | Inr None \<Rightarrow> (Inr (), ledger)
      | Inr (Some r) \<Rightarrow>
          if ow_owner_instance_id r \<noteq> o1 then (Inr (), ledger)
          else (case ch of
              Changed \<Rightarrow> (Inr (), ledger(rid @ ''.json'' := None))
            | Fails_before \<Rightarrow> (Inl (Plain_error ''forget''), ledger)
            | Fails_after \<Rightarrow> (Inl (Plain_error ''forget''), ledger(rid @ ''.json'' := None))))"

subsection \<open>Hosting a room\<close>

datatype task =
    Down
  | Idle
  | Minting bool
  | Provisioning string
  | Reconnecting string
  | Restoring string
  | Reassigned string
  | Discarding string
  | Hosting string
  | Closing_packet bool string

text \<open>\<open>wn_minted\<close> are the owner ids of this room so far. \<open>Minting\<close> and \<open>Closing_packet\<close> tell a creation and a
  destruction from a restore and an unhosting.\<close>

record ownership =
  wn_ledger :: ledger
  wn_lease :: "string option"
  wn_exists :: bool
  wn_retired :: "string list"
  wn_minted :: "string list"
  wn_task :: task

datatype own_event =
    Boots
  | Crashes
  | Create_begins
  | Restore_begins
  | Mints string change
  | Attach_fails
  | Binds bool
  | Refuses bool
  | Forgets change
  | Unhosts
  | Removes_identity
  | Releases_lease bool change
  | Terminal_release string
  | Foreign_holds string
  | Foreign_leaves

definition released :: "string \<Rightarrow> ownership \<Rightarrow> ownership" where
  "released o1 w = w\<lparr>wn_retired := o1 # wn_retired w, wn_lease := (if wn_lease w = Some o1 then None else wn_lease w)\<rparr>"

definition binds :: "string \<Rightarrow> ownership \<Rightarrow> bool" where
  "binds o1 w \<longleftrightarrow> o1 \<notin> set (wn_retired w) \<and> (wn_lease w = None \<or> wn_lease w = Some o1)"

fun own_step :: "string \<Rightarrow> string \<Rightarrow> own_event \<Rightarrow> ownership \<Rightarrow> ownership" where
  "own_step daemon rid Boots w = (if wn_task w = Down then w\<lparr>wn_task := Idle\<rparr> else w)"
| "own_step daemon rid Crashes w = w\<lparr>wn_task := Down\<rparr>"
| "own_step daemon rid Create_begins w = (if wn_task w = Idle \<and> \<not> wn_exists w then w\<lparr>wn_task := Minting True\<rparr> else w)"
| "own_step daemon rid Restore_begins w =
     (if wn_task w \<noteq> Idle \<or> \<not> wn_exists w then w
      else (case ledger_recorded daemon rid (wn_ledger w) of
          Inl e \<Rightarrow> w
        | Inr (Some o1) \<Rightarrow> w\<lparr>wn_task := Reconnecting o1\<rparr>
        | Inr None \<Rightarrow> w\<lparr>wn_task := Minting False\<rparr>))"
| "own_step daemon rid (Mints o1 ch) w =
     (case wn_task w of
        Minting creating \<Rightarrow>
          if o1 \<in> set (wn_minted w) \<or> o1 \<in> set (wn_retired w) \<or> wn_lease w = Some o1 \<or> \<not> owner_id_ok o1 then w
          else (let (r, ledger) = ledger_mint daemon o1 rid ch (wn_ledger w) in
            w\<lparr>wn_ledger := ledger, wn_minted := o1 # wn_minted w,
              wn_task := (if isl r then Idle else if creating then Provisioning o1 else Restoring o1)\<rparr>)
      | _ \<Rightarrow> w)"
| "own_step daemon rid Attach_fails w =
     (case wn_task w of
        Provisioning o1 \<Rightarrow> w\<lparr>wn_task := Idle\<rparr>
      | Reconnecting o1 \<Rightarrow> w\<lparr>wn_task := Idle\<rparr>
      | Restoring o1 \<Rightarrow> w\<lparr>wn_task := Idle\<rparr>
      | _ \<Rightarrow> w)"
| "own_step daemon rid (Binds good) w =
     (case wn_task w of
        Provisioning o1 \<Rightarrow>
          if wn_exists w \<or> \<not> binds o1 w then w
          else w\<lparr>wn_exists := True, wn_lease := Some o1, wn_task := (if good then Hosting o1 else Discarding o1)\<rparr>
      | Reconnecting o1 \<Rightarrow>
          if \<not> wn_exists w \<or> \<not> binds o1 w then w else w\<lparr>wn_lease := Some o1, wn_task := (if good then Hosting o1 else Idle)\<rparr>
      | Restoring o1 \<Rightarrow>
          if \<not> wn_exists w \<or> \<not> binds o1 w then w
          else w\<lparr>wn_lease := Some o1, wn_task := (if good then Hosting o1 else Discarding o1)\<rparr>
      | _ \<Rightarrow> w)"
| "own_step daemon rid (Refuses reassigned) w =
     (case wn_task w of
        Provisioning o1 \<Rightarrow> w\<lparr>wn_task := Discarding o1\<rparr>
      | Reconnecting o1 \<Rightarrow>
          if \<not> reassigned then w\<lparr>wn_task := Idle\<rparr>
          else if o1 \<in> set (wn_retired w) then w\<lparr>wn_task := Reassigned o1\<rparr> else w
      | Restoring o1 \<Rightarrow> w\<lparr>wn_task := Discarding o1\<rparr>
      | _ \<Rightarrow> w)"
| "own_step daemon rid (Forgets ch) w =
     (case wn_task w of
        Reassigned o1 \<Rightarrow> (let (r, ledger) = ledger_forget o1 rid ch (wn_ledger w) in
          w\<lparr>wn_ledger := ledger, wn_task := (if isl r then Idle else Minting False)\<rparr>)
      | _ \<Rightarrow> w)"
| "own_step daemon rid Unhosts w = (case wn_task w of Hosting o1 \<Rightarrow> w\<lparr>wn_task := Closing_packet False o1\<rparr> | _ \<Rightarrow> w)"
| "own_step daemon rid Removes_identity w =
     (case wn_task w of Hosting o1 \<Rightarrow> w\<lparr>wn_exists := False, wn_lease := None, wn_task := Closing_packet True o1\<rparr> | _ \<Rightarrow> w)"
| "own_step daemon rid (Releases_lease ok ch) w =
     (case wn_task w of
        Discarding o1 \<Rightarrow>
          if \<not> ok then w\<lparr>wn_task := Idle\<rparr>
          else (released o1 w)\<lparr>wn_ledger := snd (ledger_forget o1 rid ch (wn_ledger w)), wn_task := Idle\<rparr>
      | Closing_packet destroying o1 \<Rightarrow>
          let failed = (if destroying then Hosting o1 else Idle) in
          if \<not> ok then w\<lparr>wn_task := failed\<rparr>
          else (let (r, ledger) = ledger_forget o1 rid ch (wn_ledger w) in
            (released o1 w)\<lparr>wn_ledger := ledger, wn_task := (if isl r then failed else Idle)\<rparr>)
      | _ \<Rightarrow> w)"
| "own_step daemon rid (Terminal_release o1) w = (if o1 \<in> set (wn_minted w) then released o1 w else w)"
| "own_step daemon rid (Foreign_holds h) w = (if wn_lease w = None \<and> h \<notin> set (wn_minted w) \<and> h \<notin> set (wn_retired w) then w\<lparr>wn_lease := Some h\<rparr> else w)"
| "own_step daemon rid Foreign_leaves w =
     (case wn_lease w of None \<Rightarrow> w | Some h \<Rightarrow> if h \<in> set (wn_minted w) then w else w\<lparr>wn_lease := None\<rparr>)"

definition own_run :: "string \<Rightarrow> string \<Rightarrow> ledger \<Rightarrow> own_event list \<Rightarrow> ownership" where
  "own_run daemon rid ledger es = fold (own_step daemon rid) es
     \<lparr>wn_ledger = ledger, wn_lease = None, wn_exists = False, wn_retired = [], wn_minted = [], wn_task = Down\<rparr>"

subsection \<open>The ledger as a map\<close>

lemma minted_is_recorded:
  assumes "ulid_ok rid" and "owner_id_ok o1"
  shows "ledger_recorded daemon rid (snd (ledger_mint daemon o1 rid ch ledger))
     = (if ch = Fails_before then ledger_recorded daemon rid ledger else Inr (Some o1))"
  using assms by (cases ch) (simp_all add: ledger_recorded_def ledger_read_def ledger_mint_def ledger_path_def)

lemma forgotten_is_gone:
  assumes "ledger_recorded daemon rid ledger = Inr (Some o1)"
  shows "ledger_recorded daemon rid (snd (ledger_forget o2 rid ch ledger))
     = (if o1 = o2 \<and> ch \<noteq> Fails_before then Inr None else Inr (Some o1))"
  using assms
  by (cases ch) (auto simp: ledger_recorded_def ledger_read_def ledger_forget_def ledger_path_def
      split: option.splits if_splits sum.splits)

lemma mint_fails: "isl (fst (ledger_mint daemon o1 rid ch ledger)) \<or> ch = Changed"
  by (cases ch) (simp_all add: ledger_mint_def Let_def split: sum.split)

lemma minted_result: "ledger_mint daemon o1 rid ch ledger = (r, ledger') \<Longrightarrow> \<not> isl r \<Longrightarrow> ch = Changed"
  using mint_fails [of daemon o1 rid ch ledger] by simp

lemma forgotten_result:
  "ledger_forget o1 rid ch ledger = (r, ledger') \<Longrightarrow> ledger_recorded daemon rid ledger = Inr (Some o1) \<Longrightarrow> \<not> isl r \<Longrightarrow> ch = Changed"
  by (cases ch) (auto simp: ledger_forget_def ledger_recorded_def split: sum.splits option.splits if_splits)

lemma forgetting_keeps_none:
  assumes "ledger_recorded daemon rid ledger = Inr None"
  shows "ledger_recorded daemon rid (snd (ledger_forget o1 rid ch ledger)) = Inr None"
  using assms by (cases ch) (auto simp: ledger_recorded_def ledger_read_def ledger_forget_def ledger_path_def
      split: option.splits if_splits sum.splits)

subsection \<open>The invariant\<close>

text \<open>While an owner of this room holds the lease, the ledger names it and it is not retired; an owner that is being
  bound is the recorded one; and an id is minted only while no owner of this room holds the lease.\<close>

definition lease_ok :: "(err + string option) \<Rightarrow> ownership \<Rightarrow> bool" where
  "lease_ok rec w \<longleftrightarrow>
     (case wn_lease w of
        None \<Rightarrow> True
      | Some o1 \<Rightarrow> o1 \<notin> set (wn_retired w) \<and> (o1 \<in> set (wn_minted w) \<longrightarrow> wn_exists w \<and> rec = Inr (Some o1)))"

definition record_ok :: "(err + string option) \<Rightarrow> ownership \<Rightarrow> bool" where
  "record_ok rec w \<longleftrightarrow>
     (case rec of Inl _ \<Rightarrow> False | Inr None \<Rightarrow> True | Inr (Some o1) \<Rightarrow> o1 \<in> set (wn_minted w))"

definition task_ok :: "(err + string option) \<Rightarrow> ownership \<Rightarrow> bool" where
  "task_ok rec w \<longleftrightarrow>
     (case wn_task w of
        Minting creating \<Rightarrow> (case wn_lease w of None \<Rightarrow> True | Some o1 \<Rightarrow> o1 \<notin> set (wn_minted w))
      | Provisioning o1 \<Rightarrow> rec = Inr (Some o1)
      | Reconnecting o1 \<Rightarrow> rec = Inr (Some o1)
      | Restoring o1 \<Rightarrow> rec = Inr (Some o1)
      | Reassigned o1 \<Rightarrow> rec = Inr (Some o1) \<and> o1 \<in> set (wn_retired w)
      | _ \<Rightarrow> True)"

definition own_ok :: "string \<Rightarrow> string \<Rightarrow> ownership \<Rightarrow> bool" where
  "own_ok daemon rid w \<longleftrightarrow>
     (let rec = ledger_recorded daemon rid (wn_ledger w) in lease_ok rec w \<and> record_ok rec w \<and> task_ok rec w)"

lemmas own_ok_defs = own_ok_def lease_ok_def record_ok_def task_ok_def Let_def

lemma own_ok_release:
  assumes "own_ok daemon rid w"
  shows "own_ok daemon rid ((released o1 w)\<lparr>wn_ledger := snd (ledger_forget o1 rid ch (wn_ledger w)), wn_task := Idle\<rparr>)"
proof (cases "ledger_recorded daemon rid (wn_ledger w)")
  case (Inr opt)
  show ?thesis
  proof (cases opt)
    case None
    note g = forgetting_keeps_none [OF Inr [unfolded None], of o1 ch]
    show ?thesis using assms by (auto simp: own_ok_defs released_def g Inr None split: option.splits)
  next
    case (Some o2)
    note g = forgotten_is_gone [OF Inr [unfolded Some], of o1 ch]
    show ?thesis using assms by (auto simp: own_ok_defs released_def g Inr Some split: option.splits)
  qed
qed (use assms in \<open>simp add: own_ok_defs\<close>)

lemma own_ok_rest: "own_ok daemon rid w \<Longrightarrow> t = Idle \<or> t = Hosting o1 \<Longrightarrow> own_ok daemon rid (w\<lparr>wn_task := t\<rparr>)"
  by (auto simp: own_ok_defs split: option.splits sum.splits)

lemma own_ok_mint:
  assumes rid: "ulid_ok rid" and ok: "own_ok daemon rid w" and t: "wn_task w = Minting creating" and o1: "owner_id_ok o1"
    and fresh: "wn_lease w \<noteq> Some o1" and m: "ledger_mint daemon o1 rid ch (wn_ledger w) = (r, ledger)"
  shows "own_ok daemon rid (w\<lparr>wn_ledger := ledger, wn_minted := o1 # wn_minted w,
    wn_task := (if isl r then Idle else if creating then Provisioning o1 else Restoring o1)\<rparr>)"
proof -
  have rec: "ledger_recorded daemon rid ledger
      = (if ch = Fails_before then ledger_recorded daemon rid (wn_ledger w) else Inr (Some o1))"
    using minted_is_recorded [OF rid o1, of daemon ch "wn_ledger w"] m by simp
  show ?thesis
  proof (cases "ch = Fails_before")
    case True
    then have "isl r" using minted_result [OF m] by blast
    then show ?thesis using ok t fresh rec True by (auto simp: own_ok_defs split: option.splits sum.splits)
  next
    case False
    then show ?thesis using ok t fresh rec by (auto simp: own_ok_defs split: option.splits sum.splits)
  qed
qed

lemma own_ok_step:
  assumes rid: "ulid_ok rid" and ok: "own_ok daemon rid w"
  shows "own_ok daemon rid (own_step daemon rid e w)"
proof (cases e)
  case (Mints o1 ch)
  show ?thesis
  proof (cases "wn_task w")
    case (Minting creating)
    obtain r ledger where m: "ledger_mint daemon o1 rid ch (wn_ledger w) = (r, ledger)" by force
    show ?thesis using ok own_ok_mint [OF rid ok Minting _ _ m] by (simp add: Mints Minting m)
  qed (use ok in \<open>simp_all add: Mints\<close>)
next
  case (Forgets ch)
  show ?thesis
  proof (cases "wn_task w")
    case (Reassigned o1)
    obtain r ledger where f: "ledger_forget o1 rid ch (wn_ledger w) = (r, ledger)" by force
    have rec: "ledger_recorded daemon rid (wn_ledger w) = Inr (Some o1)" using ok Reassigned by (simp add: own_ok_defs)
    have g: "ledger_recorded daemon rid ledger = (if ch \<noteq> Fails_before then Inr None else Inr (Some o1))"
      using forgotten_is_gone [OF rec, of o1 ch] f by simp
    have "isl r \<or> ch = Changed" using forgotten_result [OF f rec] by blast
    then show ?thesis using ok rec g by (auto simp: Forgets own_ok_defs f Reassigned split: option.splits sum.splits)
  qed (use ok in \<open>simp_all add: Forgets\<close>)
next
  case (Releases_lease good ch)
  show ?thesis
  proof (cases "wn_task w")
    case (Discarding o1)
    show ?thesis using own_ok_rest [OF ok] own_ok_release [OF ok, of o1 ch] by (simp add: Releases_lease Discarding)
  next
    case (Closing_packet destroying o1)
    obtain r ledger where f: "ledger_forget o1 rid ch (wn_ledger w) = (r, ledger)" by force
    note released = own_ok_release [OF ok, of o1 ch, unfolded f snd_conv]
    show ?thesis using own_ok_rest [OF ok] own_ok_rest [OF released, of _ o1]
      by (simp add: Releases_lease Closing_packet f Let_def)
  qed (use ok in \<open>simp_all add: Releases_lease\<close>)
next
  case (Restore_begins)
  then show ?thesis using ok by (auto simp: own_ok_defs split: sum.splits option.splits)
next
  case (Binds good)
  show ?thesis using ok unfolding Binds by (cases "wn_task w") (auto simp: own_ok_defs binds_def split: option.splits sum.splits)
next
  case (Refuses reassigned)
  show ?thesis using ok unfolding Refuses by (cases "wn_task w") (auto simp: own_ok_defs split: option.splits sum.splits)
next
  case (Terminal_release o1)
  show ?thesis using ok unfolding Terminal_release by (cases "wn_task w") (auto simp: own_ok_defs released_def split: option.splits sum.splits)
next
  case (Foreign_holds h)
  show ?thesis using ok unfolding Foreign_holds by (cases "wn_task w") (auto simp: own_ok_defs split: option.splits sum.splits)
next
  case Foreign_leaves
  show ?thesis using ok unfolding Foreign_leaves by (cases "wn_task w") (auto simp: own_ok_defs split: option.splits sum.splits)
next
  case Attach_fails
  show ?thesis using ok unfolding Attach_fails by (cases "wn_task w") (auto simp: own_ok_defs split: option.splits sum.splits)
next
  case Unhosts
  show ?thesis using ok unfolding Unhosts by (cases "wn_task w") (auto simp: own_ok_defs split: option.splits sum.splits)
next
  case Removes_identity
  show ?thesis using ok unfolding Removes_identity by (cases "wn_task w") (auto simp: own_ok_defs split: option.splits sum.splits)
qed (use ok in \<open>auto simp: own_ok_defs split: option.splits sum.splits\<close>)

lemma own_ok_run:
  assumes rid: "ulid_ok rid" and start: "ledger_recorded daemon rid ledger = Inr None"
  shows "own_ok daemon rid (own_run daemon rid ledger es)"
proof -
  have "own_ok daemon rid (fold (own_step daemon rid) es w)" if "own_ok daemon rid w" for w
    using that by (induction es arbitrary: w) (simp_all add: own_ok_step [OF rid])
  then show ?thesis using start unfolding own_run_def by (auto simp: own_ok_defs)
qed

subsection \<open>A room is never locked out by its own lease\<close>

text \<open>How a restore proceeds when every call does what it is asked: as the recorded owner, or, when that one is retired or
  there is none, as a new one.\<close>

definition restore_calls :: "string \<Rightarrow> string \<Rightarrow> string \<Rightarrow> ownership \<Rightarrow> own_event list" where
  "restore_calls daemon rid new w =
     (case ledger_recorded daemon rid (wn_ledger w) of
        Inr (Some o1) \<Rightarrow>
          if o1 \<in> set (wn_retired w) then [Restore_begins, Refuses True, Forgets Changed, Mints new Changed, Binds True]
          else [Restore_begins, Binds True]
      | _ \<Rightarrow> [Restore_begins, Mints new Changed, Binds True])"

lemma mint_now: "ulid_ok rid \<Longrightarrow> ledger_mint daemon o1 rid Changed ledger
    = (Inr o1, ledger(rid @ ''.json'' \<mapsto> \<lparr>ow_room_id = rid, ow_daemon_instance_id = daemon, ow_owner_instance_id = o1\<rparr>))"
  by (simp add: ledger_mint_def ledger_path_def)

lemma forget_now: "ledger_recorded daemon rid ledger = Inr (Some o1) \<Longrightarrow> fst (ledger_forget o1 rid Changed ledger) = Inr ()"
  by (auto simp: ledger_forget_def ledger_recorded_def split: sum.splits option.splits if_splits)

lemma restore_succeeds:
  assumes rid: "ulid_ok rid" and ok: "own_ok daemon rid w" and idle: "wn_task w = Idle" and exists: "wn_exists w"
    and lease: "wn_lease w = None \<or> (\<exists>o1\<in>set (wn_minted w). wn_lease w = Some o1)"
    and new: "owner_id_ok new" "new \<notin> set (wn_minted w)" "new \<notin> set (wn_retired w)"
  defines "w' \<equiv> fold (own_step daemon rid) (restore_calls daemon rid new w) w"
  shows "\<exists>o1. wn_task w' = Hosting o1 \<and> wn_lease w' = Some o1 \<and> (wn_lease w = None \<or> wn_lease w = Some o1)
    \<and> ledger_recorded daemon rid (wn_ledger w') = Inr (Some o1)"
proof (cases "ledger_recorded daemon rid (wn_ledger w)")
  case (Inl e)
  then show ?thesis using ok by (simp add: own_ok_defs)
next
  case (Inr opt)
  note rec = minted_is_recorded [OF rid new(1), of daemon Changed, unfolded mint_now [OF rid] snd_conv]
  show ?thesis
  proof (cases opt)
    case None
    then have free: "wn_lease w = None" using ok lease Inr by (auto simp: own_ok_defs)
    show ?thesis using rec new free idle exists rid
      by (simp add: w'_def restore_calls_def Inr None mint_now binds_def)
  next
    case (Some o1)
    note recorded = Inr [unfolded Some]
    have holder: "wn_lease w = None \<or> wn_lease w = Some o1" using ok lease recorded by (auto simp: own_ok_defs)
    show ?thesis
    proof (cases "o1 \<in> set (wn_retired w)")
      case True
      then have free: "wn_lease w = None" using ok holder by (auto simp: own_ok_defs)
      obtain ledger where f: "ledger_forget o1 rid Changed (wn_ledger w) = (Inr (), ledger)"
        using forget_now [OF recorded] by (cases "ledger_forget o1 rid Changed (wn_ledger w)") simp
      show ?thesis using rec new free idle exists rid True
        by (simp add: w'_def restore_calls_def recorded mint_now binds_def f)
    next
      case False
      then show ?thesis using holder idle exists by (auto simp: w'_def restore_calls_def recorded binds_def)
    qed
  qed
qed

text \<open>C34: in every interleaving of creations, restores, failed calls, releases, terminal releases and deaths of the
  process, an owner of the room that holds its identity is the one the ledger names, and is not retired; so a restarted
  process, unless a foreign owner holds the identity, gets hold of it again by the calls of \<open>restore\<close>, as the very
  owner that still holds the lease if one does.\<close>

theorem room_never_locked_out:
  assumes "ulid_ok rid" and "ledger_recorded daemon rid ledger = Inr None" and "w = own_run daemon rid ledger es"
    and "owner_id_ok new" and "new \<notin> set (wn_minted w)" and "new \<notin> set (wn_retired w)"
  shows "(\<forall>o1\<in>set (wn_minted w). wn_lease w = Some o1 \<longrightarrow>
        ledger_recorded daemon rid (wn_ledger w) = Inr (Some o1) \<and> o1 \<notin> set (wn_retired w))
    \<and> (wn_task w = Idle \<and> wn_exists w \<and> (wn_lease w = None \<or> (\<exists>o1\<in>set (wn_minted w). wn_lease w = Some o1)) \<longrightarrow>
        (let w' = fold (own_step daemon rid) (restore_calls daemon rid new w) w in
          \<exists>o1. wn_task w' = Hosting o1 \<and> wn_lease w' = Some o1 \<and> (wn_lease w = None \<or> wn_lease w = Some o1)
            \<and> ledger_recorded daemon rid (wn_ledger w') = Inr (Some o1)))"
proof -
  have ok: "own_ok daemon rid w" using own_ok_run [OF assms(1,2)] assms(3) by simp
  then have "ledger_recorded daemon rid (wn_ledger w) = Inr (Some o1) \<and> o1 \<notin> set (wn_retired w)"
    if "o1 \<in> set (wn_minted w)" "wn_lease w = Some o1" for o1
    using that by (simp add: own_ok_defs)
  then show ?thesis using restore_succeeds [OF assms(1) ok _ _ _ assms(4-6)] by (simp add: Let_def)
qed

text \<open>A process creates a room, dies without releasing anything, and the next one is the same owner.\<close>

definition crashed_room :: "own_event list" where
  "crashed_room = [Boots, Create_begins, Mints ''cowork-0123456789abcdef0123456789abcdef'' Changed, Binds True, Crashes, Boots]"

lemma sample_ownership:
  "ulid_ok ''01234567890123456789012345''" "owner_id_ok ''cowork-00000000000000000000000000000000''"
  "wn_minted (own_run ''d'' ''01234567890123456789012345'' Map.empty crashed_room) = [''cowork-0123456789abcdef0123456789abcdef'']"
  "wn_retired (own_run ''d'' ''01234567890123456789012345'' Map.empty crashed_room) = []"
  "wn_lease (own_run ''d'' ''01234567890123456789012345'' Map.empty crashed_room) = Some ''cowork-0123456789abcdef0123456789abcdef''"
  "wn_task (own_run ''d'' ''01234567890123456789012345'' Map.empty crashed_room) = Idle"
  "wn_exists (own_run ''d'' ''01234567890123456789012345'' Map.empty crashed_room)"
  "ledger_recorded ''d'' ''01234567890123456789012345'' Map.empty = Inr None"
  by code_simp+

lemma room_never_locked_out_witness:
  "let w = own_run ''d'' ''01234567890123456789012345'' Map.empty crashed_room;
     w' = fold (own_step ''d'' ''01234567890123456789012345'')
       (restore_calls ''d'' ''01234567890123456789012345'' ''cowork-00000000000000000000000000000000'' w) w in
   wn_task w' = Hosting ''cowork-0123456789abcdef0123456789abcdef''"
  using room_never_locked_out [OF sample_ownership(1,8) refl sample_ownership(2), of crashed_room]
  by (auto simp: sample_ownership Let_def)

end
