(* ===== verification/Boot.thy ===== *)
theory Boot
  imports Contracts
begin

section \<open>The start and the end of the daemon\<close>

text \<open>
  \<open>CoworkDaemon\<close> of \<open>src/daemon-runtime.ts\<close>: the recovery of the rooms at boot, notifications that come before it is
  done, the retries of a fanout that failed in transport, and the cleanup. The service is a parameter here:
  how each call on a room ends, as if decided in advance. Cancellation is the number of service calls after which a
  shutdown was asked for. Spans, log lines, the construction of the components and whether the process must exit after
  the shutdown of its host are left out.
\<close>

subsection \<open>Failures of a call\<close>

datatype code = Absent | Not_text | Code string

record failure =
  fl_error :: bool
  fl_code :: code
  fl_cause_code :: code

definition TRANSPORT_ERROR_CODES :: "string list" where
  "TRANSPORT_ERROR_CODES = [''UND_ERR_SOCKET'', ''UND_ERR_CONNECT_TIMEOUT'', ''UND_ERR_HEADERS_TIMEOUT'', ''UND_ERR_BODY_TIMEOUT'',
     ''ECONNREFUSED'', ''ECONNRESET'', ''EPIPE'', ''ETIMEDOUT'']"

definition isTransportError :: "failure \<Rightarrow> bool" where
  "isTransportError f \<longleftrightarrow> fl_error f
     \<and> (case if fl_code f = Absent then fl_cause_code f else fl_code f of Code c \<Rightarrow> c \<in> set TRANSPORT_ERROR_CODES | _ \<Rightarrow> False)"

subsection \<open>Recovery of the rooms\<close>

datatype phase = Restore | Lifecycle | Reconcile | Close_room | Fanout

record service_answers =
  sv_phase :: "phase \<Rightarrow> string \<Rightarrow> failure option"
  sv_lifecycle :: "string \<Rightarrow> failure + bool"

text \<open>\<open>bt_failed\<close> are the logged failures; every one unhosts the room.\<close>

record boot =
  bt_healthy :: "string list"
  bt_calls :: "(phase \<times> string) list"
  bt_failed :: "(phase \<times> string) list"
  bt_deferred :: "string list"

definition checkpoint :: "nat option \<Rightarrow> (phase \<times> string) list \<Rightarrow> bool" where
  "checkpoint cancel calls \<longleftrightarrow> (case cancel of None \<Rightarrow> True | Some n \<Rightarrow> length calls < n)"

text \<open>A fanout that fails in transport is deferred instead.\<close>

definition deferred_fanout :: "service_answers \<Rightarrow> phase \<Rightarrow> string \<Rightarrow> bool" where
  "deferred_fanout sv phase rid \<longleftrightarrow>
     phase = Fanout \<and> (case sv_phase sv phase rid of None \<Rightarrow> False | Some f \<Rightarrow> isTransportError f)"

definition recoverPhase :: "service_answers \<Rightarrow> nat option \<Rightarrow> phase \<Rightarrow> string \<Rightarrow> boot \<Rightarrow> boot" where
  "recoverPhase sv cancel phase rid b =
     (if rid \<notin> set (bt_healthy b) then b
      else (let calls = bt_calls b @ [(phase, rid)];
                later = deferred_fanout sv phase rid;
                ok = ((sv_phase sv phase rid = None \<or> later) \<and> checkpoint cancel calls) in
        b\<lparr>bt_calls := calls, bt_deferred := bt_deferred b @ (if later then [rid] else []),
          bt_healthy := (if ok then bt_healthy b else removeAll rid (bt_healthy b)),
          bt_failed := bt_failed b @ (if ok then [] else [(phase, rid)])\<rparr>))"

definition resume_lifecycle :: "service_answers \<Rightarrow> string \<Rightarrow> room_state \<Rightarrow> boot \<Rightarrow> failure + boot" where
  "resume_lifecycle sv rid state b =
     (if state \<noteq> Closed \<and> rid \<notin> set (bt_healthy b) then Inr b
      else (case sv_lifecycle sv rid of
          Inl f \<Rightarrow> Inl f
        | Inr ended \<Rightarrow> Inr (b\<lparr>bt_calls := bt_calls b @ [(Lifecycle, rid)],
            bt_healthy := (if ended then removeAll rid (bt_healthy b) else bt_healthy b)\<rparr>)))"

fun resume_lifecycles :: "service_answers \<Rightarrow> (string \<times> room_state) list \<Rightarrow> boot \<Rightarrow> failure + boot" where
  "resume_lifecycles sv [] b = Inr b"
| "resume_lifecycles sv ((rid, state) # rooms) b =
     (case resume_lifecycle sv rid state b of Inl f \<Rightarrow> Inl f | Inr b1 \<Rightarrow> resume_lifecycles sv rooms b1)"

definition recover_all :: "service_answers \<Rightarrow> nat option \<Rightarrow> phase \<Rightarrow> string list \<Rightarrow> boot \<Rightarrow> boot" where
  "recover_all sv cancel phase rids b = fold (recoverPhase sv cancel phase) rids b"

definition recover_rooms :: "service_answers \<Rightarrow> nat option \<Rightarrow> (string \<times> room_state) list \<Rightarrow> failure + boot" where
  "recover_rooms sv cancel rooms =
     (let recoverable = filter (\<lambda>(_, state). state \<noteq> Closed) rooms;
          closing = map fst (filter (\<lambda>(_, state). state = Closing) recoverable);
          others = map fst (filter (\<lambda>(_, state). state \<noteq> Closing) recoverable);
          b0 = \<lparr>bt_healthy = map fst recoverable, bt_calls = [], bt_failed = [], bt_deferred = []\<rparr> in
      case resume_lifecycles sv rooms (recover_all sv cancel Restore (map fst recoverable) b0) of
        Inl f \<Rightarrow> Inl f
      | Inr b1 \<Rightarrow> Inr (recover_all sv cancel Fanout others
          (recover_all sv cancel Close_room closing (recover_all sv cancel Reconcile others b1))))"

subsection \<open>Notifications\<close>

record notifications =
  nt_ready :: bool
  nt_stopping :: bool
  nt_queued :: "string list"
  nt_delivered :: "string list"

definition handleNotification :: "string \<Rightarrow> notifications \<Rightarrow> notifications" where
  "handleNotification rid n =
     (if nt_stopping n then n
      else if \<not> nt_ready n then n\<lparr>nt_queued := (if rid \<in> set (nt_queued n) then nt_queued n else nt_queued n @ [rid])\<rparr>
      else n\<lparr>nt_delivered := nt_delivered n @ [rid]\<rparr>)"

text \<open>One turn of the loop of \<open>flushQueuedNotifications\<close>.\<close>

definition flush :: "notifications \<Rightarrow> notifications" where
  "flush n = (if nt_stopping n then n else fold handleNotification (nt_queued n) (n\<lparr>nt_queued := []\<rparr>))"

subsection \<open>Retries of a fanout\<close>

text \<open>One room: the entry of \<open>fanoutRetries\<close> with its delay, its timer, whether an attempt runs, and what it has done.\<close>

record fanout =
  fo_delay :: "nat option"
  fo_timer :: bool
  fo_running :: bool
  fo_healthy :: bool
  fo_hosted :: bool
  fo_stopping :: bool

datatype attempt = Load_fails | Room_ended | Drained | Drain_fails failure

datatype fanout_event = Defer | Timer_fires | Attempt_ends attempt | Stops

definition quarantine :: "fanout \<Rightarrow> fanout" where
  "quarantine r = r\<lparr>fo_delay := None, fo_hosted := False\<rparr>"

fun fanout_step :: "nat \<Rightarrow> nat \<Rightarrow> fanout_event \<Rightarrow> fanout \<Rightarrow> fanout" where
  "fanout_step initialMs maxMs Defer r =
     (if fo_stopping r \<or> fo_delay r \<noteq> None then r else r\<lparr>fo_delay := Some initialMs, fo_healthy := False, fo_timer := True\<rparr>)"
| "fanout_step initialMs maxMs Timer_fires r =
     (if \<not> fo_timer r then r else r\<lparr>fo_timer := False, fo_running := \<not> fo_stopping r\<rparr>)"
| "fanout_step initialMs maxMs (Attempt_ends a) r =
     (if \<not> fo_running r then r
      else let r1 = r\<lparr>fo_running := False\<rparr> in
        if fo_stopping r then r1
        else (case a of
            Load_fails \<Rightarrow> quarantine r1
          | Room_ended \<Rightarrow> r1\<lparr>fo_delay := None, fo_healthy := True\<rparr>
          | Drained \<Rightarrow> r1\<lparr>fo_delay := None, fo_healthy := True\<rparr>
          | Drain_fails f \<Rightarrow>
              if isTransportError f then r1\<lparr>fo_delay := map_option (\<lambda>d. min (d * 2) maxMs) (fo_delay r1), fo_timer := True\<rparr>
              else quarantine r1))"
| "fanout_step initialMs maxMs Stops r = r\<lparr>fo_stopping := True, fo_timer := False, fo_delay := None\<rparr>"

subsection \<open>Cleanup\<close>

datatype cleanup_action =
    Begin_shutdown
  | Stop_transports
  | Drain_service
  | Remove_pid
  | Quiesce
  | Attest_session_end
  | Unhost_all
  | Shutdown_host
  | Release_lock







subsection \<open>One room at a time\<close>

definition of_room :: "string \<Rightarrow> boot \<Rightarrow> boot" where
  "of_room rid b = \<lparr>bt_healthy = filter (\<lambda>r. r = rid) (bt_healthy b), bt_calls = filter (\<lambda>(_, r). r = rid) (bt_calls b),
     bt_failed = filter (\<lambda>(_, r). r = rid) (bt_failed b), bt_deferred = filter (\<lambda>r. r = rid) (bt_deferred b)\<rparr>"

lemma of_room_healthy [simp]: "set (bt_healthy (of_room rid b)) = {r \<in> set (bt_healthy b). r = rid}"
  by (simp add: of_room_def)

lemma filter_removeAll_other: "r \<noteq> rid \<Longrightarrow> filter (\<lambda>x. x = rid) (removeAll r xs) = filter (\<lambda>x. x = rid) xs"
  by (induction xs) auto

lemma filter_removeAll_same: "filter (\<lambda>x. x = rid) (removeAll rid xs) = removeAll rid (filter (\<lambda>x. x = rid) xs)"
  by (induction xs) auto

lemma of_room_recoverPhase:
  "of_room rid (recoverPhase sv None phase r b) = (if r = rid then recoverPhase sv None phase rid (of_room rid b) else of_room rid b)"
proof (cases "r \<in> set (bt_healthy b)")
  case True
  then show ?thesis
    by (cases "r = rid"; cases "sv_phase sv phase r"; cases "deferred_fanout sv phase r")
      (simp_all add: Let_def recoverPhase_def checkpoint_def of_room_def filter_removeAll_other filter_removeAll_same)
qed (auto simp: recoverPhase_def)

lemma of_room_recover_all:
  "of_room rid (recover_all sv None phase rids b) = recover_all sv None phase (filter (\<lambda>r. r = rid) rids) (of_room rid b)"
  unfolding recover_all_def by (induction rids arbitrary: b) (simp_all add: of_room_recoverPhase)

lemma of_room_ended:
  "of_room rid (b\<lparr>bt_calls := bt_calls b @ [(phase, r)], bt_healthy := if ended then removeAll r (bt_healthy b) else bt_healthy b\<rparr>)
     = (if r = rid then (of_room rid b)\<lparr>bt_calls := bt_calls (of_room rid b) @ [(phase, rid)],
          bt_healthy := if ended then removeAll rid (bt_healthy (of_room rid b)) else bt_healthy (of_room rid b)\<rparr>
        else of_room rid b)"
  by (simp add: of_room_def filter_removeAll_other filter_removeAll_same)

lemma of_room_lifecycle:
  assumes "resume_lifecycle sv r state b = Inr b'"
  shows "if r = rid then resume_lifecycle sv rid state (of_room rid b) = Inr (of_room rid b') else of_room rid b' = of_room rid b"
proof (cases "state \<noteq> Closed \<and> r \<notin> set (bt_healthy b)")
  case True
  then show ?thesis using assms by (auto simp: resume_lifecycle_def)
next
  case False
  then obtain ended where "sv_lifecycle sv r = Inr ended"
    and b': "b' = b\<lparr>bt_calls := bt_calls b @ [(Lifecycle, r)], bt_healthy := if ended then removeAll r (bt_healthy b) else bt_healthy b\<rparr>"
    using assms by (cases "sv_lifecycle sv r") (simp_all only: resume_lifecycle_def if_False sum.case, simp_all)
  then show ?thesis using False unfolding b' of_room_ended by (cases "r = rid") (auto simp: resume_lifecycle_def)
qed

lemma of_room_lifecycles:
  "resume_lifecycles sv rooms b = Inr b' \<Longrightarrow>
     resume_lifecycles sv (filter (\<lambda>(r, _). r = rid) rooms) (of_room rid b) = Inr (of_room rid b')"
proof (induction sv rooms b arbitrary: b' rule: resume_lifecycles.induct)
  case (2 sv r state rooms b)
  obtain b1 where one: "resume_lifecycle sv r state b = Inr b1" and rest: "resume_lifecycles sv rooms b1 = Inr b'"
    using "2.prems" by (auto split: sum.splits)
  show ?case using of_room_lifecycle [OF one, of rid] "2.IH" [OF one rest] by (auto split: if_splits)
qed simp

lemma only_one: "distinct (map fst rooms) \<Longrightarrow> (rid, state) \<in> set rooms \<Longrightarrow> filter (\<lambda>(r, _). r = rid) rooms = [(rid, state)]"
proof (induction rooms)
  case (Cons room rooms)
  have "filter (\<lambda>(r, _). r = rid) rooms = []" if "fst room = rid"
    using Cons.prems that by (auto simp: filter_empty_conv rev_image_eqI)
  then show ?case using Cons by (cases room) auto
qed simp

lemma filter_ids: "filter (\<lambda>r. r = rid) (map fst (filter (\<lambda>(_, state). P state) rooms))
    = map fst (filter (\<lambda>(_, state). P state) (filter (\<lambda>(r, _). r = rid) rooms))"
  by (induction rooms) auto

lemma recover_one_room:
  assumes "distinct (map fst rooms)" and "(rid, state) \<in> set rooms" and "recover_rooms sv None rooms = Inr b"
  shows "recover_rooms sv None [(rid, state)] = Inr (of_room rid b)"
proof -
  define b0 where "b0 = \<lparr>bt_healthy = map fst (filter (\<lambda>(_, state). state \<noteq> Closed) rooms), bt_calls = [], bt_failed = [], bt_deferred = []\<rparr>"
  define ids where "ids P xs = map fst (filter (\<lambda>(_, state). P state) xs)" for P and xs :: "(string \<times> room_state) list"
  have one: "filter (\<lambda>r. r = rid) (ids P rooms) = ids P [(rid, state)]" for P
    unfolding ids_def filter_ids only_one [OF assms(1,2)] ..
  obtain b1 where life: "resume_lifecycles sv rooms (recover_all sv None Restore (ids (\<lambda>s. s \<noteq> Closed) rooms) b0) = Inr b1"
    and b: "b = recover_all sv None Fanout (ids (\<lambda>s. s \<noteq> Closed \<and> s \<noteq> Closing) rooms)
      (recover_all sv None Close_room (ids (\<lambda>s. s \<noteq> Closed \<and> s = Closing) rooms)
      (recover_all sv None Reconcile (ids (\<lambda>s. s \<noteq> Closed \<and> s \<noteq> Closing) rooms) b1))"
    using assms(3) by (auto simp: recover_rooms_def Let_def b0_def ids_def case_prod_unfold split: sum.splits)
  have "of_room rid b0 = \<lparr>bt_healthy = ids (\<lambda>s. s \<noteq> Closed) [(rid, state)], bt_calls = [], bt_failed = [], bt_deferred = []\<rparr>"
    using one [of "\<lambda>s. s \<noteq> Closed"] unfolding b0_def of_room_def ids_def by simp
  then show ?thesis
    using of_room_lifecycles [OF life, of rid] unfolding b of_room_recover_all one only_one [OF assms(1,2)]
    by (simp add: recover_rooms_def Let_def ids_def case_prod_unfold)
qed

subsection \<open>What a start guarantees\<close>

lemma sound_room_alone:
  assumes "state \<noteq> Closed" and "state \<noteq> Closing" and "\<And>phase. sv_phase sv phase rid = None" and "sv_lifecycle sv rid = Inr False"
  shows "recover_rooms sv None [(rid, state)]
    = Inr \<lparr>bt_healthy = [rid], bt_calls = [(Restore, rid), (Lifecycle, rid), (Reconcile, rid), (Fanout, rid)], bt_failed = [], bt_deferred = []\<rparr>"
  using assms by (simp add: recover_rooms_def Let_def recover_all_def recoverPhase_def checkpoint_def deferred_fanout_def resume_lifecycle_def)

text \<open>When the recovery at boot gets through, that is, when no lifecycle request fails (a failure there ends the recovery of
  all rooms), what is called for a room, in which order, and whether it ends up hosted, quarantined or
  deferred, is what would happen if it were the only room with the same answers.\<close>

theorem startup_isolates_rooms:
  assumes "distinct (map fst rooms)" and "(rid, state) \<in> set rooms" and "recover_rooms sv None rooms = Inr b"
  shows "recover_rooms sv None [(rid, state)] = Inr (of_room rid b)
    \<and> (state \<noteq> Closed \<and> state \<noteq> Closing \<and> (\<forall>phase. sv_phase sv phase rid = None) \<and> sv_lifecycle sv rid = Inr False \<longrightarrow>
         rid \<in> set (bt_healthy b)
         \<and> filter (\<lambda>(_, r). r = rid) (bt_calls b) = [(Restore, rid), (Lifecycle, rid), (Reconcile, rid), (Fanout, rid)])"
proof -
  note alone = recover_one_room [OF assms]
  have "rid \<in> set (bt_healthy b) \<and> filter (\<lambda>(_, r). r = rid) (bt_calls b) = [(Restore, rid), (Lifecycle, rid), (Reconcile, rid), (Fanout, rid)]"
    if "state \<noteq> Closed \<and> state \<noteq> Closing \<and> (\<forall>phase. sv_phase sv phase rid = None) \<and> sv_lifecycle sv rid = Inr False"
  proof -
    have r: "of_room rid b = \<lparr>bt_healthy = [rid], bt_calls = [(Restore, rid), (Lifecycle, rid), (Reconcile, rid), (Fanout, rid)],
        bt_failed = [], bt_deferred = []\<rparr>"
      using alone sound_room_alone [of state sv rid] that by simp
    have "rid \<in> set (bt_healthy (of_room rid b))" unfolding r by simp
    moreover have "bt_calls (of_room rid b) = [(Restore, rid), (Lifecycle, rid), (Reconcile, rid), (Fanout, rid)]" unfolding r by simp
    ultimately show ?thesis by (simp add: of_room_def)
  qed
  then show ?thesis using alone by blast
qed

text \<open>A shutdown asked for during the recovery does not end it: the checkpoint inside a phase is handled as a failure of
  the room, and the rooms after it are still restored, only to be unhosted.\<close>

lemma cancelled_recovery_goes_on:
  assumes "\<And>rid. \<exists>ended. sv_lifecycle sv rid = Inr ended"
  shows "\<exists>b. recover_rooms sv (Some n) rooms = Inr b"
proof -
  have go: "\<exists>b'. resume_lifecycles sv rooms b = Inr b'" for b
  proof (induction rooms arbitrary: b)
    case (Cons room rooms)
    obtain rid state where room: "room = (rid, state)" by force
    obtain ended where "sv_lifecycle sv rid = Inr ended" using assms by blast
    then show ?case using Cons by (simp add: room resume_lifecycle_def)
  qed simp
  obtain b' where "resume_lifecycles sv rooms (recover_all sv (Some n) Restore (map fst (filter (\<lambda>(_, state). state \<noteq> Closed) rooms))
      \<lparr>bt_healthy = map fst (filter (\<lambda>(_, state). state \<noteq> Closed) rooms), bt_calls = [], bt_failed = [], bt_deferred = []\<rparr>) = Inr b'"
    using go by blast
  then show ?thesis by (simp add: recover_rooms_def Let_def)
qed

lemma queued_notifications_delivered:
  assumes "\<not> nt_stopping n" and "nt_ready n"
  shows "nt_delivered (flush n) = nt_delivered n @ nt_queued n \<and> nt_queued (flush n) = []"
proof -
  have "fold handleNotification rids n = n\<lparr>nt_delivered := nt_delivered n @ rids\<rparr>" if "\<not> nt_stopping n" "nt_ready n" for rids n
    using that by (induction rids arbitrary: n) (simp_all add: handleNotification_def)
  then show ?thesis using assms by (simp add: flush_def)
qed

subsection \<open>What a retry and a cleanup guarantee\<close>

definition fanout_ok :: "nat \<Rightarrow> nat \<Rightarrow> fanout \<Rightarrow> bool" where
  "fanout_ok initialMs maxMs r \<longleftrightarrow>
     (case fo_delay r of
        None \<Rightarrow> \<not> fo_timer r \<and> (fo_running r \<longrightarrow> fo_stopping r)
      | Some d \<Rightarrow> initialMs \<le> d \<and> d \<le> maxMs \<and> \<not> fo_healthy r \<and> \<not> fo_stopping r \<and> fo_timer r = (\<not> fo_running r))"

definition fanout_run :: "nat \<Rightarrow> nat \<Rightarrow> fanout_event list \<Rightarrow> fanout" where
  "fanout_run initialMs maxMs es = fold (fanout_step initialMs maxMs) es
     \<lparr>fo_delay = None, fo_timer = False, fo_running = False, fo_healthy = True, fo_hosted = True, fo_stopping = False\<rparr>"

lemma fanout_ok_step:
  assumes "initialMs \<le> maxMs" and "fanout_ok initialMs maxMs r"
  shows "fanout_ok initialMs maxMs (fanout_step initialMs maxMs e r)"
  using assms by (cases e) (auto simp: fanout_ok_def quarantine_def Let_def split: option.splits attempt.splits)

text \<open>The retries of a deferred room: whatever happens, one attempt is under way or scheduled at a time and none once
  the retries have ended; the delays stay within their bounds; and the room reports unhealthy until an attempt
  drained it or found it ended.\<close>

theorem fanout_retry_bounded:
  assumes "initialMs \<le> maxMs" and "r = fanout_run initialMs maxMs es"
  shows "(case fo_delay r of
        None \<Rightarrow> \<not> fo_timer r \<and> (fo_running r \<longrightarrow> fo_stopping r)
      | Some d \<Rightarrow> initialMs \<le> d \<and> d \<le> maxMs \<and> \<not> fo_healthy r \<and> fo_timer r = (\<not> fo_running r))"
proof -
  have "fanout_ok initialMs maxMs (fold (fanout_step initialMs maxMs) es r)" if "fanout_ok initialMs maxMs r" for r
    using that by (induction es arbitrary: r) (simp_all add: fanout_ok_step [OF assms(1)])
  then have "fanout_ok initialMs maxMs r" unfolding assms(2) fanout_run_def by (simp add: fanout_ok_def)
  then show ?thesis by (auto simp: fanout_ok_def split: option.splits)
qed

definition only :: "bool \<Rightarrow> cleanup_action \<Rightarrow> cleanup_action list" where
  "only there a = (if there then [a] else [])"

lemma set_only [simp]: "set (only there a) = (if there then {a} else {})"
  by (simp add: only_def)






subsection \<open>A sample start and end\<close>

text \<open>Three rooms: one whose identity cannot be restored, one that is relayed, one that is to be closed.\<close>

definition sample_rooms :: "(string \<times> room_state) list" where
  "sample_rooms = [(''a'', Room_active), (''b'', Room_active), (''c'', Closing)]"

definition sample_answers :: service_answers where
  "sample_answers = \<lparr>
     sv_phase = (\<lambda>phase rid. if phase = Restore \<and> rid = ''a'' then Some \<lparr>fl_error = True, fl_code = Absent, fl_cause_code = Absent\<rparr> else None),
     sv_lifecycle = (\<lambda>rid. Inr False)\<rparr>"

lemma startup_isolation_witness:
  "case recover_rooms sample_answers None sample_rooms of
     Inl _ \<Rightarrow> False
   | Inr b \<Rightarrow> bt_failed b = [(Restore, ''a'')] \<and> ''b'' \<in> set (bt_healthy b)
       \<and> filter (\<lambda>(_, r). r = ''b'') (bt_calls b) = [(Restore, ''b''), (Lifecycle, ''b''), (Reconcile, ''b''), (Fanout, ''b'')]"
proof -
  have "case recover_rooms sample_answers None sample_rooms of Inl _ \<Rightarrow> False | Inr b \<Rightarrow> bt_failed b = [(Restore, ''a'')]"
    by code_simp
  then obtain b where b: "recover_rooms sample_answers None sample_rooms = Inr b" "bt_failed b = [(Restore, ''a'')]"
    by (auto split: sum.splits)
  have "distinct (map fst sample_rooms)" "(''b'', Room_active) \<in> set sample_rooms" by (simp_all add: sample_rooms_def)
  from startup_isolates_rooms [OF this b(1)] b show ?thesis by (simp add: sample_answers_def)
qed

lemma fanout_retry_witness:
  "fo_delay (fanout_run 5000 300000 [Defer, Timer_fires, Attempt_ends (Drain_fails \<lparr>fl_error = True, fl_code = Code ''EPIPE'', fl_cause_code = Absent\<rparr>)])
     = Some 10000
   \<and> \<not> fo_healthy (fanout_run 5000 300000 [Defer, Timer_fires, Attempt_ends (Drain_fails \<lparr>fl_error = True, fl_code = Code ''EPIPE'', fl_cause_code = Absent\<rparr>)])"
proof -
  let ?es = "[Defer, Timer_fires, Attempt_ends (Drain_fails \<lparr>fl_error = True, fl_code = Code ''EPIPE'', fl_cause_code = Absent\<rparr>)]"
  have "fo_delay (fanout_run 5000 300000 ?es) = Some 10000" by code_simp
  then show ?thesis using fanout_retry_bounded [of 5000 300000 "fanout_run 5000 300000 ?es" ?es] by simp
qed




end
