(* ===== verification/DaemonLock.thy ===== *)
theory DaemonLock
  imports Main
begin

section \<open>The lock and the PID file of the daemon\<close>

text \<open>
  \<open>acquireDaemonLock\<close>, \<open>writeDaemonPid\<close> and \<open>removeDaemonPid\<close> of \<open>src/daemon-runtime.ts\<close>, one step for each look at or
  change of the two files. A file is its inode and the PID it holds. The supervisor lock (theory \<open>SupervisorLock\<close>)
  keeps a second daemon away before it comes here; alone this lock excludes one contender at a time, not two that
  race. Modes, owners and syncs of the files are left out.
\<close>

record pid_file =
  pf_ino :: nat
  pf_pid :: nat

record daemon_files =
  df_lock :: "pid_file option"
  df_pid :: "pid_file option"
  df_next :: nat
  df_alive :: "nat list"

text \<open>\<open>Trying k\<close>: attempt \<open>k\<close> begins. \<open>Exists\<close>: the exclusive create failed. \<open>Observed\<close>: the lock file was looked at.
  \<open>Stale\<close>: its owner is dead. \<open>Same\<close>: it is still that file. \<open>Created\<close>: the own lock file is written.\<close>

datatype contender =
    Trying nat
  | Exists nat
  | Observed nat nat
  | Stale nat nat
  | Same nat
  | Created nat
  | Holds nat
  | Refused

fun lock_op :: "nat \<Rightarrow> daemon_files \<times> contender \<Rightarrow> daemon_files \<times> contender" where
  "lock_op pid (f, Trying k) =
     (if k \<ge> 3 then (f, Refused)
      else (case df_lock f of
          None \<Rightarrow> (f\<lparr>df_lock := Some \<lparr>pf_ino = df_next f, pf_pid = pid\<rparr>, df_next := Suc (df_next f)\<rparr>, Created (df_next f))
        | Some _ \<Rightarrow> (f, Exists k)))"
| "lock_op pid (f, Exists k) = (case df_lock f of None \<Rightarrow> (f, Refused) | Some l \<Rightarrow> (f, Observed (pf_ino l) k))"
| "lock_op pid (f, Observed i k) =
     (case df_lock f of
        None \<Rightarrow> (f, Refused)
      | Some l \<Rightarrow> if pf_pid l \<in> set (df_alive f) then (f, Refused) else (f, Stale i k))"
| "lock_op pid (f, Stale i k) =
     (case df_lock f of
        None \<Rightarrow> (f, Refused)
      | Some l \<Rightarrow> if pf_ino l \<noteq> i then (f, Trying (Suc k)) else (f, Same k))"
| "lock_op pid (f, Same k) = (case df_lock f of None \<Rightarrow> (f, Refused) | Some l \<Rightarrow> (f\<lparr>df_lock := None\<rparr>, Trying (Suc k)))"
| "lock_op pid (f, Created i) =
     (case df_pid f of
        None \<Rightarrow> (f, Holds i)
      | Some p \<Rightarrow> if pf_pid p \<in> set (df_alive f) then (f\<lparr>df_lock := None\<rparr>, Refused) else (f, Holds i))"
| "lock_op pid (f, Holds i) = (f, Holds i)"
| "lock_op pid (f, Refused) = (f, Refused)"

text \<open>A whole acquisition with nobody else between its operations: it ends within sixteen.\<close>

definition acquireDaemonLock :: "nat \<Rightarrow> daemon_files \<Rightarrow> daemon_files \<times> contender" where
  "acquireDaemonLock pid f = (lock_op pid ^^ 16) (f, Trying 0)"

definition release :: "nat \<Rightarrow> nat \<Rightarrow> daemon_files \<Rightarrow> daemon_files" where
  "release pid i f =
     (case df_lock f of None \<Rightarrow> f | Some l \<Rightarrow> if pf_ino l = i \<and> pf_pid l = pid then f\<lparr>df_lock := None\<rparr> else f)"

definition writeDaemonPid :: "nat \<Rightarrow> daemon_files \<Rightarrow> string + daemon_files" where
  "writeDaemonPid pid f =
     (case df_pid f of
        Some p \<Rightarrow> if pf_pid p \<in> set (df_alive f) \<and> pf_pid p \<noteq> pid then Inl ''belongs to live PID''
          else Inr (f\<lparr>df_pid := Some \<lparr>pf_ino = df_next f, pf_pid = pid\<rparr>, df_next := Suc (df_next f)\<rparr>)
      | None \<Rightarrow> Inr (f\<lparr>df_pid := Some \<lparr>pf_ino = df_next f, pf_pid = pid\<rparr>, df_next := Suc (df_next f)\<rparr>))"

definition removeDaemonPid :: "nat \<Rightarrow> daemon_files \<Rightarrow> daemon_files" where
  "removeDaemonPid pid f =
     (case df_pid f of None \<Rightarrow> f | Some p \<Rightarrow> if pf_pid p \<noteq> pid then f else f\<lparr>df_pid := None\<rparr>)"

subsection \<open>Without a race\<close>

lemma funpow_steps: "(f ^^ Suc n) x = (f ^^ n) (f x)"
  by (simp add: funpow_swap1)

lemma rest_stays: "(lock_op pid ^^ n) (f, Holds i) = (f, Holds i)" "(lock_op pid ^^ n) (f, Refused) = (f, Refused)"
  by (induction n) simp_all

lemma acquire_free:
  assumes "df_lock f = None"
  shows "acquireDaemonLock pid f =
     (let f1 = f\<lparr>df_lock := Some \<lparr>pf_ino = df_next f, pf_pid = pid\<rparr>, df_next := Suc (df_next f)\<rparr> in
      case df_pid f of
        None \<Rightarrow> (f1, Holds (df_next f))
      | Some p \<Rightarrow> if pf_pid p \<in> set (df_alive f) then (f1\<lparr>df_lock := None\<rparr>, Refused) else (f1, Holds (df_next f)))"
  using assms by (simp add: acquireDaemonLock_def numeral_eq_Suc funpow_steps rest_stays Let_def del: funpow.simps split: option.split)

lemma acquire_held:
  assumes "df_lock f = Some l" and "pf_pid l \<in> set (df_alive f)"
  shows "acquireDaemonLock pid f = (f, Refused)"
  using assms by (simp add: acquireDaemonLock_def numeral_eq_Suc funpow_steps rest_stays del: funpow.simps)

lemma acquire_stale:
  assumes "df_lock f = Some l" and "pf_pid l \<notin> set (df_alive f)" and "\<And>p. df_pid f = Some p \<Longrightarrow> pf_pid p \<notin> set (df_alive f)"
  shows "acquireDaemonLock pid f =
     (f\<lparr>df_lock := Some \<lparr>pf_ino = df_next f, pf_pid = pid\<rparr>, df_next := Suc (df_next f)\<rparr>, Holds (df_next f))"
  using assms by (simp add: acquireDaemonLock_def numeral_eq_Suc funpow_steps rest_stays del: funpow.simps split: option.split)

lemma acquire_stale_live:
  assumes "df_lock f = Some l" and "pf_pid l \<notin> set (df_alive f)" and "df_pid f = Some p" and "pf_pid p \<in> set (df_alive f)"
  shows "snd (acquireDaemonLock pid f) = Refused"
  using assms by (simp add: acquireDaemonLock_def numeral_eq_Suc funpow_steps rest_stays del: funpow.simps)

lemma one_daemon_without_race:
  assumes "acquireDaemonLock p f = (f', Holds i)" and "p \<in> set (df_alive f)"
  shows "acquireDaemonLock q f' = (f', Refused)"
proof -
  have "\<exists>l. df_lock f' = Some l \<and> pf_pid l = p \<and> df_alive f' = df_alive f"
  proof (cases "df_lock f")
    case None
    then show ?thesis using assms(1) by (auto simp: acquire_free Let_def split: option.splits if_splits)
  next
    case (Some l)
    show ?thesis
    proof (cases "pf_pid l \<in> set (df_alive f)")
      case True
      then show ?thesis using assms(1) by (simp add: acquire_held [OF Some])
    next
      case False
      have "pf_pid pf \<notin> set (df_alive f)" if "df_pid f = Some pf" for pf
        using assms(1) acquire_stale_live [OF Some False that, of p] by auto
      then show ?thesis using assms(1) acquire_stale [OF Some False] by auto
    qed
  qed
  then show ?thesis using assms(2) acquire_held by metis
qed

subsection \<open>With a race\<close>

text \<open>Two contenders find the lock of a dead daemon. The first has checked that it is still the same file; before it
  removes that file, the second removes it and takes the lock. The first then removes the lock of the second.\<close>

definition race_steps :: "bool list" where
  "race_steps = [True, True, True, True, False, False, False, False, False, False, False, True, True, True]"

definition race :: "bool list \<Rightarrow> daemon_files \<times> contender \<times> contender \<Rightarrow> daemon_files \<times> contender \<times> contender" where
  "race steps s0 = fold (\<lambda>first (f, a, b).
      if first then (let (f1, a1) = lock_op 1 (f, a) in (f1, a1, b)) else (let (f1, b1) = lock_op 2 (f, b) in (f1, a, b1))) steps s0"

lemma two_daemons_after_race:
  "race race_steps (\<lparr>df_lock = Some \<lparr>pf_ino = 0, pf_pid = 9\<rparr>, df_pid = None, df_next = 1, df_alive = [1, 2]\<rparr>, Trying 0, Trying 0)
     = (\<lparr>df_lock = Some \<lparr>pf_ino = 2, pf_pid = 1\<rparr>, df_pid = None, df_next = 3, df_alive = [1, 2]\<rparr>, Holds 2, Holds 1)"
  by code_simp

lemma pid_file_round_trip:
  assumes "writeDaemonPid pid f = Inr f'"
  shows "df_pid (removeDaemonPid pid f') = None" and "q \<noteq> pid \<Longrightarrow> removeDaemonPid q f' = f'"
  using assms by (auto simp: writeDaemonPid_def removeDaemonPid_def split: option.splits if_splits)

end
