(* ===== verification/Watcher.thy ===== *)
theory Watcher
  imports Main
begin

section \<open>Following the notifications of an identity\<close>

text \<open>
  \<open>SharedOursHost.follow\<close> of \<open>src/ours-runtime.ts\<close>: one watcher of one identity, through all of its attempts. The
  shared daemon numbers its notifications; a page read since a cursor holds this identity's up to some number, which
  becomes the cursor, and the tip is the last number. A committed change is followed by a canonical pass (one announcement without an event), and
  from the first pass on the pages are drained, each event announced in order. An attempt ends with the first
  failure, and the next one begins after a delay. What a listener does and the log are left out; of an
  announcement the model keeps whether it succeeded.
\<close>

definition WATCH_RETRY_MIN_MS :: nat where "WATCH_RETRY_MIN_MS = 500"
definition WATCH_RETRY_MAX_MS :: nat where "WATCH_RETRY_MAX_MS = 30000"

datatype canonical = No_pass | Reading_tip | Announcing

datatype drain = No_drain | Reading_page | Handling "nat list" nat

text \<open>\<open>wt_log\<close> says of each notification whether it is for this identity; \<open>wt_first\<close>, \<open>wt_handled\<close> and \<open>wt_reconciled\<close> are history: the first
  tip, the events whose announcement succeeded, and whether this attempt has made a canonical pass.\<close>

record watcher =
  wt_log :: "bool list"
  wt_cursor :: "nat option"
  wt_backoff :: nat
  wt_running :: bool
  wt_aborted :: bool
  wt_dirty :: bool
  wt_canonical :: canonical
  wt_drain :: drain
  wt_intake_pending :: bool
  wt_health :: "bool \<times> bool"
  wt_first :: nat
  wt_handled :: "nat set"
  wt_reconciled :: bool

definition publish_health :: "watcher \<Rightarrow> watcher" where
  "publish_health w =
     (if wt_running w
      then w\<lparr>wt_health := (True, wt_dirty w \<or> wt_canonical w \<noteq> No_pass \<or> wt_intake_pending w)\<rparr> else w)"

text \<open>The head of the loop of a canonical pass, up to its first wait.\<close>

definition canonical_pass :: "watcher \<Rightarrow> watcher" where
  "canonical_pass w =
     (if wt_dirty w \<and> wt_running w
      then w\<lparr>wt_dirty := False, wt_canonical := (if wt_cursor w = None then Reading_tip else Announcing)\<rparr>
      else publish_health (w\<lparr>wt_canonical := No_pass\<rparr>))"

definition scheduleCanonical :: "watcher \<Rightarrow> watcher" where
  "scheduleCanonical w =
     (let w1 = publish_health (w\<lparr>wt_dirty := True\<rparr>) in
      if wt_canonical w1 \<noteq> No_pass \<or> \<not> wt_running w1 then w1 else canonical_pass w1)"

definition attempt_fails :: "watcher \<Rightarrow> watcher" where
  "attempt_fails w = (if wt_running w then w\<lparr>wt_running := False, wt_health := (False, False)\<rparr> else w)"

definition events_of :: "nat \<Rightarrow> nat \<Rightarrow> watcher \<Rightarrow> nat list" where
  "events_of c m w = filter (\<lambda>i. wt_log w ! (i - 1)) [Suc c..<Suc m]"

definition commit_page :: "nat \<Rightarrow> watcher \<Rightarrow> watcher" where
  "commit_page c w =
     w\<lparr>wt_cursor := Some c, wt_backoff := WATCH_RETRY_MIN_MS, wt_drain := (if wt_running w then Reading_page else No_drain)\<rparr>"

datatype watch_event =
    Notified bool
  | Attempt_begins
  | Frame bool
  | Observation_ends
  | Tip_read bool
  | Pass_announced bool
  | Page_read "nat option"
  | Event_announced bool
  | Settles
  | Untracked

fun watch_step :: "watch_event \<Rightarrow> watcher \<Rightarrow> watcher" where
  "watch_step (Notified mine) w = w\<lparr>wt_log := wt_log w @ [mine]\<rparr>"
| "watch_step Attempt_begins w =
     (if wt_running w \<or> wt_aborted w \<or> wt_canonical w \<noteq> No_pass \<or> wt_drain w \<noteq> No_drain then w
      else w\<lparr>wt_running := True, wt_dirty := False, wt_intake_pending := False, wt_health := (False, False), wt_reconciled := False\<rparr>)"
| "watch_step (Frame changed) w = (if wt_running w \<and> changed then scheduleCanonical w else w)"
| "watch_step Observation_ends w = attempt_fails w"
| "watch_step (Tip_read ok) w =
     (if wt_canonical w \<noteq> Reading_tip then w
      else if \<not> wt_running w then w\<lparr>wt_canonical := No_pass\<rparr>
      else if ok then w\<lparr>wt_cursor := Some (length (wt_log w)), wt_first := length (wt_log w), wt_canonical := Announcing\<rparr>
      else attempt_fails (w\<lparr>wt_canonical := No_pass\<rparr>))"
| "watch_step (Pass_announced ok) w =
     (if wt_canonical w \<noteq> Announcing then w
      else if \<not> wt_running w then w\<lparr>wt_canonical := No_pass\<rparr>
      else if ok then canonical_pass (w\<lparr>wt_reconciled := True, wt_drain := (if wt_drain w = No_drain then Reading_page else wt_drain w)\<rparr>)
      else attempt_fails (w\<lparr>wt_canonical := No_pass\<rparr>))"
| "watch_step (Page_read answer) w =
     (case (wt_drain w, wt_cursor w) of
        (Reading_page, Some c) \<Rightarrow>
          (case answer of
             None \<Rightarrow> attempt_fails (w\<lparr>wt_drain := No_drain\<rparr>)
           | Some m \<Rightarrow>
               if m < c \<or> length (wt_log w) < m then w
               else if events_of c m w = [] then commit_page m w
               else publish_health (w\<lparr>wt_intake_pending := True, wt_drain := Handling (events_of c m w) m\<rparr>))
      | _ \<Rightarrow> w)"
| "watch_step (Event_announced ok) w =
     (case wt_drain w of
        Handling (e # es) m \<Rightarrow>
          if \<not> ok then attempt_fails (w\<lparr>wt_drain := No_drain\<rparr>)
          else (let w1 = w\<lparr>wt_handled := insert e (wt_handled w)\<rparr> in
            if es \<noteq> [] then w1\<lparr>wt_drain := Handling es m\<rparr>
            else if \<not> wt_running w1 then w1\<lparr>wt_drain := No_drain\<rparr>
            else commit_page m (publish_health (w1\<lparr>wt_intake_pending := False\<rparr>)))
      | _ \<Rightarrow> w)"
| "watch_step Settles w =
     (if wt_running w \<or> wt_aborted w then w
      else w\<lparr>wt_drain := (case wt_drain w of Handling es m \<Rightarrow> Handling es m | _ \<Rightarrow> No_drain),
        wt_backoff := min (wt_backoff w * 2) WATCH_RETRY_MAX_MS\<rparr>)"
| "watch_step Untracked w = w\<lparr>wt_aborted := True, wt_running := False, wt_health := (True, False)\<rparr>"

definition tracked :: "bool list \<Rightarrow> watcher" where
  "tracked log = \<lparr>wt_log = log, wt_cursor = None, wt_backoff = WATCH_RETRY_MIN_MS, wt_running = False, wt_aborted = False, wt_dirty = False,
     wt_canonical = No_pass, wt_drain = No_drain, wt_intake_pending = False, wt_health = (True, False), wt_first = 0, wt_handled = {},
     wt_reconciled = False\<rparr>"

definition watch_run :: "bool list \<Rightarrow> watch_event list \<Rightarrow> watcher" where
  "watch_run log es = fold watch_step es (tracked log)"

subsection \<open>The invariant\<close>

text \<open>What the cursor has passed was announced; a page being handled continues it; pages are read only after a pass;
  and health is reported without reserve only when nothing is known to be outstanding.\<close>

definition mine :: "watcher \<Rightarrow> nat \<Rightarrow> bool" where
  "mine w i \<longleftrightarrow> 0 < i \<and> i \<le> length (wt_log w) \<and> wt_log w ! (i - 1)"

definition passed :: "watcher \<Rightarrow> bool" where
  "passed w \<longleftrightarrow> (case wt_cursor w of
       None \<Rightarrow> True
     | Some c \<Rightarrow> c \<le> length (wt_log w) \<and> (\<forall>i. wt_first w < i \<longrightarrow> i \<le> c \<longrightarrow> mine w i \<longrightarrow> i \<in> wt_handled w))"

definition paging :: "watcher \<Rightarrow> bool" where
  "paging w \<longleftrightarrow> (case wt_drain w of
       No_drain \<Rightarrow> True
     | Reading_page \<Rightarrow> wt_cursor w \<noteq> None \<and> (wt_running w \<longrightarrow> wt_reconciled w)
     | Handling es m \<Rightarrow> (wt_running w \<longrightarrow> wt_reconciled w \<and> wt_intake_pending w) \<and> m \<le> length (wt_log w)
         \<and> (case wt_cursor w of None \<Rightarrow> False
              | Some c \<Rightarrow> \<forall>i. c < i \<longrightarrow> i \<le> m \<longrightarrow> mine w i \<longrightarrow> i \<in> wt_handled w \<or> i \<in> set es))"

definition certified :: "watcher \<Rightarrow> bool" where
  "certified w \<longleftrightarrow> (wt_running w \<and> wt_health w = (True, False) \<longrightarrow> \<not> wt_dirty w \<and> wt_canonical w = No_pass \<and> \<not> wt_intake_pending w \<and> wt_reconciled w)
     \<and> (wt_running w \<and> wt_canonical w = No_pass \<longrightarrow> \<not> wt_dirty w)
     \<and> (wt_canonical w = Announcing \<longrightarrow> wt_cursor w \<noteq> None) \<and> (wt_canonical w = Reading_tip \<longrightarrow> wt_cursor w = None)"

lemmas watch_defs = publish_health_def canonical_pass_def scheduleCanonical_def attempt_fails_def commit_page_def Let_def

lemma mine_append: "i \<le> length (wt_log w) \<Longrightarrow> mine (w\<lparr>wt_log := wt_log w @ [m]\<rparr>) i = mine w i"
  by (auto simp: mine_def nth_append)

lemma mine_same: "mine (w\<lparr>wt_cursor := c, wt_backoff := b, wt_drain := d\<rparr>) = mine w"
  by (simp add: mine_def fun_eq_iff)

lemma mine_listed: "m \<le> length (wt_log w) \<Longrightarrow> i \<in> set (events_of c m w) \<longleftrightarrow> c < i \<and> i \<le> m \<and> mine w i"
  by (auto simp: events_of_def mine_def)

text \<open>The canonical passes leave the cursor, the pages and the history alone.\<close>

lemma pass_keeps:
  "wt_log (scheduleCanonical w) = wt_log w" "wt_cursor (scheduleCanonical w) = wt_cursor w" "wt_first (scheduleCanonical w) = wt_first w"
  "wt_handled (scheduleCanonical w) = wt_handled w" "wt_drain (scheduleCanonical w) = wt_drain w"
  "wt_running (scheduleCanonical w) = wt_running w" "wt_reconciled (scheduleCanonical w) = wt_reconciled w"
  "wt_intake_pending (scheduleCanonical w) = wt_intake_pending w" "wt_backoff (scheduleCanonical w) = wt_backoff w"
  "wt_log (canonical_pass w) = wt_log w" "wt_cursor (canonical_pass w) = wt_cursor w" "wt_first (canonical_pass w) = wt_first w"
  "wt_handled (canonical_pass w) = wt_handled w" "wt_drain (canonical_pass w) = wt_drain w"
  "wt_running (canonical_pass w) = wt_running w" "wt_reconciled (canonical_pass w) = wt_reconciled w"
  "wt_intake_pending (canonical_pass w) = wt_intake_pending w" "wt_backoff (canonical_pass w) = wt_backoff w"
  "wt_log (attempt_fails w) = wt_log w" "wt_cursor (attempt_fails w) = wt_cursor w" "wt_first (attempt_fails w) = wt_first w"
  "wt_handled (attempt_fails w) = wt_handled w" "wt_drain (attempt_fails w) = wt_drain w"
  "wt_backoff (attempt_fails w) = wt_backoff w" "wt_running (attempt_fails w) = False"
  "wt_log (publish_health w) = wt_log w" "wt_cursor (publish_health w) = wt_cursor w" "wt_first (publish_health w) = wt_first w"
  "wt_handled (publish_health w) = wt_handled w" "wt_drain (publish_health w) = wt_drain w"
  "wt_backoff (publish_health w) = wt_backoff w" "wt_running (publish_health w) = wt_running w"
  "wt_reconciled (publish_health w) = wt_reconciled w" "wt_intake_pending (publish_health w) = wt_intake_pending w"
  by (simp_all add: watch_defs)

lemma passed_cong: "wt_log w' = wt_log w \<Longrightarrow> wt_cursor w' = wt_cursor w \<Longrightarrow> wt_first w' = wt_first w \<Longrightarrow>
    wt_handled w \<subseteq> wt_handled w' \<Longrightarrow> passed w \<Longrightarrow> passed w'"
  by (auto simp: passed_def mine_def split: option.splits)

lemma passed_step: "passed w \<Longrightarrow> paging w \<Longrightarrow> passed (watch_step e w)"
proof (cases e)
  case (Notified m)
  assume "passed w"
  then show ?thesis unfolding Notified by (auto simp: passed_def mine_append split: option.splits)
next
  case (Tip_read ok)
  assume p: "passed w"
  then have "passed (attempt_fails (w\<lparr>wt_canonical := No_pass\<rparr>))" "passed (w\<lparr>wt_canonical := No_pass\<rparr>)"
    by (auto intro!: passed_cong [OF _ _ _ _ p] simp: pass_keeps)
  moreover have "passed (w\<lparr>wt_cursor := Some (length (wt_log w)), wt_first := length (wt_log w), wt_canonical := Announcing\<rparr>)"
    by (simp add: passed_def)
  ultimately show ?thesis using p unfolding Tip_read by simp
next
  case (Page_read answer)
  assume p: "passed w"
  show ?thesis
  proof (cases "wt_drain w = Reading_page \<and> wt_cursor w \<noteq> None")
    case True
    then obtain c where c: "wt_drain w = Reading_page" "wt_cursor w = Some c" by auto
    show ?thesis
    proof (cases answer)
      case None
      then show ?thesis using p c unfolding Page_read by (auto intro!: passed_cong [OF _ _ _ _ p] simp: pass_keeps)
    next
      case (Some m)
      have "passed (commit_page m w)" if "\<not> m < c" "m \<le> length (wt_log w)" "events_of c m w = []"
      proof -
        have "i \<le> c" if "i \<le> m" "mine w i" for i
          using mine_listed [OF \<open>m \<le> length (wt_log w)\<close>, of i c] that \<open>events_of c m w = []\<close> by auto
        then show ?thesis using p c that by (auto simp: passed_def commit_page_def mine_same)
      qed
      then show ?thesis using c unfolding Page_read
        by (auto intro!: passed_cong [OF _ _ _ _ p] simp: pass_keeps Some)
    qed
  qed (use p Page_read in \<open>auto split: drain.splits option.splits\<close>)
next
  case (Event_announced ok)
  assume p: "passed w" and g: "paging w"
  show ?thesis
  proof (cases "wt_drain w")
    case (Handling es m)
    show ?thesis
    proof (cases es)
      case Nil
      then show ?thesis using p Handling unfolding Event_announced by simp
    next
      case (Cons i js)
      have handled: "passed (w\<lparr>wt_handled := insert i (wt_handled w), wt_drain := d\<rparr>)" for d by (rule passed_cong [OF _ _ _ _ p]) auto
      have "passed (commit_page m (publish_health (w\<lparr>wt_handled := insert i (wt_handled w), wt_intake_pending := False\<rparr>)))" if nil: "js = []"
      proof -
        obtain c where c: "wt_cursor w = Some c" "m \<le> length (wt_log w)"
            "\<forall>j. c < j \<longrightarrow> j \<le> m \<longrightarrow> mine w j \<longrightarrow> j \<in> wt_handled w \<or> j = i"
          using g Handling Cons nil by (auto simp: paging_def split: option.splits)
        have "j \<in> wt_handled w \<or> j = i" if "wt_first w < j" "j \<le> m" "mine w j" for j
          using p c that by (cases "j \<le> c") (auto simp: passed_def)
        then show ?thesis using c(2) by (auto simp: passed_def commit_page_def pass_keeps mine_def)
      qed
      then show ?thesis using handled p Handling Cons unfolding Event_announced
        by (auto intro!: passed_cong [OF _ _ _ _ p] simp: pass_keeps Let_def)
    qed
  qed (use p Event_announced in simp_all)
next
  case (Frame changed)
  assume p: "passed w"
  then show ?thesis unfolding Frame by (auto intro!: passed_cong [OF _ _ _ _ p] simp: pass_keeps)
next
  case (Pass_announced ok)
  assume p: "passed w"
  then show ?thesis unfolding Pass_announced by (auto intro!: passed_cong [OF _ _ _ _ p] simp: pass_keeps)
next
  case Observation_ends
  assume p: "passed w"
  then show ?thesis unfolding Observation_ends by (auto intro!: passed_cong [OF _ _ _ _ p] simp: pass_keeps)
next
  case Attempt_begins
  assume p: "passed w"
  then show ?thesis unfolding Attempt_begins by (auto intro!: passed_cong [OF _ _ _ _ p])
next
  case Settles
  assume p: "passed w"
  then show ?thesis unfolding Settles by (auto intro!: passed_cong [OF _ _ _ _ p])
next
  case Untracked
  assume p: "passed w"
  then show ?thesis unfolding Untracked by (auto intro!: passed_cong [OF _ _ _ _ p])
qed

lemma paging_cong: "wt_log w' = wt_log w \<Longrightarrow> wt_cursor w' = wt_cursor w \<Longrightarrow> wt_handled w \<subseteq> wt_handled w' \<Longrightarrow> wt_drain w' = wt_drain w \<Longrightarrow>
    (wt_running w' \<Longrightarrow> wt_running w \<and> (wt_reconciled w \<longrightarrow> wt_reconciled w') \<and> (wt_intake_pending w \<longrightarrow> wt_intake_pending w')) \<Longrightarrow>
    paging w \<Longrightarrow> paging w'"
  by (auto simp: paging_def mine_def split: option.splits drain.splits)

lemma paging_rest: "wt_drain w = No_drain \<Longrightarrow> paging w"
  by (simp add: paging_def)

lemma paging_step: "passed w \<Longrightarrow> paging w \<Longrightarrow> certified w \<Longrightarrow> paging (watch_step e w)"
proof (cases e)
  case (Notified m)
  assume "paging w"
  then show ?thesis unfolding Notified by (auto simp: paging_def mine_append split: option.splits drain.splits)
next
  case (Tip_read ok)
  assume p: "paging w" and c: "certified w"
  show ?thesis
  proof (cases "wt_canonical w = Reading_tip")
    case True
    then have "wt_cursor w = None" using c by (simp add: certified_def)
    then have "wt_drain w = No_drain" using p by (auto simp: paging_def split: drain.splits)
    then show ?thesis unfolding Tip_read by (auto intro: paging_rest simp: pass_keeps)
  qed (use p Tip_read in simp)
next
  case (Page_read answer)
  assume p: "paging w"
  show ?thesis
  proof (cases "wt_drain w = Reading_page \<and> wt_cursor w \<noteq> None")
    case True
    then obtain c where c: "wt_drain w = Reading_page" "wt_cursor w = Some c" by auto
    show ?thesis
    proof (cases answer)
      case None
      then show ?thesis using c unfolding Page_read by (auto intro: paging_rest simp: pass_keeps)
    next
      case (Some m)
      have "paging (publish_health (w\<lparr>wt_intake_pending := True, wt_drain := Handling (events_of c m w) m\<rparr>))"
        if "m \<le> length (wt_log w)"
        using p c that mine_listed [OF that] by (auto simp: paging_def pass_keeps mine_def)
      moreover have "paging (commit_page m w)" using p c by (auto simp: paging_def commit_page_def)
      ultimately show ?thesis using p c unfolding Page_read by (simp add: Some)
    qed
  qed (use p Page_read in \<open>auto split: drain.splits option.splits\<close>)
next
  case (Event_announced ok)
  assume p: "paging w"
  show ?thesis
  proof (cases "wt_drain w")
    case (Handling es m)
    show ?thesis
    proof (cases es)
      case Nil
      then show ?thesis using p Handling unfolding Event_announced by simp
    next
      case (Cons i js)
      have "paging (w\<lparr>wt_handled := insert i (wt_handled w), wt_drain := Handling js m\<rparr>)"
        using p Handling Cons by (auto simp: paging_def mine_def split: option.splits)
      moreover have "paging (commit_page m (publish_health (w\<lparr>wt_handled := insert i (wt_handled w), wt_intake_pending := False\<rparr>)))"
        using p Handling Cons by (auto simp: paging_def commit_page_def pass_keeps)
      ultimately show ?thesis using p Handling Cons unfolding Event_announced
        by (auto intro: paging_rest simp: pass_keeps Let_def)
    qed
  qed (use p Event_announced in simp_all)
next
  case (Frame changed)
  assume p: "paging w"
  then show ?thesis unfolding Frame by (auto intro!: paging_cong [OF _ _ _ _ _ p] simp: pass_keeps)
next
  case (Pass_announced ok)
  assume p: "paging w" and c: "certified w"
  show ?thesis
  proof (cases "wt_canonical w = Announcing")
    case True
    then have k: "wt_cursor w \<noteq> None" using c by (simp add: certified_def)
    then have "paging (w\<lparr>wt_reconciled := True, wt_drain := (if wt_drain w = No_drain then Reading_page else wt_drain w)\<rparr>)"
      using p by (auto simp: paging_def mine_def split: option.splits drain.splits)
    then have "paging (canonical_pass (w\<lparr>wt_reconciled := True, wt_drain := (if wt_drain w = No_drain then Reading_page else wt_drain w)\<rparr>))"
      by (rule paging_cong [rotated -1]) (simp_all add: pass_keeps)
    then show ?thesis using p unfolding Pass_announced by (auto intro!: paging_cong [OF _ _ _ _ _ p] simp: pass_keeps)
  qed (use p Pass_announced in simp)
next
  case Observation_ends
  assume p: "paging w"
  then show ?thesis unfolding Observation_ends by (auto intro!: paging_cong [OF _ _ _ _ _ p] simp: pass_keeps)
next
  case Attempt_begins
  assume p: "paging w"
  then show ?thesis unfolding Attempt_begins by (auto intro: paging_rest)
next
  case Settles
  assume p: "paging w"
  then show ?thesis unfolding Settles by (auto simp: paging_def mine_def split: option.splits drain.splits)
next
  case Untracked
  assume p: "paging w"
  then show ?thesis unfolding Untracked by (auto intro!: paging_cong [OF _ _ _ _ _ p])
qed

lemma certified_rest:
  "\<not> wt_running w \<Longrightarrow> wt_canonical w = No_pass \<Longrightarrow> certified w"
  by (simp add: certified_def)

lemma certified_publish:
  assumes "wt_running w \<Longrightarrow> wt_canonical w = No_pass \<Longrightarrow> \<not> wt_dirty w \<and> wt_reconciled w"
    and "wt_canonical w = Announcing \<Longrightarrow> wt_cursor w \<noteq> None" and "wt_canonical w = Reading_tip \<Longrightarrow> wt_cursor w = None"
  shows "certified (publish_health w)"
  using assms by (auto simp: certified_def publish_health_def)

lemma certified_pass:
  assumes "wt_reconciled w \<or> wt_dirty w" and "\<not> wt_dirty w \<or> wt_health w \<noteq> (True, False)"
  shows "certified (canonical_pass w)"
proof (cases "wt_dirty w \<and> wt_running w")
  case True
  then show ?thesis using assms(2) by (auto simp: canonical_pass_def certified_def)
next
  case False
  then show ?thesis using assms(1) unfolding canonical_pass_def by (auto intro!: certified_publish)
qed

lemma certified_schedule: "certified w \<Longrightarrow> certified (scheduleCanonical w)"
proof (cases "wt_running w \<and> wt_canonical w = No_pass")
  case True
  then have "scheduleCanonical w = canonical_pass (publish_health (w\<lparr>wt_dirty := True\<rparr>))"
    by (simp add: scheduleCanonical_def publish_health_def Let_def)
  moreover have "certified (canonical_pass (publish_health (w\<lparr>wt_dirty := True\<rparr>)))"
    using True by (intro certified_pass) (simp_all add: publish_health_def)
  ultimately show ?thesis by simp
next
  case False
  assume "certified w"
  with False show ?thesis by (auto simp: scheduleCanonical_def publish_health_def Let_def certified_def)
qed

lemma certified_fails: "certified w \<Longrightarrow> certified (attempt_fails w)"
  by (simp add: certified_def attempt_fails_def)

lemma certified_update [simp]:
  "certified (w\<lparr>wt_drain := d\<rparr>) = certified w" "certified (w\<lparr>wt_handled := h, wt_drain := d\<rparr>) = certified w"
  "certified (w\<lparr>wt_handled := h\<rparr>) = certified w"
  by (simp_all add: certified_def)

lemma certified_commit: "certified w \<Longrightarrow> wt_cursor w \<noteq> None \<Longrightarrow> certified (commit_page m w)"
  by (simp add: certified_def commit_page_def)

lemma certified_intake:
  assumes "certified w" and "wt_running w \<Longrightarrow> wt_reconciled w"
  shows "certified (publish_health (w\<lparr>wt_intake_pending := p, wt_drain := d\<rparr>))"
    and "certified (publish_health (w\<lparr>wt_handled := h, wt_intake_pending := p\<rparr>))"
proof -
  have c: "wt_running w \<Longrightarrow> wt_canonical w = No_pass \<Longrightarrow> \<not> wt_dirty w \<and> wt_reconciled w"
      "wt_canonical w = Announcing \<Longrightarrow> wt_cursor w \<noteq> None" "wt_canonical w = Reading_tip \<Longrightarrow> wt_cursor w = None"
    using assms by (simp_all add: certified_def)
  show "certified (publish_health (w\<lparr>wt_intake_pending := p, wt_drain := d\<rparr>))"
    by (rule certified_publish) (use c in simp_all)
  show "certified (publish_health (w\<lparr>wt_handled := h, wt_intake_pending := p\<rparr>))"
    by (rule certified_publish) (use c in simp_all)
qed

lemma certified_page:
  assumes p: "paging w" and c: "certified w"
  shows "certified (watch_step (Page_read answer) w)"
proof (cases "wt_drain w = Reading_page \<and> wt_cursor w \<noteq> None")
  case True
  then obtain k where k: "wt_drain w = Reading_page" "wt_cursor w = Some k" by auto
  then have "wt_running w \<Longrightarrow> wt_reconciled w" using p by (simp add: paging_def)
  then show ?thesis using k c certified_intake(1) [OF c] certified_commit [OF c] certified_fails [of "w\<lparr>wt_drain := No_drain\<rparr>"]
    by (cases answer) simp_all
qed (use c in \<open>auto split: drain.splits option.splits\<close>)

lemma certified_event:
  assumes p: "paging w" and c: "certified w"
  shows "certified (watch_step (Event_announced ok) w)"
proof (cases "wt_drain w")
  case (Handling es m)
  then have r: "wt_running w \<Longrightarrow> wt_reconciled w" and k: "wt_cursor w \<noteq> None"
    using p by (auto simp: paging_def split: option.splits)
  show ?thesis
  proof (cases es)
    case (Cons i js)
    have "certified (commit_page m (publish_health (w\<lparr>wt_handled := insert i (wt_handled w), wt_intake_pending := False\<rparr>)))"
      using certified_intake(2) [OF c r] k by (intro certified_commit) (simp_all add: pass_keeps)
    then show ?thesis using Handling Cons c certified_fails [of "w\<lparr>wt_drain := No_drain\<rparr>"] by (simp add: Let_def)
  qed (use Handling c in simp)
qed (use c in simp_all)

lemma certified_step: "paging w \<Longrightarrow> certified w \<Longrightarrow> certified (watch_step e w)"
proof (cases e)
  case (Tip_read ok)
  assume c: "certified w"
  then have "certified (attempt_fails (w\<lparr>wt_canonical := No_pass\<rparr>))" by (simp add: certified_def attempt_fails_def)
  then show ?thesis using c unfolding Tip_read by (auto simp: certified_def)
next
  case (Page_read answer)
  assume "paging w" "certified w"
  then show ?thesis unfolding Page_read by (rule certified_page)
next
  case (Event_announced ok)
  assume "paging w" "certified w"
  then show ?thesis unfolding Event_announced by (rule certified_event)
next
  case (Frame changed)
  assume "certified w"
  then show ?thesis unfolding Frame by (simp add: certified_schedule)
next
  case (Pass_announced ok)
  assume c: "certified w"
  show ?thesis
  proof (cases "wt_canonical w = Announcing \<and> wt_running w")
    case True
    have "certified (attempt_fails (w\<lparr>wt_canonical := No_pass\<rparr>))" using c by (simp add: certified_def attempt_fails_def)
    moreover have "wt_health w \<noteq> (True, False)" using c True by (auto simp: certified_def)
    then have "certified (canonical_pass (w\<lparr>wt_reconciled := True, wt_drain := d\<rparr>))" for d
      by (intro certified_pass) simp_all
    ultimately show ?thesis using c True unfolding Pass_announced by simp
  qed (use c Pass_announced in \<open>auto simp: certified_def\<close>)
next
  case Observation_ends
  assume "certified w"
  then show ?thesis unfolding Observation_ends by (simp add: certified_fails)
next
  case Attempt_begins
  assume "certified w"
  then show ?thesis unfolding Attempt_begins by (auto simp: certified_def)
qed (auto simp: certified_def)

lemma backoff_step:
  "WATCH_RETRY_MIN_MS \<le> wt_backoff w \<and> wt_backoff w \<le> WATCH_RETRY_MAX_MS \<Longrightarrow>
     WATCH_RETRY_MIN_MS \<le> wt_backoff (watch_step e w) \<and> wt_backoff (watch_step e w) \<le> WATCH_RETRY_MAX_MS"
  by (cases e) (auto simp: pass_keeps commit_page_def Let_def WATCH_RETRY_MIN_MS_def WATCH_RETRY_MAX_MS_def
      split: drain.splits option.splits list.splits)

definition watch_ok :: "watcher \<Rightarrow> bool" where
  "watch_ok w \<longleftrightarrow> passed w \<and> paging w \<and> certified w \<and> WATCH_RETRY_MIN_MS \<le> wt_backoff w \<and> wt_backoff w \<le> WATCH_RETRY_MAX_MS"

lemma watch_run_ok: "watch_ok (watch_run log es)"
proof -
  have "watch_ok (fold watch_step es w)" if "watch_ok w" for w
    using that by (induction es arbitrary: w) (simp_all add: watch_ok_def passed_step paging_step certified_step backoff_step)
  moreover have "watch_ok (tracked log)"
    by (simp add: watch_ok_def tracked_def passed_def paging_def certified_def WATCH_RETRY_MIN_MS_def WATCH_RETRY_MAX_MS_def)
  ultimately show ?thesis unfolding watch_run_def by blast
qed

subsection \<open>No notification is skipped\<close>

text \<open>C36: however attempts fail and begin again, the cursor of a watcher never passes a notification of its identity that
  came after the first tip and was not announced to every listener with success; pages are read only after a
  canonical pass of the same attempt, which covers what came before; the identity is reported healthy without
  reserve only when every change seen has been followed by such a pass and no page is open; and the delay
  between attempts stays within its bounds.\<close>

theorem watcher_skips_nothing:
  assumes "w = watch_run log es"
  shows "(\<forall>c i. wt_cursor w = Some c \<and> wt_first w < i \<and> i \<le> c \<and> mine w i \<longrightarrow> i \<in> wt_handled w)
    \<and> (wt_running w \<and> wt_drain w \<noteq> No_drain \<longrightarrow> wt_reconciled w)
    \<and> (wt_running w \<and> wt_health w = (True, False) \<longrightarrow>
         \<not> wt_dirty w \<and> wt_canonical w = No_pass \<and> \<not> wt_intake_pending w \<and> wt_reconciled w)
    \<and> 500 \<le> wt_backoff w \<and> wt_backoff w \<le> 30000"
proof -
  have ok: "passed w" "paging w" "certified w" "WATCH_RETRY_MIN_MS \<le> wt_backoff w" "wt_backoff w \<le> WATCH_RETRY_MAX_MS"
    using watch_run_ok [of log es] assms by (simp_all add: watch_ok_def)
  have "\<forall>c i. wt_cursor w = Some c \<and> wt_first w < i \<and> i \<le> c \<and> mine w i \<longrightarrow> i \<in> wt_handled w"
    using ok(1) by (auto simp: passed_def)
  moreover have "wt_running w \<and> wt_drain w \<noteq> No_drain \<longrightarrow> wt_reconciled w"
    using ok(2) by (cases "wt_drain w") (auto simp: paging_def)
  moreover have "wt_running w \<and> wt_health w = (True, False) \<longrightarrow>
      \<not> wt_dirty w \<and> wt_canonical w = No_pass \<and> \<not> wt_intake_pending w \<and> wt_reconciled w"
    using ok(3) unfolding certified_def by blast
  ultimately show ?thesis using ok(4,5) by (simp add: WATCH_RETRY_MIN_MS_def WATCH_RETRY_MAX_MS_def)
qed

text \<open>The announcement of the second of two events fails; the next attempt reads both again.\<close>

definition failing_watch :: "watch_event list" where
  "failing_watch = [Attempt_begins, Frame True, Tip_read True, Pass_announced True, Notified True, Notified False, Notified True,
     Page_read (Some 3), Event_announced True, Event_announced False, Settles, Attempt_begins, Frame True, Pass_announced True,
     Page_read (Some 3), Event_announced True, Event_announced True]"

lemma watcher_witness: "3 \<in> wt_handled (watch_run [] failing_watch)"
proof -
  have "wt_cursor (watch_run [] failing_watch) = Some 3 \<and> wt_first (watch_run [] failing_watch) = 0
      \<and> mine (watch_run [] failing_watch) 3"
    by (simp add: watch_run_def failing_watch_def tracked_def watch_defs events_of_def mine_def upt_rec)
  then show ?thesis using watcher_skips_nothing [OF refl, of "[]" failing_watch] by auto
qed

end
