(* ===== verification/Outputs.thy ===== *)
theory Outputs
  imports Views Scalars "HOL-Library.AList" "HOL-Library.Sublist"
begin

section \<open>The output of a resource connection and the fences of its views\<close>

text \<open>
  \<open>ResourceOutput\<close> and the registration of views of \<open>src/resource-views.ts\<close>. The output is one writer with a
  record being written, a bounded queue behind it, and back-pressure; its steps are the sends of its users and the
  single writes of its pump. A registration is fenced by the epoch of its view, also against a removal that
  overtakes it. Frames are abstract here (theory \<open>Frames\<close> makes them); descriptors come typed.
\<close>

subsection \<open>The writer\<close>

record 'f pending_output =
  po_bytes :: nat
  po_frames :: "'f list"

text \<open>\<open>ou_left\<close> are the frames of the active record yet to be written. \<open>ou_admitted\<close>, \<open>ou_resolved\<close> and
  \<open>ou_rejected\<close> are history: what was taken, and how it was answered.\<close>

record 'f resource_output =
  ou_active :: "'f pending_output option"
  ou_left :: "'f list"
  ou_pending :: "'f pending_output list"
  ou_pending_bytes :: nat
  ou_closed :: bool
  ou_draining :: bool
  ou_written :: "'f list"
  ou_admitted :: "'f pending_output list"
  ou_resolved :: "'f pending_output list"
  ou_rejected :: "'f pending_output list"

definition close_output :: "'f resource_output \<Rightarrow> 'f resource_output" where
  "close_output u =
     (if ou_closed u then u
      else u\<lparr>ou_closed := True, ou_draining := False,
        ou_rejected := (case ou_active u of None \<Rightarrow> [] | Some a \<Rightarrow> [a]) @ ou_pending u, ou_pending := [], ou_pending_bytes := 0\<rparr>)"

definition send_output :: "'f pending_output \<Rightarrow> 'f resource_output \<Rightarrow> 'f resource_output" where
  "send_output item u =
     (if ou_closed u then u
      else if po_bytes item > RESOURCE_ASSEMBLY_BYTES then close_output u
      else if ou_active u \<noteq> None \<and> ou_pending_bytes u + po_bytes item > RESOURCE_PENDING_BYTES then close_output u
      else (let u1 = u\<lparr>ou_admitted := ou_admitted u @ [item]\<rparr> in
        if ou_active u1 = None then u1\<lparr>ou_active := Some item, ou_left := po_frames item\<rparr>
        else u1\<lparr>ou_pending := ou_pending u1 @ [item], ou_pending_bytes := ou_pending_bytes u1 + po_bytes item\<rparr>))"

text \<open>One write of the pump, or the end of a record.\<close>

definition pump_output :: "bool \<Rightarrow> 'f resource_output \<Rightarrow> 'f resource_output" where
  "pump_output writable u =
     (if ou_closed u \<or> ou_draining u then u
      else (case ou_active u of
          None \<Rightarrow> u
        | Some item \<Rightarrow> (case ou_left u of
              f # fs \<Rightarrow> u\<lparr>ou_written := ou_written u @ [f], ou_left := fs, ou_draining := \<not> writable\<rparr>
            | [] \<Rightarrow>
                let u1 = u\<lparr>ou_resolved := ou_resolved u @ [item]\<rparr> in
                case ou_pending u1 of
                  [] \<Rightarrow> u1\<lparr>ou_active := None\<rparr>
                | next # rest \<Rightarrow> u1\<lparr>ou_active := Some next, ou_left := po_frames next, ou_pending := rest,
                    ou_pending_bytes := ou_pending_bytes u1 - po_bytes next\<rparr>)))"

datatype 'f output_event = Sends "'f pending_output" | Writes bool | Drains | Closes

fun output_step :: "'f output_event \<Rightarrow> 'f resource_output \<Rightarrow> 'f resource_output" where
  "output_step (Sends item) u = send_output item u"
| "output_step (Writes writable) u = pump_output writable u"
| "output_step Drains u = u\<lparr>ou_draining := False\<rparr>"
| "output_step Closes u = close_output u"

definition output_run :: "'f output_event list \<Rightarrow> 'f resource_output" where
  "output_run es = fold output_step es
     \<lparr>ou_active = None, ou_left = [], ou_pending = [], ou_pending_bytes = 0, ou_closed = False, ou_draining = False, ou_written = [],
       ou_admitted = [], ou_resolved = [], ou_rejected = []\<rparr>"

subsection \<open>Registrations\<close>

record descriptor =
  ds_viewId :: string
  ds_resource :: string
  ds_roomId :: "string option"

definition view_id_ok :: "string \<Rightarrow> bool" where
  "view_id_ok v \<longleftrightarrow> v \<noteq> [] \<and> length v \<le> 128
     \<and> list_all (\<lambda>c. c \<in> set ''ABCDEFGHIJKLMNOPQRSTUVWXYZabcdefghijklmnopqrstuvwxyz0123456789_-'') v"

definition canonicalResourceDescriptor :: "descriptor \<Rightarrow> descriptor option" where
  "canonicalResourceDescriptor d =
     (if view_id_ok (ds_viewId d) \<and> ds_resource d \<in> {''rooms'', ''room''}
        \<and> (ds_resource d = ''room'' \<longrightarrow> (case ds_roomId d of None \<Rightarrow> False | Some r \<Rightarrow> length r = 26 \<and> list_all crockford_char r))
        \<and> (ds_resource d = ''rooms'' \<longrightarrow> ds_roomId d = None)
      then Some d else None)"

text \<open>The epochs of the live views, and those each view id was ever fenced to. A refusal is its HTTP status.\<close>

record registrations =
  rg_views :: "(string \<times> nat) list"
  rg_epochs :: "(string \<times> nat) list"

definition MAX_RESOURCE_VIEW_IDENTITIES :: nat where "MAX_RESOURCE_VIEW_IDENTITIES = 256"

definition fence :: "string \<Rightarrow> registrations \<Rightarrow> nat" where
  "fence v r = (case map_of (rg_epochs r) v of None \<Rightarrow> 0 | Some e \<Rightarrow> e)"

definition register :: "bool \<Rightarrow> string \<Rightarrow> nat \<Rightarrow> descriptor \<Rightarrow> registrations \<Rightarrow> nat + registrations" where
  "register healthy v epoch input r =
     (case canonicalResourceDescriptor input of
        None \<Rightarrow> Inl 400
      | Some d \<Rightarrow>
          if ds_viewId d \<noteq> v \<or> int epoch > max_safe \<or> epoch < 1 then Inl 400
          else if fence v r \<ge> epoch then Inl 409
          else if \<not> healthy then Inl 503
          else if map_of (rg_views r) v = None \<and> length (rg_views r) \<ge> 64 then Inl 409
          else if map_of (rg_epochs r) v = None \<and> length (rg_epochs r) \<ge> MAX_RESOURCE_VIEW_IDENTITIES then Inl 409
          else Inr (r\<lparr>rg_views := AList.update v epoch (rg_views r), rg_epochs := AList.update v epoch (rg_epochs r)\<rparr>))"

definition remove_view :: "string \<Rightarrow> nat \<Rightarrow> registrations \<Rightarrow> nat + registrations" where
  "remove_view v epoch r =
     (if \<not> view_id_ok v \<or> int epoch > max_safe \<or> epoch < 1 then Inl 400
      else if map_of (rg_epochs r) v = None \<and> length (rg_epochs r) \<ge> MAX_RESOURCE_VIEW_IDENTITIES then Inl 409
      else (let r1 = r\<lparr>rg_epochs := AList.update v (max (fence v r) epoch) (rg_epochs r)\<rparr> in
        case map_of (rg_views r) v of
          None \<Rightarrow> Inr r1
        | Some e \<Rightarrow> Inr (if e \<le> epoch then r1\<lparr>rg_views := AList.delete v (rg_views r1)\<rparr> else r1)))"

datatype view_call = Registers bool string nat descriptor | Removes string nat

text \<open>What the accepted requests leave, and which view and epoch they named.\<close>

fun view_request :: "view_call \<Rightarrow> registrations \<times> (bool \<times> string \<times> nat) list \<Rightarrow> registrations \<times> (bool \<times> string \<times> nat) list" where
  "view_request (Registers healthy v epoch input) (r, accepted) =
     (case register healthy v epoch input r of Inl _ \<Rightarrow> (r, accepted) | Inr r1 \<Rightarrow> (r1, accepted @ [(True, v, epoch)]))"
| "view_request (Removes v epoch) (r, accepted) =
     (case remove_view v epoch r of Inl _ \<Rightarrow> (r, accepted) | Inr r1 \<Rightarrow> (r1, accepted @ [(False, v, epoch)]))"

definition view_requests :: "view_call list \<Rightarrow> registrations \<times> (bool \<times> string \<times> nat) list" where
  "view_requests rs = fold view_request rs (\<lparr>rg_views = [], rg_epochs = []\<rparr>, [])"

subsection \<open>Order and bounds of the writer\<close>

definition active_list :: "'f resource_output \<Rightarrow> 'f pending_output list" where
  "active_list u = (case ou_active u of None \<Rightarrow> [] | Some a \<Rightarrow> [a])"

abbreviation frames_of :: "'f pending_output list \<Rightarrow> 'f list" where
  "frames_of items \<equiv> concat (map po_frames items)"

definition open_ok :: "'f resource_output \<Rightarrow> bool" where
  "open_ok u \<longleftrightarrow> ou_rejected u = [] \<and> (ou_active u = None \<longrightarrow> ou_pending u = [] \<and> ou_left u = [])
     \<and> ou_admitted u = ou_resolved u @ active_list u @ ou_pending u
     \<and> ou_written u @ ou_left u = frames_of (ou_resolved u @ active_list u)
     \<and> prefix (frames_of (ou_resolved u)) (ou_written u)
     \<and> ou_pending_bytes u = sum_list (map po_bytes (ou_pending u)) \<and> ou_pending_bytes u \<le> RESOURCE_PENDING_BYTES
     \<and> (\<forall>a\<in>set (active_list u). po_bytes a \<le> RESOURCE_ASSEMBLY_BYTES)"

definition closed_ok :: "'f resource_output \<Rightarrow> bool" where
  "closed_ok u \<longleftrightarrow> ou_admitted u = ou_resolved u @ ou_rejected u \<and> ou_pending u = [] \<and> ou_pending_bytes u = 0
     \<and> prefix (frames_of (ou_resolved u)) (ou_written u) \<and> prefix (ou_written u) (frames_of (ou_admitted u))"

definition output_ok :: "'f resource_output \<Rightarrow> bool" where
  "output_ok u \<longleftrightarrow> (if ou_closed u then closed_ok u else open_ok u)"

lemma output_ok_close: "output_ok u \<Longrightarrow> output_ok (close_output u)"
proof (cases "ou_closed u")
  case False
  assume "output_ok u"
  with False have o: "open_ok u" by (simp add: output_ok_def)
  then have "prefix (ou_written u) (frames_of (ou_resolved u @ active_list u @ ou_pending u))"
    by (simp add: open_ok_def prefix_def) (metis append.assoc)
  then show ?thesis using o False
    by (simp add: output_ok_def close_output_def closed_ok_def open_ok_def active_list_def)
qed (simp add: close_output_def)

lemma output_ok_send: "output_ok u \<Longrightarrow> output_ok (send_output item u)"
proof -
  assume ok: "output_ok u"
  have "output_ok (send_output item u)" if "\<not> ou_closed u" "po_bytes item \<le> RESOURCE_ASSEMBLY_BYTES"
      "ou_active u = None \<or> ou_pending_bytes u + po_bytes item \<le> RESOURCE_PENDING_BYTES"
    using ok that by (auto simp: send_output_def output_ok_def open_ok_def active_list_def Let_def split: option.splits)
  then show ?thesis using ok output_ok_close [OF ok] by (auto simp: send_output_def not_less)
qed

lemma output_ok_pump: "output_ok u \<Longrightarrow> output_ok (pump_output writable u)"
proof (cases "ou_closed u \<or> ou_draining u")
  case False
  assume "output_ok u"
  with False have o: "open_ok u" by (simp add: output_ok_def)
  show ?thesis
  proof (cases "ou_active u")
    case (Some item)
    show ?thesis
    proof (cases "ou_left u")
      case Nil
      have "RESOURCE_PENDING_BYTES \<le> RESOURCE_ASSEMBLY_BYTES" by (simp add: RESOURCE_PENDING_BYTES_def RESOURCE_ASSEMBLY_BYTES_def)
      then show ?thesis using Nil o False Some
        by (auto simp: pump_output_def output_ok_def open_ok_def active_list_def Let_def split: list.splits)
    next
      case (Cons f fs)
      then show ?thesis using o False Some
        by (auto simp: pump_output_def output_ok_def open_ok_def active_list_def intro: prefix_prefix)
    qed
  qed (use o False in \<open>simp add: pump_output_def output_ok_def\<close>)
qed (auto simp: pump_output_def)

lemma output_run_ok:
  fixes es :: "'f output_event list"
  shows "output_ok (output_run es)"
proof -
  have step: "output_ok (output_step e u)" if "output_ok u" for e and u :: "'f resource_output"
  proof (cases e)
    case Drains
    then show ?thesis using that by (auto simp: output_ok_def open_ok_def closed_ok_def active_list_def)
  qed (use that in \<open>simp_all add: output_ok_send output_ok_pump output_ok_close\<close>)
  have "output_ok (fold output_step es u)" if "output_ok u" for u :: "'f resource_output"
    using that by (induction es arbitrary: u) (simp_all add: step)
  moreover have "output_ok (\<lparr>ou_active = None, ou_left = [], ou_pending = [], ou_pending_bytes = 0, ou_closed = False, ou_draining = False,
      ou_written = [], ou_admitted = [], ou_resolved = [], ou_rejected = []\<rparr> :: 'f resource_output)"
    by (simp add: output_ok_def open_ok_def active_list_def)
  ultimately show ?thesis unfolding output_run_def by blast
qed

text \<open>C37: the writer of a resource connection sends the records it takes whole and in order, without mixing their frames,
  and answers each once: what it has resolved is written, and what it has not is still held or, once it is closed,
  rejected. What it holds stays within the assembly budget for the record being written and the smaller
  budget for those waiting.\<close>

theorem output_in_order_and_bounded:
  fixes u :: "'f resource_output"
  assumes "u = output_run es"
  shows "prefix (ou_written u) (frames_of (ou_admitted u)) \<and> prefix (frames_of (ou_resolved u)) (ou_written u)
    \<and> ou_admitted u = ou_resolved u @ (if ou_closed u then ou_rejected u else active_list u @ ou_pending u)
    \<and> sum_list (map po_bytes (ou_pending u)) \<le> RESOURCE_PENDING_BYTES
    \<and> (\<not> ou_closed u \<longrightarrow> (\<forall>a\<in>set (active_list u). po_bytes a \<le> RESOURCE_ASSEMBLY_BYTES))"
proof -
  have ok: "output_ok u" using output_run_ok assms by simp
  show ?thesis
  proof (cases "ou_closed u")
    case True
    then show ?thesis using ok by (auto simp: output_ok_def closed_ok_def)
  next
    case False
    then have o: "open_ok u" using ok by (simp add: output_ok_def)
    have w: "ou_written u @ ou_left u = frames_of (ou_resolved u @ active_list u)" and adm: "ou_admitted u = ou_resolved u @ active_list u @ ou_pending u"
      using o unfolding open_ok_def by blast+
    have "frames_of (ou_admitted u) = frames_of (ou_resolved u @ active_list u) @ frames_of (ou_pending u)" by (simp add: adm)
    then have "frames_of (ou_admitted u) = ou_written u @ ou_left u @ frames_of (ou_pending u)" by (simp only: w [symmetric] append.assoc)
    then have "prefix (ou_written u) (frames_of (ou_admitted u))" by (rule prefixI)
    moreover have "prefix (frames_of (ou_resolved u)) (ou_written u)" "ou_admitted u = ou_resolved u @ active_list u @ ou_pending u"
        "sum_list (map po_bytes (ou_pending u)) \<le> RESOURCE_PENDING_BYTES" "\<forall>a\<in>set (active_list u). po_bytes a \<le> RESOURCE_ASSEMBLY_BYTES"
      using o unfolding open_ok_def by simp_all
    ultimately show ?thesis using False by simp
  qed
qed

subsection \<open>Epochs fence\<close>

definition later :: "bool \<times> string \<times> nat \<Rightarrow> bool \<times> string \<times> nat \<Rightarrow> bool" where
  "later a b \<longleftrightarrow> fst b \<and> fst (snd a) = fst (snd b) \<longrightarrow> snd (snd a) < snd (snd b)"

definition fenced :: "registrations \<times> (bool \<times> string \<times> nat) list \<Rightarrow> bool" where
  "fenced s \<longleftrightarrow>
     (\<forall>a\<in>set (snd s). snd (snd a) \<le> fence (fst (snd a)) (fst s)) \<and> sorted_wrt later (snd s)
     \<and> (\<forall>v e. map_of (rg_views (fst s)) v = Some e \<longrightarrow> fence v (fst s) = e)
     \<and> length (rg_views (fst s)) \<le> 64 \<and> length (rg_epochs (fst s)) \<le> 256"

lemma length_update: "length (AList.update k v xs) = (if map_of xs k = None then Suc (length xs) else length xs)"
  by (induction xs) auto

lemma length_delete: "length (AList.delete k xs) \<le> length xs"
  by (simp add: AList.delete_eq)

lemma fenced_register:
  assumes f: "fenced (r, accepted)" and ok: "register healthy v epoch input r = Inr r1"
  shows "fenced (r1, accepted @ [(True, v, epoch)])"
proof -
  have new: "fence v r < epoch" and r1: "r1 = r\<lparr>rg_views := AList.update v epoch (rg_views r), rg_epochs := AList.update v epoch (rg_epochs r)\<rparr>"
    and room: "map_of (rg_views r) v = None \<Longrightarrow> length (rg_views r) \<le> 63" "map_of (rg_epochs r) v = None \<Longrightarrow> length (rg_epochs r) \<le> 255"
    using ok by (auto simp: register_def MAX_RESOURCE_VIEW_IDENTITIES_def split: option.splits if_splits)
  have fence1: "fence x r1 = (if x = v then epoch else fence x r)" for x by (simp add: r1 fence_def update_conv')
  have old: "\<forall>a\<in>set accepted. snd (snd a) \<le> fence (fst (snd a)) r" and sorted: "sorted_wrt later accepted"
    using f by (simp_all add: fenced_def)
  have "snd (snd a) \<le> fence (fst (snd a)) r1" if "a \<in> set (accepted @ [(True, v, epoch)])" for a
    using old new that unfolding fence1 by fastforce
  moreover have "later a (True, v, epoch)" if "a \<in> set accepted" for a
    using old new that unfolding later_def by fastforce
  then have "sorted_wrt later (accepted @ [(True, v, epoch)])" using sorted by (simp add: sorted_wrt_append)
  moreover have "fence x r1 = e" if "map_of (rg_views r1) x = Some e" for x e
    using f that unfolding fence1 by (simp add: r1 update_conv' fenced_def split: if_splits)
  moreover have "length (rg_views r1) \<le> 64" "length (rg_epochs r1) \<le> 256"
    using f room by (simp_all add: r1 length_update fenced_def Suc_leI)
  ultimately show ?thesis by (simp add: fenced_def)
qed

lemma fenced_remove:
  assumes f: "fenced (r, accepted)" and ok: "remove_view v epoch r = Inr r1"
  shows "fenced (r1, accepted @ [(False, v, epoch)])"
proof -
  have room: "map_of (rg_epochs r) v = None \<Longrightarrow> length (rg_epochs r) \<le> 255"
    and epochs: "rg_epochs r1 = AList.update v (max (fence v r) epoch) (rg_epochs r)"
    and views: "rg_views r1 = rg_views r \<or> rg_views r1 = AList.delete v (rg_views r)"
    and kept: "map_of (rg_views r1) v = Some e \<Longrightarrow> map_of (rg_views r) v = Some e \<and> epoch < e" for e
    using ok by (auto simp: remove_view_def MAX_RESOURCE_VIEW_IDENTITIES_def Let_def delete_conv' split: option.splits if_splits)
  have fence1: "fence x r1 = (if x = v then max (fence v r) epoch else fence x r)" for x by (simp add: epochs fence_def update_conv')
  have old: "\<forall>a\<in>set accepted. snd (snd a) \<le> fence (fst (snd a)) r" and sorted: "sorted_wrt later accepted"
    and live: "\<And>x e. map_of (rg_views r) x = Some e \<Longrightarrow> fence x r = e"
    using f by (simp_all add: fenced_def)
  have "snd (snd a) \<le> fence (fst (snd a)) r1" if "a \<in> set (accepted @ [(False, v, epoch)])" for a
    using old that unfolding fence1 by fastforce
  moreover have "sorted_wrt later (accepted @ [(False, v, epoch)])" using sorted by (simp add: sorted_wrt_append later_def)
  moreover have "fence x r1 = e" if "map_of (rg_views r1) x = Some e" for x e
  proof (cases "x = v")
    case True
    then show ?thesis using live kept [of e] that unfolding fence1 by fastforce
  next
    case False
    then have "map_of (rg_views r) x = Some e" using that views by (auto simp: delete_conv')
    then show ?thesis using live False unfolding fence1 by simp
  qed
  moreover have "length (rg_views r1) \<le> 64" using f views length_delete [of v "rg_views r"] by (auto simp: fenced_def)
  moreover have "length (rg_epochs r1) \<le> 256" using f room by (simp add: epochs length_update fenced_def Suc_leI)
  ultimately show ?thesis by (simp add: fenced_def)
qed

lemma fenced_requests: "fenced (view_requests rs)"
proof -
  have step: "fenced (view_request q s)" if "fenced s" for q s
  proof -
    obtain r accepted where s: "s = (r, accepted)" by force
    show ?thesis using that unfolding s by (cases q) (simp_all add: fenced_register fenced_remove split: sum.split)
  qed
  have "fenced (fold view_request rs s)" if "fenced s" for s using that by (induction rs arbitrary: s) (simp_all add: step)
  moreover have "fenced (\<lparr>rg_views = [], rg_epochs = []\<rparr>, [])" by (simp add: fenced_def)
  ultimately show ?thesis unfolding view_requests_def by blast
qed

text \<open>Once a view is registered or removed at an epoch, no later registration at that epoch or an earlier one is
  accepted; and a connection never has more than 64 views or 256 view ids.\<close>

theorem registrations_fenced:
  assumes "view_requests rs = (r, accepted)" and "i < j" and "j < length accepted"
    and "accepted ! i = (reg, v, e)" and "accepted ! j = (True, v, e')"
  shows "e < e' \<and> length (rg_views r) \<le> 64 \<and> length (rg_epochs r) \<le> 256"
proof -
  have f: "sorted_wrt later accepted" "length (rg_views r) \<le> 64" "length (rg_epochs r) \<le> 256"
    using fenced_requests [of rs] unfolding assms(1) by (simp_all add: fenced_def)
  have "later (accepted ! i) (accepted ! j)" using f(1) assms(2,3) by (simp add: sorted_wrt_iff_nth_less)
  then show ?thesis using f(2,3) assms(4,5) by (simp add: later_def)
qed

text \<open>Two records, of which the second waits for the first; the connection closes before the second is written.\<close>

definition sample_output :: "nat resource_output" where
  "sample_output = output_run [Sends \<lparr>po_bytes = 10, po_frames = [1, 2]\<rparr>, Writes False, Sends \<lparr>po_bytes = 20, po_frames = [3]\<rparr>, Writes True,
     Drains, Writes True, Writes True, Closes]"

lemma output_witness: "prefix (ou_written sample_output) (frames_of (ou_admitted sample_output)) \<and> ou_written sample_output = [1, 2]"
proof -
  have "ou_written sample_output = [1, 2]"
    by (simp add: sample_output_def output_run_def send_output_def pump_output_def close_output_def RESOURCE_ASSEMBLY_BYTES_def
        RESOURCE_PENDING_BYTES_def Let_def)
  then show ?thesis using output_in_order_and_bounded [OF sample_output_def] by blast
qed

end
