(* ===== verification/ConsoleCalls.thy ===== *)
theory ConsoleCalls
  imports Transports
begin

section \<open>Calls and polling of the console\<close>

text \<open>
  \<open>rpcCall\<close> of \<open>web/src/api/rpc.ts\<close>, from the answer of \<open>fetch\<close> to a value or an error that says whether the outcome
  is known, and \<open>createPoller\<close> of \<open>web/src/state/poller.ts\<close> as a state machine. Timers and \<open>fetch\<close> itself are the
  events; a request carries its text as its id.
\<close>

subsection \<open>Calls\<close>

definition NATIVE_MUTATION_METHODS :: "string list" where
  "NATIVE_MUTATION_METHODS = [''room.create'', ''room.invite'', ''room.revoke'', ''room.message'', ''room.close'', ''room.recover'', ''room.recover.confirm'']"

definition READ_METHODS :: "string list" where
  "READ_METHODS = [''room.list'', ''room.show'', ''room.participants'', ''room.history'']"

definition rpcTimeoutForMethod :: "string \<Rightarrow> nat" where
  "rpcTimeoutForMethod name = (if name \<in> set NATIVE_MUTATION_METHODS then 120000 else 10000)"

definition rpc_body :: "string \<Rightarrow> string \<Rightarrow> (string \<times> json) list \<Rightarrow> json" where
  "rpc_body requestId name params =
     J_obj [(''version'', J_num 1), (''id'', J_str requestId), (''method'', J_str name), (''params'', J_obj params)]"

definition isRpcResponse :: "unknown \<Rightarrow> string \<Rightarrow> bool" where
  "isRpcResponse v requestId \<longleftrightarrow>
     isRecord v \<and> field v ''version'' = Some (J_num 1) \<and> field v ''id'' = Some (J_str requestId)
     \<and> (if ''result'' \<in> set (keys v)
        then ''error'' \<notin> set (keys v) \<and> length (keys v) = 3 \<and> list_all (\<lambda>k. k \<in> {''version'', ''id'', ''result''}) (keys v)
        else length (keys v) = 3 \<and> list_all (\<lambda>k. k \<in> {''version'', ''id'', ''error''}) (keys v)
          \<and> isRecord (field v ''error'') \<and> length (keys (field v ''error'')) = 2
          \<and> string_is (\<lambda>_. True) (field (field v ''error'') ''code'') \<and> string_is (\<lambda>_. True) (field (field v ''error'') ''message''))"

text \<open>What \<open>fetch\<close> does: it throws, for one of three reasons, or answers with \<open>ok\<close> and a body that is JSON or not.\<close>

datatype fetched = Timed_out | Aborted | Unreachable | Response bool "json option"

record rpc_error =
  re_code :: string
  re_outcomeUnknown :: bool

fun answer_text :: "unknown \<Rightarrow> string" where
  "answer_text (Some (J_str s)) = s"
| "answer_text _ = []"

definition rpcCall :: "string \<Rightarrow> string \<Rightarrow> fetched \<Rightarrow> rpc_error + unknown" where
  "rpcCall requestId name f =
     (let outcomeUnknown = (name \<notin> set READ_METHODS) in
      case f of
        Timed_out \<Rightarrow> Inl \<lparr>re_code = ''timeout'', re_outcomeUnknown = outcomeUnknown\<rparr>
      | Aborted \<Rightarrow> Inl \<lparr>re_code = ''aborted'', re_outcomeUnknown = outcomeUnknown\<rparr>
      | Unreachable \<Rightarrow> Inl \<lparr>re_code = ''daemon_unavailable'', re_outcomeUnknown = outcomeUnknown\<rparr>
      | Response ok None \<Rightarrow> Inl \<lparr>re_code = ''invalid_response'', re_outcomeUnknown = outcomeUnknown\<rparr>
      | Response ok (Some payload) \<Rightarrow>
          if \<not> isRpcResponse (Some payload) requestId then Inl \<lparr>re_code = ''invalid_response'', re_outcomeUnknown = outcomeUnknown\<rparr>
          else if ''error'' \<in> set (keys (Some payload))
          then Inl \<lparr>re_code = answer_text (field (field (Some payload) ''error'') ''code''), re_outcomeUnknown = False\<rparr>
          else if \<not> ok then Inl \<lparr>re_code = ''invalid_response'', re_outcomeUnknown = outcomeUnknown\<rparr>
          else Inr (field (Some payload) ''result''))"

subsection \<open>The poller\<close>

text \<open>\<open>pl_active\<close> is the generation and the dirty flag of the run under way; \<open>pl_orphans\<close> counts aborted runs that have
  not returned yet. \<open>pl_begun\<close> are the generations of the runs begun so far.\<close>

record poller =
  pl_started :: bool
  pl_generation :: nat
  pl_visible :: bool
  pl_active :: "(nat \<times> bool) option"
  pl_orphans :: nat
  pl_begun :: "nat list"

definition begin_run :: "poller \<Rightarrow> poller" where
  "begin_run p = p\<lparr>pl_begun := pl_begun p @ [pl_generation p], pl_active := Some (pl_generation p, False)\<rparr>"

definition request_run :: "nat \<Rightarrow> poller \<Rightarrow> poller" where
  "request_run expected p =
     (if \<not> pl_started p \<or> pl_generation p \<noteq> expected \<or> \<not> pl_visible p then p
      else (case pl_active p of
          Some (g, dirty) \<Rightarrow> if g = expected then p\<lparr>pl_active := Some (g, True)\<rparr> else begin_run p
        | None \<Rightarrow> begin_run p))"

text \<open>The run returns; it failed if \<open>ok\<close> is false.\<close>

definition run_ends :: "bool \<Rightarrow> poller \<Rightarrow> poller" where
  "run_ends ok p =
     (case pl_active p of
        None \<Rightarrow> p
      | Some (g, dirty) \<Rightarrow>
          if ok \<and> dirty \<and> pl_started p \<and> pl_generation p = g \<and> pl_visible p then begin_run p else p\<lparr>pl_active := None\<rparr>)"

datatype poll_event = Starts | Ticks nat | Refreshes | Run_ends bool | Orphan_ends | Stops_polling | Visible bool

fun poll_step :: "poll_event \<Rightarrow> poller \<Rightarrow> poller" where
  "poll_step Starts p = (if pl_started p then p else p\<lparr>pl_started := True, pl_generation := Suc (pl_generation p)\<rparr>)"
| "poll_step (Ticks g) p = request_run g p"
| "poll_step Refreshes p = request_run (pl_generation p) p"
| "poll_step (Run_ends ok) p = run_ends ok p"
| "poll_step Orphan_ends p = p\<lparr>pl_orphans := pl_orphans p - 1\<rparr>"
| "poll_step Stops_polling p =
     (if \<not> pl_started p then p
      else p\<lparr>pl_started := False, pl_generation := Suc (pl_generation p), pl_active := None,
        pl_orphans := pl_orphans p + (if pl_active p = None then 0 else 1)\<rparr>)"
| "poll_step (Visible v) p = p\<lparr>pl_visible := v\<rparr>"

definition poll_run :: "poll_event list \<Rightarrow> poller" where
  "poll_run es = fold poll_step es
     \<lparr>pl_started = False, pl_generation = 0, pl_visible = True, pl_active = None, pl_orphans = 0, pl_begun = []\<rparr>"

subsection \<open>What a call reports\<close>

lemma response_is_read:
  "isRpcResponse (Some (response_json (Failed (Some (Id_text i)) code message))) i"
  "isRpcResponse (Some (response_json (Answered (Id_text i) (Some v)))) i"
  "\<not> isRpcResponse (Some (response_json (Answered (Id_text i) None))) i"
  "i \<noteq> j \<Longrightarrow> \<not> isRpcResponse (Some (response_json (Answered (Id_text j) r))) i"
  by (simp_all add: isRpcResponse_def opt_field_def)

text \<open>A call returns exactly what the route answered to this request; an error whose outcome is known is an error the
  daemon answered, or the call only reads.\<close>

lemma call_reports_dispatch:
  assumes "dispatch message_of routes accepting (rpc_body i name params) s = (r, t)" and "1 \<le> js_length i \<and> js_length i \<le> 256"
    and "1 \<le> js_length name \<and> js_length name \<le> 256"
  shows "rpcCall i name (Response (status_of r = 200) (Some (response_json r))) =
    (case r of
       Answered _ (Some v) \<Rightarrow> Inr (Some v)
     | Answered _ None \<Rightarrow> Inl \<lparr>re_code = ''invalid_response'', re_outcomeUnknown = (name \<notin> set READ_METHODS)\<rparr>
     | Failed _ code _ \<Rightarrow> Inl \<lparr>re_code = code, re_outcomeUnknown = False\<rparr>)"
proof -
  have "RpcRequestSchema_parse (rpc_body i name params) = Some \<lparr>rp_id = Id_text i, rp_method = name, rp_params = params\<rparr>"
    using assms(2,3) by (simp add: rpc_body_def RpcRequestSchema_parse_def hasExactKeys_def)
  then have "(\<exists>v. r = Answered (Id_text i) v) \<or> (\<exists>code message. r = Failed (Some (Id_text i)) code message)"
    using assms(1) by (auto simp: dispatch_def errorResponse_def split: option.splits if_splits prod.splits sum.splits)
  then consider v where "r = Answered (Id_text i) (Some v)" | "r = Answered (Id_text i) None"
    | code message where "r = Failed (Some (Id_text i)) code message"
    by (metis option.exhaust)
  then show ?thesis
    by cases (simp_all add: rpcCall_def isRpcResponse_def Let_def opt_field_def)
qed

lemma unknown_outcome:
  assumes "rpcCall i name f = Inl \<lparr>re_code = c, re_outcomeUnknown = False\<rparr>" and "name \<notin> set READ_METHODS"
  shows "\<exists>ok payload. f = Response ok (Some payload) \<and> isRpcResponse (Some payload) i \<and> ''error'' \<in> set (keys (Some payload))"
  using assms by (auto simp: rpcCall_def Let_def split: fetched.splits option.splits if_splits)

subsection \<open>What polling guarantees\<close>

definition poll_ok :: "poller \<Rightarrow> bool" where
  "poll_ok p \<longleftrightarrow> (case pl_active p of None \<Rightarrow> True | Some (g, dirty) \<Rightarrow> pl_started p \<and> g = pl_generation p)"

lemma poll_ok_step: "poll_ok p \<Longrightarrow> poll_ok (poll_step e p)"
  by (cases e) (auto simp: poll_ok_def request_run_def run_ends_def begin_run_def split: option.splits prod.splits if_splits)

lemma active_is_current: "poll_ok (poll_run es)"
proof -
  have "poll_ok (fold poll_step es p)" if "poll_ok p" for p
    using that by (induction es arbitrary: p) (simp_all add: poll_ok_step)
  moreover have "poll_ok \<lparr>pl_started = False, pl_generation = 0, pl_visible = True, pl_active = None, pl_orphans = 0, pl_begun = []\<rparr>"
    by (simp add: poll_ok_def)
  ultimately show ?thesis unfolding poll_run_def by blast
qed

lemma refresh_is_served:
  assumes "pl_started p" and "pl_visible p" and "poll_ok p"
  shows "(pl_active p = None \<longrightarrow> pl_begun (poll_step Refreshes p) = pl_begun p @ [pl_generation p])
    \<and> (pl_active p \<noteq> None \<longrightarrow> pl_begun (poll_step (Run_ends True) (poll_step Refreshes p)) = pl_begun p @ [pl_generation p])"
  using assms by (auto simp: poll_ok_def request_run_def run_ends_def begin_run_def)

lemma stopped_is_quiet:
  "\<not> pl_started p \<Longrightarrow> pl_active p = None \<Longrightarrow> e \<noteq> Starts \<Longrightarrow> pl_begun (poll_step e p) = pl_begun p \<and> pl_active (poll_step e p) = None"
  by (cases e) (simp_all add: request_run_def run_ends_def)

end
