(* ===== verification/Downloads.thy ===== *)
theory Downloads
  imports Console ConsoleRecords
begin

section \<open>Downloading a file\<close>

text \<open>
  \<open>web/src/fileDownload.ts\<close>: how the console fetches the data of one file row, verifies it against the row and
  names the file it saves. SHA-256 is a parameter; object URLs and anchors are left out. A file name is its list
  of code points.
\<close>

datatype download_error = File_integrity

definition b64_letter :: "char \<Rightarrow> bool" where
  "b64_letter c \<longleftrightarrow> is_upper c \<or> is_lower c \<or> is_digit c \<or> c = CHR ''+'' \<or> c = CHR ''/''"

fun b64_shape :: "string \<Rightarrow> bool" where
  "b64_shape [] = True"
| "b64_shape [a, b, c, d] =
     (b64_letter a \<and> b64_letter b \<and> (c = CHR ''='' \<and> d = CHR ''='' \<or> b64_letter c \<and> (d = CHR ''='' \<or> b64_letter d)))"
| "b64_shape (a # b # c # d # s) = (b64_letter a \<and> b64_letter b \<and> b64_letter c \<and> b64_letter d \<and> b64_shape s)"
| "b64_shape _ = False"

definition decodeCanonicalBase64 :: "string \<Rightarrow> download_error + string" where
  "decodeCanonicalBase64 v =
     (if \<not> b64_shape v then Inl File_integrity
      else (let binary = b64_decode v in if b64_encode binary \<noteq> v then Inl File_integrity else Inr binary))"

definition verifiedFileBytes :: "(string \<Rightarrow> string) \<Rightarrow> file_row \<Rightarrow> download_error + string" where
  "verifiedFileBytes sha file =
     (case fr_data_base64 file of
        None \<Rightarrow> Inl File_integrity
      | Some data \<Rightarrow> (case decodeCanonicalBase64 data of
            Inl e \<Rightarrow> Inl e
          | Inr bytes \<Rightarrow>
              if int (length bytes) \<noteq> fr_size file then Inl File_integrity
              else if sha bytes \<noteq> fr_sha256 file then Inl File_integrity
              else Inr bytes))"

definition safeDownloadName :: "nat list \<Rightarrow> nat list" where
  "safeDownloadName filename =
     (let clean = map (\<lambda>c. if c = 47 \<or> c = 92 \<or> is_cc c \<or> is_cf c then 95 else c) filename;
          suffix = takeWhile (\<lambda>c. c = 32 \<or> c = 46) (rev clean);
          withoutUnsafe = take (length clean - length suffix) clean @ replicate (length suffix) 95 in
      if withoutUnsafe \<noteq> [] then withoutUnsafe else map byte ''download'')"

text \<open>What is saved: the name of the anchor and the bytes of the blob.\<close>

definition downloadVerifiedFile :: "(string \<Rightarrow> string) \<Rightarrow> file_row \<Rightarrow> download_error + nat list \<times> string" where
  "downloadVerifiedFile sha file =
     (case verifiedFileBytes sha file of
        Inl e \<Rightarrow> Inl e
      | Inr bytes \<Rightarrow> Inr (safeDownloadName (cps (fr_filename file)), bytes))"

text \<open>The parameters of the call, and what is made of its answer.\<close>

definition content_request :: "file_row \<Rightarrow> string \<times> int \<times> int" where
  "content_request file = (takeWhile (\<lambda>c. c \<noteq> CHR '':'') (fr_record_id file), int (fr_seq file) - 1, 1)"

definition loadFileContent :: "file_row \<Rightarrow> unknown \<Rightarrow> download_error + string" where
  "loadFileContent file records =
     (let roomId = fst (content_request file) in
      case records of
        Some (J_arr [r]) \<Rightarrow>
          if \<not> isHistoryDto records then Inl File_integrity
          else (let v = Some r in
            if field v ''kind'' \<noteq> Some (J_str ''file'') \<or> field v ''room_id'' \<noteq> Some (J_str roomId)
              \<or> field v ''record_id'' \<noteq> Some (J_str (fr_record_id file)) \<or> field v ''seq'' \<noteq> Some (J_num (int (fr_seq file)))
              \<or> field v ''file_id'' \<noteq> Some (J_str (fr_file_id file)) \<or> field v ''sha256'' \<noteq> Some (J_str (fr_sha256 file))
              \<or> field v ''size'' \<noteq> Some (J_num (fr_size file)) \<or> field v ''filename'' \<noteq> Some (J_str (fr_filename file))
              \<or> field v ''mime'' \<noteq> Some (J_str (fr_mime file))
            then Inl File_integrity
            else (case field v ''data_base64'' of Some (J_str data) \<Rightarrow> Inr data | _ \<Rightarrow> Inl File_integrity))
      | _ \<Rightarrow> Inl File_integrity)"

subsection \<open>Base64 is read as it is written\<close>

lemma b64_letters: "n < 64 \<Longrightarrow> b64_letter (b64_char n)"
  using b64_val_char [of n] by (auto simp: b64_char_def b64_letter_def is_upper_def is_lower_def is_digit_def in_range_def byte_def)

lemma b64_shape_encode: "b64_shape (b64_encode s)"
proof (induction s rule: b64_encode.induct)
  case (4 a b c s)
  then show ?case by (cases "b64_encode s" rule: b64_shape.cases) (simp_all add: b64_letters b64_ranges)
qed (simp_all add: b64_letters b64_ranges)

lemma decode_canonical: "b64_encode (b64_decode v) = v \<Longrightarrow> decodeCanonicalBase64 v = Inr (b64_decode v)"
  using b64_shape_encode [of "b64_decode v"] by (simp add: decodeCanonicalBase64_def)

subsection \<open>Names\<close>

definition replaced :: "nat \<Rightarrow> bool" where
  "replaced c \<longleftrightarrow> c = 47 \<or> c = 92 \<or> is_cc c \<or> is_cf c"

lemma replacement_kept: "\<not> replaced 95"
  by code_simp

lemma last_not_suffix: "rest \<noteq> [] \<Longrightarrow> takeWhile P (rev (rest @ sfx)) = rev sfx \<Longrightarrow> \<not> P (last rest)"
  by (cases rest rule: rev_cases) (auto simp: takeWhile_append split: if_splits)

lemma suffix_split:
  fixes P and clean :: "'a list"
  defines "sfx \<equiv> rev (takeWhile P (rev clean))" and "rest \<equiv> take (length clean - length (takeWhile P (rev clean))) clean"
  shows "clean = rest @ sfx \<and> (rest = [] \<or> \<not> P (last rest))"
proof -
  have "rest = rev (dropWhile P (rev clean))"
    unfolding rest_def dropWhile_eq_drop by (simp add: rev_drop)
  moreover have "clean = rev (dropWhile P (rev clean)) @ sfx"
    using takeWhile_dropWhile_id [of P "rev clean"] unfolding sfx_def by (metis rev_append rev_rev_ident)
  ultimately show ?thesis by (metis hd_dropWhile last_rev rev_is_Nil_conv)
qed

lemma safe_name:
  "safeDownloadName filename \<noteq> [] \<and> (\<forall>c\<in>set (safeDownloadName filename). \<not> replaced c)
    \<and> last (safeDownloadName filename) \<notin> {32, 46}"
proof -
  define clean where "clean = map (\<lambda>c. if replaced c then 95 else c) filename"
  define sfx where "sfx = rev (takeWhile (\<lambda>c. c = 32 \<or> c = 46) (rev clean))"
  define rest where "rest = take (length clean - length sfx) clean"
  define plain where "plain = rest @ replicate (length sfx) (95::nat)"
  note split = suffix_split [of clean "\<lambda>c. c = 32 \<or> c = 46", folded sfx_def]
  have rest: "clean = rest @ sfx" "rest = [] \<or> last rest \<notin> {32, 46}"
    using split by (simp_all add: rest_def sfx_def)
  have kept: "\<forall>c\<in>set clean. \<not> replaced c" by (auto simp: clean_def replacement_kept)
  have plain_kept: "\<forall>c\<in>set plain. \<not> replaced c"
    using kept rest(1) by (auto simp: plain_def replacement_kept)
  have end_kept: "plain \<noteq> [] \<Longrightarrow> last plain \<notin> {32, 46}"
    using rest(2) by (auto simp: plain_def last_append)
  have name: "safeDownloadName filename = (if plain \<noteq> [] then plain else map byte ''download'')"
    by (simp only: safeDownloadName_def Let_def plain_def rest_def sfx_def clean_def replaced_def length_rev)
  have fallback: "list_all (\<lambda>c. \<not> replaced c) (map byte ''download'') \<and> last (map byte ''download'') \<notin> {32, 46}"
    by code_simp
  show ?thesis using plain_kept end_kept fallback unfolding name list_all_iff by auto
qed

subsection \<open>The file that is saved is the archived one\<close>

lemma verified_matches:
  assumes "downloadVerifiedFile sha item = Inr (name, bytes)"
  shows "int (length bytes) = fr_size item \<and> sha bytes = fr_sha256 item \<and> name = safeDownloadName (cps (fr_filename item))"
  using assms by (auto simp: downloadVerifiedFile_def verifiedFileBytes_def split: option.splits sum.splits if_splits)

lemma row_at_seq:
  assumes "map w_seq rs = [1..<Suc (length rs)]" and "w \<in> set rs"
  shows "1 \<le> w_seq w \<and> take 1 (filter (\<lambda>v. w_seq w - 1 < w_seq v) rs) = [w]"
proof -
  obtain i where i: "i < length rs" "rs ! i = w" using assms(2) by (auto simp: in_set_conv_nth)
  have at: "w_seq (rs ! j) = Suc j" if "j < length rs" for j
  proof -
    have "map w_seq rs ! j = [1..<Suc (length rs)] ! j" using assms(1) by simp
    then show ?thesis using that by (simp del: upt_Suc)
  qed
  have before: "filter (\<lambda>v. w_seq w - 1 < w_seq v) (take i rs) = []"
    using at i by (auto simp: filter_empty_conv in_set_conv_nth)
  have "filter (\<lambda>v. w_seq w - 1 < w_seq v) rs
      = filter (\<lambda>v. w_seq w - 1 < w_seq v) (take i rs @ w # drop (Suc i) rs)"
    using id_take_nth_drop [OF i(1)] i(2) by simp
  then show ?thesis unfolding filter_append before using at [OF i(1)] i(2) by simp
qed

lemma before_colon: "list_all (\<lambda>c. c \<noteq> CHR '':'') s \<Longrightarrow> takeWhile (\<lambda>c. c \<noteq> CHR '':'') (s @ CHR '':'' # t) = s"
  by (induction s) simp_all

lemma ulid_no_colon:
  assumes "ulid_ok s" shows "list_all (\<lambda>c. c \<noteq> CHR '':'') s"
proof -
  have "\<not> crockford_char CHR '':''" "\<not> in_range CHR ''0'' CHR ''7'' CHR '':''" by code_simp+
  then show ?thesis using assms by (auto simp: ulid_ok_def list_all_iff split: list.splits)
qed

text \<open>C29: the console saves a file exactly as it was archived, or not at all: when the daemon answers the request
  for the one row from the file's position on (the record fits a history page), it answers with that file, whose data
  the console accepts, verifies and saves whole; and whatever data the console is given instead, it saves only bytes
  of the archived size and digest, under a name that holds no path separator, control or format character and does
  not end in a blank or a dot.\<close>

theorem download_is_archived:
  assumes ok: "world_ok env rid st" and w: "w \<in> set (a_rows (v_archive st))" "w_body w = File f" "positive_safe (int (w_seq w))"
    and item: "item = projectFile (row.extend w (dto_row.fields d)) f"
    and request: "content_request item = (asked, after, limit)"
    and page: "history env Operator (Some after) (Some limit) st = (Inr (Full page), st')"
  shows "asked = rid \<and> loadFileContent item (Some (J_arr (map (row_json True) page))) = Inr (f_data_base64 f)
    \<and> downloadVerifiedFile (e_sha env) (item\<lparr>fr_data_base64 := Some (f_data_base64 f)\<rparr>) =
        Inr (safeDownloadName (cps (f_filename f)), b64_decode (f_data_base64 f))
    \<and> (\<forall>data name bytes. downloadVerifiedFile (e_sha env) (item\<lparr>fr_data_base64 := data\<rparr>) = Inr (name, bytes) \<longrightarrow>
        int (length bytes) = f_size f \<and> e_sha env bytes = f_sha256 f \<and> name \<noteq> []
        \<and> (\<forall>c\<in>set name. c \<noteq> 47 \<and> c \<noteq> 92 \<and> \<not> is_cc c \<and> \<not> is_cf c) \<and> last name \<notin> {32, 46})"
proof -
  obtain room where room: "v_room st = Some room"
    using page by (cases "v_room st") (auto simp: history_def archived_def bnd_def raise_def gets_def ret_def split: if_splits)
  have row: "row_ok (e_sha env) rid w" and seqs: "map w_seq (a_rows (v_archive st)) = [1..<Suc (length (a_rows (v_archive st)))]"
    using ok w(1) by (auto simp: world_ok_def archive_ok_def list_all_iff)
  have rid: "ulid_ok rid" using world_okD [OF ok room] by (auto simp: room_checks_def room_fields_ok_def)
  have parsed: "CommunicationRecordSchema_parse (e_sha env) w = Inr w"
    using row rid w(3) by (simp add: row_ok_def CommunicationRecordSchema_parse_def)
  have exact: "refineFileRecord (e_sha env) f" using row w(2) by (simp add: row_ok_def split: if_splits)
  have fields: "fr_record_id item = record_id_of rid (w_seq w)" "fr_seq item = w_seq w" "fr_file_id item = f_file_id f"
    "fr_filename item = f_filename f" "fr_mime item = f_mime f" "fr_size item = f_size f" "fr_sha256 item = f_sha256 f"
    using row unfolding item by (simp_all add: projectFile_def row.defs row_ok_def)
  have asked: "asked = rid" "after = int (w_seq w) - 1" "limit = 1"
    using request before_colon [OF ulid_no_colon [OF rid]] by (auto simp: content_request_def fields record_id_of_def)
  have found: "1 \<le> w_seq w" "take 1 (filter (\<lambda>v. w_seq w - 1 < w_seq v) (a_rows (v_archive st))) = [w]"
    using row_at_seq [OF seqs w(1)] by simp_all
  have after: "nat (int (w_seq w) - 1) = w_seq w - 1" using found(1) by simp
  have pages: "page = [w]"
  proof -
    have one: "nat (1::int) = 1" by simp
    have found_page: "page_after (Some (int (w_seq w) - 1)) (Some 1) (v_archive st) = [w]"
      unfolding page_after_def Let_def default_to_def option.case after one by (rule found(2))
    have valid: "opt_ok nonneg_safe (Some (int (w_seq w) - 1)) \<and> opt_ok positive_safe (Some (1::int))"
      using page unfolding history_def asked by (auto simp: raise_def split: if_splits)
    have bounded: "lift_sum (byteBoundedHistoryPage (\<lambda>v. stringify (row_json True v)) [w]) st = (Inr page, st')"
      using page valid room found_page unfolding history_def asked
      by (simp add: archived_def bnd_def gets_def raise_def ret_def split: sum.splits prod.splits)
    have "byteBoundedHistoryPage (\<lambda>v. stringify (row_json True v)) [w] = Inr page"
      using bounded by (simp add: lift_sum_def ret_def raise_def split: sum.splits)
    then show ?thesis unfolding byteBoundedHistoryPage_def by (simp add: Let_def split: if_splits)
  qed
  have guard: "isRecordDto (Some (row_json True w)) False"
    using console_accepts_records [OF parsed, of True] w(2) by (simp add: row_value_def)
  have common: "field (Some (row_json True w)) ''kind'' = Some (J_str ''file'')"
    "field (Some (row_json True w)) ''room_id'' = Some (J_str rid)" 
    "field (Some (row_json True w)) ''record_id'' = Some (J_str (record_id_of rid (w_seq w)))"
    "field (Some (row_json True w)) ''seq'' = Some (J_num (int (w_seq w)))"
    using row w(2) by (simp_all add: row_json_def file_fields_def row_ok_def)
  note contents = file_fields_of [OF w(2), of True, unfolded row_value_def]
  have loaded: "loadFileContent item (Some (J_arr (map (row_json True) page))) = Inr (f_data_base64 f)"
    using guard common contents asked(1) request
    by (simp add: loadFileContent_def pages isHistoryDto_def fields)
  have enc: "b64_encode (b64_decode (f_data_base64 f)) = f_data_base64 f" "int (length (b64_decode (f_data_base64 f))) = f_size f"
    "e_sha env (b64_decode (f_data_base64 f)) = f_sha256 f"
    using exact by (auto simp: refineFileRecord_def Let_def)
  have saved: "downloadVerifiedFile (e_sha env) (item\<lparr>fr_data_base64 := Some (f_data_base64 f)\<rparr>) =
      Inr (safeDownloadName (cps (f_filename f)), b64_decode (f_data_base64 f))"
    using decode_canonical [OF enc(1)] enc(2,3) by (simp add: downloadVerifiedFile_def verifiedFileBytes_def fields)
  have same: "fr_size (item\<lparr>fr_data_base64 := data\<rparr>) = f_size f" "fr_sha256 (item\<lparr>fr_data_base64 := data\<rparr>) = f_sha256 f"
    "fr_filename (item\<lparr>fr_data_base64 := data\<rparr>) = f_filename f" for data
    using fields by simp_all
  have only: "int (length bytes) = f_size f \<and> e_sha env bytes = f_sha256 f \<and> name \<noteq> []
      \<and> (\<forall>c\<in>set name. c \<noteq> 47 \<and> c \<noteq> 92 \<and> \<not> is_cc c \<and> \<not> is_cf c) \<and> last name \<notin> {32, 46}"
    if "downloadVerifiedFile (e_sha env) (item\<lparr>fr_data_base64 := data\<rparr>) = Inr (name, bytes)" for data name bytes
  proof -
    have name: "name = safeDownloadName (cps (f_filename f))" and bytes: "int (length bytes) = f_size f \<and> e_sha env bytes = f_sha256 f"
      using verified_matches [OF that] unfolding same by simp_all
    show ?thesis using safe_name [of "cps (f_filename f)", folded name] bytes by (simp add: replaced_def)
  qed
  show ?thesis
    by (rule conjI [OF asked(1) conjI [OF loaded conjI [OF saved]]]) (intro allI impI, rule only)
qed

text \<open>A room whose archive holds one file.\<close>

definition sample_file :: file_item where
  "sample_file = \<lparr>f_file_id = ident 20, f_author = sample_author CHR ''B'',
     f_author_alias = None, f_filename = ''v1.'', f_mime = ''text/plain'', f_size = 2, f_sha256 = sha_0 [], f_data_base64 = ''aGk='',
     f_recipients = [cid CHR ''A''], f_source_file_id = 1, f_source_wire_id = None, f_source_reply_to = None\<rparr>"

definition file_world :: world where
  "file_world = sample_world\<lparr>v_archive := archived [File sample_file] empty_archive\<rparr>"

definition sample_selection :: file_row where
  "sample_selection = projectFile (row.extend (sample_row 1 (File sample_file)) (dto_row.fields None)) sample_file"

lemma file_world_ok: "world_ok sample_env rid_0 file_world"
  using sample_world_ok archived_ok [OF empty_archive_ok, of "[File sample_file]"]
  by (simp add: world_ok_def file_world_def sample_env_def sample_world_def del: archived.simps)

lemma file_world_rows: "a_rows (v_archive file_world) = [sample_row 1 (File sample_file)]"
  by code_simp

lemma download_witness:
  "downloadVerifiedFile sha_0 (sample_selection\<lparr>fr_data_base64 := Some ''aGk=''\<rparr>)
    = Inr (safeDownloadName (cps ''v1.''), b64_decode ''aGk='')"
proof -
  have request: "content_request sample_selection = (rid_0, 0, 1)" by code_simp
  have page: "history sample_env Operator (Some 0) (Some 1) file_world = (Inr (Full [sample_row 1 (File sample_file)]), file_world)"
    by code_simp
  have w: "sample_row 1 (File sample_file) \<in> set (a_rows (v_archive file_world))"
    "w_body (sample_row 1 (File sample_file)) = File sample_file" "positive_safe (int (w_seq (sample_row 1 (File sample_file))))"
    by (simp_all add: file_world_rows sample_row_def positive_safe_def max_safe_def)
  from download_is_archived [OF file_world_ok w sample_selection_def request page] show ?thesis
    by (simp add: sample_file_def sample_env_def)
qed

end
