(* ===== verification/Spec2Isabelle.thy ===== *)
theory Spec2Isabelle
  imports Scenarios Pump Ulid ConsoleRooms SupervisorLock Streams ConsoleViews Transports Crashes Console Mutex Supervision Owners Boot DaemonLock
    Watcher Outputs ConsoleCalls Downloads
begin

text \<open>
  Verification library of ours-cowork: rooms, hosted on a shared ours daemon, in which identities
  exchange messages and files through a room identity that archives everything and relays it. The
  model is a shallow embedding of the TypeScript under \<open>src/\<close> (the daemon) and \<open>web/src/\<close> (its
  console); definitions keep the source's names.

  The program. A room is a metadata file and an append-only archive (\<open>storage.ts\<close>, with the schemas
  of \<open>contracts.ts\<close> and \<open>thread-contracts.ts\<close>) behind a room identity of the SDK (\<open>packets.ts\<close>).
  \<open>service.ts\<close> holds the operations, each a section under the room's mutex, and runs the intake pump
  (\<open>intake.ts\<close>) outside it. Operators come through REST and a private socket, participants through
  SDK commands (\<open>command-routes.ts\<close>), over HTTP and a Unix socket (\<open>transports.ts\<close>). The daemon streams
  views of its rooms (\<open>resource-views.ts\<close>) to the console (\<open>state/poller.ts\<close>), which reads them through its own
  type guards (\<open>api/types.ts\<close>). The daemon is a worker process (\<open>daemon-runtime.ts\<close>) under a supervisor
  (\<open>daemon.ts\<close>) that knows the leases of the worker on the shared ours daemon and settles them when it ends; one
  supervisor at a time owns a state directory (\<open>supervisor-lock.ts\<close>).

  The model. A section of the service is an effect \<open>world \<Rightarrow> (err + 'a) \<times> world\<close> (\<open>Prelude\<close>, type
  \<open>eff\<close>): the error or the result, and the state it leaves behind, also when it throws. \<open>world\<close> is the
  state behind one room: metadata, archive, the hosted packet with its contacts and invites, the
  inbox, what was sent, and a tick that counts the calls of the environment. The record \<open>env\<close> is what
  the code cannot see into: the clock, identifiers, the digest, NFC, and the answers of the SDK, each a
  function of the tick, so that every answer, error or order of errors is possible.

  The theories, in import order.
  \<^item> \<open>Prelude\<close>: effects, the collections \<open>keeps_intro\<close>, \<open>gives_intro\<close>, \<open>post_intro\<close> and \<open>moves_intro\<close> with
    their rules, and the locale \<open>state_order\<close>, interpreted for each way a section may move the state.
    \<open>JString\<close>, \<open>Json\<close>: UTF-8 strings with JavaScript's operations, and JSON text.
  \<^item> \<open>Scalars\<close>, \<open>Base64\<close>, \<open>Commands\<close>, \<open>Names\<close>, \<open>Contracts\<close>, \<open>Records\<close>: the schemas of
    \<open>contracts.ts\<close> as parsers, rooms, and archive records.
  \<^item> \<open>Archive\<close>: the append-only log, its unique columns, its work table and its queries
    (\<open>storage.ts\<close>), with the contract of a log as the locale \<open>append_log\<close>.
  \<^item> \<open>Replies\<close>, \<open>Threads\<close>, \<open>History\<close>: \<open>reply-threading.ts\<close>, \<open>threads.ts\<close>, \<open>thread-history.ts\<close>.
  \<^item> \<open>World\<close>: the state, the store and the packet, and the room invariant \<open>room_inv\<close>; a section also reports the
    failures of the calls nested in it (\<open>absorb\<close>), as \<open>withRoom\<close> does.
  \<^item> \<open>Briefings\<close>, \<open>Membership\<close>, \<open>Invites\<close>, \<open>Settings\<close>, \<open>Lifecycle\<close>, \<open>Journal\<close>, \<open>Closing\<close>,
    \<open>Messages\<close>: the operations of \<open>service.ts\<close>, each with the lemma that it keeps the invariant.
  \<^item> \<open>Intake\<close>, \<open>Relay\<close>: \<open>intake.ts\<close>; \<open>Pump\<close>: how it coalesces wakeups.
  \<^item> \<open>Service\<close>, \<open>Fallback\<close>, \<open>Routes\<close>: the public operations as one function \<open>serve\<close>, queries without an
    index, routes and participant commands.
  \<^item> \<open>Mutex\<close>: the mutex of a room as steps of contexts, with nested and left-over work.
  \<^item> \<open>System\<close>: every interleaving of the sections on one room (\<open>step\<close>, \<open>reachable\<close>).
  \<^item> \<open>Guards\<close>, \<open>Admission\<close>, \<open>Delivery\<close>, \<open>Endings\<close>, \<open>Termination\<close>: the properties of the operations,
    from what they refuse to how their loops end.
  \<^item> \<open>Ulid\<close>: \<open>ulid.ts\<close> on 32-bit words.
  \<^item> \<open>Dto\<close>, \<open>DtoRooms\<close>, \<open>ConsoleRecords\<close>, \<open>ConsoleRooms\<close>: the console's guards, and which records and rooms of
    the daemon they accept.
  \<^item> \<open>Console\<close>, \<open>Downloads\<close>, \<open>ConsoleCalls\<close>: the console's projections of a room and its controls
    (\<open>roomModel.ts\<close>), the verification of a file it saves (\<open>fileDownload.ts\<close>), its calls and its poller (\<open>rpc.ts\<close>,
    \<open>createPoller\<close> of \<open>poller.ts\<close>).
  \<^item> \<open>Views\<close>, \<open>ConsoleViews\<close>: what the daemon sends for a view, and the console's copy of it. \<open>JsonParse\<close>, \<open>Frames\<close>,
    \<open>Streams\<close>: JSON as it is written and read, the chunked frames in between, and their delivery; \<open>Outputs\<close>: the
    bounded writer of a connection and the fences of its registrations.
  \<^item> \<open>Transports\<close>: the dispatcher, the line protocol of the private socket, the decisions of the HTTP listener.
  \<^item> \<open>SupervisorLock\<close>: the lock of the state directory, as steps of competing processes; \<open>Supervision\<close>: the supervisor,
    its worker and the records of its leases (\<open>daemon.ts\<close>, \<open>daemon-process.ts\<close>, \<open>owner-cleanup.ts\<close>).
  \<^item> \<open>Owners\<close>: the ledger of room owners (\<open>room-owners.ts\<close>) and who holds a room identity; \<open>Boot\<close>, \<open>DaemonLock\<close>: recovery,
    cleanup and the PID file of \<open>daemon-runtime.ts\<close>, where the answers of the service to the calls of the recovery are a
    parameter; \<open>Watcher\<close>: the notification watcher of \<open>ours-runtime.ts\<close>.
  \<^item> \<open>Durability\<close>, \<open>Crashes\<close>: the files of a room as sequences of file operations, and what kills, failed
    transactions and power losses leave of them.
  \<^item> \<open>Samples\<close>, \<open>Witnesses\<close>, \<open>Scenarios\<close>: a sample room, and every property applied to a run in it.

  What is shown. Invariants of every reachable state (C1 to C3); that the loops of the fan-out and the relay end and
  what holds when they do; what closing, removal, refusal and deletion guarantee, refusal for every kind of command a
  participant can send; who may be admitted, what is sent to whom, and that neither a relay nor a history tells who is
  behind an alias; how replies and threads resolve; that paging loses nothing; that no wakeup
  of the pump is lost when nothing fails; that one section at a time works on a room and reports what went wrong in it;
  exactly which rooms and records of the daemon the console understands, and that its copy of a view is what the daemon
  projected as long as no refresh of a delivered view is interrupted by pending intake (\<open>interrupted_refresh_breaks_view\<close>
  is the other case); that a stream is read as it was sent, over a bounded output, unless one piece of it exceeds the
  input of the reader; that pages merge to the archive and a saved file is the archived one; that the state directory
  has one owner, no lease is forgotten and no room locked out of its identity; that under a supervisor the cleanup attests
  before it releases, and that the watcher skips no notification; that committed files survive kills, failures, and power
  losses as long as no sync of a blob directory has failed (\<open>failed_sync_loses_blob\<close> is the other case), that metadata
  survive crashes, and that a deletion can be resumed; which requests reach the service at all.

  Loops and fuel. The pages of unresolved journal entries are read with fuel for one page more than
  there are rows (\<open>for_unresolved\<close>); \<open>for_unresolved_fuel\<close> shows that more changes nothing. The relay
  loop, the completion of intents, the drain of the inbox and the acknowledgement of one message
  are also written as \<open>partial_function\<close>s without fuel and shown to return, and the fuelled forms
  agree with them. The theorem on the drain (\<open>drain_ends\<close>) is one about an inbox that does not grow meanwhile: arrivals
  during a drain, which takes many sections in the code, can keep it going, and \<open>drainRuntimeCommands\<close> is left out.

  Not modelled. File modes, symbolic links and the sidecar files of SQLite, whose transactions are taken to
  be atomic and durable. The SDK behind \<open>ours-runtime.ts\<close> and the shared ours daemon are parameters. Of the
  supervision, forking, handshake timers and private files; of \<open>daemon-runtime.ts\<close>, the construction of the
  components and the control routes; of \<open>transports.ts\<close>, sockets, timeouts and static files (\<open>web.ts\<close>); of the console's
  session, timers and reconnection. The command line, configuration and diagnostics, the OpenAPI document and
  the React components hold no rule about rooms. Fractional JSON numbers are not represented. Inside one section the
  inbox does not grow; an arrival is a step between sections. Of \<open>Pump\<close>, which promise a caller awaits is left out.
\<close>

section \<open>Properties of the whole system\<close>

text \<open>C1: whatever operators, participants, the daemon and restarts do to a room, in any order, its metadata
  stays well formed: it is this room's, participant ids and the identities of its live seats are
  distinct, only active participants hold command grants, aliases exist exactly in an anonymous room
  and tell the active participants apart, no removal is dated after the membership epoch, and
  reading the metadata back changes nothing.\<close>

theorem reachable_room_valid:
  assumes "nfc_laws (e_nfc env)" and "reachable env rid w" and "v_room w = Some room"
  shows "r_room_id room = rid \<and> RoomSchema_parse (e_nfc env) room = Inr room
    \<and> distinct (map s_participant_id (r_seats room))
    \<and> distinct (map s_identity (filter live_seat (r_seats room)))
    \<and> (\<forall>g\<in>set (r_command_grants room). is_active_cid room (g_caller_cid g))
    \<and> (\<forall>s\<in>set (r_seats room). (r_anonymous room \<longleftrightarrow> s_alias s \<noteq> None)
         \<and> opt_ok (\<lambda>e. e \<le> r_membership_epoch room) (s_removed_epoch s))
    \<and> distinct (List.map_filter s_alias (active_seats room))"
  using world_okD [OF reachable_world_ok [OF assms(1,2)] assms(3)]
  by (auto simp: room_checks_def room_seats_ok_def room_grants_ok_def list_all_iff)

text \<open>C2: the archive of a reachable room is a gapless log of its own records, each named by its position,
  holding every incoming message, every incoming file and every thread start at most once; and its
  work table is exact: it lists a recipient of an item if and only if no later relay intent exists for
  that recipient.\<close>

theorem reachable_archive_valid:
  assumes "nfc_laws (e_nfc env)" and "reachable env rid w"
  shows "map w_seq (a_rows (v_archive w)) = [1..<Suc (length (a_rows (v_archive w)))]
    \<and> (\<forall>v\<in>set (a_rows (v_archive w)). w_room_id v = rid \<and> w_record_id v = record_id_of rid (w_seq v))
    \<and> distinct (List.map_filter (\<lambda>v. source_msg_id_of (w_body v)) (a_rows (v_archive w)))
    \<and> distinct (List.map_filter (\<lambda>v. source_file_id_of (w_body v)) (a_rows (v_archive w)))
    \<and> distinct (List.map_filter (\<lambda>v. thread_creation_key (w_body v)) (a_rows (v_archive w)))
    \<and> (\<forall>n c. (n, c) \<in> set (a_work (v_archive w)) \<longleftrightarrow> awaits_intent (a_rows (v_archive w)) n c)"
  using reachable_world_ok [OF assms]
  unfolding world_ok_def archive_ok_def unique_column_def row_ok_def list_all_iff by blast

text \<open>C3: a room only moves forward, in every interleaving: its lifecycle and its membership epoch never
  decrease, its identity is never replaced, no seat is dropped, reassigned or revived, and its
  archive is only ever appended to.\<close>

theorem room_only_moves_forward:
  assumes nfc: "nfc_laws (e_nfc env)" and w: "world_ok env rid w" and run: "(step env rid)\<^sup>*\<^sup>* w w'"
    and rooms: "v_room w = Some room" "v_room w' = Some room'"
  shows "r_state room \<le> r_state room' \<and> r_membership_epoch room \<le> r_membership_epoch room'
    \<and> (r_identity_cid room \<noteq> [] \<longrightarrow> r_identity_cid room' = r_identity_cid room)
    \<and> (\<forall>s\<in>set (r_seats room). \<exists>s'\<in>set (r_seats room'). seat_step s s')
    \<and> (\<exists>new. a_rows (v_archive w') = a_rows (v_archive w) @ new)"
  using steps_inv [OF nfc run room_inv_start [OF w rooms(1)]] rooms(2)
  by (simp add: room_inv_def evolves_def)

section \<open>The properties of the system at a sample run\<close>

definition room_request :: create_room_request where
  "room_request = \<lparr>nq_name = Some ''Ship it'', nq_goal = ''ship'', nq_briefing = ''welcome'', nq_anonymous = Some True,
     nq_quiet_membership = None, nq_activation_requirements = None\<rparr>"

definition empty_world :: world where
  "empty_world = \<lparr>v_room = None, v_archive = empty_archive, v_hosted = False, v_cid = [], v_contacts = [],
     v_core_invites = [], v_provenance = False, v_published = None, v_inbox = [], v_files = [], v_sent = [], v_tick = 0\<rparr>"

definition created_world :: world where
  "created_world = snd (createRoom sample_env rid_0 room_request empty_world)"

lemma created_reachable: "reachable sample_env rid_0 created_world"
proof -
  have "createRoom sample_env rid_0 room_request empty_world
      = (fst (createRoom sample_env rid_0 room_request empty_world), created_world)"
    by (simp add: created_world_def)
  then show ?thesis by (intro reachable.created [OF reachable.start]) (simp_all add: empty_world_def)
qed

lemma reachable_room_witness: "\<exists>room. v_room created_world = Some room \<and> r_room_id room = rid_0"
proof -
  have "case v_room created_world of None \<Rightarrow> False | Some r \<Rightarrow> True" by code_simp
  then obtain room where "v_room created_world = Some room" by (auto split: option.splits)
  from reachable_room_valid [OF sample_nfc created_reachable this] this show ?thesis by blast
qed

lemma reachable_archive_witness:
  "map w_seq (a_rows (v_archive created_world)) = [1..<Suc (length (a_rows (v_archive created_world)))]"
  using reachable_archive_valid [OF sample_nfc created_reachable] by blast

lemma forward_witness:
  "case v_room (snd (serve sample_unpack False sample_env rid_0 Close sample_world)) of
     None \<Rightarrow> False | Some room' \<Rightarrow> r_membership_epoch sample_room \<le> r_membership_epoch room'"
proof -
  let ?run = "serve sample_unpack False sample_env rid_0 Close sample_world"
  have "case v_room (snd ?run) of None \<Rightarrow> False | Some r \<Rightarrow> True" by code_simp
  then obtain room' where r: "v_room (snd ?run) = Some room'" by (auto split: option.splits)
  have "?run = (fst ?run, snd ?run)" by simp
  then have "(step sample_env rid_0)\<^sup>*\<^sup>* sample_world (snd ?run)" by (intro r_into_rtranclp step.request)
  from room_only_moves_forward [OF sample_nfc sample_world_ok this sample_room_loaded r] r
  show ?thesis by (simp only: option.case)
qed

end
